(* ===== verification/Prelude.thy ===== *)
theory Prelude
  imports Main "HOL-Library.Word" "HOL-Library.Signed_Division" "HOL-Library.Multiset"
begin

text \<open>
  Shared vocabulary of the development: the errors a kernel path can end in, the
  result type that carries them, C arrays and C integer arithmetic, the C string
  routines the kernel calls, and generic combinators for the counting loops of the
  source. Every lemma here is about lists, options, integers or words in general;
  nothing refers to a component.
\<close>

section \<open>Errors and results\<close>

text \<open>
  How a call can fail to return normally: an \<^verbatim>\<open>ASSERT\<close> of the source fails (the
  kernel dumps core); an array access outside the bounds of the array or a dereference
  of a null or dangling pointer (undefined behaviour in C++); a signed overflow
  (undefined behaviour as well); the calling thread would block for ever; a loop ran
  out of the fuel given to it; the machine was halted.
\<close>

datatype nachos_error =
    AssertFailed
  | OutOfBounds
  | NullDeref
  | SignedOverflow
  | WouldBlock
  | OutOfFuel
  | MachineHalted

type_synonym 'a res = "nachos_error + 'a"

type_synonym byte = "8 word"

named_theorems res_simps \<open>unfolding of the result combinators\<close>

definition bindR :: "'a res \<Rightarrow> ('a \<Rightarrow> 'b res) \<Rightarrow> 'b res" where
  "bindR m f = (case m of Inl e \<Rightarrow> Inl e | Inr x \<Rightarrow> f x)"

definition ASSERT :: "bool \<Rightarrow> unit res" where
  "ASSERT b = (if b then Inr () else Inl AssertFailed)"

lemma bindR_Inl [simp]: "bindR (Inl e) f = Inl e"
  by (simp add: bindR_def)

lemma bindR_Inr [simp]: "bindR (Inr x) f = f x"
  by (simp add: bindR_def)

lemma bindR_assoc [simp]: "bindR (bindR m f) g = bindR m (\<lambda>x. bindR (f x) g)"
  by (cases m) simp_all

lemma bindR_Inr_iff: "bindR m f = Inr y \<longleftrightarrow> (\<exists>x. m = Inr x \<and> f x = Inr y)"
  by (cases m) simp_all

lemma bindR_Inl_iff: "bindR m f = Inl e \<longleftrightarrow> m = Inl e \<or> (\<exists>x. m = Inr x \<and> f x = Inl e)"
  by (cases m) simp_all

lemma bindR_cong [fundef_cong]:
  "m = m' \<Longrightarrow> (\<And>x. m' = Inr x \<Longrightarrow> f x = f' x) \<Longrightarrow> bindR m f = bindR m' f'"
  by (cases m') simp_all

lemma ASSERT_simps [simp]:
  "ASSERT True = Inr ()"
  "ASSERT False = Inl AssertFailed"
  by (simp_all add: ASSERT_def)

lemma ASSERT_Inr_iff [simp]: "ASSERT b = Inr u \<longleftrightarrow> b"
  by (simp add: ASSERT_def)

lemma ASSERT_Inl_iff [simp]: "ASSERT b = Inl e \<longleftrightarrow> \<not> b \<and> e = AssertFailed"
  by (auto simp: ASSERT_def)

lemma bindR_ASSERT: "bindR (ASSERT b) f = (if b then f () else Inl AssertFailed)"
  by (simp add: ASSERT_def)

lemmas bind_iffs = bindR_Inr_iff bindR_Inl_iff

section \<open>C arrays\<close>

text \<open>
  An array of the source is a list; an index outside it is an error value, not an
  unspecified element.
\<close>

definition arr_get :: "'a list \<Rightarrow> int \<Rightarrow> 'a res" where
  "arr_get xs i = (if 0 \<le> i \<and> i < int (length xs) then Inr (xs ! nat i) else Inl OutOfBounds)"

definition arr_set :: "'a list \<Rightarrow> int \<Rightarrow> 'a \<Rightarrow> 'a list res" where
  "arr_set xs i v =
     (if 0 \<le> i \<and> i < int (length xs) then Inr (xs[nat i := v]) else Inl OutOfBounds)"

lemma arr_get_ok [simp]: "0 \<le> i \<Longrightarrow> i < int (length xs) \<Longrightarrow> arr_get xs i = Inr (xs ! nat i)"
  by (simp add: arr_get_def)

lemma arr_get_bad: "i < 0 \<or> int (length xs) \<le> i \<Longrightarrow> arr_get xs i = Inl OutOfBounds"
  by (auto simp: arr_get_def)

lemma arr_set_ok [simp]:
  "0 \<le> i \<Longrightarrow> i < int (length xs) \<Longrightarrow> arr_set xs i v = Inr (xs[nat i := v])"
  by (simp add: arr_set_def)

lemma arr_set_bad: "i < 0 \<or> int (length xs) \<le> i \<Longrightarrow> arr_set xs i v = Inl OutOfBounds"
  by (auto simp: arr_set_def)

lemma arr_get_Inr_iff:
  "arr_get xs i = Inr v \<longleftrightarrow> 0 \<le> i \<and> i < int (length xs) \<and> v = xs ! nat i"
  by (auto simp: arr_get_def)

lemma arr_set_Inr_iff:
  "arr_set xs i v = Inr ys \<longleftrightarrow> 0 \<le> i \<and> i < int (length xs) \<and> ys = xs[nat i := v]"
  by (auto simp: arr_set_def)

section \<open>C integers\<close>

text \<open>
  Kernel variables of type \<^verbatim>\<open>int\<close> are HOL integers; where a sum of the source can
  leave the 32-bit range the model checks it, since signed overflow is undefined
  behaviour. Division and remainder truncate towards zero (\<open>sdiv\<close>, \<open>smod\<close>).
\<close>

definition int32_ok :: "int \<Rightarrow> bool" where
  "int32_ok x \<longleftrightarrow> - (2 ^ 31) \<le> x \<and> x < 2 ^ 31"

definition add_int :: "int \<Rightarrow> int \<Rightarrow> int res" where
  "add_int a b = (if int32_ok (a + b) then Inr (a + b) else Inl SignedOverflow)"

definition divRoundDown :: "int \<Rightarrow> int \<Rightarrow> int" where
  "divRoundDown n s = n sdiv s"

definition divRoundUp :: "int \<Rightarrow> int \<Rightarrow> int" where
  "divRoundUp n s = n sdiv s + (if n smod s > 0 then 1 else 0)"

lemma sdiv_nonneg: "0 \<le> a \<Longrightarrow> 0 < b \<Longrightarrow> a sdiv b = a div (b::int)"
  by (cases "a = 0") (simp_all add: signed_divide_int_def)

lemma smod_nonneg: "0 \<le> a \<Longrightarrow> 0 < b \<Longrightarrow> a smod b = a mod (b::int)"
  by (cases "a = 0") (simp_all add: signed_modulo_int_def sdiv_nonneg minus_div_mult_eq_mod)

lemma divRoundUp_pos: "0 \<le> n \<Longrightarrow> 0 < s \<Longrightarrow> divRoundUp n s = n div s + (if n mod s > 0 then 1 else 0)"
  by (simp add: divRoundUp_def sdiv_nonneg smod_nonneg)

lemma divRoundUp_ge_0: "0 \<le> n \<Longrightarrow> 0 < s \<Longrightarrow> 0 \<le> divRoundUp n s"
  by (simp add: divRoundUp_pos pos_imp_zdiv_nonneg_iff)

lemma divRoundUp_mult_ge:
  assumes "0 \<le> n" "0 < s"
  shows "n \<le> divRoundUp n s * s"
proof -
  define q r where "q = n div s" and "r = n mod s"
  have "n = s * q + r" "0 \<le> r" "r < s" using assms by (simp_all add: q_def r_def)
  moreover have "divRoundUp n s = q + (if r > 0 then 1 else 0)"
    using assms by (simp add: divRoundUp_pos q_def r_def)
  ultimately show ?thesis by (auto simp: algebra_simps)
qed

lemma divRoundUp_mult_less:
  assumes "0 \<le> n" "0 < s"
  shows "divRoundUp n s * s < n + s"
proof -
  define q r where "q = n div s" and "r = n mod s"
  have "n = s * q + r" "0 \<le> r" "r < s" using assms by (simp_all add: q_def r_def)
  moreover have "divRoundUp n s = q + (if r > 0 then 1 else 0)"
    using assms by (simp add: divRoundUp_pos q_def r_def)
  ultimately show ?thesis by (auto simp: algebra_simps)
qed

section \<open>C strings\<close>

text \<open>
  A C string argument is the list of its bytes before the terminating NUL; a byte list
  that ends is read as ending in NUL. A character array of the source is a byte list
  of its full size.
\<close>

definition bytes_of :: "string \<Rightarrow> byte list" where
  "bytes_of s = map of_char s"

text \<open>\<^verbatim>\<open>strncmp(a, b, n) == 0\<close>\<close>

fun strneq :: "nat \<Rightarrow> byte list \<Rightarrow> byte list \<Rightarrow> bool" where
  "strneq 0 as bs = True"
| "strneq (Suc n) as bs =
     (let a = (case as of [] \<Rightarrow> 0 | x # _ \<Rightarrow> x); b = (case bs of [] \<Rightarrow> 0 | x # _ \<Rightarrow> x)
      in a = b \<and> (a = 0 \<or> strneq n (tl as) (tl bs)))"

text \<open>\<^verbatim>\<open>strncpy(dst, src, n)\<close>: copy at most \<open>n\<close> bytes and pad with NUL up to \<open>n\<close>.\<close>

definition strncpy :: "nat \<Rightarrow> byte list \<Rightarrow> byte list \<Rightarrow> byte list" where
  "strncpy n dst src = take n (src @ replicate n 0) @ drop n dst"

text \<open>The C string held in a character array: its bytes before the first NUL.\<close>

definition cstr :: "byte list \<Rightarrow> byte list" where
  "cstr bs = takeWhile (\<lambda>b. b \<noteq> 0) bs"

lemma cstr_simps [simp]: "cstr [] = []" "cstr (b # bs) = (if b = 0 then [] else b # cstr bs)"
  by (simp_all add: cstr_def)

lemma cstr_append_zeros: "cstr (xs @ replicate k 0) = cstr xs"
  by (induction xs) (auto simp: cstr_def takeWhile_replicate)

lemma cstr_append_zero: "cstr (xs @ 0 # ys) = cstr xs"
  by (induction xs) simp_all

lemma strneq_iff_take_cstr: "strneq n as bs \<longleftrightarrow> take n (cstr as) = take n (cstr bs)"
proof (induction n as bs rule: strneq.induct)
  case (1 as bs)
  then show ?case by simp
next
  case (2 n as bs)
  show ?case
    using 2 by (cases as; cases bs) (auto simp: Let_def)
qed

lemma length_strncpy: "n \<le> length dst \<Longrightarrow> length (strncpy n dst src) = length dst"
  by (simp add: strncpy_def)

lemma take_strncpy: "take n (cstr (strncpy n dst src)) = take n (cstr src)"
proof -
  have "take n (cstr (take n xs @ ys)) = take n (cstr xs)" if "n \<le> length xs" for xs ys :: "byte list"
    using that
  proof (induction n arbitrary: xs)
    case (Suc n)
    then show ?case by (cases xs) auto
  qed simp
  then have "take n (cstr (strncpy n dst src)) = take n (cstr (src @ replicate n 0))"
    unfolding strncpy_def by (metis (no_types) le_add2 length_append length_replicate)
  then show ?thesis by (simp add: cstr_append_zeros)
qed

section \<open>Counting loops\<close>

text \<open>
  \<^verbatim>\<open>for (i = 0; i < n; i++) x = step()\<close>: run an operation that returns a value and a
  new state \<open>n\<close> times and collect the values.
\<close>

fun repeatR :: "nat \<Rightarrow> ('s \<Rightarrow> ('a \<times> 's) res) \<Rightarrow> 's \<Rightarrow> ('a list \<times> 's) res" where
  "repeatR 0 f s = Inr ([], s)"
| "repeatR (Suc n) f s =
     bindR (f s) (\<lambda>(x, s'). bindR (repeatR n f s') (\<lambda>(xs, s''). Inr (x # xs, s'')))"

text \<open>\<^verbatim>\<open>for (i = 0; i < n; i++) step(xs[i])\<close> on a state.\<close>

fun foldR :: "('a \<Rightarrow> 's \<Rightarrow> 's res) \<Rightarrow> 'a list \<Rightarrow> 's \<Rightarrow> 's res" where
  "foldR f [] s = Inr s"
| "foldR f (x # xs) s = bindR (f x s) (foldR f xs)"

text \<open>The same where every step also returns a value.\<close>

fun mapR :: "('a \<Rightarrow> 's \<Rightarrow> ('b \<times> 's) res) \<Rightarrow> 'a list \<Rightarrow> 's \<Rightarrow> ('b list \<times> 's) res" where
  "mapR f [] s = Inr ([], s)"
| "mapR f (x # xs) s =
     bindR (f x s) (\<lambda>(y, s'). bindR (mapR f xs s') (\<lambda>(ys, s''). Inr (y # ys, s'')))"

lemma foldR_append [simp]: "foldR f (xs @ ys) s = bindR (foldR f xs s) (foldR f ys)"
  by (induction xs arbitrary: s) (auto simp: bindR_def split: sum.splits)

lemma foldR_invariant:
  assumes step: "\<And>x s. x \<in> set xs \<Longrightarrow> P s \<Longrightarrow> \<exists>s'. f x s = Inr s' \<and> P s'"
    and "P s"
  shows "\<exists>s'. foldR f xs s = Inr s' \<and> P s'"
  using assms
proof (induction xs arbitrary: s)
  case (Cons x xs)
  then obtain s' where s': "f x s = Inr s'" "P s'" by fastforce
  have "\<exists>t. foldR f xs s' = Inr t \<and> P t"
  proof (rule Cons.IH)
    show "\<exists>s'. f x s = Inr s' \<and> P s'" if "x \<in> set xs" "P s" for x s
      using that Cons.prems(1) by simp
  qed (rule s'(2))
  with s' show ?case by simp
qed simp

section \<open>Searching loops\<close>

text \<open>
  \<^verbatim>\<open>for (i = k; i < n; i++) if (P(xs[i])) return i; return -1\<close>: the first index from \<open>k\<close> on whose element
  satisfies \<open>P\<close>.
\<close>

function scan :: "('a \<Rightarrow> bool) \<Rightarrow> int \<Rightarrow> int \<Rightarrow> 'a list \<Rightarrow> int res" where
  "scan P i n xs =
     (if i < n then bindR (arr_get xs i) (\<lambda>x. if P x then Inr i else scan P (i + 1) n xs) else Inr (-1))"
  by pat_completeness auto
termination
  by (relation "measure (\<lambda>(P, i, n, xs). nat (n - i))") auto

declare scan.simps [simp del]

lemma scan_spec:
  assumes "0 \<le> i"
  shows "\<exists>j. scan P i (int (length xs)) xs = Inr j
     \<and> (j = -1 \<and> (\<forall>k. nat i \<le> k \<longrightarrow> k < length xs \<longrightarrow> \<not> P (xs ! k))
       \<or> i \<le> j \<and> nat j < length xs \<and> P (xs ! nat j) \<and> (\<forall>k. nat i \<le> k \<longrightarrow> int k < j \<longrightarrow> \<not> P (xs ! k)))"
  using assms
proof (induction P i "int (length xs)" xs rule: scan.induct)
  case (1 P i xs)
  show ?case
  proof (cases "i < int (length xs)")
    case i: True
    then have g: "arr_get xs i = Inr (xs ! nat i)" using "1.prems" by simp
    show ?thesis
    proof (cases "P (xs ! nat i)")
      case True
      then have "scan P i (int (length xs)) xs = Inr i" using g i by (subst scan.simps) simp
      then show ?thesis using True i "1.prems" by (intro exI [of _ i]) auto
    next
      case False
      then have s: "scan P i (int (length xs)) xs = scan P (i + 1) (int (length xs)) xs" using g i by (subst scan.simps) simp
      have n: "nat (i + 1) = Suc (nat i)" using "1.prems" by simp
      have step: "nat i \<le> k \<longleftrightarrow> k = nat i \<or> nat (i + 1) \<le> k" for k unfolding n by auto
      show ?thesis using "1.hyps" [OF i g False] "1.prems" False unfolding s step by (auto intro: order_trans)
    qed
  next
    case False
    then show ?thesis using "1.prems" by (subst scan.simps) (intro exI [of _ "-1"], auto)
  qed
qed

lemma scan_cases:
  obtains (none) "scan P 0 (int (length xs)) xs = Inr (-1)" "\<forall>x\<in>set xs. \<not> P x"
    | (some) j where "scan P 0 (int (length xs)) xs = Inr (int j)" "j < length xs" "P (xs ! j)" "\<forall>k<j. \<not> P (xs ! k)"
proof -
  obtain j where j: "scan P 0 (int (length xs)) xs = Inr j"
     "j = -1 \<and> (\<forall>k. k < length xs \<longrightarrow> \<not> P (xs ! k))
      \<or> 0 \<le> j \<and> nat j < length xs \<and> P (xs ! nat j) \<and> (\<forall>k. int k < j \<longrightarrow> \<not> P (xs ! k))"
    using scan_spec [of 0 P xs] by auto
  show thesis
  proof (cases "j = -1")
    case True
    then have "\<forall>x\<in>set xs. \<not> P x" using j(2) by (auto simp: in_set_conv_nth)
    then show ?thesis using j(1) True none by simp
  next
    case False
    then show ?thesis using j some [of "nat j"] by auto
  qed
qed

section \<open>Lists\<close>

lemma take_update_cancel2 [simp]: "n \<le> i \<Longrightarrow> take n (xs[i := x]) = take n xs"
  by (simp add: take_update_cancel)

lemma last_butlast_app: "xs \<noteq> [] \<Longrightarrow> butlast xs @ [last xs] = xs"
  by simp

lemma concat_same_length:
  "(\<forall>x\<in>set xs. length x = n) \<Longrightarrow> length (concat xs) = n * length xs"
  by (induction xs) auto

lemma take_drop_concat:
  "(\<forall>x\<in>set xs. length x = n) \<Longrightarrow> i < length xs \<Longrightarrow> take n (drop (i * n) (concat xs)) = xs ! i"
proof (induction xs arbitrary: i)
  case (Cons x xs)
  then show ?case by (cases i) auto
qed simp

lemma concat_nth:
  assumes "\<forall>x\<in>set xs. length x = n" and "k < n * length xs"
  shows "concat xs ! k = xs ! (k div n) ! (k mod n)"
  using assms
proof (induction xs arbitrary: k)
  case (Cons x xs)
  show ?case
  proof (cases "k < n")
    case False
    then have "concat xs ! (k - n) = xs ! ((k - n) div n) ! ((k - n) mod n)"
      using Cons by simp
    moreover have "k div n = Suc ((k - n) div n)" "k mod n = (k - n) mod n"
      using False Cons.prems by (cases "n = 0"; simp add: le_div_geq le_mod_geq)+
    ultimately show ?thesis using False Cons.prems by (simp add: nth_append)
  qed (use Cons.prems in \<open>simp add: nth_append\<close>)
qed simp

end
