(* ===== verification/NachList.thy ===== *)
theory NachList
  imports Prelude
begin

text \<open>
  \<^verbatim>\<open>threads/list.cc\<close>: the singly linked list of (key, item) elements that backs the
  ready list, the semaphore queues, the mailboxes and the pending-interrupt queue.
  The list is modelled at the level of the source: a heap of \<^verbatim>\<open>ListElement\<close> objects,
  and the \<open>first\<close> and \<open>last\<close> pointers. The address \<open>new\<close> returns is an argument of the
  operations that allocate. The second half relates every operation to a plain list of
  (key, item) pairs and states the two contracts its clients rely on as locales.
\<close>

section \<open>Representation and operations\<close>

type_synonym addr = nat

record 'a ListElement =
  elt_next :: "addr option"
  elt_key :: int
  elt_item :: "'a option"   \<comment> \<open>\<^verbatim>\<open>void *\<close>: \<open>None\<close> is NULL\<close>

type_synonym 'a elt_heap = "addr \<Rightarrow> 'a ListElement option"

record 'a List_obj =
  lheap :: "'a elt_heap"
  lfirst :: "addr option"
  llast :: "addr option"

definition deref :: "'a elt_heap \<Rightarrow> addr option \<Rightarrow> 'a ListElement res" where
  "deref h p = (case p of None \<Rightarrow> Inl NullDeref
     | Some a \<Rightarrow> (case h a of None \<Rightarrow> Inl NullDeref | Some e \<Rightarrow> Inr e))"

definition ListElement_new :: "'a option \<Rightarrow> int \<Rightarrow> 'a ListElement" where
  "ListElement_new itemPtr sortKey = \<lparr>elt_next = None, elt_key = sortKey, elt_item = itemPtr\<rparr>"

definition List_new :: "'a elt_heap \<Rightarrow> 'a List_obj" where
  "List_new h = \<lparr>lheap = h, lfirst = None, llast = None\<rparr>"

definition List_IsEmpty :: "'a List_obj \<Rightarrow> bool" where
  "List_IsEmpty l \<longleftrightarrow> lfirst l = None"

text \<open>\<^verbatim>\<open>last->next = element; last = element\<close>\<close>

definition link_last :: "addr \<Rightarrow> 'a List_obj \<Rightarrow> 'a List_obj res" where
  "link_last a l =
     (case llast l of None \<Rightarrow> Inl NullDeref
      | Some b \<Rightarrow> bindR (deref (lheap l) (Some b)) (\<lambda>e.
          Inr (l\<lparr>lheap := (lheap l)(b \<mapsto> e\<lparr>elt_next := Some a\<rparr>), llast := Some a\<rparr>)))"

definition List_Append :: "addr \<Rightarrow> 'a option \<Rightarrow> 'a List_obj \<Rightarrow> 'a List_obj res" where
  "List_Append a itm l =
     (let l1 = l\<lparr>lheap := (lheap l)(a \<mapsto> ListElement_new itm 0)\<rparr>
      in if List_IsEmpty l then Inr (l1\<lparr>lfirst := Some a, llast := Some a\<rparr>)
         else link_last a l1)"

definition List_Prepend :: "addr \<Rightarrow> 'a option \<Rightarrow> 'a List_obj \<Rightarrow> 'a List_obj res" where
  "List_Prepend a itm l =
     (let e = ListElement_new itm 0
      in if List_IsEmpty l
         then Inr (l\<lparr>lheap := (lheap l)(a \<mapsto> e), lfirst := Some a, llast := Some a\<rparr>)
         else Inr (l\<lparr>lheap := (lheap l)(a \<mapsto> e\<lparr>elt_next := lfirst l\<rparr>), lfirst := Some a\<rparr>))"

text \<open>
  The loop of \<^verbatim>\<open>SortedInsert\<close>: \<open>p\<close> is \<^verbatim>\<open>ptr\<close>. Each iteration spends one unit of fuel; the
  number of elements of the list is enough (\<open>walk_insert_spec\<close>).
\<close>

fun walk_insert :: "nat \<Rightarrow> addr \<Rightarrow> int \<Rightarrow> addr \<Rightarrow> 'a List_obj \<Rightarrow> 'a List_obj res" where
  "walk_insert 0 a sortKey p l = Inl OutOfFuel"
| "walk_insert (Suc n) a sortKey p l =
     bindR (deref (lheap l) (Some p)) (\<lambda>pe.
       case elt_next pe of
         None \<Rightarrow> link_last a l
       | Some q \<Rightarrow> bindR (deref (lheap l) (Some q)) (\<lambda>qe.
           if sortKey < elt_key qe
           then bindR (deref (lheap l) (Some a)) (\<lambda>e.
             Inr (l\<lparr>lheap := (lheap l)(a \<mapsto> e\<lparr>elt_next := Some q\<rparr>,
                                        p \<mapsto> pe\<lparr>elt_next := Some a\<rparr>)\<rparr>))
           else walk_insert n a sortKey q l))"

definition List_SortedInsert ::
  "nat \<Rightarrow> addr \<Rightarrow> 'a option \<Rightarrow> int \<Rightarrow> 'a List_obj \<Rightarrow> 'a List_obj res" where
  "List_SortedInsert fuel a itm sortKey l =
     (let e = ListElement_new itm sortKey; l1 = l\<lparr>lheap := (lheap l)(a \<mapsto> e)\<rparr>
      in case lfirst l of
           None \<Rightarrow> Inr (l1\<lparr>lfirst := Some a, llast := Some a\<rparr>)
         | Some f \<Rightarrow> bindR (deref (lheap l1) (Some f)) (\<lambda>fe.
             if sortKey < elt_key fe
             then Inr (l1\<lparr>lheap := (lheap l1)(a \<mapsto> e\<lparr>elt_next := Some f\<rparr>), lfirst := Some a\<rparr>)
             else walk_insert fuel a sortKey f l1))"

text \<open>
  \<^verbatim>\<open>SortedRemove\<close> returns the item (\<open>None\<close> is NULL), the key it stores through
  \<^verbatim>\<open>keyPtr\<close> (nothing when the list is empty) and the list with the element deleted.
\<close>

definition List_SortedRemove ::
  "'a List_obj \<Rightarrow> ('a option \<times> int option \<times> 'a List_obj) res" where
  "List_SortedRemove l =
     (case lfirst l of
        None \<Rightarrow> Inr (None, None, l)
      | Some f \<Rightarrow> bindR (deref (lheap l) (Some f)) (\<lambda>element.
          let l1 = (if lfirst l = llast l then l\<lparr>lfirst := None, llast := None\<rparr>
                    else l\<lparr>lfirst := elt_next element\<rparr>)
          in Inr (elt_item element, Some (elt_key element),
                  l1\<lparr>lheap := (lheap l)(f := None)\<rparr>)))"

definition List_Remove :: "'a List_obj \<Rightarrow> ('a option \<times> 'a List_obj) res" where
  "List_Remove l = bindR (List_SortedRemove l) (\<lambda>(thing, _, l'). Inr (thing, l'))"

text \<open>\<^verbatim>\<open>Mapcar\<close>: the items \<^verbatim>\<open>func\<close> is applied to, in order.\<close>

fun List_Mapcar_from :: "nat \<Rightarrow> 'a elt_heap \<Rightarrow> addr option \<Rightarrow> 'a option list res" where
  "List_Mapcar_from n h None = Inr []"
| "List_Mapcar_from 0 h (Some p) = Inl OutOfFuel"
| "List_Mapcar_from (Suc n) h (Some p) =
     bindR (deref h (Some p)) (\<lambda>e.
       bindR (List_Mapcar_from n h (elt_next e)) (\<lambda>xs. Inr (elt_item e # xs)))"

definition List_Mapcar :: "nat \<Rightarrow> 'a List_obj \<Rightarrow> 'a option list res" where
  "List_Mapcar fuel l = List_Mapcar_from fuel (lheap l) (lfirst l)"

text \<open>The destructor: \<^verbatim>\<open>while (Remove () != NULL);\<close>\<close>

fun List_delete :: "nat \<Rightarrow> 'a List_obj \<Rightarrow> 'a List_obj res" where
  "List_delete 0 l = Inl OutOfFuel"
| "List_delete (Suc n) l =
     bindR (List_Remove l) (\<lambda>(thing, l'). if thing = None then Inr l' else List_delete n l')"

section \<open>The list a heap represents\<close>

text \<open>
  \<open>seg h p as q\<close>: following \<open>next\<close> from \<open>p\<close> visits the addresses \<open>as\<close> and arrives at \<open>q\<close>.
\<close>

fun seg :: "'a elt_heap \<Rightarrow> addr option \<Rightarrow> addr list \<Rightarrow> addr option \<Rightarrow> bool" where
  "seg h p [] q \<longleftrightarrow> p = q"
| "seg h p (a # as) q \<longleftrightarrow> p = Some a \<and> (\<exists>e. h a = Some e \<and> seg h (elt_next e) as q)"

definition elt_view :: "'a elt_heap \<Rightarrow> addr \<Rightarrow> int \<times> 'a option" where
  "elt_view h a = (case h a of None \<Rightarrow> (0, None) | Some e \<Rightarrow> (elt_key e, elt_item e))"

definition list_cells :: "'a List_obj \<Rightarrow> addr list \<Rightarrow> bool" where
  "list_cells l as \<longleftrightarrow> seg (lheap l) (lfirst l) as None \<and> distinct as
     \<and> llast l = (if as = [] then None else Some (last as))"

definition list_rep :: "'a List_obj \<Rightarrow> (int \<times> 'a option) list \<Rightarrow> bool" where
  "list_rep l xs \<longleftrightarrow> (\<exists>as. list_cells l as \<and> xs = map (elt_view (lheap l)) as)"

text \<open>What the insertion does to the represented list, and to the addresses.\<close>

fun sorted_insert :: "int \<Rightarrow> 'a \<Rightarrow> (int \<times> 'a) list \<Rightarrow> (int \<times> 'a) list" where
  "sorted_insert k x [] = [(k, x)]"
| "sorted_insert k x (y # ys) = (if k < fst y then (k, x) # y # ys else y # sorted_insert k x ys)"

fun addr_insert :: "'a elt_heap \<Rightarrow> int \<Rightarrow> addr \<Rightarrow> addr list \<Rightarrow> addr list" where
  "addr_insert h k a [] = [a]"
| "addr_insert h k a (b # bs) =
     (if k < fst (elt_view h b) then a # b # bs else b # addr_insert h k a bs)"

lemma seg_append [simp]: "seg h p (as @ bs) q \<longleftrightarrow> (\<exists>r. seg h p as r \<and> seg h r bs q)"
  by (induction as arbitrary: p) auto

lemma seg_upd [simp]: "a \<notin> set as \<Longrightarrow> seg (h(a := v)) p as q = seg h p as q"
  by (induction as arbitrary: p) auto

lemma seg_alloc: "seg h p as q \<Longrightarrow> x \<in> set as \<Longrightarrow> \<exists>e. h x = Some e"
  by (induction as arbitrary: p) auto

lemma seg_fresh: "seg h p as q \<Longrightarrow> h x = None \<Longrightarrow> x \<notin> set as"
  using seg_alloc by fastforce

lemma deref_Some [simp]: "h a = Some e \<Longrightarrow> deref h (Some a) = Inr e"
  by (simp add: deref_def)

lemma view_next [simp]:
  "h b = Some e \<Longrightarrow> elt_view (h(b \<mapsto> e\<lparr>elt_next := q\<rparr>)) x = elt_view h x"
  by (auto simp: elt_view_def)

lemma view_upd_other [simp]: "x \<noteq> a \<Longrightarrow> elt_view (h(a := v)) x = elt_view h x"
  by (simp add: elt_view_def)

lemma view_upd_same [simp]:
  "elt_view (h(a \<mapsto> ListElement_new itm k)) a = (k, itm)"
  "elt_view (h(a \<mapsto> (ListElement_new itm k)\<lparr>elt_next := q\<rparr>)) a = (k, itm)"
  by (simp_all add: elt_view_def ListElement_new_def)

lemma map_view_upd [simp]:
  "a \<notin> set as \<Longrightarrow> map (elt_view (h(a := v))) as = map (elt_view h) as"
  by (induction as) auto

lemma map_view_addr_insert:
  "elt_view h a = (k, x) \<Longrightarrow>
     map (elt_view h) (addr_insert h k a as) = sorted_insert k x (map (elt_view h) as)"
  by (induction as) auto

lemma set_addr_insert: "set (addr_insert h k a as) = insert a (set as)"
  by (induction as) auto

section \<open>Every operation refines the list operation\<close>

declare map_eq_conv [simp del]

lemma list_cells_Nil [simp]: "list_cells l [] \<longleftrightarrow> lfirst l = None \<and> llast l = None"
  by (auto simp: list_cells_def)

lemma list_cells_IsEmpty: "list_cells l as \<Longrightarrow> List_IsEmpty l \<longleftrightarrow> as = []"
  by (cases as) (auto simp: list_cells_def List_IsEmpty_def)

lemma link_last_spec:
  assumes seg: "seg (lheap l) (lfirst l) (bs @ [b]) None" and dist: "distinct (bs @ [b])"
    and lst: "llast l = Some b" and a: "lheap l a = Some e" "elt_next e = None" "a \<notin> set (bs @ [b])"
  shows "\<exists>l'. link_last a l = Inr l' \<and> list_cells l' (bs @ [b, a])
           \<and> elt_view (lheap l') = elt_view (lheap l) \<and> dom (lheap l') = dom (lheap l)"
proof -
  from seg obtain eb where eb: "lheap l b = Some eb" "seg (lheap l) (lfirst l) bs (Some b)"
    by auto
  then show ?thesis
    using dist lst a by (auto simp: link_last_def list_cells_def)
qed

lemma List_Append_spec:
  assumes rep: "list_cells l as" and fresh: "lheap l a = None"
  shows "\<exists>l'. List_Append a itm l = Inr l' \<and> list_cells l' (as @ [a])
           \<and> map (elt_view (lheap l')) (as @ [a]) = map (elt_view (lheap l)) as @ [(0, itm)]
           \<and> dom (lheap l') = insert a (dom (lheap l))"
proof (cases as rule: rev_cases)
  case Nil
  then show ?thesis using rep
    by (simp add: List_Append_def List_IsEmpty_def list_cells_def ListElement_new_def elt_view_def)
next
  case (snoc bs b)
  define l1 where "l1 = l\<lparr>lheap := (lheap l)(a \<mapsto> ListElement_new itm 0)\<rparr>"
  have na: "a \<notin> set as" using rep fresh seg_fresh by (fastforce simp: list_cells_def)
  have "seg (lheap l1) (lfirst l1) (bs @ [b]) None" "llast l1 = Some b"
    using rep na snoc unfolding list_cells_def l1_def by (simp_all del: seg_append)
  then obtain l' where "link_last a l1 = Inr l'" "list_cells l' (bs @ [b, a])"
    "elt_view (lheap l') = elt_view (lheap l1)" "dom (lheap l') = dom (lheap l1)"
    using link_last_spec [of l1 bs b a "ListElement_new itm 0"] rep na snoc
    by (auto simp: l1_def list_cells_def ListElement_new_def)
  moreover have "List_Append a itm l = link_last a l1"
    using rep snoc list_cells_IsEmpty [OF rep] by (simp add: List_Append_def l1_def)
  moreover have "map (elt_view (lheap l1)) as = map (elt_view (lheap l)) as"
    using na unfolding l1_def by simp
  ultimately show ?thesis using na snoc by (simp add: l1_def)
qed

lemma List_Prepend_spec:
  assumes rep: "list_cells l as" and fresh: "lheap l a = None"
  shows "\<exists>l'. List_Prepend a itm l = Inr l' \<and> list_cells l' (a # as)
           \<and> map (elt_view (lheap l')) (a # as) = (0, itm) # map (elt_view (lheap l)) as"
proof -
  have na: "a \<notin> set as" using rep fresh seg_fresh by (fastforce simp: list_cells_def)
  then show ?thesis
    using rep list_cells_IsEmpty [OF rep]
    by (cases as) (simp_all add: List_Prepend_def list_cells_def Let_def,
        auto simp: ListElement_new_def elt_view_def)
qed

lemma walk_insert_spec:
  assumes "seg (lheap l) (lfirst l) (bs @ p # cs) None" and "distinct (bs @ p # cs)"
    and "llast l = Some (last (p # cs))" and "length cs < n"
    and "lheap l a = Some e" "elt_next e = None" "a \<notin> set (bs @ p # cs)"
  shows "\<exists>l'. walk_insert n a k p l = Inr l'
           \<and> list_cells l' (bs @ p # addr_insert (lheap l) k a cs)
           \<and> elt_view (lheap l') = elt_view (lheap l) \<and> dom (lheap l') = dom (lheap l)"
  using assms
proof (induction cs arbitrary: n bs p)
  case Nil
  then obtain m where n: "n = Suc m" by (cases n) auto
  from Nil have "\<exists>l'. link_last a l = Inr l' \<and> list_cells l' (bs @ [p, a])
           \<and> elt_view (lheap l') = elt_view (lheap l) \<and> dom (lheap l') = dom (lheap l)"
    by (intro link_last_spec) auto
  then show ?case using Nil n by auto
next
  case (Cons c cs)
  then obtain m where n: "n = Suc m" by (cases n) auto
  obtain pe ce where pe: "lheap l p = Some pe" "elt_next pe = Some c" "lheap l c = Some ce"
    using Cons.prems(1) by auto
  show ?case
  proof (cases "k < elt_key ce")
    case True
    then have "k < fst (elt_view (lheap l) c)" using pe by (simp add: elt_view_def)
    moreover have "p \<noteq> a" "c \<noteq> a" "p \<noteq> c" using Cons.prems by auto
    ultimately show ?thesis
      using True pe n Cons.prems
      by (auto simp: list_cells_def fun_upd_twist [of p a] intro!: ext)
  next
    case False
    then have nk: "\<not> k < fst (elt_view (lheap l) c)" using pe by (simp add: elt_view_def)
    have "\<exists>l'. walk_insert m a k c l = Inr l'
           \<and> list_cells l' ((bs @ [p]) @ c # addr_insert (lheap l) k a cs)
           \<and> elt_view (lheap l') = elt_view (lheap l) \<and> dom (lheap l') = dom (lheap l)"
      using Cons.prems n by (intro Cons.IH) auto
    then show ?thesis using False nk pe n by auto
  qed
qed

lemma List_SortedInsert_spec:
  assumes rep: "list_cells l as" and fresh: "lheap l a = None" and fuel: "length as \<le> n"
  shows "\<exists>l' bs. List_SortedInsert n a itm k l = Inr l' \<and> list_cells l' bs \<and> dom (lheap l') = insert a (dom (lheap l))
           \<and> map (elt_view (lheap l')) bs = sorted_insert k itm (map (elt_view (lheap l)) as)"
proof (cases as)
  case Nil
  then show ?thesis using rep
    by (auto simp: List_SortedInsert_def list_cells_def ListElement_new_def elt_view_def
        intro!: exI [of _ "[a]"])
next
  case (Cons f cs)
  define h1 where "h1 = (lheap l)(a \<mapsto> ListElement_new itm k)"
  define l1 where "l1 = l\<lparr>lheap := h1\<rparr>"
  have na: "a \<notin> set as" using rep fresh seg_fresh by (fastforce simp: list_cells_def)
  have lf: "lfirst l = Some f" using rep Cons by (simp add: list_cells_def)
  obtain fe where fe: "lheap l f = Some fe" "h1 f = Some fe"
    using rep Cons na by (auto simp: list_cells_def h1_def)
  have key: "elt_key fe = fst (elt_view (lheap l) f)" using fe by (simp add: elt_view_def)
  show ?thesis
  proof (cases "k < elt_key fe")
    case True
    then have "List_SortedInsert n a itm k l =
        Inr (l1\<lparr>lheap := h1(a \<mapsto> (ListElement_new itm k)\<lparr>elt_next := Some f\<rparr>), lfirst := Some a\<rparr>)"
      using fe lf by (simp add: List_SortedInsert_def h1_def l1_def)
    then show ?thesis
      using True rep na Cons key
      by (auto simp: list_cells_def h1_def l1_def intro!: exI [of _ "a # as"])
  next
    case False
    have "\<exists>l'. walk_insert n a k f l1 = Inr l' \<and> list_cells l' ([] @ f # addr_insert (lheap l1) k a cs)
        \<and> elt_view (lheap l') = elt_view (lheap l1) \<and> dom (lheap l') = dom (lheap l1)"
      using rep na Cons fuel
      by (intro walk_insert_spec [where e = "ListElement_new itm k"])
        (auto simp: list_cells_def l1_def h1_def ListElement_new_def)
    then obtain l' where l': "walk_insert n a k f l1 = Inr l'"
      "list_cells l' (f # addr_insert h1 k a cs)" "elt_view (lheap l') = elt_view h1"
      "dom (lheap l') = insert a (dom (lheap l))"
      by (auto simp: l1_def h1_def)
    have "List_SortedInsert n a itm k l = Inr l'"
      using False fe lf l'(1) by (simp add: List_SortedInsert_def h1_def l1_def)
    moreover have "map (elt_view h1) (f # addr_insert h1 k a cs)
        = sorted_insert k itm (map (elt_view (lheap l)) as)"
      using False na Cons key by (simp add: map_view_addr_insert h1_def)
    ultimately show ?thesis
      using l' by (intro exI [of _ l'] exI [of _ "f # addr_insert h1 k a cs"]) simp
  qed
qed

lemma List_SortedRemove_spec:
  assumes rep: "list_cells l (a # as)"
  shows "\<exists>l'. List_SortedRemove l =
             Inr (snd (elt_view (lheap l) a), Some (fst (elt_view (lheap l) a)), l')
           \<and> list_cells l' as \<and> map (elt_view (lheap l')) as = map (elt_view (lheap l)) as
           \<and> lheap l' = (lheap l)(a := None)"
proof -
  from rep obtain e where "lheap l a = Some e" "seg (lheap l) (elt_next e) as None"
    by (auto simp: list_cells_def)
  moreover have "as \<noteq> [] \<Longrightarrow> last as \<noteq> a" using rep by (auto simp: list_cells_def)
  ultimately show ?thesis
    using rep by (cases "as = []") (auto simp: List_SortedRemove_def list_cells_def elt_view_def)
qed

lemma List_SortedRemove_empty: "list_cells l [] \<Longrightarrow> List_SortedRemove l = Inr (None, None, l)"
  by (simp add: List_SortedRemove_def)

lemma Mapcar_from_spec:
  "seg h p as None \<Longrightarrow> length as \<le> n \<Longrightarrow> List_Mapcar_from n h p = Inr (map (snd \<circ> elt_view h) as)"
proof (induction as arbitrary: p n)
  case (Cons a as)
  then show ?case by (cases n) (auto simp: elt_view_def)
qed simp

lemma list_repE:
  assumes "list_rep l xs"
  obtains as where "list_cells l as" "xs = map (elt_view (lheap l)) as"
  using assms by (auto simp: list_rep_def)

section \<open>The contracts of a list\<close>

subsection \<open>A queue: Append at the end, Remove at the front\<close>

locale item_queue =
  fixes rep :: "'l \<Rightarrow> (int \<times> 'v) list \<Rightarrow> bool"
    and unused :: "addr \<Rightarrow> 'l \<Rightarrow> bool"
    and append :: "addr \<Rightarrow> 'v \<Rightarrow> 'l \<Rightarrow> 'l res"
    and remove :: "'l \<Rightarrow> ('v \<times> 'l) res"
  assumes append_rep: "rep l xs \<Longrightarrow> unused a l \<Longrightarrow>
      \<exists>l'. append a x l = Inr l' \<and> rep l' (xs @ [(0, x)]) \<and> (\<forall>b. b \<noteq> a \<longrightarrow> unused b l \<longrightarrow> unused b l')"
    and remove_rep: "rep l (kx # xs) \<Longrightarrow> \<exists>l'. remove l = Inr (snd kx, l') \<and> rep l' xs"
begin

lemma append_all:
  assumes "rep l ys" "distinct as" "length as = length xs" "\<forall>a\<in>set as. unused a l"
  shows "\<exists>l'. foldR (\<lambda>(a, x). append a x) (zip as xs) l = Inr l' \<and> rep l' (ys @ map (Pair 0) xs)"
  using assms
proof (induction as xs arbitrary: l ys rule: list_induct2')
  case (4 a as x xs)
  then obtain l' where l': "append a x l = Inr l'" "rep l' (ys @ [(0, x)])"
    "\<forall>b. b \<noteq> a \<longrightarrow> unused b l \<longrightarrow> unused b l'"
    using append_rep by (metis list.set_intros(1))
  have "\<exists>t. foldR (\<lambda>(a, x). append a x) (zip as xs) l' = Inr t
          \<and> rep t ((ys @ [(0, x)]) @ map (Pair 0) xs)"
    using 4 l' by (intro "4.IH") (auto, metis)
  then show ?case using l' by simp
qed simp_all

lemma remove_all: "rep l xs \<Longrightarrow> \<exists>l'. repeatR (length xs) remove l = Inr (map snd xs, l') \<and> rep l' []"
proof (induction xs arbitrary: l)
  case (Cons x xs)
  then obtain l' where l': "remove l = Inr (snd x, l')" "rep l' xs" using remove_rep by blast
  with Cons.IH [of l'] show ?case by auto
qed simp

lemma first_in_first_out:
  assumes "rep l []" "distinct as" "length as = length xs" "\<forall>a\<in>set as. unused a l"
  shows "\<exists>l' l''. foldR (\<lambda>(a, x). append a x) (zip as xs) l = Inr l'
          \<and> repeatR (length xs) remove l' = Inr (xs, l'') \<and> rep l'' []"
proof -
  obtain l' where l': "foldR (\<lambda>(a, x). append a x) (zip as xs) l = Inr l'" "rep l' (map (Pair 0) xs)"
    using append_all [OF assms] by auto
  then show ?thesis using remove_all [OF l'(2)] by (auto simp: comp_def)
qed

end

subsection \<open>A priority queue: SortedInsert by key, SortedRemove of the smallest\<close>

locale key_queue =
  fixes rep :: "'l \<Rightarrow> (int \<times> 'v) list \<Rightarrow> bool"
    and unused :: "addr \<Rightarrow> 'l \<Rightarrow> bool"
    and insert_key :: "nat \<Rightarrow> addr \<Rightarrow> 'v \<Rightarrow> int \<Rightarrow> 'l \<Rightarrow> 'l res"
    and remove_first :: "'l \<Rightarrow> ('v \<times> int option \<times> 'l) res"
  assumes insert_rep: "rep l xs \<Longrightarrow> unused a l \<Longrightarrow> length xs \<le> n \<Longrightarrow>
      \<exists>l'. insert_key n a x k l = Inr l' \<and> rep l' (sorted_insert k x xs)
         \<and> (\<forall>b. b \<noteq> a \<longrightarrow> unused b l \<longrightarrow> unused b l')"
    and first_rep: "rep l (kx # xs) \<Longrightarrow>
      \<exists>l'. remove_first l = Inr (snd kx, Some (fst kx), l') \<and> rep l' xs"
begin

lemma insert_all:
  assumes "rep l ys" "distinct as" "length as = length kxs" "\<forall>a\<in>set as. unused a l"
    "length ys + length kxs \<le> n"
  shows "\<exists>l'. foldR (\<lambda>(a, k, x). insert_key n a x k) (zip as kxs) l = Inr l'
           \<and> rep l' (fold (\<lambda>(k, x). sorted_insert k x) kxs ys)"
  using assms
proof (induction as kxs arbitrary: l ys rule: list_induct2')
  case (4 a as kx kxs)
  obtain k x where kx: "kx = (k, x)" by (cases kx)
  from 4 obtain l' where l': "insert_key n a x k l = Inr l'" "rep l' (sorted_insert k x ys)"
    "\<forall>b. b \<noteq> a \<longrightarrow> unused b l \<longrightarrow> unused b l'"
    using insert_rep [of l ys a n x k] by auto
  have len: "length (sorted_insert k x ys) = Suc (length ys)" for k x and ys :: "(int \<times> 'v) list"
    by (induction ys) auto
  have "\<exists>t. foldR (\<lambda>(a, k, x). insert_key n a x k) (zip as kxs) l' = Inr t
          \<and> rep t (fold (\<lambda>(k, x). sorted_insert k x) kxs (sorted_insert k x ys))"
    using 4 l' len [of k x ys] by (intro "4.IH") (auto, metis)
  then show ?case using l' kx by simp
qed simp_all

lemma first_all:
  "rep l kxs \<Longrightarrow> \<exists>l'. repeatR (length kxs) (\<lambda>l. bindR (remove_first l) (\<lambda>(x, k, l'). Inr ((the k, x), l'))) l
     = Inr (kxs, l') \<and> rep l' []"
proof (induction kxs arbitrary: l)
  case (Cons kx kxs)
  then obtain l' where l': "remove_first l = Inr (snd kx, Some (fst kx), l')" "rep l' kxs"
    using first_rep by blast
  with Cons.IH [of l'] show ?case by auto
qed simp

end

subsection \<open>The stable sort that repeated insertion computes\<close>

lemma length_sorted_insert [simp]: "length (sorted_insert k x xs) = Suc (length xs)"
  by (induction xs) auto

lemma mset_sorted_insert [simp]: "mset (sorted_insert k x xs) = add_mset (k, x) (mset xs)"
  by (induction xs) auto

lemma set_sorted_insert [simp]: "set (sorted_insert k x xs) = insert (k, x) (set xs)"
  by (metis mset_sorted_insert set_mset_add_mset_insert set_mset_mset)

lemma sorted_sorted_insert: "sorted (map fst xs) \<Longrightarrow> sorted (map fst (sorted_insert k x xs))"
  by (induction xs) auto

lemma filter_sorted_insert:
  "sorted (map fst xs) \<Longrightarrow>
     filter (\<lambda>y. fst y = c) (sorted_insert k x xs)
       = filter (\<lambda>y. fst y = c) xs @ (if k = c then [(k, x)] else [])"
proof (induction xs)
  case (Cons y ys)
  have "filter (\<lambda>z. fst z = k) ys = []" if "k < fst y"
    using Cons.prems that by (auto simp: filter_empty_conv)
  then show ?case using Cons by auto
qed simp

lemma fold_sorted_insert:
  assumes "sorted (map fst ys)"
  shows "sorted (map fst (fold (\<lambda>(k, x). sorted_insert k x) xs ys))"
    and "mset (fold (\<lambda>(k, x). sorted_insert k x) xs ys) = mset xs + mset ys"
    and "filter (\<lambda>y. fst y = c) (fold (\<lambda>(k, x). sorted_insert k x) xs ys)
           = filter (\<lambda>y. fst y = c) ys @ filter (\<lambda>y. fst y = c) xs"
  using assms
  by (induction xs arbitrary: ys) (auto simp: sorted_sorted_insert filter_sorted_insert)

lemma fold_sorted_insert_is_sort: "fold (\<lambda>(k, x). sorted_insert k x) xs [] = sort_key fst xs"
proof (rule properties_for_sort_key [symmetric])
  fix k
  show "filter (\<lambda>x. fst k = fst x) (fold (\<lambda>(k, x). sorted_insert k x) xs [])
      = filter (\<lambda>x. fst k = fst x) xs"
    using fold_sorted_insert(3) [of "[]" "fst k" xs] by (simp add: eq_commute [of "fst k"])
qed (simp_all add: fold_sorted_insert(1,2))

subsection \<open>The list of the kernel satisfies both contracts\<close>

interpretation nach_queue: item_queue list_rep "\<lambda>a l. lheap l a = None" List_Append List_Remove
proof (unfold_locales, goal_cases)
  case (1 l xs a x)
  then obtain as where as: "list_cells l as" "xs = map (elt_view (lheap l)) as"
    by (auto elim: list_repE)
  obtain l' where "List_Append a x l = Inr l'" "list_cells l' (as @ [a])"
    "map (elt_view (lheap l')) (as @ [a]) = xs @ [(0, x)]" "dom (lheap l') = insert a (dom (lheap l))"
    using List_Append_spec [OF as(1) 1(2), of x] as(2) by auto
  then show ?case by (auto simp: list_rep_def dom_def intro!: exI [of _ "as @ [a]"])
next
  case (2 l kx xs)
  then obtain a as where as: "list_cells l (a # as)" "kx = elt_view (lheap l) a"
    "xs = map (elt_view (lheap l)) as"
    by (auto simp: list_rep_def)
  then show ?case
    using List_SortedRemove_spec [OF as(1)]
    by (auto simp: List_Remove_def list_rep_def intro!: exI [of _ as])
qed

interpretation nach_prio: key_queue list_rep "\<lambda>a l. lheap l a = None"
  List_SortedInsert List_SortedRemove
proof (unfold_locales, goal_cases)
  case (1 l xs a n x k)
  then obtain as where as: "list_cells l as" "xs = map (elt_view (lheap l)) as" "length as \<le> n"
    by (auto elim: list_repE)
  obtain l' bs where "List_SortedInsert n a x k l = Inr l'" "list_cells l' bs"
    "map (elt_view (lheap l')) bs = sorted_insert k x xs" "dom (lheap l') = insert a (dom (lheap l))"
    using List_SortedInsert_spec [OF as(1) 1(2) as(3)] as(2) by blast
  then show ?case by (auto simp: list_rep_def dom_def intro!: exI [of _ bs])
next
  case (2 l kx xs)
  then obtain a as where as: "list_cells l (a # as)" "kx = elt_view (lheap l) a"
    "xs = map (elt_view (lheap l)) as"
    by (auto simp: list_rep_def)
  then show ?case
    using List_SortedRemove_spec [OF as(1)] by (auto simp: list_rep_def intro!: exI [of _ as])
qed

lemma list_rep_new: "list_rep (List_new h) []"
  by (simp add: list_rep_def List_new_def)

lemma List_Remove_empty: "list_rep l [] \<Longrightarrow> List_Remove l = Inr (None, l)"
  by (auto simp: List_Remove_def list_rep_def List_SortedRemove_empty)

lemma List_delete_spec:
  "list_cells l as \<Longrightarrow> \<forall>a\<in>set as. snd (elt_view (lheap l) a) \<noteq> None \<Longrightarrow> length as < n \<Longrightarrow>
     \<exists>l'. List_delete n l = Inr l' \<and> list_cells l' [] \<and> dom (lheap l') = dom (lheap l) - set as"
proof (induction as arbitrary: l n)
  case Nil
  then show ?case by (cases n) (auto simp: List_Remove_def List_SortedRemove_empty)
next
  case (Cons a as)
  then obtain m where n: "n = Suc m" by (cases n) auto
  obtain l' where l': "List_SortedRemove l =
      Inr (snd (elt_view (lheap l) a), Some (fst (elt_view (lheap l) a)), l')"
    "list_cells l' as" "map (elt_view (lheap l')) as = map (elt_view (lheap l)) as"
    "lheap l' = (lheap l)(a := None)"
    using List_SortedRemove_spec [OF Cons.prems(1)] by blast
  have "\<exists>t. List_delete m l' = Inr t \<and> list_cells t [] \<and> dom (lheap t) = dom (lheap l') - set as"
    using Cons.prems n l'(2,3) by (intro Cons.IH) (auto simp: map_eq_conv)
  then show ?case using l' n Cons.prems(2) by (auto simp: List_Remove_def)
qed

declare map_eq_conv [simp]

section \<open>Properties\<close>



text \<open>The list is a first-in first-out queue. Appending any items to an empty
  list and then calling \<^verbatim>\<open>Remove\<close> as many times gives the items back in the order they were
  appended and leaves the list empty.\<close>

theorem list_fifo:
  assumes "distinct as" and "length as = length xs"
  shows "\<exists>l' l''. foldR (\<lambda>(a, x). List_Append a x) (zip as xs) (List_new Map.empty) = Inr l'
           \<and> repeatR (length xs) List_Remove l' = Inr (xs, l'') \<and> list_rep l'' []"
  using assms by (intro nach_queue.first_in_first_out) (simp_all add: list_rep_new, simp add: List_new_def)

theorem list_fifo_witness:
  "distinct [3, 5::nat] \<and> (\<exists>l' l''. foldR (\<lambda>(a, x). List_Append a x) (zip [3, 5] [Some ''a'', None])
       (List_new Map.empty) = Inr l'
     \<and> repeatR 2 List_Remove l' = Inr ([Some ''a'', None], l'') \<and> list_rep l'' [])"
  using list_fifo [of "[3, 5]" "[Some ''a'', None]"] by (simp add: numeral_2_eq_2)

text \<open>Used with keys, the list is a stable priority queue. Inserting any
  (key, item) pairs with \<^verbatim>\<open>SortedInsert\<close> and removing them all with \<^verbatim>\<open>SortedRemove\<close> returns
  them sorted by key, pairs of equal key in the order of insertion: the order in which
  \<^verbatim>\<open>interrupt.cc\<close> fires the interrupts it has scheduled.\<close>

theorem list_stable_priority_queue:
  assumes "distinct as" and "length as = length kxs"
  shows "\<exists>l' l''. foldR (\<lambda>(a, k, x). List_SortedInsert (length kxs) a x k) (zip as kxs) (List_new Map.empty) = Inr l'
           \<and> repeatR (length kxs) (\<lambda>l. bindR (List_SortedRemove l) (\<lambda>(x, k, l'). Inr ((the k, x), l'))) l'
               = Inr (sort_key fst kxs, l'')
           \<and> list_rep l'' []"
proof -
  obtain l' where l': "foldR (\<lambda>(a, k, x). List_SortedInsert (length kxs) a x k) (zip as kxs) (List_new Map.empty) = Inr l'"
    "list_rep l' (fold (\<lambda>(k, x). sorted_insert k x) kxs [])"
    using nach_prio.insert_all [OF list_rep_new [of Map.empty] assms, where n = "length kxs"]
    by (auto simp: List_new_def)
  then show ?thesis
    using nach_prio.first_all [OF l'(2)] by (simp add: fold_sorted_insert_is_sort)
qed

theorem list_stable_priority_queue_witness:
  "distinct [1, 2, 3::nat]
   \<and> (\<exists>l' l''. foldR (\<lambda>(a, k, x). List_SortedInsert 3 a x k)
          (zip [1, 2, 3] [(20, Some ''t''), (10, Some ''d''), (20, Some ''c'')]) (List_new Map.empty) = Inr l'
       \<and> repeatR 3 (\<lambda>l. bindR (List_SortedRemove l) (\<lambda>(x, k, l'). Inr ((the k, x), l'))) l'
           = Inr ([(10, Some ''d''), (20, Some ''t''), (20, Some ''c'')], l'')
       \<and> list_rep l'' [])"
  using list_stable_priority_queue [of "[1, 2, 3]" "[(20, Some ''t''), (10, Some ''d''), (20, Some ''c'')]"]
  by (simp add: numeral_3_eq_3)

end
