(* ===== verification/BitMap.thy ===== *)
theory BitMap
  imports Prelude
begin

unbundle bit_operations_syntax

text \<open>
  \<^verbatim>\<open>userprog/bitmap.cc\<close>: an array of bits packed in 32-bit words, used to allocate disk
  sectors and page frames. Operations keep the source's ASSERTs as errors. The bitmap is
  related to the set of the marked bits, and the allocation contract its clients rely on
  (\<^verbatim>\<open>FileHeader::Allocate\<close>, \<^verbatim>\<open>FrameProvider\<close>) is a locale.
\<close>

section \<open>Operations\<close>

definition BitsInByte :: int where "BitsInByte = 8"
definition BitsInWord :: int where "BitsInWord = 32"

record BitMap =
  numBits :: int
  numWords :: int
  bmap :: "32 word list"

text \<open>\<^verbatim>\<open>1 << (which % BitsInWord)\<close>\<close>

definition bit_mask :: "int \<Rightarrow> 32 word" where
  "bit_mask which = push_bit (nat (which smod BitsInWord)) 1"

definition BitMap_Mark :: "int \<Rightarrow> BitMap \<Rightarrow> BitMap res" where
  "BitMap_Mark which bm =
     bindR (ASSERT (which \<ge> 0 \<and> which < numBits bm)) (\<lambda>_.
     bindR (arr_get (bmap bm) (which sdiv BitsInWord)) (\<lambda>w.
     bindR (arr_set (bmap bm) (which sdiv BitsInWord) (w OR bit_mask which)) (\<lambda>m.
     Inr (bm\<lparr>bmap := m\<rparr>))))"

definition BitMap_Clear :: "int \<Rightarrow> BitMap \<Rightarrow> BitMap res" where
  "BitMap_Clear which bm =
     bindR (ASSERT (which \<ge> 0 \<and> which < numBits bm)) (\<lambda>_.
     bindR (arr_get (bmap bm) (which sdiv BitsInWord)) (\<lambda>w.
     bindR (arr_set (bmap bm) (which sdiv BitsInWord) (w AND NOT (bit_mask which))) (\<lambda>m.
     Inr (bm\<lparr>bmap := m\<rparr>))))"

definition BitMap_Test :: "int \<Rightarrow> BitMap \<Rightarrow> bool res" where
  "BitMap_Test which bm =
     bindR (ASSERT (which \<ge> 0 \<and> which < numBits bm)) (\<lambda>_.
     bindR (arr_get (bmap bm) (which sdiv BitsInWord)) (\<lambda>w.
     Inr (w AND bit_mask which \<noteq> 0)))"

text \<open>
  The constructor: \<open>garbage\<close> is what the uninitialised array holds, and
  every bit below \<^verbatim>\<open>nitems\<close> is cleared.
\<close>

definition BitMap_new :: "(nat \<Rightarrow> 32 word) \<Rightarrow> int \<Rightarrow> BitMap res" where
  "BitMap_new garbage nitems =
     (let nw = divRoundUp nitems BitsInWord
      in foldR BitMap_Clear (map int [0..<nat nitems])
           \<lparr>numBits = nitems, numWords = nw, bmap = map garbage [0..<nat nw]\<rparr>)"

text \<open>\<^verbatim>\<open>Find\<close>: the loop from bit \<open>i\<close> upwards.\<close>

function BitMap_Find_from :: "int \<Rightarrow> BitMap \<Rightarrow> (int \<times> BitMap) res" where
  "BitMap_Find_from i bm =
     (if i < numBits bm then
        bindR (BitMap_Test i bm) (\<lambda>t.
          if \<not> t then bindR (BitMap_Mark i bm) (\<lambda>bm'. Inr (i, bm'))
          else BitMap_Find_from (i + 1) bm)
      else Inr (-1, bm))"
  by pat_completeness auto
termination
  by (relation "measure (\<lambda>(i, bm). nat (numBits bm - i))") auto

declare BitMap_Find_from.simps [simp del]

definition BitMap_Find :: "BitMap \<Rightarrow> (int \<times> BitMap) res" where
  "BitMap_Find bm = BitMap_Find_from 0 bm"

function BitMap_NumClear_from :: "int \<Rightarrow> int \<Rightarrow> BitMap \<Rightarrow> int res" where
  "BitMap_NumClear_from i cnt bm =
     (if i < numBits bm then
        bindR (BitMap_Test i bm) (\<lambda>t.
          BitMap_NumClear_from (i + 1) (if \<not> t then cnt + 1 else cnt) bm)
      else Inr cnt)"
  by pat_completeness auto
termination
  by (relation "measure (\<lambda>(i, cnt, bm). nat (numBits bm - i))") auto

declare BitMap_NumClear_from.simps [simp del]

definition BitMap_NumClear :: "BitMap \<Rightarrow> int res" where
  "BitMap_NumClear bm = BitMap_NumClear_from 0 0 bm"

text \<open>\<^verbatim>\<open>Print\<close>: the numbers printed.\<close>

function BitMap_Print_from :: "int \<Rightarrow> BitMap \<Rightarrow> int list res" where
  "BitMap_Print_from i bm =
     (if i < numBits bm then
        bindR (BitMap_Test i bm) (\<lambda>t.
        bindR (BitMap_Print_from (i + 1) bm) (\<lambda>is. Inr (if t then i # is else is)))
      else Inr [])"
  by pat_completeness auto
termination
  by (relation "measure (\<lambda>(i, bm). nat (numBits bm - i))") auto

declare BitMap_Print_from.simps [simp del]

definition BitMap_Print :: "BitMap \<Rightarrow> int list res" where
  "BitMap_Print bm = BitMap_Print_from 0 bm"

section \<open>The set a bitmap represents\<close>

text \<open>Enough words for the bits: what the constructor establishes.\<close>

definition BitMap_wf :: "BitMap \<Rightarrow> bool" where
  "BitMap_wf bm \<longleftrightarrow> 0 \<le> numBits bm \<and> numBits bm \<le> 32 * int (length (bmap bm))"

definition used_bits :: "BitMap \<Rightarrow> int set" where
  "used_bits bm = {i. 0 \<le> i \<and> i < numBits bm \<and> bit (bmap bm ! nat (i div 32)) (nat (i mod 32))}"

definition free_bits :: "BitMap \<Rightarrow> int set" where
  "free_bits bm = {0..<numBits bm} - used_bits bm"

lemma bit_mask_nonneg: "0 \<le> i \<Longrightarrow> bit_mask i = push_bit (nat (i mod 32)) 1"
  by (simp add: bit_mask_def BitsInWord_def smod_nonneg)

lemma bit_bit_mask: "0 \<le> i \<Longrightarrow> bit (bit_mask i) n \<longleftrightarrow> n = nat (i mod 32)"
proof -
  assume i: "0 \<le> i"
  define k where "k = nat (i mod 32)"
  have k: "k < 32" by (simp add: k_def nat_less_iff)
  have "bit (push_bit k (1 :: 32 word)) n \<longleftrightarrow> n = k"
    unfolding bit_push_bit_iff using k by (auto simp: bit_1_iff)
  then show ?thesis using i by (simp add: bit_mask_nonneg k_def)
qed

lemma and_bit_mask_eq_0: "0 \<le> i \<Longrightarrow> w AND bit_mask i = 0 \<longleftrightarrow> \<not> bit w (nat (i mod 32))"
proof -
  assume i: "0 \<le> i"
  have k: "nat (i mod 32) < 32" by (simp add: nat_less_iff)
  have "w AND bit_mask i = 0 \<longleftrightarrow> (\<forall>n<32. \<not> (bit w n \<and> n = nat (i mod 32)))"
    using i by (simp add: bit_eq_iff [of "w AND bit_mask i"] bit_and_iff bit_bit_mask)
  then show ?thesis using k by auto
qed

lemma wf_index:
  "BitMap_wf bm \<Longrightarrow> 0 \<le> i \<Longrightarrow> i < numBits bm \<Longrightarrow> 0 \<le> i div 32 \<and> i div 32 < int (length (bmap bm))"
  unfolding BitMap_wf_def by presburger

lemma Test_spec:
  "BitMap_wf bm \<Longrightarrow> 0 \<le> i \<Longrightarrow> i < numBits bm \<Longrightarrow> BitMap_Test i bm = Inr (i \<in> used_bits bm)"
  using wf_index [of bm i]
  by (simp add: BitMap_Test_def BitsInWord_def sdiv_nonneg and_bit_mask_eq_0 used_bits_def)

lemma bit_index_eq:
  "0 \<le> i \<Longrightarrow> 0 \<le> j \<Longrightarrow>
     nat (i div 32) = nat (j div 32) \<and> nat (i mod 32) = nat (j mod 32) \<longleftrightarrow> i = (j::int)"
  by (metis div_mult_mod_eq eq_nat_nat_iff pos_imp_zdiv_nonneg_iff zero_less_numeral pos_mod_sign)

lemma Mark_spec:
  assumes "BitMap_wf bm" "0 \<le> i" "i < numBits bm"
  shows "\<exists>bm'. BitMap_Mark i bm = Inr bm' \<and> BitMap_wf bm' \<and> numBits bm' = numBits bm
      \<and> length (bmap bm') = length (bmap bm) \<and> used_bits bm' = insert i (used_bits bm)"
proof -
  define k where "k = nat (i div 32)"
  define m where "m = (bmap bm)[k := bmap bm ! k OR bit_mask i]"
  have k: "k < length (bmap bm)" using wf_index [OF assms] by (simp add: k_def nat_less_iff)
  have "BitMap_Mark i bm = Inr (bm\<lparr>bmap := m\<rparr>)"
    using assms wf_index [OF assms] by (simp add: BitMap_Mark_def BitsInWord_def sdiv_nonneg m_def k_def)
  moreover have "bit (m ! nat (j div 32)) (nat (j mod 32))
      \<longleftrightarrow> j = i \<or> bit (bmap bm ! nat (j div 32)) (nat (j mod 32))" if "0 \<le> j" for j
    using k assms that bit_index_eq [of j i]
    by (auto simp: m_def nth_list_update bit_or_iff bit_bit_mask k_def)
  ultimately show ?thesis using assms by (auto simp: BitMap_wf_def used_bits_def m_def)
qed

lemma Clear_spec:
  assumes "BitMap_wf bm" "0 \<le> i" "i < numBits bm"
  shows "\<exists>bm'. BitMap_Clear i bm = Inr bm' \<and> BitMap_wf bm' \<and> numBits bm' = numBits bm
      \<and> length (bmap bm') = length (bmap bm) \<and> used_bits bm' = used_bits bm - {i}"
proof -
  define k where "k = nat (i div 32)"
  define m where "m = (bmap bm)[k := bmap bm ! k AND NOT (bit_mask i)]"
  have k: "k < length (bmap bm)" using wf_index [OF assms] by (simp add: k_def nat_less_iff)
  have "BitMap_Clear i bm = Inr (bm\<lparr>bmap := m\<rparr>)"
    using assms wf_index [OF assms] by (simp add: BitMap_Clear_def BitsInWord_def sdiv_nonneg m_def k_def)
  moreover have "bit (m ! nat (j div 32)) (nat (j mod 32))
      \<longleftrightarrow> j \<noteq> i \<and> bit (bmap bm ! nat (j div 32)) (nat (j mod 32))" if "0 \<le> j" for j
  proof -
    have "nat (j mod 32) < 32" by (simp add: nat_less_iff)
    then show ?thesis
      using k assms that bit_index_eq [of j i]
      by (auto simp: m_def nth_list_update bit_and_iff bit_not_iff bit_bit_mask k_def)
  qed
  ultimately show ?thesis using assms by (auto simp: BitMap_wf_def used_bits_def m_def)
qed

lemma used_bits_subset: "used_bits bm \<subseteq> {0..<numBits bm}"
  by (auto simp: used_bits_def)

lemma finite_bits [simp]: "finite (used_bits bm)" "finite (free_bits bm)"
  by (auto simp: free_bits_def intro: finite_subset [OF used_bits_subset])

lemma new_spec:
  assumes "0 \<le> n"
  shows "\<exists>bm. BitMap_new garbage n = Inr bm \<and> BitMap_wf bm \<and> numBits bm = n \<and> used_bits bm = {}
      \<and> length (bmap bm) = nat (divRoundUp n 32)"
proof -
  define bm0 where "bm0 = \<lparr>numBits = n, numWords = divRoundUp n 32, bmap = map garbage [0..<nat (divRoundUp n 32)]\<rparr>"
  have wf: "BitMap_wf bm0"
    using assms divRoundUp_mult_ge [of n 32] by (simp add: BitMap_wf_def bm0_def divRoundUp_ge_0)
  have "\<exists>bm. foldR BitMap_Clear (map int [0..<k]) bm0 = Inr bm \<and> BitMap_wf bm \<and> numBits bm = n
      \<and> length (bmap bm) = length (bmap bm0) \<and> used_bits bm \<inter> {0..<int k} = {}" if "int k \<le> n" for k
    using that
  proof (induction k)
    case 0
    then show ?case using wf by (simp add: bm0_def)
  next
    case (Suc k)
    then obtain bm where bm: "foldR BitMap_Clear (map int [0..<k]) bm0 = Inr bm" "BitMap_wf bm"
      "numBits bm = n" "length (bmap bm) = length (bmap bm0)" "used_bits bm \<inter> {0..<int k} = {}"
      by auto
    moreover obtain bm' where bm': "BitMap_Clear (int k) bm = Inr bm'" "BitMap_wf bm'"
      "numBits bm' = n" "length (bmap bm') = length (bmap bm0)" "used_bits bm' = used_bits bm - {int k}"
      using Clear_spec [of bm "int k"] Suc.prems bm by auto
    moreover have "{0..<int (Suc k)} = insert (int k) {0..<int k}" by auto
    ultimately show ?case by auto
  qed
  from this [of "nat n"] show ?thesis
    using assms used_bits_subset
    by (auto simp: BitMap_new_def BitsInWord_def bm0_def Let_def)
qed

lemma Find_from_spec:
  assumes "BitMap_wf bm" "0 \<le> i"
  shows "(if {i..<numBits bm} \<subseteq> used_bits bm then BitMap_Find_from i bm = Inr (-1, bm)
          else \<exists>j bm'. BitMap_Find_from i bm = Inr (j, bm') \<and> i \<le> j \<and> j < numBits bm
            \<and> j \<notin> used_bits bm \<and> {i..<j} \<subseteq> used_bits bm \<and> BitMap_Mark j bm = Inr bm')"
  using assms
proof (induction i bm rule: BitMap_Find_from.induct)
  case (1 i bm)
  show ?case
  proof (cases "i < numBits bm")
    case False
    then show ?thesis by (simp add: BitMap_Find_from.simps [of i])
  next
    case True
    have t: "BitMap_Test i bm = Inr (i \<in> used_bits bm)" using 1 True by (simp add: Test_spec)
    have iv: "{i..<numBits bm} = insert i {i + 1..<numBits bm}" using True by auto
    show ?thesis
    proof (cases "i \<in> used_bits bm")
      case False
      obtain bm' where "BitMap_Mark i bm = Inr bm'" using Mark_spec 1 True by blast
      then show ?thesis using False True t iv by (auto simp: BitMap_Find_from.simps [of i])
    next
      case u: True
      have "BitMap_Find_from i bm = BitMap_Find_from (i + 1) bm"
        using u t True by (simp add: BitMap_Find_from.simps [of i])
      moreover have "{i..<j} = insert i {i + 1..<j}" if "i + 1 \<le> j" for j using that by auto
      ultimately show ?thesis using "1.IH" [OF True t] u iv 1
        by (auto split: if_splits)
    qed
  qed
qed

lemma NumClear_from_spec:
  "BitMap_wf bm \<Longrightarrow> 0 \<le> i \<Longrightarrow>
     BitMap_NumClear_from i c bm = Inr (c + int (card ({i..<numBits bm} - used_bits bm)))"
proof (induction i c bm rule: BitMap_NumClear_from.induct)
  case (1 i c bm)
  show ?case
  proof (cases "i < numBits bm")
    case False
    then show ?thesis by (simp add: BitMap_NumClear_from.simps [of i])
  next
    case True
    have t: "BitMap_Test i bm = Inr (i \<in> used_bits bm)" using 1 True by (simp add: Test_spec)
    have iv: "{i..<numBits bm} - used_bits bm
        = (if i \<in> used_bits bm then {i + 1..<numBits bm} - used_bits bm
           else insert i ({i + 1..<numBits bm} - used_bits bm))"
    proof -
      have "{i..<numBits bm} = insert i {i + 1..<numBits bm}" using True by auto
      then show ?thesis by auto
    qed
    show ?thesis
      using "1.IH" [OF True t] "1.prems" t True iv by (simp add: BitMap_NumClear_from.simps [of i])
  qed
qed

lemma Find_full: "BitMap_wf bm \<Longrightarrow> free_bits bm = {} \<Longrightarrow> BitMap_Find bm = Inr (-1, bm)"
  using Find_from_spec [of bm 0] by (auto simp: BitMap_Find_def free_bits_def split: if_splits)

lemma Find_free:
  assumes "BitMap_wf bm" "free_bits bm \<noteq> {}"
  shows "\<exists>j bm'. BitMap_Find bm = Inr (j, bm') \<and> j \<in> free_bits bm \<and> (\<forall>i\<in>free_bits bm. j \<le> i)
     \<and> BitMap_wf bm' \<and> numBits bm' = numBits bm \<and> length (bmap bm') = length (bmap bm)
     \<and> used_bits bm' = insert j (used_bits bm)"
proof -
  have "\<not> {0..<numBits bm} \<subseteq> used_bits bm" using assms(2) by (auto simp: free_bits_def)
  then obtain j bm' where j: "BitMap_Find_from 0 bm = Inr (j, bm')" "0 \<le> j" "j < numBits bm"
    "j \<notin> used_bits bm" "{0..<j} \<subseteq> used_bits bm" "BitMap_Mark j bm = Inr bm'"
    using Find_from_spec [OF assms(1) order_refl] by auto
  then have "\<forall>i\<in>free_bits bm. j \<le> i" by (force simp: free_bits_def)
  then show ?thesis using j Mark_spec [OF assms(1), of j] by (auto simp: BitMap_Find_def free_bits_def)
qed

lemma NumClear_spec: "BitMap_wf bm \<Longrightarrow> BitMap_NumClear bm = Inr (int (card (free_bits bm)))"
  by (simp add: BitMap_NumClear_def NumClear_from_spec free_bits_def)

lemma free_insert: "used_bits bm' = insert j (used_bits bm) \<Longrightarrow> numBits bm' = numBits bm \<Longrightarrow>
    free_bits bm' = free_bits bm - {j}"
  by (auto simp: free_bits_def)

lemma free_remove: "used_bits bm' = used_bits bm - {j} \<Longrightarrow> numBits bm' = numBits bm \<Longrightarrow> j \<in> used_bits bm \<Longrightarrow>
    free_bits bm' = insert j (free_bits bm)"
  using used_bits_subset [of bm] by (auto simp: free_bits_def)

section \<open>The allocation contract\<close>

text \<open>
  What a client of the bitmap relies on: while some item is free, \<open>alloc\<close> returns one and
  takes it out of the free set; \<open>release\<close> of an item in use puts it back. The lemmas are
  about the loops that allocate and release a list of items.
\<close>

locale allocator =
  fixes good :: "'s \<Rightarrow> bool"
    and unused :: "'s \<Rightarrow> 'a set"
    and inuse :: "'s \<Rightarrow> 'a set"
    and alloc :: "'s \<Rightarrow> ('a \<times> 's) res"
    and release :: "'a \<Rightarrow> 's \<Rightarrow> 's res"
  assumes finite_unused: "finite (unused s)"
    and disjoint: "unused s \<inter> inuse s = {}"
    and alloc_ok: "good s \<Longrightarrow> unused s \<noteq> {} \<Longrightarrow>
          \<exists>x s'. alloc s = Inr (x, s') \<and> good s' \<and> x \<in> unused s
            \<and> unused s' = unused s - {x} \<and> inuse s' = insert x (inuse s)"
    and release_ok: "good s \<Longrightarrow> x \<in> inuse s \<Longrightarrow>
          \<exists>s'. release x s = Inr s' \<and> good s' \<and> unused s' = insert x (unused s) \<and> inuse s' = inuse s - {x}"
begin

lemma alloc_many:
  "good s \<Longrightarrow> n \<le> card (unused s) \<Longrightarrow>
     \<exists>xs s'. repeatR n alloc s = Inr (xs, s') \<and> good s' \<and> length xs = n \<and> distinct xs
       \<and> set xs \<subseteq> unused s \<and> unused s' = unused s - set xs \<and> inuse s' = inuse s \<union> set xs"
proof (induction n arbitrary: s)
  case (Suc n)
  then have "unused s \<noteq> {}" by auto
  then obtain x s1 where x: "alloc s = Inr (x, s1)" "good s1" "x \<in> unused s"
      "unused s1 = unused s - {x}" "inuse s1 = insert x (inuse s)"
    using alloc_ok Suc.prems by blast
  have "n \<le> card (unused s1)" using Suc.prems x finite_unused [of s] by simp
  from Suc.IH [OF x(2) this] obtain xs s2 where "repeatR n alloc s1 = Inr (xs, s2)" "good s2" "length xs = n"
      "distinct xs" "set xs \<subseteq> unused s1" "unused s2 = unused s1 - set xs"
      "inuse s2 = inuse s1 \<union> set xs"
    by (elim exE conjE)
  with x show ?case by auto
qed simp

lemma release_many:
  "good s \<Longrightarrow> distinct xs \<Longrightarrow> set xs \<subseteq> inuse s \<Longrightarrow>
     \<exists>s'. foldR release xs s = Inr s' \<and> good s'
       \<and> unused s' = unused s \<union> set xs \<and> inuse s' = inuse s - set xs"
proof (induction xs arbitrary: s)
  case (Cons x xs)
  then obtain s1 where x: "release x s = Inr s1" "good s1" "unused s1 = insert x (unused s)"
      "inuse s1 = inuse s - {x}"
    using release_ok [of s x] by auto
  moreover have "set xs \<subseteq> inuse s1" using Cons.prems x by auto
  ultimately obtain s2 where "foldR release xs s1 = Inr s2" "good s2"
      "unused s2 = unused s1 \<union> set xs" "inuse s2 = inuse s1 - set xs"
    using Cons.IH [of s1] Cons.prems by auto
  with x show ?case by auto
qed simp

lemma alloc_release_many:
  assumes "good s" "n \<le> card (unused s)"
  shows "\<exists>xs s1 s2. repeatR n alloc s = Inr (xs, s1) \<and> length xs = n \<and> distinct xs
     \<and> set xs \<subseteq> unused s \<and> inuse s1 = inuse s \<union> set xs \<and> foldR release xs s1 = Inr s2
     \<and> good s2 \<and> unused s2 = unused s \<and> inuse s2 = inuse s"
proof -
  obtain xs s1 where a: "repeatR n alloc s = Inr (xs, s1)" "good s1" "length xs = n" "distinct xs"
      "set xs \<subseteq> unused s" "unused s1 = unused s - set xs" "inuse s1 = inuse s \<union> set xs"
    using alloc_many [OF assms] by blast
  moreover obtain s2 where "foldR release xs s1 = Inr s2" "good s2"
      "unused s2 = unused s1 \<union> set xs" "inuse s2 = inuse s1 - set xs"
    using release_many [of s1 xs] a by auto
  moreover have "unused s1 \<union> set xs = unused s" "inuse s1 - set xs = inuse s"
    using a disjoint [of s] by auto
  ultimately show ?thesis by blast
qed

end

interpretation bitmap_alloc: allocator BitMap_wf free_bits used_bits BitMap_Find BitMap_Clear
proof
  fix s x
  show "finite (free_bits s)" by simp
  show "free_bits s \<inter> used_bits s = {}" by (auto simp: free_bits_def)
  show "\<exists>x s'. BitMap_Find s = Inr (x, s') \<and> BitMap_wf s' \<and> x \<in> free_bits s
      \<and> free_bits s' = free_bits s - {x} \<and> used_bits s' = insert x (used_bits s)"
    if "BitMap_wf s" "free_bits s \<noteq> {}"
    using Find_free [OF that] free_insert by metis
  show "\<exists>s'. BitMap_Clear x s = Inr s' \<and> BitMap_wf s' \<and> free_bits s' = insert x (free_bits s)
      \<and> used_bits s' = used_bits s - {x}"
    if "BitMap_wf s" "x \<in> used_bits s"
  proof -
    have "0 \<le> x" "x < numBits s" using that(2) used_bits_subset [of s] by auto
    from Clear_spec [OF that(1) this] obtain s' where "BitMap_Clear x s = Inr s'" "BitMap_wf s'"
      "numBits s' = numBits s" "used_bits s' = used_bits s - {x}" by blast
    then show ?thesis using free_remove that(2) by blast
  qed
qed

section \<open>Properties\<close>

text \<open>
  C36 (refinement): on a bitmap with enough words, \<^verbatim>\<open>Mark\<close>, \<^verbatim>\<open>Clear\<close> and \<^verbatim>\<open>Test\<close> of a bit in range
  are insertion, removal and membership on the set of marked bits; out of range they fail
  their ASSERT. The constructor gives the empty set whatever the memory held.
\<close>

theorem bitmap_refines_set:
  assumes wf: "BitMap_wf bm" and n: "0 \<le> n"
  shows "(0 \<le> i \<and> i < numBits bm \<longrightarrow>
       (\<exists>bm'. BitMap_Mark i bm = Inr bm' \<and> BitMap_wf bm' \<and> used_bits bm' = insert i (used_bits bm))
       \<and> (\<exists>bm'. BitMap_Clear i bm = Inr bm' \<and> BitMap_wf bm' \<and> used_bits bm' = used_bits bm - {i})
       \<and> BitMap_Test i bm = Inr (i \<in> used_bits bm))
     \<and> (i < 0 \<or> numBits bm \<le> i \<longrightarrow>
       BitMap_Mark i bm = Inl AssertFailed \<and> BitMap_Clear i bm = Inl AssertFailed
       \<and> BitMap_Test i bm = Inl AssertFailed)
     \<and> (\<exists>bm'. BitMap_new garbage n = Inr bm' \<and> BitMap_wf bm' \<and> numBits bm' = n \<and> used_bits bm' = {})"
proof (intro conjI impI)
  assume "0 \<le> i \<and> i < numBits bm"
  then have i: "0 \<le> i" "i < numBits bm" by simp_all
  show "\<exists>bm'. BitMap_Mark i bm = Inr bm' \<and> BitMap_wf bm' \<and> used_bits bm' = insert i (used_bits bm)"
    using Mark_spec [OF wf i] by blast
  show "\<exists>bm'. BitMap_Clear i bm = Inr bm' \<and> BitMap_wf bm' \<and> used_bits bm' = used_bits bm - {i}"
    using Clear_spec [OF wf i] by blast
  show "BitMap_Test i bm = Inr (i \<in> used_bits bm)" by (rule Test_spec [OF wf i])
qed (use new_spec [OF n] in \<open>auto simp: BitMap_Mark_def BitMap_Clear_def BitMap_Test_def bindR_ASSERT\<close>)

theorem bitmap_refines_set_witness:
  "\<exists>bm'. BitMap_Mark 33 \<lparr>numBits = 40, numWords = 2, bmap = [5, 0]\<rparr> = Inr bm'
     \<and> BitMap_wf bm' \<and> 33 \<in> used_bits bm'"
proof -
  have "BitMap_wf \<lparr>numBits = 40, numWords = 2, bmap = [5, 0]\<rparr>" by (simp add: BitMap_wf_def)
  from bitmap_refines_set [OF this order_refl, of 33, THEN conjunct1]
  obtain bm' where "BitMap_Mark 33 \<lparr>numBits = 40, numWords = 2, bmap = [5, 0]\<rparr> = Inr bm'" "BitMap_wf bm'"
    "used_bits bm' = insert 33 (used_bits \<lparr>numBits = 40, numWords = 2, bmap = [5, 0]\<rparr>)" by (simp, blast)
  then show ?thesis by blast
qed

text \<open>
  \<^verbatim>\<open>Find\<close> returns the least free bit and marks exactly it, or returns -1 and
  changes nothing when every bit is marked; \<^verbatim>\<open>NumClear\<close> is the number of free bits.
\<close>

theorem bitmap_find_least:
  assumes wf: "BitMap_wf bm"
  shows "(if free_bits bm = {} then BitMap_Find bm = Inr (-1, bm)
      else \<exists>bm'. BitMap_Find bm = Inr (Min (free_bits bm), bm') \<and> BitMap_wf bm'
         \<and> used_bits bm' = insert (Min (free_bits bm)) (used_bits bm))
    \<and> BitMap_NumClear bm = Inr (int (card (free_bits bm)))"
proof -
  have "\<exists>bm'. BitMap_Find bm = Inr (Min (free_bits bm), bm') \<and> BitMap_wf bm'
         \<and> used_bits bm' = insert (Min (free_bits bm)) (used_bits bm)" if "free_bits bm \<noteq> {}"
    using Find_free [OF wf that] by (metis Min_eqI finite_bits(2))
  then show ?thesis using Find_full [OF wf] NumClear_spec [OF wf] by simp
qed

theorem bitmap_find_least_witness:
  "BitMap_NumClear \<lparr>numBits = 3, numWords = 1, bmap = [5]\<rparr>
     = Inr (int (card (free_bits \<lparr>numBits = 3, numWords = 1, bmap = [5]\<rparr>)))"
  by (rule bitmap_find_least [THEN conjunct2]) (simp add: BitMap_wf_def)

text \<open>
  Allocating \<open>n\<close> bits when at least \<open>n\<close> are free succeeds with \<open>n\<close> distinct
  bits that were free, and clearing them gives back the free and the marked sets.
\<close>

theorem bitmap_alloc_release:
  assumes "BitMap_wf bm" "n \<le> card (free_bits bm)"
  shows "\<exists>xs bm1 bm2. repeatR n BitMap_Find bm = Inr (xs, bm1) \<and> length xs = n \<and> distinct xs
     \<and> set xs \<subseteq> free_bits bm \<and> used_bits bm1 = used_bits bm \<union> set xs
     \<and> foldR BitMap_Clear xs bm1 = Inr bm2 \<and> used_bits bm2 = used_bits bm \<and> free_bits bm2 = free_bits bm"
  using bitmap_alloc.alloc_release_many [OF assms] by blast

theorem bitmap_alloc_release_witness:
  "\<exists>xs bm1. repeatR 1 BitMap_Find \<lparr>numBits = 3, numWords = 1, bmap = [5]\<rparr> = Inr (xs, bm1)
     \<and> length xs = 1 \<and> set xs \<subseteq> free_bits \<lparr>numBits = 3, numWords = 1, bmap = [5]\<rparr>"
proof -
  let ?bm = "\<lparr>numBits = 3, numWords = 1, bmap = [5]\<rparr>"
  have "1 \<in> free_bits ?bm" by (simp add: free_bits_def used_bits_def)
  then have "1 \<le> card (free_bits ?bm)" by (metis One_nat_def Suc_leI card_gt_0_iff empty_iff finite_bits(2))
  from bitmap_alloc_release [OF _ this] show ?thesis by (auto simp: BitMap_wf_def)
qed

end
