(* ===== verification/Machine.thy ===== *)
theory Machine
  imports Prelude
begin

unbundle bit_operations_syntax

text \<open>
  The simulated workstation of \<^verbatim>\<open>machine/machine.cc\<close> and \<^verbatim>\<open>machine/translate.cc\<close>: registers,
  physical memory, page table or TLB, address translation, memory access and the trap to
  the kernel. A C \<^verbatim>\<open>int\<close> register is a 32-bit word (the simulator computes in two's
  complement); the host is little endian, as \<^verbatim>\<open>CheckEndian\<close> demands.
\<close>

section \<open>State\<close>

datatype MachineStatus = IdleMode | SystemMode | UserMode

datatype ExceptionType =
    NoException
  | SyscallException
  | PageFaultException
  | ReadOnlyException
  | BusErrorException
  | AddressErrorException
  | OverflowException
  | IllegalInstrException

record TranslationEntry =
  virtualPage :: "32 word"
  physicalPage :: "32 word"
  valid :: bool
  readOnly :: bool
  useBit :: bool
  dirty :: bool

abbreviation (input) SectorSize :: nat where "SectorSize \<equiv> 128"
abbreviation (input) PageSize :: nat where "PageSize \<equiv> 128"
abbreviation (input) NumPhysPages :: nat where "NumPhysPages \<equiv> 256"
abbreviation (input) MemorySize :: nat where "MemorySize \<equiv> 32768"
abbreviation (input) TLBSize :: nat where "TLBSize \<equiv> 4"

abbreviation (input) StackReg :: nat where "StackReg \<equiv> 29"
abbreviation (input) RetAddrReg :: nat where "RetAddrReg \<equiv> 31"
abbreviation (input) NumGPRegs :: nat where "NumGPRegs \<equiv> 32"
abbreviation (input) HiReg :: nat where "HiReg \<equiv> 32"
abbreviation (input) LoReg :: nat where "LoReg \<equiv> 33"
abbreviation (input) PCReg :: nat where "PCReg \<equiv> 34"
abbreviation (input) NextPCReg :: nat where "NextPCReg \<equiv> 35"
abbreviation (input) PrevPCReg :: nat where "PrevPCReg \<equiv> 36"
abbreviation (input) LoadReg :: nat where "LoadReg \<equiv> 37"
abbreviation (input) LoadValueReg :: nat where "LoadValueReg \<equiv> 38"
abbreviation (input) BadVAddrReg :: nat where "BadVAddrReg \<equiv> 39"
abbreviation (input) NumTotalRegs :: nat where "NumTotalRegs \<equiv> 40"

text \<open>
  The machine. \<open>status\<close> is the field of the \<^verbatim>\<open>Interrupt\<close> object that a trap switches. The
  record is extensible, so that a handler can carry further kernel state with it.
  Physical memory is a function on addresses, accessed through \<open>mem_get\<close> and \<open>mem_set\<close>
  which fail outside \<open>MemorySize\<close>.
\<close>

record Machine =
  registers :: "32 word list"
  mainMemory :: "nat \<Rightarrow> byte"
  tlb :: "TranslationEntry list option"
  pageTable :: "TranslationEntry list option"
  pageTableSize :: "32 word"
  singleStep :: bool
  nbProcesses :: int
  status :: MachineStatus

type_synonym 'a handler = "ExceptionType \<Rightarrow> 'a Machine_scheme \<Rightarrow> 'a Machine_scheme res"

definition mem_get :: "(nat \<Rightarrow> byte) \<Rightarrow> nat \<Rightarrow> byte res" where
  "mem_get mem p = (if p < MemorySize then Inr (mem p) else Inl OutOfBounds)"

definition mem_set :: "(nat \<Rightarrow> byte) \<Rightarrow> nat \<Rightarrow> byte \<Rightarrow> (nat \<Rightarrow> byte) res" where
  "mem_set mem p v = (if p < MemorySize then Inr (mem(p := v)) else Inl OutOfBounds)"

section \<open>Byte order\<close>

text \<open>A 32-bit or 16-bit object at an address of a little-endian host.\<close>

definition le32 :: "byte \<Rightarrow> byte \<Rightarrow> byte \<Rightarrow> byte \<Rightarrow> 32 word" where
  "le32 b0 b1 b2 b3 = ucast b0 OR push_bit 8 (ucast b1) OR push_bit 16 (ucast b2) OR push_bit 24 (ucast b3)"

definition le16 :: "byte \<Rightarrow> byte \<Rightarrow> 16 word" where
  "le16 b0 b1 = ucast b0 OR push_bit 8 (ucast b1)"

definition byte_of :: "nat \<Rightarrow> 'a::len word \<Rightarrow> byte" where
  "byte_of k w = ucast (drop_bit (8 * k) w)"

text \<open>\<^verbatim>\<open>CheckEndian\<close>: the bytes 1, 2, 3, 4 read as an integer.\<close>

definition CheckEndian :: "unit res" where
  "CheckEndian = ASSERT (le32 1 2 3 4 = 0x04030201)"

text \<open>Conversions between host and machine order: the identity on a little-endian host.\<close>

definition WordToHost :: "32 word \<Rightarrow> 32 word" where "WordToHost w = w"
definition ShortToHost :: "16 word \<Rightarrow> 16 word" where "ShortToHost w = w"
definition WordToMachine :: "32 word \<Rightarrow> 32 word" where "WordToMachine w = WordToHost w"
definition ShortToMachine :: "16 word \<Rightarrow> 16 word" where "ShortToMachine w = ShortToHost w"

section \<open>Construction and registers\<close>

text \<open>
  The constructor, with the linear page table configuration (\<^verbatim>\<open>USE_TLB\<close> undefined) or the
  TLB one. \<open>garbage\<close> is the initial content of the TLB entries, whose valid bits
  the constructor clears; \<^verbatim>\<open>pageTableSize\<close> is left as it was.
\<close>

definition Machine_new :: "bool \<Rightarrow> (nat \<Rightarrow> TranslationEntry) \<Rightarrow> 32 word \<Rightarrow> bool \<Rightarrow> Machine res" where
  "Machine_new useTLB garbage pts dbg =
     bindR CheckEndian (\<lambda>_.
     Inr \<lparr>registers = replicate NumTotalRegs 0,
          mainMemory = (\<lambda>_. 0),
          tlb = (if useTLB then Some (map (\<lambda>i. (garbage i)\<lparr>valid := False\<rparr>) [0..<TLBSize]) else None),
          pageTable = None,
          pageTableSize = pts,
          singleStep = dbg,
          nbProcesses = 1,
          status = SystemMode\<rparr>)"

definition reg :: "'a Machine_scheme \<Rightarrow> nat \<Rightarrow> 32 word" where
  "reg m i = registers m ! i"

definition set_reg :: "nat \<Rightarrow> 32 word \<Rightarrow> 'a Machine_scheme \<Rightarrow> 'a Machine_scheme" where
  "set_reg i v m = m\<lparr>registers := (registers m)[i := v]\<rparr>"

definition ReadRegister :: "int \<Rightarrow> 'a Machine_scheme \<Rightarrow> 32 word res" where
  "ReadRegister num m =
     bindR (ASSERT (num \<ge> 0 \<and> num < int NumTotalRegs)) (\<lambda>_. arr_get (registers m) num)"

definition WriteRegister :: "int \<Rightarrow> 32 word \<Rightarrow> 'a Machine_scheme \<Rightarrow> 'a Machine_scheme res" where
  "WriteRegister num v m =
     bindR (ASSERT (num \<ge> 0 \<and> num < int NumTotalRegs)) (\<lambda>_.
     bindR (arr_set (registers m) num v) (\<lambda>rs. Inr (m\<lparr>registers := rs\<rparr>)))"

definition SetNbProcesses :: "int \<Rightarrow> 'a Machine_scheme \<Rightarrow> 'a Machine_scheme" where
  "SetNbProcesses n m = m\<lparr>nbProcesses := n\<rparr>"

definition GetNbProcesses :: "'a Machine_scheme \<Rightarrow> int" where
  "GetNbProcesses m = nbProcesses m"

section \<open>Traps\<close>

text \<open>
  \<^verbatim>\<open>DelayedLoad\<close>: install the pending load and record the next one. The target
  register comes from \<open>LoadReg\<close>.
\<close>

definition DelayedLoad :: "32 word \<Rightarrow> 32 word \<Rightarrow> 'a Machine_scheme \<Rightarrow> 'a Machine_scheme res" where
  "DelayedLoad nextReg nextValue m =
     bindR (arr_set (registers m) (sint (reg m LoadReg)) (reg m LoadValueReg)) (\<lambda>rs.
     Inr (set_reg 0 0 (set_reg LoadValueReg nextValue (set_reg LoadReg nextReg (m\<lparr>registers := rs\<rparr>)))))"

text \<open>\<^verbatim>\<open>RaiseException\<close> around the kernel's handler \<open>eh\<close> (\<^verbatim>\<open>ExceptionHandler\<close>).\<close>

definition RaiseException :: "'a handler \<Rightarrow> ExceptionType \<Rightarrow> 32 word \<Rightarrow> 'a Machine_scheme \<Rightarrow> 'a Machine_scheme res" where
  "RaiseException eh which badVAddr m =
     bindR (DelayedLoad 0 0 (set_reg BadVAddrReg badVAddr m)) (\<lambda>m1.
     bindR (eh which (m1\<lparr>status := SystemMode\<rparr>)) (\<lambda>m2.
     Inr (m2\<lparr>status := UserMode\<rparr>)))"

section \<open>Address translation\<close>

datatype translation = Fault ExceptionType | Phys nat

text \<open>The TLB loop: the first valid entry among the \<open>TLBSize\<close> ones that maps the page.\<close>

fun tlb_search :: "nat \<Rightarrow> nat \<Rightarrow> 32 word \<Rightarrow> TranslationEntry list \<Rightarrow> nat option res" where
  "tlb_search 0 i vpn es = Inr None"
| "tlb_search (Suc n) i vpn es =
     bindR (arr_get es (int i)) (\<lambda>e.
       if valid e \<and> virtualPage e = vpn then Inr (Some i) else tlb_search n (Suc i) vpn es)"

text \<open>
  The second half of \<^verbatim>\<open>Translate\<close>, for the entry found: the access checks, then the
  use and dirty bits and the physical address.
\<close>

definition Translate_entry :: "TranslationEntry \<Rightarrow> nat \<Rightarrow> nat \<Rightarrow> bool \<Rightarrow> (translation \<times> TranslationEntry) res" where
  "Translate_entry e offset sz writing =
     (if readOnly e \<and> writing then Inr (Fault ReadOnlyException, e)
      else if unat (physicalPage e) \<ge> NumPhysPages then Inr (Fault BusErrorException, e)
      else
        let e' = e\<lparr>useBit := True, dirty := (if writing then True else dirty e)\<rparr>;
            phys = unat (physicalPage e) * PageSize + offset
        in bindR (ASSERT (phys + sz \<le> MemorySize)) (\<lambda>_. Inr (Phys phys, e')))"

definition Translate :: "32 word \<Rightarrow> nat \<Rightarrow> bool \<Rightarrow> 'a Machine_scheme \<Rightarrow> (translation \<times> 'a Machine_scheme) res" where
  "Translate virtAddr sz writing m =
     (if (sz = 4 \<and> virtAddr AND 3 \<noteq> 0) \<or> (sz = 2 \<and> virtAddr AND 1 \<noteq> 0)
      then Inr (Fault AddressErrorException, m)
      else
        let vpn = unat virtAddr div PageSize; offset = unat virtAddr mod PageSize
        in case (tlb m, pageTable m) of
             (None, Some pt) \<Rightarrow>
               if vpn \<ge> unat (pageTableSize m) then Inr (Fault AddressErrorException, m)
               else bindR (arr_get pt (int vpn)) (\<lambda>e.
                 if \<not> valid e then Inr (Fault PageFaultException, m)
                 else bindR (Translate_entry e offset sz writing) (\<lambda>(t, e').
                        Inr (t, m\<lparr>pageTable := Some (pt[vpn := e'])\<rparr>)))
           | (Some es, None) \<Rightarrow>
               bindR (tlb_search TLBSize 0 (of_nat vpn) es) (\<lambda>r.
                 case r of None \<Rightarrow> Inr (Fault PageFaultException, m)
                 | Some i \<Rightarrow>
                     bindR (arr_get es (int i)) (\<lambda>e.
                     bindR (Translate_entry e offset sz writing) (\<lambda>(t, e').
                       Inr (t, m\<lparr>tlb := Some (es[i := e'])\<rparr>))))
           | _ \<Rightarrow> Inl AssertFailed)"

section \<open>Memory access\<close>

text \<open>
  The accesses of \<^verbatim>\<open>ReadMem\<close>: a \<^verbatim>\<open>char\<close> is signed and is sign-extended into the \<^verbatim>\<open>int\<close>; the
  halfword is zero-extended.
\<close>

definition load_mem :: "nat \<Rightarrow> nat \<Rightarrow> (nat \<Rightarrow> byte) \<Rightarrow> 32 word res" where
  "load_mem sz p mem =
     (if sz = 1 then bindR (mem_get mem p) (\<lambda>b. Inr (scast b))
      else if sz = 2 then
        bindR (mem_get mem p) (\<lambda>b0. bindR (mem_get mem (p + 1)) (\<lambda>b1.
        Inr (ucast (ShortToHost (le16 b0 b1)))))
      else if sz = 4 then
        bindR (mem_get mem p) (\<lambda>b0. bindR (mem_get mem (p + 1)) (\<lambda>b1.
        bindR (mem_get mem (p + 2)) (\<lambda>b2. bindR (mem_get mem (p + 3)) (\<lambda>b3.
        Inr (WordToHost (le32 b0 b1 b2 b3))))))
      else Inl AssertFailed)"

definition store_mem :: "nat \<Rightarrow> nat \<Rightarrow> 32 word \<Rightarrow> (nat \<Rightarrow> byte) \<Rightarrow> (nat \<Rightarrow> byte) res" where
  "store_mem sz p v mem =
     (if sz = 1 then mem_set mem p (ucast (v AND 0xff))
      else if sz = 2 then
        let h = ShortToMachine (ucast (v AND 0xffff))
        in bindR (mem_set mem p (byte_of 0 h)) (\<lambda>mem. mem_set mem (p + 1) (byte_of 1 h))
      else if sz = 4 then
        let w = WordToMachine v
        in bindR (mem_set mem p (byte_of 0 w)) (\<lambda>mem.
           bindR (mem_set mem (p + 1) (byte_of 1 w)) (\<lambda>mem.
           bindR (mem_set mem (p + 2) (byte_of 2 w)) (\<lambda>mem.
           mem_set mem (p + 3) (byte_of 3 w))))
      else Inl AssertFailed)"

text \<open>\<open>None\<close> is the result FALSE: the exception has been raised and handled.\<close>

definition ReadMem :: "'a handler \<Rightarrow> 32 word \<Rightarrow> nat \<Rightarrow> 'a Machine_scheme \<Rightarrow> (32 word option \<times> 'a Machine_scheme) res" where
  "ReadMem eh addr sz m =
     bindR (Translate addr sz False m) (\<lambda>(t, m1).
       case t of
         Fault e \<Rightarrow> bindR (RaiseException eh e addr m1) (\<lambda>m2. Inr (None, m2))
       | Phys p \<Rightarrow> bindR (load_mem sz p (mainMemory m1)) (\<lambda>v. Inr (Some v, m1)))"

definition WriteMem :: "'a handler \<Rightarrow> 32 word \<Rightarrow> nat \<Rightarrow> 32 word \<Rightarrow> 'a Machine_scheme \<Rightarrow> (bool \<times> 'a Machine_scheme) res" where
  "WriteMem eh addr sz v m =
     bindR (Translate addr sz True m) (\<lambda>(t, m1).
       case t of
         Fault e \<Rightarrow> bindR (RaiseException eh e addr m1) (\<lambda>m2. Inr (False, m2))
       | Phys p \<Rightarrow> bindR (store_mem sz p v (mainMemory m1)) (\<lambda>mem. Inr (True, m1\<lparr>mainMemory := mem\<rparr>)))"

section \<open>Bytes of words\<close>

lemma le32_byte_of: "le32 (byte_of 0 w) (byte_of 1 w) (byte_of 2 w) (byte_of 3 w) = w"
proof (rule bit_word_eqI)
  fix n assume "n < LENGTH(32)"
  then have n: "n < 32" by simp
  have b: "bit (le32 (byte_of 0 w) (byte_of 1 w) (byte_of 2 w) (byte_of 3 w)) n \<longleftrightarrow>
      (n < 8 \<and> bit w n) \<or> (8 \<le> n \<and> n < 16 \<and> bit w n) \<or> (16 \<le> n \<and> n < 24 \<and> bit w n)
      \<or> (24 \<le> n \<and> n < 32 \<and> bit w n)"
    using n unfolding le32_def byte_of_def bit_or_iff bit_push_bit_iff bit_ucast_iff bit_drop_bit_eq
    by (auto dest: bit_imp_le_length)
  show "bit (le32 (byte_of 0 w) (byte_of 1 w) (byte_of 2 w) (byte_of 3 w)) n \<longleftrightarrow> bit w n"
    unfolding b using n by linarith
qed

lemma le16_byte_of: "le16 (byte_of 0 w) (byte_of 1 w) = w"
proof (rule bit_word_eqI)
  fix n assume "n < LENGTH(16)"
  then have n: "n < 16" by simp
  have b: "bit (le16 (byte_of 0 w) (byte_of 1 w)) n \<longleftrightarrow> (n < 8 \<and> bit w n) \<or> (8 \<le> n \<and> n < 16 \<and> bit w n)"
    using n unfolding le16_def byte_of_def bit_or_iff bit_push_bit_iff bit_ucast_iff bit_drop_bit_eq
    by (auto dest: bit_imp_le_length)
  show "bit (le16 (byte_of 0 w) (byte_of 1 w)) n \<longleftrightarrow> bit w n"
    unfolding b using n by linarith
qed

text \<open>What a store followed by a load of the same size gives back.\<close>

definition truncate_value :: "nat \<Rightarrow> 32 word \<Rightarrow> 32 word" where
  "truncate_value sz v =
     (if sz = 1 then scast (ucast v :: byte) else if sz = 2 then ucast (ucast v :: 16 word) else v)"

lemma ucast_and_mask8: "(ucast (v AND 0xff) :: byte) = ucast (v :: 32 word)"
proof (rule bit_word_eqI)
  fix n assume "n < LENGTH(8)"
  moreover have eq: "v AND 0xff = v AND mask 8" by (simp add: mask_eq_exp_minus_1)
  ultimately show "bit (ucast (v AND 0xff) :: byte) n = bit (ucast v :: byte) n"
    unfolding eq bit_ucast_iff bit_and_iff bit_mask_iff by auto
qed

lemma ucast_and_mask16: "(ucast (v AND 0xffff) :: 16 word) = ucast (v :: 32 word)"
proof (rule bit_word_eqI)
  fix n assume "n < LENGTH(16)"
  moreover have eq: "v AND 0xffff = v AND mask 16" by (simp add: mask_eq_exp_minus_1)
  ultimately show "bit (ucast (v AND 0xffff) :: 16 word) n = bit (ucast v :: 16 word) n"
    unfolding eq bit_ucast_iff bit_and_iff bit_mask_iff by auto
qed

lemma load_store:
  assumes "sz \<in> {1, 2, 4}" "p + sz \<le> MemorySize"
  shows "\<exists>mem'. store_mem sz p v mem = Inr mem' \<and> load_mem sz p mem' = Inr (truncate_value sz v)
     \<and> (\<forall>a. a < p \<or> p + sz \<le> a \<longrightarrow> mem' a = mem a)"
  using assms
  by (auto simp: store_mem_def load_mem_def mem_set_def mem_get_def truncate_value_def Let_def
      ShortToMachine_def ShortToHost_def WordToMachine_def WordToHost_def ucast_and_mask8 ucast_and_mask16
      le16_byte_of [simplified] le32_byte_of [simplified])

section \<open>Invariant and translation\<close>

text \<open>
  The machine invariant: forty registers, a pending load into a general purpose
  register, and exactly one translation structure, with the entries its size promises.
\<close>

definition tables_ok :: "TranslationEntry list option \<Rightarrow> TranslationEntry list option \<Rightarrow> 32 word \<Rightarrow> bool" where
  "tables_ok tb pt n \<longleftrightarrow>
     (\<exists>es. tb = Some es \<and> pt = None \<and> TLBSize \<le> length es)
     \<or> (\<exists>es. tb = None \<and> pt = Some es \<and> unat n \<le> length es)"

definition Machine_wf :: "'a Machine_scheme \<Rightarrow> bool" where
  "Machine_wf m \<longleftrightarrow> length (registers m) = NumTotalRegs \<and> unat (reg m LoadReg) < NumGPRegs
     \<and> tables_ok (tlb m) (pageTable m) (pageTableSize m)"

lemma reg_set_reg: "j < length (registers m) \<Longrightarrow> reg (set_reg i v m) j = (if i = j then v else reg m j)"
  by (simp add: reg_def set_reg_def)

lemma set_reg_simps [simp]:
  "length (registers (set_reg i v m)) = length (registers m)"
  "tlb (set_reg i v m) = tlb m"
  "pageTable (set_reg i v m) = pageTable m"
  "pageTableSize (set_reg i v m) = pageTableSize m"
  "mainMemory (set_reg i v m) = mainMemory m"
  "status (set_reg i v m) = status m"
  by (simp_all add: set_reg_def)

lemma set_reg_wf: "Machine_wf m \<Longrightarrow> i \<noteq> LoadReg \<Longrightarrow> Machine_wf (set_reg i v m)"
  by (simp add: Machine_wf_def reg_set_reg)

lemma sint_small: "unat (w :: 32 word) < 32 \<Longrightarrow> sint w = int (unat w)"
proof -
  assume "unat w < 32"
  then have u: "0 \<le> uint w" "uint w < 32" using uint_nat [of w] by linarith+
  have "sint w = signed_take_bit (LENGTH(32) - Suc 0) (uint w)" by (rule sint_uint)
  also have "\<dots> = uint w" by (rule signed_take_bit_int_eq_self) (use u in \<open>simp_all add: order_trans [OF _ u(1)]\<close>)
  finally show ?thesis using uint_nat [of w] by (rule trans)
qed

lemma DelayedLoad_ok:
  assumes "Machine_wf m" "unat nr < NumGPRegs"
  shows "\<exists>m'. DelayedLoad nr nv m = Inr m' \<and> Machine_wf m' \<and> reg m' 0 = 0
     \<and> reg m' LoadReg = nr \<and> reg m' LoadValueReg = nv
     \<and> (\<forall>i<NumTotalRegs. i \<noteq> 0 \<and> i \<noteq> LoadReg \<and> i \<noteq> LoadValueReg \<longrightarrow>
          reg m' i = (if i = unat (reg m LoadReg) then reg m LoadValueReg else reg m i))
     \<and> mainMemory m' = mainMemory m \<and> tlb m' = tlb m \<and> pageTable m' = pageTable m
     \<and> pageTableSize m' = pageTableSize m \<and> status m' = status m"
proof -
  let ?m = "m\<lparr>registers := (registers m)[unat (reg m LoadReg) := reg m LoadValueReg]\<rparr>"
  let ?m' = "set_reg 0 0 (set_reg LoadValueReg nv (set_reg LoadReg nr ?m))"
  have l: "length (registers m) = 40" "unat (reg m 37) < 32" using assms by (simp_all add: Machine_wf_def)
  have "uint (reg m 37) < 40" using l(2) uint_nat [of "reg m 37"] by linarith
  then have "DelayedLoad nr nv m = Inr ?m'"
    using l by (simp add: DelayedLoad_def sint_small)
  moreover have "Machine_wf ?m'" using assms l by (simp add: Machine_wf_def reg_set_reg)
  moreover have "reg ?m i = (if i = unat (reg m LoadReg) then reg m LoadValueReg else reg m i)"
    if "i < 40" for i using that l by (auto simp: reg_def)
  ultimately show ?thesis using l by (intro exI [of _ ?m']) (simp add: reg_set_reg)
qed

text \<open>Two machines that differ at most in the use and dirty bits of the translation structure.\<close>

definition entry_key :: "TranslationEntry \<Rightarrow> 32 word \<times> 32 word \<times> bool \<times> bool" where
  "entry_key e = (virtualPage e, physicalPage e, valid e, readOnly e)"

definition same_tables :: "'a Machine_scheme \<Rightarrow> 'a Machine_scheme \<Rightarrow> bool" where
  "same_tables m m' \<longleftrightarrow> pageTableSize m' = pageTableSize m
     \<and> map_option (map entry_key) (tlb m') = map_option (map entry_key) (tlb m)
     \<and> map_option (map entry_key) (pageTable m') = map_option (map entry_key) (pageTable m)"

definition same_but_bits :: "'a Machine_scheme \<Rightarrow> 'a Machine_scheme \<Rightarrow> bool" where
  "same_but_bits m m' \<longleftrightarrow> registers m' = registers m \<and> mainMemory m' = mainMemory m
     \<and> status m' = status m \<and> same_tables m m'"

text \<open>The mapping in force: the entry that translates a virtual page.\<close>

definition lookup_entry :: "'a Machine_scheme \<Rightarrow> nat \<Rightarrow> TranslationEntry option" where
  "lookup_entry m vpn =
     (case (tlb m, pageTable m) of
        (None, Some pt) \<Rightarrow>
          if vpn < unat (pageTableSize m) \<and> vpn < length pt \<and> valid (pt ! vpn) then Some (pt ! vpn) else None
      | (Some es, None) \<Rightarrow> find (\<lambda>e. valid e \<and> virtualPage e = of_nat vpn) (take TLBSize es)
      | _ \<Rightarrow> None)"

text \<open>What a translation should answer, given that mapping.\<close>

definition translate_spec :: "'a Machine_scheme \<Rightarrow> 32 word \<Rightarrow> nat \<Rightarrow> bool \<Rightarrow> translation" where
  "translate_spec m va sz wr =
     (if \<not> ((sz = 4 \<longrightarrow> unat va mod 4 = 0) \<and> (sz = 2 \<longrightarrow> unat va mod 2 = 0)) then Fault AddressErrorException
      else if tlb m = None \<and> unat (pageTableSize m) \<le> unat va div PageSize then Fault AddressErrorException
      else case lookup_entry m (unat va div PageSize) of
             None \<Rightarrow> Fault PageFaultException
           | Some e \<Rightarrow>
               if readOnly e \<and> wr then Fault ReadOnlyException
               else if unat (physicalPage e) \<ge> NumPhysPages then Fault BusErrorException
               else Phys (unat (physicalPage e) * PageSize + unat va mod PageSize))"

lemma Translate_entry_ok:
  assumes "off < 128" "off + sz \<le> 128"
  shows "\<exists>t e'. Translate_entry e off sz wr = Inr (t, e')
     \<and> entry_key e' = entry_key e
     \<and> t = (if readOnly e \<and> wr then Fault ReadOnlyException
            else if unat (physicalPage e) \<ge> NumPhysPages then Fault BusErrorException
            else Phys (unat (physicalPage e) * PageSize + off))"
  using assms by (auto simp: Translate_entry_def entry_key_def Let_def bindR_ASSERT)

lemma and_3_mod: "(w :: 32 word) AND 3 = 0 \<longleftrightarrow> unat w mod 4 = 0"
proof -
  have "w AND 3 = take_bit 2 w" by (simp add: take_bit_eq_mask mask_eq_exp_minus_1)
  then have "w AND 3 = w mod 4" by (simp add: take_bit_eq_mod)
  then have "w AND 3 = 0 \<longleftrightarrow> unat (w mod 4) = 0" by (simp only: unat_eq_0)
  then show ?thesis by (simp add: unat_mod)
qed

lemma and_1_mod: "(w :: 32 word) AND 1 = 0 \<longleftrightarrow> unat w mod 2 = 0"
proof -
  have "w AND 1 = take_bit 1 w" by (simp add: take_bit_eq_mask mask_eq_exp_minus_1)
  then have "w AND 1 = 0 \<longleftrightarrow> unat (take_bit 1 w) = 0" by (simp add: unat_eq_0)
  then show ?thesis by (simp add: unat_mod)
qed

text \<open>An aligned access of 1, 2 or 4 bytes does not cross a page boundary.\<close>

definition aligned :: "32 word \<Rightarrow> nat \<Rightarrow> bool" where
  "aligned va sz \<longleftrightarrow> \<not> ((sz = 4 \<and> va AND 3 \<noteq> 0) \<or> (sz = 2 \<and> va AND 1 \<noteq> 0))"

lemma aligned_in_page:
  assumes "aligned va sz" "sz \<in> {1, 2, 4}"
  shows "unat va mod 128 + sz \<le> 128"
proof -
  have 1: "unat va mod 128 mod 4 = unat va mod 4" "unat va mod 128 mod 2 = unat va mod 2"
    by (simp_all add: mod_mod_cancel)
  have 2: "unat va mod 128 < 128" by simp
  have 3: "x < 128 \<Longrightarrow> x mod 4 = 0 \<Longrightarrow> x + 4 \<le> 128" "x < 128 \<Longrightarrow> x mod 2 = 0 \<Longrightarrow> x + 2 \<le> 128" for x :: nat
    by presburger+
  consider "sz = 1" | "sz = 2" "unat va mod 2 = 0" | "sz = 4" "unat va mod 4 = 0"
    using assms unfolding aligned_def and_3_mod and_1_mod by auto
  then show ?thesis using 2 3 [of "unat va mod 128", unfolded 1] by cases linarith+
qed

lemma tlb_search_spec:
  "i + n \<le> length es \<Longrightarrow> \<exists>r. tlb_search n i vpn es = Inr r \<and> (\<forall>j. r = Some j \<longrightarrow> j < i + n)
     \<and> map_option ((!) es) r = find (\<lambda>e. valid e \<and> virtualPage e = vpn) (take n (drop i es))"
proof (induction n i vpn es rule: tlb_search.induct)
  case (2 n i vpn es)
  have d: "take (Suc n) (drop i es) = es ! i # take n (drop (Suc i) es)"
    using "2.prems" by (simp flip: Cons_nth_drop_Suc)
  show ?case
  proof (cases "valid (es ! i) \<and> virtualPage (es ! i) = vpn")
    case False
    then have "tlb_search (Suc n) i vpn es = tlb_search n (Suc i) vpn es" using "2.prems" by auto
    moreover have "\<exists>r. tlb_search n (Suc i) vpn es = Inr r \<and> (\<forall>j. r = Some j \<longrightarrow> j < Suc i + n)
      \<and> map_option ((!) es) r = find (\<lambda>e. valid e \<and> virtualPage e = vpn) (take n (drop (Suc i) es))"
      using "2.IH" [of "es ! i"] False "2.prems" by auto
    ultimately show ?thesis using False unfolding d by auto
  qed (use "2.prems" d in auto)
qed auto

lemma same_but_bits_refl [simp]: "same_but_bits m m"
  by (simp add: same_but_bits_def same_tables_def)

lemma keys_length: "map entry_key xs = map entry_key ys \<Longrightarrow> length xs = length ys"
  by (rule map_eq_imp_length_eq)

lemma keys_nth: "map entry_key xs = map entry_key ys \<Longrightarrow> i < length ys \<Longrightarrow> entry_key (xs ! i) = entry_key (ys ! i)"
  by (metis length_map nth_map)

lemma same_but_bits_wf: "same_but_bits m m' \<Longrightarrow> Machine_wf m \<Longrightarrow> Machine_wf m'"
  by (auto simp: same_but_bits_def same_tables_def Machine_wf_def tables_ok_def reg_def dest!: keys_length)

lemma find_keys:
  "map entry_key xs = map entry_key ys \<Longrightarrow>
     map_option entry_key (find (\<lambda>e. valid e \<and> virtualPage e = v) xs)
     = map_option entry_key (find (\<lambda>e. valid e \<and> virtualPage e = v) ys)"
proof (induction xs arbitrary: ys)
  case (Cons x xs)
  then show ?case by (cases ys) (auto simp: entry_key_def)
qed simp

lemma lookup_same_tables:
  assumes "same_tables m m'"
  shows "map_option entry_key (lookup_entry m' vpn) = map_option entry_key (lookup_entry m vpn)"
proof -
  have k: "map_option (map entry_key) (tlb m') = map_option (map entry_key) (tlb m)"
    "map_option (map entry_key) (pageTable m') = map_option (map entry_key) (pageTable m)"
    "pageTableSize m' = pageTableSize m" using assms by (simp_all add: same_tables_def)
  consider "tlb m = None" "pageTable m = None" | es es' where "tlb m = Some es" "tlb m' = Some es'"
      "map entry_key es' = map entry_key es" 
    | pt pt' where "tlb m = None" "tlb m' = None" "pageTable m = Some pt" "pageTable m' = Some pt'"
      "map entry_key pt' = map entry_key pt"
    using k by (cases "tlb m"; cases "pageTable m"; auto)
  then show ?thesis
  proof cases
    case 1
    then show ?thesis using k by (simp add: lookup_entry_def)
  next
    case 2
    then have "map entry_key (take 4 es') = map entry_key (take 4 es)" by (simp flip: take_map)
    from find_keys [OF this] show ?thesis using 2 k
      by (cases "pageTable m") (auto simp: lookup_entry_def)
  next
    case 3
    then show ?thesis using k keys_nth [OF 3(5), of vpn] keys_length [OF 3(5)]
      by (auto simp: lookup_entry_def entry_key_def)
  qed
qed

lemma translate_spec_same_tables:
  assumes "same_tables m m'"
  shows "translate_spec m' va sz wr = translate_spec m va sz wr"
proof -
  have "tlb m' = None \<longleftrightarrow> tlb m = None" "pageTableSize m' = pageTableSize m"
    using assms by (auto simp: same_tables_def)
  then show ?thesis using lookup_same_tables [OF assms, of "unat va div 128"]
    by (auto simp: translate_spec_def entry_key_def split: option.splits)
qed

lemma map_update_same: "i < length es \<Longrightarrow> f e = f (es ! i) \<Longrightarrow> map f (es[i := e]) = map f es"
  by (metis list_update_id map_update)

text \<open>
  The translation computes its specification and changes nothing but use and dirty bits.
\<close>

lemma Translate_ok:
  assumes wf: "Machine_wf m" and sz: "sz \<in> {1, 2, 4}"
  shows "\<exists>m'. Translate va sz wr m = Inr (translate_spec m va sz wr, m') \<and> same_but_bits m m'"
proof (cases "aligned va sz")
  case False
  then show ?thesis by (auto simp: Translate_def aligned_def translate_spec_def and_3_mod and_1_mod)
next
  case al: True
  define vpn where "vpn = unat va div 128"
  define off where "off = unat va mod 128"
  have off: "off < 128" "off + sz \<le> 128" using aligned_in_page [OF al sz] by (simp_all add: off_def)
  have al': "\<not> ((sz = 4 \<and> va AND 3 \<noteq> 0) \<or> (sz = 2 \<and> va AND 1 \<noteq> 0))" using al by (simp add: aligned_def)
  then have al2: "(sz = 4 \<longrightarrow> unat va mod 4 = 0) \<and> (sz = 2 \<longrightarrow> unat va mod 2 = 0)"
    unfolding and_3_mod and_1_mod by auto
  note T = Translate_def translate_spec_def Let_def al' al2 vpn_def [symmetric] off_def [symmetric]
  from wf consider
      (tlb) es where "tlb m = Some es" "pageTable m = None" "4 \<le> length es"
    | (pt) es where "tlb m = None" "pageTable m = Some es" "unat (pageTableSize m) \<le> length es"
    by (auto simp: Machine_wf_def tables_ok_def)
  then show ?thesis
  proof cases
    case tlb
    obtain r where r: "tlb_search 4 0 (of_nat vpn) es = Inr r" "\<And>j. r = Some j \<Longrightarrow> j < 4"
      "map_option ((!) es) r = find (\<lambda>e. valid e \<and> virtualPage e = of_nat vpn) (take 4 es)"
      using tlb_search_spec [of 0 4 es "of_nat vpn"] tlb(3) by auto
    then have l: "lookup_entry m vpn = map_option ((!) es) r" using tlb by (simp add: lookup_entry_def)
    show ?thesis
    proof (cases r)
      case None
      then show ?thesis using tlb r l by (auto simp: T)
    next
      case (Some j)
      then have j: "j < 4" using r by blast
      obtain t e' where e': "Translate_entry (es ! j) off sz wr = Inr (t, e')"
        "entry_key e' = entry_key (es ! j)"
        "t = (if readOnly (es ! j) \<and> wr then Fault ReadOnlyException
            else if unat (physicalPage (es ! j)) \<ge> NumPhysPages then Fault BusErrorException
            else Phys (unat (physicalPage (es ! j)) * PageSize + off))"
        using Translate_entry_ok [OF off] by blast
      have "Translate va sz wr m = Inr (t, m\<lparr>tlb := Some (es[j := e'])\<rparr>)"
        using tlb r Some j e'(1) by (simp add: T)
      moreover have "same_but_bits m (m\<lparr>tlb := Some (es[j := e'])\<rparr>)"
        using tlb j e' by (simp add: same_but_bits_def same_tables_def map_update_same)
      ultimately show ?thesis using e'(3) tlb l Some by (auto simp: T)
    qed
  next
    case pt
    show ?thesis
    proof (cases "vpn < unat (pageTableSize m) \<and> valid (es ! vpn)")
      case False
      then show ?thesis using pt by (auto simp: T lookup_entry_def)
    next
      case True
      then have v: "vpn < length es" "lookup_entry m vpn = Some (es ! vpn)" using pt by (auto simp: lookup_entry_def)
      obtain t e' where e': "Translate_entry (es ! vpn) off sz wr = Inr (t, e')"
        "entry_key e' = entry_key (es ! vpn)"
        "t = (if readOnly (es ! vpn) \<and> wr then Fault ReadOnlyException
            else if unat (physicalPage (es ! vpn)) \<ge> NumPhysPages then Fault BusErrorException
            else Phys (unat (physicalPage (es ! vpn)) * PageSize + off))"
        using Translate_entry_ok [OF off] by blast
      have "Translate va sz wr m = Inr (t, m\<lparr>pageTable := Some (es[vpn := e'])\<rparr>)"
        using pt v True e'(1) by (simp add: T)
      moreover have "same_but_bits m (m\<lparr>pageTable := Some (es[vpn := e'])\<rparr>)"
        using pt v e' by (simp add: same_but_bits_def same_tables_def map_update_same)
      ultimately show ?thesis using e'(3) pt v True by (auto simp: T)
    qed
  qed
qed

lemma translate_spec_Phys:
  assumes "translate_spec m va sz wr = Phys p" "sz \<in> {1, 2, 4}"
  obtains e where "lookup_entry m (unat va div PageSize) = Some e" "\<not> (readOnly e \<and> wr)"
    "p mod PageSize = unat va mod PageSize" "p + sz \<le> MemorySize"
    "\<And>a. p \<le> a \<Longrightarrow> a < p + sz \<Longrightarrow> a div PageSize = unat (physicalPage e)"
proof -
  from assms obtain e where e: "lookup_entry m (unat va div 128) = Some e" "\<not> (readOnly e \<and> wr)"
    "unat (physicalPage e) < 256" "p = unat (physicalPage e) * 128 + unat va mod 128" "aligned va sz"
    by (auto simp: translate_spec_def aligned_def and_3_mod and_1_mod split: if_splits option.splits)
  have o: "unat va mod 128 + sz \<le> 128" using aligned_in_page [OF e(5) assms(2)] .
  have "a div 128 = unat (physicalPage e)" if "p \<le> a" "a < p + sz" for a
  proof -
    define k where "k = a - unat (physicalPage e) * 128"
    have "a = unat (physicalPage e) * 128 + k" "k < 128" using that e(4) o unfolding k_def by linarith+
    then show ?thesis by simp
  qed
  with e o show ?thesis using that by auto
qed

section \<open>Properties\<close>

text \<open>
  C4 (functional): in a state that satisfies the machine invariant, translating an access of
  1, 2 or 4 bytes never fails an ASSERT, answers what the mapping in force prescribes (the
  exception of every error branch included), and changes only use and dirty bits; when
  it succeeds, the whole access lies in physical memory, in the one frame that a valid entry
  maps the virtual page to, and that entry permits the access.
\<close>

theorem translate_correct:
  assumes "Machine_wf m" "sz \<in> {1, 2, 4}"
  shows "(\<exists>m'. Translate va sz wr m = Inr (translate_spec m va sz wr, m') \<and> same_but_bits m m' \<and> Machine_wf m')
     \<and> (\<forall>p. translate_spec m va sz wr = Phys p \<longrightarrow> p + sz \<le> MemorySize
          \<and> (\<exists>e. lookup_entry m (unat va div PageSize) = Some e \<and> \<not> (readOnly e \<and> wr)
               \<and> p mod PageSize = unat va mod PageSize
               \<and> (\<forall>a. p \<le> a \<and> a < p + sz \<longrightarrow> a div PageSize = unat (physicalPage e))))"
proof (intro conjI allI impI)
  show "\<exists>m'. Translate va sz wr m = Inr (translate_spec m va sz wr, m') \<and> same_but_bits m m' \<and> Machine_wf m'"
    using Translate_ok [OF assms] same_but_bits_wf assms(1) by blast
  fix p assume "translate_spec m va sz wr = Phys p"
  from translate_spec_Phys [OF this assms(2)]
  show "p + sz \<le> MemorySize" and "\<exists>e. lookup_entry m (unat va div PageSize) = Some e \<and> \<not> (readOnly e \<and> wr)
               \<and> p mod PageSize = unat va mod PageSize
               \<and> (\<forall>a. p \<le> a \<and> a < p + sz \<longrightarrow> a div PageSize = unat (physicalPage e))"
    by metis+
qed

definition demo_entry :: TranslationEntry where
  "demo_entry = \<lparr>virtualPage = 0, physicalPage = 3, valid = True, readOnly = False, useBit = False, dirty = False\<rparr>"

definition demo_machine :: Machine where
  "demo_machine = \<lparr>registers = replicate 40 0, mainMemory = (\<lambda>_. 0), tlb = None, pageTable = Some [demo_entry],
     pageTableSize = 1, singleStep = False, nbProcesses = 1, status = UserMode\<rparr>"

lemma demo_machine_wf: "Machine_wf demo_machine"
  by (simp add: Machine_wf_def tables_ok_def demo_machine_def reg_def)

theorem translate_correct_witness:
  "translate_spec demo_machine 8 4 True = Phys 392 \<and>
   (\<exists>m'. Translate 8 4 True demo_machine = Inr (Phys 392, m') \<and> Machine_wf m')"
proof -
  have "translate_spec demo_machine 8 4 True = Phys 392"
    by (simp add: translate_spec_def lookup_entry_def demo_machine_def demo_entry_def)
  then show ?thesis using translate_correct [OF demo_machine_wf, of 4 8 True] by auto
qed

text \<open>
  A store that succeeds is read back by a load of the same size at the same
  virtual address (a byte sign-extended, a halfword zero-extended), for every handler.
\<close>

theorem write_read_mem:
  assumes "Machine_wf m" "sz \<in> {1, 2, 4}" "WriteMem eh va sz v m = Inr (True, m1)"
  shows "\<exists>m2. ReadMem eh va sz m1 = Inr (Some (truncate_value sz v), m2) \<and> Machine_wf m2"
proof -
  obtain m0 where T: "Translate va sz True m = Inr (translate_spec m va sz True, m0)" "same_but_bits m m0"
    using Translate_ok [OF assms(1,2)] by blast
  obtain p where p: "translate_spec m va sz True = Phys p"
    using assms(3) T(1) by (cases "translate_spec m va sz True") (auto simp: WriteMem_def bind_iffs)
  have b: "p + sz \<le> 32768" using translate_spec_Phys [OF p assms(2)] by metis
  obtain mem' where mem': "store_mem sz p v (mainMemory m0) = Inr mem'"
      "load_mem sz p mem' = Inr (truncate_value sz v)"
    using load_store [OF assms(2) b] by blast
  have m1: "m1 = m0\<lparr>mainMemory := mem'\<rparr>" using assms(3) T(1) p mem'(1) by (simp add: WriteMem_def)
  have wf1: "Machine_wf m1" using same_but_bits_wf [OF T(2) assms(1)] by (simp add: m1 Machine_wf_def reg_def)
  have st: "same_tables m m1" using T(2) by (simp add: m1 same_but_bits_def same_tables_def)
  have "translate_spec m1 va sz False = Phys p"
    using p unfolding translate_spec_same_tables [OF st]
    by (auto simp: translate_spec_def split: if_splits option.splits)
  then obtain m2 where m2: "Translate va sz False m1 = Inr (Phys p, m2)" "same_but_bits m1 m2"
    using Translate_ok [OF wf1 assms(2), of va False] by auto
  then have "mainMemory m2 = mem'" by (simp add: same_but_bits_def m1)
  then show ?thesis using m2 mem'(2) same_but_bits_wf [OF m2(2) wf1] by (simp add: ReadMem_def)
qed

theorem write_read_mem_witness:
  "\<exists>m1 m2. WriteMem (\<lambda>_ m. Inr m) 8 4 77 demo_machine = Inr (True, m1)
     \<and> ReadMem (\<lambda>_ m. Inr m) 8 4 m1 = Inr (Some 77, m2)"
proof -
  have "\<exists>m1. WriteMem (\<lambda>_ m. Inr m) 8 4 77 demo_machine = Inr (True, m1)"
    by (simp add: WriteMem_def Translate_def Translate_entry_def demo_machine_def demo_entry_def
        store_mem_def mem_set_def Let_def)
  then show ?thesis using write_read_mem [OF demo_machine_wf, of 4 "\<lambda>_ m. Inr m" 8 77]
    by (auto simp: truncate_value_def)
qed

text \<open>Where a store lands.\<close>

lemma store_isolated:
  assumes "Machine_wf m" "sz \<in> {1, 2, 4}" "WriteMem eh va sz v m = Inr (True, m1)"
  shows "\<exists>e. lookup_entry m (unat va div PageSize) = Some e \<and> \<not> readOnly e
     \<and> (\<forall>a. mainMemory m1 a \<noteq> mainMemory m a \<longrightarrow> a div PageSize = unat (physicalPage e))
     \<and> registers m1 = registers m \<and> same_tables m m1"
proof -
  obtain m0 where T: "Translate va sz True m = Inr (translate_spec m va sz True, m0)" "same_but_bits m m0"
    using Translate_ok [OF assms(1,2)] by blast
  obtain p where p: "translate_spec m va sz True = Phys p"
    using assms(3) T(1) by (cases "translate_spec m va sz True") (auto simp: WriteMem_def bind_iffs)
  obtain e where e: "lookup_entry m (unat va div 128) = Some e" "\<not> (readOnly e \<and> True)" "p + sz \<le> 32768"
    "\<And>a. p \<le> a \<Longrightarrow> a < p + sz \<Longrightarrow> a div 128 = unat (physicalPage e)"
    using translate_spec_Phys [OF p assms(2)] by metis
  obtain mem' where mem': "store_mem sz p v (mainMemory m0) = Inr mem'"
      "\<forall>a. a < p \<or> p + sz \<le> a \<longrightarrow> mem' a = mainMemory m0 a"
    using load_store [OF assms(2) e(3)] by blast
  have m1: "m1 = m0\<lparr>mainMemory := mem'\<rparr>" using assms(3) T(1) p mem'(1) by (simp add: WriteMem_def)
  have "mainMemory m0 = mainMemory m" using T(2) by (simp add: same_but_bits_def)
  then have "\<forall>a. mainMemory m1 a \<noteq> mainMemory m a \<longrightarrow> a div 128 = unat (physicalPage e)"
    using mem'(2) e(4) unfolding m1 by (metis Machine.select_convs(2) Machine.surjective Machine.update_convs(2) not_less)
  then show ?thesis using e T(2) by (auto simp: m1 same_but_bits_def same_tables_def)
qed

text \<open>
  C24 (safety): a store that succeeds changes only bytes of the frame that the mapping in force
  gives to the page of the virtual address, through an entry that is not read-only; registers
  and mappings stay as they were.
\<close>

theorem write_mem_isolated:
  assumes "Machine_wf m" "sz \<in> {1, 2, 4}" "WriteMem eh va sz v m = Inr (True, m1)"
  shows "\<exists>e. lookup_entry m (unat va div PageSize) = Some e \<and> \<not> readOnly e
     \<and> (\<forall>a. mainMemory m1 a \<noteq> mainMemory m a \<longrightarrow> a div PageSize = unat (physicalPage e))
     \<and> registers m1 = registers m \<and> same_tables m m1"
  by (rule store_isolated [OF assms])

theorem write_mem_isolated_witness:
  "\<exists>m1. WriteMem (\<lambda>_ m. Inr m) 8 4 77 demo_machine = Inr (True, m1)
     \<and> (\<forall>a. mainMemory m1 a \<noteq> mainMemory demo_machine a \<longrightarrow> a div PageSize = 3)"
proof -
  have "\<exists>m1. WriteMem (\<lambda>_ m. Inr m) 8 4 77 demo_machine = Inr (True, m1)"
    by (simp add: WriteMem_def Translate_def Translate_entry_def demo_machine_def demo_entry_def
        store_mem_def mem_set_def Let_def)
  moreover have "lookup_entry demo_machine (unat (8 :: 32 word) div PageSize) = Some demo_entry"
    by (simp add: lookup_entry_def demo_machine_def demo_entry_def)
  ultimately show ?thesis using write_mem_isolated [OF demo_machine_wf, of 4 "\<lambda>_ m. Inr m" 8 77]
    by (auto simp: demo_entry_def)
qed

end
