(* ===== verification/MipsDecode.thy ===== *)
theory MipsDecode
  imports Prelude
begin

unbundle bit_operations_syntax

text \<open>
  Instruction decoding of \<^verbatim>\<open>machine/mipssim.cc\<close> with the tables of \<^verbatim>\<open>machine/mipssim.h\<close>.
\<close>

section \<open>Instructions\<close>

text \<open>The opcodes, and the two values that ask for further decoding.\<close>

datatype (plugins only: code size) OpCode =
    OP_ADD | OP_ADDI | OP_ADDIU | OP_ADDU | OP_AND | OP_ANDI | OP_BEQ | OP_BGEZ | OP_BGEZAL
  | OP_BGTZ | OP_BLEZ | OP_BLTZ | OP_BLTZAL | OP_BNE | OP_DIV | OP_DIVU | OP_J | OP_JAL
  | OP_JALR | OP_JR | OP_LB | OP_LBU | OP_LH | OP_LHU | OP_LUI | OP_LW | OP_LWL | OP_LWR
  | OP_MFHI | OP_MFLO | OP_MTHI | OP_MTLO | OP_MULT | OP_MULTU | OP_NOR | OP_OR | OP_ORI
  | OP_RFE | OP_SB | OP_SH | OP_SLL | OP_SLLV | OP_SLT | OP_SLTI | OP_SLTIU | OP_SLTU
  | OP_SRA | OP_SRAV | OP_SRL | OP_SRLV | OP_SUB | OP_SUBU | OP_SW | OP_SWL | OP_SWR
  | OP_XOR | OP_XORI | OP_SYSCALL | OP_UNIMP | OP_RES
  | SPECIAL | BCOND

datatype OpFormat = IFMT | JFMT | RFMT

record Instruction =
  ival :: "32 word"
  opCode :: OpCode
  rs :: nat
  rt :: nat
  rd :: nat
  extra :: "32 word"

definition opTable :: "(OpCode \<times> OpFormat) list" where
  "opTable =
    [(SPECIAL, RFMT), (BCOND, IFMT), (OP_J, JFMT), (OP_JAL, JFMT),
     (OP_BEQ, IFMT), (OP_BNE, IFMT), (OP_BLEZ, IFMT), (OP_BGTZ, IFMT),
     (OP_ADDI, IFMT), (OP_ADDIU, IFMT), (OP_SLTI, IFMT), (OP_SLTIU, IFMT),
     (OP_ANDI, IFMT), (OP_ORI, IFMT), (OP_XORI, IFMT), (OP_LUI, IFMT),
     (OP_UNIMP, IFMT), (OP_UNIMP, IFMT), (OP_UNIMP, IFMT), (OP_UNIMP, IFMT),
     (OP_RES, IFMT), (OP_RES, IFMT), (OP_RES, IFMT), (OP_RES, IFMT),
     (OP_RES, IFMT), (OP_RES, IFMT), (OP_RES, IFMT), (OP_RES, IFMT),
     (OP_RES, IFMT), (OP_RES, IFMT), (OP_RES, IFMT), (OP_RES, IFMT),
     (OP_LB, IFMT), (OP_LH, IFMT), (OP_LWL, IFMT), (OP_LW, IFMT),
     (OP_LBU, IFMT), (OP_LHU, IFMT), (OP_LWR, IFMT), (OP_RES, IFMT),
     (OP_SB, IFMT), (OP_SH, IFMT), (OP_SWL, IFMT), (OP_SW, IFMT),
     (OP_RES, IFMT), (OP_RES, IFMT), (OP_SWR, IFMT), (OP_RES, IFMT),
     (OP_UNIMP, IFMT), (OP_UNIMP, IFMT), (OP_UNIMP, IFMT), (OP_UNIMP, IFMT),
     (OP_RES, IFMT), (OP_RES, IFMT), (OP_RES, IFMT), (OP_RES, IFMT),
     (OP_UNIMP, IFMT), (OP_UNIMP, IFMT), (OP_UNIMP, IFMT), (OP_UNIMP, IFMT),
     (OP_RES, IFMT), (OP_RES, IFMT), (OP_RES, IFMT), (OP_RES, IFMT)]"

definition specialTable :: "OpCode list" where
  "specialTable =
    [OP_SLL, OP_RES, OP_SRL, OP_SRA, OP_SLLV, OP_RES, OP_SRLV, OP_SRAV,
     OP_JR, OP_JALR, OP_RES, OP_RES, OP_SYSCALL, OP_UNIMP, OP_RES, OP_RES,
     OP_MFHI, OP_MTHI, OP_MFLO, OP_MTLO, OP_RES, OP_RES, OP_RES, OP_RES,
     OP_MULT, OP_MULTU, OP_DIV, OP_DIVU, OP_RES, OP_RES, OP_RES, OP_RES,
     OP_ADD, OP_ADDU, OP_SUB, OP_SUBU, OP_AND, OP_OR, OP_XOR, OP_NOR,
     OP_RES, OP_RES, OP_SLT, OP_SLTU, OP_RES, OP_RES, OP_RES, OP_RES,
     OP_RES, OP_RES, OP_RES, OP_RES, OP_RES, OP_RES, OP_RES, OP_RES,
     OP_RES, OP_RES, OP_RES, OP_RES, OP_RES, OP_RES, OP_RES, OP_RES]"

definition Decode :: "32 word \<Rightarrow> Instruction" where
  "Decode v =
     (let (op, fmt) = opTable ! unat (drop_bit 26 v AND 0x3f);
          ex = (case fmt of
                  IFMT \<Rightarrow> (let x = v AND 0xffff in if x AND 0x8000 \<noteq> 0 then x OR 0xffff0000 else x)
                | RFMT \<Rightarrow> drop_bit 6 v AND 0x1f
                | JFMT \<Rightarrow> v AND 0x3ffffff);
          i = v AND 0x1f0000;
          op' = (if op = SPECIAL then specialTable ! unat (v AND 0x3f)
                 else if op = BCOND then
                   (if i = 0 then OP_BLTZ
                    else if i = 0x10000 then OP_BGEZ
                    else if i = 0x100000 then OP_BLTZAL
                    else if i = 0x110000 then OP_BGEZAL
                    else OP_UNIMP)
                 else op)
      in \<lparr>ival = v, opCode = op',
          rs = unat (drop_bit 21 v AND 0x1f),
          rt = unat (drop_bit 16 v AND 0x1f),
          rd = unat (drop_bit 11 v AND 0x1f),
          extra = ex\<rparr>)"

definition IndexToAddr :: "32 word \<Rightarrow> 32 word" where
  "IndexToAddr x = push_bit 2 x"

definition SIGN_BIT :: "32 word" where
  "SIGN_BIT = 0x80000000"

section \<open>Lemmas\<close>

lemma and_31: "(w :: 32 word) AND 0x1f = take_bit 5 w"
  by (simp add: take_bit_eq_mask mask_eq_exp_minus_1)

lemma and_63: "(w :: 32 word) AND 0x3f = take_bit 6 w"
  by (simp add: take_bit_eq_mask mask_eq_exp_minus_1)

lemma unat_take_bit_less: "n < 32 \<Longrightarrow> unat (take_bit n (w :: 32 word)) < 2 ^ n"
  by (simp add: unsigned_take_bit_eq)

lemma Decode_regs: "rs (Decode v) < 32" "rt (Decode v) < 32" "rd (Decode v) < 32"
  using unat_take_bit_less [of 5 "drop_bit 21 v"] unat_take_bit_less [of 5 "drop_bit 16 v"]
    unat_take_bit_less [of 5 "drop_bit 11 v"]
  by (simp_all add: Decode_def Let_def and_31 split: prod.splits)

definition handled :: "OpCode \<Rightarrow> bool" where
  "handled c \<longleftrightarrow> c \<noteq> SPECIAL \<and> c \<noteq> BCOND \<and> c \<noteq> OP_RFE"

lemma tables_handled:
  "\<forall>e\<in>set opTable. fst e = SPECIAL \<or> fst e = BCOND \<or> handled (fst e)"
  "\<forall>c\<in>set specialTable. handled c"
  by (simp_all add: opTable_def specialTable_def handled_def)

lemma length_tables: "length opTable = 64" "length specialTable = 64"
  by (simp_all add: opTable_def specialTable_def)

lemma Decode_handled: "handled (opCode (Decode v))"
proof -
  have i: "unat (drop_bit 26 v AND 0x3f) < 64" "unat (v AND 0x3f) < 64"
    using unat_take_bit_less [of 6 "drop_bit 26 v"] unat_take_bit_less [of 6 v] by (simp_all add: and_63)
  obtain op fmt where o: "opTable ! unat (drop_bit 26 v AND 0x3f) = (op, fmt)" by fastforce
  then have "(op, fmt) \<in> set opTable" using i(1) length_tables(1) nth_mem by metis
  moreover have "specialTable ! unat (v AND 0x3f) \<in> set specialTable"
    using i(2) length_tables(2) nth_mem by metis
  ultimately show ?thesis using tables_handled o
    by (force simp: Decode_def Let_def handled_def)
qed

text \<open>The two instruction layouts, for the round trip.\<close>

definition encode_I :: "32 word \<Rightarrow> 32 word \<Rightarrow> 32 word \<Rightarrow> 16 word \<Rightarrow> 32 word" where
  "encode_I op s t imm =
     push_bit 26 op OR push_bit 21 (take_bit 5 s) OR push_bit 16 (take_bit 5 t) OR ucast imm"

definition encode_R :: "32 word \<Rightarrow> 32 word \<Rightarrow> 32 word \<Rightarrow> 32 word \<Rightarrow> 32 word \<Rightarrow> 32 word" where
  "encode_R s t d sh fn =
     push_bit 21 (take_bit 5 s) OR push_bit 16 (take_bit 5 t) OR push_bit 11 (take_bit 5 d)
     OR push_bit 6 (take_bit 5 sh) OR take_bit 6 fn"

named_theorems fields \<open>fields of an encoded instruction\<close>

lemma encode_I_fields [fields]:
  "drop_bit 26 (encode_I op s t imm) AND 0x3f = take_bit 6 op"
  "drop_bit 21 (encode_I op s t imm) AND 0x1f = take_bit 5 s"
  "drop_bit 16 (encode_I op s t imm) AND 0x1f = take_bit 5 t"
  "take_bit 16 (encode_I op s t imm) = ucast imm"
  unfolding and_63 and_31
  by (rule bit_word_eqI; auto simp: encode_I_def bit_simps dest: bit_imp_le_length)+

lemma encode_R_fields [fields]:
  "drop_bit 26 (encode_R s t d sh fn) AND 0x3f = 0"
  "drop_bit 21 (encode_R s t d sh fn) AND 0x1f = take_bit 5 s"
  "drop_bit 16 (encode_R s t d sh fn) AND 0x1f = take_bit 5 t"
  "drop_bit 11 (encode_R s t d sh fn) AND 0x1f = take_bit 5 d"
  "drop_bit 6 (encode_R s t d sh fn) AND 0x1f = take_bit 5 sh"
  "encode_R s t d sh fn AND 0x3f = take_bit 6 fn"
  unfolding and_63 and_31
  by (rule bit_word_eqI; auto simp: encode_R_def bit_simps dest: bit_imp_le_length)+

lemma and_0x8000: "(w :: 32 word) AND 0x8000 \<noteq> 0 \<longleftrightarrow> bit w 15"
proof -
  have "(0x8000 :: 32 word) = 2 ^ 15" by simp
  then show ?thesis by (simp only: and_exp_eq_0_iff_not_bit) simp
qed

lemma or_high: "(w :: 32 word) OR 0xffff0000 = w OR NOT (mask 16)"
proof -
  have e: "(0xffff0000 :: 32 word) = - 0x10000" unfolding eq_neg_iff_add_eq_0 by simp
  show ?thesis unfolding e by (simp add: mask_eq_exp_minus_1)
qed

lemma and_0xffff: "(w :: 32 word) AND 0xffff = take_bit 16 w"
  by (simp add: take_bit_eq_mask mask_eq_exp_minus_1)

lemma sign_extend_16:
  "(let x = w AND 0xffff in if x AND 0x8000 \<noteq> 0 then x OR 0xffff0000 else x)
     = scast (ucast (w :: 32 word) :: 16 word)"
  unfolding Let_def and_0x8000 or_high and_0xffff
proof (rule bit_word_eqI)
  fix n assume "n < LENGTH(32)"
  then have "bit (scast (ucast w :: 16 word) :: 32 word) n \<longleftrightarrow> bit w (if n < 16 then n else 15)"
    by (cases "n < 15"; cases "n = 15") (auto simp: bit_simps min_def)
  moreover have "bit (if bit (take_bit 16 w) 15 then take_bit 16 w OR NOT (mask 16) else take_bit 16 w) n
      \<longleftrightarrow> bit w (if n < 16 then n else 15)"
    using \<open>n < LENGTH(32)\<close> by (simp add: bit_or_iff bit_not_iff bit_mask_iff bit_take_bit_iff)
  ultimately show "bit (if bit (take_bit 16 w) 15 then take_bit 16 w OR NOT (mask 16) else take_bit 16 w) n
      = bit (scast (ucast w :: 16 word) :: 32 word) n" by simp
qed

lemma ucast_16_encode_I: "(ucast (encode_I op s t imm) :: 16 word) = imm"
  by (rule bit_word_eqI) (auto simp: encode_I_def bit_simps)

section \<open>Properties\<close>

text \<open>
  Every instruction word decodes to register numbers below 32 and to an opcode that
  the instruction switch handles, so that its \<open>default: ASSERT(FALSE)\<close> is dead code.
\<close>

theorem decode_total:
  "rs (Decode v) < 32 \<and> rt (Decode v) < 32 \<and> rd (Decode v) < 32
   \<and> opCode (Decode v) \<notin> {SPECIAL, BCOND, OP_RFE}"
  using Decode_regs [of v] Decode_handled [of v] by (simp add: handled_def)

text \<open>
  Decoding an instruction assembled from its fields gives the fields back: for the
  immediate format with the immediate sign-extended, for the register format with the
  operation of the function field.
\<close>

theorem decode_encode:
  "(opTable ! unat (take_bit 6 op) = (c, IFMT) \<and> c \<noteq> SPECIAL \<and> c \<noteq> BCOND \<longrightarrow>
      opCode (Decode (encode_I op s t imm)) = c
      \<and> rs (Decode (encode_I op s t imm)) = unat (take_bit 5 s)
      \<and> rt (Decode (encode_I op s t imm)) = unat (take_bit 5 t)
      \<and> extra (Decode (encode_I op s t imm)) = scast imm)
   \<and> opCode (Decode (encode_R s t d sh fn)) = specialTable ! unat (take_bit 6 fn)
   \<and> rs (Decode (encode_R s t d sh fn)) = unat (take_bit 5 s)
   \<and> rt (Decode (encode_R s t d sh fn)) = unat (take_bit 5 t)
   \<and> rd (Decode (encode_R s t d sh fn)) = unat (take_bit 5 d)
   \<and> extra (Decode (encode_R s t d sh fn)) = take_bit 5 sh"
proof -
  have "opTable ! 0 = (SPECIAL, RFMT)" by (simp add: opTable_def)
  then show ?thesis by (simp add: Decode_def sign_extend_16 ucast_16_encode_I fields)
qed

theorem decode_encode_witness:
  "opCode (Decode (encode_I 8 4 9 0xfffe)) = OP_ADDI \<and> extra (Decode (encode_I 8 4 9 0xfffe)) = scast (0xfffe :: 16 word)"
proof -
  have "opTable ! unat (take_bit 6 (8 :: 32 word)) = (OP_ADDI, IFMT)" by (simp add: opTable_def)
  then show ?thesis using decode_encode [of 8 OP_ADDI 4 9 "0xfffe"] by simp
qed

end
