(* ===== verification/MipsMult.thy ===== *)
theory MipsMult
  imports Prelude
begin

unbundle bit_operations_syntax

text \<open>
  The shift-and-add multiplication of \<^verbatim>\<open>machine/mipssim.cc\<close>, proved to compute the double-word
  product.
\<close>

section \<open>Multiplication\<close>

text \<open>
  The main loop of \<^verbatim>\<open>Mult\<close> with \<open>n\<close> iterations to go: \<open>a\<close> is shifted right arithmetically,
  the double word \<open>bHi\<close>, \<open>bLo\<close> left.
\<close>

fun Mult_loop :: "nat \<Rightarrow> 32 word \<Rightarrow> 32 word \<Rightarrow> 32 word \<Rightarrow> 32 word \<Rightarrow> 32 word \<Rightarrow> 32 word \<times> 32 word" where
  "Mult_loop 0 a bHi bLo hi lo = (hi, lo)"
| "Mult_loop (Suc n) a bHi bLo hi lo =
     (let odd = (a AND 1 \<noteq> 0);
          lo1 = (if odd then lo + bLo else lo);
          hi1 = (if odd then (if lo1 < bLo then hi + 1 else hi) + bHi else hi)
      in if odd \<and> a AND 0xfffffffe = 0 then (hi1, lo1)
         else Mult_loop n (signed_drop_bit 1 a)
                (let h = push_bit 1 bHi in if bLo AND 0x80000000 \<noteq> 0 then h OR 1 else h)
                (push_bit 1 bLo) hi1 lo1)"

text \<open>The result is the pair of the words stored through \<^verbatim>\<open>hiPtr\<close> and \<^verbatim>\<open>loPtr\<close>.\<close>

definition Mult :: "32 word \<Rightarrow> 32 word \<Rightarrow> bool \<Rightarrow> 32 word \<times> 32 word" where
  "Mult a b signedArith =
     (if a = 0 \<or> b = 0 then (0, 0)
      else
        let negA = (signedArith \<and> a <s 0); negB = (signedArith \<and> b <s 0);
            negative = (negA \<noteq> negB);
            (hi, lo) = Mult_loop 32 (if negA then - a else a) 0 (if negB then - b else b) 0 0
        in if negative then
             (let hi1 = NOT hi; lo1 = NOT lo + 1 in (if lo1 = 0 then hi1 + 1 else hi1, lo1))
           else (hi, lo))"

section \<open>Double words\<close>

text \<open>The 64-bit value of a high and a low word.\<close>

definition base :: "64 word" where
  "base = 2 ^ 32"

definition dword :: "32 word \<Rightarrow> 32 word \<Rightarrow> 64 word" where
  "dword hi lo = ucast hi * base + ucast lo"

lemma base_base [simp]: "base * base = 0"
proof -
  have e: "(32 + 32 :: nat) = LENGTH(64)" by simp
  have "base * base = 2 ^ (32 + 32)" unfolding base_def by (rule power_add [symmetric])
  also have "\<dots> = 0" unfolding e by (rule word_exp_length_eq_0)
  finally show ?thesis .
qed

lemma base_eq: "base = word_of_int (2 ^ 32)"
  by (simp only: base_def of_int_power of_int_numeral)

lemma ucast_add_carry:
  fixes a b :: "32 word"
  shows "(ucast a + ucast b :: 64 word) = ucast (a + b) + (if a + b < b then base else 0)"
proof -
  have u: "uint (a + b) = (if uint a + uint b < 2 ^ 32 then uint a + uint b else uint a + uint b - 2 ^ 32)"
    using uint_plus_if' [of a b] by simp
  have ab: "uint a < 2 ^ 32" "uint b < 2 ^ 32" "0 \<le> uint a" "0 \<le> uint b"
    using uint_lt2p [of a] uint_lt2p [of b] by simp_all
  have c: "a + b < b \<longleftrightarrow> \<not> uint a + uint b < 2 ^ 32"
    unfolding word_less_def u using ab by auto
  have "(ucast (a + b) + (if a + b < b then base else 0) :: 64 word)
      = word_of_int (uint (a + b) + (if a + b < b then 2 ^ 32 else 0))"
    unfolding base_eq ucast_eq by (simp only: of_int_add if_distrib of_int_0 split: if_split) blast
  also have "uint (a + b) + (if a + b < b then 2 ^ 32 else 0) = uint a + uint b"
    unfolding c u by simp
  finally show ?thesis by (simp only: ucast_eq of_int_add)
qed

lemma ucast_high_add: "(ucast (a + b) :: 64 word) * base = (ucast a + ucast (b :: 32 word)) * base"
  unfolding ucast_add_carry by (simp add: distrib_right)

lemma dword_add:
  "dword ((if lo + bLo < bLo then hi + 1 else hi) + bHi) (lo + bLo) = dword hi lo + dword bHi bLo"
proof -
  have "(ucast ((if lo + bLo < bLo then hi + 1 else hi) + bHi) :: 64 word) * base
      = (ucast hi + ucast bHi) * base + (if lo + bLo < bLo then base else 0)"
    by (cases "lo + bLo < bLo") (simp_all add: ucast_high_add distrib_right add_ac)
  moreover have "(ucast lo + ucast bLo :: 64 word) = ucast (lo + bLo) + (if lo + bLo < bLo then base else 0)"
    by (rule ucast_add_carry)
  ultimately show ?thesis unfolding dword_def by (simp add: algebra_simps)
qed

lemma and_exp_iff_bit: "(w :: 32 word) AND 2 ^ n \<noteq> 0 \<longleftrightarrow> bit w n"
  by (simp add: and_exp_eq_0_iff_not_bit)

lemma top_bit_iff: "(w :: 32 word) AND 0x80000000 \<noteq> 0 \<longleftrightarrow> 2 ^ 31 \<le> uint w"
proof -
  have "(0x80000000 :: 32 word) = 2 ^ 31" by simp
  then have "w AND 0x80000000 \<noteq> 0 \<longleftrightarrow> bit w 31" by (simp only: and_exp_iff_bit)
  also have "\<dots> \<longleftrightarrow> bit (uint w) 31" by (simp add: bit_uint_iff)
  also have "\<dots> \<longleftrightarrow> odd (uint w div 2 ^ 31)" by (rule bit_iff_odd)
  also have "\<dots> \<longleftrightarrow> 2 ^ 31 \<le> uint w"
  proof (cases "2 ^ 31 \<le> uint w")
    case True
    then have "uint w div 2 ^ 31 = 1"
      using uint_lt2p [of w] int_div_pos_eq [of "uint w" "2 ^ 31" 1 "uint w - 2 ^ 31"] by simp
    then show ?thesis using True by simp
  next
    case False
    then have "uint w div 2 ^ 31 = 0" using uint_ge_0 [of w] by (simp add: div_pos_pos_trivial)
    then show ?thesis using False by simp
  qed
  finally show ?thesis .
qed

lemma low_bit_iff: "(w :: 32 word) AND 1 \<noteq> 0 \<longleftrightarrow> odd (uint w)"
proof -
  have "w AND 1 \<noteq> 0 \<longleftrightarrow> bit w 0" using and_exp_iff_bit [of w 0] by (simp only: power_0)
  also have "\<dots> \<longleftrightarrow> bit (uint w) 0" by (simp only: bit_uint_iff) simp
  finally show ?thesis by (simp only: bit_0)
qed

lemma double_carry: "(w :: 32 word) + w < w \<longleftrightarrow> w AND 0x80000000 \<noteq> 0"
proof -
  have "uint (w + w) = (if uint w + uint w < 2 ^ 32 then uint w + uint w else uint w + uint w - 2 ^ 32)"
    using uint_plus_if' [of w w] by simp
  then show ?thesis unfolding word_less_def top_bit_iff using uint_lt2p [of w] uint_ge_0 [of w] by auto
qed

lemma push_bit_1_add: "push_bit 1 (w :: 32 word) = w + w"
  by (simp add: push_bit_eq_mult)

lemma dword_double:
  "dword (let h = push_bit 1 bHi in if bLo AND 0x80000000 \<noteq> 0 then h OR 1 else h) (push_bit 1 bLo)
     = 2 * dword bHi bLo"
proof -
  have o: "push_bit 1 bHi OR 1 = bHi + 1 + bHi"
  proof -
    have "push_bit 1 bHi OR 1 = push_bit 1 bHi + 1"
      by (rule disjunctive_add [symmetric]) (simp only: bit_push_bit_iff bit_1_iff, simp)
    then show ?thesis by (simp add: push_bit_1_add algebra_simps)
  qed
  have "dword (let h = push_bit 1 bHi in if bLo AND 0x80000000 \<noteq> 0 then h OR 1 else h) (push_bit 1 bLo)
      = dword ((if bLo + bLo < bLo then bHi + 1 else bHi) + bHi) (bLo + bLo)"
    by (cases "bLo AND 0x80000000 = 0") (simp_all only: Let_def double_carry o [unfolded push_bit_1_add] push_bit_1_add if_True if_False simp_thms)
  then show ?thesis unfolding dword_add by simp
qed

lemma signed_shift_low:
  assumes "n \<le> 31"
  shows "uint (take_bit n (signed_drop_bit 1 (a :: 32 word))) = take_bit n (uint a div 2)"
proof -
  have "take_bit n (signed_drop_bit 1 a) = take_bit n (drop_bit 1 a)"
  proof (rule bit_word_eqI)
    fix i assume "i < LENGTH(32)"
    show "bit (take_bit n (signed_drop_bit 1 a)) i = bit (take_bit n (drop_bit 1 a)) i"
      using assms by (auto simp only: bit_take_bit_iff bit_signed_drop_bit_iff bit_drop_bit_eq) auto
  qed
  moreover have "take_bit 32 (uint a) = uint a"
    using uint_lt2p [of a] by (simp add: take_bit_int_eq_self)
  ultimately show ?thesis using assms
    by (simp only: unsigned_take_bit_eq unsigned_drop_bit_eq) (simp add: drop_bit_eq_div)
qed

lemma ucast_take_bit_Suc:
  assumes "n \<le> 31"
  shows "(ucast (take_bit (Suc n) (a :: 32 word)) :: 64 word)
     = (if a AND 1 \<noteq> 0 then 1 else 0) + 2 * ucast (take_bit n (signed_drop_bit 1 a))"
proof -
  have "uint (take_bit (Suc n) a) = take_bit (Suc n) (uint a)"
    using assms by (simp only: unsigned_take_bit_eq)
  also have "\<dots> = (if a AND 1 \<noteq> 0 then 1 else 0) + 2 * uint (take_bit n (signed_drop_bit 1 a))"
    unfolding signed_shift_low [OF assms] low_bit_iff take_bit_Suc by (auto simp: odd_iff_mod_2_eq_one even_iff_mod_2_eq_zero)
  finally have "(ucast (take_bit (Suc n) a) :: 64 word)
      = word_of_int ((if a AND 1 \<noteq> 0 then 1 else 0) + 2 * uint (take_bit n (signed_drop_bit 1 a)))"
    by (simp only: ucast_eq)
  then show ?thesis by (simp only: ucast_eq of_int_add of_int_mult of_int_numeral) (simp split: if_split)
qed

lemma break_iff: "(a :: 32 word) AND 1 \<noteq> 0 \<Longrightarrow> a AND 0xfffffffe = 0 \<Longrightarrow> a = 1"
proof -
  assume a: "a AND 1 \<noteq> 0" "a AND 0xfffffffe = 0"
  have "a = a AND - 1" by simp
  also have "(- 1 :: 32 word) = 1 OR 0xfffffffe" by simp
  also have "a AND (1 OR 0xfffffffe) = (a AND 1) OR (a AND 0xfffffffe)" by (rule bit.conj_disj_distrib)
  also have "\<dots> = a AND 1" by (simp only: a(2) or.right_neutral)
  also have "\<dots> = 1" using a(1) by (auto simp: and_one_eq odd_iff_mod_2_eq_one split: if_splits) 
  finally show ?thesis .
qed

text \<open>The loop adds the product of the remaining bits of \<open>a\<close> and the shifted \<open>b\<close>.\<close>

lemma Mult_loop_spec:
  "n \<le> 32 \<Longrightarrow> Mult_loop n a bHi bLo hi lo = (h, l) \<Longrightarrow>
     dword h l = dword hi lo + ucast (take_bit n a) * dword bHi bLo"
proof (induction n arbitrary: a bHi bLo hi lo)
  case (Suc n)
  define c where "c = (a AND 1 \<noteq> 0)"
  define lo1 where "lo1 = (if c then lo + bLo else lo)"
  define hi1 where "hi1 = (if c then (if lo1 < bLo then hi + 1 else hi) + bHi else hi)"
  define bHi1 where "bHi1 = (let h = push_bit 1 bHi in if bLo AND 0x80000000 \<noteq> 0 then h OR 1 else h)"
  have s: "dword hi1 lo1 = dword hi lo + (if c then dword bHi bLo else 0)"
    by (simp add: hi1_def lo1_def dword_add)
  have eq: "Mult_loop (Suc n) a bHi bLo hi lo =
      (if c \<and> a AND 0xfffffffe = 0 then (hi1, lo1) else Mult_loop n (signed_drop_bit 1 a) bHi1 (push_bit 1 bLo) hi1 lo1)"
    unfolding Mult_loop.simps c_def hi1_def lo1_def bHi1_def Let_def by (rule refl)
  show ?case
  proof (cases "c \<and> a AND 0xfffffffe = 0")
    case True
    then have "a = 1" unfolding c_def by (blast intro: break_iff)
    then have "(ucast (take_bit (Suc n) a) :: 64 word) = 1" by simp
    moreover have "h = hi1 \<and> l = lo1" using Suc.prems(2) True by (simp only: eq if_True simp_thms prod.inject)
    ultimately show ?thesis using True s by simp
  next
    case False
    then have "Mult_loop n (signed_drop_bit 1 a) bHi1 (push_bit 1 bLo) hi1 lo1 = (h, l)"
      using Suc.prems(2) by (simp only: eq if_False)
    from Suc.IH [OF _ this] Suc.prems(1)
    have "dword h l = dword hi1 lo1 + ucast (take_bit n (signed_drop_bit 1 a)) * dword bHi1 (push_bit 1 bLo)"
      by simp
    also have "dword bHi1 (push_bit 1 bLo) = 2 * dword bHi bLo" unfolding bHi1_def by (rule dword_double)
    finally have "dword h l = dword hi lo + ((if c then 1 else 0) + 2 * ucast (take_bit n (signed_drop_bit 1 a))) * dword bHi bLo"
      unfolding s by (simp add: algebra_simps)
    then show ?thesis using ucast_take_bit_Suc [of n a] Suc.prems(1) unfolding c_def by simp
  qed
qed (simp)

section \<open>The product\<close>

lemma dword_uint: "dword h l = word_of_int (uint h * 2 ^ 32 + uint l)"
  unfolding dword_def base_eq ucast_eq by (simp only: of_int_add of_int_mult)

lemma word_of_int_mod:
  "(word_of_int x :: 'a::len word) = word_of_int y \<Longrightarrow> x mod 2 ^ LENGTH('a) = y mod 2 ^ LENGTH('a)"
  by (simp only: word_of_int_eq_iff take_bit_eq_mod)

lemma sint_cases: "sint (w :: 32 word) = uint w - (if sint w < 0 then 2 ^ 32 else 0)"
proof -
  have "(word_of_int (sint w) :: 32 word) = word_of_int (uint w)" by simp
  from word_of_int_mod [OF this] have "sint w mod 2 ^ 32 = uint w mod 2 ^ 32" by simp
  moreover have "uint w mod 2 ^ 32 = uint w" using uint_lt2p [of w] by simp
  ultimately have m: "sint w mod 2 ^ 32 = uint w" by simp
  have r: "- (2 ^ 31) \<le> sint w" "sint w < 2 ^ 31" using sint_ge [of w] sint_lt [of w] by simp_all
  show ?thesis
  proof (cases "sint w < 0")
    case True
    then have "(sint w + 2 ^ 32) mod 2 ^ 32 = sint w + 2 ^ 32" using r by (intro mod_pos_pos_trivial) simp_all
    then show ?thesis using True m by simp
  next
    case False
    then have "sint w mod 2 ^ 32 = sint w" using r by (simp add: mod_pos_pos_trivial)
    then show ?thesis using False m by simp
  qed
qed

lemma dword_sint: "dword h l = word_of_int (sint h * 2 ^ 32 + uint l)"
proof -
  have "(word_of_int (sint h) :: 64 word) = word_of_int (uint h) - (if sint h < 0 then base else 0)"
    unfolding base_eq by (subst sint_cases) (simp only: of_int_diff of_int_0 if_distrib split: if_split, blast)
  then have "(word_of_int (sint h) :: 64 word) * base = word_of_int (uint h) * base"
    by (simp add: left_diff_distrib split: if_split)
  then show ?thesis
    unfolding dword_def ucast_eq by (simp only: of_int_add of_int_mult base_eq)
qed

lemma dword_uint_inj:
  assumes "dword h l = word_of_int x" "0 \<le> x" "x < 2 ^ 64"
  shows "uint h * 2 ^ 32 + uint l = x"
proof -
  have b: "0 \<le> uint h" "uint h < 2 ^ 32" "0 \<le> uint l" "uint l < 2 ^ 32"
    using uint_lt2p [of h] uint_lt2p [of l] by simp_all
  then have r: "0 \<le> uint h * 2 ^ 32 + uint l" "uint h * 2 ^ 32 + uint l < 2 ^ 64" by simp_all
  have "(uint h * 2 ^ 32 + uint l) mod 2 ^ 64 = x mod 2 ^ 64"
    using word_of_int_mod [OF assms(1) [unfolded dword_uint]] by simp
  then show ?thesis using r assms by (simp only: mod_pos_pos_trivial)
qed

lemma signed_mod_inj:
  assumes "(x::int) mod 2 ^ 64 = y mod 2 ^ 64" "- (2 ^ 63) \<le> x" "x < 2 ^ 63" "- (2 ^ 63) \<le> y" "y < 2 ^ 63"
  shows "x = y"
proof -
  have "(x + 2 ^ 63) mod 2 ^ 64 = (y + 2 ^ 63) mod 2 ^ 64" using assms(1) by (rule mod_add_cong) simp
  moreover have "(x + 2 ^ 63) mod 2 ^ 64 = x + 2 ^ 63" "(y + 2 ^ 63) mod 2 ^ 64 = y + 2 ^ 63"
    using assms by (intro mod_pos_pos_trivial; simp)+
  ultimately show ?thesis by simp
qed

lemma dword_sint_inj:
  assumes "dword h l = word_of_int x" "- (2 ^ 63) \<le> x" "x < 2 ^ 63"
  shows "sint h * 2 ^ 32 + uint l = x"
proof (rule signed_mod_inj)
  show "(sint h * 2 ^ 32 + uint l) mod 2 ^ 64 = x mod 2 ^ 64"
    using word_of_int_mod [OF assms(1) [unfolded dword_sint]] by simp
  have b: "- (2 ^ 31) \<le> sint h" "sint h < 2 ^ 31" "0 \<le> uint l" "uint l < 2 ^ 32"
    using sint_ge [of h] sint_lt [of h] uint_lt2p [of l] by simp_all
  then have b': "- 2147483648 \<le> sint h" "sint h < 2147483648" "0 \<le> uint l" "uint l < 4294967296" by simp_all
  have "- 9223372036854775808 \<le> sint h * 4294967296 + uint l" "sint h * 4294967296 + uint l < 9223372036854775808"
    using b' by linarith+
  then show "- (2 ^ 63) \<le> sint h * 2 ^ 32 + uint l" "sint h * 2 ^ 32 + uint l < 2 ^ 63" by simp_all
qed (fact assms)+

lemma dword_neg:
  assumes "lo1 = NOT lo + 1"
  shows "dword (if lo1 = 0 then NOT hi + 1 else NOT hi) lo1 = - dword hi lo"
proof -
  let ?h = "if lo1 = 0 then NOT hi + 1 else NOT hi"
  have l: "lo1 = - lo" using assms by (simp add: not_eq_complement)
  have "(if lo1 + lo < lo then ?h + 1 else ?h) + hi = 0"
    by (simp add: l not_eq_complement word_greater_zero_iff)
  moreover have "lo1 + lo = 0" by (simp add: l)
  ultimately have "dword ?h lo1 + dword hi lo = dword 0 0"
    using dword_add [of lo1 lo ?h hi] by simp
  then have "dword ?h lo1 + dword hi lo = 0" by (simp add: dword_def)
  then show ?thesis by (simp add: eq_neg_iff_add_eq_0)
qed

lemma Mult_loop_product:
  assumes "Mult_loop 32 a 0 b 0 0 = (h, l)"
  shows "dword h l = word_of_int (uint a * uint b)"
proof -
  have "take_bit 32 a = a" by (simp add: take_bit_word_eq_self)
  then have "dword h l = ucast a * ucast b"
    using Mult_loop_spec [OF _ assms] by (simp add: dword_def)
  then show ?thesis by (simp only: ucast_eq of_int_mult)
qed

lemma magnitude: "uint (if (a :: 32 word) <s 0 then - a else a) = \<bar>sint a\<bar>"
proof -
  have r: "- (2 ^ 31) \<le> sint a" "sint a < 2 ^ 31" using sint_ge [of a] sint_lt [of a] by simp_all
  have n: "a <s 0 \<longleftrightarrow> sint a < 0" by (simp add: word_sless_alt)
  show ?thesis
  proof (cases "sint a < 0")
    case True
    have "- a = word_of_int (- sint a)" by simp
    then have "uint (- a) = (- sint a) mod 2 ^ 32" by (simp only: uint_word_of_int) simp
    also have "\<dots> = - sint a" using r True by (intro mod_pos_pos_trivial) simp_all
    finally show ?thesis using True n by simp
  qed (use n sint_cases [of a] in simp)
qed

section \<open>Properties\<close>

text \<open>
  C25 (equivalence): the multiplication loop computes the exact double-word product, unsigned
  for MULTU and signed for MULT, for all operands (the most negative word included).
\<close>

theorem mult_unsigned_signed:
  "(case Mult a b False of (hi, lo) \<Rightarrow> uint hi * 2 ^ 32 + uint lo) = uint a * uint b
   \<and> (case Mult a b True of (hi, lo) \<Rightarrow> sint hi * 2 ^ 32 + uint lo) = sint a * sint b"
proof (cases "a = 0 \<or> b = 0")
  case False
  have ua: "0 \<le> uint a" "uint a < 2 ^ 32" "0 \<le> uint b" "uint b < 2 ^ 32"
    using uint_lt2p [of a] uint_lt2p [of b] by simp_all
  obtain h l where hl: "Mult_loop 32 a 0 b 0 0 = (h, l)" by fastforce
  have "uint a * uint b < 2 ^ 32 * 2 ^ 32" using ua by (intro mult_strict_mono) simp_all
  then have 1: "uint h * 2 ^ 32 + uint l = uint a * uint b"
    using dword_uint_inj [OF Mult_loop_product [OF hl]] ua by simp
  define A where "A = (if a <s 0 then - a else a)"
  define B where "B = (if b <s 0 then - b else b)"
  obtain h' l' where hl': "Mult_loop 32 A 0 B 0 0 = (h', l')" by fastforce
  define neg where "neg = ((sint a < 0) \<noteq> (sint b < 0))"
  define h2 where "h2 = (if neg then (if NOT l' + 1 = 0 then NOT h' + 1 else NOT h') else h')"
  define l2 where "l2 = (if neg then NOT l' + 1 else l')"
  have M: "Mult a b True = (h2, l2)"
    using False hl' by (simp add: Mult_def A_def B_def Let_def h2_def l2_def neg_def word_sless_alt)
  have AB: "dword h' l' = word_of_int (\<bar>sint a\<bar> * \<bar>sint b\<bar>)"
    using Mult_loop_product [OF hl'] unfolding A_def B_def magnitude .
  have "dword h2 l2 = word_of_int (sint a * sint b)"
  proof (cases neg)
    case True
    then have "dword h2 l2 = - dword h' l'" unfolding h2_def l2_def using dword_neg [OF refl] by simp
    also have "\<dots> = word_of_int (- (\<bar>sint a\<bar> * \<bar>sint b\<bar>))" unfolding AB by (simp only: of_int_minus)
    also have "- (\<bar>sint a\<bar> * \<bar>sint b\<bar>) = sint a * sint b" using True by (auto simp: neg_def abs_if)
    finally show ?thesis .
  next
    case False
    then have "\<bar>sint a\<bar> * \<bar>sint b\<bar> = sint a * sint b" by (auto simp: neg_def abs_if)
    with AB False show ?thesis by (simp only: h2_def l2_def if_False)
  qed
  moreover have "\<bar>sint a * sint b\<bar> \<le> 2 ^ 31 * 2 ^ 31"
    unfolding abs_mult using sint_ge [of a] sint_lt [of a] sint_ge [of b] sint_lt [of b]
    by (intro mult_mono) auto
  ultimately have 2: "sint h2 * 2 ^ 32 + uint l2 = sint a * sint b"
    by (intro dword_sint_inj) (auto simp: abs_le_iff)
  show ?thesis using False hl 1 2 M by (simp add: Mult_def Let_def)
qed (auto simp: Mult_def)

end
