(* ===== verification/MipsSim.thy ===== *)
theory MipsSim
  imports Machine MipsDecode MipsMult
begin

unbundle bit_operations_syntax

text \<open>
  \<^verbatim>\<open>Machine::OneInstruction\<close> of \<^verbatim>\<open>machine/mipssim.cc\<close>: fetch, decode, the instruction switch (one
  definition per stretch of its cases, in the order of the source), delayed load and
  program counters.
\<close>

section \<open>The instruction switch\<close>

text \<open>
  How a case of the switch ends: with \<^verbatim>\<open>break\<close>, leaving \<open>pcAfter\<close>, \<open>nextLoadReg\<close> and
  \<open>nextLoadValue\<close>, or with \<^verbatim>\<open>return\<close> after a trap. A case that is not in a stretch is \<open>None\<close>.
\<close>

datatype 'm exec = Next "32 word" "32 word" "32 word" 'm | Return 'm

definition brk :: "32 word \<Rightarrow> 'm \<Rightarrow> 'm exec res" where
  "brk pcAfter m = Inr (Next pcAfter 0 0 m)"

definition trap :: "'a handler \<Rightarrow> ExceptionType \<Rightarrow> 32 word \<Rightarrow> 'a Machine_scheme \<Rightarrow> 'a Machine_scheme exec res" where
  "trap eh e bad m = bindR (RaiseException eh e bad m) (\<lambda>m'. Inr (Return m'))"

definition with_word :: "'a handler \<Rightarrow> 32 word \<Rightarrow> nat \<Rightarrow> 'a Machine_scheme \<Rightarrow>
    (32 word \<Rightarrow> 'a Machine_scheme \<Rightarrow> 'a Machine_scheme exec res) \<Rightarrow> 'a Machine_scheme exec res" where
  "with_word eh addr sz m k =
     bindR (ReadMem eh addr sz m) (\<lambda>(r, m1). case r of None \<Rightarrow> Inr (Return m1) | Some value \<Rightarrow> k value m1)"

definition store_word :: "'a handler \<Rightarrow> 32 word \<Rightarrow> nat \<Rightarrow> 32 word \<Rightarrow> 32 word \<Rightarrow> 'a Machine_scheme \<Rightarrow>
    'a Machine_scheme exec res" where
  "store_word eh addr sz v pcAfter m =
     bindR (WriteMem eh addr sz v m) (\<lambda>(ok, m1). if ok then brk pcAfter m1 else Inr (Return m1))"

definition exec_arith :: "'a handler \<Rightarrow> Instruction \<Rightarrow> 32 word \<Rightarrow> 'a Machine_scheme \<Rightarrow> 'a Machine_scheme exec res option" where
  "exec_arith eh i pcAfter m =
     (let a = reg m (rs i); b = reg m (rt i) in
      case opCode i of
        OP_ADD \<Rightarrow> Some (let sum = a + b in
          if (a XOR b) AND SIGN_BIT = 0 \<and> (a XOR sum) AND SIGN_BIT \<noteq> 0
          then trap eh OverflowException 0 m
          else brk pcAfter (set_reg (rd i) sum m))
      | OP_ADDI \<Rightarrow> Some (let sum = a + extra i in
          if (a XOR extra i) AND SIGN_BIT = 0 \<and> (extra i XOR sum) AND SIGN_BIT \<noteq> 0
          then trap eh OverflowException 0 m
          else brk pcAfter (set_reg (rt i) sum m))
      | OP_ADDIU \<Rightarrow> Some (brk pcAfter (set_reg (rt i) (a + extra i) m))
      | OP_ADDU \<Rightarrow> Some (brk pcAfter (set_reg (rd i) (a + b) m))
      | OP_AND \<Rightarrow> Some (brk pcAfter (set_reg (rd i) (a AND b) m))
      | OP_ANDI \<Rightarrow> Some (brk pcAfter (set_reg (rt i) (a AND (extra i AND 0xffff)) m))
      | _ \<Rightarrow> None)"

definition exec_branch :: "Instruction \<Rightarrow> 32 word \<Rightarrow> 'a Machine_scheme \<Rightarrow> 'a Machine_scheme exec res option" where
  "exec_branch i pcAfter m =
     (let a = reg m (rs i); b = reg m (rt i);
          target = reg m NextPCReg + IndexToAddr (extra i);
          link = set_reg RetAddrReg (reg m NextPCReg + 4) m in
      case opCode i of
        OP_BEQ \<Rightarrow> Some (brk (if a = b then target else pcAfter) m)
      | OP_BGEZAL \<Rightarrow> Some (brk (if reg link (rs i) AND SIGN_BIT = 0 then target else pcAfter) link)
      | OP_BGEZ \<Rightarrow> Some (brk (if a AND SIGN_BIT = 0 then target else pcAfter) m)
      | OP_BGTZ \<Rightarrow> Some (brk (if 0 <s a then target else pcAfter) m)
      | OP_BLEZ \<Rightarrow> Some (brk (if a \<le>s 0 then target else pcAfter) m)
      | OP_BLTZAL \<Rightarrow> Some (brk (if reg link (rs i) AND SIGN_BIT \<noteq> 0 then target else pcAfter) link)
      | OP_BLTZ \<Rightarrow> Some (brk (if a AND SIGN_BIT \<noteq> 0 then target else pcAfter) m)
      | OP_BNE \<Rightarrow> Some (brk (if a \<noteq> b then target else pcAfter) m)
      | _ \<Rightarrow> None)"

text \<open>
  The host's division of the most negative \<^verbatim>\<open>int\<close> by -1 overflows: undefined behaviour in C++, a
  processor trap of the host on x86.
\<close>

definition exec_div_jump :: "Instruction \<Rightarrow> 32 word \<Rightarrow> 'a Machine_scheme \<Rightarrow> 'a Machine_scheme exec res option" where
  "exec_div_jump i pcAfter m =
     (let a = reg m (rs i); b = reg m (rt i) in
      case opCode i of
        OP_DIV \<Rightarrow> Some (
          if b = 0 then brk pcAfter (set_reg HiReg 0 (set_reg LoReg 0 m))
          else if \<not> int32_ok (sint a sdiv sint b) then Inl SignedOverflow
          else brk pcAfter (set_reg HiReg (word_of_int (sint a smod sint b))
                             (set_reg LoReg (word_of_int (sint a sdiv sint b)) m)))
      | OP_DIVU \<Rightarrow> Some (
          if b = 0 then brk pcAfter (set_reg HiReg 0 (set_reg LoReg 0 m))
          else brk pcAfter (set_reg HiReg (a mod b) (set_reg LoReg (a div b) m)))
      | OP_JAL \<Rightarrow> Some (brk ((pcAfter AND 0xf0000000) OR IndexToAddr (extra i))
                         (set_reg RetAddrReg (reg m NextPCReg + 4) m))
      | OP_J \<Rightarrow> Some (brk ((pcAfter AND 0xf0000000) OR IndexToAddr (extra i)) m)
      | OP_JALR \<Rightarrow> Some (let m1 = set_reg (rd i) (reg m NextPCReg + 4) m in brk (reg m1 (rs i)) m1)
      | OP_JR \<Rightarrow> Some (brk a m)
      | _ \<Rightarrow> None)"

definition pending_value :: "nat \<Rightarrow> 'a Machine_scheme \<Rightarrow> 32 word" where
  "pending_value r m = (if reg m LoadReg = of_nat r then reg m LoadValueReg else reg m r)"

definition exec_load :: "'a handler \<Rightarrow> Instruction \<Rightarrow> 32 word \<Rightarrow> 'a Machine_scheme \<Rightarrow> 'a Machine_scheme exec res option" where
  "exec_load eh i pcAfter m =
     (let tmp = reg m (rs i) + extra i; load = (\<lambda>v m1. Inr (Next pcAfter (of_nat (rt i)) v m1)) in
      if opCode i = OP_LB \<or> opCode i = OP_LBU then
        Some (with_word eh tmp 1 m (\<lambda>value.
          load (if value AND 0x80 \<noteq> 0 \<and> opCode i = OP_LB then value OR 0xffffff00 else value AND 0xff)))
      else if opCode i = OP_LH \<or> opCode i = OP_LHU then
        Some (if tmp AND 1 \<noteq> 0 then trap eh AddressErrorException tmp m
          else with_word eh tmp 2 m (\<lambda>value.
            load (if value AND 0x8000 \<noteq> 0 \<and> opCode i = OP_LH then value OR 0xffff0000 else value AND 0xffff)))
      else case opCode i of
        OP_LUI \<Rightarrow> Some (brk pcAfter (set_reg (rt i) (push_bit 16 (extra i)) m))
      | OP_LW \<Rightarrow> Some (if tmp AND 3 \<noteq> 0 then trap eh AddressErrorException tmp m
          else with_word eh tmp 4 m load)
      | OP_LWL \<Rightarrow> Some (bindR (ASSERT (tmp AND 3 = 0)) (\<lambda>_.
          with_word eh tmp 4 m (\<lambda>value m1.
            let v = pending_value (rt i) m1 in
            load (if tmp AND 3 = 0 then value
                  else if tmp AND 3 = 1 then (v AND 0xff) OR push_bit 8 value
                  else if tmp AND 3 = 2 then (v AND 0xffff) OR push_bit 16 value
                  else (v AND 0xffffff) OR push_bit 24 value) m1)))
      | OP_LWR \<Rightarrow> Some (bindR (ASSERT (tmp AND 3 = 0)) (\<lambda>_.
          with_word eh tmp 4 m (\<lambda>value m1.
            let v = pending_value (rt i) m1 in
            load (if tmp AND 3 = 0 then (v AND 0xffffff00) OR (signed_drop_bit 24 value AND 0xff)
                  else if tmp AND 3 = 1 then (v AND 0xffff0000) OR (signed_drop_bit 16 value AND 0xffff)
                  else if tmp AND 3 = 2 then (v AND 0xff000000) OR (signed_drop_bit 8 value AND 0xffffff)
                  else value) m1)))
      | _ \<Rightarrow> None)"

definition exec_hilo :: "Instruction \<Rightarrow> 32 word \<Rightarrow> 'a Machine_scheme \<Rightarrow> 'a Machine_scheme exec res option" where
  "exec_hilo i pcAfter m =
     (let a = reg m (rs i); b = reg m (rt i) in
      case opCode i of
        OP_MFHI \<Rightarrow> Some (brk pcAfter (set_reg (rd i) (reg m HiReg) m))
      | OP_MFLO \<Rightarrow> Some (brk pcAfter (set_reg (rd i) (reg m LoReg) m))
      | OP_MTHI \<Rightarrow> Some (brk pcAfter (set_reg HiReg a m))
      | OP_MTLO \<Rightarrow> Some (brk pcAfter (set_reg LoReg a m))
      | OP_MULT \<Rightarrow> Some (let (hi, lo) = Mult a b True in brk pcAfter (set_reg LoReg lo (set_reg HiReg hi m)))
      | OP_MULTU \<Rightarrow> Some (let (hi, lo) = Mult a b False in brk pcAfter (set_reg LoReg lo (set_reg HiReg hi m)))
      | OP_NOR \<Rightarrow> Some (brk pcAfter (set_reg (rd i) (NOT (a OR b)) m))
      | OP_OR \<Rightarrow> Some (brk pcAfter (set_reg (rd i) (a OR b) m))
      | OP_ORI \<Rightarrow> Some (brk pcAfter (set_reg (rt i) (a OR (extra i AND 0xffff)) m))
      | _ \<Rightarrow> None)"

definition exec_store_shift :: "'a handler \<Rightarrow> Instruction \<Rightarrow> 32 word \<Rightarrow> 'a Machine_scheme \<Rightarrow> 'a Machine_scheme exec res option" where
  "exec_store_shift eh i pcAfter m =
     (let a = reg m (rs i); b = reg m (rt i) in
      case opCode i of
        OP_SB \<Rightarrow> Some (store_word eh (a + extra i) 1 b pcAfter m)
      | OP_SH \<Rightarrow> Some (store_word eh (a + extra i) 2 b pcAfter m)
      | OP_SLL \<Rightarrow> Some (brk pcAfter (set_reg (rd i) (push_bit (unat (extra i)) b) m))
      | OP_SLLV \<Rightarrow> Some (brk pcAfter (set_reg (rd i) (push_bit (unat (a AND 0x1f)) b) m))
      | OP_SLT \<Rightarrow> Some (brk pcAfter (set_reg (rd i) (if a <s b then 1 else 0) m))
      | OP_SLTI \<Rightarrow> Some (brk pcAfter (set_reg (rt i) (if a <s extra i then 1 else 0) m))
      | OP_SLTIU \<Rightarrow> Some (brk pcAfter (set_reg (rt i) (if a < extra i then 1 else 0) m))
      | OP_SLTU \<Rightarrow> Some (brk pcAfter (set_reg (rd i) (if a < b then 1 else 0) m))
      | OP_SRA \<Rightarrow> Some (brk pcAfter (set_reg (rd i) (signed_drop_bit (unat (extra i)) b) m))
      | OP_SRAV \<Rightarrow> Some (brk pcAfter (set_reg (rd i) (signed_drop_bit (unat (a AND 0x1f)) b) m))
      | OP_SRL \<Rightarrow> Some (brk pcAfter (set_reg (rd i) (drop_bit (unat (extra i)) b) m))
      | OP_SRLV \<Rightarrow> Some (brk pcAfter (set_reg (rd i) (drop_bit (unat (a AND 0x1f)) b) m))
      | _ \<Rightarrow> None)"

definition exec_last :: "'a handler \<Rightarrow> Instruction \<Rightarrow> 32 word \<Rightarrow> 'a Machine_scheme \<Rightarrow> 'a Machine_scheme exec res option" where
  "exec_last eh i pcAfter m =
     (let a = reg m (rs i); b = reg m (rt i); tmp = a + extra i in
      case opCode i of
        OP_SUB \<Rightarrow> Some (let diff = a - b in
          if (a XOR b) AND SIGN_BIT \<noteq> 0 \<and> (a XOR diff) AND SIGN_BIT \<noteq> 0
          then trap eh OverflowException 0 m
          else brk pcAfter (set_reg (rd i) diff m))
      | OP_SUBU \<Rightarrow> Some (brk pcAfter (set_reg (rd i) (a - b) m))
      | OP_SW \<Rightarrow> Some (store_word eh (a + extra i) 4 b pcAfter m)
      | OP_SWL \<Rightarrow> Some (bindR (ASSERT (tmp AND 3 = 0)) (\<lambda>_.
          with_word eh (tmp AND NOT 3) 4 m (\<lambda>value m1.
            store_word eh (tmp AND NOT 3) 4
              (if tmp AND 3 = 0 then b
               else if tmp AND 3 = 1 then (value AND 0xff000000) OR (signed_drop_bit 8 b AND 0xffffff)
               else if tmp AND 3 = 2 then (value AND 0xffff0000) OR (signed_drop_bit 16 b AND 0xffff)
               else (value AND 0xffffff00) OR (signed_drop_bit 24 b AND 0xff)) pcAfter m1)))
      | OP_SWR \<Rightarrow> Some (bindR (ASSERT (tmp AND 3 = 0)) (\<lambda>_.
          with_word eh (tmp AND NOT 3) 4 m (\<lambda>value m1.
            store_word eh (tmp AND NOT 3) 4
              (if tmp AND 3 = 0 then (value AND 0xffffff) OR push_bit 24 b
               else if tmp AND 3 = 1 then (value AND 0xffff) OR push_bit 16 b
               else if tmp AND 3 = 2 then (value AND 0xff) OR push_bit 8 b
               else b) pcAfter m1)))
      | OP_SYSCALL \<Rightarrow> Some (trap eh SyscallException 0 m)
      | OP_XOR \<Rightarrow> Some (brk pcAfter (set_reg (rd i) (a XOR b) m))
      | OP_XORI \<Rightarrow> Some (brk pcAfter (set_reg (rt i) (a XOR (extra i AND 0xffff)) m))
      | OP_RES \<Rightarrow> Some (trap eh IllegalInstrException 0 m)
      | OP_UNIMP \<Rightarrow> Some (trap eh IllegalInstrException 0 m)
      | _ \<Rightarrow> None)"

text \<open>The switch; the last alternative is its \<^verbatim>\<open>default: ASSERT(FALSE)\<close>.\<close>

definition execute :: "'a handler \<Rightarrow> Instruction \<Rightarrow> 32 word \<Rightarrow> 'a Machine_scheme \<Rightarrow> 'a Machine_scheme exec res" where
  "execute eh i pcAfter m =
     (case exec_arith eh i pcAfter m of Some r \<Rightarrow> r | None \<Rightarrow>
      case exec_branch i pcAfter m of Some r \<Rightarrow> r | None \<Rightarrow>
      case exec_div_jump i pcAfter m of Some r \<Rightarrow> r | None \<Rightarrow>
      case exec_load eh i pcAfter m of Some r \<Rightarrow> r | None \<Rightarrow>
      case exec_hilo i pcAfter m of Some r \<Rightarrow> r | None \<Rightarrow>
      case exec_store_shift eh i pcAfter m of Some r \<Rightarrow> r | None \<Rightarrow>
      case exec_last eh i pcAfter m of Some r \<Rightarrow> r | None \<Rightarrow> Inl AssertFailed)"

text \<open>The end of the procedure: the delayed load and the program counters.\<close>

definition finish_instr :: "32 word \<Rightarrow> 32 word \<Rightarrow> 32 word \<Rightarrow> 'a Machine_scheme \<Rightarrow> 'a Machine_scheme res" where
  "finish_instr pcAfter nextLoadReg nextLoadValue m =
     bindR (DelayedLoad nextLoadReg nextLoadValue m) (\<lambda>m1.
       let m2 = set_reg PrevPCReg (reg m1 PCReg) m1;
           m3 = set_reg PCReg (reg m2 NextPCReg) m2
       in Inr (set_reg NextPCReg pcAfter m3))"

definition OneInstruction :: "'a handler \<Rightarrow> 'a Machine_scheme \<Rightarrow> 'a Machine_scheme res" where
  "OneInstruction eh m =
     bindR (ReadMem eh (reg m PCReg) 4 m) (\<lambda>(r, m1).
       case r of
         None \<Rightarrow> Inr m1
       | Some raw \<Rightarrow>
           let i = Decode raw; pcAfter = reg m1 NextPCReg + 4 in
           bindR (execute eh i pcAfter m1) (\<lambda>x.
             case x of
               Return m2 \<Rightarrow> Inr m2
             | Next pc nextLoadReg nextLoadValue m2 \<Rightarrow> finish_instr pc nextLoadReg nextLoadValue m2))"

section \<open>The invariant of a step\<close>

text \<open>What is asked of the kernel's handler: it returns and keeps the machine invariant.\<close>

definition handler_ok :: "'a handler \<Rightarrow> bool" where
  "handler_ok eh \<longleftrightarrow> (\<forall>e m. Machine_wf m \<longrightarrow> reg m 0 = 0 \<longrightarrow>
     (\<exists>m'. eh e m = Inr m' \<and> Machine_wf m' \<and> reg m' 0 = 0))"

lemma wf_status [simp]: "Machine_wf (m\<lparr>status := st\<rparr>) = Machine_wf m" "reg (m\<lparr>status := st\<rparr>) i = reg m i"
  by (simp_all add: Machine_wf_def reg_def)

lemma RaiseException_ok:
  assumes "handler_ok eh" "Machine_wf m"
  shows "\<exists>m'. RaiseException eh e bad m = Inr m' \<and> Machine_wf m' \<and> reg m' 0 = 0"
proof -
  have "Machine_wf (set_reg BadVAddrReg bad m)" using assms(2) by (simp add: set_reg_wf)
  then obtain m1 where m1: "DelayedLoad 0 0 (set_reg BadVAddrReg bad m) = Inr m1" "Machine_wf m1" "reg m1 0 = 0"
    using DelayedLoad_ok [of "set_reg BadVAddrReg bad m" 0 0] by auto
  then obtain m2 where "eh e (m1\<lparr>status := SystemMode\<rparr>) = Inr m2" "Machine_wf m2" "reg m2 0 = 0"
    using assms(1) unfolding handler_ok_def by (metis wf_status)
  with m1 show ?thesis by (simp add: RaiseException_def)
qed

lemma ReadMem_ok:
  assumes "handler_ok eh" "Machine_wf m" "sz \<in> {1, 2, 4}"
  shows "\<exists>r m'. ReadMem eh va sz m = Inr (r, m') \<and> Machine_wf m'
     \<and> (r = None \<longrightarrow> reg m' 0 = 0)
     \<and> (r \<noteq> None \<longrightarrow> registers m' = registers m \<and> mainMemory m' = mainMemory m)"
proof -
  obtain m1 where T: "Translate va sz False m = Inr (translate_spec m va sz False, m1)" "same_but_bits m m1"
    using Translate_ok [OF assms(2,3)] by blast
  have wf1: "Machine_wf m1" using same_but_bits_wf T(2) assms(2) by blast
  show ?thesis
  proof (cases "translate_spec m va sz False")
    case (Fault e)
    then show ?thesis using T(1) RaiseException_ok [OF assms(1) wf1, of e va] by (auto simp: ReadMem_def)
  next
    case (Phys p)
    have b: "p + sz \<le> 32768" using translate_spec_Phys [OF Phys assms(3)] by metis
    then have "\<exists>v. load_mem sz p (mainMemory m1) = Inr v"
      using assms(3) by (auto simp: load_mem_def mem_get_def)
    then show ?thesis using T Phys wf1 by (auto simp: ReadMem_def same_but_bits_def)
  qed
qed

lemma WriteMem_ok:
  assumes "handler_ok eh" "Machine_wf m" "sz \<in> {1, 2, 4}"
  shows "\<exists>r m'. WriteMem eh va sz v m = Inr (r, m') \<and> Machine_wf m' \<and> (\<not> r \<longrightarrow> reg m' 0 = 0)"
proof -
  obtain m1 where T: "Translate va sz True m = Inr (translate_spec m va sz True, m1)" "same_but_bits m m1"
    using Translate_ok [OF assms(2,3)] by blast
  have wf1: "Machine_wf m1" using same_but_bits_wf T(2) assms(2) by blast
  show ?thesis
  proof (cases "translate_spec m va sz True")
    case (Fault e)
    then show ?thesis using T(1) RaiseException_ok [OF assms(1) wf1, of e va] by (auto simp: WriteMem_def)
  next
    case (Phys p)
    have b: "p + sz \<le> 32768" using translate_spec_Phys [OF Phys assms(3)] by metis
    obtain mem' where "store_mem sz p v (mainMemory m1) = Inr mem'" using load_store [OF assms(3) b] by blast
    moreover have "Machine_wf (m1\<lparr>mainMemory := mem'\<rparr>)" using wf1 by (simp add: Machine_wf_def reg_def)
    ultimately show ?thesis using T Phys by (auto simp: WriteMem_def)
  qed
qed

definition good_exec :: "'a Machine_scheme exec res \<Rightarrow> bool" where
  "good_exec r \<longleftrightarrow> (case r of Inl e \<Rightarrow> False
     | Inr (Next pc lr lv m) \<Rightarrow> Machine_wf m \<and> unat lr < NumGPRegs
     | Inr (Return m) \<Rightarrow> Machine_wf m \<and> reg m 0 = 0)"

lemma good_brk [simp]: "good_exec (brk pc m) \<longleftrightarrow> Machine_wf m"
  by (simp add: good_exec_def brk_def)

lemma good_Next [simp]: "good_exec (Inr (Next pc lr lv m)) \<longleftrightarrow> Machine_wf m \<and> unat lr < 32"
  by (simp add: good_exec_def)

lemma good_trap: "handler_ok eh \<Longrightarrow> Machine_wf m \<Longrightarrow> good_exec (trap eh e bad m)"
  using RaiseException_ok [of eh m e bad] by (auto simp: good_exec_def trap_def)

lemma good_with_word:
  assumes "handler_ok eh" "Machine_wf m" "sz \<in> {1, 2, 4}"
    and "\<And>v m1. Machine_wf m1 \<Longrightarrow> registers m1 = registers m \<Longrightarrow> good_exec (k v m1)"
  shows "good_exec (with_word eh va sz m k)"
  using ReadMem_ok [OF assms(1-3), of va] assms(4)
  by (auto simp: with_word_def good_exec_def split: option.splits if_splits)

lemma good_store_word:
  "handler_ok eh \<Longrightarrow> Machine_wf m \<Longrightarrow> sz \<in> {1, 2, 4} \<Longrightarrow> good_exec (store_word eh va sz v pc m)"
  using WriteMem_ok [of eh m sz va v] by (auto simp: store_word_def good_exec_def brk_def)

text \<open>The instructions on which the simulator itself fails.\<close>

definition unaligned_lr :: "Instruction \<Rightarrow> 'a Machine_scheme \<Rightarrow> bool" where
  "unaligned_lr i m \<longleftrightarrow> opCode i \<in> {OP_LWL, OP_LWR, OP_SWL, OP_SWR} \<and> (reg m (rs i) + extra i) AND 3 \<noteq> 0"

definition div_overflow :: "Instruction \<Rightarrow> 'a Machine_scheme \<Rightarrow> bool" where
  "div_overflow i m \<longleftrightarrow> opCode i = OP_DIV \<and> reg m (rt i) \<noteq> 0
     \<and> \<not> int32_ok (sint (reg m (rs i)) sdiv sint (reg m (rt i)))"

lemmas good_intros = good_trap good_with_word good_store_word set_reg_wf

definition decoded :: "Instruction \<Rightarrow> bool" where
  "decoded i \<longleftrightarrow> rs i < 32 \<and> rt i < 32 \<and> rd i < 32 \<and> handled (opCode i)"

lemma decoded_wf: "decoded i \<Longrightarrow> Machine_wf m \<Longrightarrow> Machine_wf (set_reg (rd i) v m) \<and> Machine_wf (set_reg (rt i) v m)"
  by (simp add: decoded_def set_reg_wf)

lemma decoded_load_reg: "decoded i \<Longrightarrow> unat (of_nat (rt i) :: 32 word) < 32"
  by (simp add: decoded_def unsigned_of_nat take_bit_nat_eq_self)

lemma good_arith:
  "handler_ok eh \<Longrightarrow> Machine_wf m \<Longrightarrow> decoded i \<Longrightarrow> exec_arith eh i pc m = Some r \<Longrightarrow> good_exec r"
  by (cases "opCode i") (auto simp: exec_arith_def Let_def decoded_wf intro!: good_intros)

lemma good_branch: "Machine_wf m \<Longrightarrow> exec_branch i pc m = Some r \<Longrightarrow> good_exec r"
  by (cases "opCode i") (auto simp: exec_branch_def Let_def intro!: good_intros)

lemma good_div_jump:
  "Machine_wf m \<Longrightarrow> decoded i \<Longrightarrow> exec_div_jump i pc m = Some r \<Longrightarrow>
     good_exec r \<or> (r = Inl SignedOverflow \<and> div_overflow i m)"
  by (cases "opCode i") (auto simp: exec_div_jump_def div_overflow_def Let_def decoded_wf split: if_splits intro!: set_reg_wf)

lemma good_load:
  "handler_ok eh \<Longrightarrow> Machine_wf m \<Longrightarrow> decoded i \<Longrightarrow> exec_load eh i pc m = Some r \<Longrightarrow>
     good_exec r \<or> (r = Inl AssertFailed \<and> unaligned_lr i m)"
  by (cases "opCode i")
    (auto simp: exec_load_def unaligned_lr_def Let_def decoded_wf decoded_load_reg bindR_ASSERT
      split: if_splits intro!: good_trap good_with_word)

lemma good_hilo: "Machine_wf m \<Longrightarrow> decoded i \<Longrightarrow> exec_hilo i pc m = Some r \<Longrightarrow> good_exec r"
  by (cases "opCode i") (auto simp: exec_hilo_def Let_def decoded_wf split: prod.splits intro!: set_reg_wf)

lemma good_store_shift:
  "handler_ok eh \<Longrightarrow> Machine_wf m \<Longrightarrow> decoded i \<Longrightarrow> exec_store_shift eh i pc m = Some r \<Longrightarrow> good_exec r"
  by (cases "opCode i") (auto simp: exec_store_shift_def Let_def decoded_wf intro!: good_store_word)

lemma good_last:
  "handler_ok eh \<Longrightarrow> Machine_wf m \<Longrightarrow> decoded i \<Longrightarrow> exec_last eh i pc m = Some r \<Longrightarrow>
     good_exec r \<or> (r = Inl AssertFailed \<and> unaligned_lr i m)"
  by (cases "opCode i")
    (auto simp: exec_last_def unaligned_lr_def Let_def decoded_wf bindR_ASSERT
      split: if_splits intro!: good_trap good_with_word good_store_word)

text \<open>Every opcode that decoding yields is in one of the stretches.\<close>

lemma execute_covers:
  "handled (opCode i) \<Longrightarrow>
     exec_arith eh i pc m \<noteq> None \<or> exec_branch i pc m \<noteq> None \<or> exec_div_jump i pc m \<noteq> None
     \<or> exec_load eh i pc m \<noteq> None \<or> exec_hilo i pc m \<noteq> None \<or> exec_store_shift eh i pc m \<noteq> None
     \<or> exec_last eh i pc m \<noteq> None"
  by (cases "opCode i")
    (auto simp: handled_def exec_arith_def exec_branch_def exec_div_jump_def exec_load_def exec_hilo_def
      exec_store_shift_def exec_last_def Let_def)

lemma execute_cases:
  assumes "handled (opCode i)"
  shows "Some (execute eh i pc m) \<in> {exec_arith eh i pc m, exec_branch i pc m, exec_div_jump i pc m,
     exec_load eh i pc m, exec_hilo i pc m, exec_store_shift eh i pc m, exec_last eh i pc m}"
  using execute_covers [OF assms, of eh pc m] by (auto simp: execute_def split: option.splits)

lemma execute_good:
  assumes "handler_ok eh" "Machine_wf m" "decoded i"
  shows "good_exec (execute eh i pc m)
     \<or> (execute eh i pc m = Inl SignedOverflow \<and> div_overflow i m)
     \<or> (execute eh i pc m = Inl AssertFailed \<and> unaligned_lr i m)"
proof -
  have "handled (opCode i)" using assms(3) by (simp add: decoded_def)
  from execute_cases [OF this, of eh pc m] show ?thesis
    using good_arith [OF assms, of pc] good_branch [OF assms(2), of i pc] good_div_jump [OF assms(2,3), of pc]
      good_load [OF assms, of pc] good_hilo [OF assms(2,3), of pc] good_store_shift [OF assms, of pc]
      good_last [OF assms, of pc]
    by (metis empty_iff insertE)
qed

lemma Decode_decoded: "decoded (Decode v)"
  by (simp add: decoded_def Decode_regs Decode_handled)

text \<open>What a completed step does with the program counters and the pending load.\<close>

lemma finish_step:
  assumes "Machine_wf m2" "unat lr < 32"
  shows "\<exists>m'. finish_instr pc lr lv m2 = Inr m'
     \<and> Machine_wf m' \<and> reg m' 0 = 0 \<and> reg m' PrevPCReg = reg m2 PCReg \<and> reg m' PCReg = reg m2 NextPCReg
     \<and> reg m' NextPCReg = pc \<and> reg m' LoadReg = lr \<and> reg m' LoadValueReg = lv
     \<and> (\<forall>j. 0 < j \<and> j < NumGPRegs \<longrightarrow>
          reg m' j = (if j = unat (reg m2 LoadReg) then reg m2 LoadValueReg else reg m2 j))
     \<and> mainMemory m' = mainMemory m2"
proof -
  obtain m3 where m3: "DelayedLoad lr lv m2 = Inr m3" "Machine_wf m3" "reg m3 0 = 0"
    "reg m3 LoadReg = lr" "reg m3 LoadValueReg = lv"
    "\<forall>i<NumTotalRegs. i \<noteq> 0 \<and> i \<noteq> LoadReg \<and> i \<noteq> LoadValueReg \<longrightarrow>
          reg m3 i = (if i = unat (reg m2 LoadReg) then reg m2 LoadValueReg else reg m2 i)"
    "mainMemory m3 = mainMemory m2"
    using DelayedLoad_ok [OF assms] by metis
  have l: "length (registers m3) = 40" using m3(2) by (simp add: Machine_wf_def)
  have u: "unat (reg m2 LoadReg) < 32" using assms(1) by (simp add: Machine_wf_def)
  define m' where "m' = set_reg NextPCReg pc (set_reg PCReg (reg (set_reg PrevPCReg (reg m3 PCReg) m3) NextPCReg)
      (set_reg PrevPCReg (reg m3 PCReg) m3))"
  have f: "finish_instr pc lr lv m2 = Inr m'" using m3(1) by (simp add: finish_instr_def m'_def Let_def)
  have "mainMemory m' = mainMemory m2" using m3(7) by (simp add: m'_def)
  moreover have r: "reg m' j = (if j = NextPCReg then pc else if j = PCReg then reg m3 NextPCReg
      else if j = PrevPCReg then reg m3 PCReg else reg m3 j)" if "j < 40" for j
    using that l by (simp add: m'_def reg_set_reg)
  moreover have "Machine_wf m'" unfolding m'_def using m3(2) by (intro set_reg_wf) simp_all
  ultimately show ?thesis using f m3(3-6) u by (intro exI [of _ m']) simp
qed

lemma OneInstruction_fetched:
  "ReadMem eh (reg m PCReg) 4 m = Inr (Some raw, m1) \<Longrightarrow> OneInstruction eh m =
     bindR (execute eh (Decode raw) (reg m1 NextPCReg + 4) m1) (\<lambda>x.
       case x of Return m2 \<Rightarrow> Inr m2 | Next pc lr lv m2 \<Rightarrow> finish_instr pc lr lv m2)"
  by (simp add: OneInstruction_def Let_def)

section \<open>Properties\<close>

text \<open>
  C14 (invariant): with a handler that returns and keeps the machine invariant, executing one
  instruction keeps the invariant and leaves register 0 at zero; the simulator itself can fail only
  on an unaligned LWL, LWR, SWL or SWR (its ASSERT) and on a DIV of the most negative word
  by -1 (an overflow of the host's division).
\<close>

theorem step_invariant:
  assumes "handler_ok eh" "Machine_wf m" "reg m 0 = 0"
  shows "(\<exists>m'. OneInstruction eh m = Inr m' \<and> Machine_wf m' \<and> reg m' 0 = 0)
     \<or> (\<exists>raw m1. ReadMem eh (reg m PCReg) 4 m = Inr (Some raw, m1)
          \<and> (OneInstruction eh m = Inl AssertFailed \<and> unaligned_lr (Decode raw) m1
             \<or> OneInstruction eh m = Inl SignedOverflow \<and> div_overflow (Decode raw) m1))"
proof -
  obtain r m1 where r: "ReadMem eh (reg m PCReg) 4 m = Inr (r, m1)" "Machine_wf m1" "r = None \<longrightarrow> reg m1 0 = 0"
    using ReadMem_ok [OF assms(1,2), of 4 "reg m PCReg"] by auto
  show ?thesis
  proof (cases r)
    case None
    then show ?thesis using r by (simp add: OneInstruction_def)
  next
    case (Some raw)
    let ?x = "execute eh (Decode raw) (reg m1 NextPCReg + 4) m1"
    note eq = OneInstruction_fetched [OF r(1) [unfolded Some]]
    consider (fin) pc lr lv m2 where "?x = Inr (Next pc lr lv m2)" "Machine_wf m2" "unat lr < 32"
      | (ret) m2 where "?x = Inr (Return m2)" "Machine_wf m2" "reg m2 0 = 0"
      | (ov) "?x = Inl SignedOverflow" "div_overflow (Decode raw) m1"
      | (al) "?x = Inl AssertFailed" "unaligned_lr (Decode raw) m1"
      using execute_good [OF assms(1) r(2) Decode_decoded, of raw "reg m1 NextPCReg + 4"]
      by (auto simp: good_exec_def split: sum.splits exec.splits)
    then show ?thesis
    proof cases
      case fin
      then show ?thesis using finish_step [OF fin(2,3), of pc lv] eq by auto
    qed (use eq r(1) Some in auto)
  qed
qed

theorem step_invariant_witness:
  "\<exists>m'. OneInstruction (\<lambda>_ m. Inr m) demo_machine = Inr m' \<and> Machine_wf m' \<and> reg m' 0 = 0"
proof -
  let ?eh = "\<lambda>_ m. Inr m"
  have eh: "handler_ok ?eh" by (simp add: handler_ok_def)
  have f: "\<exists>m1. ReadMem ?eh (reg demo_machine PCReg) 4 demo_machine = Inr (Some 0, m1)"
    by (simp add: ReadMem_def Translate_def Translate_entry_def demo_machine_def demo_entry_def Let_def
        load_mem_def mem_get_def le32_def WordToHost_def reg_def)
  have "opCode (Decode 0) = OP_SLL" by (simp add: Decode_def opTable_def specialTable_def Let_def)
  then have "\<not> unaligned_lr (Decode 0) m1" "\<not> div_overflow (Decode 0) m1" for m1 :: Machine
    by (simp_all add: unaligned_lr_def div_overflow_def)
  then show ?thesis
    using f step_invariant [OF eh demo_machine_wf] by (fastforce simp: demo_machine_def reg_def)
qed

end
