(* ===== verification/MipsBehaviour.thy ===== *)
theory MipsBehaviour
  imports MipsSim
begin

unbundle bit_operations_syntax

text \<open>
  What single instructions of the simulator compute: overflow detection of the signed
  additions, the division identity, branch delay slots and delayed loads.
\<close>

section \<open>Signed arithmetic\<close>

lemma sint_bounds: "- 2147483648 \<le> sint (w :: 32 word)" "sint (w :: 32 word) < 2147483648"
  using sint_ge [of w] sint_lt [of w] by simp_all

lemma sint_word_of_int_cases:
  assumes "- 4294967296 \<le> x" "x < 4294967296"
  shows "sint (word_of_int x :: 32 word)
     = (if x < - 2147483648 then x + 4294967296 else if 2147483648 \<le> x then x - 4294967296 else x)"
proof -
  let ?s = "sint (word_of_int x :: 32 word)"
  have "(word_of_int ?s :: 32 word) = word_of_int x" by simp
  from word_of_int_mod [OF this] have "?s mod 4294967296 = x mod 4294967296" by simp
  then obtain k where k: "?s = x + 4294967296 * k" by (auto simp: mod_eq_dvd_iff dvd_def algebra_simps)
  show ?thesis using k assms sint_bounds [of "word_of_int x"] by (auto split: if_splits)
qed

lemma sint_add: "sint (a + b :: 32 word) = sint (word_of_int (sint a + sint b) :: 32 word)"
  by simp

lemma sint_sub: "sint (a - b :: 32 word) = sint (word_of_int (sint a - sint b) :: 32 word)"
  by simp

lemma bit31_iff: "bit (w :: 32 word) 31 \<longleftrightarrow> sint w < 0"
proof -
  have "(0x80000000 :: 32 word) = 2 ^ 31" by simp
  then have "bit w 31 \<longleftrightarrow> w AND 0x80000000 \<noteq> 0" by (simp only: and_exp_iff_bit)
  then show ?thesis using top_bit_iff [of w] sint_cases [of w] sint_bounds [of w] uint_lt2p [of w]
    by (auto split: if_splits)
qed

lemma sign_bit_xor: "(a XOR b) AND SIGN_BIT = 0 \<longleftrightarrow> (sint a < 0 \<longleftrightarrow> sint b < 0)"
proof -
  have "(0x80000000 :: 32 word) = 2 ^ 31" by simp
  then have "(a XOR b) AND SIGN_BIT \<noteq> 0 \<longleftrightarrow> bit (a XOR b) 31"
    unfolding SIGN_BIT_def by (simp only: and_exp_iff_bit)
  then show ?thesis by (auto simp add: bit_xor_iff simp flip: bit31_iff)
qed

lemma add_overflow_test:
  "((a XOR b) AND SIGN_BIT = 0 \<and> (a XOR (a + b)) AND SIGN_BIT \<noteq> 0) \<longleftrightarrow> \<not> int32_ok (sint a + sint b)"
  unfolding sign_bit_xor sint_add using sint_bounds [of a] sint_bounds [of b]
  by (subst sint_word_of_int_cases) (auto simp: int32_ok_def)

lemma sub_overflow_test:
  "((a XOR b) AND SIGN_BIT \<noteq> 0 \<and> (a XOR (a - b)) AND SIGN_BIT \<noteq> 0) \<longleftrightarrow> \<not> int32_ok (sint a - sint b)"
  unfolding sign_bit_xor sint_sub using sint_bounds [of a] sint_bounds [of b]
  by (subst sint_word_of_int_cases) (auto simp: int32_ok_def)

lemma execute_simps:
  "opCode i = OP_ADD \<Longrightarrow> execute eh i pc m = the (exec_arith eh i pc m)"
  "opCode i = OP_ADDI \<Longrightarrow> execute eh i pc m = the (exec_arith eh i pc m)"
  "opCode i = OP_SUB \<Longrightarrow> execute eh i pc m = the (exec_last eh i pc m)"
  "opCode i = OP_DIV \<Longrightarrow> execute eh i pc m = the (exec_div_jump i pc m)"
  "opCode i = OP_DIVU \<Longrightarrow> execute eh i pc m = the (exec_div_jump i pc m)"
  "opCode i = OP_LW \<Longrightarrow> execute eh i pc m = the (exec_load eh i pc m)"
  by (simp_all add: execute_def exec_arith_def exec_branch_def exec_div_jump_def exec_load_def exec_hilo_def
      exec_store_shift_def exec_last_def Let_def)

section \<open>Properties\<close>

text \<open>
  ADD, ADDI and SUB raise the overflow exception exactly when the mathematical
  result does not fit a signed word, and otherwise store the mathematical result.
\<close>

theorem alu_overflow:
  "(opCode i = OP_ADD \<longrightarrow> execute eh i pc m =
     (let s = sint (reg m (rs i)) + sint (reg m (rt i)) in
      if int32_ok s then brk pc (set_reg (rd i) (word_of_int s) m) else trap eh OverflowException 0 m))
   \<and> (opCode i = OP_ADDI \<longrightarrow> execute eh i pc m =
     (let s = sint (reg m (rs i)) + sint (extra i) in
      if int32_ok s then brk pc (set_reg (rt i) (word_of_int s) m) else trap eh OverflowException 0 m))
   \<and> (opCode i = OP_SUB \<longrightarrow> execute eh i pc m =
     (let s = sint (reg m (rs i)) - sint (reg m (rt i)) in
      if int32_ok s then brk pc (set_reg (rd i) (word_of_int s) m) else trap eh OverflowException 0 m))"
proof -
  have "(extra i XOR (reg m (rs i) + extra i)) AND SIGN_BIT \<noteq> 0
      \<longleftrightarrow> (reg m (rs i) XOR (reg m (rs i) + extra i)) AND SIGN_BIT \<noteq> 0"
    if "(reg m (rs i) XOR extra i) AND SIGN_BIT = 0"
    using that unfolding sign_bit_xor by simp
  then show ?thesis
    using add_overflow_test [of "reg m (rs i)" "extra i"] add_overflow_test [of "reg m (rs i)" "reg m (rt i)"]
      sub_overflow_test [of "reg m (rs i)" "reg m (rt i)"]
    by (intro conjI impI; auto simp: execute_simps exec_arith_def exec_last_def Let_def)
qed

theorem alu_overflow_witness:
  "execute (\<lambda>_ m. Inr m) (Decode (encode_R 1 2 3 0 0x20)) 8 (set_reg 1 0x7fffffff (set_reg 2 1 demo_machine))
     = trap (\<lambda>_ m. Inr m) OverflowException 0 (set_reg 1 0x7fffffff (set_reg 2 1 demo_machine))"
proof -
  let ?m = "set_reg 1 0x7fffffff (set_reg 2 1 demo_machine)" and ?i = "Decode (encode_R 1 2 3 0 0x20)"
  have "opCode ?i = OP_ADD" by (simp add: Decode_def encode_R_def opTable_def specialTable_def Let_def)
  moreover have "rs ?i = 1" "rt ?i = 2" by (simp_all add: Decode_def encode_R_def opTable_def Let_def)
  moreover have "sint (reg ?m 1) + sint (reg ?m 2) = 2147483648"
    by (simp add: reg_set_reg demo_machine_def)
  ultimately show ?thesis using alu_overflow [of ?i "\<lambda>_ m. Inr m" 8 ?m] by (simp add: int32_ok_def)
qed

text \<open>
  DIV and DIVU leave quotient and remainder in LO and HI with
  \<open>rs = rt * LO + HI\<close>, the remainder smaller than the divisor and, for DIV, with the sign of the dividend;
  a division by zero leaves zeros and does not trap.
\<close>

theorem div_identity:
  assumes "Machine_wf m" "opCode i = OP_DIV \<or> opCode i = OP_DIVU" "\<not> div_overflow i m"
  shows "\<exists>m'. execute eh i pc m = brk pc m' \<and>
     (if reg m (rt i) = 0 then reg m' LoReg = 0 \<and> reg m' HiReg = 0
      else if opCode i = OP_DIV then
        sint (reg m (rs i)) = sint (reg m (rt i)) * sint (reg m' LoReg) + sint (reg m' HiReg)
        \<and> \<bar>sint (reg m' HiReg)\<bar> < \<bar>sint (reg m (rt i))\<bar>
        \<and> (sint (reg m' HiReg) = 0 \<or> sgn (sint (reg m' HiReg)) = sgn (sint (reg m (rs i))))
      else
        uint (reg m (rs i)) = uint (reg m (rt i)) * uint (reg m' LoReg) + uint (reg m' HiReg)
        \<and> uint (reg m' HiReg) < uint (reg m (rt i)))"
proof -
  have l: "length (registers m) = 40" using assms(1) by (simp add: Machine_wf_def)
  let ?a = "reg m (rs i)" and ?b = "reg m (rt i)"
  consider (zero) "?b = 0" | (s) "opCode i = OP_DIV" "?b \<noteq> 0" | (u) "opCode i = OP_DIVU" "?b \<noteq> 0"
    using assms(2) by blast
  then show ?thesis
  proof cases
    case zero
    then show ?thesis using assms(2) l
      by (intro exI [of _ "set_reg HiReg 0 (set_reg LoReg 0 m)"])
        (auto simp: execute_simps exec_div_jump_def Let_def reg_set_reg)
  next
    case s
    then have ok: "int32_ok (sint ?a sdiv sint ?b)" using assms(3) by (simp add: div_overflow_def)
    have b0: "sint ?b \<noteq> 0" using s(2) sint_cases [of ?b] by (auto simp: uint_0_iff split: if_splits)
    have r: "\<bar>sint ?a smod sint ?b\<bar> < \<bar>sint ?b\<bar>" using smod_int_range [OF b0, of "sint ?a"] by auto
    then have r32: "- 2147483648 \<le> sint ?a smod sint ?b" "sint ?a smod sint ?b < 2147483648"
      using sint_bounds [of ?b] by auto
    have q: "sint (word_of_int (sint ?a sdiv sint ?b) :: 32 word) = sint ?a sdiv sint ?b"
      using ok by (subst sint_word_of_int_cases) (auto simp: int32_ok_def)
    have m: "sint (word_of_int (sint ?a smod sint ?b) :: 32 word) = sint ?a smod sint ?b"
      using r32 by (subst sint_word_of_int_cases) auto
    have sg: "sint ?a smod sint ?b = 0 \<or> sgn (sint ?a smod sint ?b) = sgn (sint ?a)"
    proof (cases "\<bar>sint ?a\<bar> mod \<bar>sint ?b\<bar> = 0")
      case False
      then have "0 < \<bar>sint ?a\<bar> mod \<bar>sint ?b\<bar>" using b0 by (simp add: order_less_le)
      then show ?thesis by (simp add: smod_int_alt_def sgn_mult)
    qed (simp add: smod_int_alt_def)
    show ?thesis using s l ok q m r sg mult_sdiv_smod_eq [of "sint ?b" "sint ?a"]
      by (intro exI [of _ "set_reg HiReg (word_of_int (sint ?a smod sint ?b))
            (set_reg LoReg (word_of_int (sint ?a sdiv sint ?b)) m)"])
        (simp add: execute_simps exec_div_jump_def Let_def reg_set_reg)
  next
    case u
    have "uint ?b > 0" using u(2) by (simp add: uint_0_iff order_less_le)
    then show ?thesis using u l
      by (intro exI [of _ "set_reg HiReg (?a mod ?b) (set_reg LoReg (?a div ?b) m)"])
        (simp add: execute_simps exec_div_jump_def Let_def reg_set_reg uint_div uint_mod)
  qed
qed

theorem div_identity_witness:
  "\<exists>m'. execute (\<lambda>_ m. Inr m) (Decode (encode_R 5 6 0 0 0x1a)) 8 (set_reg 5 (- 7) (set_reg 6 2 demo_machine)) = brk 8 m'
     \<and> - 7 = 2 * sint (reg m' LoReg) + sint (reg m' HiReg)"
proof -
  let ?m = "set_reg 5 (- 7) (set_reg 6 2 demo_machine)" and ?i = "Decode (encode_R 5 6 0 0 0x1a)"
  have o: "opCode ?i = OP_DIV" by (simp add: Decode_def encode_R_def opTable_def specialTable_def Let_def)
  have f: "rs ?i = 5" "rt ?i = 6" by (simp_all add: Decode_def encode_R_def opTable_def Let_def)
  have v: "reg ?m 5 = - 7" "reg ?m 6 = 2" by (simp_all add: reg_set_reg demo_machine_def)
  have s: "sint (- 7 :: 32 word) = - 7" "sint (2 :: 32 word) = 2" by simp_all
  have "\<not> div_overflow ?i ?m" by (simp add: div_overflow_def o f v s int32_ok_def)
  moreover have "Machine_wf ?m" using demo_machine_wf by (simp add: set_reg_wf)
  ultimately show ?thesis using div_identity [of ?m ?i "\<lambda>_ m. Inr m" 8] by (auto simp: o f v s)
qed

section \<open>Control flow\<close>

text \<open>The address of the instruction after the delay slot.\<close>

definition branch_target :: "Instruction \<Rightarrow> 'a Machine_scheme \<Rightarrow> 32 word" where
  "branch_target i m =
     (let a = reg m (rs i); b = reg m (rt i); next = reg m NextPCReg;
          taken = next + 4 * extra i; seq = next + 4 in
      case opCode i of
        OP_BEQ \<Rightarrow> if a = b then taken else seq
      | OP_BNE \<Rightarrow> if a \<noteq> b then taken else seq
      | OP_BGEZ \<Rightarrow> if 0 \<le> sint a then taken else seq
      | OP_BLTZ \<Rightarrow> if sint a < 0 then taken else seq
      | OP_BGTZ \<Rightarrow> if 0 < sint a then taken else seq
      | OP_BLEZ \<Rightarrow> if sint a \<le> 0 then taken else seq
      | OP_BGEZAL \<Rightarrow> if 0 \<le> sint (if rs i = RetAddrReg then seq else a) then taken else seq
      | OP_BLTZAL \<Rightarrow> if sint (if rs i = RetAddrReg then seq else a) < 0 then taken else seq
      | OP_J \<Rightarrow> (seq AND 0xf0000000) OR 4 * extra i
      | OP_JAL \<Rightarrow> (seq AND 0xf0000000) OR 4 * extra i
      | OP_JR \<Rightarrow> a
      | OP_JALR \<Rightarrow> if rd i = rs i then seq else a
      | _ \<Rightarrow> seq)"

lemma sign_bit_zero: "(w AND SIGN_BIT = 0) \<longleftrightarrow> \<not> sint w < 0" "(w AND SIGN_BIT \<noteq> 0) \<longleftrightarrow> sint w < 0"
  using sign_bit_xor [of w 0] by simp_all

lemma index_to_addr: "IndexToAddr x = 4 * x"
  by (simp add: IndexToAddr_def push_bit_eq_mult)

lemma sint_0_less: "0 <s (w :: 32 word) \<longleftrightarrow> 0 < sint w" "w \<le>s 0 \<longleftrightarrow> sint w \<le> 0"
  by (simp_all add: word_sless_alt word_sle_eq)

lemma ReadMem_regs:
  assumes "Machine_wf m" "sz \<in> {1, 2, 4}" "ReadMem eh va sz m = Inr (Some v, m1)"
  shows "registers m1 = registers m" "Machine_wf m1"
proof -
  obtain m0 where T: "Translate va sz False m = Inr (translate_spec m va sz False, m0)" "same_but_bits m m0"
    using Translate_ok [OF assms(1,2)] by blast
  then have "m1 = m0" using assms(3)
    by (cases "translate_spec m va sz False") (auto simp: ReadMem_def bind_iffs)
  then show "registers m1 = registers m" "Machine_wf m1"
    using T(2) same_but_bits_wf assms(1) by (auto simp: same_but_bits_def)
qed

lemma WriteMem_regs:
  assumes "Machine_wf m" "sz \<in> {1, 2, 4}" "WriteMem eh va sz v m = Inr (True, m1)"
  shows "registers m1 = registers m"
proof -
  obtain m0 where T: "Translate va sz True m = Inr (translate_spec m va sz True, m0)" "same_but_bits m m0"
    using Translate_ok [OF assms(1,2)] by blast
  then show ?thesis using assms(3)
    by (cases "translate_spec m va sz True") (auto simp: WriteMem_def bind_iffs same_but_bits_def)
qed

text \<open>A case of the switch that breaks leaves the control registers alone and \<open>pcAfter\<close> at the target.\<close>

definition control_ok :: "Instruction \<Rightarrow> 'a Machine_scheme \<Rightarrow> 'a Machine_scheme exec res \<Rightarrow> bool" where
  "control_ok i m r \<longleftrightarrow> (case r of
     Inr (Next pc lr lv m2) \<Rightarrow> pc = branch_target i m
       \<and> (\<forall>j\<in>{PCReg, NextPCReg, LoadReg, LoadValueReg}. reg m2 j = reg m j)
   | _ \<Rightarrow> True)"

lemma control_Next: "control_ok i m (Inr (Next pc lr lv m2)) \<longleftrightarrow> pc = branch_target i m
     \<and> (\<forall>j\<in>{PCReg, NextPCReg, LoadReg, LoadValueReg}. reg m2 j = reg m j)"
  by (simp add: control_ok_def)

lemma control_brk: "control_ok i m (brk pc m2) \<longleftrightarrow> pc = branch_target i m
     \<and> (\<forall>j\<in>{PCReg, NextPCReg, LoadReg, LoadValueReg}. reg m2 j = reg m j)"
  by (simp add: brk_def control_Next)

lemma control_trap: "control_ok i m (trap eh e b m2)"
  by (cases "RaiseException eh e b m2") (simp_all add: trap_def control_ok_def)

lemma control_Inl: "control_ok i m (Inl e)"
  by (simp add: control_ok_def)

lemma control_with_word:
  assumes "Machine_wf m" "sz \<in> {1, 2, 4}"
    and "\<And>v m1. registers m1 = registers m \<Longrightarrow> Machine_wf m1 \<Longrightarrow> control_ok i m (k v m1)"
  shows "control_ok i m (with_word eh va sz m k)"
proof (cases "ReadMem eh va sz m")
  case (Inr x)
  obtain r m1 where x: "x = (r, m1)" by (cases x)
  show ?thesis
  proof (cases r)
    case (Some v)
    then show ?thesis using assms(3) ReadMem_regs [OF assms(1,2), of eh va v m1] Inr x by (simp add: with_word_def)
  qed (simp add: with_word_def Inr x control_ok_def)
qed (simp add: with_word_def control_ok_def)

lemma control_store_word:
  assumes "Machine_wf m1" "registers m1 = registers m" "sz \<in> {1, 2, 4}" "pc = branch_target i m"
  shows "control_ok i m (store_word eh va sz v pc m1)"
proof (cases "WriteMem eh va sz v m1")
  case (Inr x)
  obtain r m2 where x: "x = (r, m2)" by (cases x)
  then show ?thesis using WriteMem_regs [OF assms(1,3), of eh va v m2] Inr assms(2,4)
    by (cases r) (simp_all add: store_word_def brk_def control_ok_def reg_def)
qed (simp add: store_word_def control_ok_def)

lemmas control_simps = control_Next control_brk control_trap control_Inl branch_target_def Let_def reg_set_reg
  sign_bit_zero index_to_addr sint_0_less not_less

definition ready :: "Instruction \<Rightarrow> 'a Machine_scheme \<Rightarrow> bool" where
  "ready i m \<longleftrightarrow> Machine_wf m \<and> decoded i"

lemma ready_facts: "ready i m \<Longrightarrow> length (registers m) = 40 \<and> rs i < 32 \<and> rt i < 32 \<and> rd i < 32 \<and> Machine_wf m"
  by (simp add: ready_def Machine_wf_def decoded_def)

lemma control_arith:
  "ready i m \<Longrightarrow> exec_arith eh i (reg m NextPCReg + 4) m = Some r \<Longrightarrow> control_ok i m r"
  by (cases "opCode i") (auto dest!: ready_facts simp: exec_arith_def control_simps)

lemma control_branch:
  "ready i m \<Longrightarrow> exec_branch i (reg m NextPCReg + 4) m = Some r \<Longrightarrow> control_ok i m r"
  by (cases "opCode i") (auto dest!: ready_facts simp: exec_branch_def control_simps)

lemma control_div_jump:
  "ready i m \<Longrightarrow> exec_div_jump i (reg m NextPCReg + 4) m = Some r \<Longrightarrow> control_ok i m r"
  by (cases "opCode i") (auto dest!: ready_facts simp: exec_div_jump_def control_simps)

lemma control_load:
  "ready i m \<Longrightarrow> exec_load eh i (reg m NextPCReg + 4) m = Some r \<Longrightarrow> control_ok i m r"
  by (cases "opCode i") (auto dest!: ready_facts simp: exec_load_def control_simps bindR_ASSERT reg_def set_reg_def
      split: if_splits intro!: control_with_word)

lemma control_hilo:
  "ready i m \<Longrightarrow> exec_hilo i (reg m NextPCReg + 4) m = Some r \<Longrightarrow> control_ok i m r"
  by (cases "opCode i") (auto dest!: ready_facts simp: exec_hilo_def control_simps split: prod.splits)

lemma control_store_shift:
  "ready i m \<Longrightarrow> exec_store_shift eh i (reg m NextPCReg + 4) m = Some r \<Longrightarrow> control_ok i m r"
  by (cases "opCode i") (auto dest!: ready_facts simp: exec_store_shift_def control_simps intro!: control_store_word)

lemma control_last:
  "ready i m \<Longrightarrow> exec_last eh i (reg m NextPCReg + 4) m = Some r \<Longrightarrow> control_ok i m r"
  by (cases "opCode i") (auto dest!: ready_facts simp: exec_last_def control_simps bindR_ASSERT reg_def set_reg_def
      split: if_splits intro!: control_with_word control_store_word)

lemma execute_control:
  assumes "ready i m"
  shows "control_ok i m (execute eh i (reg m NextPCReg + 4) m)"
proof -
  have "handled (opCode i)" using assms by (simp add: ready_def decoded_def)
  from execute_cases [OF this, of eh "reg m NextPCReg + 4" m] show ?thesis
    using control_arith [OF assms] control_branch [OF assms] control_div_jump [OF assms] control_load [OF assms]
      control_hilo [OF assms] control_store_shift [OF assms] control_last [OF assms]
    by (metis empty_iff insertE)
qed

text \<open>
  An instruction that is fetched and completes executes in one step with a branch
  delay slot: the next instruction executed is the one NextPC named, and the one after it is the
  target that the instruction's branch condition selects (or the following word).
\<close>

theorem step_control_flow:
  assumes "Machine_wf m" "ReadMem eh (reg m PCReg) 4 m = Inr (Some raw, m1)"
    and "execute eh (Decode raw) (reg m1 NextPCReg + 4) m1 = Inr (Next pc lr lv m2)" "handler_ok eh"
  shows "\<exists>m'. OneInstruction eh m = Inr m' \<and> reg m' PrevPCReg = reg m PCReg \<and> reg m' PCReg = reg m NextPCReg
     \<and> reg m' NextPCReg = branch_target (Decode raw) m"
proof -
  have r: "registers m1 = registers m" "Machine_wf m1" using ReadMem_regs [OF assms(1) _ assms(2)] by simp_all
  then have "ready (Decode raw) m1" by (simp add: ready_def Decode_decoded)
  from execute_control [OF this, of eh] have c: "pc = branch_target (Decode raw) m1"
      "reg m2 PCReg = reg m1 PCReg" "reg m2 NextPCReg = reg m1 NextPCReg"
    unfolding assms(3) control_Next by simp_all
  have "branch_target (Decode raw) m1 = branch_target (Decode raw) m"
    using r(1) by (simp add: branch_target_def reg_def)
  moreover have "Machine_wf m2" "unat lr < 32"
    using execute_good [OF assms(4) r(2) Decode_decoded, of raw "reg m1 NextPCReg + 4"] by (simp_all add: assms(3))
  ultimately show ?thesis using finish_step [of m2 lr pc lv] OneInstruction_fetched [OF assms(2)] assms(3) c r(1)
    by (auto simp: reg_def)
qed

definition demo_lw :: Machine where
  "demo_lw = demo_machine\<lparr>mainMemory := (\<lambda>_. 0)(384 := 8, 386 := 5, 387 := 0x8c, 392 := 77)\<rparr>"

lemma demo_lw_wf: "Machine_wf demo_lw"
  using demo_machine_wf by (simp add: demo_lw_def Machine_wf_def reg_def)

lemma demo_lw_fetch: "\<exists>m1. ReadMem eh (reg demo_lw PCReg) 4 demo_lw = Inr (Some 0x8c050008, m1)
    \<and> (\<exists>m2. ReadMem eh 8 4 m1 = Inr (Some 77, m2))"
  by (simp add: ReadMem_def Translate_def Translate_entry_def demo_lw_def demo_machine_def demo_entry_def Let_def
        load_mem_def mem_get_def le32_def WordToHost_def reg_def)

lemma demo_lw_decode: "opCode (Decode 0x8c050008) = OP_LW" "rs (Decode 0x8c050008) = 0" "rt (Decode 0x8c050008) = 5"
    "extra (Decode 0x8c050008) = 8"
  by (simp_all add: Decode_def opTable_def Let_def)

theorem step_control_flow_witness:
  "\<exists>m'. OneInstruction (\<lambda>_ m. Inr m) demo_lw = Inr m' \<and> reg m' NextPCReg = 4"
proof -
  obtain m1 m2 where f: "ReadMem (\<lambda>_ m. Inr m) (reg demo_lw PCReg) 4 demo_lw = Inr (Some 0x8c050008, m1)"
    "ReadMem (\<lambda>_ m. Inr m) 8 4 m1 = Inr (Some 77, m2)" using demo_lw_fetch by blast
  have r: "registers m1 = registers demo_lw" using ReadMem_regs [OF demo_lw_wf _ f(1)] by simp
  have "reg m1 0 = 0" using r by (simp add: reg_def demo_lw_def demo_machine_def)
  then have "execute (\<lambda>_ m. Inr m) (Decode 0x8c050008) (reg m1 NextPCReg + 4) m1
      = Inr (Next (reg m1 NextPCReg + 4) 5 77 m2)"
    using f(2) by (simp add: execute_simps demo_lw_decode exec_load_def Let_def with_word_def)
  from step_control_flow [OF demo_lw_wf f(1) this] show ?thesis
    by (auto simp: handler_ok_def branch_target_def demo_lw_decode reg_def demo_lw_def demo_machine_def)
qed

text \<open>
  LW has a load delay slot: when its address can be read, the step records the
  word as the pending load and changes no register except by the load pending before it; the word arrives
  in the target register with the delayed load of the next instruction or trap.
\<close>

theorem lw_delayed:
  assumes "Machine_wf m" "ReadMem eh (reg m PCReg) 4 m = Inr (Some raw, m1)" "opCode (Decode raw) = OP_LW"
    and "(reg m (rs (Decode raw)) + extra (Decode raw)) AND 3 = 0"
    and "ReadMem eh (reg m (rs (Decode raw)) + extra (Decode raw)) 4 m1 = Inr (Some v, m2)"
  shows "\<exists>m'. OneInstruction eh m = Inr m' \<and> Machine_wf m'
     \<and> (\<forall>j. 0 < j \<and> j < NumGPRegs \<longrightarrow> reg m' j = (if j = unat (reg m LoadReg) then reg m LoadValueReg else reg m j))
     \<and> (\<forall>nr nv. unat nr < NumGPRegs \<longrightarrow> (\<exists>m''. DelayedLoad nr nv m' = Inr m'' \<and> reg m'' (rt (Decode raw)) = (if rt (Decode raw) = 0 then 0 else v)))"
proof -
  let ?i = "Decode raw"
  have r1: "registers m1 = registers m" "Machine_wf m1" using ReadMem_regs [OF assms(1) _ assms(2)] by simp_all
  have r2: "registers m2 = registers m" "Machine_wf m2" using ReadMem_regs [OF r1(2) _ assms(5)] r1 by simp_all
  have g: "reg m1 = reg m" "reg m2 = reg m" using r1 r2 by (simp_all add: reg_def fun_eq_iff)
  have ex: "execute eh ?i (reg m1 NextPCReg + 4) m1 = Inr (Next (reg m1 NextPCReg + 4) (of_nat (rt ?i)) v m2)"
    using assms(3-5) g by (simp add: execute_simps exec_load_def Let_def with_word_def)
  have rt: "unat (of_nat (rt ?i) :: 32 word) = rt ?i" "rt ?i < 32"
    using Decode_regs(2) [of raw] by (simp_all add: unsigned_of_nat take_bit_nat_eq_self)
  obtain m' where m': "finish_instr (reg m1 NextPCReg + 4) (of_nat (rt ?i)) v m2 = Inr m'" "Machine_wf m'"
      "reg m' LoadReg = of_nat (rt ?i)" "reg m' LoadValueReg = v"
      "\<forall>j. 0 < j \<and> j < NumGPRegs \<longrightarrow> reg m' j = (if j = unat (reg m2 LoadReg) then reg m2 LoadValueReg else reg m2 j)"
    using finish_step [OF r2(2), of "of_nat (rt ?i)" "reg m1 NextPCReg + 4" v] rt by auto
  have "\<exists>m''. DelayedLoad nr nv m' = Inr m'' \<and> reg m'' (rt ?i) = (if rt ?i = 0 then 0 else v)"
    if "unat nr < 32" for nr nv
    using DelayedLoad_ok [OF m'(2) that, of nv] m'(3,4) rt by auto
  then show ?thesis using OneInstruction_fetched [OF assms(2)] ex m' g by auto
qed

theorem lw_delayed_witness:
  "\<exists>m'. OneInstruction (\<lambda>_ m. Inr m) demo_lw = Inr m' \<and> reg m' 5 = 0
     \<and> (\<exists>m''. DelayedLoad 0 0 m' = Inr m'' \<and> reg m'' 5 = 77)"
proof -
  obtain m1 m2 where f: "ReadMem (\<lambda>_ m. Inr m) (reg demo_lw PCReg) 4 demo_lw = Inr (Some 0x8c050008, m1)"
    "ReadMem (\<lambda>_ m. Inr m) 8 4 m1 = Inr (Some 77, m2)" using demo_lw_fetch by blast
  have r: "reg demo_lw (rs (Decode 0x8c050008)) + extra (Decode 0x8c050008) = 8"
    "reg demo_lw LoadReg = 0" "reg demo_lw 5 = 0"
    by (simp_all add: demo_lw_decode reg_def demo_lw_def demo_machine_def)
  from lw_delayed [OF demo_lw_wf f(1) demo_lw_decode(1), unfolded r, OF _ f(2)] obtain m'
    where m': "OneInstruction (\<lambda>_ m. Inr m) demo_lw = Inr m'"
    "\<forall>j. 0 < j \<and> j < NumGPRegs \<longrightarrow> reg m' j = (if j = unat (0 :: 32 word) then reg demo_lw LoadValueReg else reg demo_lw j)"
    "\<forall>nr nv. unat nr < NumGPRegs \<longrightarrow> (\<exists>m''. DelayedLoad nr nv m' = Inr m''
        \<and> reg m'' (rt (Decode 0x8c050008)) = (if rt (Decode 0x8c050008) = 0 then 0 else 77))"
    by fastforce
  from m'(2) [rule_format, of 5] m'(3) [rule_format, of 0 0] m'(1) show ?thesis
    by (auto simp: r demo_lw_decode)
qed

end
