(* ===== verification/Synch.thy ===== *)
theory Synch
  imports Prelude
begin

text \<open>
  \<^verbatim>\<open>threads/synch.cc\<close>: semaphores, and the locks and condition variables this kernel builds
  from semaphores. An operation that runs with interrupts disabled is one function;
  threads interleave between such operations, so each class has a step relation
  over the program points of its methods. Invariants are proved by rule induction.
\<close>

section \<open>Threads and counting\<close>

type_synonym thread = nat

text \<open>The number of threads whose program point satisfies \<open>P\<close>.\<close>

definition cnt :: "('p \<Rightarrow> bool) \<Rightarrow> (thread \<Rightarrow> 'p) \<Rightarrow> nat" where
  "cnt P pc = card {t. P (pc t)}"

text \<open>Only finitely many threads are away from the idle point.\<close>

definition fin_pc :: "'p \<Rightarrow> (thread \<Rightarrow> 'p) \<Rightarrow> bool" where
  "fin_pc idle pc \<longleftrightarrow> finite {t. pc t \<noteq> idle}"

lemma fin_pc_upd [simp]: "fin_pc idle pc \<Longrightarrow> fin_pc idle (pc(t := x))"
  unfolding fin_pc_def by (rule finite_subset [of _ "insert t {t. pc t \<noteq> idle}"]) auto

lemma fin_pc_const [simp]: "fin_pc idle (\<lambda>_. idle)"
  by (simp add: fin_pc_def)

lemma fin_pc_finite: "fin_pc idle pc \<Longrightarrow> \<not> P idle \<Longrightarrow> finite {t. P (pc t)}"
  unfolding fin_pc_def by (rule finite_subset [of _ "{t. pc t \<noteq> idle}"]) auto

lemma cnt_upd:
  assumes "fin_pc idle pc" "\<not> P idle"
  shows "cnt P (pc(t := x)) + (if P (pc t) then 1 else 0) = cnt P pc + (if P x then 1 else 0)"
proof -
  define A where "A = {u. P (pc u) \<and> u \<noteq> t}"
  have f: "finite A" "t \<notin> A"
    using fin_pc_finite [of idle pc P] assms by (auto simp: A_def)
  have e1: "{u. P (pc u)} = (if P (pc t) then insert t A else A)" by (auto simp: A_def)
  have e2: "{u. P ((pc(t := x)) u)} = (if P x then insert t A else A)" by (auto simp: A_def)
  show ?thesis unfolding cnt_def e1 e2 using f by simp
qed

lemma cnt_upd_int:
  assumes "fin_pc idle pc" "\<not> P idle"
  shows "int (cnt P (pc(t := x))) = int (cnt P pc) + of_bool (P x) - of_bool (P (pc t))"
  using cnt_upd [of idle pc P t x] assms by (auto split: if_splits)

lemma cnt_member: "fin_pc idle pc \<Longrightarrow> \<not> P idle \<Longrightarrow> P (pc t) \<Longrightarrow> 0 < cnt P pc"
  using fin_pc_finite [of idle pc P] by (auto simp: cnt_def card_gt_0_iff)

lemma cnt_pos: "0 < cnt P pc \<Longrightarrow> \<exists>t. P (pc t)"
  by (auto simp: cnt_def card_gt_0_iff)

lemma cnt_const [simp]: "\<not> P idle \<Longrightarrow> cnt P (\<lambda>_. idle) = 0"
  by (simp add: cnt_def)

text \<open>The threads at a point that satisfies \<open>P\<close>.\<close>

definition at :: "('p \<Rightarrow> bool) \<Rightarrow> (thread \<Rightarrow> 'p) \<Rightarrow> thread set" where
  "at P pc = {t. P (pc t)}"

lemma at_upd: "at P (pc(t := x)) = (if P x then insert t (at P pc) else at P pc - {t})"
  by (auto simp: at_def)

lemma at_iff [simp]: "t \<in> at P pc \<longleftrightarrow> P (pc t)"
  by (simp add: at_def)

lemma at_diff [simp]: "\<not> P (pc t) \<Longrightarrow> at P pc - {t} = at P pc"
  by auto

section \<open>Semaphores\<close>

record Semaphore =
  svalue :: int
  squeue :: "thread list"

definition Semaphore_new :: "int \<Rightarrow> Semaphore" where
  "Semaphore_new initialValue = \<lparr>svalue = initialValue, squeue = []\<rparr>"

text \<open>
  One evaluation of the loop of \<^verbatim>\<open>P\<close> by a thread: it either appends itself to the queue
  and sleeps (\<open>False\<close>; on waking it evaluates the loop again) or consumes the value.
\<close>

definition Semaphore_P :: "thread \<Rightarrow> Semaphore \<Rightarrow> bool \<times> Semaphore" where
  "Semaphore_P t s =
     (if svalue s = 0 then (False, s\<lparr>squeue := squeue s @ [t]\<rparr>)
      else (True, s\<lparr>svalue := svalue s - 1\<rparr>))"

text \<open>\<^verbatim>\<open>V\<close>: the thread made ready, if any.\<close>

definition Semaphore_V :: "Semaphore \<Rightarrow> thread option \<times> Semaphore" where
  "Semaphore_V s =
     (case squeue s of
        [] \<Rightarrow> (None, s\<lparr>svalue := svalue s + 1\<rparr>)
      | t # q \<Rightarrow> (Some t, s\<lparr>squeue := q, svalue := svalue s + 1\<rparr>))"

datatype sem_pc = Out | Trying | Sleeping | Woken

text \<open>
  A semaphore with its users: \<open>done_P\<close> and \<open>done_V\<close> count the completed calls. \<^verbatim>\<open>V\<close> may come from
  any thread and from interrupt handlers.
\<close>

record sem_conf =
  sem :: Semaphore
  spc :: "thread \<Rightarrow> sem_pc"
  done_P :: nat
  done_V :: nat

definition wake :: "('p \<Rightarrow> 'p) \<Rightarrow> thread option \<Rightarrow> (thread \<Rightarrow> 'p) \<Rightarrow> (thread \<Rightarrow> 'p)" where
  "wake w r pc = (case r of None \<Rightarrow> pc | Some t \<Rightarrow> pc(t := w (pc t)))"

inductive sem_step :: "sem_conf \<Rightarrow> sem_conf \<Rightarrow> bool" where
  call_P: "spc c t = Out \<Longrightarrow> sem_step c (c\<lparr>spc := (spc c)(t := Trying)\<rparr>)"
| P_go: "spc c t \<in> {Trying, Woken} \<Longrightarrow> Semaphore_P t (sem c) = (True, s) \<Longrightarrow>
     sem_step c (c\<lparr>sem := s, spc := (spc c)(t := Out), done_P := done_P c + 1\<rparr>)"
| P_sleep: "spc c t \<in> {Trying, Woken} \<Longrightarrow> Semaphore_P t (sem c) = (False, s) \<Longrightarrow>
     sem_step c (c\<lparr>sem := s, spc := (spc c)(t := Sleeping)\<rparr>)"
| V: "Semaphore_V (sem c) = (r, s) \<Longrightarrow>
     sem_step c (c\<lparr>sem := s, spc := wake (\<lambda>_. Woken) r (spc c), done_V := done_V c + 1\<rparr>)"

definition sem_init :: "int \<Rightarrow> sem_conf" where
  "sem_init n = \<lparr>sem = Semaphore_new n, spc = (\<lambda>_. Out), done_P = 0, done_V = 0\<rparr>"

definition sem_inv :: "int \<Rightarrow> sem_conf \<Rightarrow> bool" where
  "sem_inv n c \<longleftrightarrow> 0 \<le> svalue (sem c) \<and> distinct (squeue (sem c))
     \<and> set (squeue (sem c)) = {t. spc c t = Sleeping}
     \<and> fin_pc Out (spc c)
     \<and> svalue (sem c) + int (done_P c) = n + int (done_V c)
     \<and> (squeue (sem c) \<noteq> [] \<longrightarrow> svalue (sem c) \<le> int (cnt (\<lambda>p. p = Woken) (spc c)))"

lemma woken_upd:
  "fin_pc Out pc \<Longrightarrow> cnt (\<lambda>p. p = Woken) (pc(t := x)) + (if pc t = Woken then 1 else 0)
     = cnt (\<lambda>p. p = Woken) pc + (if x = Woken then 1 else 0)"
  using cnt_upd [of Out pc "\<lambda>p. p = Woken" t x] by simp

lemma sem_inv_step:
  assumes "sem_step c c'" "sem_inv n c"
  shows "sem_inv n c'"
  using assms
proof (induction rule: sem_step.induct)
  case (call_P c t)
  then show ?case using woken_upd [of "spc c" t Trying] by (auto simp: sem_inv_def)
next
  case (P_go c t s)
  then have "0 < svalue (sem c)" "s = (sem c)\<lparr>svalue := svalue (sem c) - 1\<rparr>"
    by (auto simp: Semaphore_P_def sem_inv_def split: if_splits)
  then show ?case using P_go woken_upd [of "spc c" t Out] by (auto simp: sem_inv_def split: if_splits)
next
  case (P_sleep c t s)
  then have "svalue (sem c) = 0" "s = (sem c)\<lparr>squeue := squeue (sem c) @ [t]\<rparr>"
    by (auto simp: Semaphore_P_def split: if_splits)
  then show ?case using P_sleep by (auto simp: sem_inv_def)
next
  case (V c r s)
  show ?case
  proof (cases "squeue (sem c)")
    case Nil
    then show ?thesis using V by (auto simp: sem_inv_def Semaphore_V_def wake_def)
  next
    case (Cons h q)
    then have r: "r = Some h" "s = (sem c)\<lparr>squeue := q, svalue := svalue (sem c) + 1\<rparr>"
      using V by (auto simp: Semaphore_V_def)
    have h: "spc c h = Sleeping" using V.prems Cons by (auto simp: sem_inv_def)
    have q: "set q = {t. spc c t = Sleeping} - {h}" "distinct q"
      using V.prems Cons by (auto simp: sem_inv_def)
    then show ?thesis using V r h woken_upd [of "spc c" h Woken] Cons
      by (auto simp: sem_inv_def wake_def)
  qed
qed

lemma sem_inv_reachable:
  assumes "sem_step\<^sup>*\<^sup>* (sem_init n) c" "0 \<le> n"
  shows "sem_inv n c"
  using assms
proof (induction rule: rtranclp_induct)
  case base
  then show ?case by (simp add: sem_init_def sem_inv_def Semaphore_new_def)
next
  case (step y z)
  then show ?case using sem_inv_step by blast
qed

section \<open>Locks\<close>

record Lock =
  ownerID :: int
  lock :: Semaphore
  innerLock :: Semaphore

definition Lock_new :: Lock where
  "Lock_new = \<lparr>ownerID = -1, lock = Semaphore_new 1, innerLock = Semaphore_new 1\<rparr>"

text \<open>
  Program points: \<open>A1\<close> before \<^verbatim>\<open>lock->P()\<close> of \<^verbatim>\<open>Acquire\<close>, \<open>A1s\<close> asleep in it and \<open>A1w\<close> woken,
  \<open>A2\<close> likewise for \<^verbatim>\<open>innerLock->P()\<close>, \<open>A3\<close> the test of \<^verbatim>\<open>ownerID\<close>, \<open>AE\<close> its else branch, \<open>A4\<close> before
  \<^verbatim>\<open>innerLock->V()\<close>; \<open>R1\<close> to \<open>R4\<close> likewise for \<^verbatim>\<open>Release\<close>, with \<open>R3\<close> before \<^verbatim>\<open>lock->V()\<close>.
\<close>

datatype lock_pc = Idle | A1 | A1s | A1w | A2 | A2s | A2w | A3 | AE | A4
  | R1 | R1s | R1w | R2 | R3 | R4

fun woken_pc :: "lock_pc \<Rightarrow> lock_pc" where
  "woken_pc A1s = A1w"
| "woken_pc A2s = A2w"
| "woken_pc R1s = R1w"
| "woken_pc p = p"

text \<open>\<open>inside\<close> is the set of threads that returned from \<^verbatim>\<open>Acquire\<close> and did not call \<^verbatim>\<open>Release\<close> since.\<close>

record lock_conf =
  lk :: Lock
  lpc :: "thread \<Rightarrow> lock_pc"
  inside :: "thread set"

definition lock_init :: lock_conf where
  "lock_init = \<lparr>lk = Lock_new, lpc = (\<lambda>_. Idle), inside = {}\<rparr>"

text \<open>The steps of \<^verbatim>\<open>Acquire\<close> and \<^verbatim>\<open>Release\<close>; \<open>tid t\<close> is what \<^verbatim>\<open>getTid()\<close> returns for thread \<open>t\<close>.\<close>

inductive lock_step :: "(thread \<Rightarrow> int) \<Rightarrow> lock_conf \<Rightarrow> lock_conf \<Rightarrow> bool" for tid where
  call_Acquire: "lpc c t = Idle \<Longrightarrow> lock_step tid c (c\<lparr>lpc := (lpc c)(t := A1)\<rparr>)"
| A1_go: "lpc c t \<in> {A1, A1w} \<Longrightarrow> Semaphore_P t (lock (lk c)) = (True, s) \<Longrightarrow>
     lock_step tid c (c\<lparr>lk := (lk c)\<lparr>lock := s\<rparr>, lpc := (lpc c)(t := A2)\<rparr>)"
| A1_sleep: "lpc c t \<in> {A1, A1w} \<Longrightarrow> Semaphore_P t (lock (lk c)) = (False, s) \<Longrightarrow>
     lock_step tid c (c\<lparr>lk := (lk c)\<lparr>lock := s\<rparr>, lpc := (lpc c)(t := A1s)\<rparr>)"
| A2_go: "lpc c t \<in> {A2, A2w} \<Longrightarrow> Semaphore_P t (innerLock (lk c)) = (True, s) \<Longrightarrow>
     lock_step tid c (c\<lparr>lk := (lk c)\<lparr>innerLock := s\<rparr>, lpc := (lpc c)(t := A3)\<rparr>)"
| A2_sleep: "lpc c t \<in> {A2, A2w} \<Longrightarrow> Semaphore_P t (innerLock (lk c)) = (False, s) \<Longrightarrow>
     lock_step tid c (c\<lparr>lk := (lk c)\<lparr>innerLock := s\<rparr>, lpc := (lpc c)(t := A2s)\<rparr>)"
| A3_own: "lpc c t = A3 \<Longrightarrow> ownerID (lk c) = -1 \<Longrightarrow>
     lock_step tid c (c\<lparr>lk := (lk c)\<lparr>ownerID := tid t\<rparr>, lpc := (lpc c)(t := A4)\<rparr>)"
| A3_else: "lpc c t = A3 \<Longrightarrow> ownerID (lk c) \<noteq> -1 \<Longrightarrow>
     lock_step tid c (c\<lparr>lpc := (lpc c)(t := AE)\<rparr>)"
| AE: "lpc c t = AE \<Longrightarrow> Semaphore_V (lock (lk c)) = (r, s) \<Longrightarrow>
     lock_step tid c (c\<lparr>lk := (lk c)\<lparr>lock := s\<rparr>, lpc := (wake woken_pc r (lpc c))(t := A4)\<rparr>)"
| A4: "lpc c t = A4 \<Longrightarrow> Semaphore_V (innerLock (lk c)) = (r, s) \<Longrightarrow>
     lock_step tid c (c\<lparr>lk := (lk c)\<lparr>innerLock := s\<rparr>, lpc := (wake woken_pc r (lpc c))(t := Idle),
       inside := insert t (inside c)\<rparr>)"
| call_Release: "lpc c t = Idle \<Longrightarrow> lock_step tid c (c\<lparr>lpc := (lpc c)(t := R1), inside := inside c - {t}\<rparr>)"
| R1_go: "lpc c t \<in> {R1, R1w} \<Longrightarrow> Semaphore_P t (innerLock (lk c)) = (True, s) \<Longrightarrow>
     lock_step tid c (c\<lparr>lk := (lk c)\<lparr>innerLock := s\<rparr>, lpc := (lpc c)(t := R2)\<rparr>)"
| R1_sleep: "lpc c t \<in> {R1, R1w} \<Longrightarrow> Semaphore_P t (innerLock (lk c)) = (False, s) \<Longrightarrow>
     lock_step tid c (c\<lparr>lk := (lk c)\<lparr>innerLock := s\<rparr>, lpc := (lpc c)(t := R1s)\<rparr>)"
| R2_own: "lpc c t = R2 \<Longrightarrow> ownerID (lk c) = tid t \<Longrightarrow>
     lock_step tid c (c\<lparr>lk := (lk c)\<lparr>ownerID := -1\<rparr>, lpc := (lpc c)(t := R3)\<rparr>)"
| R2_skip: "lpc c t = R2 \<Longrightarrow> ownerID (lk c) \<noteq> tid t \<Longrightarrow>
     lock_step tid c (c\<lparr>lpc := (lpc c)(t := R4)\<rparr>)"
| R3: "lpc c t = R3 \<Longrightarrow> Semaphore_V (lock (lk c)) = (r, s) \<Longrightarrow>
     lock_step tid c (c\<lparr>lk := (lk c)\<lparr>lock := s\<rparr>, lpc := (wake woken_pc r (lpc c))(t := R4)\<rparr>)"
| R4: "lpc c t = R4 \<Longrightarrow> Semaphore_V (innerLock (lk c)) = (r, s) \<Longrightarrow>
     lock_step tid c (c\<lparr>lk := (lk c)\<lparr>innerLock := s\<rparr>, lpc := (wake woken_pc r (lpc c))(t := Idle)\<rparr>)"

text \<open>Points at which a thread carries the unit of \<^verbatim>\<open>lock\<close>, or that of \<^verbatim>\<open>innerLock\<close>.\<close>

fun tok :: "lock_pc \<Rightarrow> bool" where
  "tok A2 = True" | "tok A2s = True" | "tok A2w = True" | "tok A3 = True" | "tok AE = True" | "tok R3 = True"
| "tok _ = False"

fun crit :: "lock_pc \<Rightarrow> bool" where
  "crit A3 = True" | "crit AE = True" | "crit A4 = True" | "crit R2 = True" | "crit R3 = True" | "crit R4 = True"
| "crit _ = False"

fun wl :: "lock_pc \<Rightarrow> bool" where
  "wl A1w = True" | "wl _ = False"

fun wi :: "lock_pc \<Rightarrow> bool" where
  "wi A2w = True" | "wi R1w = True" | "wi _ = False"

fun sl :: "lock_pc \<Rightarrow> bool" where
  "sl A1s = True" | "sl _ = False"

fun si :: "lock_pc \<Rightarrow> bool" where
  "si A2s = True" | "si R1s = True" | "si _ = False"

fun releasing :: "lock_pc \<Rightarrow> bool" where
  "releasing R1 = True" | "releasing R1s = True" | "releasing R1w = True" | "releasing R2 = True"
| "releasing R3 = True" | "releasing R4 = True" | "releasing _ = False"

text \<open>A semaphore whose sleepers are the threads at \<open>Z\<close> and whose woken ones are counted by \<open>w\<close>.\<close>

definition sem_ok :: "Semaphore \<Rightarrow> thread set \<Rightarrow> int \<Rightarrow> bool" where
  "sem_ok s Z w \<longleftrightarrow> 0 \<le> svalue s \<and> distinct (squeue s) \<and> set (squeue s) = Z
     \<and> (squeue s \<noteq> [] \<longrightarrow> svalue s \<le> w)"

definition owner_ok :: "(thread \<Rightarrow> int) \<Rightarrow> int \<Rightarrow> (thread \<Rightarrow> lock_pc) \<Rightarrow> thread set \<Rightarrow> bool" where
  "owner_ok tid ow pc ins \<longleftrightarrow> (\<forall>t. pc t = A4 \<or> t \<in> ins \<longrightarrow> ow = tid t) \<and> (\<forall>t\<in>ins. \<not> releasing (pc t))"

definition lock_inv :: "(thread \<Rightarrow> int) \<Rightarrow> lock_conf \<Rightarrow> bool" where
  "lock_inv tid c \<longleftrightarrow> fin_pc Idle (lpc c)
     \<and> sem_ok (lock (lk c)) (at sl (lpc c)) (int (cnt wl (lpc c)))
     \<and> sem_ok (innerLock (lk c)) (at si (lpc c)) (int (cnt wi (lpc c)))
     \<and> svalue (lock (lk c)) + int (cnt tok (lpc c)) + (if ownerID (lk c) = -1 then 0 else 1) = 1
     \<and> svalue (innerLock (lk c)) + int (cnt crit (lpc c)) = 1
     \<and> (\<forall>t. lpc c t \<noteq> AE)
     \<and> owner_ok tid (ownerID (lk c)) (lpc c) (inside c)"

lemma sem_ok_P_go:
  "sem_ok s Z w \<Longrightarrow> Semaphore_P t s = (True, s') \<Longrightarrow> w - 1 \<le> w' \<Longrightarrow> sem_ok s' Z w' \<and> svalue s' = svalue s - 1"
  by (auto simp: sem_ok_def Semaphore_P_def split: if_splits)

lemma sem_ok_P_sleep:
  "sem_ok s Z w \<Longrightarrow> Semaphore_P t s = (False, s') \<Longrightarrow> t \<notin> Z \<Longrightarrow> 0 \<le> w' \<Longrightarrow>
     sem_ok s' (insert t Z) w' \<and> svalue s' = svalue s"
  by (auto simp: sem_ok_def Semaphore_P_def split: if_splits)

lemma sem_ok_V:
  assumes "sem_ok s Z w" "Semaphore_V s = (r, s')"
  shows "svalue s' = svalue s + 1"
    and "r = None \<Longrightarrow> sem_ok s' Z w' \<and> Z = {}"
    and "r = Some h \<Longrightarrow> h \<in> Z \<and> (w + 1 \<le> w' \<longrightarrow> sem_ok s' (Z - {h}) w')"
  using assms by (auto simp: sem_ok_def Semaphore_V_def split: list.splits)

text \<open>
  The effect of a \<^verbatim>\<open>V\<close> on the threads, for a semaphore whose sleepers are at the points \<open>z\<close>, which
  \<open>f\<close> turns into the woken points \<open>w\<close>.
\<close>

lemma V_generic:
  assumes "fin_pc idle pc" "sem_ok s (at z pc) (int (cnt w pc))" "Semaphore_V s = (r, s')"
    and "\<And>p. z p \<Longrightarrow> w (f p) \<and> \<not> z (f p) \<and> \<not> w p" "\<not> w idle"
  shows "fin_pc idle (wake f r pc) \<and> svalue s' = svalue s + 1
    \<and> sem_ok s' (at z (wake f r pc)) (int (cnt w (wake f r pc)))"
proof (cases r)
  case None
  then show ?thesis
    using assms(1) sem_ok_V(1) [OF assms(2,3)] sem_ok_V(2) [OF assms(2,3) None, of "int (cnt w pc)", THEN conjunct1]
    by (simp add: wake_def)
next
  case (Some h)
  have h: "z (pc h)" using sem_ok_V(3) [OF assms(2,3) Some] by simp
  have "int (cnt w (pc(h := f (pc h)))) = int (cnt w pc) + 1"
    using cnt_upd_int [of idle pc w h "f (pc h)"] assms(1,5) assms(4) [OF h] by simp
  then have "sem_ok s' (at z pc - {h}) (int (cnt w (pc(h := f (pc h)))))"
    using sem_ok_V(3) [OF assms(2,3) Some] by simp
  then show ?thesis using assms(1) assms(4) [OF h] sem_ok_V(1) [OF assms(2,3)] Some
    by (simp add: wake_def at_upd)
qed

lemma V_woken: "sem_ok s (at z pc) w \<Longrightarrow> Semaphore_V s = (Some h, s') \<Longrightarrow> z (pc h)"
  using sem_ok_V(3) [of s "at z pc" w "Some h" s' h] by simp

lemma V_others:
  assumes "sem_ok s (at z pc) w" "Semaphore_V s = (r, s')" "\<not> z (pc t)"
  shows "wake f r pc t = pc t"
  using assms V_woken [OF assms(1)] by (auto simp: wake_def split: option.splits)

lemma V_keeps:
  assumes "sem_ok s (at z pc) w" "Semaphore_V s = (r, s')" "\<And>p. z p \<Longrightarrow> Q (f p) = Q p"
  shows "at Q (wake f r pc) = at Q pc" "cnt Q (wake f r pc) = cnt Q pc" "Q (wake f r pc t) = Q (pc t)"
proof -
  have k: "Q (wake f r pc t) = Q (pc t)" for t
    using assms V_woken [OF assms(1)] by (auto simp: wake_def split: option.splits)
  then show "at Q (wake f r pc) = at Q pc" "cnt Q (wake f r pc) = cnt Q pc" "Q (wake f r pc t) = Q (pc t)"
    by (simp_all add: at_def cnt_def)
qed

lemmas lock_cnt = cnt_upd_int [where idle = Idle]

lemma woken_pc_props:
  "sl p \<Longrightarrow> woken_pc p = A1w"
  "si p \<Longrightarrow> wi (woken_pc p) \<and> \<not> si (woken_pc p) \<and> tok (woken_pc p) = tok p \<and> \<not> crit (woken_pc p) \<and> \<not> crit p
     \<and> \<not> sl (woken_pc p) \<and> \<not> sl p \<and> \<not> wl p \<and> \<not> wl (woken_pc p) \<and> \<not> wi p
     \<and> woken_pc p \<noteq> AE \<and> woken_pc p \<noteq> A4 \<and> releasing (woken_pc p) = releasing p"
  by (cases p; simp)+

lemma sl_iff: "sl p \<longleftrightarrow> p = A1s"
  by (cases p) simp_all

text \<open>The effect of a \<^verbatim>\<open>V\<close> on either semaphore, before the caller moves on.\<close>

lemma V_lock:
  assumes inv: "fin_pc Idle pc" "sem_ok s (at sl pc) (int (cnt wl pc))" and V: "Semaphore_V s = (r, s')"
  shows "fin_pc Idle (wake woken_pc r pc) \<and> svalue s' = svalue s + 1
    \<and> sem_ok s' (at sl (wake woken_pc r pc)) (int (cnt wl (wake woken_pc r pc)))
    \<and> at si (wake woken_pc r pc) = at si pc \<and> cnt wi (wake woken_pc r pc) = cnt wi pc
    \<and> cnt tok (wake woken_pc r pc) = cnt tok pc \<and> cnt crit (wake woken_pc r pc) = cnt crit pc
    \<and> (\<forall>t. \<not> sl (pc t) \<longrightarrow> wake woken_pc r pc t = pc t) \<and> (\<forall>t. sl (pc t) \<longrightarrow> wake woken_pc r pc t \<in> {A1s, A1w})
    \<and> (\<forall>t. releasing (wake woken_pc r pc t) = releasing (pc t))"
proof -
  have "at si (wake woken_pc r pc) = at si pc" "cnt wi (wake woken_pc r pc) = cnt wi pc"
    "cnt tok (wake woken_pc r pc) = cnt tok pc" "cnt crit (wake woken_pc r pc) = cnt crit pc"
    "\<forall>t. releasing (wake woken_pc r pc t) = releasing (pc t)"
    using V_keeps(1) [OF inv(2) V, of si woken_pc] V_keeps(2) [OF inv(2) V, of wi woken_pc]
      V_keeps(2) [OF inv(2) V, of tok woken_pc] V_keeps(2) [OF inv(2) V, of crit woken_pc]
      V_keeps(3) [OF inv(2) V, of releasing woken_pc]
    by (simp_all add: sl_iff)
  then show ?thesis
    using V_generic [OF inv V, of woken_pc] V_others [OF inv(2) V, of _ woken_pc]
    by (auto simp: sl_iff wake_def split: option.splits)
qed

lemma V_inner:
  assumes inv: "fin_pc Idle pc" "sem_ok s (at si pc) (int (cnt wi pc))" and V: "Semaphore_V s = (r, s')"
  shows "fin_pc Idle (wake woken_pc r pc) \<and> svalue s' = svalue s + 1
    \<and> sem_ok s' (at si (wake woken_pc r pc)) (int (cnt wi (wake woken_pc r pc)))
    \<and> at sl (wake woken_pc r pc) = at sl pc \<and> cnt wl (wake woken_pc r pc) = cnt wl pc
    \<and> cnt tok (wake woken_pc r pc) = cnt tok pc \<and> cnt crit (wake woken_pc r pc) = cnt crit pc
    \<and> (\<forall>t. \<not> si (pc t) \<longrightarrow> wake woken_pc r pc t = pc t) \<and> (\<forall>t. si (pc t) \<longrightarrow> wake woken_pc r pc t \<notin> {AE, A4})
    \<and> (\<forall>t. releasing (wake woken_pc r pc t) = releasing (pc t))"
proof -
  have "at sl (wake woken_pc r pc) = at sl pc" "cnt wl (wake woken_pc r pc) = cnt wl pc"
    "cnt tok (wake woken_pc r pc) = cnt tok pc" "cnt crit (wake woken_pc r pc) = cnt crit pc"
    "\<forall>t. releasing (wake woken_pc r pc t) = releasing (pc t)"
    using V_keeps(1) [OF inv(2) V, of sl woken_pc] V_keeps(2) [OF inv(2) V, of wl woken_pc]
      V_keeps(2) [OF inv(2) V, of tok woken_pc] V_keeps(2) [OF inv(2) V, of crit woken_pc]
      V_keeps(3) [OF inv(2) V, of releasing woken_pc]
    by (simp_all add: woken_pc_props(2))
  moreover have "p \<noteq> AE \<and> p \<noteq> A4" if "si p" for p using that by auto
  ultimately show ?thesis
    using V_generic [OF inv V, of woken_pc] V_others [OF inv(2) V, of _ woken_pc] woken_pc_props(2)
    by (auto simp: wake_def split: option.splits)
qed

lemma lock_pc_cases:
  "p \<in> {A1, A1w} \<Longrightarrow> \<not> sl p \<and> \<not> si p \<and> \<not> tok p \<and> \<not> crit p \<and> \<not> wi p \<and> \<not> releasing p"
  "p \<in> {A2, A2w} \<Longrightarrow> \<not> sl p \<and> \<not> si p \<and> tok p \<and> \<not> crit p \<and> \<not> wl p \<and> \<not> releasing p"
  "p \<in> {R1, R1w} \<Longrightarrow> \<not> sl p \<and> \<not> si p \<and> \<not> tok p \<and> \<not> crit p \<and> \<not> wl p \<and> releasing p"
  by auto

lemma owner_ok_move:
  "owner_ok tid ow pc ins \<Longrightarrow> (\<And>u. pc' u = A4 \<Longrightarrow> pc u = A4) \<Longrightarrow> (\<And>u. releasing (pc' u) \<Longrightarrow> releasing (pc u)) \<Longrightarrow>
     owner_ok tid ow pc' ins"
  unfolding owner_ok_def by blast

lemma lock_inv_step:
  assumes "lock_step tid c c'" "lock_inv tid c" "inj tid" "\<forall>t. tid t \<noteq> -1"
  shows "lock_inv tid c'"
  using assms
proof (induction rule: lock_step.induct)
  case (call_Acquire c t)
  then show ?case by (auto simp: lock_inv_def owner_ok_def at_upd lock_cnt)
next
  case (A1_go c t s)
  then show ?case
    using lock_pc_cases(1) [OF A1_go(1)]
      sem_ok_P_go [OF _ A1_go(2), of "at sl (lpc c)" "int (cnt wl (lpc c))" "int (cnt wl ((lpc c)(t := A2)))"]
    by (auto simp: lock_inv_def owner_ok_def at_upd lock_cnt)
next
  case (A1_sleep c t s)
  then show ?case
    using lock_pc_cases(1) [OF A1_sleep(1)]
      sem_ok_P_sleep [OF _ A1_sleep(2) _ of_nat_0_le_iff, of "at sl (lpc c)" "int (cnt wl (lpc c))" "cnt wl ((lpc c)(t := A1s))"]
    by (auto simp: lock_inv_def owner_ok_def at_upd lock_cnt)
next
  case (A2_go c t s)
  then show ?case
    using lock_pc_cases(2) [OF A2_go(1)]
      sem_ok_P_go [OF _ A2_go(2), of "at si (lpc c)" "int (cnt wi (lpc c))" "int (cnt wi ((lpc c)(t := A3)))"]
    by (auto simp: lock_inv_def owner_ok_def at_upd lock_cnt)
next
  case (A2_sleep c t s)
  then show ?case
    using lock_pc_cases(2) [OF A2_sleep(1)]
      sem_ok_P_sleep [OF _ A2_sleep(2) _ of_nat_0_le_iff, of "at si (lpc c)" "int (cnt wi (lpc c))" "cnt wi ((lpc c)(t := A2s))"]
    by (auto simp: lock_inv_def owner_ok_def at_upd lock_cnt)
next
  case (A3_own c t)
  then show ?case by (auto simp: lock_inv_def owner_ok_def at_upd lock_cnt)
next
  case (A3_else c t)
  then have "0 < cnt tok (lpc c)" by (intro cnt_member [of Idle _ _ t]) (auto simp: lock_inv_def owner_ok_def)
  with A3_else show ?case by (auto simp: lock_inv_def owner_ok_def sem_ok_def)
next
  case (AE c t r s)
  then show ?case by (simp add: lock_inv_def)
next
  case (A4 c t r s)
  have i: "fin_pc Idle (lpc c)" "sem_ok (innerLock (lk c)) (at si (lpc c)) (int (cnt wi (lpc c)))"
    using A4 by (simp_all add: lock_inv_def)
  note v = V_inner [OF i A4(2)]
  have "wake woken_pc r (lpc c) t = A4" using v A4(1) by auto
  moreover have "wake woken_pc r (lpc c) u = A4 \<Longrightarrow> lpc c u = A4" "wake woken_pc r (lpc c) u \<noteq> AE" for u
    using v A4.prems(1) by (cases "si (lpc c u)"; auto simp: lock_inv_def)+
  ultimately have e: "wake woken_pc r (lpc c) t = A4"
      "\<forall>u. u \<noteq> t \<longrightarrow> wake woken_pc r (lpc c) u = A4 \<longrightarrow> lpc c u = A4" "\<forall>u. wake woken_pc r (lpc c) u \<noteq> AE"
    by simp_all
  have "owner_ok tid (ownerID (lk c)) ((wake woken_pc r (lpc c))(t := Idle)) (insert t (inside c))"
    using A4(1) A4.prems(1) e v unfolding lock_inv_def owner_ok_def by (metis fun_upd_apply insert_iff lock_pc.distinct(17) releasing.simps(7))
  then show ?case using v A4(1) A4.prems(1) e(1,3) unfolding lock_inv_def
    by (simp add: at_upd lock_cnt)
next
  case (call_Release c t)
  then show ?case by (auto simp: lock_inv_def owner_ok_def at_upd lock_cnt)
next
  case (R1_go c t s)
  then show ?case
    using lock_pc_cases(3) [OF R1_go(1)]
      sem_ok_P_go [OF _ R1_go(2), of "at si (lpc c)" "int (cnt wi (lpc c))" "int (cnt wi ((lpc c)(t := R2)))"]
    by (auto simp: lock_inv_def owner_ok_def at_upd lock_cnt)
next
  case (R1_sleep c t s)
  then show ?case
    using lock_pc_cases(3) [OF R1_sleep(1)]
      sem_ok_P_sleep [OF _ R1_sleep(2) _ of_nat_0_le_iff, of "at si (lpc c)" "int (cnt wi (lpc c))" "cnt wi ((lpc c)(t := R1s))"]
    by (auto simp: lock_inv_def owner_ok_def at_upd lock_cnt)
next
  case (R2_own c t)
  have o: "owner_ok tid (ownerID (lk c)) (lpc c) (inside c)" using R2_own.prems(1) by (simp add: lock_inv_def)
  have "t \<notin> inside c" using o R2_own(1) unfolding owner_ok_def by (metis releasing.simps(4))
  moreover have "u = t" if "lpc c u = A4 \<or> u \<in> inside c" for u
  proof -
    have "tid u = tid t" using o that R2_own(2) unfolding owner_ok_def by metis
    then show ?thesis using R2_own.prems(2) by (simp add: inj_eq)
  qed
  ultimately have "owner_ok tid (-1) ((lpc c)(t := R3)) (inside c)" using R2_own(1) unfolding owner_ok_def by auto
  moreover have "ownerID (lk c) \<noteq> -1" using R2_own by metis
  ultimately show ?case using R2_own(1) R2_own.prems(1) by (simp add: lock_inv_def at_upd lock_cnt)
next
  case (R2_skip c t)
  then show ?case by (auto simp: lock_inv_def owner_ok_def at_upd lock_cnt)
next
  case (R3 c t r s)
  have i: "fin_pc Idle (lpc c)" "sem_ok (lock (lk c)) (at sl (lpc c)) (int (cnt wl (lpc c)))"
    using R3 by (simp_all add: lock_inv_def)
  note v = V_lock [OF i R3(2)]
  have "wake woken_pc r (lpc c) t = R3" using v R3(1) by auto
  moreover have "wake woken_pc r (lpc c) u = A4 \<Longrightarrow> lpc c u = A4" "wake woken_pc r (lpc c) u \<noteq> AE" for u
    using v R3.prems(1) by (cases "sl (lpc c u)"; auto simp: lock_inv_def)+
  ultimately have e: "wake woken_pc r (lpc c) t = R3"
      "\<And>u. wake woken_pc r (lpc c) u = A4 \<Longrightarrow> lpc c u = A4" "\<forall>u. wake woken_pc r (lpc c) u \<noteq> AE"
    by simp_all
  have "owner_ok tid (ownerID (lk c)) ((wake woken_pc r (lpc c))(t := R4)) (inside c)"
  proof (rule owner_ok_move)
    show "owner_ok tid (ownerID (lk c)) (lpc c) (inside c)" using R3.prems(1) by (simp add: lock_inv_def)
    have "\<And>u. releasing (wake woken_pc r (lpc c) u) = releasing (lpc c u)" using v by blast
    then show "releasing (((wake woken_pc r (lpc c))(t := R4)) u) \<Longrightarrow> releasing (lpc c u)" for u
      using R3(1) by (simp split: if_splits)
    show "((wake woken_pc r (lpc c))(t := R4)) u = A4 \<Longrightarrow> lpc c u = A4" for u
      using e(2) [of u] by (simp split: if_splits)
  qed
  then show ?case using v R3(1) R3.prems(1) e(1,3) by (simp add: lock_inv_def at_upd lock_cnt)
next
  case (R4 c t r s)
  have i: "fin_pc Idle (lpc c)" "sem_ok (innerLock (lk c)) (at si (lpc c)) (int (cnt wi (lpc c)))"
    using R4 by (simp_all add: lock_inv_def)
  note v = V_inner [OF i R4(2)]
  have "wake woken_pc r (lpc c) t = R4" using v R4(1) by auto
  moreover have "wake woken_pc r (lpc c) u = A4 \<Longrightarrow> lpc c u = A4" "wake woken_pc r (lpc c) u \<noteq> AE" for u
    using v R4.prems(1) by (cases "si (lpc c u)"; auto simp: lock_inv_def)+
  ultimately have e: "wake woken_pc r (lpc c) t = R4"
      "\<And>u. wake woken_pc r (lpc c) u = A4 \<Longrightarrow> lpc c u = A4" "\<forall>u. wake woken_pc r (lpc c) u \<noteq> AE"
    by simp_all
  have "owner_ok tid (ownerID (lk c)) ((wake woken_pc r (lpc c))(t := Idle)) (inside c)"
  proof (rule owner_ok_move)
    show "owner_ok tid (ownerID (lk c)) (lpc c) (inside c)" using R4.prems(1) by (simp add: lock_inv_def)
    have "\<And>u. releasing (wake woken_pc r (lpc c) u) = releasing (lpc c u)" using v by blast
    then show "releasing (((wake woken_pc r (lpc c))(t := Idle)) u) \<Longrightarrow> releasing (lpc c u)" for u
      using R4(1) by (simp split: if_splits)
    show "((wake woken_pc r (lpc c))(t := Idle)) u = A4 \<Longrightarrow> lpc c u = A4" for u
      using e(2) [of u] by (simp split: if_splits)
  qed
  then show ?case using v R4(1) R4.prems(1) e(1,3) by (simp add: lock_inv_def at_upd lock_cnt)
qed

lemma lock_inv_reachable:
  assumes "(lock_step tid)\<^sup>*\<^sup>* lock_init c" "inj tid" "\<forall>t. tid t \<noteq> -1"
  shows "lock_inv tid c"
  using assms
proof (induction rule: rtranclp_induct)
  case base
  then show ?case
    by (simp add: lock_init_def lock_inv_def owner_ok_def Lock_new_def Semaphore_new_def sem_ok_def at_def)
next
  case (step y z)
  then show ?case using lock_inv_step by blast
qed

section \<open>Properties\<close>




lemma lock_two_steps: "(lock_step tid)\<^sup>*\<^sup>* lock_init (lock_init\<lparr>lpc := (lpc lock_init)(5 := A1)\<rparr>)"
  by (rule r_into_rtranclp) (rule lock_step.call_Acquire, simp add: lock_init_def)




end
