(* ===== verification/CondVar.thy ===== *)
theory CondVar
  imports Synch
begin

text \<open>
  \<^verbatim>\<open>Condition\<close> of \<^verbatim>\<open>threads/synch.cc\<close>: a condition variable built from a semaphore the waiters sleep
  on and a counter of sleepers. The condition lock's own \<^verbatim>\<open>Release\<close> and \<^verbatim>\<open>Acquire\<close>, which \<^verbatim>\<open>Wait\<close>
  calls, do not touch the condition's fields: while a thread is in them it is at the points
  \<open>W3\<close> and \<open>W6\<close>.
\<close>

section \<open>State and steps\<close>

record Condition =
  totalSleepers :: int
  sleepLock :: Semaphore
  condInner :: Semaphore

definition Condition_new :: Condition where
  "Condition_new = \<lparr>totalSleepers = 0, sleepLock = Semaphore_new 0, condInner = Semaphore_new 1\<rparr>"

datatype cond_pc = CIdle
  | W1 | W1s | W1w | W2 | W3 | W4 | W5 | W5s | W5w | W6
  | S1 | S1s | S1w | S2 | S3 | S3d | S4
  | B1 | B1s | B1w | B2 | B3 | B3d | B4

fun woken_cond :: "cond_pc \<Rightarrow> cond_pc" where
  "woken_cond W1s = W1w"
| "woken_cond W5s = W5w"
| "woken_cond S1s = S1w"
| "woken_cond B1s = B1w"
| "woken_cond p = p"

record cond_conf =
  cv :: Condition
  cpc :: "thread \<Rightarrow> cond_pc"

definition cond_init :: cond_conf where
  "cond_init = \<lparr>cv = Condition_new, cpc = (\<lambda>_. CIdle)\<rparr>"

text \<open>
  Points of entry to the three methods, with what follows the initial \<^verbatim>\<open>innerLock->P()\<close>, and of their
  common end, with what precedes it: used to state the steps on \<^verbatim>\<open>innerLock\<close> once.
\<close>

inductive cond_step :: "cond_conf \<Rightarrow> cond_conf \<Rightarrow> bool" where
  call: "cpc c t = CIdle \<Longrightarrow> p \<in> {W1, S1, B1} \<Longrightarrow> cond_step c (c\<lparr>cpc := (cpc c)(t := p)\<rparr>)"
| inner_go: "(cpc c t, q) \<in> {(W1, W2), (W1w, W2), (S1, S2), (S1w, S2), (B1, B2), (B1w, B2)} \<Longrightarrow>
     Semaphore_P t (condInner (cv c)) = (True, s) \<Longrightarrow>
     cond_step c (c\<lparr>cv := (cv c)\<lparr>condInner := s\<rparr>, cpc := (cpc c)(t := q)\<rparr>)"
| inner_sleep: "(cpc c t, q) \<in> {(W1, W1s), (W1w, W1s), (S1, S1s), (S1w, S1s), (B1, B1s), (B1w, B1s)} \<Longrightarrow>
     Semaphore_P t (condInner (cv c)) = (False, s) \<Longrightarrow>
     cond_step c (c\<lparr>cv := (cv c)\<lparr>condInner := s\<rparr>, cpc := (cpc c)(t := q)\<rparr>)"
| inner_V: "(cpc c t, q) \<in> {(W4, W5), (S4, CIdle), (B4, CIdle)} \<Longrightarrow> Semaphore_V (condInner (cv c)) = (r, s) \<Longrightarrow>
     cond_step c (c\<lparr>cv := (cv c)\<lparr>condInner := s\<rparr>, cpc := (wake woken_cond r (cpc c))(t := q)\<rparr>)"
| Wait_count: "cpc c t = W2 \<Longrightarrow>
     cond_step c (c\<lparr>cv := (cv c)\<lparr>totalSleepers := totalSleepers (cv c) + 1\<rparr>, cpc := (cpc c)(t := W3)\<rparr>)"
| Wait_released: "cpc c t = W3 \<Longrightarrow> cond_step c (c\<lparr>cpc := (cpc c)(t := W4)\<rparr>)"
| Wait_go: "cpc c t \<in> {W5, W5w} \<Longrightarrow> Semaphore_P t (sleepLock (cv c)) = (True, s) \<Longrightarrow>
     cond_step c (c\<lparr>cv := (cv c)\<lparr>sleepLock := s\<rparr>, cpc := (cpc c)(t := W6)\<rparr>)"
| Wait_sleep: "cpc c t \<in> {W5, W5w} \<Longrightarrow> Semaphore_P t (sleepLock (cv c)) = (False, s) \<Longrightarrow>
     cond_step c (c\<lparr>cv := (cv c)\<lparr>sleepLock := s\<rparr>, cpc := (cpc c)(t := W5s)\<rparr>)"
| Wait_return: "cpc c t = W6 \<Longrightarrow> cond_step c (c\<lparr>cpc := (cpc c)(t := CIdle)\<rparr>)"
| Signal_test: "cpc c t = S2 \<Longrightarrow>
     cond_step c (c\<lparr>cpc := (cpc c)(t := if totalSleepers (cv c) > 0 then S3 else S4)\<rparr>)"
| Broadcast_test: "cpc c t = B2 \<Longrightarrow>
     cond_step c (c\<lparr>cpc := (cpc c)(t := if totalSleepers (cv c) > 0 then B3 else B4)\<rparr>)"
| sleep_V: "(cpc c t, q) \<in> {(S3, S3d), (B3, B3d)} \<Longrightarrow> Semaphore_V (sleepLock (cv c)) = (r, s) \<Longrightarrow>
     cond_step c (c\<lparr>cv := (cv c)\<lparr>sleepLock := s\<rparr>, cpc := (wake woken_cond r (cpc c))(t := q)\<rparr>)"
| sleep_count: "(cpc c t, q) \<in> {(S3d, S4), (B3d, B2)} \<Longrightarrow>
     cond_step c (c\<lparr>cv := (cv c)\<lparr>totalSleepers := totalSleepers (cv c) - 1\<rparr>, cpc := (cpc c)(t := q)\<rparr>)"

section \<open>Invariant\<close>

text \<open>
  \<open>cc\<close>: holding the unit of \<^verbatim>\<open>innerLock\<close>; \<open>waiting\<close>: counted as a sleeper and not yet through
  \<^verbatim>\<open>sleepLock->P()\<close>; \<open>posted\<close>: between \<^verbatim>\<open>sleepLock->V()\<close> and the decrement; \<open>zi\<close>, \<open>zs\<close>, \<open>wi'\<close>, \<open>ws\<close>: asleep and woken
  on the two semaphores.
\<close>

fun cc :: "cond_pc \<Rightarrow> bool" where
  "cc W2 = True" | "cc W3 = True" | "cc W4 = True" | "cc S2 = True" | "cc S3 = True" | "cc S3d = True" | "cc S4 = True" | "cc B2 = True" | "cc B3 = True" | "cc B3d = True" | "cc B4 = True"
| "cc _ = False"

fun waiting :: "cond_pc \<Rightarrow> bool" where
  "waiting W3 = True" | "waiting W4 = True" | "waiting W5 = True" | "waiting W5s = True" | "waiting W5w = True"
| "waiting _ = False"

fun posted :: "cond_pc \<Rightarrow> bool" where
  "posted S3d = True" | "posted B3d = True"
| "posted _ = False"

fun signalling :: "cond_pc \<Rightarrow> bool" where
  "signalling S3 = True" | "signalling S3d = True" | "signalling B3 = True" | "signalling B3d = True"
| "signalling _ = False"

fun asleep_inner :: "cond_pc \<Rightarrow> bool" where
  "asleep_inner W1s = True" | "asleep_inner S1s = True" | "asleep_inner B1s = True"
| "asleep_inner _ = False"

fun woken_inner :: "cond_pc \<Rightarrow> bool" where
  "woken_inner W1w = True" | "woken_inner S1w = True" | "woken_inner B1w = True"
| "woken_inner _ = False"

fun asleep_cond :: "cond_pc \<Rightarrow> bool" where
  "asleep_cond W5s = True"
| "asleep_cond _ = False"

fun woken_on_cond :: "cond_pc \<Rightarrow> bool" where
  "woken_on_cond W5w = True"
| "woken_on_cond _ = False"

fun broadcast_done :: "cond_pc \<Rightarrow> bool" where
  "broadcast_done B4 = True" | "broadcast_done _ = False"

definition cond_inv :: "cond_conf \<Rightarrow> bool" where
  "cond_inv c \<longleftrightarrow> fin_pc CIdle (cpc c)
     \<and> sem_ok (condInner (cv c)) (at asleep_inner (cpc c)) (int (cnt woken_inner (cpc c)))
     \<and> sem_ok (sleepLock (cv c)) (at asleep_cond (cpc c)) (int (cnt woken_on_cond (cpc c)))
     \<and> svalue (condInner (cv c)) + int (cnt cc (cpc c)) = 1
     \<and> totalSleepers (cv c) + svalue (sleepLock (cv c)) = int (cnt waiting (cpc c)) + int (cnt posted (cpc c))
     \<and> 0 \<le> totalSleepers (cv c)
     \<and> (0 < int (cnt signalling (cpc c)) \<longrightarrow> 0 < totalSleepers (cv c))
     \<and> (0 < int (cnt broadcast_done (cpc c)) \<longrightarrow> totalSleepers (cv c) = 0)"

lemmas cond_cnt = cnt_upd_int [where idle = CIdle]

text \<open>While a thread holds \<^verbatim>\<open>innerLock\<close> no other does.\<close>

lemma cond_mutex:
  assumes "fin_pc CIdle pc" "int (cnt cc pc) \<le> 1" "cc (pc t)" "cc (pc u)"
  shows "t = u"
proof (rule ccontr)
  assume "t \<noteq> u"
  have "finite (at cc pc)" using fin_pc_finite [of CIdle pc cc] assms(1) by (simp add: at_def)
  then have "card {t, u} \<le> card (at cc pc)" using assms(3,4) by (intro card_mono) auto
  then show False using assms(2) \<open>t \<noteq> u\<close> by (simp add: cnt_def at_def)
qed

lemma cond_only:
  assumes "cond_inv c" "cc (cpc c t)" "\<And>p. Q p \<Longrightarrow> cc p"
  shows "int (cnt Q (cpc c)) = of_bool (Q (cpc c t))" "Q (cpc c u) \<Longrightarrow> u = t"
proof -
  have i: "fin_pc CIdle (cpc c)" "int (cnt cc (cpc c)) \<le> 1"
    using assms(1) by (auto simp: cond_inv_def sem_ok_def)
  have u: "u = t" if "Q (cpc c u)" for u using cond_mutex [OF i] assms(2,3) that by blast
  have "{u. Q (cpc c u)} = (if Q (cpc c t) then {t} else {})"
    by (cases "Q (cpc c t)") (auto dest: u)
  then show "int (cnt Q (cpc c)) = of_bool (Q (cpc c t))" by (simp add: cnt_def)
  show "Q (cpc c u) \<Longrightarrow> u = t" by (rule u)
qed

lemma signalling_cc: "signalling p \<Longrightarrow> cc p" and broadcast_cc: "broadcast_done p \<Longrightarrow> cc p" and posted_cc: "posted p \<Longrightarrow> cc p"
  by (cases p; simp)+

lemma woken_cond_props:
  "asleep_inner p \<Longrightarrow> woken_inner (woken_cond p) \<and> \<not> asleep_inner (woken_cond p) \<and> \<not> woken_inner p"
  "asleep_cond p \<Longrightarrow> woken_on_cond (woken_cond p) \<and> \<not> asleep_cond (woken_cond p) \<and> \<not> woken_on_cond p"
  "asleep_inner p \<Longrightarrow> cc (woken_cond p) = cc p \<and> waiting (woken_cond p) = waiting p \<and> posted (woken_cond p) = posted p
     \<and> signalling (woken_cond p) = signalling p \<and> asleep_cond (woken_cond p) = asleep_cond p
     \<and> woken_on_cond (woken_cond p) = woken_on_cond p \<and> broadcast_done (woken_cond p) = broadcast_done p"
  "asleep_cond p \<Longrightarrow> cc (woken_cond p) = cc p \<and> waiting (woken_cond p) = waiting p \<and> posted (woken_cond p) = posted p
     \<and> signalling (woken_cond p) = signalling p \<and> asleep_inner (woken_cond p) = asleep_inner p
     \<and> woken_inner (woken_cond p) = woken_inner p \<and> broadcast_done (woken_cond p) = broadcast_done p"
  by (cases p; simp)+

lemmas cond_simps = cond_inv_def at_upd cond_cnt

lemma cond_inv_step:
  assumes "cond_step c c'" "cond_inv c"
  shows "cond_inv c'"
  using assms
proof (induction rule: cond_step.induct)
  case (call c t p)
  show ?case using call(2)
    by (elim insertE emptyE; use call(1) call.prems in \<open>simp add: cond_simps\<close>)
next
  case (inner_go c t q s)
  have w: "int (cnt woken_inner (cpc c)) - 1 \<le> int (cnt woken_inner ((cpc c)(t := q)))"
    using inner_go(1) by (elim insertE Pair_inject emptyE; use inner_go.prems in \<open>simp add: cond_simps\<close>)
  have "\<not> asleep_inner (cpc c t)" using inner_go(1) by (elim insertE Pair_inject emptyE; simp)
  note ok = sem_ok_P_go [OF _ inner_go(2) w, of "at asleep_inner (cpc c)"]
  show ?case using inner_go(1)
    by (elim insertE Pair_inject emptyE; use inner_go.prems ok in \<open>simp add: cond_simps\<close>)
next
  case (inner_sleep c t q s)
  note ok = sem_ok_P_sleep [OF _ inner_sleep(2) _ of_nat_0_le_iff, of "at asleep_inner (cpc c)" "int (cnt woken_inner (cpc c))" "cnt woken_inner ((cpc c)(t := q))"]
  show ?case using inner_sleep(1)
    by (elim insertE Pair_inject emptyE; use inner_sleep.prems ok in \<open>simp add: cond_simps\<close>)
next
  case (inner_V c t q r s)
  have i: "fin_pc CIdle (cpc c)" "sem_ok (condInner (cv c)) (at asleep_inner (cpc c)) (int (cnt woken_inner (cpc c)))"
    using inner_V.prems by (simp_all add: cond_inv_def)
  note g = V_generic [OF i inner_V(2) woken_cond_props(1)]
  note k = V_keeps [OF i(2) inner_V(2), of _ woken_cond]
  have keep: "at asleep_cond (wake woken_cond r (cpc c)) = at asleep_cond (cpc c)"
    "cnt woken_on_cond (wake woken_cond r (cpc c)) = cnt woken_on_cond (cpc c)"
    "cnt cc (wake woken_cond r (cpc c)) = cnt cc (cpc c)" "cnt waiting (wake woken_cond r (cpc c)) = cnt waiting (cpc c)"
    "cnt posted (wake woken_cond r (cpc c)) = cnt posted (cpc c)"
    "cnt signalling (wake woken_cond r (cpc c)) = cnt signalling (cpc c)"
    "cnt broadcast_done (wake woken_cond r (cpc c)) = cnt broadcast_done (cpc c)"
    by (rule k; simp add: woken_cond_props(3))+
  have "wake woken_cond r (cpc c) t = cpc c t"
    using inner_V(1) by (intro V_others [OF i(2) inner_V(2)]) (elim insertE Pair_inject emptyE; simp)
  then show ?case using inner_V(1)
    by (elim insertE Pair_inject emptyE; use inner_V.prems g keep in \<open>simp add: cond_simps\<close>)
next
  case (Wait_count c t)
  have "cc (cpc c t)" using Wait_count by simp
  from cond_only(1) [OF Wait_count.prems this broadcast_cc] Wait_count
  show ?case by (simp add: cond_simps)
next
  case (Wait_released c t)
  then show ?case by (simp add: cond_simps)
next
  case (Wait_go c t s)
  have w: "int (cnt woken_on_cond (cpc c)) - 1 \<le> int (cnt woken_on_cond ((cpc c)(t := W6)))"
    using Wait_go(1) by (elim insertE emptyE; use Wait_go.prems in \<open>simp add: cond_simps\<close>)
  note ok = sem_ok_P_go [OF _ Wait_go(2) w, of "at asleep_cond (cpc c)"]
  show ?case using Wait_go(1)
    by (elim insertE emptyE; use Wait_go.prems ok in \<open>simp add: cond_simps\<close>)
next
  case (Wait_sleep c t s)
  note ok = sem_ok_P_sleep [OF _ Wait_sleep(2) _ of_nat_0_le_iff, of "at asleep_cond (cpc c)" "int (cnt woken_on_cond (cpc c))" "cnt woken_on_cond ((cpc c)(t := W5s))"]
  show ?case using Wait_sleep(1)
    by (elim insertE emptyE; use Wait_sleep.prems ok in \<open>simp add: cond_simps\<close>)
next
  case (Wait_return c t)
  then show ?case by (simp add: cond_simps)
next
  case (Signal_test c t)
  have "cc (cpc c t)" using Signal_test by simp
  from cond_only(1) [OF Signal_test.prems this signalling_cc] Signal_test
  show ?case by (simp add: cond_simps)
next
  case (Broadcast_test c t)
  have "cc (cpc c t)" using Broadcast_test by simp
  from cond_only(1) [OF Broadcast_test.prems this signalling_cc]
    cond_only(1) [OF Broadcast_test.prems this broadcast_cc] Broadcast_test
  show ?case by (simp add: cond_simps)
next
  case (sleep_V c t q r s)
  have i: "fin_pc CIdle (cpc c)" "sem_ok (sleepLock (cv c)) (at asleep_cond (cpc c)) (int (cnt woken_on_cond (cpc c)))"
    using sleep_V.prems by (simp_all add: cond_inv_def)
  note g = V_generic [OF i sleep_V(2) woken_cond_props(2)]
  note k = V_keeps [OF i(2) sleep_V(2), of _ woken_cond]
  have keep: "at asleep_inner (wake woken_cond r (cpc c)) = at asleep_inner (cpc c)"
    "cnt woken_inner (wake woken_cond r (cpc c)) = cnt woken_inner (cpc c)"
    "cnt cc (wake woken_cond r (cpc c)) = cnt cc (cpc c)" "cnt waiting (wake woken_cond r (cpc c)) = cnt waiting (cpc c)"
    "cnt posted (wake woken_cond r (cpc c)) = cnt posted (cpc c)"
    "cnt signalling (wake woken_cond r (cpc c)) = cnt signalling (cpc c)"
    "cnt broadcast_done (wake woken_cond r (cpc c)) = cnt broadcast_done (cpc c)"
    by (rule k; simp add: woken_cond_props(4))+
  have "wake woken_cond r (cpc c) t = cpc c t"
    using sleep_V(1) by (intro V_others [OF i(2) sleep_V(2)]) (elim insertE Pair_inject emptyE; simp)
  then show ?case using sleep_V(1)
    by (elim insertE Pair_inject emptyE; use sleep_V.prems g keep in \<open>simp add: cond_simps\<close>)
next
  case (sleep_count c t q)
  have "cc (cpc c t)" "signalling (cpc c t)" using sleep_count(1) by (elim insertE Pair_inject emptyE; simp)+
  from cond_only(1) [OF sleep_count.prems this(1) signalling_cc] cond_only(1) [OF sleep_count.prems this(1) broadcast_cc]
    this(2)
  show ?case using sleep_count(1)
    by (elim insertE Pair_inject emptyE; use sleep_count.prems in \<open>simp add: cond_simps\<close>)
qed

lemma cond_inv_reachable: "cond_step\<^sup>*\<^sup>* cond_init c \<Longrightarrow> cond_inv c"
proof (induction rule: rtranclp_induct)
  case base
  then show ?case
    by (simp add: cond_init_def cond_inv_def Condition_new_def Semaphore_new_def sem_ok_def at_def)
next
  case (step y z)
  then show ?case using cond_inv_step by blast
qed

section \<open>Properties\<close>



end
