(* ===== verification/FrameProvider.thy ===== *)
theory FrameProvider
  imports BitMap Machine
begin

text \<open>
  The allocator of physical page frames (\<^verbatim>\<open>userprog/frameprovider.cc\<close>). A frame is chosen at random among the free
  ones, marked in a bitmap and cleared. The state is the part of the kernel these routines touch: the
  \<^verbatim>\<open>FrameProvider\<close> object, the machine whose memory is cleared, and the state of the C library's random numbers.
  The lemmas show that this is an allocator in the sense of the contract of the bitmap, so that the loops which
  allocate and release the frames of an address space are covered by the lemmas proved there.
\<close>

section \<open>Model\<close>

text \<open>\<open>bitmapLock\<close> says whether the lock of the object is held; a thread that tries to acquire it then blocks.\<close>

record FrameProvider =
  totalFrames :: int
  fbitmap :: BitMap
  bitmapLock :: bool

record 'w frames =
  fprovider :: FrameProvider
  machine :: Machine
  seed :: 'w

definition FrameProvider_new :: "(nat \<Rightarrow> 32 word) \<Rightarrow> int \<Rightarrow> FrameProvider res" where
  "FrameProvider_new garbage nFrames =
     bindR (BitMap_new garbage nFrames) (\<lambda>bm.
     bindR (BitMap_Mark 0 bm) (\<lambda>bm'.
     Inr \<lparr>totalFrames = nFrames, fbitmap = bm', bitmapLock = False\<rparr>))"

text \<open>The loop that collects the free frames, and the \<^verbatim>\<open>bzero\<close> of a frame.\<close>

definition empty_frames :: "FrameProvider \<Rightarrow> int list res" where
  "empty_frames p =
     foldR (\<lambda>i fs. bindR (BitMap_Test i (fbitmap p)) (\<lambda>t. Inr (if \<not> t then fs @ [i] else fs)))
       (map int [0..<nat (totalFrames p)]) []"

definition zero_frame :: "int \<Rightarrow> (nat \<Rightarrow> byte) \<Rightarrow> (nat \<Rightarrow> byte) res" where
  "zero_frame n mem =
     (if 0 \<le> n \<and> (nat n + 1) * PageSize \<le> MemorySize
      then Inr (\<lambda>a. if nat n * PageSize \<le> a \<and> a < (nat n + 1) * PageSize then 0 else mem a)
      else Inl OutOfBounds)"

text \<open>\<^verbatim>\<open>GetEmptyFrame\<close>: when every frame is taken it returns -1 and the lock stays held.\<close>

definition GetEmptyFrame :: "('w \<Rightarrow> nat \<times> 'w) \<Rightarrow> ('w, 'z) frames_scheme \<Rightarrow> (int \<times> ('w, 'z) frames_scheme) res" where
  "GetEmptyFrame rand k =
     (let p = fprovider k in
      if bitmapLock p then Inl WouldBlock
      else bindR (empty_frames p) (\<lambda>emptyFrames.
        if emptyFrames = [] then Inr (-1, k\<lparr>fprovider := p\<lparr>bitmapLock := True\<rparr>\<rparr>)
        else case rand (seed k) of (r, w) \<Rightarrow>
          bindR (arr_get emptyFrames (int r smod int (length emptyFrames))) (\<lambda>nFrame.
          bindR (BitMap_Mark nFrame (fbitmap p)) (\<lambda>bm.
          bindR (zero_frame nFrame (mainMemory (machine k))) (\<lambda>mem.
          Inr (nFrame, k\<lparr>fprovider := p\<lparr>fbitmap := bm\<rparr>, machine := (machine k)\<lparr>mainMemory := mem\<rparr>, seed := w\<rparr>))))))"

definition SetFrame :: "int \<Rightarrow> ('w, 'z) frames_scheme \<Rightarrow> ('w, 'z) frames_scheme res" where
  "SetFrame nFrame k =
     bindR (BitMap_Mark nFrame (fbitmap (fprovider k))) (\<lambda>bm. Inr (k\<lparr>fprovider := (fprovider k)\<lparr>fbitmap := bm\<rparr>\<rparr>))"

definition ReleaseFrame :: "int \<Rightarrow> ('w, 'z) frames_scheme \<Rightarrow> ('w, 'z) frames_scheme res" where
  "ReleaseFrame nFrame k =
     bindR (BitMap_Clear nFrame (fbitmap (fprovider k))) (\<lambda>bm. Inr (k\<lparr>fprovider := (fprovider k)\<lparr>fbitmap := bm\<rparr>\<rparr>))"

definition NumAvailFrame :: "('w, 'z) frames_scheme \<Rightarrow> int res" where
  "NumAvailFrame k = (if bitmapLock (fprovider k) then Inl WouldBlock else BitMap_NumClear (fbitmap (fprovider k)))"

definition IsFrameAvail :: "('w, 'z) frames_scheme \<Rightarrow> bool res" where
  "IsFrameAvail k = bindR (NumAvailFrame k) (\<lambda>n. Inr (n > 0))"

section \<open>The frames as an allocator\<close>

definition frames_ok :: "('w, 'z) frames_scheme \<Rightarrow> bool" where
  "frames_ok k \<longleftrightarrow> \<not> bitmapLock (fprovider k) \<and> BitMap_wf (fbitmap (fprovider k))
     \<and> numBits (fbitmap (fprovider k)) = totalFrames (fprovider k) \<and> totalFrames (fprovider k) \<le> int NumPhysPages"

definition free_frames :: "('w, 'z) frames_scheme \<Rightarrow> int set" where
  "free_frames k = free_bits (fbitmap (fprovider k))"

definition used_frames :: "('w, 'z) frames_scheme \<Rightarrow> int set" where
  "used_frames k = used_bits (fbitmap (fprovider k))"

text \<open>The bytes of a frame.\<close>

definition frame_bytes :: "int \<Rightarrow> nat set" where
  "frame_bytes n = {nat n * PageSize..<(nat n + 1) * PageSize}"

lemma frame_bytes_iff: "0 \<le> n \<Longrightarrow> a \<in> frame_bytes n \<longleftrightarrow> int (a div PageSize) = n"
  by (auto simp: frame_bytes_def)

lemma frame_range: "frames_ok k \<Longrightarrow> n \<in> free_frames k \<union> used_frames k \<Longrightarrow> 0 \<le> n \<and> n < totalFrames (fprovider k) \<and> n < 256"
  using used_bits_subset [of "fbitmap (fprovider k)"] by (auto simp: frames_ok_def free_frames_def used_frames_def free_bits_def)

lemma empty_frames_ok:
  assumes "frames_ok k"
  shows "\<exists>fs. empty_frames (fprovider k) = Inr fs \<and> set fs = free_frames k"
proof -
  let ?bm = "fbitmap (fprovider k)"
  have f: "foldR (\<lambda>i fs. bindR (BitMap_Test i ?bm) (\<lambda>t. Inr (if \<not> t then fs @ [i] else fs))) xs acc
      = Inr (acc @ filter (\<lambda>i. i \<notin> used_bits ?bm) xs)" if "set xs \<subseteq> {0..<numBits ?bm}" for xs acc
    using that assms by (induction xs arbitrary: acc) (auto simp: Test_spec frames_ok_def)
  have "set (map int [0..<nat (totalFrames (fprovider k))]) = {0..<numBits ?bm}"
    using assms by (simp add: frames_ok_def BitMap_wf_def image_int_atLeastLessThan)
  then show ?thesis using f by (auto simp: empty_frames_def free_frames_def free_bits_def)
qed

text \<open>The free frame it returns is marked and cleared, and nothing else changes.\<close>

lemma GetEmptyFrame_ok:
  assumes "frames_ok k" "free_frames k \<noteq> {}"
  shows "\<exists>n k' bm w. GetEmptyFrame rand k = Inr (n, k') \<and> n \<in> free_frames k \<and> frames_ok k'
     \<and> free_frames k' = free_frames k - {n} \<and> used_frames k' = insert n (used_frames k)
     \<and> k' = k\<lparr>fprovider := (fprovider k)\<lparr>fbitmap := bm\<rparr>, seed := w,
         machine := (machine k)\<lparr>mainMemory := (\<lambda>a. if a \<in> frame_bytes n then 0 else mainMemory (machine k) a)\<rparr>\<rparr>"
proof -
  obtain fs where fs: "empty_frames (fprovider k) = Inr fs" "set fs = free_frames k" using empty_frames_ok [OF assms(1)] by blast
  obtain r w where r: "rand (seed k) = (r, w)" by (cases "rand (seed k)")
  have ne: "fs \<noteq> []" using fs(2) assms(2) by auto
  let ?i = "int r smod int (length fs)"
  have i: "0 \<le> ?i" "?i < int (length fs)" using ne by (simp_all add: smod_nonneg)
  let ?n = "fs ! nat ?i"
  have n: "?n \<in> free_frames k" using i fs(2) by (metis nat_less_iff nth_mem)
  then have nr: "0 \<le> ?n" "?n < numBits (fbitmap (fprovider k))" "?n < 256"
    using frame_range [OF assms(1), of ?n] assms(1) by (auto simp: frames_ok_def)
  have "BitMap_wf (fbitmap (fprovider k))" using assms(1) by (simp add: frames_ok_def)
  from Mark_spec [OF this nr(1,2)] obtain bm where bm: "BitMap_Mark ?n (fbitmap (fprovider k)) = Inr bm" "BitMap_wf bm"
      "numBits bm = numBits (fbitmap (fprovider k))" "used_bits bm = insert ?n (used_bits (fbitmap (fprovider k)))" by blast
  have z: "zero_frame ?n mem = Inr (\<lambda>a. if a \<in> frame_bytes ?n then 0 else mem a)" for mem
    using nr(1,3) by (simp add: zero_frame_def frame_bytes_def)
  let ?k = "k\<lparr>fprovider := (fprovider k)\<lparr>fbitmap := bm\<rparr>, seed := w,
         machine := (machine k)\<lparr>mainMemory := (\<lambda>a. if a \<in> frame_bytes ?n then 0 else mainMemory (machine k) a)\<rparr>\<rparr>"
  have "GetEmptyFrame rand k = Inr (?n, ?k)"
    using assms(1) fs(1) ne r i bm(1) z by (simp add: GetEmptyFrame_def Let_def frames_ok_def)
  moreover have "frames_ok ?k" using assms(1) bm by (simp add: frames_ok_def)
  moreover have "free_frames ?k = free_frames k - {?n}" "used_frames ?k = insert ?n (used_frames k)"
    using free_insert [OF bm(4,3)] bm(4) by (simp_all add: free_frames_def used_frames_def)
  ultimately show ?thesis using n by blast
qed

lemma ReleaseFrame_ok:
  assumes "frames_ok k" "n \<in> used_frames k"
  shows "\<exists>k' bm. ReleaseFrame n k = Inr k' \<and> frames_ok k' \<and> free_frames k' = insert n (free_frames k)
     \<and> used_frames k' = used_frames k - {n} \<and> k' = k\<lparr>fprovider := (fprovider k)\<lparr>fbitmap := bm\<rparr>\<rparr>"
proof -
  have nr: "0 \<le> n" "n < numBits (fbitmap (fprovider k))" "BitMap_wf (fbitmap (fprovider k))"
    using frame_range [OF assms(1), of n] assms by (auto simp: frames_ok_def)
  from Clear_spec [OF nr(3,1,2)] obtain bm where bm: "BitMap_Clear n (fbitmap (fprovider k)) = Inr bm" "BitMap_wf bm"
      "numBits bm = numBits (fbitmap (fprovider k))" "used_bits bm = used_bits (fbitmap (fprovider k)) - {n}" by blast
  then have "free_bits bm = insert n (free_bits (fbitmap (fprovider k)))"
    using free_remove assms(2) by (auto simp: used_frames_def)
  then show ?thesis using bm assms(1) by (auto simp: ReleaseFrame_def frames_ok_def free_frames_def used_frames_def)
qed

interpretation frame_alloc: allocator frames_ok free_frames used_frames "GetEmptyFrame rand" ReleaseFrame for rand
proof
  fix k :: "('a, 'b) frames_scheme" and x
  show "finite (free_frames k)" "free_frames k \<inter> used_frames k = {}"
    by (auto simp: free_frames_def used_frames_def free_bits_def)
  show "\<exists>x s'. GetEmptyFrame rand k = Inr (x, s') \<and> frames_ok s' \<and> x \<in> free_frames k
      \<and> free_frames s' = free_frames k - {x} \<and> used_frames s' = insert x (used_frames k)"
    if "frames_ok k" "free_frames k \<noteq> {}" using GetEmptyFrame_ok [OF that, of rand] by blast
  show "\<exists>s'. ReleaseFrame x k = Inr s' \<and> frames_ok s' \<and> free_frames s' = insert x (free_frames k) \<and> used_frames s' = used_frames k - {x}"
    if "frames_ok k" "x \<in> used_frames k" using ReleaseFrame_ok [OF that] by blast
qed

lemma NumAvailFrame_ok: "frames_ok k \<Longrightarrow> NumAvailFrame k = Inr (int (card (free_frames k)))"
  by (simp add: NumAvailFrame_def frames_ok_def NumClear_spec free_frames_def)

lemma IsFrameAvail_ok: "frames_ok k \<Longrightarrow> IsFrameAvail k = Inr (free_frames k \<noteq> {})"
  using frame_alloc.finite_unused [of k] by (simp add: IsFrameAvail_def NumAvailFrame_ok card_gt_0_iff)

end
