(* ===== verification/Disk.thy ===== *)
theory Disk
  imports Machine Synch
begin

unbundle bit_operations_syntax

text \<open>
  The simulated disk of \<^verbatim>\<open>machine/disk.cc\<close>, with its latency computation and its one request at a time
  protocol, the synchronous disk of \<^verbatim>\<open>filesys/synchdisk.cc\<close> on top of it, and the contract of a
  sector store that the file system relies on.
\<close>

section \<open>The disk\<close>

abbreviation (input) SectorsPerTrack :: int where "SectorsPerTrack \<equiv> 32"
abbreviation (input) NumTracks :: int where "NumTracks \<equiv> 32"
abbreviation (input) NumSectors :: int where "NumSectors \<equiv> 1024"
abbreviation (input) RotationTime :: int where "RotationTime \<equiv> 500"
abbreviation (input) SeekTime :: int where "SeekTime \<equiv> 500"
abbreviation (input) MagicSize :: nat where "MagicSize \<equiv> 4"

text \<open>
  The disk object, the UNIX file that stores its contents, byte by byte, and the statistics it
  updates. \<open>scheduled\<close> is the latency of the interrupt scheduled for the request in progress.
\<close>

record Disk =
  dfile :: "nat \<Rightarrow> byte"
  active :: bool
  lastSector :: int
  bufferInit :: int
  scheduled :: "int option"
  totalTicks :: int
  numDiskReads :: int
  numDiskWrites :: int

text \<open>The conversion of a \<^verbatim>\<open>long long\<close> to an \<^verbatim>\<open>int\<close>.\<close>

definition to_int32 :: "int \<Rightarrow> int" where
  "to_int32 x = sint (word_of_int x :: 32 word)"

definition MagicNumber :: "32 word" where "MagicNumber = 0x456789ab"

definition magic_ok :: "(nat \<Rightarrow> byte) \<Rightarrow> bool" where
  "magic_ok f \<longleftrightarrow> le32 (f 0) (f 1) (f 2) (f 3) = MagicNumber"

text \<open>
  The constructor: an existing file must start with the magic number; a new one gets the number
  and is extended, so that every byte reads as zero.
\<close>

definition Disk_new :: "(nat \<Rightarrow> byte) option \<Rightarrow> int \<Rightarrow> Disk res" where
  "Disk_new unixFile now =
     bindR (case unixFile of
              Some f \<Rightarrow> bindR (ASSERT (magic_ok f)) (\<lambda>_. Inr f)
            | None \<Rightarrow> Inr (\<lambda>k. if k < MagicSize then byte_of k MagicNumber else 0))
       (\<lambda>f. Inr \<lparr>dfile = f, active = False, lastSector = 0, bufferInit = 0, scheduled = None,
                 totalTicks = now, numDiskReads = 0, numDiskWrites = 0\<rparr>)"

text \<open>The seek time and the wait for the next sector boundary.\<close>

definition TimeToSeek :: "int \<Rightarrow> Disk \<Rightarrow> int \<times> int" where
  "TimeToSeek newSector d =
     (let newTrack = newSector sdiv SectorsPerTrack;
          oldTrack = lastSector d sdiv SectorsPerTrack;
          seek = \<bar>newTrack - oldTrack\<bar> * SeekTime;
          over = (totalTicks d + seek) smod RotationTime
      in (seek, if over > 0 then RotationTime - over else 0))"

definition ModuloDiff :: "int \<Rightarrow> int \<Rightarrow> int" where
  "ModuloDiff dest src =
     (let toOffset = dest smod SectorsPerTrack; fromOffset = src smod SectorsPerTrack
      in ((toOffset - fromOffset) + SectorsPerTrack) smod SectorsPerTrack)"

definition ComputeLatency :: "int \<Rightarrow> bool \<Rightarrow> Disk \<Rightarrow> int" where
  "ComputeLatency newSector writing d =
     (let (seek, rotation) = TimeToSeek newSector d;
          timeAfter = to_int32 (totalTicks d + seek + rotation)
      in if \<not> writing \<and> seek = 0
            \<and> (timeAfter - bufferInit d) sdiv RotationTime > ModuloDiff newSector (bufferInit d sdiv RotationTime)
         then RotationTime
         else seek + (rotation + ModuloDiff newSector (timeAfter sdiv RotationTime) * RotationTime) + RotationTime)"

definition UpdateLast :: "int \<Rightarrow> Disk \<Rightarrow> Disk" where
  "UpdateLast newSector d =
     (let (seek, rotate) = TimeToSeek newSector d
      in d\<lparr>bufferInit := (if seek \<noteq> 0 then to_int32 (totalTicks d + seek + rotate) else bufferInit d),
           lastSector := newSector\<rparr>)"

definition sector_offset :: "int \<Rightarrow> nat" where
  "sector_offset s = SectorSize * nat s + MagicSize"

text \<open>\<^verbatim>\<open>Schedule\<close> of the completion interrupt, with its ASSERT that the delay is positive.\<close>

definition schedule_done :: "int \<Rightarrow> Disk \<Rightarrow> Disk res" where
  "schedule_done ticks d = bindR (ASSERT (ticks > 0)) (\<lambda>_. Inr (d\<lparr>scheduled := Some ticks\<rparr>))"

definition ReadRequest :: "int \<Rightarrow> Disk \<Rightarrow> (byte list \<times> Disk) res" where
  "ReadRequest sectorNumber d =
     (let ticks = ComputeLatency sectorNumber False d in
      bindR (ASSERT (\<not> active d)) (\<lambda>_.
      bindR (ASSERT (sectorNumber \<ge> 0 \<and> sectorNumber < NumSectors)) (\<lambda>_.
      let data = map (\<lambda>k. dfile d (sector_offset sectorNumber + k)) [0..<SectorSize];
          d1 = UpdateLast sectorNumber (d\<lparr>active := True\<rparr>);
          d2 = d1\<lparr>numDiskReads := numDiskReads d1 + 1\<rparr>
      in bindR (schedule_done ticks d2) (\<lambda>d3. Inr (data, d3)))))"

definition write_file :: "nat \<Rightarrow> byte list \<Rightarrow> (nat \<Rightarrow> byte) \<Rightarrow> (nat \<Rightarrow> byte)" where
  "write_file off bs f = (\<lambda>k. if off \<le> k \<and> k < off + length bs then bs ! (k - off) else f k)"

text \<open>\<^verbatim>\<open>WriteRequest\<close> transfers \<^verbatim>\<open>SectorSize\<close> bytes of the buffer.\<close>

definition WriteRequest :: "int \<Rightarrow> byte list \<Rightarrow> Disk \<Rightarrow> Disk res" where
  "WriteRequest sectorNumber data d =
     (let ticks = ComputeLatency sectorNumber True d in
      bindR (ASSERT (\<not> active d)) (\<lambda>_.
      bindR (ASSERT (sectorNumber \<ge> 0 \<and> sectorNumber < NumSectors)) (\<lambda>_.
      if length data < SectorSize then Inl OutOfBounds
      else
        let d0 = d\<lparr>dfile := write_file (sector_offset sectorNumber) (take SectorSize data) (dfile d)\<rparr>;
            d1 = UpdateLast sectorNumber (d0\<lparr>active := True\<rparr>);
            d2 = d1\<lparr>numDiskWrites := numDiskWrites d1 + 1\<rparr>
        in schedule_done ticks d2)))"

text \<open>\<^verbatim>\<open>HandleInterrupt\<close>: the request is over; the handler called is \<^verbatim>\<open>RequestDone\<close> below.\<close>

definition HandleInterrupt :: "Disk \<Rightarrow> Disk" where
  "HandleInterrupt d = d\<lparr>active := False, scheduled := None\<rparr>"

section \<open>The synchronous disk\<close>

record SynchDisk =
  disk :: Disk
  semaphore :: Semaphore

definition SynchDisk_new :: "(nat \<Rightarrow> byte) option \<Rightarrow> int \<Rightarrow> SynchDisk res" where
  "SynchDisk_new unixFile now =
     bindR (Disk_new unixFile now) (\<lambda>d. Inr \<lparr>disk = d, semaphore = Semaphore_new 0\<rparr>)"

definition RequestDone :: "SynchDisk \<Rightarrow> SynchDisk" where
  "RequestDone sd = sd\<lparr>semaphore := snd (Semaphore_V (semaphore sd))\<rparr>"

text \<open>
  \<^verbatim>\<open>semaphore->P()\<close>, \<^verbatim>\<open>wait for interrupt\<close>, by the thread that holds the lock: time passes until the
  interrupt that was scheduled, whose handler ends the request and posts the semaphore; the thread then
  consumes it. Without an interrupt to come the thread would sleep for ever.
\<close>

definition wait_interrupt :: "SynchDisk \<Rightarrow> SynchDisk res" where
  "wait_interrupt sd =
     (case scheduled (disk sd) of
        None \<Rightarrow> (if svalue (semaphore sd) = 0 then Inl WouldBlock
                 else Inr (sd\<lparr>semaphore := (semaphore sd)\<lparr>svalue := svalue (semaphore sd) - 1\<rparr>\<rparr>))
      | Some ticks \<Rightarrow>
          let d = disk sd;
              sd1 = RequestDone (sd\<lparr>disk := HandleInterrupt (d\<lparr>totalTicks := totalTicks d + ticks\<rparr>)\<rparr>)
          in Inr (sd1\<lparr>semaphore := (semaphore sd1)\<lparr>svalue := svalue (semaphore sd1) - 1\<rparr>\<rparr>))"

definition ReadSector :: "int \<Rightarrow> SynchDisk \<Rightarrow> (byte list \<times> SynchDisk) res" where
  "ReadSector sectorNumber sd =
     bindR (ReadRequest sectorNumber (disk sd)) (\<lambda>(data, d).
     bindR (wait_interrupt (sd\<lparr>disk := d\<rparr>)) (\<lambda>sd1. Inr (data, sd1)))"

definition WriteSector :: "int \<Rightarrow> byte list \<Rightarrow> SynchDisk \<Rightarrow> SynchDisk res" where
  "WriteSector sectorNumber data sd =
     bindR (WriteRequest sectorNumber data (disk sd)) (\<lambda>d. wait_interrupt (sd\<lparr>disk := d\<rparr>))"

section \<open>Latency\<close>

lemma ModuloDiff_range:
  assumes "0 \<le> dest"
  shows "0 \<le> ModuloDiff dest src" "ModuloDiff dest src \<le> 31"
proof -
  have t: "0 \<le> dest smod 32" "dest smod 32 < 32" using assms by (simp_all add: smod_nonneg)
  have f: "- 32 < src smod 32" "src smod 32 < 32" using smod_int_range [of 32 src] by auto
  have "ModuloDiff dest src = (dest smod 32 - src smod 32 + 32) mod 32"
    using t f by (simp add: ModuloDiff_def Let_def smod_nonneg)
  then show "0 \<le> ModuloDiff dest src" "ModuloDiff dest src \<le> 31" by simp_all
qed

lemma TimeToSeek_range:
  assumes "0 \<le> totalTicks d" "0 \<le> lastSector d" "lastSector d < 1024" "0 \<le> new" "new < 1024"
  shows "0 \<le> fst (TimeToSeek new d)" "fst (TimeToSeek new d) \<le> 31 * SeekTime"
    "0 \<le> snd (TimeToSeek new d)" "snd (TimeToSeek new d) < RotationTime"
proof -
  define seek where "seek = \<bar>new sdiv 32 - lastSector d sdiv 32\<bar> * 500"
  have t: "0 \<le> new div 32" "new div 32 \<le> 31" "0 \<le> lastSector d div 32" "lastSector d div 32 \<le> 31"
    using assms by auto
  have s: "seek = \<bar>new div 32 - lastSector d div 32\<bar> * 500" using assms by (simp add: seek_def sdiv_nonneg)
  have r: "0 \<le> seek" "seek \<le> 31 * 500" unfolding s using t by auto
  have o: "(totalTicks d + seek) smod 500 = (totalTicks d + seek) mod 500" using assms r by (simp add: smod_nonneg)
  have m: "0 \<le> (totalTicks d + seek) mod 500" "(totalTicks d + seek) mod 500 < 500" by simp_all
  have eq: "TimeToSeek new d = (seek, if (totalTicks d + seek) mod 500 > 0 then 500 - (totalTicks d + seek) mod 500 else 0)"
    using o by (simp add: TimeToSeek_def seek_def Let_def)
  show "0 \<le> fst (TimeToSeek new d)" "fst (TimeToSeek new d) \<le> 31 * SeekTime"
    "0 \<le> snd (TimeToSeek new d)" "snd (TimeToSeek new d) < RotationTime"
    unfolding eq using r m by auto
qed

lemma latency_range:
  assumes "0 \<le> totalTicks d" "0 \<le> lastSector d" "lastSector d < 1024" "0 \<le> new" "new < 1024"
  shows "RotationTime \<le> ComputeLatency new w d" "ComputeLatency new w d < 31 * SeekTime + 33 * RotationTime"
proof -
  obtain seek rot where e: "TimeToSeek new d = (seek, rot)" by fastforce
  define k where "k = ModuloDiff new (to_int32 (totalTicks d + seek + rot) sdiv 500)"
  have "0 \<le> k" "k \<le> 31" using ModuloDiff_range [OF assms(4)] by (simp_all add: k_def)
  moreover have "0 \<le> seek" "seek \<le> 31 * 500" "0 \<le> rot" "rot < 500" using TimeToSeek_range [OF assms] e by simp_all
  moreover have "ComputeLatency new w d = 500 \<or> ComputeLatency new w d = seek + (rot + k * 500) + 500"
    by (simp add: ComputeLatency_def e Let_def k_def)
  ultimately show "RotationTime \<le> ComputeLatency new w d" "ComputeLatency new w d < 31 * SeekTime + 33 * RotationTime"
    by auto
qed

section \<open>Sector stores\<close>

text \<open>
  The contract of a device with \<open>n\<close> sectors of \<open>SectorSize\<close> bytes: a read returns the content of the
  sector and changes no content, a write changes the content of that sector only, and both
  keep the device in order; requests out of range fail. The lemmas are about runs over lists of sectors.
\<close>

locale sector_store =
  fixes good :: "'s \<Rightarrow> bool"
    and content :: "'s \<Rightarrow> int \<Rightarrow> byte list"
    and rd :: "int \<Rightarrow> 's \<Rightarrow> (byte list \<times> 's) res"
    and wr :: "int \<Rightarrow> byte list \<Rightarrow> 's \<Rightarrow> 's res"
    and n :: int
  assumes length_content: "length (content s i) = SectorSize"
    and rd_ok: "good s \<Longrightarrow> 0 \<le> i \<Longrightarrow> i < n \<Longrightarrow> \<exists>s'. rd i s = Inr (content s i, s') \<and> good s' \<and> content s' = content s"
    and wr_ok: "good s \<Longrightarrow> 0 \<le> i \<Longrightarrow> i < n \<Longrightarrow> length data = SectorSize \<Longrightarrow>
          \<exists>s'. wr i data s = Inr s' \<and> good s' \<and> content s' i = data
            \<and> (\<forall>j. 0 \<le> j \<longrightarrow> j \<noteq> i \<longrightarrow> content s' j = content s j)"
    and bad: "good s \<Longrightarrow> i < 0 \<or> n \<le> i \<Longrightarrow> rd i s = Inl AssertFailed \<and> wr i data s = Inl AssertFailed"
begin

lemma read_run:
  "good s \<Longrightarrow> \<forall>i\<in>set is. 0 \<le> i \<and> i < n \<Longrightarrow>
     \<exists>s'. mapR rd is s = Inr (map (content s) is, s') \<and> good s' \<and> content s' = content s"
proof (induction "is" arbitrary: s)
  case (Cons i "is")
  obtain s1 where s1: "rd i s = Inr (content s i, s1)" "good s1" "content s1 = content s"
    using rd_ok [of s i] Cons.prems by auto
  obtain s2 where "mapR rd is s1 = Inr (map (content s1) is, s2)" "good s2" "content s2 = content s1"
    using Cons.IH [OF s1(2)] Cons.prems by auto
  with s1 show ?case by auto
qed simp

lemma write_run:
  "good s \<Longrightarrow> \<forall>p\<in>set ps. 0 \<le> fst p \<and> fst p < n \<and> length (snd p) = SectorSize \<Longrightarrow> distinct (map fst ps) \<Longrightarrow>
     \<exists>s'. foldR (\<lambda>p. wr (fst p) (snd p)) ps s = Inr s' \<and> good s'
       \<and> (\<forall>p\<in>set ps. content s' (fst p) = snd p)
       \<and> (\<forall>j. 0 \<le> j \<longrightarrow> j \<notin> fst ` set ps \<longrightarrow> content s' j = content s j)"
proof (induction ps arbitrary: s)
  case (Cons p ps)
  obtain s1 where s1: "wr (fst p) (snd p) s = Inr s1" "good s1" "content s1 (fst p) = snd p"
    "\<forall>j. 0 \<le> j \<longrightarrow> j \<noteq> fst p \<longrightarrow> content s1 j = content s j"
    using wr_ok [of s "fst p" "snd p"] Cons.prems by auto
  obtain s2 where s2: "foldR (\<lambda>p. wr (fst p) (snd p)) ps s1 = Inr s2" "good s2"
    "\<forall>p\<in>set ps. content s2 (fst p) = snd p"
    "\<forall>j. 0 \<le> j \<longrightarrow> j \<notin> fst ` set ps \<longrightarrow> content s2 j = content s1 j"
    using Cons.IH [OF s1(2)] Cons.prems by auto
  have "fst p \<notin> fst ` set ps" "0 \<le> fst p" using Cons.prems by auto
  then have "content s2 (fst p) = snd p" using s2(4) s1(3) by auto
  then show ?case using s1 s2 by auto
qed simp

end

section \<open>The synchronous disk is a sector store\<close>

definition sd_ok :: "SynchDisk \<Rightarrow> bool" where
  "sd_ok sd \<longleftrightarrow> \<not> active (disk sd) \<and> scheduled (disk sd) = None \<and> semaphore sd = Semaphore_new 0
     \<and> 0 \<le> totalTicks (disk sd) \<and> 0 \<le> lastSector (disk sd) \<and> lastSector (disk sd) < NumSectors"

definition sector :: "SynchDisk \<Rightarrow> int \<Rightarrow> byte list" where
  "sector sd i = map (\<lambda>k. dfile (disk sd) (sector_offset i + k)) [0..<SectorSize]"

lemma UpdateLast_simps [simp]:
  "active (UpdateLast i d) = active d" "scheduled (UpdateLast i d) = scheduled d" "lastSector (UpdateLast i d) = i"
  "totalTicks (UpdateLast i d) = totalTicks d" "dfile (UpdateLast i d) = dfile d"
  by (simp_all add: UpdateLast_def split: prod.splits)

lemma ReadSector_ok:
  assumes "sd_ok sd" "0 \<le> i" "i < 1024"
  shows "\<exists>sd'. ReadSector i sd = Inr (sector sd i, sd') \<and> sd_ok sd' \<and> dfile (disk sd') = dfile (disk sd)
     \<and> totalTicks (disk sd') = totalTicks (disk sd) + ComputeLatency i False (disk sd)"
proof -
  have l: "500 \<le> ComputeLatency i False (disk sd)" using assms by (intro latency_range) (simp_all add: sd_ok_def)
  then show ?thesis using assms
    by (simp add: ReadSector_def ReadRequest_def schedule_done_def wait_interrupt_def RequestDone_def HandleInterrupt_def
        sd_ok_def Semaphore_new_def Semaphore_V_def sector_def Let_def)
qed

lemma WriteSector_ok:
  assumes "sd_ok sd" "0 \<le> i" "i < 1024" "length data = 128"
  shows "\<exists>sd'. WriteSector i data sd = Inr sd' \<and> sd_ok sd'
     \<and> dfile (disk sd') = write_file (sector_offset i) data (dfile (disk sd))"
proof -
  have l: "500 \<le> ComputeLatency i True (disk sd)" using assms by (intro latency_range) (simp_all add: sd_ok_def)
  then show ?thesis using assms
    by (simp add: WriteSector_def WriteRequest_def schedule_done_def wait_interrupt_def RequestDone_def HandleInterrupt_def
        sd_ok_def Semaphore_new_def Semaphore_V_def Let_def)
qed

lemma sector_write_file:
  assumes "length data = 128" "0 \<le> i" "0 \<le> j" "dfile (disk sd') = write_file (sector_offset i) data (dfile (disk sd))"
  shows "sector sd' j = (if j = i then data else sector sd j)"
proof (rule nth_equalityI)
  show "length (sector sd' j) = length (if j = i then data else sector sd j)" using assms(1) by (simp add: sector_def)
next
  fix k assume "k < length (sector sd' j)"
  then have k: "k < 128" by (simp add: sector_def)
  have "nat j = nat i" if "128 * nat i \<le> 128 * nat j + k" "128 * nat j + k < 128 * nat i + 128" using that k by simp
  then show "sector sd' j ! k = (if j = i then data else sector sd j) ! k"
    using assms k by (auto simp: sector_def write_file_def sector_offset_def)
qed

interpretation sdisk: sector_store sd_ok sector ReadSector WriteSector NumSectors
proof
  fix s i data
  show "length (sector s i) = SectorSize" by (simp add: sector_def)
  show "\<exists>s'. ReadSector i s = Inr (sector s i, s') \<and> sd_ok s' \<and> sector s' = sector s"
    if "sd_ok s" "0 \<le> i" "i < NumSectors"
    using ReadSector_ok [OF that] by (auto simp: sector_def fun_eq_iff)
  show "\<exists>s'. WriteSector i data s = Inr s' \<and> sd_ok s' \<and> sector s' i = data
      \<and> (\<forall>j. 0 \<le> j \<longrightarrow> j \<noteq> i \<longrightarrow> sector s' j = sector s j)"
    if "sd_ok s" "0 \<le> i" "i < NumSectors" "length data = SectorSize"
    using WriteSector_ok [OF that] sector_write_file [OF that(4,2)] that(2) by fastforce
  show "ReadSector i s = Inl AssertFailed \<and> WriteSector i data s = Inl AssertFailed"
    if "sd_ok s" "i < 0 \<or> NumSectors \<le> i"
    using that by (auto simp: ReadSector_def ReadRequest_def WriteSector_def WriteRequest_def sd_ok_def bindR_ASSERT Let_def)
qed

section \<open>Properties\<close>

text \<open>
  On a disk at rest, a sector written is read back, every other sector keeps its
  content, no request finds another one in progress and the requester never sleeps for ever; a
  request out of range fails its ASSERT.
\<close>

theorem disk_write_read:
  assumes "sd_ok sd" "length data = SectorSize" "0 \<le> j" "j < NumSectors"
  shows "if 0 \<le> i \<and> i < NumSectors
     then \<exists>sd1 sd2. WriteSector i data sd = Inr sd1 \<and> sd_ok sd1
        \<and> ReadSector j sd1 = Inr (if j = i then data else sector sd j, sd2) \<and> sd_ok sd2
     else WriteSector i data sd = Inl AssertFailed \<and> ReadSector i sd = Inl AssertFailed"
proof (cases "0 \<le> i \<and> i < NumSectors")
  case True
  obtain sd1 where w: "WriteSector i data sd = Inr sd1" "sd_ok sd1" "sector sd1 i = data"
      "\<forall>j. 0 \<le> j \<longrightarrow> j \<noteq> i \<longrightarrow> sector sd1 j = sector sd j"
    using sdisk.wr_ok [OF assms(1) _ _ assms(2), of i] True by auto
  have "sector sd1 j = (if j = i then data else sector sd j)" using w(3,4) assms(3) by simp
  then show ?thesis using True w(1,2) sdisk.rd_ok [OF w(2) assms(3,4)] by auto
next
  case False
  then show ?thesis using sdisk.bad [OF assms(1), of i data] by auto
qed

definition demo_disk :: SynchDisk where
  "demo_disk = \<lparr>disk = \<lparr>dfile = (\<lambda>_. 0), active = False, lastSector = 0, bufferInit = 0, scheduled = None,
     totalTicks = 0, numDiskReads = 0, numDiskWrites = 0\<rparr>, semaphore = Semaphore_new 0\<rparr>"

lemma demo_disk_ok: "sd_ok demo_disk"
  by (simp add: demo_disk_def sd_ok_def)

theorem disk_write_read_witness:
  "\<exists>sd1 sd2. WriteSector 7 (replicate 128 42) demo_disk = Inr sd1 \<and> ReadSector 7 sd1 = Inr (replicate 128 42, sd2)"
  using disk_write_read [OF demo_disk_ok, of "replicate 128 42" 7 7] by auto

text \<open>
  The simulated latency of a request is at least one sector's transfer and less than a full
  seek with a full rotation, at every simulated time (also when the tick counter no longer fits
  an \<^verbatim>\<open>int\<close>), so the delay given to the interrupt simulation is always positive.
\<close>

theorem disk_latency_bounds:
  assumes "0 \<le> totalTicks d" "0 \<le> lastSector d" "lastSector d < NumSectors" "0 \<le> new" "new < NumSectors"
  shows "RotationTime \<le> ComputeLatency new w d \<and> ComputeLatency new w d < 31 * SeekTime + 33 * RotationTime"
  using latency_range [OF assms] by blast

theorem disk_latency_bounds_witness:
  "RotationTime \<le> ComputeLatency 500 True (disk demo_disk)"
  using disk_latency_bounds [of "disk demo_disk" 500 True] by (simp add: demo_disk_def)

end
