(* ===== verification/ByteCodec.thy ===== *)
theory ByteCodec
  imports Machine
begin

text \<open>
  Kernel objects as bytes, the way the casts to \<^verbatim>\<open>char *\<close> in \<^verbatim>\<open>filehdr.cc\<close>, \<^verbatim>\<open>directory.cc\<close> and
  \<^verbatim>\<open>bitmap.cc\<close> lay them out on a little-endian 32-bit host, and the contract of such an encoding: decoding
  an encoded object gives it back, also element by element in an array.
\<close>

section \<open>The contract of an encoding\<close>

text \<open>\<open>n\<close> objects of \<open>w\<close> bytes each, at the start of a byte string.\<close>

definition dec_array :: "nat \<Rightarrow> (byte list \<Rightarrow> 'a) \<Rightarrow> nat \<Rightarrow> byte list \<Rightarrow> 'a list" where
  "dec_array w dec n bs = map (\<lambda>i. dec (take w (drop (i * w) bs))) [0..<n]"

definition enc_array :: "('a \<Rightarrow> byte list) \<Rightarrow> 'a list \<Rightarrow> byte list" where
  "enc_array enc xs = concat (map enc xs)"

locale byte_codec =
  fixes width :: nat
    and enc :: "'a \<Rightarrow> byte list"
    and dec :: "byte list \<Rightarrow> 'a"
    and fits :: "'a \<Rightarrow> bool"
  assumes length_enc: "fits x \<Longrightarrow> length (enc x) = width"
    and dec_enc: "fits x \<Longrightarrow> dec (enc x) = x"
begin

lemma length_enc_array: "\<forall>x\<in>set xs. fits x \<Longrightarrow> length (enc_array enc xs) = width * length xs"
  unfolding enc_array_def by (subst concat_same_length [of _ width]) (auto simp: length_enc)

lemma dec_enc_array:
  assumes "\<forall>x\<in>set xs. fits x"
  shows "dec_array width dec (length xs) (enc_array enc xs @ rest) = xs"
proof (rule nth_equalityI)
  show "length (dec_array width dec (length xs) (enc_array enc xs @ rest)) = length xs" by (simp add: dec_array_def)
next
  fix i assume "i < length (dec_array width dec (length xs) (enc_array enc xs @ rest))"
  then have i: "i < length xs" by (simp add: dec_array_def)
  have l: "i * width + width \<le> length (concat (map enc xs))"
    using i length_enc_array [OF assms] by (simp add: enc_array_def) (metis Suc_leI add.commute mult.commute mult_Suc mult_le_mono1)
  have "take width (drop (i * width) (concat (map enc xs) @ rest)) = take width (drop (i * width) (concat (map enc xs)))"
    using l by simp
  also have "\<dots> = map enc xs ! i"
    using i assms by (intro take_drop_concat) (auto simp: length_enc)
  finally show "dec_array width dec (length xs) (enc_array enc xs @ rest) ! i = xs ! i"
    using i assms by (simp add: dec_array_def enc_array_def dec_enc)
qed

end

section \<open>Integers and words\<close>

definition enc_word :: "32 word \<Rightarrow> byte list" where
  "enc_word w = [byte_of 0 w, byte_of 1 w, byte_of 2 w, byte_of 3 w]"

definition dec_word :: "byte list \<Rightarrow> 32 word" where
  "dec_word bs = le32 (bs ! 0) (bs ! 1) (bs ! 2) (bs ! 3)"

definition enc_int :: "int \<Rightarrow> byte list" where
  "enc_int x = enc_word (word_of_int x)"

definition dec_int :: "byte list \<Rightarrow> int" where
  "dec_int bs = sint (dec_word bs)"

lemma sint_word_of_int32: "int32_ok x \<Longrightarrow> sint (word_of_int x :: 32 word) = x"
proof -
  assume a: "int32_ok x"
  have "sint (word_of_int x :: 32 word) = signed_take_bit 31 x" by (simp add: sint_sbintrunc')
  also have "\<dots> = x" using a by (intro signed_take_bit_int_eq_self) (simp_all add: int32_ok_def)
  finally show ?thesis .
qed

lemma dec_enc_word: "dec_word (enc_word w) = w"
  using le32_byte_of [of w] by (simp add: dec_word_def enc_word_def)

interpretation word_codec: byte_codec 4 enc_word dec_word "\<lambda>_. True"
  by unfold_locales (simp_all add: dec_enc_word enc_word_def [THEN arg_cong [where f = length]])

interpretation int_codec: byte_codec 4 enc_int dec_int int32_ok
  by unfold_locales
    (simp_all add: dec_int_def enc_int_def dec_enc_word sint_word_of_int32 enc_word_def [THEN arg_cong [where f = length]])

end
