(* ===== verification/FileHdr.thy ===== *)
theory FileHdr
  imports BitMap Disk ByteCodec
begin

text \<open>
  \<^verbatim>\<open>filesys/filehdr.cc\<close>: the file header, which lists the sectors of a file and fills exactly one sector of
  the disk itself.
\<close>

section \<open>Operations\<close>

abbreviation (input) NumDirect :: nat where "NumDirect \<equiv> 30"

definition MaxFileSize :: int where
  "MaxFileSize = int NumDirect * int SectorSize"

record FileHeader =
  numBytes :: int
  numSectors :: int
  dataSectors :: "int list"

text \<open>
  The allocation loop: each iteration takes a free sector and stores it in \<^verbatim>\<open>dataSectors[i]\<close>. The source
  does not check \<open>i\<close> against the size of the array; the model returns the error.
\<close>

definition Allocate_step :: "int \<Rightarrow> FileHeader \<times> BitMap \<Rightarrow> (FileHeader \<times> BitMap) res" where
  "Allocate_step i st =
     (case st of (h, freeMap) \<Rightarrow>
        bindR (BitMap_Find freeMap) (\<lambda>(s, freeMap').
        bindR (arr_set (dataSectors h) i s) (\<lambda>ds. Inr (h\<lparr>dataSectors := ds\<rparr>, freeMap'))))"

definition FileHeader_Allocate :: "int \<Rightarrow> FileHeader \<Rightarrow> BitMap \<Rightarrow> (bool \<times> FileHeader \<times> BitMap) res" where
  "FileHeader_Allocate fileSize h freeMap =
     (let h1 = h\<lparr>numBytes := fileSize, numSectors := divRoundUp fileSize (int SectorSize)\<rparr> in
      bindR (BitMap_NumClear freeMap) (\<lambda>free.
        if free < numSectors h1 then Inr (False, h1, freeMap)
        else bindR (foldR Allocate_step (map int [0..<nat (numSectors h1)]) (h1, freeMap)) (\<lambda>(h2, fm).
             Inr (True, h2, fm))))"

text \<open>The body of the freeing loop for one sector: it must be marked, then it is cleared.\<close>

definition release_sector :: "int \<Rightarrow> BitMap \<Rightarrow> BitMap res" where
  "release_sector s freeMap =
     bindR (BitMap_Test s freeMap) (\<lambda>t.
     bindR (ASSERT t) (\<lambda>_. BitMap_Clear s freeMap))"

definition Deallocate_step :: "FileHeader \<Rightarrow> int \<Rightarrow> BitMap \<Rightarrow> BitMap res" where
  "Deallocate_step h i freeMap = bindR (arr_get (dataSectors h) i) (\<lambda>s. release_sector s freeMap)"

definition FileHeader_Deallocate :: "FileHeader \<Rightarrow> BitMap \<Rightarrow> BitMap res" where
  "FileHeader_Deallocate h freeMap = foldR (Deallocate_step h) (map int [0..<nat (numSectors h)]) freeMap"

text \<open>The object as the bytes of one sector.\<close>

definition enc_header :: "FileHeader \<Rightarrow> byte list" where
  "enc_header h = enc_int (numBytes h) @ enc_int (numSectors h) @ enc_array enc_int (dataSectors h)"

definition dec_header :: "byte list \<Rightarrow> FileHeader" where
  "dec_header bs =
     \<lparr>numBytes = dec_int (take 4 bs), numSectors = dec_int (take 4 (drop 4 bs)),
      dataSectors = dec_array 4 dec_int NumDirect (drop 8 bs)\<rparr>"

definition FileHeader_FetchFrom :: "int \<Rightarrow> SynchDisk \<Rightarrow> (FileHeader \<times> SynchDisk) res" where
  "FileHeader_FetchFrom sec sd = bindR (ReadSector sec sd) (\<lambda>(bs, sd'). Inr (dec_header bs, sd'))"

definition FileHeader_WriteBack :: "int \<Rightarrow> FileHeader \<Rightarrow> SynchDisk \<Rightarrow> SynchDisk res" where
  "FileHeader_WriteBack sec h sd = WriteSector sec (enc_header h) sd"

definition FileHeader_ByteToSector :: "int \<Rightarrow> FileHeader \<Rightarrow> int res" where
  "FileHeader_ByteToSector offset h = arr_get (dataSectors h) (offset sdiv int SectorSize)"

definition FileHeader_FileLength :: "FileHeader \<Rightarrow> int" where
  "FileHeader_FileLength h = numBytes h"

text \<open>\<^verbatim>\<open>Print\<close>: the size, the sector numbers and the bytes of the file it shows.\<close>

definition FileHeader_Print :: "FileHeader \<Rightarrow> SynchDisk \<Rightarrow> ((int \<times> int list \<times> byte list) \<times> SynchDisk) res" where
  "FileHeader_Print h sd =
     bindR (mapR (\<lambda>i sd. bindR (arr_get (dataSectors h) i) (\<lambda>s. Inr (s, sd))) (map int [0..<nat (numSectors h)]) sd) (\<lambda>(ss, sd).
     bindR (mapR ReadSector ss sd) (\<lambda>(bufs, sd').
     Inr ((numBytes h, ss, take (nat (numBytes h)) (concat bufs)), sd')))"

section \<open>Headers on disk\<close>

definition header_fits :: "FileHeader \<Rightarrow> bool" where
  "header_fits h \<longleftrightarrow> int32_ok (numBytes h) \<and> int32_ok (numSectors h) \<and> length (dataSectors h) = NumDirect
     \<and> (\<forall>s\<in>set (dataSectors h). int32_ok s)"

lemma length_enc_int [simp]: "length (enc_int x) = 4"
  by (simp add: enc_int_def enc_word_def)

interpretation header_codec: byte_codec SectorSize enc_header dec_header header_fits
proof
  fix h :: FileHeader assume h: "header_fits h"
  have l: "length (enc_array enc_int (dataSectors h)) = 120"
    using h int_codec.length_enc_array [of "dataSectors h"] by (simp add: header_fits_def)
  then show "length (enc_header h) = SectorSize" by (simp add: enc_header_def)
  have "dec_array 4 dec_int NumDirect (enc_array enc_int (dataSectors h)) = dataSectors h"
    using h int_codec.dec_enc_array [of "dataSectors h" "[]"] by (simp add: header_fits_def)
  then show "dec_header (enc_header h) = h"
    using h by (simp add: dec_header_def enc_header_def header_fits_def int_codec.dec_enc)
qed

section \<open>Allocation\<close>

lemma Allocate_loop:
  assumes "length (dataSectors h) = NumDirect" "i + k \<le> NumDirect" "repeatR k BitMap_Find fm = Inr (xs, fm')"
  shows "foldR Allocate_step (map int [i..<i + k]) (h, fm)
     = Inr (h\<lparr>dataSectors := take i (dataSectors h) @ xs @ drop (i + k) (dataSectors h)\<rparr>, fm')"
  using assms
proof (induction k arbitrary: i h fm xs)
  case (Suc k)
  from Suc.prems(3) obtain x fm1 ys where x: "BitMap_Find fm = Inr (x, fm1)"
      "repeatR k BitMap_Find fm1 = Inr (ys, fm')" "xs = x # ys"
    by (auto simp: bind_iffs split: prod.splits)
  have u: "[i..<i + Suc k] = i # [Suc i..<Suc i + k]" by (simp add: upt_rec)
  let ?h = "h\<lparr>dataSectors := (dataSectors h)[i := x]\<rparr>"
  have "Allocate_step (int i) (h, fm) = Inr (?h, fm1)"
    using x(1) Suc.prems by (simp add: Allocate_step_def)
  moreover have "foldR Allocate_step (map int [Suc i..<Suc i + k]) (?h, fm1)
      = Inr (?h\<lparr>dataSectors := take (Suc i) (dataSectors ?h) @ ys @ drop (Suc i + k) (dataSectors ?h)\<rparr>, fm')"
    using Suc.prems x by (intro Suc.IH) simp_all
  moreover have "take (Suc i) ((dataSectors h)[i := x]) = take i (dataSectors h) @ [x]"
    using Suc.prems by (simp add: take_Suc_conv_app_nth)
  ultimately show ?case using x(3) Suc.prems unfolding u by simp
qed simp

lemma repeatR_add:
  "repeatR (a + b) f s = bindR (repeatR a f s) (\<lambda>(us, s1). bindR (repeatR b f s1) (\<lambda>(ws, s2). Inr (us @ ws, s2)))"
  by (induction a arbitrary: s) (auto simp: bindR_def split: sum.splits prod.splits)

lemma repeatR_length: "repeatR n f s = Inr (zs, s') \<Longrightarrow> length zs = n"
  by (induction n arbitrary: s zs) (auto simp: bind_iffs split: prod.splits)

lemma Allocate_overrun:
  assumes "length (dataSectors h) = NumDirect" "NumDirect < k" "repeatR k BitMap_Find fm = Inr (xs, fm')"
  shows "foldR Allocate_step (map int [0..<k]) (h, fm) = Inl OutOfBounds"
proof -
  have split: "[0..<k] = [0..<NumDirect] @ NumDirect # [Suc NumDirect..<k]"
    using assms(2) by (metis le_add_diff_inverse less_imp_le upt_add_eq_append upt_conv_Cons zero_le)
  have k: "k = NumDirect + (Suc (k - 31))" using assms(2) by simp
  have "bindR (repeatR NumDirect BitMap_Find fm) (\<lambda>(us, s1).
      bindR (repeatR (Suc (k - 31)) BitMap_Find s1) (\<lambda>(ws, s2). Inr (us @ ws, s2))) = Inr (xs, fm')"
    using assms(3) k repeatR_add [of NumDirect "Suc (k - 31)" BitMap_Find fm] by metis
  then obtain us fm1 x fm2 where us: "repeatR NumDirect BitMap_Find fm = Inr (us, fm1)"
    and x: "BitMap_Find fm1 = Inr (x, fm2)"
    by (fastforce simp: bindR_Inr_iff simp del: repeatR.simps(1) split: prod.splits)
  have l: "foldR Allocate_step (map int [0..<NumDirect]) (h, fm)
      = Inr (h\<lparr>dataSectors := us @ drop NumDirect (dataSectors h)\<rparr>, fm1)"
    using Allocate_loop [OF assms(1) _ us, of 0] by simp
  have "length us = NumDirect" by (rule repeatR_length [OF us])
  then have "Allocate_step (int NumDirect) (h\<lparr>dataSectors := us @ drop NumDirect (dataSectors h)\<rparr>, fm1) = Inl OutOfBounds"
    using x assms(1) by (simp add: Allocate_step_def arr_set_bad)
  then show ?thesis unfolding split map_append foldR_append using l by simp
qed


text \<open>Deallocation tests every sector before it clears it; on marked sectors it is the allocator's release.\<close>

interpretation sector_alloc: allocator BitMap_wf free_bits used_bits BitMap_Find release_sector
proof
  fix s x
  show "finite (free_bits s)" by (rule bitmap_alloc.finite_unused)
  show "free_bits s \<inter> used_bits s = {}" by (rule bitmap_alloc.disjoint)
  show "\<exists>x s'. BitMap_Find s = Inr (x, s') \<and> BitMap_wf s' \<and> x \<in> free_bits s
      \<and> free_bits s' = free_bits s - {x} \<and> used_bits s' = insert x (used_bits s)"
    if "BitMap_wf s" "free_bits s \<noteq> {}"
    by (rule bitmap_alloc.alloc_ok [OF that])
  assume s: "BitMap_wf s" "x \<in> used_bits s"
  then have "0 \<le> x" "x < numBits s" using used_bits_subset [of s] by auto
  then have "release_sector x s = BitMap_Clear x s"
    using s Test_spec [of s x] by (simp add: release_sector_def)
  then show "\<exists>s'. release_sector x s = Inr s' \<and> BitMap_wf s' \<and> free_bits s' = insert x (free_bits s)
      \<and> used_bits s' = used_bits s - {x}"
    using bitmap_alloc.release_ok [OF s] by simp
qed

lemma Deallocate_loop:
  "i + k \<le> length (dataSectors h) \<Longrightarrow>
     foldR (Deallocate_step h) (map int [i..<i + k]) fm = foldR release_sector (take k (drop i (dataSectors h))) fm"
proof (induction k arbitrary: i fm)
  case (Suc k)
  have u: "[i..<i + Suc k] = i # [Suc i..<Suc i + k]" by (simp add: upt_rec)
  have d: "take (Suc k) (drop i (dataSectors h)) = dataSectors h ! i # take k (drop (Suc i) (dataSectors h))"
    using Suc.prems by (metis Cons_nth_drop_Suc Suc_leD add_Suc_right less_eq_Suc_le le_add1 order_trans take_Suc_Cons Suc_le_mono)
  have "foldR (Deallocate_step h) (map int [Suc i..<Suc i + k]) = foldR release_sector (take k (drop (Suc i) (dataSectors h)))"
    using Suc by (intro ext Suc.IH) simp
  moreover have "Deallocate_step h (int i) fm = release_sector (dataSectors h ! i) fm"
    using Suc.prems by (simp add: Deallocate_step_def)
  ultimately show ?case unfolding u d by simp
qed simp

text \<open>The number of sectors of a file, and what \<^verbatim>\<open>Allocate\<close> does on each side of the two limits.\<close>

definition sectors_for :: "int \<Rightarrow> nat" where
  "sectors_for fileSize = nat (divRoundUp fileSize (int SectorSize))"

lemma sectors_for_enough: "0 \<le> n \<Longrightarrow> n \<le> int SectorSize * int (sectors_for n)"
  using divRoundUp_mult_ge [of n "int SectorSize"] divRoundUp_ge_0 [of n "int SectorSize"]
  by (simp add: sectors_for_def)

lemma int_sectors_for: "0 \<le> n \<Longrightarrow> divRoundUp n (int SectorSize) = int (sectors_for n)"
  using divRoundUp_ge_0 [of n "int SectorSize"] by (simp add: sectors_for_def)

lemma Allocate_ok:
  assumes "BitMap_wf fm" "length (dataSectors h) = NumDirect" "0 \<le> n"
    and "sectors_for n \<le> card (free_bits fm)" "sectors_for n \<le> NumDirect"
  shows "\<exists>h' fm' xs. FileHeader_Allocate n h fm = Inr (True, h', fm') \<and> BitMap_wf fm'
     \<and> numBytes h' = n \<and> numSectors h' = int (sectors_for n) \<and> length (dataSectors h') = NumDirect
     \<and> xs = take (sectors_for n) (dataSectors h') \<and> length xs = sectors_for n \<and> distinct xs
     \<and> drop (sectors_for n) (dataSectors h') = drop (sectors_for n) (dataSectors h)
     \<and> set xs \<subseteq> free_bits fm \<and> free_bits fm' = free_bits fm - set xs \<and> used_bits fm' = used_bits fm \<union> set xs"
proof -
  obtain xs fm' where x: "repeatR (sectors_for n) BitMap_Find fm = Inr (xs, fm')" "BitMap_wf fm'"
      "length xs = sectors_for n" "distinct xs" "set xs \<subseteq> free_bits fm" "free_bits fm' = free_bits fm - set xs"
      "used_bits fm' = used_bits fm \<union> set xs"
    using bitmap_alloc.alloc_many [OF assms(1,4)] by blast
  let ?h1 = "h\<lparr>numBytes := n, numSectors := int (sectors_for n)\<rparr>"
  let ?h2 = "?h1\<lparr>dataSectors := xs @ drop (sectors_for n) (dataSectors h)\<rparr>"
  have "foldR Allocate_step (map int [0..<0 + sectors_for n]) (?h1, fm) = Inr (?h2, fm')"
    using Allocate_loop [of ?h1 0 "sectors_for n" fm xs fm'] assms(2,5) x(1) by simp
  then have "FileHeader_Allocate n h fm = Inr (True, ?h2, fm')"
    using assms(1,3,4) int_sectors_for [OF assms(3)] by (simp add: FileHeader_Allocate_def NumClear_spec)
  then show ?thesis using x assms(2,5) by auto
qed

section \<open>Properties\<close>

text \<open>
  \<^verbatim>\<open>Allocate\<close> of a file of \<open>n\<close> bytes. With too few free sectors it returns false and the free
  map is unchanged; otherwise, for a file of at most \<^verbatim>\<open>NumDirect\<close> sectors, it gives the file as many distinct,
  previously free sectors as its bytes need and marks exactly these; for a larger file with enough
  free sectors it runs past the end of \<^verbatim>\<open>dataSectors\<close> (the source has no check).
\<close>

theorem allocate_outcome:
  assumes "BitMap_wf fm" "length (dataSectors h) = NumDirect" "0 \<le> n"
  shows "if card (free_bits fm) < sectors_for n
     then \<exists>h'. FileHeader_Allocate n h fm = Inr (False, h', fm) \<and> dataSectors h' = dataSectors h
     else if sectors_for n \<le> NumDirect
     then \<exists>h' fm' xs. FileHeader_Allocate n h fm = Inr (True, h', fm') \<and> BitMap_wf fm' \<and> FileHeader_FileLength h' = n
        \<and> xs = take (nat (numSectors h')) (dataSectors h') \<and> n \<le> int SectorSize * int (length xs)
        \<and> distinct xs \<and> set xs \<subseteq> free_bits fm \<and> used_bits fm' = used_bits fm \<union> set xs
     else FileHeader_Allocate n h fm = Inl OutOfBounds"
proof -
  note s = int_sectors_for [OF assms(3)] NumClear_spec [OF assms(1)]
  have full: "FileHeader_Allocate n h fm = Inr (False, h\<lparr>numBytes := n, numSectors := int (sectors_for n)\<rparr>, fm)"
    if "card (free_bits fm) < sectors_for n"
    using that s by (simp add: FileHeader_Allocate_def)
  have over: "FileHeader_Allocate n h fm = Inl OutOfBounds"
    if c: "\<not> card (free_bits fm) < sectors_for n" "\<not> sectors_for n \<le> NumDirect"
  proof -
    obtain xs fm' where x: "repeatR (sectors_for n) BitMap_Find fm = Inr (xs, fm')"
      using bitmap_alloc.alloc_many [OF assms(1), of "sectors_for n"] c by auto
    show ?thesis
      using Allocate_overrun [OF _ _ x, of "h\<lparr>numBytes := n, numSectors := int (sectors_for n)\<rparr>"] assms(2) c s
      by (simp add: FileHeader_Allocate_def)
  qed
  show ?thesis
    using full over Allocate_ok [OF assms] sectors_for_enough [OF assms(3)]
    by (auto simp: FileHeader_FileLength_def)
qed

definition empty_hdr :: FileHeader where
  "empty_hdr = \<lparr>numBytes = 0, numSectors = 0, dataSectors = replicate NumDirect 0\<rparr>"

definition demo_map :: BitMap where
  "demo_map = \<lparr>numBits = 96, numWords = 3, bmap = [3, 0, 0]\<rparr>"

lemma demo_map_wf: "BitMap_wf demo_map"
  by (simp add: BitMap_wf_def demo_map_def)

lemma demo_map_free: "32 \<le> card (free_bits demo_map)"
proof -
  have "i \<in> free_bits demo_map" if "32 \<le> i" "i < 64" for i
  proof -
    have "i div 32 = 1" using that by simp
    then show ?thesis using that by (simp add: free_bits_def used_bits_def demo_map_def)
  qed
  then have "{32..<64} \<subseteq> free_bits demo_map" by auto
  then have "card {32..<64::int} \<le> card (free_bits demo_map)" by (rule card_mono [OF finite_bits(2)])
  then show ?thesis by simp
qed

theorem allocate_outcome_witness:
  "FileHeader_Allocate 4000 empty_hdr demo_map = Inl OutOfBounds
   \<and> (\<exists>h' fm'. FileHeader_Allocate 300 empty_hdr demo_map = Inr (True, h', fm'))"
proof -
  have "length (dataSectors empty_hdr) = NumDirect" by (simp add: empty_hdr_def)
  moreover have "sectors_for 4000 = 32" "sectors_for 300 = 3" by (simp_all add: sectors_for_def divRoundUp_pos)
  ultimately show ?thesis
    using allocate_outcome [OF demo_map_wf, of empty_hdr 4000] allocate_outcome [OF demo_map_wf, of empty_hdr 300] demo_map_free
    by auto
qed

text \<open>
  Deallocating a file right after it was allocated never fails its ASSERT and gives
  the free map its old free sectors back.
\<close>

theorem allocate_deallocate:
  assumes "BitMap_wf fm" "length (dataSectors h) = NumDirect" "0 \<le> n" "sectors_for n \<le> NumDirect"
    and "FileHeader_Allocate n h fm = Inr (True, h', fm')"
  shows "\<exists>fm''. FileHeader_Deallocate h' fm' = Inr fm'' \<and> BitMap_wf fm''
     \<and> free_bits fm'' = free_bits fm \<and> used_bits fm'' = used_bits fm"
proof -
  have e: "sectors_for n \<le> card (free_bits fm)"
    using assms(5) int_sectors_for [OF assms(3)] NumClear_spec [OF assms(1)]
    by (auto simp: FileHeader_Allocate_def Let_def not_less split: if_splits)
  obtain xs where x: "BitMap_wf fm'" "numSectors h' = int (sectors_for n)" "length (dataSectors h') = NumDirect"
      "xs = take (sectors_for n) (dataSectors h')" "distinct xs" "set xs \<subseteq> free_bits fm"
      "free_bits fm' = free_bits fm - set xs" "used_bits fm' = used_bits fm \<union> set xs"
    using Allocate_ok [OF assms(1-3) e assms(4)] assms(5) by auto
  have "FileHeader_Deallocate h' fm' = foldR release_sector xs fm'"
    using Deallocate_loop [of 0 "sectors_for n" h'] x(2,3,4) assms(4) by (simp add: FileHeader_Deallocate_def)
  moreover obtain fm'' where "foldR release_sector xs fm' = Inr fm''" "BitMap_wf fm''"
      "free_bits fm'' = free_bits fm' \<union> set xs" "used_bits fm'' = used_bits fm' - set xs"
    using sector_alloc.release_many [of fm' xs] x by auto
  ultimately show ?thesis using x(6-8) bitmap_alloc.disjoint [of fm] by auto
qed

theorem allocate_deallocate_witness:
  "\<exists>h' fm' fm''. FileHeader_Allocate 300 empty_hdr demo_map = Inr (True, h', fm') \<and> FileHeader_Deallocate h' fm' = Inr fm''
     \<and> free_bits fm'' = free_bits demo_map"
proof -
  have e: "length (dataSectors empty_hdr) = NumDirect" "sectors_for 300 \<le> NumDirect" "sectors_for 300 \<le> card (free_bits demo_map)"
    using demo_map_free by (simp_all add: empty_hdr_def sectors_for_def divRoundUp_pos)
  obtain h' fm' where a: "FileHeader_Allocate 300 empty_hdr demo_map = Inr (True, h', fm')"
    using Allocate_ok [OF demo_map_wf e(1) _ e(3) e(2)] by auto
  show ?thesis using allocate_deallocate [OF demo_map_wf e(1) _ e(2) a] a by auto
qed

text \<open>
  A header fills exactly one sector; written back and fetched again it is the same header,
  and no other sector of the disk changes.
\<close>

theorem header_writeback_fetch:
  assumes "sd_ok sd" "header_fits h" "0 \<le> sec" "sec < NumSectors"
  shows "\<exists>sd1 sd2. FileHeader_WriteBack sec h sd = Inr sd1 \<and> FileHeader_FetchFrom sec sd1 = Inr (h, sd2)
     \<and> sd_ok sd2 \<and> (\<forall>j. 0 \<le> j \<longrightarrow> j \<noteq> sec \<longrightarrow> sector sd2 j = sector sd j)"
proof -
  obtain sd1 where w: "WriteSector sec (enc_header h) sd = Inr sd1" "sd_ok sd1" "sector sd1 sec = enc_header h"
      "\<forall>j. 0 \<le> j \<longrightarrow> j \<noteq> sec \<longrightarrow> sector sd1 j = sector sd j"
    using sdisk.wr_ok [OF assms(1,3,4) header_codec.length_enc [OF assms(2)]] by blast
  obtain sd2 where "ReadSector sec sd1 = Inr (enc_header h, sd2)" "sd_ok sd2" "sector sd2 = sector sd1"
    using sdisk.rd_ok [OF w(2) assms(3,4)] w(3) by auto
  then show ?thesis using w header_codec.dec_enc [OF assms(2)]
    by (simp add: FileHeader_WriteBack_def FileHeader_FetchFrom_def)
qed

theorem header_writeback_fetch_witness:
  "\<exists>sd1 sd2. FileHeader_WriteBack 5 empty_hdr demo_disk = Inr sd1 \<and> FileHeader_FetchFrom 5 sd1 = Inr (empty_hdr, sd2)"
  using header_writeback_fetch [OF demo_disk_ok, of empty_hdr 5]
  by (auto simp: header_fits_def empty_hdr_def int32_ok_def)

end
