(* ===== verification/OpenFile.thy ===== *)
theory OpenFile
  imports FileHdr
begin

text \<open>
  \<^verbatim>\<open>filesys/openfile.cc\<close>: reading and writing byte ranges of a file on top of whole-sector transfers.
\<close>

section \<open>Operations\<close>

record OpenFile =
  hdr :: FileHeader
  seekPosition :: int

definition OpenFile_new :: "int \<Rightarrow> SynchDisk \<Rightarrow> (OpenFile \<times> SynchDisk) res" where
  "OpenFile_new sec sd =
     bindR (FileHeader_FetchFrom sec sd) (\<lambda>(h, sd'). Inr (\<lparr>hdr = h, seekPosition = 0\<rparr>, sd'))"

definition OpenFile_Seek :: "int \<Rightarrow> OpenFile \<Rightarrow> OpenFile" where
  "OpenFile_Seek position f = f\<lparr>seekPosition := position\<rparr>"

definition OpenFile_Length :: "OpenFile \<Rightarrow> int" where
  "OpenFile_Length f = FileHeader_FileLength (hdr f)"

text \<open>\<^verbatim>\<open>bcopy\<close> out of and into a buffer at an offset, with the bounds of the buffer checked.\<close>

definition buf_get :: "byte list \<Rightarrow> int \<Rightarrow> int \<Rightarrow> byte list res" where
  "buf_get buf off n =
     (if 0 \<le> off \<and> 0 \<le> n \<and> off + n \<le> int (length buf) then Inr (take (nat n) (drop (nat off) buf)) else Inl OutOfBounds)"

definition buf_put :: "byte list \<Rightarrow> int \<Rightarrow> byte list \<Rightarrow> byte list res" where
  "buf_put buf off bs =
     (if 0 \<le> off \<and> off + int (length bs) \<le> int (length buf)
      then Inr (take (nat off) buf @ bs @ drop (nat off + length bs) buf) else Inl OutOfBounds)"

text \<open>
  The bytes copied into \<^verbatim>\<open>into\<close> are returned; their number is the result of the source. The sum
  \<^verbatim>\<open>position + numBytes\<close> is the only one that can overflow.
\<close>

definition read_file_sector :: "FileHeader \<Rightarrow> int \<Rightarrow> SynchDisk \<Rightarrow> (byte list \<times> SynchDisk) res" where
  "read_file_sector h i sd = bindR (FileHeader_ByteToSector (i * int SectorSize) h) (\<lambda>s. ReadSector s sd)"

definition OpenFile_ReadAt :: "int \<Rightarrow> int \<Rightarrow> OpenFile \<Rightarrow> SynchDisk \<Rightarrow> (byte list \<times> SynchDisk) res" where
  "OpenFile_ReadAt n position f sd =
     (let fileLength = FileHeader_FileLength (hdr f) in
      if n \<le> 0 \<or> fileLength \<le> position then Inr ([], sd)
      else bindR (add_int position n) (\<lambda>e.
        let n = (if e > fileLength then fileLength - position else n);
            firstSector = divRoundDown position (int SectorSize);
            last_sector = divRoundDown (position + n - 1) (int SectorSize)
        in bindR (mapR (read_file_sector (hdr f)) [firstSector..last_sector] sd) (\<lambda>(bufs, sd').
           bindR (buf_get (concat bufs) (position - firstSector * int SectorSize) n) (\<lambda>bs. Inr (bs, sd')))))"

text \<open>The buffer of \<^verbatim>\<open>WriteAt\<close> is not initialised; \<open>mem\<close> is what the memory held.\<close>

definition write_file_sector :: "FileHeader \<Rightarrow> int \<Rightarrow> byte list \<Rightarrow> int \<Rightarrow> SynchDisk \<Rightarrow> SynchDisk res" where
  "write_file_sector h firstSector buf i sd =
     bindR (FileHeader_ByteToSector (i * int SectorSize) h) (\<lambda>s.
     bindR (buf_get buf ((i - firstSector) * int SectorSize) (int SectorSize)) (\<lambda>b. WriteSector s b sd))"

definition read_into :: "byte list \<Rightarrow> int \<Rightarrow> int \<Rightarrow> OpenFile \<Rightarrow> SynchDisk \<Rightarrow> (byte list \<times> SynchDisk) res" where
  "read_into buf off position f sd =
     bindR (OpenFile_ReadAt (int SectorSize) position f sd) (\<lambda>(bs, sd').
     bindR (buf_put buf off bs) (\<lambda>buf'. Inr (buf', sd')))"

definition write_range ::
  "(nat \<Rightarrow> byte) \<Rightarrow> byte list \<Rightarrow> int \<Rightarrow> int \<Rightarrow> OpenFile \<Rightarrow> SynchDisk \<Rightarrow> (int \<times> SynchDisk) res" where
  "write_range mem from n position f sd =
     (let firstSector = divRoundDown position (int SectorSize);
          last_sector = divRoundDown (position + n - 1) (int SectorSize);
          num = 1 + last_sector - firstSector;
          buf = map mem [0..<nat (num * int SectorSize)];
          firstAligned = (position = firstSector * int SectorSize);
          lastAligned = (position + n = (last_sector + 1) * int SectorSize)
      in bindR (if firstAligned then Inr (buf, sd) else read_into buf 0 (firstSector * int SectorSize) f sd) (\<lambda>(buf1, sd1).
         bindR (if \<not> lastAligned \<and> (firstSector \<noteq> last_sector \<or> firstAligned)
                then read_into buf1 ((last_sector - firstSector) * int SectorSize) (last_sector * int SectorSize) f sd1
                else Inr (buf1, sd1)) (\<lambda>(buf2, sd2).
         bindR (buf_get from 0 n) (\<lambda>data.
         bindR (buf_put buf2 (position - firstSector * int SectorSize) data) (\<lambda>buf3.
         bindR (foldR (write_file_sector (hdr f) firstSector buf3) [firstSector..last_sector] sd2) (\<lambda>sd3.
         Inr (n, sd3)))))))"

definition OpenFile_WriteAt ::
  "(nat \<Rightarrow> byte) \<Rightarrow> byte list \<Rightarrow> int \<Rightarrow> int \<Rightarrow> OpenFile \<Rightarrow> SynchDisk \<Rightarrow> (int \<times> SynchDisk) res" where
  "OpenFile_WriteAt mem from n position f sd =
     (let fileLength = FileHeader_FileLength (hdr f) in
      if n \<le> 0 \<or> fileLength \<le> position then Inr (0, sd)
      else bindR (add_int position n) (\<lambda>e.
        write_range mem from (if e > fileLength then fileLength - position else n) position f sd))"

definition OpenFile_Read :: "int \<Rightarrow> OpenFile \<Rightarrow> SynchDisk \<Rightarrow> (byte list \<times> OpenFile \<times> SynchDisk) res" where
  "OpenFile_Read n f sd =
     bindR (OpenFile_ReadAt n (seekPosition f) f sd) (\<lambda>(bs, sd').
     Inr (bs, f\<lparr>seekPosition := seekPosition f + int (length bs)\<rparr>, sd'))"

definition OpenFile_Write ::
  "(nat \<Rightarrow> byte) \<Rightarrow> byte list \<Rightarrow> int \<Rightarrow> OpenFile \<Rightarrow> SynchDisk \<Rightarrow> (int \<times> OpenFile \<times> SynchDisk) res" where
  "OpenFile_Write mem from n f sd =
     bindR (OpenFile_WriteAt mem from n (seekPosition f) f sd) (\<lambda>(r, sd').
     Inr (r, f\<lparr>seekPosition := seekPosition f + r\<rparr>, sd'))"

section \<open>The file as a byte sequence\<close>

definition file_sectors :: "FileHeader \<Rightarrow> int list" where
  "file_sectors h = take (nat (numSectors h)) (dataSectors h)"

definition file_ok :: "FileHeader \<Rightarrow> bool" where
  "file_ok h \<longleftrightarrow> 0 \<le> numBytes h \<and> numSectors h = int (sectors_for (numBytes h)) \<and> sectors_for (numBytes h) \<le> NumDirect
     \<and> length (dataSectors h) = NumDirect \<and> distinct (file_sectors h)
     \<and> (\<forall>s\<in>set (file_sectors h). 0 \<le> s \<and> s < NumSectors)"

definition raw_bytes :: "FileHeader \<Rightarrow> SynchDisk \<Rightarrow> byte list" where
  "raw_bytes h sd = concat (map (sector sd) (file_sectors h))"

definition file_bytes :: "FileHeader \<Rightarrow> SynchDisk \<Rightarrow> byte list" where
  "file_bytes h sd = take (nat (numBytes h)) (raw_bytes h sd)"

lemma concat_take:
  "(\<forall>x\<in>set xs. length x = n) \<Longrightarrow> concat (take m xs) = take (n * m) (concat xs)"
proof (induction xs arbitrary: m)
  case (Cons x xs) then show ?case by (cases m) auto
qed simp

lemma concat_drop:
  "(\<forall>x\<in>set xs. length x = n) \<Longrightarrow> concat (drop m xs) = drop (n * m) (concat xs)"
proof (induction xs arbitrary: m)
  case (Cons x xs) then show ?case by (cases m) auto
qed simp

lemma upto_nat: "[int a..int b] = map int [a..<Suc b]"
proof (induction "Suc b - a" arbitrary: a)
  case (Suc k)
  then have "[int a..int b] = int a # [int (Suc a)..int b]" by (subst upto.simps) (simp add: add.commute)
  also have "\<dots> = map int (a # [Suc a..<Suc b])" using Suc(1) [of "Suc a"] Suc(2) by (simp del: upt_Suc)
  also have "a # [Suc a..<Suc b] = [a..<Suc b]" using Suc(2) by (metis upt_rec zero_less_Suc zero_less_diff)
  finally show ?case .
qed simp


lemma sectors_length:
  assumes "file_ok h"
  shows "length (file_sectors h) = sectors_for (numBytes h)" "length (raw_bytes h sd) = SectorSize * length (file_sectors h)"
    "nat (numBytes h) \<le> length (raw_bytes h sd)" "length (file_bytes h sd) = nat (numBytes h)"
    "numBytes h \<le> 3840"
proof -
  show l: "length (file_sectors h) = sectors_for (numBytes h)" using assms by (simp add: file_ok_def file_sectors_def)
  show r: "length (raw_bytes h sd) = SectorSize * length (file_sectors h)"
    unfolding raw_bytes_def by (subst concat_same_length [of _ SectorSize]) (auto simp: sdisk.length_content)
  have n: "numBytes h \<le> int SectorSize * int (sectors_for (numBytes h))"
    using assms by (intro sectors_for_enough) (simp add: file_ok_def)
  then show m: "nat (numBytes h) \<le> length (raw_bytes h sd)" using l r by simp
  then show "length (file_bytes h sd) = nat (numBytes h)" by (simp add: file_bytes_def)
  show "numBytes h \<le> 3840" using n assms by (simp add: file_ok_def)
qed

lemma ByteToSector_ok:
  assumes "file_ok h" "k < length (file_sectors h)"
  shows "FileHeader_ByteToSector (int k * int SectorSize) h = Inr (file_sectors h ! k)"
    "0 \<le> file_sectors h ! k" "file_sectors h ! k < NumSectors"
proof -
  have "file_sectors h ! k = dataSectors h ! k" using assms(2) by (simp add: file_sectors_def)
  moreover have "k < length (dataSectors h)" using assms(2) by (simp add: file_sectors_def)
  ultimately show "FileHeader_ByteToSector (int k * int SectorSize) h = Inr (file_sectors h ! k)"
    by (simp add: FileHeader_ByteToSector_def sdiv_nonneg)
  show "0 \<le> file_sectors h ! k" "file_sectors h ! k < NumSectors" using assms by (auto simp: file_ok_def)
qed

lemma mapR_cong:
  "(\<And>x s. x \<in> set xs \<Longrightarrow> f x s = g (h x) s) \<Longrightarrow> mapR f xs s = mapR g (map h xs) s"
  by (induction xs arbitrary: s) simp_all

lemma foldR_cong:
  "(\<And>x s. x \<in> set xs \<Longrightarrow> f x s = g (h x) s) \<Longrightarrow> foldR f xs s = foldR g (map h xs) s"
proof (induction xs arbitrary: s)
  case (Cons x xs)
  then have "foldR f xs = foldR g (map h xs)" by (intro ext) simp
  then show ?case using Cons.prems by simp
qed simp

text \<open>Reading the sectors of the file from number \<open>a\<close> to number \<open>b\<close>.\<close>

lemma read_sectors:
  assumes "file_ok h" "sd_ok sd" "a \<le> b" "b < length (file_sectors h)"
  shows "\<exists>bufs sd'. mapR (read_file_sector h) [int a..int b] sd = Inr (bufs, sd') \<and> sd_ok sd' \<and> sector sd' = sector sd
     \<and> concat bufs = take (SectorSize * (Suc b - a)) (drop (SectorSize * a) (raw_bytes h sd))"
proof -
  let ?ss = "take (Suc b - a) (drop a (file_sectors h))"
  have "mapR (read_file_sector h) [int a..int b] sd = mapR ReadSector (map (\<lambda>i. file_sectors h ! nat i) [int a..int b]) sd"
  proof (rule mapR_cong)
    fix i s assume "i \<in> set [int a..int b]"
    moreover from this have "nat i < length (file_sectors h)" using assms(4) by auto
    ultimately have "read_file_sector h (int (nat i)) s = ReadSector (file_sectors h ! nat i) s"
      using ByteToSector_ok(1) [OF assms(1), of "nat i"] by (simp add: read_file_sector_def)
    then show "read_file_sector h i s = ReadSector (file_sectors h ! nat i) s" using \<open>i \<in> _\<close> by simp
  qed
  also have "map (\<lambda>i. file_sectors h ! nat i) [int a..int b] = ?ss"
    using assms(3,4) unfolding upto_nat by (intro nth_equalityI) (auto simp: nat_int_add simp del: upt_Suc)
  finally have "mapR (read_file_sector h) [int a..int b] sd = mapR ReadSector ?ss sd" .
  moreover have "\<forall>i\<in>set ?ss. 0 \<le> i \<and> i < NumSectors"
    using assms(1) by (auto simp: file_ok_def dest!: in_set_takeD in_set_dropD)
  then obtain sd' where "mapR ReadSector ?ss sd = Inr (map (sector sd) ?ss, sd')" "sd_ok sd'" "sector sd' = sector sd"
    using sdisk.read_run [OF assms(2)] by blast
  moreover have "concat (map (sector sd) ?ss) = take (SectorSize * (Suc b - a)) (drop (SectorSize * a) (raw_bytes h sd))"
    unfolding raw_bytes_def take_map [symmetric] drop_map [symmetric]
    by (subst concat_take [of _ SectorSize], use sdisk.length_content in \<open>auto dest!: in_set_dropD\<close>)
      (subst concat_drop [of _ SectorSize], auto simp: sdisk.length_content)
  ultimately show ?thesis by simp
qed

lemma buf_get_ok: "off + n \<le> length buf \<Longrightarrow> buf_get buf (int off) (int n) = Inr (take n (drop off buf))"
  by (simp add: buf_get_def)

lemma last_sector_bound:
  assumes "0 < n" "p + n \<le> nat (numBytes h)" "file_ok h"
  shows "p div SectorSize \<le> (p + n - 1) div SectorSize" "(p + n - 1) div SectorSize < length (file_sectors h)"
proof -
  show "p div SectorSize \<le> (p + n - 1) div SectorSize" using assms(1) by (intro div_le_mono) simp
  have "p + n - 1 < SectorSize * length (file_sectors h)"
    using assms(1,2) sectors_length(2,3) [OF assms(3), of undefined] by linarith
  then show "(p + n - 1) div SectorSize < length (file_sectors h)" by (simp add: less_mult_imp_div_less mult.commute)
qed

text \<open>The clipped request of \<open>n\<close> bytes at \<open>p\<close>, both within the file.\<close>

lemma ReadAt_inside:
  assumes "file_ok (hdr f)" "sd_ok sd" "0 < n" "p + n \<le> nat (numBytes (hdr f))"
  shows "\<exists>bufs sd'. mapR (read_file_sector (hdr f)) [divRoundDown (int p) 128..divRoundDown (int p + int n - 1) 128] sd = Inr (bufs, sd')
      \<and> sd_ok sd' \<and> sector sd' = sector sd
      \<and> buf_get (concat bufs) (int p - divRoundDown (int p) 128 * 128) (int n) = Inr (take n (drop p (file_bytes (hdr f) sd)))"
proof -
  define a b where "a = p div SectorSize" and "b = (p + n - 1) div SectorSize"
  have ab: "a \<le> b" "b < length (file_sectors (hdr f))"
    using last_sector_bound [OF assms(3,4,1)] by (simp_all add: a_def b_def)
  have d: "divRoundDown (int p) 128 = int a" "divRoundDown (int p + int n - 1) 128 = int b"
    using assms(3) by (simp_all add: divRoundDown_def sdiv_nonneg a_def b_def zdiv_int of_nat_diff)
  have pa: "128 * a \<le> p" "p + n \<le> 128 * Suc b"
  proof -
    show "128 * a \<le> p" by (simp add: a_def)
    have "p + n - 1 < 128 * Suc b" unfolding b_def by (metis dividend_less_times_div zero_less_numeral mult_Suc_right add.commute mult.commute)
    then show "p + n \<le> 128 * Suc b" using assms(3) by simp
  qed
  obtain bufs sd' where r: "mapR (read_file_sector (hdr f)) [int a..int b] sd = Inr (bufs, sd')" "sd_ok sd'" "sector sd' = sector sd"
      "concat bufs = take (SectorSize * (Suc b - a)) (drop (SectorSize * a) (raw_bytes (hdr f) sd))"
    using read_sectors [OF assms(1,2) ab] by blast
  have len: "length (concat bufs) = 128 * (Suc b - a)"
  proof -
    have "128 * (Suc b - a) \<le> 128 * length (file_sectors (hdr f)) - 128 * a" using ab by (simp add: diff_mult_distrib2)
    then show ?thesis using r(4) sectors_length(2) [OF assms(1), of sd] by simp
  qed
  have "buf_get (concat bufs) (int (p - 128 * a)) (int n) = Inr (take n (drop (p - 128 * a) (concat bufs)))"
    using len pa ab by (intro buf_get_ok) (simp add: algebra_simps)
  also have "take n (drop (p - 128 * a) (concat bufs)) = take n (drop p (raw_bytes (hdr f) sd))"
    using pa ab unfolding r(4) by (simp add: take_drop min_def algebra_simps)
  also have "\<dots> = take n (drop p (file_bytes (hdr f) sd))"
    using assms(4) by (simp add: file_bytes_def take_drop min_def)
  finally show ?thesis using r pa unfolding d by (simp add: of_nat_diff mult.commute)
qed

lemma ReadAt_ok:
  assumes "file_ok (hdr f)" "sd_ok sd" "0 \<le> p" "int32_ok (p + n)"
  shows "\<exists>sd'. OpenFile_ReadAt n p f sd = Inr (take (nat n) (drop (nat p) (file_bytes (hdr f) sd)), sd')
     \<and> sd_ok sd' \<and> sector sd' = sector sd"
proof (cases "n \<le> 0 \<or> numBytes (hdr f) \<le> p")
  case True
  then have "take (nat n) (drop (nat p) (file_bytes (hdr f) sd)) = []"
    using sectors_length(4) [OF assms(1), of sd] by auto
  then show ?thesis using True assms(2) by (simp add: OpenFile_ReadAt_def FileHeader_FileLength_def)
next
  case False
  define m where "m = nat (min n (numBytes (hdr f) - p))"
  have m: "0 < m" "nat p + m \<le> nat (numBytes (hdr f))" "int m = min n (numBytes (hdr f) - p)" "int (nat p) = p"
    using False assms(3) by (auto simp: m_def)
  have e: "take m (drop (nat p) (file_bytes (hdr f) sd)) = take (nat n) (drop (nat p) (file_bytes (hdr f) sd))"
    using sectors_length(4) [OF assms(1), of sd] m False by (cases "n \<le> numBytes (hdr f) - p") (auto simp: m_def)
  have c: "(if p + n > numBytes (hdr f) then numBytes (hdr f) - p else n) = int m" using m(3) by auto
  show ?thesis using ReadAt_inside [OF assms(1,2) m(1,2)] False assms(4) unfolding e m(4)
    by (auto simp: OpenFile_ReadAt_def FileHeader_FileLength_def add_int_def c Let_def)
qed


section \<open>Writing\<close>

lemma buf_put_ok:
  assumes "off + length bs \<le> length buf"
  shows "\<exists>buf'. buf_put buf (int off) bs = Inr buf' \<and> length buf' = length buf
     \<and> (\<forall>t<length buf. buf' ! t = (if off \<le> t \<and> t < off + length bs then bs ! (t - off) else buf ! t))"
proof -
  let ?b = "take off buf @ bs @ drop (off + length bs) buf"
  have "?b ! t = (if off \<le> t \<and> t < off + length bs then bs ! (t - off) else buf ! t)" if "t < length buf" for t
    using that assms by (auto simp: nth_append)
  moreover have "buf_put buf (int off) bs = Inr ?b" using assms by (simp add: buf_put_def nat_int_add)
  ultimately show ?thesis using assms by (intro exI [of _ ?b]) simp
qed

text \<open>
  The two partial sectors are read in. Position \<open>t\<close> of the buffer stands for byte \<open>SectorSize * a + t\<close> of the
  file; \<open>agrees\<close> says that the buffer holds the byte the file has there.
\<close>

definition agrees :: "byte list \<Rightarrow> nat \<Rightarrow> byte list \<Rightarrow> nat \<Rightarrow> bool" where
  "agrees fb a buf t \<longleftrightarrow> buf ! t = fb ! (SectorSize * a + t)"

lemma read_into_ok:
  assumes "file_ok (hdr f)" "sd_ok sd" "a \<le> k" "SectorSize * (Suc k - a) \<le> length buf" "k < NumDirect"
  shows "\<exists>buf' sd'. read_into buf (int (SectorSize * (k - a))) (int (SectorSize * k)) f sd = Inr (buf', sd')
     \<and> sd_ok sd' \<and> sector sd' = sector sd \<and> length buf' = length buf
     \<and> (\<forall>t<length buf. SectorSize * a + t < nat (numBytes (hdr f)) \<longrightarrow>
          agrees (file_bytes (hdr f) sd) a buf t \<or> SectorSize * (k - a) \<le> t \<and> t < SectorSize * (Suc k - a) \<longrightarrow>
          agrees (file_bytes (hdr f) sd) a buf' t)"
proof -
  let ?fb = "file_bytes (hdr f) sd"
  let ?bs = "take SectorSize (drop (SectorSize * k) ?fb)"
  have "int32_ok (int (SectorSize * k) + int SectorSize)" using assms(5) by (simp add: int32_ok_def)
  then obtain sd' where r: "OpenFile_ReadAt (int SectorSize) (int (SectorSize * k)) f sd = Inr (?bs, sd')"
      "sd_ok sd'" "sector sd' = sector sd"
    using ReadAt_ok [OF assms(1,2), of "int (SectorSize * k)" "int SectorSize"] by (auto simp: nat_mult_distrib)
  have "SectorSize * (k - a) + length ?bs \<le> length buf" using assms(3,4) by (simp add: Suc_diff_le)
  from buf_put_ok [OF this] obtain buf' where b: "buf_put buf (int (SectorSize * (k - a))) ?bs = Inr buf'"
      "length buf' = length buf"
      "\<forall>t<length buf. buf' ! t = (if SectorSize * (k - a) \<le> t \<and> t < SectorSize * (k - a) + length ?bs
          then ?bs ! (t - SectorSize * (k - a)) else buf ! t)" by blast
  have "agrees ?fb a buf' t"
    if t: "t < length buf" "SectorSize * a + t < nat (numBytes (hdr f))"
      "agrees ?fb a buf t \<or> SectorSize * (k - a) \<le> t \<and> t < SectorSize * (Suc k - a)" for t
  proof (cases "SectorSize * (k - a) \<le> t \<and> t < SectorSize * (k - a) + length ?bs")
    case True
    then have "buf' ! t = ?fb ! (SectorSize * k + (t - SectorSize * (k - a)))"
      using b(3) t(1) by (simp add: min_def split: if_splits)
    moreover have "SectorSize * k + (t - SectorSize * (k - a)) = SectorSize * a + t"
    proof -
      have "SectorSize * (k - a) + SectorSize * a = SectorSize * k" using assms(3) by (simp add: diff_mult_distrib2)
      then show ?thesis using True by linarith
    qed
    ultimately show ?thesis unfolding agrees_def by metis
  next
    case False
    have "t < SectorSize * (k - a) + length ?bs" if "SectorSize * (k - a) \<le> t" "t < SectorSize * (Suc k - a)"
      using that t(2) assms(3) sectors_length(4) [OF assms(1), of sd] by (simp add: Suc_diff_le diff_mult_distrib2 min_def) arith
    then have "agrees ?fb a buf t" using t(3) False by blast
    then show ?thesis using b(3) t(1) False unfolding agrees_def by metis
  qed
  then show ?thesis using r b(1,2) by (simp add: read_into_def)
qed


lemma partial_sectors:
  fixes p n :: nat
  defines "a \<equiv> p div SectorSize" and "b \<equiv> (p + n - 1) div SectorSize"
  assumes "file_ok (hdr f)" "sd_ok sd" "0 < n" "p + n \<le> nat (numBytes (hdr f))" "length buf = SectorSize * (Suc b - a)"
  shows "\<exists>buf1 sd1 buf2 sd2.
       (if p = SectorSize * a then Inr (buf, sd) else read_into buf 0 (int (SectorSize * a)) f sd) = Inr (buf1, sd1)
     \<and> (if p + n \<noteq> SectorSize * Suc b \<and> (a \<noteq> b \<or> p = SectorSize * a)
        then read_into buf1 (int (SectorSize * (b - a))) (int (SectorSize * b)) f sd1 else Inr (buf1, sd1)) = Inr (buf2, sd2)
     \<and> sd_ok sd2 \<and> sector sd2 = sector sd \<and> length buf2 = length buf
     \<and> (\<forall>t<length buf. SectorSize * a + t < nat (numBytes (hdr f)) \<longrightarrow> SectorSize * a + t < p \<or> p + n \<le> SectorSize * a + t \<longrightarrow>
          agrees (file_bytes (hdr f) sd) a buf2 t)"
proof -
  let ?fb = "file_bytes (hdr f) sd" and ?N = "nat (numBytes (hdr f))"
  have ab: "a \<le> b" "b < length (file_sectors (hdr f))"
    using last_sector_bound [OF assms(5,6,3)] by (simp_all add: a_def b_def)
  then have b30: "a < NumDirect" "b < NumDirect" using assms(3) sectors_length(1) [OF assms(3)] by (auto simp: file_ok_def)
  have p: "SectorSize * a \<le> p" "p < SectorSize * Suc a" "SectorSize * b \<le> p + n - 1" "p + n \<le> SectorSize * Suc b"
    using assms(5) unfolding a_def b_def by simp_all
  have fb2: "file_bytes (hdr f) sd1 = ?fb" if "sector sd1 = sector sd" for sd1
    using that by (simp add: file_bytes_def raw_bytes_def)
  obtain buf1 sd1 where 1: "(if p = SectorSize * a then Inr (buf, sd) else read_into buf 0 (int (SectorSize * a)) f sd) = Inr (buf1, sd1)"
      "sd_ok sd1" "sector sd1 = sector sd" "length buf1 = length buf"
      "\<forall>t<length buf. SectorSize * a + t < ?N \<longrightarrow> p \<noteq> SectorSize * a \<longrightarrow> t < SectorSize \<longrightarrow> agrees ?fb a buf1 t"
    using read_into_ok [OF assms(3,4), of a a buf] assms(4,7) b30 ab by (cases "p = SectorSize * a") (auto simp: Suc_diff_le)
  let ?c = "p + n \<noteq> SectorSize * Suc b \<and> (a \<noteq> b \<or> p = SectorSize * a)"
  obtain buf2 sd2 where 2: "(if ?c then read_into buf1 (int (SectorSize * (b - a))) (int (SectorSize * b)) f sd1 else Inr (buf1, sd1)) = Inr (buf2, sd2)"
      "sd_ok sd2" "sector sd2 = sector sd" "length buf2 = length buf"
      "\<forall>t<length buf. SectorSize * a + t < ?N \<longrightarrow> agrees ?fb a buf1 t \<or> ?c \<and> SectorSize * (b - a) \<le> t \<longrightarrow> agrees ?fb a buf2 t"
    using read_into_ok [OF assms(3) 1(2) ab(1), of buf1] 1(2,3,4) assms(7) b30 fb2 [OF 1(3)] by (cases ?c) auto
  have "agrees ?fb a buf2 t"
    if t: "t < length buf" "SectorSize * a + t < ?N" "SectorSize * a + t < p \<or> p + n \<le> SectorSize * a + t" for t
  proof (cases "SectorSize * a + t < p")
    case True
    then have "agrees ?fb a buf1 t" using 1(5) t p by simp
    then show ?thesis using 2(5) t by blast
  next
    case False
    then have n: "p + n \<le> SectorSize * a + t" using t(3) by blast
    moreover have "SectorSize * a + t < SectorSize * Suc b" using t(1) assms(7) ab(1) by (simp add: diff_mult_distrib2)
    ultimately have "p + n \<noteq> SectorSize * Suc b" "SectorSize * b \<le> SectorSize * a + t" using p(3) by linarith+
    then have "?c \<and> SectorSize * (b - a) \<le> t \<or> a = b \<and> p \<noteq> SectorSize * a" by (auto simp: diff_mult_distrib2)
    moreover have "agrees ?fb a buf1 t" if "a = b" "p \<noteq> SectorSize * a" using 1(5) t that assms(7) by simp
    ultimately show ?thesis using 2(5) t by blast
  qed
  then show ?thesis using 1(1) 2 by blast
qed

text \<open>Writing the buffer back to the sectors from number \<open>a\<close> to number \<open>b\<close>.\<close>

definition chunk :: "byte list \<Rightarrow> nat \<Rightarrow> byte list" where
  "chunk buf i = take SectorSize (drop (SectorSize * i) buf)"

lemma concat_chunks: "concat (map (chunk buf) [0..<m]) = take (SectorSize * m) buf"
  by (induction m) (simp_all add: chunk_def take_add [symmetric] add.commute)

lemma write_sectors:
  assumes "file_ok h" "sd_ok sd" "a \<le> b" "b < length (file_sectors h)" "length buf = SectorSize * (Suc b - a)"
  shows "\<exists>sd'. foldR (write_file_sector h (int a) buf) [int a..int b] sd = Inr sd' \<and> sd_ok sd'
     \<and> raw_bytes h sd' = take (SectorSize * a) (raw_bytes h sd) @ buf @ drop (SectorSize * Suc b) (raw_bytes h sd)
     \<and> (\<forall>j. 0 \<le> j \<longrightarrow> j \<notin> set (file_sectors h) \<longrightarrow> sector sd' j = sector sd j)"
proof -
  let ?fs = "file_sectors h"
  define ps where "ps = map (\<lambda>k. (?fs ! k, chunk buf (k - a))) [a..<Suc b]"
  have clen: "length (chunk buf (k - a)) = SectorSize" if "a \<le> k" "k < Suc b" for k
  proof -
    have "SectorSize * (k - a) + SectorSize \<le> SectorSize * (Suc b - a)" using that by (simp add: diff_mult_distrib2)
    then show ?thesis using assms(5) by (simp add: chunk_def)
  qed
  have "foldR (write_file_sector h (int a) buf) [int a..int b] sd
      = foldR (\<lambda>p. WriteSector (fst p) (snd p)) (map (\<lambda>i. (?fs ! nat i, chunk buf (nat i - a))) [int a..int b]) sd"
  proof (rule foldR_cong)
    fix i s assume "i \<in> set [int a..int b]"
    then obtain k where k: "i = int k" "a \<le> k" "k < Suc b" by (metis atLeastAtMost_iff less_Suc_eq_le nat_0_le nat_le_iff of_nat_0_le_iff order_trans set_upto zle_int)
    have "SectorSize * (k - a) + SectorSize \<le> length buf" using k assms(5) by (simp add: diff_mult_distrib2)
    from buf_get_ok [OF this] have "buf_get buf ((int k - int a) * int SectorSize) (int SectorSize) = Inr (chunk buf (k - a))"
      using k(2) by (simp add: chunk_def of_nat_diff mult.commute)
    then show "write_file_sector h (int a) buf i s = WriteSector (fst (?fs ! nat i, chunk buf (nat i - a))) (snd (?fs ! nat i, chunk buf (nat i - a))) s"
      using ByteToSector_ok(1) [OF assms(1), of k] k assms(4) by (simp add: write_file_sector_def)
  qed
  also have "map (\<lambda>i. (?fs ! nat i, chunk buf (nat i - a))) [int a..int b] = ps"
    by (simp add: upto_nat ps_def del: upt_Suc)
  finally have f: "foldR (write_file_sector h (int a) buf) [int a..int b] sd = foldR (\<lambda>p. WriteSector (fst p) (snd p)) ps sd" .
  have d: "distinct ?fs" using assms(1) by (simp add: file_ok_def)
  have "distinct (map fst ps)"
    unfolding ps_def using d assms(4) by (auto simp: distinct_map inj_on_def nth_eq_iff_index_eq simp del: upt_Suc)
  moreover have "\<forall>p\<in>set ps. 0 \<le> fst p \<and> fst p < NumSectors \<and> length (snd p) = SectorSize"
    using ByteToSector_ok(2,3) [OF assms(1)] assms(4) clen by (auto simp: ps_def simp del: upt_Suc)
  ultimately obtain sd' where w: "foldR (\<lambda>p. WriteSector (fst p) (snd p)) ps sd = Inr sd'" "sd_ok sd'"
      "\<forall>p\<in>set ps. sector sd' (fst p) = snd p" "\<forall>j. 0 \<le> j \<longrightarrow> j \<notin> fst ` set ps \<longrightarrow> sector sd' j = sector sd j"
    using sdisk.write_run [OF assms(2)] by blast
  have inside: "sector sd' (?fs ! k) = chunk buf (k - a)" if "a \<le> k" "k < Suc b" for k
    using w(3) that by (force simp: ps_def simp del: upt_Suc)
  have out: "sector sd' (?fs ! k) = sector sd (?fs ! k)" if "k < length ?fs" "k < a \<or> b < k" for k
    using w(4) ByteToSector_ok(2) [OF assms(1) that(1)] that d assms(4)
    by (auto simp: ps_def nth_eq_iff_index_eq simp del: upt_Suc)
  let ?R = "map (sector sd) ?fs"
  have "map (sector sd') ?fs = take a ?R @ map (chunk buf) [0..<Suc b - a] @ drop (Suc b) ?R"
    by (rule nth_equalityI) (use assms(3,4) inside out in \<open>auto simp: nth_append simp del: upt_Suc\<close>)
  then have "raw_bytes h sd' = concat (take a ?R) @ take (SectorSize * (Suc b - a)) buf @ concat (drop (Suc b) ?R)"
    by (simp add: raw_bytes_def concat_chunks del: upt_Suc)
  also have "\<dots> = take (SectorSize * a) (raw_bytes h sd) @ buf @ drop (SectorSize * Suc b) (raw_bytes h sd)"
    using assms(5) concat_take [of ?R SectorSize a] concat_drop [of ?R SectorSize "Suc b"]
    by (simp add: raw_bytes_def sdisk.length_content)
  finally have "raw_bytes h sd' = \<dots>" .
  moreover have "fst ` set ps \<subseteq> set ?fs" using assms(4) by (auto simp: ps_def simp del: upt_Suc)
  then have "\<forall>j. 0 \<le> j \<longrightarrow> j \<notin> set ?fs \<longrightarrow> sector sd' j = sector sd j" using w(4) by blast
  ultimately show ?thesis using f w(1,2) by simp
qed


text \<open>Overwriting the bytes of a sequence from position \<open>p\<close> on, without changing its length.\<close>

definition overwrite :: "byte list \<Rightarrow> nat \<Rightarrow> byte list \<Rightarrow> byte list" where
  "overwrite fb p bs = take p fb @ take (length fb - p) bs @ drop (p + length bs) fb"

lemma length_overwrite [simp]: "length (overwrite fb p bs) = length fb"
  by (simp add: overwrite_def) 

lemma overwrite_nth:
  "j < length fb \<Longrightarrow> overwrite fb p bs ! j = (if p \<le> j \<and> j < p + length bs then bs ! (j - p) else fb ! j)"
  by (auto simp: overwrite_def nth_append min_def)

lemma read_overwritten:
  assumes "p + length bs \<le> length fb" "length bs \<le> n" "length bs = n \<or> p + length bs = length fb"
  shows "take n (drop p (overwrite fb p bs)) = bs"
proof -
  have "drop p (overwrite fb p bs) = bs @ drop (p + length bs) fb" using assms(1) by (simp add: overwrite_def)
  then show ?thesis using assms(2,3) by auto
qed

lemma WriteAt_inside:
  fixes p n :: nat
  defines "a \<equiv> p div SectorSize" and "b \<equiv> (p + n - 1) div SectorSize"
  assumes "file_ok (hdr f)" "sd_ok sd" "0 < n" "p + n \<le> nat (numBytes (hdr f))" "length buf2 = SectorSize * (Suc b - a)"
    and "length data = n"
    and "\<forall>t<length buf2. SectorSize * a + t < nat (numBytes (hdr f)) \<longrightarrow> SectorSize * a + t < p \<or> p + n \<le> SectorSize * a + t \<longrightarrow>
          agrees (file_bytes (hdr f) sd) a buf2 t"
  shows "\<exists>buf3 sd'. buf_put buf2 (int p - int (SectorSize * a)) data = Inr buf3
     \<and> foldR (write_file_sector (hdr f) (int a) buf3) [int a..int b] sd = Inr sd' \<and> sd_ok sd'
     \<and> file_bytes (hdr f) sd' = overwrite (file_bytes (hdr f) sd) p data
     \<and> (\<forall>j. 0 \<le> j \<longrightarrow> j \<notin> set (file_sectors (hdr f)) \<longrightarrow> sector sd' j = sector sd j)"
proof -
  let ?fb = "file_bytes (hdr f) sd" and ?N = "nat (numBytes (hdr f))" and ?raw = "raw_bytes (hdr f)"
  have ab: "a \<le> b" "b < length (file_sectors (hdr f))"
    using last_sector_bound [OF assms(5,6,3)] by (simp_all add: a_def b_def)
  have p: "SectorSize * a \<le> p" "p + n \<le> SectorSize * Suc b"
    using assms(5) unfolding a_def b_def by simp_all
  have l2: "length buf2 = SectorSize * Suc b - SectorSize * a" using assms(7) ab by (simp add: diff_mult_distrib2)
  have "p - SectorSize * a + length data \<le> length buf2" using p assms(8) l2 by linarith
  from buf_put_ok [OF this] obtain buf3 where b3: "buf_put buf2 (int (p - SectorSize * a)) data = Inr buf3"
      "length buf3 = length buf2"
      "\<forall>t<length buf2. buf3 ! t = (if p - SectorSize * a \<le> t \<and> t < p - SectorSize * a + length data
         then data ! (t - (p - SectorSize * a)) else buf2 ! t)" by blast
  have "length buf3 = SectorSize * (Suc b - a)" using b3(2) assms(7) by simp
  from write_sectors [OF assms(3,4) ab this] obtain sd' where w:
      "foldR (write_file_sector (hdr f) (int a) buf3) [int a..int b] sd = Inr sd'" "sd_ok sd'"
      "?raw sd' = take (SectorSize * a) (?raw sd) @ buf3 @ drop (SectorSize * Suc b) (?raw sd)"
      "\<forall>j. 0 \<le> j \<longrightarrow> j \<notin> set (file_sectors (hdr f)) \<longrightarrow> sector sd' j = sector sd j" by blast
  have raw: "length (?raw sd) = SectorSize * length (file_sectors (hdr f))" "SectorSize * Suc b \<le> length (?raw sd)"
    using sectors_length(2) [OF assms(3)] ab by simp_all
  have "file_bytes (hdr f) sd' = overwrite ?fb p data"
  proof (rule nth_equalityI)
    show "length (file_bytes (hdr f) sd') = length (overwrite ?fb p data)" using sectors_length(4) [OF assms(3)] by simp
    fix j assume "j < length (file_bytes (hdr f) sd')"
    then have j: "j < ?N" using sectors_length(4) [OF assms(3)] by simp
    then have fj: "file_bytes (hdr f) sd' ! j = ?raw sd' ! j" "?fb ! j = ?raw sd ! j" "j < length ?fb"
      using sectors_length(4) [OF assms(3)] by (simp_all add: file_bytes_def)
    show "file_bytes (hdr f) sd' ! j = overwrite ?fb p data ! j"
    proof (cases "SectorSize * a \<le> j \<and> j < SectorSize * Suc b")
      case True
      define t where "t = j - SectorSize * a"
      have t: "t < length buf2" "SectorSize * a + t = j" using True l2 by (auto simp: t_def)
      have "?raw sd' ! j = buf3 ! t"
        using True raw b3(2) t unfolding w(3) t_def by (simp add: nth_append)
      also have "buf3 ! t = (if p \<le> j \<and> j < p + n then data ! (j - p) else buf2 ! t)"
        using b3(3) t p(1) assms(8) by (auto simp: add.commute)
      finally have "?raw sd' ! j = (if p \<le> j \<and> j < p + n then data ! (j - p) else buf2 ! t)" .
      moreover have "buf2 ! t = ?fb ! j" if "\<not> (p \<le> j \<and> j < p + n)"
        using assms(9) t j that unfolding agrees_def by (metis linorder_not_le)
      ultimately show ?thesis using fj overwrite_nth [OF fj(3)] assms(8) by auto
    next
      case False
      have "?raw sd' ! j = ?raw sd ! j"
        using False raw b3(2) l2 ab unfolding w(3) by (auto simp: nth_append)
      moreover have "\<not> (p \<le> j \<and> j < p + n)" using False p by linarith
      ultimately show ?thesis using fj overwrite_nth [OF fj(3)] assms(8) by auto
    qed
  qed
  then show ?thesis using b3(1) w p(1) by (auto simp: of_nat_diff)
qed


lemma overwrite_Nil [simp]: "overwrite fb p [] = fb"
  by (simp add: overwrite_def)

lemma WriteAt_ok:
  fixes p n :: int
  defines "m f \<equiv> max 0 (min n (numBytes (hdr f) - p))"
  assumes "file_ok (hdr f)" "sd_ok sd" "0 \<le> p" "int32_ok (p + n)" "nat (m f) \<le> length from"
  shows "\<exists>sd'. OpenFile_WriteAt mem from n p f sd = Inr (m f, sd') \<and> sd_ok sd'
     \<and> file_bytes (hdr f) sd' = overwrite (file_bytes (hdr f) sd) (nat p) (take (nat (m f)) from)
     \<and> (\<forall>j. 0 \<le> j \<longrightarrow> j \<notin> set (file_sectors (hdr f)) \<longrightarrow> sector sd' j = sector sd j)"
proof (cases "n \<le> 0 \<or> numBytes (hdr f) \<le> p")
  case True
  then have "m f = 0" by (auto simp: m_def)
  then show ?thesis using True assms(3) by (simp add: OpenFile_WriteAt_def FileHeader_FileLength_def)
next
  case False
  define q k where "q = nat p" and "k = nat (m f)"
  define a b where "a = q div SectorSize" and "b = (q + k - 1) div SectorSize"
  have k: "0 < k" "q + k \<le> nat (numBytes (hdr f))" "int k = m f" "p = int q" "k \<le> length from"
    using False assms(4,6) by (auto simp: m_def q_def k_def)
  have c: "(if p + n > numBytes (hdr f) then numBytes (hdr f) - p else n) = int k" using k(3) False by (auto simp: m_def)
  have d: "divRoundDown (int q) 128 = int a" "divRoundDown (int q + int k - 1) 128 = int b"
    using k(1) by (simp_all add: divRoundDown_def sdiv_nonneg a_def b_def zdiv_int of_nat_diff)
  have ab: "a \<le> b" using last_sector_bound(1) [OF k(1,2) assms(2)] by (simp add: a_def b_def)
  let ?buf = "map mem [0..<nat ((1 + int b - int a) * 128)]"
  have lb: "length ?buf = SectorSize * (Suc b - a)" using ab by simp
  obtain buf1 sd1 buf2 sd2 where 1: "(if q = SectorSize * a then Inr (?buf, sd) else read_into ?buf 0 (int (SectorSize * a)) f sd) = Inr (buf1, sd1)"
     "(if q + k \<noteq> SectorSize * Suc b \<and> (a \<noteq> b \<or> q = SectorSize * a)
        then read_into buf1 (int (SectorSize * (b - a))) (int (SectorSize * b)) f sd1 else Inr (buf1, sd1)) = Inr (buf2, sd2)"
    and 2: "sd_ok sd2" "sector sd2 = sector sd" "length buf2 = SectorSize * (Suc b - a)"
     "\<forall>t<length buf2. SectorSize * a + t < nat (numBytes (hdr f)) \<longrightarrow> SectorSize * a + t < q \<or> q + k \<le> SectorSize * a + t \<longrightarrow>
          agrees (file_bytes (hdr f) sd) a buf2 t"
    using partial_sectors [OF assms(2,3) k(1,2) lb [unfolded a_def b_def], folded a_def b_def] lb by auto
  have fb: "file_bytes (hdr f) sd2 = file_bytes (hdr f) sd" using 2(2) by (simp add: file_bytes_def raw_bytes_def)
  obtain buf3 sd' where 3: "buf_put buf2 (int q - int (SectorSize * a)) (take k from) = Inr buf3"
      "foldR (write_file_sector (hdr f) (int a) buf3) [int a..int b] sd2 = Inr sd'" "sd_ok sd'"
      "file_bytes (hdr f) sd' = overwrite (file_bytes (hdr f) sd) q (take k from)"
      "\<forall>j. 0 \<le> j \<longrightarrow> j \<notin> set (file_sectors (hdr f)) \<longrightarrow> sector sd' j = sector sd j"
    using WriteAt_inside [OF assms(2) 2(1) k(1,2), of buf2 "take k from"] 2 k(5) unfolding a_def [symmetric] b_def [symmetric] fb
    by auto
  have g: "buf_get from 0 (int k) = Inr (take k from)" using buf_get_ok [of 0 k "from"] k(5) by simp
  have al: "(int q = int a * 128) = (q = 128 * a)" "(int q + int k = (int b + 1) * 128) = (q + k = 128 * Suc b)"
    "(int b - int a) * 128 = int (128 * (b - a))" "int a * 128 = int (128 * a)" "int b * 128 = int (128 * b)"
    using ab by (simp_all add: of_nat_diff) linarith+
  have "write_range mem from (int k) (int q) f sd = Inr (int k, sd')"
    unfolding write_range_def Let_def of_nat_numeral d al using 1 3(1,2) g by (simp del: of_nat_mult of_nat_add)
  then have "OpenFile_WriteAt mem from n p f sd = Inr (int k, sd')"
    using False assms(5) unfolding k(4) [symmetric]
    by (simp add: OpenFile_WriteAt_def FileHeader_FileLength_def add_int_def Let_def c)
  then show ?thesis using 3(3-5) k(3) unfolding q_def k_def by simp
qed


section \<open>Properties\<close>

text \<open>
  C18 (functional): \<^verbatim>\<open>ReadAt\<close> returns the bytes of the file from \<^verbatim>\<open>position\<close> on, at most \<^verbatim>\<open>numBytes\<close> of
  them and clipped at the end of the file, whatever the alignment, and changes no sector.
\<close>

theorem read_at_correct:
  assumes "file_ok (hdr f)" "sd_ok sd" "0 \<le> p" "int32_ok (p + n)"
  shows "\<exists>sd'. OpenFile_ReadAt n p f sd = Inr (take (nat n) (drop (nat p) (file_bytes (hdr f) sd)), sd')
     \<and> sd_ok sd' \<and> sector sd' = sector sd"
  by (rule ReadAt_ok [OF assms])

definition demo_file :: OpenFile where
  "demo_file = \<lparr>hdr = \<lparr>numBytes = 300, numSectors = 3, dataSectors = [9, 4, 12] @ replicate 27 0\<rparr>, seekPosition = 0\<rparr>"

lemma demo_file_ok: "file_ok (hdr demo_file)"
  by (simp add: file_ok_def demo_file_def file_sectors_def sectors_for_def divRoundUp_pos)

theorem read_at_correct_witness:
  "\<exists>bs sd'. OpenFile_ReadAt 200 150 demo_file demo_disk = Inr (bs, sd') \<and> length bs = 150"
  using read_at_correct [OF demo_file_ok demo_disk_ok, of 150 200] sectors_length(4) [OF demo_file_ok, of demo_disk]
  by (auto simp: int32_ok_def demo_file_def)

text \<open>
  C3 (functional): \<^verbatim>\<open>WriteAt\<close> writes as many bytes as fit before the end of the file and overwrites exactly
  that range of the file's bytes, whatever the alignment and whatever the uninitialised buffer
  held; sectors that are not the file's keep their content, so files with other sectors do too.
\<close>

theorem write_at_correct:
  assumes "file_ok (hdr f)" "sd_ok sd" "0 \<le> p" "int32_ok (p + n)" "nat n \<le> length from"
    and "set (file_sectors h2) \<inter> set (file_sectors (hdr f)) = {}" "file_ok h2"
  shows "\<exists>m sd'. OpenFile_WriteAt mem from n p f sd = Inr (m, sd') \<and> sd_ok sd'
     \<and> m = max 0 (min n (OpenFile_Length f - p))
     \<and> file_bytes (hdr f) sd' = overwrite (file_bytes (hdr f) sd) (nat p) (take (nat m) from)
     \<and> (\<forall>j. 0 \<le> j \<longrightarrow> j \<notin> set (file_sectors (hdr f)) \<longrightarrow> sector sd' j = sector sd j)
     \<and> file_bytes h2 sd' = file_bytes h2 sd"
proof -
  obtain sd' where w: "OpenFile_WriteAt mem from n p f sd = Inr (max 0 (min n (numBytes (hdr f) - p)), sd')" "sd_ok sd'"
     "file_bytes (hdr f) sd' = overwrite (file_bytes (hdr f) sd) (nat p) (take (nat (max 0 (min n (numBytes (hdr f) - p)))) from)"
     "\<forall>j. 0 \<le> j \<longrightarrow> j \<notin> set (file_sectors (hdr f)) \<longrightarrow> sector sd' j = sector sd j"
    using WriteAt_ok [OF assms(1-4), of "from" mem] assms(5) by fastforce
  have "map (sector sd') (file_sectors h2) = map (sector sd) (file_sectors h2)"
    using w(4) assms(6,7) by (auto simp: file_ok_def)
  then have "file_bytes h2 sd' = file_bytes h2 sd" unfolding file_bytes_def raw_bytes_def by metis
  then show ?thesis using w by (simp add: OpenFile_Length_def FileHeader_FileLength_def)
qed

theorem write_at_correct_witness:
  "\<exists>sd'. OpenFile_WriteAt (\<lambda>_. 7) [1, 2, 3] 3 127 demo_file demo_disk = Inr (3, sd')
     \<and> file_bytes (hdr demo_file) sd' = overwrite (file_bytes (hdr demo_file) demo_disk) 127 [1, 2, 3]"
proof -
  have "file_ok empty_hdr" by (simp add: file_ok_def empty_hdr_def file_sectors_def sectors_for_def divRoundUp_pos)
  then show ?thesis
    using write_at_correct [OF demo_file_ok demo_disk_ok, of 127 3 "[1, 2, 3]" empty_hdr "\<lambda>_. 7"]
    by (auto simp: int32_ok_def demo_file_def OpenFile_Length_def FileHeader_FileLength_def empty_hdr_def file_sectors_def)
qed

text \<open>
  What is written at the current position and then read back from that position is
  what was written; both calls advance the position by the number of bytes moved.
\<close>

theorem write_seek_read:
  assumes "file_ok (hdr f)" "sd_ok sd" "0 \<le> seekPosition f" "int32_ok (seekPosition f + n)" "nat n \<le> length from"
  shows "\<exists>m f1 sd1 f2 sd2. OpenFile_Write mem from n f sd = Inr (m, f1, sd1) \<and> seekPosition f1 = seekPosition f + m
     \<and> OpenFile_Read n (OpenFile_Seek (seekPosition f) f1) sd1 = Inr (take (nat m) from, f2, sd2)
     \<and> seekPosition f2 = seekPosition f1 \<and> hdr f2 = hdr f \<and> m = max 0 (min n (OpenFile_Length f - seekPosition f))"
proof -
  let ?p = "seekPosition f" and ?fb = "file_bytes (hdr f) sd"
  define m where "m = max 0 (min n (numBytes (hdr f) - ?p))"
  obtain sd1 where w: "OpenFile_WriteAt mem from n ?p f sd = Inr (m, sd1)" "sd_ok sd1"
     "file_bytes (hdr f) sd1 = overwrite ?fb (nat ?p) (take (nat m) from)"
    using WriteAt_ok [OF assms(1-4), of "from" mem] assms(5) unfolding m_def by fastforce
  let ?f1 = "f\<lparr>seekPosition := ?p + m\<rparr>"
  have "file_ok (hdr (OpenFile_Seek ?p ?f1))" using assms(1) by (simp add: OpenFile_Seek_def)
  from ReadAt_ok [OF this w(2) assms(3,4)] obtain sd2 where
    r: "OpenFile_ReadAt n ?p (OpenFile_Seek ?p ?f1) sd1 = Inr (take (nat n) (drop (nat ?p) (file_bytes (hdr f) sd1)), sd2)"
    by (auto simp: OpenFile_Seek_def)
  have l: "length ?fb = nat (numBytes (hdr f))" by (rule sectors_length(4) [OF assms(1)])
  have lm: "length (take (nat m) from) = nat m" using assms(5) by (simp add: m_def)
  have "take (nat n) (drop (nat ?p) (overwrite ?fb (nat ?p) (take (nat m) from))) = take (nat m) from"
  proof (cases "m = 0")
    case True
    then have "n \<le> 0 \<or> length ?fb \<le> nat ?p" using l by (auto simp: m_def)
    then show ?thesis using True by auto
  next
    case False
    then have "nat ?p + nat m \<le> length ?fb" "nat m \<le> nat n" "nat m = nat n \<or> nat ?p + nat m = length ?fb" "0 \<le> ?p"
      using l assms(3) by (auto simp: m_def max_def min_def split: if_splits)
    then show ?thesis using lm by (intro read_overwritten) simp_all
  qed
  then show ?thesis using w(1) r w(3) lm
    by (simp add: OpenFile_Write_def OpenFile_Read_def OpenFile_Seek_def OpenFile_Length_def FileHeader_FileLength_def m_def)
qed

theorem write_seek_read_witness:
  "\<exists>f1 sd1 f2 sd2. OpenFile_Write (\<lambda>_. 0) [5, 6] 2 demo_file demo_disk = Inr (2, f1, sd1)
     \<and> OpenFile_Read 2 (OpenFile_Seek 0 f1) sd1 = Inr ([5, 6], f2, sd2)"
  using write_seek_read [OF demo_file_ok demo_disk_ok, of 2 "[5, 6]" "\<lambda>_. 0"]
  by (auto simp: int32_ok_def demo_file_def OpenFile_Length_def FileHeader_FileLength_def)

end
