(* ===== verification/AddrSpace.thy ===== *)
theory AddrSpace
  imports FrameProvider OpenFile
begin

text \<open>
  Address spaces (\<^verbatim>\<open>userprog/addrspace.cc\<close>): loading an executable, the page table and its frames, the registers
  of a new program, the context switch, and the table of the threads that live in the space. The locks of the
  object are taken by its callers around these routines, so each routine is one step here; the condition
  variables a routine broadcasts on are returned as events.
\<close>

section \<open>Executables\<close>

record Segment =
  sVirtualAddr :: int
  sInFileAddr :: int
  ssize :: int

record NoffHeader =
  noffMagic :: int
  code :: Segment
  initData :: Segment
  uninitData :: Segment

abbreviation (input) NOFFMAGIC :: int where "NOFFMAGIC \<equiv> 0xbadfad"
abbreviation (input) noff_size :: nat where "noff_size \<equiv> 40"

definition dec_header :: "byte list \<Rightarrow> NoffHeader" where
  "dec_header bs =
     (let f = (\<lambda>i. dec_int (take 4 (drop (4 * i) bs)));
          seg = (\<lambda>i. \<lparr>sVirtualAddr = f i, sInFileAddr = f (i + 1), ssize = f (i + 2)\<rparr>)
      in \<lparr>noffMagic = f 0, code = seg 1, initData = seg 4, uninitData = seg 7\<rparr>)"

definition swap_int :: "int \<Rightarrow> int" where
  "swap_int x = sint (WordToHost (word_of_int x))"

definition swap_segment :: "Segment \<Rightarrow> Segment" where
  "swap_segment s = \<lparr>sVirtualAddr = swap_int (sVirtualAddr s), sInFileAddr = swap_int (sInFileAddr s), ssize = swap_int (ssize s)\<rparr>"

definition SwapHeader :: "NoffHeader \<Rightarrow> NoffHeader" where
  "SwapHeader h = \<lparr>noffMagic = swap_int (noffMagic h), code = swap_segment (code h), initData = swap_segment (initData h),
     uninitData = swap_segment (uninitData h)\<rparr>"

section \<open>The object\<close>

text \<open>
  The macros are not parenthesised, so \<open>UserThreadMax\<close> is \<^verbatim>\<open>1024 * 2 / 128 * 3\<close> and not the number of stacks of
  \<open>UserThreadStackSize\<close> bytes that fit into the user stack.
\<close>

abbreviation (input) UserStackSize :: int where "UserStackSize \<equiv> 2048"
abbreviation (input) UserThreadStackSize :: int where "UserThreadStackSize \<equiv> 384"
abbreviation (input) UserThreadMax :: nat where "UserThreadMax \<equiv> 48"

record AddrSpace =
  threadIDs :: "32 word list"
  threadStackPointer :: "bool list"
  nbThreads :: int
  maxTIDGiven :: "32 word"
  isCreated :: bool
  numPages :: nat
  space_table :: "TranslationEntry list option"
  pid :: int

text \<open>The kernel state a new address space uses: frames and machine, the process table and the disk.\<close>

record 'w kernel = "'w frames" +
  pids :: "int list"
  kdisk :: SynchDisk

text \<open>Memory that is used before it is initialised: the buffer of the header, the new table and the object itself.\<close>

record fresh_memory =
  fm_bytes :: "nat \<Rightarrow> byte"
  fm_entry :: "nat \<Rightarrow> TranslationEntry"
  fm_space :: AddrSpace

definition read_header :: "fresh_memory \<Rightarrow> OpenFile \<Rightarrow> 'w kernel \<Rightarrow> (NoffHeader \<times> 'w kernel) res" where
  "read_header mem executable k =
     bindR (OpenFile_ReadAt (int noff_size) 0 executable (kdisk k)) (\<lambda>(bs, sd).
     let h = dec_header (bs @ map (fm_bytes mem) [length bs..<noff_size])
     in Inr (if noffMagic h \<noteq> NOFFMAGIC \<and> swap_int (noffMagic h) = NOFFMAGIC then SwapHeader h else h, k\<lparr>kdisk := sd\<rparr>))"

text \<open>The sum of the sizes is a signed sum, then an \<^verbatim>\<open>unsigned int\<close>.\<close>

definition space_size :: "NoffHeader \<Rightarrow> int res" where
  "space_size h =
     bindR (add_int (ssize (code h)) (ssize (initData h))) (\<lambda>a.
     bindR (add_int a (ssize (uninitData h))) (\<lambda>b.
     bindR (add_int b UserStackSize) (\<lambda>s. Inr (s mod 2 ^ 32))))"

definition map_page :: "('w \<Rightarrow> nat \<times> 'w) \<Rightarrow> nat \<Rightarrow> 'w kernel \<Rightarrow> (TranslationEntry \<times> 'w kernel) res" where
  "map_page rand i k =
     bindR (IsFrameAvail k) (\<lambda>avail.
     if avail then bindR (GetEmptyFrame rand k) (\<lambda>(f, k').
       Inr (\<lparr>virtualPage = of_nat i, physicalPage = word_of_int f, valid = True, readOnly = False, useBit = False, dirty = False\<rparr>, k'))
     else Inl AssertFailed)"

text \<open>
  \<^verbatim>\<open>ReadAtVirtual\<close>: the bytes are stored through the machine with the page table under construction, and the
  machine gets its own table back. The table keeps the use and dirty bits the stores have set.
\<close>

definition put_byte :: "unit handler \<Rightarrow> int \<Rightarrow> int \<times> byte \<Rightarrow> Machine \<Rightarrow> Machine res" where
  "put_byte eh virtualaddr ib m =
     bindR (add_int virtualaddr (fst ib)) (\<lambda>va. bindR (WriteMem eh (word_of_int va) 1 (scast (snd ib)) m) (\<lambda>(_, m'). Inr m'))"

definition ReadAtVirtual ::
  "unit handler \<Rightarrow> OpenFile \<Rightarrow> int \<Rightarrow> int \<Rightarrow> int \<Rightarrow> TranslationEntry list \<Rightarrow> nat \<Rightarrow> 'w kernel \<Rightarrow> (TranslationEntry list \<times> 'w kernel) res" where
  "ReadAtVirtual eh executable virtualaddr nbytes position pt np k =
     bindR (OpenFile_ReadAt nbytes position executable (kdisk k)) (\<lambda>(bs, sd).
     let m = machine k; m1 = m\<lparr>pageTable := Some pt, pageTableSize := of_nat np\<rparr> in
     bindR (foldR (put_byte eh virtualaddr) (zip (map int [0..<length bs]) bs) m1) (\<lambda>m2.
     Inr (case pageTable m2 of Some pt' \<Rightarrow> pt' | None \<Rightarrow> pt,
          k\<lparr>kdisk := sd, machine := m2\<lparr>pageTable := pageTable m, pageTableSize := pageTableSize m\<rparr>\<rparr>)))"

definition load_segment ::
  "unit handler \<Rightarrow> OpenFile \<Rightarrow> Segment \<Rightarrow> nat \<Rightarrow> TranslationEntry list \<times> 'w kernel \<Rightarrow> (TranslationEntry list \<times> 'w kernel) res" where
  "load_segment eh executable s np ptk =
     (if ssize s > 0 then ReadAtVirtual eh executable (sVirtualAddr s) (ssize s) (sInFileAddr s) (fst ptk) np (snd ptk)
      else Inr ptk)"

text \<open>The last loop of the constructor: the first free process number. With none free, \<^verbatim>\<open>pid\<close> is not set.\<close>

definition take_pid :: "int \<Rightarrow> 'w kernel \<Rightarrow> (int \<times> 'w kernel) res" where
  "take_pid unset k =
     bindR (scan (\<lambda>p. p = 0) 0 64 (pids k)) (\<lambda>i.
     if i = -1 then Inr (unset, k)
     else bindR (arr_set (pids k) i 1) (\<lambda>ps. Inr (i, k\<lparr>pids := ps\<rparr>)))"

definition InitThreadStackPointer :: "AddrSpace \<Rightarrow> AddrSpace res" where
  "InitThreadStackPointer a =
     bindR (foldR (\<lambda>i ps. arr_set ps i False) (map int [0..<UserThreadMax]) (threadStackPointer a)) (\<lambda>ps.
     Inr (a\<lparr>threadStackPointer := ps\<rparr>))"

definition AddrSpace_new ::
  "fresh_memory \<Rightarrow> ('w \<Rightarrow> nat \<times> 'w) \<Rightarrow> unit handler \<Rightarrow> OpenFile \<Rightarrow> 'w kernel \<Rightarrow> (AddrSpace \<times> 'w kernel) res" where
  "AddrSpace_new mem rand eh executable k =
     bindR (read_header mem executable k) (\<lambda>(noffH, k1).
     bindR (ASSERT (noffMagic noffH = NOFFMAGIC)) (\<lambda>_.
     bindR (space_size noffH) (\<lambda>size.
     let np = nat (divRoundUp size (int PageSize)) in
     bindR (ASSERT (np \<le> NumPhysPages)) (\<lambda>_.
     bindR (NumAvailFrame k1) (\<lambda>avail.
     if avail < int np
     then Inr ((fm_space mem)\<lparr>numPages := np, space_table := Some (map (fm_entry mem) [0..<np]), isCreated := False\<rparr>, k1)
     else bindR (mapR (map_page rand) [0..<np] k1) (\<lambda>ptk2.
          bindR (load_segment eh executable (code noffH) np ptk2) (\<lambda>ptk3.
          bindR (load_segment eh executable (initData noffH) np ptk3) (\<lambda>(pt, k4).
          bindR (InitThreadStackPointer (fm_space mem)) (\<lambda>a0.
          bindR (arr_set (threadIDs a0) 0 1) (\<lambda>ids.
          bindR (take_pid (pid (fm_space mem)) k4) (\<lambda>(p, k5).
          Inr (a0\<lparr>numPages := np, space_table := Some pt, nbThreads := 1, threadIDs := ids, maxTIDGiven := 1,
                 isCreated := True, pid := p\<rparr>, k5))))))))))))"

section \<open>Frames, registers and context switch\<close>

definition on_frames ::
  "(int \<Rightarrow> ('w, 'z) frames_scheme \<Rightarrow> ('w, 'z) frames_scheme res) \<Rightarrow> AddrSpace \<Rightarrow> ('w, 'z) frames_scheme \<Rightarrow> ('w, 'z) frames_scheme res" where
  "on_frames f a k =
     foldR (\<lambda>i k. case space_table a of
              None \<Rightarrow> Inl NullDeref
            | Some pt \<Rightarrow> bindR (arr_get pt (int i)) (\<lambda>e. if valid e then f (sint (physicalPage e)) k else Inr k))
       [0..<numPages a] k"

definition FreeFrames :: "AddrSpace \<Rightarrow> ('w, 'z) frames_scheme \<Rightarrow> ('w, 'z) frames_scheme res" where
  "FreeFrames = on_frames ReleaseFrame"

definition RestoreFrames :: "AddrSpace \<Rightarrow> ('w, 'z) frames_scheme \<Rightarrow> ('w, 'z) frames_scheme res" where
  "RestoreFrames = on_frames SetFrame"

definition InitRegisters :: "AddrSpace \<Rightarrow> Machine \<Rightarrow> Machine res" where
  "InitRegisters a m =
     bindR (foldR (\<lambda>i. WriteRegister i 0) (map int [0..<NumTotalRegs]) m) (\<lambda>m1.
     bindR (WriteRegister (int PCReg) 0 m1) (\<lambda>m2.
     bindR (WriteRegister (int NextPCReg) 4 m2) (\<lambda>m3.
     WriteRegister (int StackReg) (of_nat (numPages a) * of_nat PageSize - 16) m3)))"

definition SaveState :: "Machine \<Rightarrow> AddrSpace \<Rightarrow> AddrSpace" where
  "SaveState m a = a\<lparr>space_table := pageTable m, numPages := unat (pageTableSize m)\<rparr>"

definition RestoreState :: "AddrSpace \<Rightarrow> Machine \<Rightarrow> Machine" where
  "RestoreState a m = m\<lparr>pageTable := space_table a, pageTableSize := of_nat (numPages a)\<rparr>"

section \<open>Threads of an address space\<close>

definition GetTotalThreads :: "AddrSpace \<Rightarrow> int" where
  "GetTotalThreads a = nbThreads a"

definition GetNextThreadID :: "AddrSpace \<Rightarrow> 32 word \<times> AddrSpace" where
  "GetNextThreadID a = (maxTIDGiven a + 1, a\<lparr>maxTIDGiven := maxTIDGiven a + 1\<rparr>)"

definition ContainThreadID :: "32 word \<Rightarrow> AddrSpace \<Rightarrow> bool res" where
  "ContainThreadID ID a = bindR (scan (\<lambda>t. t = ID) 0 (nbThreads a) (threadIDs a)) (\<lambda>i. Inr (i \<noteq> -1))"

definition AddThreadID :: "32 word \<Rightarrow> AddrSpace \<Rightarrow> AddrSpace res" where
  "AddThreadID ID a =
     bindR (ContainThreadID ID a) (\<lambda>c.
     if c then Inr a
     else bindR (arr_set (threadIDs a) (nbThreads a) ID) (\<lambda>ts. Inr (a\<lparr>threadIDs := ts, nbThreads := nbThreads a + 1\<rparr>)))"

datatype cond_event = JoinBroadcast "32 word" | ExitBroadcast

text \<open>The join condition of a thread is found by indexing \<^verbatim>\<open>threadConditions\<close> with its identifier.\<close>

definition ThreadJoinConditionBroadcast :: "32 word \<Rightarrow> cond_event res" where
  "ThreadJoinConditionBroadcast ID = (if unat ID < UserThreadMax then Inr (JoinBroadcast ID) else Inl OutOfBounds)"

definition ThreadExitConditionBroadcast :: cond_event where
  "ThreadExitConditionBroadcast = ExitBroadcast"

definition RemoveThreadID :: "32 word \<Rightarrow> AddrSpace \<Rightarrow> (cond_event list \<times> AddrSpace) res" where
  "RemoveThreadID ID a =
     bindR (scan (\<lambda>t. t = ID) 0 (nbThreads a) (threadIDs a)) (\<lambda>i.
     if i = -1 then Inr ([], a)
     else bindR (foldR (\<lambda>j ts. bindR (arr_get ts (j + 1)) (arr_set ts j)) [i..nbThreads a - 2] (threadIDs a)) (\<lambda>ts.
          bindR (ThreadJoinConditionBroadcast ID) (\<lambda>e.
          Inr ([e, ThreadExitConditionBroadcast], a\<lparr>threadIDs := ts, nbThreads := nbThreads a - 1\<rparr>))))"

text \<open>
  The stack pointer of a thread is computed in unsigned arithmetic and returned as an \<^verbatim>\<open>int\<close>. To give a slot back,
  its index is recomputed from the stack pointer by \<^verbatim>\<open>(UserStackSize - sp) / UserThreadStackSize\<close>, which the
  macros turn into \<^verbatim>\<open>(1024 * 2 - sp) / 128 * 3\<close>.
\<close>

definition slot_sp :: "nat \<Rightarrow> int \<Rightarrow> int" where
  "slot_sp np i = sint (word_of_int (int np * int PageSize - 16 - (i + 1) * UserThreadStackSize) :: 32 word)"

definition GetThreadStackPointer :: "AddrSpace \<Rightarrow> (int \<times> AddrSpace) res" where
  "GetThreadStackPointer a =
     bindR (scan (\<lambda>b. \<not> b) 0 (int UserThreadMax) (threadStackPointer a)) (\<lambda>i.
     if i = -1 then Inl AssertFailed
     else bindR (arr_set (threadStackPointer a) i True) (\<lambda>ps. Inr (slot_sp (numPages a) i, a\<lparr>threadStackPointer := ps\<rparr>)))"

definition RemoveThreadStackPointer :: "int \<Rightarrow> AddrSpace \<Rightarrow> AddrSpace res" where
  "RemoveThreadStackPointer sp a =
     bindR (arr_set (threadStackPointer a) ((UserStackSize - sp) sdiv int PageSize * 3) False) (\<lambda>ps.
     Inr (a\<lparr>threadStackPointer := ps\<rparr>))"

end
