(* ===== verification/ProgramLoad.thy ===== *)
theory ProgramLoad
  imports AddrSpace
begin

text \<open>
  Loading a program: a new address space gets frames of its own, its memory as seen through its page table is the
  image the executable describes, and nothing else in physical memory changes. From this follows that address
  spaces are isolated from each other, and that deleting a space gives its frames back.
\<close>

section \<open>Memory through a page table\<close>

text \<open>The frames of a table, the physical address of a virtual one, and the memory a program sees.\<close>

definition table_frames :: "TranslationEntry list \<Rightarrow> int list" where
  "table_frames pt = map (\<lambda>e. uint (physicalPage e)) pt"

definition table_good :: "TranslationEntry list \<Rightarrow> bool" where
  "table_good pt \<longleftrightarrow> distinct (table_frames pt) \<and> length pt \<le> NumPhysPages
     \<and> (\<forall>e\<in>set pt. valid e \<and> \<not> readOnly e \<and> unat (physicalPage e) < NumPhysPages)"

definition phys :: "TranslationEntry list \<Rightarrow> nat \<Rightarrow> nat" where
  "phys pt va = unat (physicalPage (pt ! (va div PageSize))) * PageSize + va mod PageSize"

definition vmem :: "TranslationEntry list \<Rightarrow> (nat \<Rightarrow> byte) \<Rightarrow> nat \<Rightarrow> byte" where
  "vmem pt mem va = mem (phys pt va)"

definition same_map :: "TranslationEntry list \<Rightarrow> TranslationEntry list \<Rightarrow> bool" where
  "same_map pt pt' \<longleftrightarrow> map entry_key pt' = map entry_key pt"

lemma same_map_refl [simp]: "same_map pt pt"
  by (simp add: same_map_def)

lemma same_map_trans: "same_map a b \<Longrightarrow> same_map b c \<Longrightarrow> same_map a c"
  by (simp add: same_map_def)

lemma same_map_length: "same_map pt pt' \<Longrightarrow> length pt' = length pt"
  unfolding same_map_def by (rule map_eq_imp_length_eq)

lemma same_map_nth: "same_map pt pt' \<Longrightarrow> i < length pt \<Longrightarrow> physicalPage (pt' ! i) = physicalPage (pt ! i) \<and> valid (pt' ! i) = valid (pt ! i)
    \<and> readOnly (pt' ! i) = readOnly (pt ! i)"
  using keys_nth [of pt' pt i] by (simp add: same_map_def entry_key_def)

lemma same_map_frames: "same_map pt pt' \<Longrightarrow> table_frames pt' = table_frames pt"
  using same_map_nth same_map_length by (intro nth_equalityI) (auto simp: table_frames_def)

lemma same_map_good: "same_map pt pt' \<Longrightarrow> table_good pt \<Longrightarrow> table_good pt'"
  using same_map_frames [of pt pt'] same_map_length [of pt pt'] same_map_nth [of pt pt']
  by (auto simp: table_good_def in_set_conv_nth) (metis nth_mem)+

lemma same_map_phys: "same_map pt pt' \<Longrightarrow> va < PageSize * length pt \<Longrightarrow> phys pt' va = phys pt va"
  using same_map_nth [of pt pt' "va div PageSize"] by (simp add: phys_def less_mult_imp_div_less mult.commute)

lemma phys_frame: "va < PageSize * length pt \<Longrightarrow> int (phys pt va div PageSize) \<in> set (table_frames pt)"
proof -
  assume "va < PageSize * length pt"
  then have "va div PageSize < length pt" by (simp add: less_mult_imp_div_less mult.commute)
  moreover have "phys pt va div PageSize = unat (physicalPage (pt ! (va div PageSize)))" by (simp add: phys_def)
  ultimately show ?thesis by (auto simp: table_frames_def)
qed

lemma phys_inj:
  assumes "table_good pt" "va < PageSize * length pt" "vb < PageSize * length pt" "phys pt va = phys pt vb"
  shows "va = vb"
proof -
  have i: "va div PageSize < length pt" "vb div PageSize < length pt"
    using assms(2,3) by (simp_all add: less_mult_imp_div_less mult.commute)
  have "phys pt va div PageSize = phys pt vb div PageSize" "phys pt va mod PageSize = phys pt vb mod PageSize" using assms(4) by simp_all
  then have e: "table_frames pt ! (va div PageSize) = table_frames pt ! (vb div PageSize)" and m: "va mod PageSize = vb mod PageSize"
    using i by (simp_all add: phys_def table_frames_def flip: word_unat_eq_iff)
  have "va div PageSize = vb div PageSize"
    using nth_eq_iff_index_eq [of "table_frames pt" "va div PageSize" "vb div PageSize"] e i assms(1)
    by (simp add: table_good_def table_frames_def)
  then show ?thesis using m by (metis div_mult_mod_eq)
qed

lemma phys_bound:
  assumes "table_good pt" "va < PageSize * length pt"
  shows "phys pt va + 1 \<le> MemorySize"
proof -
  have "va div PageSize < length pt" using assms(2) by (simp add: less_mult_imp_div_less mult.commute)
  then have "unat (physicalPage (pt ! (va div PageSize))) < 256" using assms(1) by (simp add: table_good_def)
  moreover have "va mod 128 < 128" by simp
  ultimately show ?thesis unfolding phys_def by linarith
qed

section \<open>Storing a segment\<close>

text \<open>The machine with a table installed.\<close>

definition with_table :: "TranslationEntry list \<Rightarrow> (nat \<Rightarrow> byte) \<Rightarrow> Machine \<Rightarrow> Machine" where
  "with_table pt mem m = m\<lparr>pageTable := Some pt, pageTableSize := of_nat (length pt), mainMemory := mem\<rparr>"

lemma scast_byte: "ucast (scast (b :: byte) :: 32 word) = b"
proof (rule bit_word_eqI)
  fix n assume "n < LENGTH(8)"
  then have "n < 8" "min 7 n = n" by auto
  then show "bit (ucast (scast b :: 32 word) :: byte) n = bit b n" by (simp add: bit_ucast_iff bit_signed_iff)
qed

lemma small_nat_word: "n \<le> 32768 \<Longrightarrow> unat (of_nat n :: 32 word) = n"
  by (simp add: unat_of_nat)

text \<open>A byte stored at an address of the space lands in its frame; the table only gets its use and dirty bits.\<close>

lemma put_byte_ok:
  assumes "tlb m = None" "table_good pt" "0 \<le> va" "0 \<le> i" "nat (va + i) < PageSize * length pt"
  shows "\<exists>pt'. put_byte eh va (i, b) (with_table pt mem m) = Inr (with_table pt' (mem(phys pt (nat (va + i)) := b)) m) \<and> same_map pt pt'"
proof -
  define x where "x = nat (va + i)"
  let ?v = "x div PageSize"
  have len: "length pt \<le> 256" using assms(2) by (simp add: table_good_def)
  then have x: "x < 32768" "va + i = int x" "x < PageSize * length pt" using assms(3-5) by (auto simp: x_def)
  then have v: "?v < length pt" by (simp add: less_mult_imp_div_less mult.commute)
  have u: "unat (word_of_int (int x) :: 32 word) = x" "unat (of_nat (length pt) :: 32 word) = length pt"
    using small_nat_word [of x] small_nat_word [of "length pt"] x(1) len by simp_all
  have e: "valid (pt ! ?v)" "\<not> readOnly (pt ! ?v)" "unat (physicalPage (pt ! ?v)) < 256" using assms(2) v by (simp_all add: table_good_def)
  let ?e = "(pt ! ?v)\<lparr>useBit := True, dirty := True\<rparr>"
  have p: "phys pt x + 1 \<le> MemorySize" by (rule phys_bound [OF assms(2) x(3)])
  have t: "Translate_entry (pt ! ?v) (x mod PageSize) 1 True = Inr (Phys (phys pt x), ?e)"
    using e p by (simp add: Translate_entry_def phys_def Let_def)
  have "put_byte eh va (i, b) (with_table pt mem m) = Inr (with_table (pt[?v := ?e]) (mem(phys pt x := b)) m)"
    using assms(1) u v e(1) t x(1,2) p
    by (simp add: put_byte_def add_int_def int32_ok_def WriteMem_def Translate_def with_table_def Let_def store_mem_def mem_set_def
        ucast_and_mask8 scast_byte)
  moreover have "same_map pt (pt[?v := ?e])"
    unfolding same_map_def by (rule map_update_same) (use v in \<open>simp_all add: entry_key_def\<close>)
  ultimately show ?thesis by (auto simp: x_def)
qed

text \<open>A list of bytes stored at consecutive addresses.\<close>

definition stored_at :: "nat \<Rightarrow> byte list \<Rightarrow> (nat \<Rightarrow> byte) \<Rightarrow> nat \<Rightarrow> byte" where
  "stored_at va bs img x = (if va \<le> x \<and> x < va + length bs then bs ! (x - va) else img x)"

definition outside_kept :: "TranslationEntry list \<Rightarrow> (nat \<Rightarrow> byte) \<Rightarrow> (nat \<Rightarrow> byte) \<Rightarrow> bool" where
  "outside_kept pt mem mem' \<longleftrightarrow> (\<forall>a. int (a div PageSize) \<notin> set (table_frames pt) \<longrightarrow> mem' a = mem a)"

lemma put_bytes_ok:
  assumes "tlb m = None" "table_good pt" "0 \<le> va" "nat va + length bs \<le> PageSize * length pt"
  shows "\<exists>pt' mem'. foldR (put_byte eh va) (zip (map int [0..<length bs]) bs) (with_table pt mem m) = Inr (with_table pt' mem' m)
     \<and> same_map pt pt' \<and> outside_kept pt mem mem'
     \<and> (\<forall>x<PageSize * length pt. vmem pt mem' x = stored_at (nat va) bs (vmem pt mem) x)"
  using assms(4)
proof (induction bs rule: rev_induct)
  case Nil
  then show ?case by (intro exI [of _ pt] exI [of _ mem]) (auto simp: outside_kept_def stored_at_def)
next
  case (snoc b bs)
  then obtain pt1 mem1 where 1: "foldR (put_byte eh va) (zip (map int [0..<length bs]) bs) (with_table pt mem m) = Inr (with_table pt1 mem1 m)"
      "same_map pt pt1" "outside_kept pt mem mem1" "\<forall>x<PageSize * length pt. vmem pt mem1 x = stored_at (nat va) bs (vmem pt mem) x" by auto
  let ?a = "nat va + length bs"
  have l: "length pt1 = length pt" by (rule same_map_length [OF 1(2)])
  have a: "?a < PageSize * length pt" "nat (va + int (length bs)) = ?a" using snoc.prems assms(3) by (simp_all add: nat_add_distrib)
  obtain pt2 where 2: "put_byte eh va (int (length bs), b) (with_table pt1 mem1 m) = Inr (with_table pt2 (mem1(phys pt ?a := b)) m)" "same_map pt1 pt2"
    using put_byte_ok [OF assms(1) same_map_good [OF 1(2) assms(2)] assms(3), of "int (length bs)" eh b mem1] a l
      same_map_phys [OF 1(2) a(1)] by auto
  let ?mem = "mem1(phys pt ?a := b)"
  have "vmem pt ?mem x = stored_at (nat va) (bs @ [b]) (vmem pt mem) x" if x: "x < PageSize * length pt" for x
  proof -
    have "phys pt x = phys pt ?a \<longleftrightarrow> x = ?a" using phys_inj [OF assms(2) x a(1)] by auto
    then show ?thesis using 1(4) x by (auto simp: vmem_def stored_at_def nth_append)
  qed
  moreover have "outside_kept pt mem ?mem" using 1(3) phys_frame [OF a(1)] by (auto simp: outside_kept_def)
  ultimately show ?case using 1(1) 2 same_map_trans [OF 1(2) 2(2)] by auto
qed

section \<open>Loading a segment\<close>

text \<open>A segment lies inside the address space and inside the file; the image it gives.\<close>

definition seg_ok :: "int \<Rightarrow> int \<Rightarrow> Segment \<Rightarrow> bool" where
  "seg_ok len space s \<longleftrightarrow> 0 \<le> ssize s \<and> (ssize s > 0 \<longrightarrow> 0 \<le> sVirtualAddr s \<and> sVirtualAddr s + ssize s \<le> space
     \<and> 0 \<le> sInFileAddr s \<and> sInFileAddr s + ssize s \<le> len)"

definition seg_image :: "byte list \<Rightarrow> Segment \<Rightarrow> (nat \<Rightarrow> byte) \<Rightarrow> nat \<Rightarrow> byte" where
  "seg_image fb s img =
     (if ssize s > 0 then stored_at (nat (sVirtualAddr s)) (take (nat (ssize s)) (drop (nat (sInFileAddr s)) fb)) img else img)"

lemma file_bytes_same: "sector sd' = sector sd \<Longrightarrow> file_bytes h sd' = file_bytes h sd"
  by (simp add: file_bytes_def raw_bytes_def)

lemma load_segment_ok:
  assumes "tlb (machine k) = None" "table_good pt" "seg_ok (numBytes (hdr f)) (int (PageSize * length pt)) s"
    and "file_ok (hdr f)" "sd_ok (kdisk k)"
  shows "\<exists>pt' sd mem'. load_segment eh f s (length pt) (pt, k) = Inr (pt', k\<lparr>kdisk := sd, machine := (machine k)\<lparr>mainMemory := mem'\<rparr>\<rparr>)
     \<and> same_map pt pt' \<and> sd_ok sd \<and> sector sd = sector (kdisk k) \<and> outside_kept pt (mainMemory (machine k)) mem'
     \<and> (\<forall>x<PageSize * length pt. vmem pt mem' x = seg_image (file_bytes (hdr f) (kdisk k)) s (vmem pt (mainMemory (machine k))) x)"
proof (cases "ssize s > 0")
  case False
  have "k\<lparr>kdisk := kdisk k, machine := (machine k)\<lparr>mainMemory := mainMemory (machine k)\<rparr>\<rparr> = k" by simp
  then show ?thesis using False assms(5)
    by (intro exI [of _ pt] exI [of _ "kdisk k"] exI [of _ "mainMemory (machine k)"]) (simp add: load_segment_def outside_kept_def seg_image_def)
next
  case True
  let ?fb = "file_bytes (hdr f) (kdisk k)" and ?m = "machine k"
  let ?bs = "take (nat (ssize s)) (drop (nat (sInFileAddr s)) ?fb)"
  have b: "0 \<le> sVirtualAddr s" "sVirtualAddr s + ssize s \<le> int (PageSize * length pt)" "0 \<le> sInFileAddr s" "sInFileAddr s + ssize s \<le> numBytes (hdr f)"
    using assms(3) True by (auto simp: seg_ok_def)
  have "length ?fb = nat (numBytes (hdr f))" "numBytes (hdr f) \<le> 3840" using sectors_length(4,5) [OF assms(4)] by auto
  then have len: "length ?bs = nat (ssize s)" and o: "int32_ok (sInFileAddr s + ssize s)" using b True by (auto simp: int32_ok_def)
  obtain sd where sd: "OpenFile_ReadAt (ssize s) (sInFileAddr s) f (kdisk k) = Inr (?bs, sd)" "sd_ok sd" "sector sd = sector (kdisk k)"
    using ReadAt_ok [OF assms(4,5) b(3) o] by blast
  have "nat (sVirtualAddr s) + length ?bs \<le> PageSize * length pt" using len b True by linarith
  from put_bytes_ok [OF assms(1,2) b(1) this] obtain pt' mem' where
    p: "foldR (put_byte eh (sVirtualAddr s)) (zip (map int [0..<length ?bs]) ?bs) (with_table pt (mainMemory ?m) ?m) = Inr (with_table pt' mem' ?m)"
      "same_map pt pt'" "outside_kept pt (mainMemory ?m) mem'"
      "\<forall>x<PageSize * length pt. vmem pt mem' x = stored_at (nat (sVirtualAddr s)) ?bs (vmem pt (mainMemory ?m)) x" by blast
  have w: "with_table pt (mainMemory ?m) ?m = ?m\<lparr>pageTable := Some pt, pageTableSize := of_nat (length pt)\<rparr>"
    "(with_table pt' mem' ?m)\<lparr>pageTable := pageTable ?m, pageTableSize := pageTableSize ?m\<rparr> = ?m\<lparr>mainMemory := mem'\<rparr>"
    "pageTable (with_table pt' mem' ?m) = Some pt'"
    by (simp_all add: with_table_def)
  have "load_segment eh f s (length pt) (pt, k) = Inr (pt', k\<lparr>kdisk := sd, machine := ?m\<lparr>mainMemory := mem'\<rparr>\<rparr>)"
    using True sd(1) p(1) unfolding w(1) by (simp add: load_segment_def ReadAtVirtual_def Let_def w(2,3))
  then show ?thesis using sd(2,3) p(2-4) True by (auto simp: seg_image_def)
qed

section \<open>Mapping the pages\<close>

lemma map_pages_ok:
  assumes "frames_ok k" "length is \<le> card (free_frames k)"
  shows "\<exists>pt k' fp w mem'. mapR (map_page rand) is k = Inr (pt, k') \<and> length pt = length is
     \<and> (\<forall>e\<in>set pt. valid e \<and> \<not> readOnly e \<and> unat (physicalPage e) < NumPhysPages)
     \<and> distinct (table_frames pt) \<and> set (table_frames pt) \<subseteq> free_frames k \<and> frames_ok k'
     \<and> used_frames k' = used_frames k \<union> set (table_frames pt) \<and> free_frames k' = free_frames k - set (table_frames pt)
     \<and> k' = k\<lparr>fprovider := fp, seed := w, machine := (machine k)\<lparr>mainMemory := mem'\<rparr>\<rparr>
     \<and> (\<forall>a. mem' a = (if int (a div PageSize) \<in> set (table_frames pt) then 0 else mainMemory (machine k) a))"
  using assms
proof (induction "is" arbitrary: k)
  case Nil
  then show ?case
    by (intro exI [of _ "[]"] exI [of _ k] exI [of _ "fprovider k"] exI [of _ "seed k"] exI [of _ "mainMemory (machine k)"]) (simp add: table_frames_def)
next
  case (Cons i "is")
  have ne: "free_frames k \<noteq> {}" using Cons.prems(2) by auto
  from GetEmptyFrame_ok [OF Cons.prems(1) ne, of rand] obtain n k1 bm w where
    1: "GetEmptyFrame rand k = Inr (n, k1)" "n \<in> free_frames k" "frames_ok k1" "free_frames k1 = free_frames k - {n}"
      "used_frames k1 = insert n (used_frames k)"
      "k1 = k\<lparr>fprovider := (fprovider k)\<lparr>fbitmap := bm\<rparr>, seed := w,
         machine := (machine k)\<lparr>mainMemory := (\<lambda>a. if a \<in> frame_bytes n then 0 else mainMemory (machine k) a)\<rparr>\<rparr>" by blast
  have n: "0 \<le> n" "n < 256" using frame_range [OF Cons.prems(1), of n] 1(2) by auto
  then have u: "uint (word_of_int n :: 32 word) = n" by (simp add: uint_word_of_int)
  have "length is \<le> card (free_frames k1)"
    using Cons.prems(2) 1(2,4) frame_alloc.finite_unused [of k] by (simp add: card_Diff_singleton)
  from Cons.IH [OF 1(3) this] obtain pt k2 fp w2 mem' where
    2: "mapR (map_page rand) is k1 = Inr (pt, k2)" "length pt = length is"
      "\<forall>e\<in>set pt. valid e \<and> \<not> readOnly e \<and> unat (physicalPage e) < NumPhysPages" "distinct (table_frames pt)"
      "set (table_frames pt) \<subseteq> free_frames k1" "frames_ok k2" "used_frames k2 = used_frames k1 \<union> set (table_frames pt)"
      "free_frames k2 = free_frames k1 - set (table_frames pt)"
      "k2 = k1\<lparr>fprovider := fp, seed := w2, machine := (machine k1)\<lparr>mainMemory := mem'\<rparr>\<rparr>"
      "\<forall>a. mem' a = (if int (a div PageSize) \<in> set (table_frames pt) then 0 else mainMemory (machine k1) a)" by blast
  let ?e = "\<lparr>virtualPage = of_nat i, physicalPage = word_of_int n, valid = True, readOnly = False, useBit = False, dirty = False\<rparr>"
  have t: "table_frames (?e # pt) = n # table_frames pt" by (simp add: table_frames_def u)
  have "unat (word_of_int n :: 32 word) < NumPhysPages" using u n by (metis of_nat_less_iff of_nat_numeral of_nat_unat)
  moreover have "mapR (map_page rand) (i # is) k = Inr (?e # pt, k2)"
    using 1(1) 2(1) ne Cons.prems(1) by (simp add: map_page_def IsFrameAvail_ok)
  moreover have "k2 = k\<lparr>fprovider := fp, seed := w2, machine := (machine k)\<lparr>mainMemory := mem'\<rparr>\<rparr>" using 2(9) 1(6) by simp
  moreover have "\<forall>a. mem' a = (if int (a div PageSize) \<in> set (table_frames (?e # pt)) then 0 else mainMemory (machine k) a)"
    using 2(10) 1(6) frame_bytes_iff [OF n(1)] unfolding t by auto
  moreover have "distinct (table_frames (?e # pt))" "set (table_frames (?e # pt)) \<subseteq> free_frames k"
      "used_frames k2 = used_frames k \<union> set (table_frames (?e # pt))" "free_frames k2 = free_frames k - set (table_frames (?e # pt))"
    using 2(4,5,7,8) 1(2,4,5) unfolding t by auto
  ultimately show ?case using 2(2,3,6)
    by (intro exI [of _ "?e # pt"] exI [of _ k2] exI [of _ fp] exI [of _ w2] exI [of _ mem'] conjI) (assumption | simp)+
qed

section \<open>Executables\<close>

definition exe_header :: "OpenFile \<Rightarrow> SynchDisk \<Rightarrow> NoffHeader" where
  "exe_header f sd = dec_header (take noff_size (file_bytes (hdr f) sd))"

definition exe_size :: "NoffHeader \<Rightarrow> int" where
  "exe_size h = ssize (code h) + ssize (initData h) + ssize (uninitData h)"

definition exe_pages :: "NoffHeader \<Rightarrow> nat" where
  "exe_pages h = nat (divRoundUp (exe_size h + UserStackSize) (int PageSize))"

text \<open>A well-formed executable: the right magic number, and segments inside the file and inside the program's size.\<close>

definition exe_ok :: "OpenFile \<Rightarrow> SynchDisk \<Rightarrow> bool" where
  "exe_ok f sd \<longleftrightarrow> file_ok (hdr f) \<and> int noff_size \<le> numBytes (hdr f) \<and> noffMagic (exe_header f sd) = NOFFMAGIC
     \<and> seg_ok (numBytes (hdr f)) (exe_size (exe_header f sd)) (code (exe_header f sd))
     \<and> seg_ok (numBytes (hdr f)) (exe_size (exe_header f sd)) (initData (exe_header f sd))
     \<and> 0 \<le> ssize (uninitData (exe_header f sd)) \<and> ssize (uninitData (exe_header f sd)) < 2 ^ 30"

text \<open>The memory image: zero, then the code, then the initialised data.\<close>

definition program_image :: "NoffHeader \<Rightarrow> byte list \<Rightarrow> nat \<Rightarrow> byte" where
  "program_image h fb = seg_image fb (initData h) (seg_image fb (code h) (\<lambda>_. 0))"

lemma read_header_ok:
  assumes "exe_ok f (kdisk k)" "sd_ok (kdisk k)"
  shows "\<exists>sd. read_header mem f k = Inr (exe_header f (kdisk k), k\<lparr>kdisk := sd\<rparr>) \<and> sd_ok sd \<and> sector sd = sector (kdisk k)"
proof -
  have f: "file_ok (hdr f)" "int noff_size \<le> numBytes (hdr f)" using assms(1) by (simp_all add: exe_ok_def)
  obtain sd where sd: "OpenFile_ReadAt (int noff_size) 0 f (kdisk k) = Inr (take noff_size (file_bytes (hdr f) (kdisk k)), sd)" "sd_ok sd"
      "sector sd = sector (kdisk k)"
    using ReadAt_ok [OF f(1) assms(2), of 0 "int noff_size"] by (auto simp: int32_ok_def)
  moreover have "length (take noff_size (file_bytes (hdr f) (kdisk k))) = noff_size" using sectors_length(4) [OF f(1)] f(2) by simp
  ultimately show ?thesis using assms(1) by (auto simp: read_header_def Let_def exe_header_def [symmetric] exe_ok_def)
qed

lemma exe_pages_bound:
  assumes "exe_ok f sd"
  shows "space_size (exe_header f sd) = Inr (exe_size (exe_header f sd) + UserStackSize)" "0 \<le> exe_size (exe_header f sd)"
    "exe_size (exe_header f sd) \<le> int (PageSize * exe_pages (exe_header f sd))"
proof -
  let ?h = "exe_header f sd"
  have n: "numBytes (hdr f) \<le> 3840" using sectors_length(5) assms by (simp add: exe_ok_def)
  have s: "0 \<le> ssize (code ?h)" "0 \<le> ssize (initData ?h)" "ssize (code ?h) \<le> 3840" "ssize (initData ?h) \<le> 3840"
      "0 \<le> ssize (uninitData ?h)" "ssize (uninitData ?h) < 2 ^ 30"
    using assms n by (auto simp: exe_ok_def seg_ok_def)
  then show "space_size ?h = Inr (exe_size ?h + UserStackSize)" by (simp add: space_size_def add_int_def int32_ok_def exe_size_def)
  show z: "0 \<le> exe_size ?h" using s by (simp add: exe_size_def)
  have "exe_size ?h + 2048 \<le> divRoundUp (exe_size ?h + 2048) 128 * 128" using z by (intro divRoundUp_mult_ge) auto
  then show "exe_size ?h \<le> int (PageSize * exe_pages ?h)" using z divRoundUp_ge_0 [of "exe_size ?h + 2048" 128]
    by (simp add: exe_pages_def)
qed

lemma seg_ok_mono: "seg_ok len n s \<Longrightarrow> n \<le> n' \<Longrightarrow> seg_ok len n' s"
  by (auto simp: seg_ok_def)

lemma fill_array: "n \<le> length xs \<Longrightarrow> foldR (\<lambda>i ps. arr_set ps i v) (map int [0..<n]) xs = Inr (replicate n v @ drop n xs)"
proof (induction n)
  case (Suc n)
  then have "drop n xs = xs ! n # drop (Suc n) xs" by (simp add: Cons_nth_drop_Suc)
  then have "(replicate n v @ drop n xs)[n := v] = replicate (Suc n) v @ drop (Suc n) xs"
    by (simp add: list_update_append replicate_app_Cons_same)
  moreover have "n < length (replicate n v @ drop n xs)" using Suc.prems by simp
  ultimately show ?case using Suc by simp
qed simp

text \<open>Both segments loaded one after the other into a fresh table.\<close>

lemma load_segments_ok:
  assumes "tlb (machine k) = None" "table_good pt" "file_ok (hdr f)" "sd_ok (kdisk k)"
    and "seg_ok (numBytes (hdr f)) (int (PageSize * length pt)) s1" "seg_ok (numBytes (hdr f)) (int (PageSize * length pt)) s2"
  shows "\<exists>pt' sd mem'. bindR (load_segment eh f s1 (length pt) (pt, k)) (load_segment eh f s2 (length pt))
       = Inr (pt', k\<lparr>kdisk := sd, machine := (machine k)\<lparr>mainMemory := mem'\<rparr>\<rparr>)
     \<and> same_map pt pt' \<and> sd_ok sd \<and> sector sd = sector (kdisk k) \<and> outside_kept pt (mainMemory (machine k)) mem'
     \<and> (\<forall>x<PageSize * length pt. vmem pt mem' x
         = seg_image (file_bytes (hdr f) (kdisk k)) s2 (seg_image (file_bytes (hdr f) (kdisk k)) s1 (vmem pt (mainMemory (machine k)))) x)"
proof -
  let ?fb = "file_bytes (hdr f) (kdisk k)"
  obtain pt1 sd1 mem1 where
    1: "load_segment eh f s1 (length pt) (pt, k) = Inr (pt1, k\<lparr>kdisk := sd1, machine := (machine k)\<lparr>mainMemory := mem1\<rparr>\<rparr>)"
      "same_map pt pt1" "sd_ok sd1" "sector sd1 = sector (kdisk k)" "outside_kept pt (mainMemory (machine k)) mem1"
      "\<forall>x<PageSize * length pt. vmem pt mem1 x = seg_image ?fb s1 (vmem pt (mainMemory (machine k))) x"
    using load_segment_ok [OF assms(1,2,5,3,4)] by blast
  let ?k = "k\<lparr>kdisk := sd1, machine := (machine k)\<lparr>mainMemory := mem1\<rparr>\<rparr>"
  have l: "length pt1 = length pt" "table_good pt1" "table_frames pt1 = table_frames pt"
    using same_map_length same_map_good same_map_frames 1(2) assms(2) by blast+
  have v: "vmem pt1 m x = vmem pt m x" if "x < PageSize * length pt" for m x
    using same_map_phys [OF 1(2) that] by (simp add: vmem_def)
  obtain pt2 sd2 mem2 where
    2: "load_segment eh f s2 (length pt) (pt1, ?k) = Inr (pt2, ?k\<lparr>kdisk := sd2, machine := (machine ?k)\<lparr>mainMemory := mem2\<rparr>\<rparr>)"
      "same_map pt1 pt2" "sd_ok sd2" "sector sd2 = sector (kdisk k)" "outside_kept pt mem1 mem2"
      "\<forall>x<PageSize * length pt. vmem pt1 mem2 x = seg_image ?fb s2 (vmem pt1 mem1) x"
    using load_segment_ok [of ?k pt1 f s2 eh] assms(1,3,6) l 1(3,4) file_bytes_same [OF 1(4)]
    by (auto simp: outside_kept_def)
  have "vmem pt mem2 x = seg_image ?fb s2 (seg_image ?fb s1 (vmem pt (mainMemory (machine k)))) x" if x: "x < PageSize * length pt" for x
    using 2(6) 1(6) v x by (simp add: seg_image_def stored_at_def)
  moreover have "outside_kept pt (mainMemory (machine k)) mem2" using 1(5) 2(5) by (simp add: outside_kept_def)
  ultimately show ?thesis using 1(1) 2(1,3,4) same_map_trans [OF 1(2) 2(2)] by auto
qed

section \<open>Spaces\<close>

definition space_frames :: "AddrSpace \<Rightarrow> int set" where
  "space_frames a = (case space_table a of None \<Rightarrow> {} | Some pt \<Rightarrow> set (table_frames pt))"

definition space_byte :: "AddrSpace \<Rightarrow> (nat \<Rightarrow> byte) \<Rightarrow> nat \<Rightarrow> byte" where
  "space_byte a mem va = (case space_table a of None \<Rightarrow> 0 | Some pt \<Rightarrow> vmem pt mem va)"

definition space_ok :: "AddrSpace \<Rightarrow> ('w, 'z) frames_scheme \<Rightarrow> bool" where
  "space_ok a k \<longleftrightarrow> (\<exists>pt. space_table a = Some pt \<and> numPages a = length pt \<and> table_good pt) \<and> space_frames a \<subseteq> used_frames k"

definition fresh_ok :: "fresh_memory \<Rightarrow> bool" where
  "fresh_ok mem \<longleftrightarrow> length (threadIDs (fm_space mem)) = UserThreadMax \<and> length (threadStackPointer (fm_space mem)) = UserThreadMax"

lemma take_pid_ok:
  assumes "length (pids k) = 64"
  shows "\<exists>p ps. take_pid u k = Inr (p, k\<lparr>pids := ps\<rparr>) \<and> length ps = 64"
proof (cases rule: scan_cases [of "\<lambda>p. p = 0" "pids k"])
  case none
  then have "take_pid u k = Inr (u, k\<lparr>pids := pids k\<rparr>)" using assms by (simp add: take_pid_def)
  then show ?thesis using assms by blast
next
  case (some j)
  then show ?thesis using assms by (auto simp: take_pid_def)
qed

lemma frames_cong [simp]:
  "frames_ok (k\<lparr>kdisk := sd\<rparr>) = frames_ok k" "frames_ok (k\<lparr>pids := ps\<rparr>) = frames_ok k" "frames_ok (k\<lparr>machine := m\<rparr>) = frames_ok k"
  "free_frames (k\<lparr>kdisk := sd\<rparr>) = free_frames k" "used_frames (k\<lparr>kdisk := sd\<rparr>) = used_frames k"
  "used_frames (k\<lparr>pids := ps\<rparr>) = used_frames k" "used_frames (k\<lparr>machine := m\<rparr>) = used_frames k"
  by (simp_all add: frames_ok_def free_frames_def used_frames_def)

lemma AddrSpace_new_ok:
  assumes "exe_ok f (kdisk k)" "sd_ok (kdisk k)" "frames_ok k" "tlb (machine k) = None" "fresh_ok mem" "length (pids k) = 64"
    and h: "h = exe_header f (kdisk k)" and "exe_pages h \<le> card (free_frames k)"
  shows "\<exists>a k' mem'. AddrSpace_new mem rand eh f k = Inr (a, k') \<and> frames_ok k' \<and> sd_ok (kdisk k') \<and> sector (kdisk k') = sector (kdisk k)
     \<and> length (pids k') = 64 \<and> isCreated a \<and> numPages a = exe_pages h \<and> space_ok a k' \<and> space_frames a \<subseteq> free_frames k
     \<and> used_frames k' = used_frames k \<union> space_frames a \<and> free_frames k' = free_frames k - space_frames a \<and> machine k' = (machine k)\<lparr>mainMemory := mem'\<rparr>
     \<and> (\<forall>va<PageSize * numPages a. space_byte a mem' va = program_image h (file_bytes (hdr f) (kdisk k)) va)
     \<and> (\<forall>x. int (x div PageSize) \<notin> space_frames a \<longrightarrow> mem' x = mainMemory (machine k) x)"
proof -
  let ?np = "exe_pages h"
  obtain sd where sd: "read_header mem f k = Inr (h, k\<lparr>kdisk := sd\<rparr>)" "sd_ok sd" "sector sd = sector (kdisk k)"
    using read_header_ok [OF assms(1,2), of mem] h by auto
  note sz = exe_pages_bound [OF assms(1), folded h]
  let ?k1 = "k\<lparr>kdisk := sd\<rparr>"
  have "length [0..<?np] \<le> card (free_frames ?k1)" "frames_ok ?k1" using assms(3,8) by simp_all
  from map_pages_ok [OF this(2,1), of rand] obtain pt k2 fp w mem1 where
    pt: "mapR (map_page rand) [0..<?np] ?k1 = Inr (pt, k2)" "length pt = length [0..<?np]"
      "\<forall>e\<in>set pt. valid e \<and> \<not> readOnly e \<and> unat (physicalPage e) < NumPhysPages" "distinct (table_frames pt)"
      "set (table_frames pt) \<subseteq> free_frames ?k1" "frames_ok k2" "used_frames k2 = used_frames ?k1 \<union> set (table_frames pt)"
      "free_frames k2 = free_frames ?k1 - set (table_frames pt)"
      "k2 = ?k1\<lparr>fprovider := fp, seed := w, machine := (machine ?k1)\<lparr>mainMemory := mem1\<rparr>\<rparr>"
      "\<forall>a. mem1 a = (if int (a div PageSize) \<in> set (table_frames pt) then 0 else mainMemory (machine ?k1) a)"
    by blast
  note pt = pt(1) pt(2) [simplified] pt(3,4) pt(5) [simplified] pt(6) pt(7,8) [simplified] pt(9,10)
  have np: "?np \<le> NumPhysPages"
  proof -
    have "card (free_frames k) \<le> card {0..<256::int}" using frame_range [OF assms(3)] by (intro card_mono) auto
    then show ?thesis using assms(8) by simp
  qed
  have tg: "table_good pt" using pt(2-4) np by (simp add: table_good_def)
  have k2: "tlb (machine k2) = None" "kdisk k2 = sd" "mainMemory (machine k2) = mem1" "pids k2 = pids k"
    "machine k2 = (machine k)\<lparr>mainMemory := mem1\<rparr>" using pt(9) assms(4) by simp_all
  have sg: "seg_ok (numBytes (hdr f)) (int (PageSize * length pt)) (code h)" "seg_ok (numBytes (hdr f)) (int (PageSize * length pt)) (initData h)"
    using assms(1) sz(3) seg_ok_mono pt(2) unfolding exe_ok_def h by auto
  have fl: "file_ok (hdr f)" "sd_ok (kdisk k2)" using assms(1) sd(2) k2 by (simp_all add: exe_ok_def)
  let ?fb = "file_bytes (hdr f) (kdisk k)"
  have fb: "file_bytes (hdr f) sd = ?fb" by (rule file_bytes_same [OF sd(3)])
  obtain pt' sd' mem' where ld: "bindR (load_segment eh f (code h) ?np (pt, k2)) (load_segment eh f (initData h) ?np)
       = Inr (pt', k2\<lparr>kdisk := sd', machine := (machine k2)\<lparr>mainMemory := mem'\<rparr>\<rparr>)"
     "same_map pt pt'" "sd_ok sd'" "sector sd' = sector sd" "outside_kept pt mem1 mem'"
     "\<forall>x<PageSize * ?np. vmem pt mem' x = seg_image ?fb (initData h) (seg_image ?fb (code h) (vmem pt mem1)) x"
    using load_segments_ok [OF k2(1) tg fl sg, of eh] unfolding pt(2) k2(2,3) fb by blast
  have z: "vmem pt mem1 x = 0" if "x < PageSize * ?np" for x
    using phys_frame [of x pt] that pt(2,10) by (simp add: vmem_def)
  let ?k3 = "k2\<lparr>kdisk := sd', machine := (machine k2)\<lparr>mainMemory := mem'\<rparr>\<rparr>"
  obtain a0 where a0: "InitThreadStackPointer (fm_space mem) = Inr a0" "length (threadIDs a0) = 48"
    using fill_array [of 48 "threadStackPointer (fm_space mem)" False] assms(5) by (simp add: InitThreadStackPointer_def fresh_ok_def)
  obtain p ps where p: "take_pid (pid (fm_space mem)) ?k3 = Inr (p, ?k3\<lparr>pids := ps\<rparr>)" "length ps = 64"
    using take_pid_ok [of ?k3 "pid (fm_space mem)"] assms(6) k2 by auto
  let ?a = "a0\<lparr>numPages := ?np, space_table := Some pt', nbThreads := 1, threadIDs := (threadIDs a0)[0 := 1], maxTIDGiven := 1,
                 isCreated := True, pid := p\<rparr>" and ?k4 = "?k3\<lparr>pids := ps\<rparr>"
  have "AddrSpace_new mem rand eh f k = Inr (?a, ?k4)"
  proof -
    have l3: "load_segment eh f (code h) ?np (pt, k2) = Inr x \<Longrightarrow> load_segment eh f (initData h) ?np x = Inr (pt', ?k3)" for x
      using ld(1) by simp
    obtain x where x: "load_segment eh f (code h) ?np (pt, k2) = Inr x" using ld(1) by (auto simp: bindR_Inr_iff)
    have "NumAvailFrame ?k1 = Inr (int (card (free_frames k)))" using assms(3) by (simp add: NumAvailFrame_ok)
    moreover have "noffMagic h = NOFFMAGIC" using assms(1) by (simp add: exe_ok_def h)
    moreover have "nat (divRoundUp (exe_size h + 2048) 128) = ?np" by (simp add: exe_pages_def)
    ultimately show ?thesis using sd(1) sz(1) np pt(1) x l3 [OF x] a0 p assms(8) by (simp add: AddrSpace_new_def Let_def)
  qed
  moreover have sf: "space_frames ?a = set (table_frames pt)" using same_map_frames [OF ld(2)] by (simp add: space_frames_def)
  moreover have "used_frames ?k4 = used_frames k \<union> space_frames ?a" using pt(7) unfolding sf by simp
  moreover have "free_frames ?k4 = free_frames k - space_frames ?a"
    using pt(8) unfolding sf by (simp add: free_frames_def)
  moreover have "space_ok ?a ?k4"
    using same_map_good [OF ld(2) tg] same_map_length [OF ld(2)] pt(2,7) unfolding space_ok_def sf by simp
  moreover have "space_byte ?a mem' va = program_image h ?fb va" if "va < PageSize * ?np" for va
    using ld(6) that z same_map_phys [OF ld(2)] pt(2)
    by (simp add: space_byte_def program_image_def vmem_def seg_image_def stored_at_def)
  moreover have "mem' x = mainMemory (machine k) x" if "int (x div PageSize) \<notin> space_frames ?a" for x
    using that ld(5) pt(10) unfolding sf by (simp add: outside_kept_def)
  moreover have "machine ?k4 = (machine k)\<lparr>mainMemory := mem'\<rparr>" using k2(5) by simp
  ultimately show ?thesis using pt(5,6) ld(3,4) sd(3) p(2)
    by (intro exI [of _ ?a] exI [of _ ?k4] exI [of _ mem']) simp
qed

lemma AddrSpace_new_no_room:
  assumes "exe_ok f (kdisk k)" "sd_ok (kdisk k)" "frames_ok k"
    and h: "h = exe_header f (kdisk k)" and "card (free_frames k) < exe_pages h" "exe_pages h \<le> NumPhysPages"
  shows "\<exists>a sd. AddrSpace_new mem rand eh f k = Inr (a, k\<lparr>kdisk := sd\<rparr>) \<and> \<not> isCreated a \<and> sd_ok sd \<and> sector sd = sector (kdisk k)"
proof -
  obtain sd where sd: "read_header mem f k = Inr (h, k\<lparr>kdisk := sd\<rparr>)" "sd_ok sd" "sector sd = sector (kdisk k)"
    using read_header_ok [OF assms(1,2), of mem] h by auto
  have "noffMagic h = NOFFMAGIC" using assms(1) by (simp add: exe_ok_def h)
  moreover have "nat (divRoundUp (exe_size h + 2048) 128) = exe_pages h" by (simp add: exe_pages_def)
  ultimately have "AddrSpace_new mem rand eh f k = Inr ((fm_space mem)\<lparr>numPages := exe_pages h,
      space_table := Some (map (fm_entry mem) [0..<exe_pages h]), isCreated := False\<rparr>, k\<lparr>kdisk := sd\<rparr>)"
    using sd exe_pages_bound(1) [OF assms(1), folded h] assms(3,5,6) by (simp add: AddrSpace_new_def Let_def NumAvailFrame_ok del: int_nat_eq)
  then show ?thesis using sd(2,3) by auto
qed

text \<open>Releasing the frames of a space.\<close>

lemma on_frames_ok:
  assumes "space_table a = Some pt" "numPages a = length pt" "table_good pt"
  shows "on_frames g a k = foldR g (table_frames pt) k"
proof -
  have s: "sint (physicalPage e) = uint (physicalPage e)" if "e \<in> set pt" for e
  proof -
    have "unat (physicalPage e) < 256" using that assms(3) by (simp add: table_good_def)
    then have "uint (physicalPage e) < 256" by (metis of_nat_less_iff of_nat_numeral of_nat_unat)
    moreover have "- (2 ^ 31) \<le> uint (physicalPage e)" by (rule order_trans [OF _ unsigned_greater_eq]) simp
    ultimately show ?thesis using signed_take_bit_int_eq_self [of 31 "uint (physicalPage e)"] by (simp add: sint_uint)
  qed
  have "on_frames g a k = foldR g (map ((!) (table_frames pt)) [0..<length pt]) k"
    unfolding on_frames_def assms(1,2) using assms(3) s by (intro foldR_cong) (simp add: table_good_def table_frames_def)
  also have "map ((!) (table_frames pt)) [0..<length pt] = table_frames pt" using map_nth [of "table_frames pt"] by (simp add: table_frames_def)
  finally show ?thesis .
qed

lemma FreeFrames_ok:
  assumes "frames_ok k" "space_ok a k"
  shows "\<exists>k'. FreeFrames a k = Inr k' \<and> frames_ok k' \<and> used_frames k' = used_frames k - space_frames a
     \<and> free_frames k' = free_frames k \<union> space_frames a"
proof -
  obtain pt where pt: "space_table a = Some pt" "numPages a = length pt" "table_good pt" "set (table_frames pt) \<subseteq> used_frames k"
    using assms(2) by (auto simp: space_ok_def space_frames_def)
  then show ?thesis using frame_alloc.release_many [OF assms(1), of "table_frames pt"]
    unfolding FreeFrames_def on_frames_ok [OF pt(1-3)] by (auto simp: space_frames_def table_good_def)
qed

text \<open>A store through the table of one space does not change what another space sees.\<close>

lemma restored_wf: "Machine_wf m \<Longrightarrow> tlb m = None \<Longrightarrow> space_ok a k \<Longrightarrow> Machine_wf (RestoreState a m)"
  by (auto simp: Machine_wf_def RestoreState_def tables_ok_def reg_def space_ok_def table_good_def unat_of_nat)

lemma store_other_space:
  assumes "Machine_wf m" "tlb m = None" "space_ok a k" "space_ok b k" "space_frames a \<inter> space_frames b = {}"
    and "sz \<in> {1, 2, 4}" "WriteMem eh va sz v (RestoreState a m) = Inr (True, m1)" "x < PageSize * numPages b"
  shows "space_byte b (mainMemory m1) x = space_byte b (mainMemory m) x"
proof -
  obtain pt where pt: "space_table a = Some pt" "numPages a = length pt" "table_good pt" using assms(3) by (auto simp: space_ok_def)
  obtain pb where pb: "space_table b = Some pb" "numPages b = length pb" using assms(4) by (auto simp: space_ok_def)
  from store_isolated [OF restored_wf [OF assms(1-3)] assms(6,7)] obtain e where
    e: "lookup_entry (RestoreState a m) (unat va div PageSize) = Some e"
      "\<forall>y. mainMemory m1 y \<noteq> mainMemory m y \<longrightarrow> y div PageSize = unat (physicalPage e)"
    by (auto simp: RestoreState_def)
  have "e \<in> set pt" using e(1) assms(2) pt(1) by (auto simp: lookup_entry_def RestoreState_def split: if_splits)
  then have "uint (physicalPage e) \<in> space_frames a" using pt(1) by (simp add: space_frames_def table_frames_def)
  moreover have "int (phys pb x div PageSize) \<in> space_frames b" using phys_frame [of x pb] assms(8) pb by (simp add: space_frames_def)
  ultimately have "phys pb x div PageSize \<noteq> unat (physicalPage e)" using assms(5) by (metis IntI empty_iff of_nat_unat)
  then show ?thesis using e(2) pb(1) by (auto simp: space_byte_def vmem_def)
qed

section \<open>Properties\<close>

text \<open>
  C16 (functional): creating an address space for a well-formed executable. When too few frames are free the space is
  marked as not created and no frame is taken. Otherwise it gets distinct frames that were free and are now in use,
  its memory, read through its page table, is the image of the executable (code and initialised data as in the file,
  everything else zero), no other byte of physical memory changes, and the disk keeps its content.
\<close>

theorem program_loaded:
  assumes "exe_ok f (kdisk k)" "sd_ok (kdisk k)" "frames_ok k" "tlb (machine k) = None" "fresh_ok mem" "length (pids k) = 64"
    and "h = exe_header f (kdisk k)" "exe_pages h \<le> NumPhysPages"
  shows "\<exists>a k'. AddrSpace_new mem rand eh f k = Inr (a, k') \<and> frames_ok k' \<and> sector (kdisk k') = sector (kdisk k)
     \<and> (if card (free_frames k) < exe_pages h
        then \<not> isCreated a \<and> used_frames k' = used_frames k \<and> machine k' = machine k
        else isCreated a \<and> numPages a = exe_pages h \<and> space_ok a k' \<and> space_frames a \<subseteq> free_frames k
          \<and> used_frames k' = used_frames k \<union> space_frames a
          \<and> (\<forall>va<PageSize * numPages a. space_byte a (mainMemory (machine k')) va = program_image h (file_bytes (hdr f) (kdisk k)) va)
          \<and> (\<forall>x. int (x div PageSize) \<notin> space_frames a \<longrightarrow> mainMemory (machine k') x = mainMemory (machine k) x))"
proof (cases "card (free_frames k) < exe_pages h")
  case True
  then show ?thesis using AddrSpace_new_no_room [OF assms(1-3,7) True assms(8), of mem rand eh] assms(3) by auto
next
  case False
  then have "exe_pages h \<le> card (free_frames k)" by simp
  from AddrSpace_new_ok [OF assms(1-7) this, of rand eh] show ?thesis using False
    by (elim exE conjE) (intro exI conjI, assumption+, simp)
qed

text \<open>
  C1 (safety): processes are isolated. Creating a process leaves the memory every existing address space sees as it
  was; afterwards the two spaces share no frame, and no store that either of them performs, of any size and at any
  address, changes a byte the other one sees.
\<close>

theorem processes_isolated:
  assumes "exe_ok f (kdisk k)" "sd_ok (kdisk k)" "frames_ok k" "tlb (machine k) = None" "fresh_ok mem" "length (pids k) = 64"
    and "Machine_wf (machine k)" "space_ok a k" "exe_pages (exe_header f (kdisk k)) \<le> card (free_frames k)"
  shows "\<exists>b k'. AddrSpace_new mem rand eh f k = Inr (b, k') \<and> space_ok a k' \<and> space_ok b k' \<and> space_frames a \<inter> space_frames b = {}
     \<and> (\<forall>x<PageSize * numPages a. space_byte a (mainMemory (machine k')) x = space_byte a (mainMemory (machine k)) x)
     \<and> (\<forall>va sz v m1. sz \<in> {1, 2, 4} \<longrightarrow> WriteMem eh va sz v (RestoreState b (machine k')) = Inr (True, m1) \<longrightarrow>
          (\<forall>x<PageSize * numPages a. space_byte a (mainMemory m1) x = space_byte a (mainMemory (machine k')) x))
     \<and> (\<forall>va sz v m1. sz \<in> {1, 2, 4} \<longrightarrow> WriteMem eh va sz v (RestoreState a (machine k')) = Inr (True, m1) \<longrightarrow>
          (\<forall>x<PageSize * numPages b. space_byte b (mainMemory m1) x = space_byte b (mainMemory (machine k')) x))"
proof -
  obtain b k' mem' where n: "AddrSpace_new mem rand eh f k = Inr (b, k')" "space_ok b k'" "space_frames b \<subseteq> free_frames k"
      "used_frames k' = used_frames k \<union> space_frames b" "machine k' = (machine k)\<lparr>mainMemory := mem'\<rparr>"
      "\<forall>x. int (x div PageSize) \<notin> space_frames b \<longrightarrow> mem' x = mainMemory (machine k) x"
    using AddrSpace_new_ok [OF assms(1-6) refl assms(9), of rand eh] by blast
  have d: "space_frames a \<inter> space_frames b = {}" "space_frames b \<inter> space_frames a = {}"
    using n(3) assms(8) frame_alloc.disjoint [of k] by (auto simp: space_ok_def)
  have a: "space_ok a k'" using assms(8) n(4) by (auto simp: space_ok_def)
  have wf: "Machine_wf (machine k')" "tlb (machine k') = None" using assms(4,7) n(5) by (simp_all add: Machine_wf_def reg_def)
  have "space_byte a (mainMemory (machine k')) x = space_byte a (mainMemory (machine k)) x" if "x < PageSize * numPages a" for x
  proof -
    obtain pt where pt: "space_table a = Some pt" "numPages a = length pt" using assms(8) by (auto simp: space_ok_def)
    then have "int (phys pt x div PageSize) \<in> space_frames a" using phys_frame [of x pt] that by (simp add: space_frames_def)
    then show ?thesis using n(5,6) d(1) pt(1) by (auto simp: space_byte_def vmem_def)
  qed
  moreover note store_other_space [OF wf n(2) a d(2)] store_other_space [OF wf a n(2) d(1)]
  ultimately show ?thesis by (intro exI [of _ b] exI [of _ k'] conjI allI impI n(1,2) a d(1))
qed

text \<open>
  Deleting a space gives back exactly its frames, so creating and deleting a process leaves the set of frames in use
  as it was.
\<close>

theorem create_delete_frames:
  assumes "exe_ok f (kdisk k)" "sd_ok (kdisk k)" "frames_ok k" "tlb (machine k) = None" "fresh_ok mem" "length (pids k) = 64"
    and "exe_pages (exe_header f (kdisk k)) \<le> card (free_frames k)"
  shows "\<exists>a k1 k2. AddrSpace_new mem rand eh f k = Inr (a, k1) \<and> FreeFrames a k1 = Inr k2 \<and> frames_ok k2 \<and> used_frames k2 = used_frames k"
proof -
  obtain a k1 where n: "AddrSpace_new mem rand eh f k = Inr (a, k1)" "frames_ok k1" "space_ok a k1" "space_frames a \<subseteq> free_frames k"
      "used_frames k1 = used_frames k \<union> space_frames a"
    using AddrSpace_new_ok [OF assms(1-6) refl assms(7), of rand eh] by blast
  moreover have "used_frames k \<inter> space_frames a = {}" using n(4) frame_alloc.disjoint [of k] by auto
  ultimately show ?thesis using FreeFrames_ok [OF n(2,3)] by auto
qed

section \<open>A concrete program\<close>

text \<open>An executable of one sector with eight bytes of code, on a disk, and a kernel with 64 free frames.\<close>

definition demo_noff :: "byte list" where
  "demo_noff = concat (map enc_int [NOFFMAGIC, 0, 40, 8, 0, 0, 0, 0, 0, 0]) @ [1, 2, 3, 4, 5, 6, 7, 8] @ replicate 80 0"

definition demo_exe :: OpenFile where
  "demo_exe = \<lparr>hdr = \<lparr>numBytes = 128, numSectors = 1, dataSectors = 9 # replicate 29 0\<rparr>, seekPosition = 0\<rparr>"

definition exe_disk :: SynchDisk where
  "exe_disk = demo_disk\<lparr>disk := (disk demo_disk)\<lparr>dfile := (\<lambda>x. if sector_offset 9 \<le> x \<and> x < sector_offset 9 + 128
     then demo_noff ! (x - sector_offset 9) else 0)\<rparr>\<rparr>"

definition demo_kernel :: "unit kernel" where
  "demo_kernel = \<lparr>fprovider = \<lparr>totalFrames = 64, fbitmap = \<lparr>numBits = 64, numWords = 2, bmap = [0, 0]\<rparr>, bitmapLock = False\<rparr>,
     machine = demo_machine, seed = (), pids = replicate 64 0, kdisk = exe_disk\<rparr>"

definition demo_fresh :: fresh_memory where
  "demo_fresh = \<lparr>fm_bytes = (\<lambda>_. 0), fm_entry = (\<lambda>_. demo_entry), fm_space = \<lparr>threadIDs = replicate 48 0,
     threadStackPointer = replicate 48 True, nbThreads = 0, maxTIDGiven = 0, isCreated = False, numPages = 0,
     space_table = None, pid = 0\<rparr>\<rparr>"

lemma demo_exe_file: "file_ok (hdr demo_exe)" "file_bytes (hdr demo_exe) exe_disk = demo_noff"
proof -
  show "file_ok (hdr demo_exe)" by (simp add: file_ok_def demo_exe_def file_sectors_def sectors_for_def divRoundUp_pos)
  have l: "length demo_noff = 128" by (simp add: demo_noff_def enc_int_def enc_word_def)
  have "sector exe_disk 9 = map (\<lambda>k. demo_noff ! k) [0..<128]" by (simp add: sector_def exe_disk_def)
  then have "sector exe_disk 9 = demo_noff" using map_nth [of demo_noff] l by simp
  then show "file_bytes (hdr demo_exe) exe_disk = demo_noff" using l
    by (simp add: file_bytes_def raw_bytes_def file_sectors_def demo_exe_def)
qed

lemma demo_header: "exe_header demo_exe exe_disk = \<lparr>noffMagic = NOFFMAGIC, code = \<lparr>sVirtualAddr = 0, sInFileAddr = 40, ssize = 8\<rparr>,
    initData = \<lparr>sVirtualAddr = 0, sInFileAddr = 0, ssize = 0\<rparr>, uninitData = \<lparr>sVirtualAddr = 0, sInFileAddr = 0, ssize = 0\<rparr>\<rparr>"
  unfolding exe_header_def demo_exe_file(2)
  by (simp add: demo_noff_def dec_header_def enc_int_def enc_word_def dec_int_def dec_word_def Let_def byte_of_def le32_def)

lemma demo_kernel_facts:
  "exe_ok demo_exe (kdisk demo_kernel)" "sd_ok (kdisk demo_kernel)" "frames_ok demo_kernel" "tlb (machine demo_kernel) = None"
  "fresh_ok demo_fresh" "length (pids demo_kernel) = 64" "exe_pages (exe_header demo_exe (kdisk demo_kernel)) = 17"
  "card (free_frames demo_kernel) = 64" "Machine_wf (machine demo_kernel)"
proof -
  have d: "kdisk demo_kernel = exe_disk" by (simp add: demo_kernel_def)
  show "exe_ok demo_exe (kdisk demo_kernel)" unfolding exe_ok_def d demo_header
    using demo_exe_file(1) by (simp add: seg_ok_def exe_size_def demo_exe_def)
  show "sd_ok (kdisk demo_kernel)" using demo_disk_ok by (simp add: d exe_disk_def sd_ok_def)
  show "exe_pages (exe_header demo_exe (kdisk demo_kernel)) = 17" unfolding d demo_header
    by (simp add: exe_pages_def exe_size_def divRoundUp_pos)
  let ?bm = "\<lparr>numBits = 64, numWords = 2, bmap = [0, 0]\<rparr>"
  have "[0, 0 :: 32 word] ! nat (i div 32) = 0" if "0 \<le> i" "i < 64" for i :: int
  proof -
    have "nat (i div 32) < 2" using that by linarith
    then show ?thesis by (auto simp: less_2_cases_iff)
  qed
  then have "free_bits ?bm = {0..<64}" by (auto simp: free_bits_def used_bits_def)
  then show "card (free_frames demo_kernel) = 64" by (simp add: free_frames_def demo_kernel_def)
qed (use demo_machine_wf in \<open>simp_all add: demo_kernel_def frames_ok_def BitMap_wf_def demo_machine_def demo_fresh_def fresh_ok_def\<close>)

theorem program_loaded_witness:
  "\<exists>a k'. AddrSpace_new demo_fresh (\<lambda>w. (7, w)) (\<lambda>_ m. Inr m) demo_exe demo_kernel = Inr (a, k') \<and> isCreated a
     \<and> space_byte a (mainMemory (machine k')) 3 = 4"
proof -
  have "program_image (exe_header demo_exe exe_disk) demo_noff 3 = 4"
    unfolding demo_header by (simp add: program_image_def seg_image_def stored_at_def demo_noff_def enc_int_def enc_word_def)
  then show ?thesis using program_loaded [OF demo_kernel_facts(1-6) refl, of "\<lambda>w. (7, w)" "\<lambda>_ m. Inr m"] demo_kernel_facts(7,8)
    by (auto simp: demo_exe_file(2) demo_kernel_def)
qed

lemma exe_cong: "sector sd' = sector sd \<Longrightarrow> exe_ok f sd' = exe_ok f sd \<and> exe_header f sd' = exe_header f sd"
  by (simp add: exe_ok_def exe_header_def file_bytes_same [of sd' sd])

theorem processes_isolated_witness:
  "\<exists>a k b k'. AddrSpace_new demo_fresh (\<lambda>w. (7, w)) (\<lambda>_ m. Inr m) demo_exe demo_kernel = Inr (a, k)
     \<and> AddrSpace_new demo_fresh (\<lambda>w. (7, w)) (\<lambda>_ m. Inr m) demo_exe k = Inr (b, k')
     \<and> numPages a = 17 \<and> space_ok a k' \<and> space_ok b k' \<and> space_frames a \<inter> space_frames b = {}"
proof -
  let ?r = "\<lambda>w :: unit. (7 :: nat, w)" and ?eh = "\<lambda>_ m. Inr m"
  have "exe_pages (exe_header demo_exe (kdisk demo_kernel)) \<le> card (free_frames demo_kernel)" using demo_kernel_facts(7,8) by simp
  from AddrSpace_new_ok [OF demo_kernel_facts(1-6) refl this, of ?r ?eh] obtain a k mem where
    1: "AddrSpace_new demo_fresh ?r ?eh demo_exe demo_kernel = Inr (a, k)" "frames_ok k" "sd_ok (kdisk k)"
      "sector (kdisk k) = sector (kdisk demo_kernel)" "length (pids k) = 64" "numPages a = 17" "space_ok a k"
      "free_frames k = free_frames demo_kernel - space_frames a" "machine k = (machine demo_kernel)\<lparr>mainMemory := mem\<rparr>"
    using demo_kernel_facts(7) by auto
  have e: "exe_ok demo_exe (kdisk k)" "exe_pages (exe_header demo_exe (kdisk k)) = 17" "tlb (machine k) = None" "Machine_wf (machine k)"
    using exe_cong [OF 1(4)] demo_kernel_facts(1,4,7,9) 1(9) by (simp_all add: Machine_wf_def reg_def)
  obtain pt where pt: "space_table a = Some pt" "length pt = 17" using 1(6,7) by (auto simp: space_ok_def)
  have "card (space_frames a) \<le> 17" using card_length [of "table_frames pt"] pt by (simp add: space_frames_def table_frames_def)
  then have "17 \<le> card (free_frames k)"
    using diff_card_le_card_Diff [of "space_frames a" "free_frames demo_kernel"] 1(8) demo_kernel_facts(8) pt by (simp add: space_frames_def)
  then show ?thesis using processes_isolated [OF e(1) 1(3,2) e(3) demo_kernel_facts(5) 1(5) e(4) 1(7), of ?r ?eh] e(2) 1(1,6) by auto
qed

end
