(* ===== verification/Coff.thy ===== *)
theory Coff
  imports ProgramLoad
begin

text \<open>
  \<^verbatim>\<open>bin/coff2noff.c\<close>: the converter from the COFF files that the linker writes to the NOFF files that the kernel loads. The input
  and output files are byte lists; an exit with an error is a value. Together with theory ProgramLoad: the memory of a
  new process holds what the sections of the COFF file say. Integers are those of a 32-bit little-endian host.
\<close>

section \<open>COFF headers\<close>

record filehdr =
  f_magic :: nat
  f_nscns :: nat

text \<open>The fields of a section header that the converter looks at.\<close>

record scnhdr =
  s_name :: "byte list"
  s_paddr :: int
  s_size :: int
  s_scnptr :: int

abbreviation (input) filehdr_size :: nat where "filehdr_size \<equiv> 20"
abbreviation (input) aouthdr_size :: nat where "aouthdr_size \<equiv> 56"
abbreviation (input) scnhdr_size :: nat where "scnhdr_size \<equiv> 40"
abbreviation (input) MIPSELMAGIC :: nat where "MIPSELMAGIC \<equiv> 0x0162"
abbreviation (input) OMAGIC :: nat where "OMAGIC \<equiv> 263"

definition dec_short :: "byte list \<Rightarrow> nat" where
  "dec_short bs = unat (bs ! 0) + 256 * unat (bs ! 1)"

definition dec_filehdr :: "byte list \<Rightarrow> filehdr" where
  "dec_filehdr bs = \<lparr>f_magic = dec_short bs, f_nscns = dec_short (drop 2 bs)\<rparr>"

definition dec_scnhdr :: "byte list \<Rightarrow> scnhdr" where
  "dec_scnhdr bs = \<lparr>s_name = take 8 bs, s_paddr = dec_int (take 4 (drop 8 bs)), s_size = dec_int (take 4 (drop 16 bs)),
     s_scnptr = dec_int (take 4 (drop 20 bs))\<rparr>"

section \<open>The conversion\<close>

datatype coff_exit = TooShort | NotMIPSEL | NotOMAGIC | BothData | BothBss | UnknownSegment | Overflow

definition and_then :: "coff_exit + 'a \<Rightarrow> ('a \<Rightarrow> coff_exit + 'b) \<Rightarrow> coff_exit + 'b" where
  "and_then m f = (case m of Inl e \<Rightarrow> Inl e | Inr x \<Rightarrow> f x)"

lemma and_then_simps [simp]: "and_then (Inl e) f = Inl e" "and_then (Inr x) f = f x"
  by (simp_all add: and_then_def)

lemma and_then_Inr_iff: "and_then m f = Inr y \<longleftrightarrow> (\<exists>x. m = Inr x \<and> f x = Inr y)"
  by (cases m) simp_all

text \<open>\<^verbatim>\<open>Read\<close> at a position of the input: the bytes and the new position. A negative count is a failed read.\<close>

definition Read :: "byte list \<Rightarrow> nat \<Rightarrow> int \<Rightarrow> coff_exit + byte list \<times> nat" where
  "Read file p nBytes =
     (if 0 \<le> nBytes \<and> p + nat nBytes \<le> length file then Inr (take (nat nBytes) (drop p file), p + nat nBytes) else Inl TooShort)"

text \<open>\<^verbatim>\<open>lseek\<close>; it fails for a negative offset and leaves the position as it was.\<close>

definition seek :: "int \<Rightarrow> nat \<Rightarrow> nat" where
  "seek off p = (if off \<ge> 0 then nat off else p)"

text \<open>\<open>body\<close> is what was written behind the place of the header, \<open>inpos\<close> the position in the input.\<close>

record conversion =
  noffH :: NoffHeader
  inNoffFile :: int
  body :: "byte list"
  inpos :: nat

definition has_name :: "string list \<Rightarrow> scnhdr \<Rightarrow> bool" where
  "has_name ns s \<longleftrightarrow> cstr (s_name s) \<in> set (map bytes_of ns)"

text \<open>Copying the bytes of a section, and where they are in the output.\<close>

definition copy_section :: "byte list \<Rightarrow> scnhdr \<Rightarrow> conversion \<Rightarrow> coff_exit + Segment \<times> conversion" where
  "copy_section file s c =
     and_then (Read file (seek (s_scnptr s) (inpos c)) (s_size s)) (\<lambda>(buffer, p).
     if \<not> int32_ok (inNoffFile c + s_size s) then Inl Overflow
     else Inr (\<lparr>sVirtualAddr = s_paddr s, sInFileAddr = inNoffFile c, ssize = s_size s\<rparr>,
               c\<lparr>body := body c @ buffer, inNoffFile := inNoffFile c + s_size s, inpos := p\<rparr>))"

text \<open>
  Two sections of uninitialised data: the comment asks that they be contiguous; the code refuses them if they are, and adds up
  their sizes otherwise.
\<close>

definition add_bss :: "scnhdr \<Rightarrow> Segment \<Rightarrow> coff_exit + Segment" where
  "add_bss s u =
     (if ssize u \<noteq> 0 then
        (if \<not> int32_ok (sVirtualAddr u + ssize u) \<or> \<not> int32_ok (ssize u + s_size s) then Inl Overflow
         else if s_paddr s = sVirtualAddr u + ssize u then Inl BothBss
         else Inr (u\<lparr>ssize := ssize u + s_size s\<rparr>))
      else Inr (u\<lparr>sVirtualAddr := s_paddr s, ssize := s_size s\<rparr>))"

definition convert_section :: "byte list \<Rightarrow> scnhdr \<Rightarrow> conversion \<Rightarrow> coff_exit + conversion" where
  "convert_section file s c =
     (if s_size s = 0 then Inr c
      else if has_name [''.text''] s then
        and_then (copy_section file s c) (\<lambda>(g, c1). Inr (c1\<lparr>noffH := (noffH c)\<lparr>code := g\<rparr>\<rparr>))
      else if has_name [''.data'', ''.rdata''] s then
        (if ssize (initData (noffH c)) \<noteq> 0 then Inl BothData
         else and_then (copy_section file s c) (\<lambda>(g, c1). Inr (c1\<lparr>noffH := (noffH c)\<lparr>initData := g\<rparr>\<rparr>)))
      else if has_name [''.bss'', ''.sbss''] s then
        and_then (add_bss s (uninitData (noffH c))) (\<lambda>u. Inr (c\<lparr>noffH := (noffH c)\<lparr>uninitData := u\<rparr>\<rparr>))
      else and_then (Read file (seek (s_scnptr s) (inpos c)) (s_size s)) (\<lambda>_. Inl UnknownSegment))"

primrec convert_sections :: "byte list \<Rightarrow> scnhdr list \<Rightarrow> conversion \<Rightarrow> coff_exit + conversion" where
  "convert_sections file [] c = Inr c"
| "convert_sections file (s # ss) c = and_then (convert_section file s c) (convert_sections file ss)"

definition enc_noff :: "NoffHeader \<Rightarrow> byte list" where
  "enc_noff h = concat (map enc_int [noffMagic h, sVirtualAddr (code h), sInFileAddr (code h), ssize (code h),
     sVirtualAddr (initData h), sInFileAddr (initData h), ssize (initData h),
     sVirtualAddr (uninitData h), sInFileAddr (uninitData h), ssize (uninitData h)])"

text \<open>The headers of the input, checked, with the position behind them.\<close>

definition read_sections :: "byte list \<Rightarrow> coff_exit + scnhdr list \<times> nat" where
  "read_sections file =
     and_then (Read file 0 (int filehdr_size)) (\<lambda>(fh, p1).
     if f_magic (dec_filehdr fh) \<noteq> MIPSELMAGIC then Inl NotMIPSEL
     else and_then (Read file p1 (int aouthdr_size)) (\<lambda>(ah, p2).
     if dec_short ah \<noteq> OMAGIC then Inl NotOMAGIC
     else let n = f_nscns (dec_filehdr fh) in
       and_then (Read file p2 (int (n * scnhdr_size))) (\<lambda>(bs, p3).
       Inr (map (\<lambda>i. dec_scnhdr (take scnhdr_size (drop (scnhdr_size * i) bs))) [0..<n], p3))))"

text \<open>The whole program; \<open>g\<close> is the uninitialised header.\<close>

definition coff2noff :: "NoffHeader \<Rightarrow> byte list \<Rightarrow> coff_exit + byte list" where
  "coff2noff g file =
     and_then (read_sections file) (\<lambda>(sections, p).
     let h = g\<lparr>noffMagic := NOFFMAGIC, code := (code g)\<lparr>ssize := 0\<rparr>, initData := (initData g)\<lparr>ssize := 0\<rparr>,
               uninitData := (uninitData g)\<lparr>ssize := 0\<rparr>\<rparr> in
     and_then (convert_sections file sections \<lparr>noffH = h, inNoffFile = int noff_size, body = [], inpos = p\<rparr>) (\<lambda>c.
     Inr (enc_noff (noffH c) @ body c)))"

section \<open>What a COFF file describes\<close>

text \<open>The section that counts among those with one of the names: the last one that is not empty.\<close>

definition pick :: "string list \<Rightarrow> scnhdr list \<Rightarrow> scnhdr option" where
  "pick ns ss = (case rev (filter (\<lambda>s. has_name ns s \<and> s_size s \<noteq> 0) ss) of [] \<Rightarrow> None | s # _ \<Rightarrow> Some s)"

definition section_bytes :: "byte list \<Rightarrow> scnhdr \<Rightarrow> byte list" where
  "section_bytes file s = take (nat (s_size s)) (drop (nat (s_scnptr s)) file)"

definition place :: "byte list \<Rightarrow> scnhdr option \<Rightarrow> (nat \<Rightarrow> byte) \<Rightarrow> nat \<Rightarrow> byte" where
  "place file r img = (case r of None \<Rightarrow> img | Some s \<Rightarrow> stored_at (nat (s_paddr s)) (section_bytes file s) img)"

definition coff_image :: "byte list \<Rightarrow> scnhdr list \<Rightarrow> nat \<Rightarrow> byte" where
  "coff_image file ss = place file (pick [''.data'', ''.rdata''] ss) (place file (pick [''.text''] ss) (\<lambda>_. 0))"

definition picked_size :: "scnhdr option \<Rightarrow> int" where
  "picked_size r = (case r of None \<Rightarrow> 0 | Some s \<Rightarrow> s_size s)"

definition coff_size :: "scnhdr list \<Rightarrow> int" where
  "coff_size ss = picked_size (pick [''.text''] ss) + picked_size (pick [''.data'', ''.rdata''] ss)
     + sum_list (map s_size (filter (has_name [''.bss'', ''.sbss'']) ss))"

lemma pick_snoc: "pick ns (ss @ [s]) = (if has_name ns s \<and> s_size s \<noteq> 0 then Some s else pick ns ss)"
  by (simp add: pick_def)

lemma pick_Nil [simp]: "pick ns [] = None"
  by (simp add: pick_def)

lemma names_differ:
  "has_name [''.text''] s \<Longrightarrow> \<not> has_name [''.data'', ''.rdata''] s"
  "has_name [''.text''] s \<Longrightarrow> \<not> has_name [''.bss'', ''.sbss''] s"
  "has_name [''.data'', ''.rdata''] s \<Longrightarrow> \<not> has_name [''.bss'', ''.sbss''] s"
  by (auto simp: has_name_def bytes_of_def)

section \<open>Invariant of the conversion\<close>

definition seg_fits :: "Segment \<Rightarrow> bool" where
  "seg_fits g \<longleftrightarrow> int32_ok (sVirtualAddr g) \<and> int32_ok (sInFileAddr g) \<and> int32_ok (ssize g)"

definition noff_fits :: "NoffHeader \<Rightarrow> bool" where
  "noff_fits h \<longleftrightarrow> int32_ok (noffMagic h) \<and> seg_fits (code h) \<and> seg_fits (initData h) \<and> seg_fits (uninitData h)"

text \<open>A segment of the output holds the bytes of a section; \<open>b\<close> is the output behind the header.\<close>

definition seg_of :: "byte list \<Rightarrow> scnhdr option \<Rightarrow> Segment \<Rightarrow> byte list \<Rightarrow> bool" where
  "seg_of file r g b \<longleftrightarrow>
     (case r of
        None \<Rightarrow> ssize g = 0
      | Some s \<Rightarrow> sVirtualAddr g = s_paddr s \<and> ssize g = s_size s \<and> 0 < s_size s \<and> int noff_size \<le> sInFileAddr g
          \<and> sInFileAddr g - int noff_size + s_size s \<le> int (length b)
          \<and> take (nat (s_size s)) (drop (nat (sInFileAddr g) - noff_size) b) = section_bytes file s)"

definition conv_ok :: "byte list \<Rightarrow> scnhdr list \<Rightarrow> conversion \<Rightarrow> bool" where
  "conv_ok file ss c \<longleftrightarrow> inNoffFile c = int noff_size + int (length (body c)) \<and> int32_ok (int noff_size + int (length (body c))) \<and> noff_fits (noffH c)
     \<and> noffMagic (noffH c) = NOFFMAGIC
     \<and> seg_of file (pick [''.text''] ss) (code (noffH c)) (body c)
     \<and> seg_of file (pick [''.data'', ''.rdata''] ss) (initData (noffH c)) (body c)
     \<and> ssize (uninitData (noffH c)) = sum_list (map s_size (filter (has_name [''.bss'', ''.sbss'']) ss))"

lemma seg_of_append: "seg_of file r g b \<Longrightarrow> seg_of file r g (b @ x)"
proof (cases r)
  case (Some s)
  assume a: "seg_of file r g b"
  then have "nat (s_size s) \<le> length b - (nat (sInFileAddr g) - noff_size)" "nat (sInFileAddr g) - noff_size \<le> length b"
    using Some by (auto simp: seg_of_def)
  then show ?thesis using a Some by (auto simp: seg_of_def)
qed (simp add: seg_of_def)

definition section_fits :: "scnhdr \<Rightarrow> bool" where
  "section_fits s \<longleftrightarrow> int32_ok (s_paddr s) \<and> int32_ok (s_size s) \<and> 0 \<le> s_scnptr s"

lemma copy_section_ok:
  assumes "copy_section file s c = Inr (g, c')" "conv_ok file ss c" "section_fits s" "s_size s \<noteq> 0"
  shows "seg_of file (Some s) g (body c') \<and> seg_fits g \<and> (\<exists>x. body c' = body c @ x) \<and> noffH c' = noffH c
     \<and> inNoffFile c' = int noff_size + int (length (body c')) \<and> int32_ok (int noff_size + int (length (body c')))"
proof -
  have r: "0 \<le> s_size s" "nat (s_scnptr s) + nat (s_size s) \<le> length file" and i: "int32_ok (inNoffFile c + s_size s)"
    and g: "g = \<lparr>sVirtualAddr = s_paddr s, sInFileAddr = inNoffFile c, ssize = s_size s\<rparr>"
    and b: "body c' = body c @ section_bytes file s" "inNoffFile c' = inNoffFile c + s_size s" "noffH c' = noffH c"
    using assms(1,3) by (auto simp: copy_section_def Read_def and_then_Inr_iff seek_def section_fits_def section_bytes_def split: if_splits)
  have l: "length (section_bytes file s) = nat (s_size s)" using r by (simp add: section_bytes_def)
  have n: "inNoffFile c = int noff_size + int (length (body c))" "int32_ok (inNoffFile c)" using assms(2) by (simp_all add: conv_ok_def)
  show ?thesis using r i g b l n assms(3,4) by (auto simp: seg_of_def seg_fits_def section_fits_def add.assoc)
qed

lemma convert_section_ok:
  assumes "convert_section file s c = Inr c'" "conv_ok file ss c" "section_fits s"
  shows "conv_ok file (ss @ [s]) c'"
proof -
  consider (empty) "s_size s = 0" "c' = c"
    | (code) g c1 where "s_size s \<noteq> 0" "has_name [''.text''] s" "copy_section file s c = Inr (g, c1)" "c' = c1\<lparr>noffH := (noffH c)\<lparr>code := g\<rparr>\<rparr>"
    | (data) g c1 where "s_size s \<noteq> 0" "has_name [''.data'', ''.rdata''] s" "\<not> has_name [''.text''] s" "copy_section file s c = Inr (g, c1)"
        "c' = c1\<lparr>noffH := (noffH c)\<lparr>initData := g\<rparr>\<rparr>"
    | (bss) u where "s_size s \<noteq> 0" "has_name [''.bss'', ''.sbss''] s" "\<not> has_name [''.text''] s" "\<not> has_name [''.data'', ''.rdata''] s"
        "add_bss s (uninitData (noffH c)) = Inr u" "c' = c\<lparr>noffH := (noffH c)\<lparr>uninitData := u\<rparr>\<rparr>"
    using assms(1) by (auto simp: convert_section_def and_then_Inr_iff split: if_splits)
  then show ?thesis
  proof cases
    case empty
    then show ?thesis using assms(2) by (simp add: conv_ok_def pick_snoc)
  next
    case code
    note k = copy_section_ok [OF code(3) assms(2,3) code(1)]
    then obtain x where x: "body c1 = body c @ x" by blast
    show ?thesis using k code assms(2) names_differ(1,2) [OF code(2)]
      by (auto simp: conv_ok_def pick_snoc noff_fits_def x intro: seg_of_append)
  next
    case data
    note k = copy_section_ok [OF data(4) assms(2,3) data(1)]
    then obtain x where x: "body c1 = body c @ x" by blast
    show ?thesis using k data assms(2) names_differ(3) [OF data(2)]
      by (auto simp: conv_ok_def pick_snoc noff_fits_def x intro: seg_of_append)
  next
    case bss
    have "ssize u = ssize (uninitData (noffH c)) + s_size s \<and> seg_fits u"
      using bss(5) assms(2,3) by (auto simp: add_bss_def conv_ok_def noff_fits_def seg_fits_def section_fits_def split: if_splits)
    then show ?thesis using bss assms(2) by (auto simp: conv_ok_def pick_snoc noff_fits_def)
  qed
qed

lemma convert_sections_ok:
  assumes "convert_sections file ss c = Inr c'" "conv_ok file rs c" "\<forall>s\<in>set ss. section_fits s"
  shows "conv_ok file (rs @ ss) c'"
  using assms
proof (induction ss arbitrary: c rs)
  case (Cons s ss)
  then obtain c1 where c: "convert_section file s c = Inr c1" "convert_sections file ss c1 = Inr c'" by (auto simp: and_then_Inr_iff)
  have "conv_ok file (rs @ [s]) c1" using convert_section_ok [OF c(1) Cons.prems(2)] Cons.prems(3) by simp
  from Cons.IH [OF c(2) this] Cons.prems(3) show ?case by simp
qed simp

section \<open>Reading the output\<close>

lemma length_enc_noff: "length (enc_noff h) = noff_size"
  by (simp add: enc_noff_def enc_int_def enc_word_def)

lemma dec_enc_noff: "noff_fits h \<Longrightarrow> dec_header (enc_noff h @ b) = h"
proof -
  assume h: "noff_fits h"
  define xs where "xs = [noffMagic h, sVirtualAddr (code h), sInFileAddr (code h), ssize (code h),
     sVirtualAddr (initData h), sInFileAddr (initData h), ssize (initData h),
     sVirtualAddr (uninitData h), sInFileAddr (uninitData h), ssize (uninitData h)]"
  have a: "\<forall>x\<in>set xs. int32_ok x" "length xs = 10" using h by (simp_all add: xs_def noff_fits_def seg_fits_def)
  have n: "enc_noff h = enc_array enc_int xs" by (simp add: enc_noff_def xs_def enc_array_def)
  define F where "F i = dec_int (take 4 (drop (4 * i) (enc_noff h @ b)))" for i
  have d: "F i = xs ! i" if "i < 10" for i
  proof -
    have "dec_array 4 dec_int (length xs) (enc_array enc_int xs @ b) ! i = xs ! i" by (simp only: int_codec.dec_enc_array [OF a(1)])
    then show ?thesis using that a(2) by (simp add: dec_array_def n F_def mult.commute)
  qed
  have "dec_header (enc_noff h @ b) = \<lparr>noffMagic = F 0, code = \<lparr>sVirtualAddr = F 1, sInFileAddr = F (1 + 1), ssize = F (1 + 2)\<rparr>,
      initData = \<lparr>sVirtualAddr = F 4, sInFileAddr = F (4 + 1), ssize = F (4 + 2)\<rparr>, uninitData = \<lparr>sVirtualAddr = F 7, sInFileAddr = F (7 + 1), ssize = F (7 + 2)\<rparr>\<rparr>"
    by (simp only: dec_header_def Let_def F_def)
  then show ?thesis by (simp add: d) (simp add: xs_def)
qed

lemma seg_image_of:
  assumes "seg_of file r g b" "length front = noff_size"
  shows "seg_image (front @ b @ pad) g img = place file r img"
proof (cases r)
  case None
  then show ?thesis using assms(1) by (simp add: seg_of_def seg_image_def place_def)
next
  case (Some s)
  then have a: "ssize g = s_size s" "sVirtualAddr g = s_paddr s" "0 < s_size s" "40 \<le> sInFileAddr g" "sInFileAddr g - 40 + s_size s \<le> int (length b)"
      "take (nat (s_size s)) (drop (nat (sInFileAddr g) - 40) b) = section_bytes file s" using assms(1) by (auto simp: seg_of_def)
  then have "take (nat (ssize g)) (drop (nat (sInFileAddr g)) (front @ b @ pad)) = section_bytes file s" using assms(2) by simp
  then show ?thesis using a Some by (simp add: seg_image_def place_def)
qed

lemma dec_int_fits: "int32_ok (dec_int bs)"
  using sint_range_size [of "dec_word bs"] by (simp add: dec_int_def int32_ok_def word_size)

text \<open>Where the output of a conversion comes from.\<close>

lemma coff2noff_ok:
  assumes "coff2noff g file = Inr out" "noff_fits g" "read_sections file = Inr (ss, p)" "\<forall>s\<in>set ss. 0 \<le> s_scnptr s"
  shows "\<exists>c. out = enc_noff (noffH c) @ body c \<and> conv_ok file ss c"
proof -
  let ?h = "g\<lparr>noffMagic := NOFFMAGIC, code := (code g)\<lparr>ssize := 0\<rparr>, initData := (initData g)\<lparr>ssize := 0\<rparr>, uninitData := (uninitData g)\<lparr>ssize := 0\<rparr>\<rparr>"
  let ?c = "\<lparr>noffH = ?h, inNoffFile = int noff_size, body = [], inpos = p\<rparr>"
  obtain c where c: "convert_sections file ss ?c = Inr c" "out = enc_noff (noffH c) @ body c"
    using assms(1,3) by (auto simp: coff2noff_def and_then_Inr_iff)
  have "conv_ok file [] ?c" using assms(2) by (simp add: conv_ok_def noff_fits_def seg_fits_def seg_of_def int32_ok_def)
  moreover have "\<forall>s\<in>set ss. section_fits s"
    using assms(3,4) dec_int_fits by (auto simp: read_sections_def and_then_Inr_iff Let_def section_fits_def dec_scnhdr_def split: if_splits)
  ultimately show ?thesis using convert_sections_ok [OF c(1), of "[]"] c(2) by auto
qed

section \<open>Properties\<close>

text \<open>
  C17 (refinement): from the linker's file to the memory of a process. When the converter accepts a COFF file, and its output
  (followed by anything) is the content of a well-formed executable file, and a process is created from that file with
  enough free frames, then the memory of the process is what the COFF file describes: the bytes of its \<^verbatim>\<open>.text\<close> section
  and of its \<^verbatim>\<open>.data\<close> or \<^verbatim>\<open>.rdata\<close> section at their addresses, and zeros elsewhere; and its size is that of these sections
  plus that of the uninitialised data.
\<close>

theorem coff_program_loaded:
  assumes "coff2noff g file = Inr out" "noff_fits g" "read_sections file = Inr (ss, p)" "\<forall>s\<in>set ss. 0 \<le> s_scnptr s"
    and "file_bytes (hdr f) (kdisk k) = out @ pad"
    and "exe_ok f (kdisk k)" "sd_ok (kdisk k)" "frames_ok k" "tlb (machine k) = None" "fresh_ok mem" "length (pids k) = 64"
    and "nat (divRoundUp (coff_size ss + UserStackSize) (int PageSize)) \<le> card (free_frames k)"
  shows "\<exists>a k'. AddrSpace_new mem rand eh f k = Inr (a, k') \<and> isCreated a
     \<and> numPages a = nat (divRoundUp (coff_size ss + UserStackSize) (int PageSize))
     \<and> (\<forall>va<PageSize * numPages a. space_byte a (mainMemory (machine k')) va = coff_image file ss va)"
proof -
  obtain c where c: "out = enc_noff (noffH c) @ body c" "conv_ok file ss c" using coff2noff_ok [OF assms(1-4)] by blast
  have fits: "noff_fits (noffH c)" using c(2) by (simp add: conv_ok_def)
  have h: "exe_header f (kdisk k) = noffH c"
    using dec_enc_noff [OF fits, of "[]"] length_enc_noff [of "noffH c"] by (simp add: exe_header_def assms(5) c(1))
  have segs: "seg_of file (pick [''.text''] ss) (code (noffH c)) (body c)"
    "seg_of file (pick [''.data'', ''.rdata''] ss) (initData (noffH c)) (body c)" using c(2) by (simp_all add: conv_ok_def)
  have image: "program_image (noffH c) (out @ pad) = coff_image file ss"
    using seg_image_of [OF segs(1) length_enc_noff, of "noffH c" pad] seg_image_of [OF segs(2) length_enc_noff, of "noffH c" pad]
    by (simp add: program_image_def coff_image_def c(1))
  have sz: "ssize g = picked_size r" if "seg_of file r g b" for r g b using that by (cases r) (auto simp: seg_of_def picked_size_def)
  have "exe_size (noffH c) = coff_size ss" using c(2) sz [OF segs(1)] sz [OF segs(2)] by (simp add: exe_size_def coff_size_def conv_ok_def)
  then have pages: "exe_pages (noffH c) = nat (divRoundUp (coff_size ss + UserStackSize) (int PageSize))" by (simp add: exe_pages_def)
  have "exe_pages (exe_header f (kdisk k)) \<le> card (free_frames k)" using assms(12) by (simp add: h pages)
  from AddrSpace_new_ok [OF assms(6-11) refl this, of rand eh] obtain a k' mem' where
    "AddrSpace_new mem rand eh f k = Inr (a, k')" "isCreated a" "numPages a = exe_pages (noffH c)"
    "machine k' = machine k\<lparr>mainMemory := mem'\<rparr>"
    "\<forall>va<PageSize * numPages a. space_byte a mem' va = program_image (noffH c) (file_bytes (hdr f) (kdisk k)) va"
    unfolding h by blast
  then show ?thesis using pages image assms(5) by auto
qed

text \<open>A COFF file with one section of eight bytes of code.\<close>

definition demo_coff :: "byte list" where
  "demo_coff = [0x62, 1, 1, 0] @ replicate 16 0 @ [7, 1] @ replicate 54 0
     @ bytes_of ''.text'' @ replicate 3 0 @ replicate 8 0 @ enc_int 8 @ enc_int 116 @ replicate 16 0 @ [1, 2, 3, 4, 5, 6, 7, 8]"

definition demo_garbage :: NoffHeader where
  "demo_garbage = (let z = \<lparr>sVirtualAddr = 0, sInFileAddr = 0, ssize = 7\<rparr> in \<lparr>noffMagic = 3, code = z, initData = z, uninitData = z\<rparr>)"

lemma demo_sections: "read_sections demo_coff = Inr ([\<lparr>s_name = bytes_of ''.text'' @ [0, 0, 0], s_paddr = 0, s_size = 8, s_scnptr = 116\<rparr>], 116)"
  by code_simp

lemma demo_conversion: "coff2noff demo_garbage demo_coff = Inr (take 48 demo_noff)"
  by code_simp

theorem coff_program_loaded_witness:
  "\<exists>a k'. AddrSpace_new demo_fresh (\<lambda>w. (7, w)) (\<lambda>_ m. Inr m) demo_exe demo_kernel = Inr (a, k') \<and> isCreated a
     \<and> space_byte a (mainMemory (machine k')) 3 = 4"
proof -
  let ?s = "\<lparr>s_name = bytes_of ''.text'' @ [0, 0, 0], s_paddr = 0, s_size = 8, s_scnptr = 116\<rparr>"
  have f: "file_bytes (hdr demo_exe) (kdisk demo_kernel) = take 48 demo_noff @ drop 48 demo_noff"
    using demo_exe_file(2) by (simp add: demo_kernel_def)
  have g: "noff_fits demo_garbage" by (simp add: noff_fits_def seg_fits_def demo_garbage_def int32_ok_def Let_def)
  have z: "coff_size [?s] = 8" by code_simp
  have i: "coff_image demo_coff [?s] 3 = 4" by code_simp
  have n: "nat (divRoundUp (coff_size [?s] + UserStackSize) (int PageSize)) = 17" unfolding z by (simp add: divRoundUp_pos)
  from coff_program_loaded [OF demo_conversion g demo_sections _ f demo_kernel_facts(1-6), of "\<lambda>w. (7, w)" "\<lambda>_ m. Inr m"]
  show ?thesis using n i demo_kernel_facts(8) by (auto dest: spec [of _ 3])
qed

end
