(* ===== verification/Interrupt.thy ===== *)
theory Interrupt
  imports NachList Machine
begin

text \<open>
  \<^verbatim>\<open>machine/interrupt.cc\<close>, \<^verbatim>\<open>machine/timer.cc\<close> and \<^verbatim>\<open>machine/stats.h\<close>: simulated time, the interrupt level and the
  pending interrupts. The list of pending interrupts is the sorted sequence that \<^verbatim>\<open>List::SortedInsert\<close> and
  \<^verbatim>\<open>List::SortedRemove\<close> implement (theory NachList). What the handlers do to the rest of the kernel is the
  component \<open>world\<close>.
\<close>

section \<open>State\<close>

datatype IntStatus = IntOff | IntOn

datatype IntType = TimerInt | DiskInt | ConsoleWriteInt | ConsoleReadInt | NetworkSendInt | NetworkRecvInt

record 'h PendingInterrupt =
  handler :: 'h
  arg :: int
  pwhen :: int
  itype :: IntType

definition PendingInterrupt_new :: "'h \<Rightarrow> int \<Rightarrow> int \<Rightarrow> IntType \<Rightarrow> 'h PendingInterrupt" where
  "PendingInterrupt_new func param tm kind = \<lparr>handler = func, arg = param, pwhen = tm, itype = kind\<rparr>"

record Statistics =
  totalTicks :: int
  idleTicks :: int
  systemTicks :: int
  userTicks :: int
  numDiskReads :: int
  numDiskWrites :: int
  numConsoleCharsRead :: int
  numConsoleCharsWritten :: int
  numPageFaults :: int
  numPacketsSent :: int
  numPacketsRecvd :: int

definition Statistics_new :: Statistics where
  "Statistics_new = \<lparr>totalTicks = 0, idleTicks = 0, systemTicks = 0, userTicks = 0, numDiskReads = 0, numDiskWrites = 0,
     numConsoleCharsRead = 0, numConsoleCharsWritten = 0, numPageFaults = 0, numPacketsSent = 0, numPacketsRecvd = 0\<rparr>"

abbreviation (input) UserTick :: int where "UserTick \<equiv> 1"
abbreviation (input) SystemTick :: int where "SystemTick \<equiv> 10"
abbreviation (input) TimerTicks :: int where "TimerTicks \<equiv> 100"

record ('h, 'w) Interrupt =
  level :: IntStatus
  pending :: "(int \<times> 'h PendingInterrupt) list"
  inHandler :: bool
  yieldOnReturn :: bool
  mstatus :: MachineStatus
  stats :: Statistics
  world :: 'w

definition Interrupt_new :: "'w \<Rightarrow> ('h, 'w) Interrupt" where
  "Interrupt_new w = \<lparr>level = IntOff, pending = [], inHandler = False, yieldOnReturn = False, mstatus = SystemMode,
     stats = Statistics_new, world = w\<rparr>"

section \<open>Operations\<close>

definition ChangeLevel :: "IntStatus \<Rightarrow> ('h, 'w) Interrupt \<Rightarrow> ('h, 'w) Interrupt" where
  "ChangeLevel now s = s\<lparr>level := now\<rparr>"

definition YieldOnReturn :: "('h, 'w) Interrupt \<Rightarrow> ('h, 'w) Interrupt res" where
  "YieldOnReturn s = bindR (ASSERT (inHandler s)) (\<lambda>_. Inr (s\<lparr>yieldOnReturn := True\<rparr>))"

definition Schedule :: "'h \<Rightarrow> int \<Rightarrow> int \<Rightarrow> IntType \<Rightarrow> ('h, 'w) Interrupt \<Rightarrow> ('h, 'w) Interrupt res" where
  "Schedule h a fromNow k s =
     (let w = totalTicks (stats s) + fromNow; toOccur = PendingInterrupt_new h a w k in
      bindR (ASSERT (fromNow > 0)) (\<lambda>_. Inr (s\<lparr>pending := sorted_insert w toOccur (pending s)\<rparr>)))"

text \<open>
  What the simulation calls: the handlers, \<^verbatim>\<open>machine->DelayedLoad(0, 0)\<close> and \<^verbatim>\<open>currentThread->Yield()\<close>.
\<close>

record ('h, 'w) hooks =
  call :: "'h \<Rightarrow> int \<Rightarrow> ('h, 'w) Interrupt \<Rightarrow> ('h, 'w) Interrupt res"
  delayedLoad :: "'w \<Rightarrow> 'w"
  yield :: "('h, 'w) Interrupt \<Rightarrow> ('h, 'w) Interrupt res"

definition fire :: "('h, 'w) hooks \<Rightarrow> 'h PendingInterrupt \<Rightarrow> ('h, 'w) Interrupt \<Rightarrow> (bool \<times> ('h, 'w) Interrupt) res" where
  "fire k p s =
     (let old = mstatus s;
          s1 = (if old = UserMode then s\<lparr>world := delayedLoad k (world s)\<rparr> else s)
      in bindR (call k (handler p) (arg p) (s1\<lparr>inHandler := True, mstatus := SystemMode\<rparr>)) (\<lambda>s2.
         Inr (True, s2\<lparr>mstatus := old, inHandler := False\<rparr>)))"

definition CheckIfDue :: "('h, 'w) hooks \<Rightarrow> bool \<Rightarrow> ('h, 'w) Interrupt \<Rightarrow> (bool \<times> ('h, 'w) Interrupt) res" where
  "CheckIfDue k advanceClock s =
     bindR (ASSERT (level s = IntOff)) (\<lambda>_.
     case pending s of
       [] \<Rightarrow> Inr (False, s)
     | (w, p) # rest \<Rightarrow>
         (let now = totalTicks (stats s); s1 = s\<lparr>pending := rest\<rparr> in
          if \<not> advanceClock \<and> w > now then Inr (False, s1\<lparr>pending := sorted_insert w p rest\<rparr>)
          else let s2 = (if w > now then s1\<lparr>stats := (stats s)\<lparr>idleTicks := idleTicks (stats s) + (w - now), totalTicks := w\<rparr>\<rparr> else s1) in
          if mstatus s2 = IdleMode \<and> itype p = TimerInt \<and> rest = []
          then Inr (False, s2\<lparr>pending := sorted_insert w p rest\<rparr>)
          else fire k p s2))"

text \<open>\<^verbatim>\<open>while (CheckIfDue(FALSE));\<close>\<close>

fun check_loop :: "nat \<Rightarrow> ('h, 'w) hooks \<Rightarrow> ('h, 'w) Interrupt \<Rightarrow> ('h, 'w) Interrupt res" where
  "check_loop 0 k s = Inl OutOfFuel"
| "check_loop (Suc n) k s = bindR (CheckIfDue k False s) (\<lambda>(b, s'). if b then check_loop n k s' else Inr s')"

definition advance_time :: "('h, 'w) Interrupt \<Rightarrow> ('h, 'w) Interrupt" where
  "advance_time s =
     (if mstatus s = SystemMode
      then s\<lparr>stats := (stats s)\<lparr>totalTicks := totalTicks (stats s) + SystemTick, systemTicks := systemTicks (stats s) + SystemTick\<rparr>\<rparr>
      else s\<lparr>stats := (stats s)\<lparr>totalTicks := totalTicks (stats s) + UserTick, userTicks := userTicks (stats s) + UserTick\<rparr>\<rparr>)"

definition OneTick :: "nat \<Rightarrow> ('h, 'w) hooks \<Rightarrow> ('h, 'w) Interrupt \<Rightarrow> ('h, 'w) Interrupt res" where
  "OneTick fuel k s =
     (let old = mstatus s in
      bindR (check_loop fuel k (ChangeLevel IntOff (advance_time s))) (\<lambda>s1.
      let s2 = ChangeLevel IntOn s1 in
      if yieldOnReturn s2
      then bindR (yield k (s2\<lparr>yieldOnReturn := False, mstatus := SystemMode\<rparr>)) (\<lambda>s3. Inr (s3\<lparr>mstatus := old\<rparr>))
      else Inr s2))"

definition SetLevel :: "nat \<Rightarrow> ('h, 'w) hooks \<Rightarrow> IntStatus \<Rightarrow> ('h, 'w) Interrupt \<Rightarrow> (IntStatus \<times> ('h, 'w) Interrupt) res" where
  "SetLevel fuel k now s =
     (let old = level s in
      bindR (ASSERT (now = IntOff \<or> \<not> inHandler s)) (\<lambda>_.
      let s1 = ChangeLevel now s in
      bindR (if now = IntOn \<and> old = IntOff then OneTick fuel k s1 else Inr s1) (\<lambda>s2. Inr (old, s2))))"

definition Enable :: "nat \<Rightarrow> ('h, 'w) hooks \<Rightarrow> ('h, 'w) Interrupt \<Rightarrow> ('h, 'w) Interrupt res" where
  "Enable fuel k s = bindR (SetLevel fuel k IntOn s) (\<lambda>(_, s'). Inr s')"

text \<open>\<^verbatim>\<open>Halt\<close> never returns.\<close>

definition Halt :: "('h, 'w) Interrupt \<Rightarrow> 'a res" where
  "Halt s = Inl MachineHalted"

definition Idle :: "nat \<Rightarrow> ('h, 'w) hooks \<Rightarrow> ('h, 'w) Interrupt \<Rightarrow> ('h, 'w) Interrupt res" where
  "Idle fuel k s =
     bindR (CheckIfDue k True (s\<lparr>mstatus := IdleMode\<rparr>)) (\<lambda>(b, s1).
     if b then bindR (check_loop fuel k s1) (\<lambda>s2. Inr (s2\<lparr>yieldOnReturn := False, mstatus := SystemMode\<rparr>))
     else Halt s1)"

section \<open>The timer and the other devices\<close>

text \<open>
  The handlers of the devices: the timer; a device that reports the end of a request (disk, console output, network
  send) and only changes the rest of the kernel; a device that is polled again after a fixed time (keyboard, network
  receive).
\<close>

datatype 'w dev_handler =
    TimerHandler
  | DoneHandler "int \<Rightarrow> 'w \<Rightarrow> 'w"
  | PollHandler int IntType "int \<Rightarrow> 'w \<Rightarrow> 'w"

type_synonym 'w sim = "('w dev_handler, 'w) Interrupt"

definition TimeOfNextInterrupt :: "bool \<Rightarrow> nat \<Rightarrow> int" where
  "TimeOfNextInterrupt randomize r = (if randomize then 1 + int r smod (TimerTicks * 2) else TimerTicks)"

text \<open>\<^verbatim>\<open>TimerInterruptHandler\<close> of \<^verbatim>\<open>threads/system.cc\<close>.\<close>

definition TimerInterruptHandler :: "('h, 'w) Interrupt \<Rightarrow> ('h, 'w) Interrupt res" where
  "TimerInterruptHandler s = (if mstatus s \<noteq> IdleMode then YieldOnReturn s else Inr s)"

text \<open>\<open>Random\<close> draws from the pseudo-random generator, which is part of the world.\<close>

definition TimerExpired :: "bool \<Rightarrow> ('w \<Rightarrow> nat \<times> 'w) \<Rightarrow> int \<Rightarrow> 'w sim \<Rightarrow> 'w sim res" where
  "TimerExpired randomize Random a s =
     (let (r, w') = (if randomize then Random (world s) else (0, world s)) in
      bindR (Schedule TimerHandler a (TimeOfNextInterrupt randomize r) TimerInt (s\<lparr>world := w'\<rparr>)) (\<lambda>s1.
      TimerInterruptHandler s1))"

definition Timer_new :: "bool \<Rightarrow> ('w \<Rightarrow> nat \<times> 'w) \<Rightarrow> int \<Rightarrow> 'w sim \<Rightarrow> 'w sim res" where
  "Timer_new doRandom Random a s =
     (let (r, w') = (if doRandom then Random (world s) else (0, world s)) in
      Schedule TimerHandler a (TimeOfNextInterrupt doRandom r) TimerInt (s\<lparr>world := w'\<rparr>))"

fun dispatch :: "bool \<Rightarrow> ('w \<Rightarrow> nat \<times> 'w) \<Rightarrow> 'w dev_handler \<Rightarrow> int \<Rightarrow> 'w sim \<Rightarrow> 'w sim res" where
  "dispatch rz Random TimerHandler a s = TimerExpired rz Random a s"
| "dispatch rz Random (DoneHandler f) a s = Inr (s\<lparr>world := f a (world s)\<rparr>)"
| "dispatch rz Random (PollHandler t k f) a s =
     bindR (Schedule (PollHandler t k f) a t k s) (\<lambda>s1. Inr (s1\<lparr>world := f a (world s1)\<rparr>))"


section \<open>The contract of the devices\<close>

text \<open>The pending interrupts are in order of time, and their handlers are ones the contract below covers.\<close>

definition pending_ok :: "('h \<Rightarrow> bool) \<Rightarrow> ('h, 'w) Interrupt \<Rightarrow> bool" where
  "pending_ok fine s \<longleftrightarrow> sorted (map fst (pending s)) \<and> (\<forall>p\<in>set (pending s). fine (handler (snd p)))"

definition due :: "('h, 'w) Interrupt \<Rightarrow> (int \<times> 'h PendingInterrupt) multiset" where
  "due s = filter_mset (\<lambda>p. fst p \<le> totalTicks (stats s)) (mset (pending s))"

text \<open>
  A handler returns, leaves the level, the time and the mode alone, and only schedules interrupts for the future.
\<close>

locale interrupt_devices =
  fixes hcall :: "'h \<Rightarrow> int \<Rightarrow> ('h, 'w) Interrupt \<Rightarrow> ('h, 'w) Interrupt res"
    and fine :: "'h \<Rightarrow> bool"
  assumes call_ok: "fine h \<Longrightarrow> pending_ok fine s \<Longrightarrow> inHandler s \<Longrightarrow>
     \<exists>s'. hcall h a s = Inr s' \<and> pending_ok fine s' \<and> level s' = level s \<and> stats s' = stats s \<and> mstatus s' = mstatus s
        \<and> (\<exists>new. mset (pending s') = mset (pending s) + new \<and> (\<forall>p\<in>#new. totalTicks (stats s) < fst p))"
begin

lemma pending_ok_putback:
  "pending s = (w, p) # rest \<Longrightarrow> pending_ok fine s \<Longrightarrow> pending_ok fine (s\<lparr>pending := sorted_insert w p rest\<rparr>)"
  by (auto simp: pending_ok_def sorted_sorted_insert set_sorted_insert)

lemma fire_ok:
  assumes "call k = hcall" "fine (handler p)" "pending_ok fine s"
  shows "\<exists>s'. fire k p s = Inr (True, s') \<and> pending_ok fine s' \<and> level s' = level s \<and> stats s' = stats s \<and> mstatus s' = mstatus s
     \<and> \<not> inHandler s' \<and> (\<exists>new. mset (pending s') = mset (pending s) + new \<and> (\<forall>p\<in>#new. totalTicks (stats s) < fst p))"
proof -
  define s1 where "s1 = (if mstatus s = UserMode then s\<lparr>world := delayedLoad k (world s)\<rparr> else s)\<lparr>inHandler := True, mstatus := SystemMode\<rparr>"
  have "pending_ok fine s1" "inHandler s1" "pending s1 = pending s" "level s1 = level s" "stats s1 = stats s"
    using assms(3) by (simp_all add: s1_def pending_ok_def)
  moreover from this obtain s2 where "hcall (handler p) (arg p) s1 = Inr s2" "pending_ok fine s2" "level s2 = level s1" "stats s2 = stats s1"
      "\<exists>new. mset (pending s2) = mset (pending s1) + new \<and> (\<forall>p\<in>#new. totalTicks (stats s1) < fst p)"
    using call_ok [OF assms(2), of s1 "arg p"] by blast
  ultimately show ?thesis using assms(1) unfolding fire_def Let_def s1_def [symmetric] by (auto simp: pending_ok_def)
qed

text \<open>One check: it fires the earliest interrupt if that is due, and otherwise leaves the pending ones as they were.\<close>

lemma CheckIfDue_ok:
  assumes "call k = hcall" "pending_ok fine s" "level s = IntOff"
  shows "\<exists>b s'. CheckIfDue k False s = Inr (b, s') \<and> pending_ok fine s' \<and> level s' = IntOff \<and> stats s' = stats s \<and> mstatus s' = mstatus s
     \<and> (if b then \<not> inHandler s' \<and> size (due s) = Suc (size (due s'))
        else mset (pending s') = mset (pending s) \<and> inHandler s' = inHandler s
          \<and> (due s = {#} \<or> mstatus s = IdleMode \<and> (\<exists>w p. pending s' = [(w, p)] \<and> itype p = TimerInt)))"
proof (cases "pending s")
  case Nil
  then show ?thesis using assms by (auto simp: CheckIfDue_def due_def)
next
  case (Cons wp rest)
  obtain w p where wp: "wp = (w, p)" by (cases wp)
  let ?now = "totalTicks (stats s)" and ?put = "s\<lparr>pending := sorted_insert w p rest\<rparr>"
  have bk: "pending_ok fine ?put" "mset (pending ?put) = mset (pending s)"
    using pending_ok_putback [of s w p rest] assms(2) Cons wp by (simp_all add: mset_sorted_insert)
  consider "w > ?now" | "w \<le> ?now" "mstatus s = IdleMode \<and> itype p = TimerInt \<and> rest = []"
    | "w \<le> ?now" "\<not> (mstatus s = IdleMode \<and> itype p = TimerInt \<and> rest = [])" by linarith
  then show ?thesis
  proof cases
    case 1
    have "sorted (w # map fst rest)" using assms(2) Cons wp by (simp add: pending_ok_def)
    then have "due s = {#}" using 1 Cons wp by (auto simp: due_def)
    moreover have "CheckIfDue k False s = Inr (False, ?put)" using 1 assms(3) Cons wp by (simp add: CheckIfDue_def Let_def)
    ultimately show ?thesis using bk assms(3) by auto
  next
    case 2
    have "CheckIfDue k False s = Inr (False, ?put)" using 2 assms(3) Cons wp by (simp add: CheckIfDue_def Let_def)
    then show ?thesis using bk assms(3) 2 by (intro exI [of _ False] exI [of _ ?put]) simp
  next
    case 3
    let ?s1 = "s\<lparr>pending := rest\<rparr>"
    have "pending_ok fine ?s1" "fine (handler p)" using assms(2) Cons wp by (simp_all add: pending_ok_def)
    from fire_ok [OF assms(1) this(2,1)] obtain s' new where f: "fire k p ?s1 = Inr (True, s')" "pending_ok fine s'" "level s' = IntOff" "stats s' = stats s"
        "mstatus s' = mstatus s" "\<not> inHandler s'" "mset (pending s') = mset rest + new" "\<forall>p\<in>#new. ?now < fst p"
      using assms(3) by auto
    have "filter_mset (\<lambda>p. fst p \<le> ?now) new = {#}" using f(8) by auto
    then have "size (due s) = Suc (size (due s'))" using 3(1) f(4,7) Cons wp by (simp add: due_def)
    moreover have "CheckIfDue k False s = Inr (True, s')" using 3 assms(3) Cons wp f(1) by (simp add: CheckIfDue_def Let_def)
    ultimately show ?thesis using f by (intro exI [of _ True] exI [of _ s']) simp
  qed
qed

text \<open>The loop ends: its fuel need only exceed the number of due interrupts.\<close>

lemma check_loop_ok:
  assumes "call k = hcall"
  shows "pending_ok fine s \<Longrightarrow> level s = IntOff \<Longrightarrow> size (due s) < n \<Longrightarrow>
    \<exists>s'. check_loop n k s = Inr s' \<and> pending_ok fine s' \<and> level s' = IntOff \<and> stats s' = stats s \<and> mstatus s' = mstatus s
      \<and> (\<not> inHandler s \<longrightarrow> \<not> inHandler s')
      \<and> (due s' = {#} \<or> mstatus s = IdleMode \<and> (\<exists>w p. pending s' = [(w, p)] \<and> itype p = TimerInt))"
proof (induction n arbitrary: s)
  case (Suc n)
  obtain b s1 where c: "CheckIfDue k False s = Inr (b, s1)" "pending_ok fine s1" "level s1 = IntOff" "stats s1 = stats s" "mstatus s1 = mstatus s"
      "if b then \<not> inHandler s1 \<and> size (due s) = Suc (size (due s1))
        else mset (pending s1) = mset (pending s) \<and> inHandler s1 = inHandler s
          \<and> (due s = {#} \<or> mstatus s = IdleMode \<and> (\<exists>w p. pending s1 = [(w, p)] \<and> itype p = TimerInt))"
    using CheckIfDue_ok [OF assms Suc.prems(1,2)] by blast
  show ?case
  proof (cases b)
    case True
    then show ?thesis using Suc.IH [OF c(2,3)] Suc.prems(3) c by auto
  next
    case False
    then have "due s1 = due s" using c(4,6) by (simp add: due_def)
    then show ?thesis using False c by auto
  qed
qed simp

end


text \<open>A polled device has to be polled after a positive time; the timer's delays always are.\<close>

fun dev_fine :: "'w dev_handler \<Rightarrow> bool" where
  "dev_fine (PollHandler t _ _) = (0 < t)"
| "dev_fine _ = True"

lemma TimeOfNextInterrupt_range: "1 \<le> TimeOfNextInterrupt rz r \<and> TimeOfNextInterrupt rz r \<le> 200"
proof -
  have "int r mod 200 \<le> 199" using pos_mod_bound [of 200 "int r"] by linarith
  then show ?thesis by (simp add: TimeOfNextInterrupt_def smod_nonneg)
qed

lemma Schedule_ok:
  assumes "0 < t" "fine h" "pending_ok fine s"
  shows "\<exists>s'. Schedule h a t k s = Inr s' \<and> pending_ok fine s' \<and> level s' = level s \<and> stats s' = stats s \<and> mstatus s' = mstatus s
     \<and> inHandler s' = inHandler s \<and> mset (pending s') = add_mset (totalTicks (stats s) + t, PendingInterrupt_new h a (totalTicks (stats s) + t) k) (mset (pending s))"
  using assms by (auto simp: Schedule_def Let_def pending_ok_def sorted_sorted_insert PendingInterrupt_new_def)

interpretation devs: interrupt_devices "dispatch rz Random" dev_fine for rz :: bool and Random :: "'w \<Rightarrow> nat \<times> 'w"
proof
  fix h :: "'w dev_handler" and s :: "'w sim" and a
  assume a: "dev_fine h" "pending_ok dev_fine s" "inHandler s"
  show "\<exists>s'. dispatch rz Random h a s = Inr s' \<and> pending_ok dev_fine s' \<and> level s' = level s \<and> stats s' = stats s \<and> mstatus s' = mstatus s
      \<and> (\<exists>new. mset (pending s') = mset (pending s) + new \<and> (\<forall>p\<in>#new. totalTicks (stats s) < fst p))"
  proof (cases h)
    case TimerHandler
    obtain r w' where r: "(if rz then Random (world s) else (0, world s)) = (r, w')" by fastforce
    let ?s = "s\<lparr>world := w'\<rparr>"
    have t: "0 < TimeOfNextInterrupt rz r" using TimeOfNextInterrupt_range [of rz r] by simp
    have "pending_ok dev_fine ?s" using a(2) by (simp add: pending_ok_def)
    from Schedule_ok [OF t _ this, of TimerHandler a TimerInt] obtain s1 where s1: "Schedule TimerHandler a (TimeOfNextInterrupt rz r) TimerInt ?s = Inr s1"
        "pending_ok dev_fine s1" and f: "level s1 = level s" "stats s1 = stats s" "mstatus s1 = mstatus s" "inHandler s1"
      and m:
        "mset (pending s1) = add_mset (totalTicks (stats s) + TimeOfNextInterrupt rz r,
           PendingInterrupt_new TimerHandler a (totalTicks (stats s) + TimeOfNextInterrupt rz r) TimerInt) (mset (pending s))"
      using a(3) by auto
    show ?thesis using TimerHandler r s1(1,2) m f t
      by (auto simp: TimerExpired_def TimerInterruptHandler_def YieldOnReturn_def pending_ok_def
          intro!: exI [of _ "{#(totalTicks (stats s) + TimeOfNextInterrupt rz r,
           PendingInterrupt_new TimerHandler a (totalTicks (stats s) + TimeOfNextInterrupt rz r) TimerInt)#}"])
  next
    case (DoneHandler f)
    then show ?thesis using a by (auto simp: pending_ok_def intro!: exI [of _ "{#}"])
  next
    case (PollHandler t k f)
    then have t: "0 < t" "dev_fine (PollHandler t k f)" using a(1) by auto
    from Schedule_ok [OF t a(2), of a k] obtain s1 where "Schedule (PollHandler t k f) a t k s = Inr s1"
        "pending_ok dev_fine s1" "level s1 = level s" "stats s1 = stats s" "mstatus s1 = mstatus s"
        "mset (pending s1) = add_mset (totalTicks (stats s) + t, PendingInterrupt_new (PollHandler t k f) a (totalTicks (stats s) + t) k) (mset (pending s))"
      by auto
    then show ?thesis using PollHandler t(1)
      by (auto simp: pending_ok_def intro!: exI [of _ "{#(totalTicks (stats s) + t, PendingInterrupt_new (PollHandler t k f) a (totalTicks (stats s) + t) k)#}"])
  qed
qed


section \<open>Properties\<close>

text \<open>Simulated time is the sum of what it was spent on.\<close>

definition time_ok :: "Statistics \<Rightarrow> bool" where
  "time_ok st \<longleftrightarrow> totalTicks st = idleTicks st + systemTicks st + userTicks st"

lemma due_bound: "size (due s) \<le> length (pending s)"
  by (metis due_def size_filter_mset_lesseq size_mset)


definition demo_sim :: "unit sim" where
  "demo_sim = \<lparr>level = IntOn, pending = [(5, PendingInterrupt_new TimerHandler 0 5 TimerInt),
     (9, PendingInterrupt_new (DoneHandler (\<lambda>_ w. w)) 0 9 DiskInt)], inHandler = False, yieldOnReturn = False,
     mstatus = SystemMode, stats = Statistics_new, world = ()\<rparr>"

definition demo_hooks :: "(unit dev_handler, unit) hooks" where
  "demo_hooks = \<lparr>call = dispatch False (\<lambda>w. (0, w)), delayedLoad = id, yield = Inr\<rparr>"

lemma demo_sim_ok: "pending_ok dev_fine demo_sim"
  by (simp add: pending_ok_def demo_sim_def PendingInterrupt_new_def)


text \<open>
  An idle machine. With nothing pending, or nothing but the timer, it halts. Otherwise simulated time
  jumps to the earliest pending interrupt (never backwards, and the skipped time is counted as idle), that interrupt
  and all others that are then due are handled, and the machine is back in system mode with no yield requested;
  at most a timer interrupt may be left due, alone.
\<close>

theorem idle_outcome:
  assumes "call k = dispatch rz Random" "pending_ok dev_fine s" "level s = IntOff"
  shows "(pending s = [] \<longrightarrow> Idle fuel k s = Inl MachineHalted)
   \<and> (\<forall>w p. pending s = [(w, p)] \<longrightarrow> itype p = TimerInt \<longrightarrow> Idle fuel k s = Inl MachineHalted)
   \<and> (\<forall>w p rest. pending s = (w, p) # rest \<longrightarrow> \<not> (itype p = TimerInt \<and> rest = []) \<longrightarrow> length (pending s) < fuel \<longrightarrow>
       (\<exists>s'. Idle fuel k s = Inr s' \<and> pending_ok dev_fine s' \<and> mstatus s' = SystemMode \<and> \<not> yieldOnReturn s' \<and> level s' = IntOff
          \<and> totalTicks (stats s') = max (totalTicks (stats s)) w \<and> (time_ok (stats s) \<longrightarrow> time_ok (stats s'))
          \<and> (due s' = {#} \<or> (\<exists>w' p'. pending s' = [(w', p')] \<and> itype p' = TimerInt))))"
proof (intro conjI allI impI)
  show "Idle fuel k s = Inl MachineHalted" if "pending s = []"
    using that assms(3) by (simp add: Idle_def CheckIfDue_def Halt_def)
  show "Idle fuel k s = Inl MachineHalted" if "pending s = [(w, p)]" "itype p = TimerInt" for w p
    using that assms(3) by (simp add: Idle_def CheckIfDue_def Halt_def Let_def)
  fix w p rest
  assume p: "pending s = (w, p) # rest" "\<not> (itype p = TimerInt \<and> rest = [])" "length (pending s) < fuel"
  let ?now = "totalTicks (stats s)"
  define st where "st = (if w > ?now then (stats s)\<lparr>idleTicks := idleTicks (stats s) + (w - ?now), totalTicks := w\<rparr> else stats s)"
  have st: "totalTicks st = max ?now w" "time_ok (stats s) \<longrightarrow> time_ok st" by (auto simp: st_def time_ok_def)
  let ?s0 = "s\<lparr>mstatus := IdleMode, pending := rest, stats := st\<rparr>"
  have f: "pending_ok dev_fine ?s0" "dev_fine (handler p)" using assms(2) p(1) by (simp_all add: pending_ok_def)
  have "CheckIfDue k True (s\<lparr>mstatus := IdleMode\<rparr>) = fire k p ?s0"
    using p(1,2) assms(3) by (auto simp: CheckIfDue_def Let_def st_def)
  with devs.fire_ok [OF assms(1) f(2,1)] obtain s1 new where
    c: "CheckIfDue k True (s\<lparr>mstatus := IdleMode\<rparr>) = Inr (True, s1)" "pending_ok dev_fine s1" "level s1 = IntOff" "stats s1 = st"
      "mstatus s1 = IdleMode" "mset (pending s1) = mset rest + new" "\<forall>p\<in>#new. totalTicks st < fst p"
    using assms(3) by auto
  have "due s1 = filter_mset (\<lambda>p. fst p \<le> totalTicks st) (mset rest)"
    using c(4,6,7) by (auto simp: due_def)
  then have "size (due s1) < fuel" using size_filter_mset_lesseq [of _ "mset rest"] p(1,3) by (metis Suc_lessD le_less_trans length_Cons size_mset)
  from devs.check_loop_ok [OF assms(1) c(2,3) this] obtain s2 where
    d: "check_loop fuel k s1 = Inr s2" "pending_ok dev_fine s2" "level s2 = IntOff" "stats s2 = st"
      "due s2 = {#} \<or> (\<exists>w p. pending s2 = [(w, p)] \<and> itype p = TimerInt)"
    using c(4,5) by auto
  have "due (s2\<lparr>yieldOnReturn := False, mstatus := SystemMode\<rparr>) = due s2" by (simp add: due_def)
  then show "\<exists>s'. Idle fuel k s = Inr s' \<and> pending_ok dev_fine s' \<and> mstatus s' = SystemMode \<and> \<not> yieldOnReturn s' \<and> level s' = IntOff
          \<and> totalTicks (stats s') = max ?now w \<and> (time_ok (stats s) \<longrightarrow> time_ok (stats s'))
          \<and> (due s' = {#} \<or> (\<exists>w' p'. pending s' = [(w', p')] \<and> itype p' = TimerInt))"
    using c(1) d st by (intro exI [of _ "s2\<lparr>yieldOnReturn := False, mstatus := SystemMode\<rparr>"]) (simp add: Idle_def pending_ok_def)
qed

theorem idle_outcome_witness:
  "\<exists>s'. Idle 3 demo_hooks (demo_sim\<lparr>level := IntOff\<rparr>) = Inr s' \<and> totalTicks (stats s') = 5"
proof -
  have "call demo_hooks = dispatch False (\<lambda>w. (0, w))" by (simp add: demo_hooks_def)
  moreover have "pending_ok dev_fine (demo_sim\<lparr>level := IntOff\<rparr>)" using demo_sim_ok by (simp add: pending_ok_def)
  ultimately show ?thesis using idle_outcome [of demo_hooks False "\<lambda>w. (0, w)" "demo_sim\<lparr>level := IntOff\<rparr>" 3]
    by (auto simp: demo_sim_def Statistics_new_def)
qed

end
