(* ===== verification/Scheduler.thy ===== *)
theory Scheduler
  imports AddrSpace Interrupt
begin

text \<open>
  Threads and the scheduler (\<^verbatim>\<open>threads/thread.cc\<close>, \<^verbatim>\<open>threads/scheduler.cc\<close>). The state is the part of the kernel
  these routines touch; it is the world of the interrupt simulation, so that \<^verbatim>\<open>Sleep\<close> idles in the model of
  \<^verbatim>\<open>Interrupt::Idle\<close> and re-enabling interrupts is the model of \<^verbatim>\<open>Interrupt::SetLevel\<close>. \<^verbatim>\<open>SWITCH\<close> transfers
  control: \<open>Run\<close> goes from the call by the old thread to the point where the new thread has finished what it does
  after its own switch, and each thread remembers where it will continue.
\<close>

section \<open>State\<close>

datatype ThreadStatus = JUST_CREATED | RUNNING | READY | BLOCKED

datatype resume_point = AtStart | InYield IntStatus | InSleep

record ThreadParams =
  tp_fun :: int
  tp_arg :: int
  tp_returnFun :: int
  tp_space :: bool

text \<open>\<open>stack\<close> is the word at the bottom of the stack, if one is allocated; \<open>start\<close> the function and argument it begins with.\<close>

record Thread =
  tname :: string
  tid :: int
  sp :: int
  stack :: "32 word option"
  start :: "(int \<times> ThreadParams) option"
  tstatus :: ThreadStatus
  resume :: resume_point
  userRegisters :: "32 word list"
  tspace :: "nat option"
  currentDirectory :: "OpenFile option"

type_synonym tref = nat

text \<open>Threads and address spaces are objects on the heap, named by their addresses.\<close>

record sched =
  threads :: "tref \<Rightarrow> Thread option"
  currentThread :: tref
  readyList :: "tref list"
  threadToBeDestroyed :: "tref option"
  spaces :: "nat \<Rightarrow> AddrSpace option"
  cpu :: Machine
  rootDirectory :: "OpenFile option"

abbreviation (input) STACK_FENCEPOST :: "32 word" where "STACK_FENCEPOST \<equiv> 0xdeadbeef"

definition get_thread :: "tref \<Rightarrow> sched \<Rightarrow> Thread res" where
  "get_thread t w = (case threads w t of None \<Rightarrow> Inl NullDeref | Some th \<Rightarrow> Inr th)"

definition put_thread :: "tref \<Rightarrow> Thread \<Rightarrow> sched \<Rightarrow> sched" where
  "put_thread t th w = w\<lparr>threads := (threads w)(t \<mapsto> th)\<rparr>"

section \<open>Threads\<close>

definition Thread_new :: "Thread \<Rightarrow> string \<Rightarrow> int \<Rightarrow> int \<Rightarrow> sched \<Rightarrow> Thread" where
  "Thread_new memory threadName i s w =
     memory\<lparr>tname := threadName, tid := i, sp := s, stack := None, tstatus := JUST_CREATED, tspace := None,
       userRegisters := take NumGPRegs (userRegisters memory) @ replicate (NumTotalRegs - NumGPRegs) 0,
       currentDirectory := (case rootDirectory w of None \<Rightarrow> currentDirectory memory | Some d \<Rightarrow> Some d)\<rparr>"

definition Thread_delete :: "tref \<Rightarrow> sched \<Rightarrow> sched res" where
  "Thread_delete t w = bindR (ASSERT (t \<noteq> currentThread w)) (\<lambda>_. Inr (w\<lparr>threads := (threads w)(t := None)\<rparr>))"

definition StackAllocate :: "int \<Rightarrow> ThreadParams \<Rightarrow> Thread \<Rightarrow> Thread" where
  "StackAllocate func params th = th\<lparr>stack := Some STACK_FENCEPOST, start := Some (func, params), resume := AtStart\<rparr>"

definition CheckOverflow :: "Thread \<Rightarrow> unit res" where
  "CheckOverflow th = ASSERT (stack th = None \<or> stack th = Some STACK_FENCEPOST)"

text \<open>The loops that copy the user-level registers.\<close>

definition SaveUserState :: "Machine \<Rightarrow> Thread \<Rightarrow> Thread res" where
  "SaveUserState m th =
     bindR (foldR (\<lambda>i rs. bindR (ReadRegister i m) (arr_set rs i)) (map int [0..<NumTotalRegs]) (userRegisters th)) (\<lambda>rs.
     Inr (th\<lparr>userRegisters := rs\<rparr>))"

definition RestoreUserState :: "Thread \<Rightarrow> Machine \<Rightarrow> Machine res" where
  "RestoreUserState th m =
     foldR (\<lambda>i m. bindR (arr_get (userRegisters th) i) (\<lambda>v. WriteRegister i v m)) (map int [0..<NumTotalRegs]) m"

section \<open>The scheduler\<close>

definition ReadyToRun :: "tref \<Rightarrow> sched \<Rightarrow> sched res" where
  "ReadyToRun t w =
     bindR (get_thread t w) (\<lambda>th.
     let w1 = put_thread t (th\<lparr>tstatus := READY\<rparr>) w in Inr (w1\<lparr>readyList := readyList w1 @ [t]\<rparr>))"

definition FindNextToRun :: "sched \<Rightarrow> tref option \<times> sched" where
  "FindNextToRun w = (case readyList w of [] \<Rightarrow> (None, w) | t # ts \<Rightarrow> (Some t, w\<lparr>readyList := ts\<rparr>))"

text \<open>What \<open>Run\<close> does before the switch, and what every thread does after it (also \<^verbatim>\<open>SetupThreadState\<close>).\<close>

definition save_current :: "sched \<Rightarrow> sched res" where
  "save_current w =
     bindR (get_thread (currentThread w) w) (\<lambda>old.
     case tspace old of
       None \<Rightarrow> Inr w
     | Some a \<Rightarrow>
         (case spaces w a of
            None \<Rightarrow> Inl NullDeref
          | Some space \<Rightarrow> bindR (SaveUserState (cpu w) old) (\<lambda>old'.
              Inr ((put_thread (currentThread w) old' w)\<lparr>spaces := (spaces w)(a \<mapsto> SaveState (cpu w) space)\<rparr>))))"

definition SetupThreadState :: "sched \<Rightarrow> sched res" where
  "SetupThreadState w =
     bindR (case threadToBeDestroyed w of
              None \<Rightarrow> Inr w
            | Some t \<Rightarrow> bindR (Thread_delete t w) (\<lambda>w'. Inr (w'\<lparr>threadToBeDestroyed := None\<rparr>))) (\<lambda>w1.
     bindR (get_thread (currentThread w1) w1) (\<lambda>th.
     case tspace th of
       None \<Rightarrow> Inr w1
     | Some a \<Rightarrow>
         (case spaces w1 a of
            None \<Rightarrow> Inl NullDeref
          | Some space \<Rightarrow> bindR (RestoreUserState th (cpu w1)) (\<lambda>m. Inr (w1\<lparr>cpu := RestoreState space m\<rparr>)))))"

definition switch_to :: "tref \<Rightarrow> sched \<Rightarrow> sched res" where
  "switch_to nextThread w =
     bindR (save_current w) (\<lambda>w1.
     bindR (get_thread (currentThread w1) w1) (\<lambda>old.
     bindR (CheckOverflow old) (\<lambda>_.
     bindR (get_thread nextThread w1) (\<lambda>th.
     SetupThreadState ((put_thread nextThread (th\<lparr>tstatus := RUNNING\<rparr>) w1)\<lparr>currentThread := nextThread\<rparr>)))))"

definition Run :: "tref \<Rightarrow> sched sim \<Rightarrow> sched sim res" where
  "Run nextThread s =
     bindR (ASSERT (level s = IntOff)) (\<lambda>_. bindR (switch_to nextThread (world s)) (\<lambda>w. Inr (s\<lparr>world := w\<rparr>)))"

section \<open>Forking, yielding, sleeping, finishing\<close>

definition set_resume :: "resume_point \<Rightarrow> sched sim \<Rightarrow> sched sim res" where
  "set_resume r s =
     bindR (get_thread (currentThread (world s)) (world s)) (\<lambda>th.
     Inr (s\<lparr>world := put_thread (currentThread (world s)) (th\<lparr>resume := r\<rparr>) (world s)\<rparr>))"

text \<open>How the thread that now runs continues: it enables interrupts at its start, or restores its level in \<^verbatim>\<open>Yield\<close>.\<close>

definition continue_thread :: "nat \<Rightarrow> (sched dev_handler, sched) hooks \<Rightarrow> sched sim \<Rightarrow> sched sim res" where
  "continue_thread fuel k s =
     bindR (get_thread (currentThread (world s)) (world s)) (\<lambda>th.
     case resume th of
       AtStart \<Rightarrow> Enable fuel k s
     | InYield oldLevel \<Rightarrow> bindR (SetLevel fuel k oldLevel s) (\<lambda>(_, s'). Inr s')
     | InSleep \<Rightarrow> Inr s)"

definition fork_thread :: "tref \<Rightarrow> int \<Rightarrow> ThreadParams \<Rightarrow> sched \<Rightarrow> sched res" where
  "fork_thread t func params w =
     bindR (get_thread t w) (\<lambda>th.
     bindR (get_thread (currentThread w) w) (\<lambda>cur.
     let th1 = StackAllocate func params th;
         th2 = (if tp_space params then th1\<lparr>tspace := tspace cur\<rparr> else th1)
     in Inr (put_thread t th2 w)))"

definition Fork :: "nat \<Rightarrow> (sched dev_handler, sched) hooks \<Rightarrow> tref \<Rightarrow> int \<Rightarrow> ThreadParams \<Rightarrow> sched sim \<Rightarrow> sched sim res" where
  "Fork fuel k t func params s =
     bindR (fork_thread t func params (world s)) (\<lambda>w.
     bindR (SetLevel fuel k IntOff (s\<lparr>world := w\<rparr>)) (\<lambda>(oldLevel, s1).
     bindR (ReadyToRun t (world s1)) (\<lambda>w2.
     bindR (SetLevel fuel k oldLevel (s1\<lparr>world := w2\<rparr>)) (\<lambda>(_, s2). Inr s2))))"

text \<open>\<open>Yield\<close> between the two changes of the interrupt level, and as a whole.\<close>

definition yield_body :: "tref \<Rightarrow> sched sim \<Rightarrow> sched sim res" where
  "yield_body this s =
     bindR (ASSERT (this = currentThread (world s))) (\<lambda>_.
     case FindNextToRun (world s) of
       (None, w) \<Rightarrow> Inr (s\<lparr>world := w\<rparr>)
     | (Some nextThread, w) \<Rightarrow> bindR (ReadyToRun this w) (\<lambda>w1. Run nextThread (s\<lparr>world := w1\<rparr>)))"

definition Yield :: "nat \<Rightarrow> (sched dev_handler, sched) hooks \<Rightarrow> tref \<Rightarrow> sched sim \<Rightarrow> sched sim res" where
  "Yield fuel k this s =
     bindR (SetLevel fuel k IntOff s) (\<lambda>(oldLevel, s1).
     bindR (set_resume (InYield oldLevel) s1) (\<lambda>s2.
     bindR (yield_body this s2) (\<lambda>s3. continue_thread fuel k s3)))"

text \<open>The loop of \<open>Sleep\<close> that waits for a ready thread; it ends the machine when nothing can make one ready.\<close>

fun await_thread :: "nat \<Rightarrow> (sched dev_handler, sched) hooks \<Rightarrow> sched sim \<Rightarrow> (tref \<times> sched sim) res" where
  "await_thread 0 k s = Inl OutOfFuel"
| "await_thread (Suc n) k s =
     (case FindNextToRun (world s) of
        (Some t, w) \<Rightarrow> Inr (t, s\<lparr>world := w\<rparr>)
      | (None, w) \<Rightarrow> bindR (Idle (Suc n) k (s\<lparr>world := w\<rparr>)) (await_thread n k))"

definition Sleep :: "nat \<Rightarrow> (sched dev_handler, sched) hooks \<Rightarrow> tref \<Rightarrow> sched sim \<Rightarrow> sched sim res" where
  "Sleep fuel k this s =
     bindR (ASSERT (this = currentThread (world s))) (\<lambda>_.
     bindR (ASSERT (level s = IntOff)) (\<lambda>_.
     bindR (get_thread this (world s)) (\<lambda>th.
     bindR (await_thread fuel k (s\<lparr>world := put_thread this (th\<lparr>tstatus := BLOCKED, resume := InSleep\<rparr>) (world s)\<rparr>)) (\<lambda>(nextThread, s1).
     bindR (Run nextThread s1) (continue_thread fuel k)))))"

definition Finish :: "nat \<Rightarrow> (sched dev_handler, sched) hooks \<Rightarrow> tref \<Rightarrow> sched sim \<Rightarrow> sched sim res" where
  "Finish fuel k this s =
     bindR (SetLevel fuel k IntOff s) (\<lambda>(_, s1).
     bindR (ASSERT (this = currentThread (world s1))) (\<lambda>_.
     bindR (ASSERT (threadToBeDestroyed (world s1) = None)) (\<lambda>_.
     Sleep fuel k this (s1\<lparr>world := (world s1)\<lparr>threadToBeDestroyed := Some (currentThread (world s1))\<rparr>\<rparr>))))"

end
