(* ===== verification/SchedulerSpec.thy ===== *)
theory SchedulerSpec
  imports Scheduler
begin

text \<open>
  What the scheduler guarantees: the ready list holds exactly the ready threads and one thread runs; yielding is
  round robin; a thread that is switched out and in again finds its registers and page table unchanged; finishing
  removes the thread and nothing else; a machine with nothing left to run and nothing to wait for halts.
\<close>

section \<open>Saving and restoring registers\<close>

lemma copy_array:
  "n \<le> length xs \<Longrightarrow> n \<le> length ys \<Longrightarrow>
     foldR (\<lambda>i rs. bindR (arr_get ys i) (arr_set rs i)) (map int [0..<n]) xs = Inr (take n ys @ drop n xs)"
proof (induction n)
  case (Suc n)
  have "(take n ys @ drop n xs)[n := ys ! n] = take (Suc n) ys @ drop (Suc n) xs"
    using Suc.prems by (simp add: list_update_append take_Suc_conv_app_nth Cons_nth_drop_Suc [symmetric])
  then show ?case using Suc by simp
qed simp

lemma SaveUserState_ok:
  assumes "length (registers m) = NumTotalRegs" "length (userRegisters th) = NumTotalRegs"
  shows "SaveUserState m th = Inr (th\<lparr>userRegisters := registers m\<rparr>)"
proof -
  have "foldR (\<lambda>i rs. bindR (ReadRegister i m) (arr_set rs i)) (map int [0..<40]) xs
      = foldR (\<lambda>i rs. bindR (arr_get (registers m) i) (arr_set rs i)) (map (\<lambda>i. i) (map int [0..<40])) xs" for xs
    by (rule foldR_cong) (auto simp: ReadRegister_def)
  then show ?thesis using copy_array [of 40 "userRegisters th" "registers m"] assms by (simp add: SaveUserState_def)
qed

lemma RestoreUserState_ok:
  assumes "length (registers m) = NumTotalRegs" "length (userRegisters th) = NumTotalRegs"
  shows "RestoreUserState th m = Inr (m\<lparr>registers := userRegisters th\<rparr>)"
proof -
  have "foldR (\<lambda>i m. bindR (arr_get (userRegisters th) i) (\<lambda>v. WriteRegister i v m)) (map int [0..<n]) m
      = Inr (m\<lparr>registers := take n (userRegisters th) @ drop n (registers m)\<rparr>)" if "n \<le> 40" for n
    using that
  proof (induction n)
    case (Suc n)
    have "(take n (userRegisters th) @ drop n (registers m))[n := userRegisters th ! n]
        = take (Suc n) (userRegisters th) @ drop (Suc n) (registers m)"
      using Suc.prems assms by (simp add: list_update_append take_Suc_conv_app_nth Cons_nth_drop_Suc [symmetric])
    then show ?case using Suc assms by (simp add: WriteRegister_def)
  qed simp
  from this [of 40] show ?thesis using assms by (simp add: RestoreUserState_def)
qed

section \<open>Invariant\<close>

text \<open>
  \<open>thread_ok\<close>: the stack of the thread is intact, it has a full register set and its address space exists.
  \<open>heap_ok\<close> holds at every moment, \<open>sched_ok\<close> between the operations.
\<close>

definition thread_ok :: "sched \<Rightarrow> Thread \<Rightarrow> bool" where
  "thread_ok w th \<longleftrightarrow> (stack th = None \<or> stack th = Some STACK_FENCEPOST) \<and> length (userRegisters th) = NumTotalRegs
     \<and> (\<forall>a. tspace th = Some a \<longrightarrow> spaces w a \<noteq> None)"

lemma thread_ok_upd [simp]:
  "thread_ok (w\<lparr>threads := f\<rparr>) th = thread_ok w th" "thread_ok (w\<lparr>readyList := l\<rparr>) th = thread_ok w th"
  "thread_ok (w\<lparr>currentThread := c\<rparr>) th = thread_ok w th" "thread_ok (w\<lparr>threadToBeDestroyed := d\<rparr>) th = thread_ok w th"
  "thread_ok (w\<lparr>cpu := m\<rparr>) th = thread_ok w th" "thread_ok w (th\<lparr>tstatus := st\<rparr>) = thread_ok w th" "thread_ok w (th\<lparr>resume := r\<rparr>) = thread_ok w th"
  by (simp_all add: thread_ok_def)

lemma thread_ok_regs: "thread_ok w th \<Longrightarrow> length rs = NumTotalRegs \<Longrightarrow> thread_ok w (th\<lparr>userRegisters := rs\<rparr>)"
  by (simp add: thread_ok_def)

lemma thread_ok_spaces: "thread_ok w th \<Longrightarrow> dom (spaces w) \<subseteq> dom sps \<Longrightarrow> thread_ok (w\<lparr>spaces := sps\<rparr>) th"
  by (auto simp: thread_ok_def)

definition ready :: "sched \<Rightarrow> tref set" where
  "ready w = {t. \<exists>th. threads w t = Some th \<and> tstatus th = READY}"

definition heap_ok :: "sched \<Rightarrow> bool" where
  "heap_ok w \<longleftrightarrow> (\<forall>t th. threads w t = Some th \<longrightarrow> thread_ok w th) \<and> length (registers (cpu w)) = NumTotalRegs
     \<and> threads w (currentThread w) \<noteq> None
     \<and> (\<forall>t th. threads w t = Some th \<longrightarrow> tstatus th = RUNNING \<longrightarrow> t = currentThread w)"

definition sched_ok :: "sched \<Rightarrow> bool" where
  "sched_ok w \<longleftrightarrow> heap_ok w \<and> distinct (readyList w) \<and> set (readyList w) = ready w \<and> threadToBeDestroyed w = None
     \<and> (\<exists>th. threads w (currentThread w) = Some th \<and> tstatus th = RUNNING)"

lemma heap_ok_upd [simp]: "heap_ok (w\<lparr>readyList := l\<rparr>) = heap_ok w" "heap_ok (w\<lparr>threadToBeDestroyed := d\<rparr>) = heap_ok w"
  by (simp_all add: heap_ok_def)

lemma heap_ok_put:
  assumes "heap_ok w" "thread_ok w th" "tstatus th = RUNNING \<Longrightarrow> t = currentThread w"
  shows "heap_ok (w\<lparr>threads := (threads w)(t \<mapsto> th)\<rparr>)"
proof -
  have "x = currentThread w" if "(if x = t then Some th else threads w x) = Some y" "tstatus y = RUNNING" for x y
    using that assms(1,3) by (cases "x = t") (auto simp: heap_ok_def)
  moreover have "thread_ok w y" if "(if x = t then Some th else threads w x) = Some y" for x y
    using that assms(1,2) by (cases "x = t") (auto simp: heap_ok_def)
  ultimately show ?thesis using assms(1) by (simp add: heap_ok_def fun_upd_def)
qed

text \<open>What a context switch leaves of a thread other than its registers.\<close>

definition identity :: "Thread \<Rightarrow> string \<times> int \<times> int \<times> 32 word option \<times> (int \<times> ThreadParams) option \<times> resume_point \<times> nat option \<times> OpenFile option" where
  "identity th = (tname th, tid th, sp th, stack th, start th, resume th, tspace th, currentDirectory th)"

lemma save_current_ok:
  assumes "heap_ok w" "threads w (currentThread w) = Some old"
  shows "\<exists>rs sps. save_current w = Inr ((put_thread (currentThread w) (old\<lparr>userRegisters := rs\<rparr>) w)\<lparr>spaces := sps\<rparr>)
     \<and> length rs = NumTotalRegs \<and> dom (spaces w) \<subseteq> dom sps
     \<and> (case tspace old of None \<Rightarrow> rs = userRegisters old \<and> sps = spaces w
        | Some a \<Rightarrow> rs = registers (cpu w) \<and> sps = (spaces w)(a \<mapsto> SaveState (cpu w) (the (spaces w a))))"
proof -
  have t: "thread_ok w old" "length (registers (cpu w)) = NumTotalRegs" using assms by (auto simp: heap_ok_def)
  show ?thesis
  proof (cases "tspace old")
    case None
    have "put_thread (currentThread w) (old\<lparr>userRegisters := userRegisters old\<rparr>) w = w"
      using assms(2) by (simp add: put_thread_def fun_upd_idem)
    then show ?thesis using None assms(2) t
      by (intro exI [of _ "userRegisters old"] exI [of _ "spaces w"]) (simp add: save_current_def get_thread_def thread_ok_def)
  next
    case (Some a)
    then obtain space where "spaces w a = Some space" using t(1) by (auto simp: thread_ok_def)
    then show ?thesis using Some assms(2) t SaveUserState_ok [of "cpu w" old]
      by (intro exI [of _ "registers (cpu w)"] exI [of _ "(spaces w)(a \<mapsto> SaveState (cpu w) space)"])
        (auto simp: save_current_def get_thread_def thread_ok_def)
  qed
qed

text \<open>
  A switch to another thread: only the two threads change, the old one in its saved registers, the new one in its
  status; a thread that has finished disappears. A new thread with an address space finds its registers and table.
\<close>

lemma switch_to_ok:
  assumes "heap_ok w" "threads w (currentThread w) = Some old" "tstatus old \<noteq> RUNNING" "threads w n = Some th" "n \<noteq> currentThread w"
    and "threadToBeDestroyed w \<in> {None, Some (currentThread w)}"
  shows "\<exists>rs sps m. switch_to n w = Inr (w\<lparr>spaces := sps, threads := (threads w)(currentThread w :=
         (if threadToBeDestroyed w = None then Some (old\<lparr>userRegisters := rs\<rparr>) else None), n \<mapsto> th\<lparr>tstatus := RUNNING\<rparr>),
       currentThread := n, threadToBeDestroyed := None, cpu := m\<rparr>)
     \<and> length rs = NumTotalRegs \<and> length (registers m) = NumTotalRegs \<and> dom (spaces w) \<subseteq> dom sps
     \<and> (case tspace old of None \<Rightarrow> rs = userRegisters old \<and> sps = spaces w
        | Some a \<Rightarrow> rs = registers (cpu w) \<and> sps = (spaces w)(a \<mapsto> SaveState (cpu w) (the (spaces w a))))
     \<and> (case tspace th of None \<Rightarrow> m = cpu w
        | Some a \<Rightarrow> registers m = userRegisters th \<and> pageTable m = space_table (the (sps a)) \<and> pageTableSize m = of_nat (numPages (the (sps a))))"
proof -
  let ?c = "currentThread w"
  obtain rs sps where s: "save_current w = Inr ((put_thread ?c (old\<lparr>userRegisters := rs\<rparr>) w)\<lparr>spaces := sps\<rparr>)"
     "length rs = NumTotalRegs" "dom (spaces w) \<subseteq> dom sps"
     "case tspace old of None \<Rightarrow> rs = userRegisters old \<and> sps = spaces w
        | Some a \<Rightarrow> rs = registers (cpu w) \<and> sps = (spaces w)(a \<mapsto> SaveState (cpu w) (the (spaces w a)))"
    using save_current_ok [OF assms(1,2)] by blast
  have t: "thread_ok w old" "thread_ok w th" "length (registers (cpu w)) = NumTotalRegs" using assms(1,2,4) by (auto simp: heap_ok_def)
  let ?ts = "(threads w)(?c := (if threadToBeDestroyed w = None then Some (old\<lparr>userRegisters := rs\<rparr>) else None), n \<mapsto> th\<lparr>tstatus := RUNNING\<rparr>)"
  let ?w2 = "w\<lparr>spaces := sps, threads := (threads w)(?c \<mapsto> old\<lparr>userRegisters := rs\<rparr>, n \<mapsto> th\<lparr>tstatus := RUNNING\<rparr>), currentThread := n\<rparr>"
  let ?w3 = "w\<lparr>spaces := sps, threads := ?ts, currentThread := n, threadToBeDestroyed := None\<rparr>"
  have a: "switch_to n w = SetupThreadState ?w2"
    using s(1) t(1) assms(4,5) by (simp add: switch_to_def get_thread_def put_thread_def CheckOverflow_def thread_ok_def)
  have b: "(case threadToBeDestroyed ?w2 of None \<Rightarrow> Inr ?w2
            | Some t \<Rightarrow> bindR (Thread_delete t ?w2) (\<lambda>w'. Inr (w'\<lparr>threadToBeDestroyed := None\<rparr>))) = Inr ?w3"
  proof (cases "threadToBeDestroyed w")
    case None
    then have "?w2 = ?w3" by (intro sched.equality) simp_all
    then show ?thesis using None by simp
  next
    case (Some d)
    then have "d = ?c" using assms(6) by simp
    moreover have "?w2\<lparr>threads := (threads ?w2)(?c := None), threadToBeDestroyed := None\<rparr> = ?w3"
      using Some assms(5) by (intro sched.equality) (simp_all add: fun_upd_twist)
    ultimately show ?thesis using Some assms(5) by (simp add: Thread_delete_def)
  qed
  show ?thesis
  proof (cases "tspace th")
    case None
    have "SetupThreadState ?w2 = Inr (?w3\<lparr>cpu := cpu w\<rparr>)"
      unfolding SetupThreadState_def b using None assms(5) by (simp add: get_thread_def)
    then show ?thesis unfolding a using s(2-4) t(3) None by auto
  next
    case (Some a)
    then obtain sa where sa: "sps a = Some sa" using t(2) s(3) by (auto simp: thread_ok_def)
    let ?m = "RestoreState sa ((cpu w)\<lparr>registers := userRegisters th\<rparr>)"
    have "SetupThreadState ?w2 = Inr (?w3\<lparr>cpu := ?m\<rparr>)"
      unfolding SetupThreadState_def b using Some sa assms(5) RestoreUserState_ok [of "cpu w" "th\<lparr>tstatus := RUNNING\<rparr>"] t(2,3)
      by (simp add: get_thread_def thread_ok_def)
    then show ?thesis unfolding a using s(2-4) t(2) Some sa
      by (intro exI [of _ rs] exI [of _ sps] exI [of _ ?m]) (simp add: RestoreState_def thread_ok_def)
  qed
qed

lemma heap_ok_switched:
  assumes "heap_ok w" "threads w (currentThread w) = Some old" "tstatus old \<noteq> RUNNING" "threads w n = Some th" "n \<noteq> currentThread w"
    and "length rs = NumTotalRegs" "length (registers m) = NumTotalRegs" "dom (spaces w) \<subseteq> dom sps"
  shows "heap_ok (w\<lparr>spaces := sps, threads := (threads w)(currentThread w := (if b then Some (old\<lparr>userRegisters := rs\<rparr>) else None), n \<mapsto> th\<lparr>tstatus := RUNNING\<rparr>),
       currentThread := n, threadToBeDestroyed := d, cpu := m\<rparr>)"
proof -
  have ok: "thread_ok (w\<lparr>spaces := sps\<rparr>) x" if "threads w t = Some x" for t x
    using that assms(1) by (intro thread_ok_spaces [OF _ assms(8)]) (auto simp: heap_ok_def)
  have r: "\<forall>t x. threads w t = Some x \<longrightarrow> tstatus x = RUNNING \<longrightarrow> t = currentThread w" using assms(1) by (simp add: heap_ok_def)
  show ?thesis unfolding heap_ok_def using assms(3,5,7) ok r thread_ok_regs [OF ok [OF assms(2)] assms(6)] ok [OF assms(4)] by simp blast
qed

section \<open>Yielding\<close>

text \<open>A yield moves the running thread to the end of the ready list and runs the thread at its front.\<close>

lemma yield_body_ok:
  assumes "sched_ok (world s)" "level s = IntOff"
  shows "\<exists>w'. yield_body (currentThread (world s)) s = Inr (s\<lparr>world := w'\<rparr>) \<and> sched_ok w'
     \<and> currentThread w' # readyList w' = rotate1 (currentThread (world s) # readyList (world s))
     \<and> (\<forall>t. map_option resume (threads w' t) = map_option resume (threads (world s) t))"
proof (cases "readyList (world s)")
  case Nil
  then show ?thesis using assms by (intro exI [of _ "world s"]) (simp add: yield_body_def FindNextToRun_def)
next
  case (Cons n ts)
  define w c where "w = world s" and "c = currentThread w"
  have ok: "sched_ok w" "readyList w = n # ts" using assms(1) Cons by (simp_all add: w_def)
  obtain old where old: "threads w c = Some old" "tstatus old = RUNNING" using ok(1) by (auto simp: sched_ok_def c_def)
  have "n \<in> ready w" using ok by (auto simp: sched_ok_def)
  then obtain th where th: "threads w n = Some th" "tstatus th = READY" by (auto simp: ready_def)
  have nc: "n \<noteq> c" using th old by auto
  let ?o = "old\<lparr>tstatus := READY\<rparr>"
  let ?w1 = "w\<lparr>readyList := ts @ [c], threads := (threads w)(c \<mapsto> ?o)\<rparr>"
  have d: "threadToBeDestroyed w = None" "heap_ok w" using ok(1) by (simp_all add: sched_ok_def)
  have "thread_ok w ?o" using d(2) old(1) by (simp add: heap_ok_def)
  then have "heap_ok ?w1" using heap_ok_put [of "w\<lparr>readyList := ts @ [c]\<rparr>" ?o c] d(2) by simp
  then have h1: "heap_ok ?w1" "threads ?w1 (currentThread ?w1) = Some ?o" "tstatus ?o \<noteq> RUNNING" "threads ?w1 n = Some th" "n \<noteq> currentThread ?w1"
      "threadToBeDestroyed ?w1 \<in> {None, Some (currentThread ?w1)}"
    using d th(1) nc by (simp_all add: c_def)
  from switch_to_ok [OF h1] obtain rs sps m where sw: "switch_to n ?w1 = Inr (?w1\<lparr>spaces := sps, threads := (threads ?w1)(currentThread ?w1 :=
         (if threadToBeDestroyed ?w1 = None then Some (?o\<lparr>userRegisters := rs\<rparr>) else None), n \<mapsto> th\<lparr>tstatus := RUNNING\<rparr>),
       currentThread := n, threadToBeDestroyed := None, cpu := m\<rparr>)" (is "_ = Inr ?w2")
     and l: "length rs = NumTotalRegs" "length (registers m) = NumTotalRegs" "dom (spaces ?w1) \<subseteq> dom sps" by blast
  have "heap_ok ?w2" by (rule heap_ok_switched [OF h1(1-5) l])
  moreover have "ready ?w2 = insert c (ready w - {n})"
    using old th nc d by (auto simp: ready_def c_def)
  moreover have "set (readyList w) = ready w" "distinct (readyList w)" "c \<notin> ready w" using ok(1) old by (auto simp: sched_ok_def ready_def)
  ultimately have "sched_ok ?w2" using ok(2) unfolding sched_ok_def by auto
  moreover have "yield_body c s = Inr (s\<lparr>world := ?w2\<rparr>)"
  proof -
    have "FindNextToRun w = (Some n, w\<lparr>readyList := ts\<rparr>)" using ok(2) by (simp add: FindNextToRun_def)
    moreover have "ReadyToRun c (w\<lparr>readyList := ts\<rparr>) = Inr ?w1"
      using old(1) by (simp add: ReadyToRun_def get_thread_def put_thread_def Let_def)
    ultimately show ?thesis using assms(2) sw unfolding w_def [symmetric]
      by (simp add: yield_body_def Run_def w_def [symmetric] c_def [symmetric])
  qed
  moreover have "\<forall>t. map_option resume (threads ?w2 t) = map_option resume (threads w t)" using old(1) th(1) d(1) by (simp add: c_def)
  ultimately show ?thesis using ok(2) by (intro exI [of _ ?w2]) (simp add: w_def [symmetric] c_def [symmetric])
qed

section \<open>Blocking\<close>

text \<open>\<open>blocked w b\<close>: the running thread of \<open>w\<close> blocked, and marked to be destroyed when \<open>b\<close>.\<close>

definition blocked :: "sched \<Rightarrow> bool \<Rightarrow> sched" where
  "blocked w b = w\<lparr>threadToBeDestroyed := (if b then Some (currentThread w) else None),
     threads := (threads w)(currentThread w \<mapsto> (the (threads w (currentThread w)))\<lparr>tstatus := BLOCKED, resume := InSleep\<rparr>)\<rparr>"

lemma blocked_run:
  assumes "sched_ok w" "readyList w = n # ts"
  shows "\<exists>w'. switch_to n ((blocked w b)\<lparr>readyList := ts\<rparr>) = Inr w' \<and> sched_ok w' \<and> currentThread w' = n \<and> readyList w' = ts
     \<and> (if b then threads w' (currentThread w) = None
        else \<exists>th. threads w' (currentThread w) = Some th \<and> tstatus th = BLOCKED \<and> resume th = InSleep)
     \<and> (\<forall>t. t \<noteq> currentThread w \<longrightarrow> t \<noteq> n \<longrightarrow> threads w' t = threads w t)
     \<and> map_option resume (threads w' n) = map_option resume (threads w n)"
proof -
  define c where "c = currentThread w"
  have h: "heap_ok w" "threadToBeDestroyed w = None" "distinct (n # ts)" "ready w = insert n (set ts)" using assms by (auto simp: sched_ok_def)
  obtain old where old: "threads w c = Some old" "tstatus old = RUNNING" using assms(1) by (auto simp: sched_ok_def c_def)
  have "n \<in> ready w" using h(4) by simp
  then obtain th where th: "threads w n = Some th" "tstatus th = READY" by (auto simp: ready_def)
  have nc: "n \<noteq> c" using th old by auto
  let ?o = "old\<lparr>tstatus := BLOCKED, resume := InSleep\<rparr>"
  let ?w1 = "(blocked w b)\<lparr>readyList := ts\<rparr>"
  have w1: "threads (blocked w d) = (threads w)(c \<mapsto> ?o)" "currentThread (blocked w d) = c"
      "threadToBeDestroyed (blocked w d) = (if d then Some c else None)" "readyList ((blocked w d)\<lparr>readyList := ts\<rparr>) = ts" for d
    using old(1) by (simp_all add: blocked_def c_def [symmetric])
  have "thread_ok w ?o" using h(1) old(1) by (simp add: heap_ok_def)
  then have "heap_ok ?w1" using heap_ok_put [of "w\<lparr>threadToBeDestroyed := (if b then Some c else None)\<rparr>" ?o c] h(1) old(1)
    by (cases b) (simp_all add: blocked_def c_def [symmetric])
  then have h1: "heap_ok ?w1" "threads ?w1 (currentThread ?w1) = Some ?o" "tstatus ?o \<noteq> RUNNING" "threads ?w1 n = Some th" "n \<noteq> currentThread ?w1"
      "threadToBeDestroyed ?w1 \<in> {None, Some (currentThread ?w1)}"
    using th(1) nc by (simp_all add: w1)
  from switch_to_ok [OF h1] obtain rs sps m where sw: "switch_to n ?w1 = Inr (?w1\<lparr>spaces := sps, threads := (threads ?w1)(currentThread ?w1 :=
         (if threadToBeDestroyed ?w1 = None then Some (?o\<lparr>userRegisters := rs\<rparr>) else None), n \<mapsto> th\<lparr>tstatus := RUNNING\<rparr>),
       currentThread := n, threadToBeDestroyed := None, cpu := m\<rparr>)" (is "_ = Inr ?w2")
     and l: "length rs = NumTotalRegs" "length (registers m) = NumTotalRegs" "dom (spaces ?w1) \<subseteq> dom sps" by blast
  have "heap_ok ?w2" by (rule heap_ok_switched [OF h1(1-5) l])
  moreover have "ready ?w2 = ready w - {n}" using old(1) th old(2) nc by (auto simp: ready_def w1)
  ultimately have "sched_ok ?w2" using h(3,4) w1(4) unfolding sched_ok_def by auto
  then show ?thesis using sw nc th(1) by (intro exI [of _ ?w2], cases b) (simp_all add: w1 c_def [symmetric])
qed

lemma Sleep_ready:
  assumes "sched_ok w" "readyList w = n # ts" "level s = IntOff" "0 < fuel"
    and "world s = w\<lparr>threadToBeDestroyed := (if b then Some (currentThread w) else None)\<rparr>"
    and "switch_to n ((blocked w b)\<lparr>readyList := ts\<rparr>) = Inr w'"
  shows "Sleep fuel k (currentThread w) s = continue_thread fuel k (s\<lparr>world := w'\<rparr>)"
proof -
  obtain old where old: "threads w (currentThread w) = Some old" using assms(1) by (auto simp: sched_ok_def)
  obtain f where f: "fuel = Suc f" using assms(4) by (cases fuel) auto
  have p: "put_thread (currentThread w) (old\<lparr>tstatus := BLOCKED, resume := InSleep\<rparr>) (world s) = blocked w b"
    using old by (simp add: put_thread_def assms(5) blocked_def)
  have "FindNextToRun (blocked w b) = (Some n, (blocked w b)\<lparr>readyList := ts\<rparr>)"
    using assms(2) by (simp add: FindNextToRun_def blocked_def)
  then have "await_thread fuel k (s\<lparr>world := blocked w b\<rparr>) = Inr (n, s\<lparr>world := (blocked w b)\<lparr>readyList := ts\<rparr>\<rparr>)" by (simp add: f)
  then show ?thesis using old p assms(3,6) by (simp add: Sleep_def get_thread_def assms(5) Run_def)
qed

lemma Sleep_deadlock:
  assumes "sched_ok (world s)" "readyList (world s) = []" "level s = IntOff" "0 < fuel"
    and "pending s = [] \<or> (\<exists>w p. pending s = [(w, p)] \<and> itype p = TimerInt)"
  shows "Sleep fuel k (currentThread (world s)) s = Inl MachineHalted"
proof -
  obtain old where old: "threads (world s) (currentThread (world s)) = Some old" using assms(1) by (auto simp: sched_ok_def)
  obtain f where f: "fuel = Suc f" using assms(4) by (cases fuel) auto
  have "Idle fuel k (s\<lparr>world := w\<rparr>) = Inl MachineHalted" for w
    using assms(3,5) by (auto simp: Idle_def CheckIfDue_def Halt_def Let_def)
  then show ?thesis using old assms(2,3) by (simp add: Sleep_def get_thread_def put_thread_def f FindNextToRun_def)
qed

section \<open>Properties\<close>

text \<open>A sequence of yields, each by the thread that is running.\<close>

fun yields :: "nat \<Rightarrow> sched sim \<Rightarrow> sched sim res" where
  "yields 0 s = Inr s"
| "yields (Suc n) s = bindR (yield_body (currentThread (world s)) s) (yields n)"

lemma yields_rotate:
  "sched_ok (world s) \<Longrightarrow> level s = IntOff \<Longrightarrow>
     \<exists>s'. yields n s = Inr s' \<and> sched_ok (world s') \<and> currentThread (world s') # readyList (world s') = rotate n (currentThread (world s) # readyList (world s))"
proof (induction n arbitrary: s)
  case (Suc n)
  obtain w' where w: "yield_body (currentThread (world s)) s = Inr (s\<lparr>world := w'\<rparr>)" "sched_ok w'"
      "currentThread w' # readyList w' = rotate1 (currentThread (world s) # readyList (world s))"
    using yield_body_ok [OF Suc.prems] by blast
  from Suc.IH [of "s\<lparr>world := w'\<rparr>"] w Suc.prems(2) show ?case
    by (simp add: rotate1_rotate_swap [symmetric] del: rotate1.simps)
qed simp

text \<open>
  C8 (liveness): scheduling is fair. When the running threads keep yielding, the scheduler cycles through all threads
  in order: the thread at position \<open>i\<close> of the ready list runs after \<open>i + 1\<close> yields, nothing is lost or duplicated,
  and every state on the way satisfies the invariant that the ready list holds exactly the ready threads and one
  thread is running.
\<close>

theorem round_robin:
  assumes "sched_ok (world s)" "level s = IntOff"
  shows "\<exists>s'. yields n s = Inr s' \<and> sched_ok (world s')
     \<and> currentThread (world s') # readyList (world s') = rotate n (currentThread (world s) # readyList (world s))
     \<and> (n < Suc (length (readyList (world s))) \<longrightarrow> currentThread (world s') = (currentThread (world s) # readyList (world s)) ! n)"
proof -
  let ?l = "currentThread (world s) # readyList (world s)"
  obtain s' where s: "yields n s = Inr s'" "sched_ok (world s')" "currentThread (world s') # readyList (world s') = rotate n ?l"
    using yields_rotate [OF assms] by blast
  have "currentThread (world s') = ?l ! n" if "n < Suc (length (readyList (world s)))"
    using hd_rotate_conv_nth [of ?l n] that s(3) by (metis length_Cons list.distinct(1) list.sel(1) mod_less)
  then show ?thesis using s by blast
qed

definition demo_thread :: "ThreadStatus \<Rightarrow> nat option \<Rightarrow> Thread" where
  "demo_thread st a = \<lparr>tname = ''demo'', tid = 1, sp = 0, stack = None, start = None, tstatus = st, resume = InSleep,
     userRegisters = replicate 40 0, tspace = a, currentDirectory = None\<rparr>"

definition demo_sched :: sched where
  "demo_sched = \<lparr>threads = [0 \<mapsto> demo_thread RUNNING None, 1 \<mapsto> demo_thread READY None, 2 \<mapsto> demo_thread READY None],
     currentThread = 0, readyList = [1, 2], threadToBeDestroyed = None, spaces = Map.empty, cpu = demo_machine, rootDirectory = None\<rparr>"

definition demo_sim2 :: "sched sim" where
  "demo_sim2 = (Interrupt_new demo_sched)\<lparr>level := IntOff\<rparr>"

lemma demo_sched_ok: "sched_ok demo_sched"
  by (auto simp: sched_ok_def heap_ok_def demo_sched_def thread_ok_def demo_thread_def demo_machine_def ready_def split: if_splits)

theorem round_robin_witness:
  "\<exists>s'. yields 2 demo_sim2 = Inr s' \<and> currentThread (world s') = 2"
proof -
  have "world demo_sim2 = demo_sched" "level demo_sim2 = IntOff" by (simp_all add: demo_sim2_def Interrupt_new_def)
  then show ?thesis using round_robin [of demo_sim2 2] demo_sched_ok by (auto simp: demo_sched_def)
qed

text \<open>
  C29 (functional): giving up the processor. A thread that sleeps is blocked and the first ready thread runs; a thread
  that finishes is removed, with everything that belongs to it, once the next thread runs, and no other thread
  changes. When no thread is ready and no interrupt other than the timer is pending, the machine halts: the
  deadlock is detected.
\<close>

theorem sleep_finish_outcome:
  assumes "sched_ok (world s)" "level s = IntOff" "0 < fuel" and c: "c = currentThread (world s)"
  shows "(\<forall>n ts. readyList (world s) = n # ts \<longrightarrow>
       (\<exists>w'. Sleep fuel k c s = continue_thread fuel k (s\<lparr>world := w'\<rparr>) \<and> sched_ok w' \<and> currentThread w' = n \<and> readyList w' = ts
          \<and> (\<exists>th. threads w' c = Some th \<and> tstatus th = BLOCKED) \<and> (\<forall>t. t \<notin> {c, n} \<longrightarrow> threads w' t = threads (world s) t))
       \<and> (\<exists>w'. Finish fuel k c s = continue_thread fuel k (s\<lparr>world := w'\<rparr>) \<and> sched_ok w' \<and> currentThread w' = n \<and> readyList w' = ts
          \<and> threads w' c = None \<and> (\<forall>t. t \<notin> {c, n} \<longrightarrow> threads w' t = threads (world s) t)))
     \<and> (readyList (world s) = [] \<and> (pending s = [] \<or> (\<exists>w p. pending s = [(w, p)] \<and> itype p = TimerInt)) \<longrightarrow>
         Sleep fuel k c s = Inl MachineHalted)"
proof (intro conjI allI impI)
  have d: "threadToBeDestroyed (world s) = None" using assms(1) by (simp add: sched_ok_def)
  have w0: "world s = (world s)\<lparr>threadToBeDestroyed := (if False then Some (currentThread (world s)) else None)\<rparr>" using d by simp
  fix n ts assume r: "readyList (world s) = n # ts"
  from blocked_run [OF assms(1) r, of False] obtain w' where w: "switch_to n ((blocked (world s) False)\<lparr>readyList := ts\<rparr>) = Inr w'"
      "sched_ok w'" "currentThread w' = n" "readyList w' = ts" "\<exists>th. threads w' c = Some th \<and> tstatus th = BLOCKED"
      "\<forall>t. t \<noteq> c \<longrightarrow> t \<noteq> n \<longrightarrow> threads w' t = threads (world s) t" by (auto simp: c)
  show "\<exists>w'. Sleep fuel k c s = continue_thread fuel k (s\<lparr>world := w'\<rparr>) \<and> sched_ok w' \<and> currentThread w' = n \<and> readyList w' = ts
      \<and> (\<exists>th. threads w' c = Some th \<and> tstatus th = BLOCKED) \<and> (\<forall>t. t \<notin> {c, n} \<longrightarrow> threads w' t = threads (world s) t)"
    using Sleep_ready [OF assms(1) r assms(2,3) w0 w(1), of k] w(2-6) by (intro exI [of _ w']) (simp add: c)
  from blocked_run [OF assms(1) r, of True] obtain v where v: "switch_to n ((blocked (world s) True)\<lparr>readyList := ts\<rparr>) = Inr v"
      "sched_ok v" "currentThread v = n" "readyList v = ts" "threads v c = None" "\<forall>t. t \<noteq> c \<longrightarrow> t \<noteq> n \<longrightarrow> threads v t = threads (world s) t"
    by (auto simp: c)
  let ?s1 = "s\<lparr>world := (world s)\<lparr>threadToBeDestroyed := Some c\<rparr>\<rparr>"
  have "s\<lparr>level := IntOff\<rparr> = s" using assms(2) by (cases s) simp
  then have "Finish fuel k c s = Sleep fuel k c ?s1" using d by (simp add: Finish_def SetLevel_def Let_def ChangeLevel_def c)
  then have "Finish fuel k c s = continue_thread fuel k (s\<lparr>world := v\<rparr>)"
    using Sleep_ready [OF assms(1) r _ assms(3) _ v(1), of ?s1 k] assms(2) by (simp add: c)
  then show "\<exists>w'. Finish fuel k c s = continue_thread fuel k (s\<lparr>world := w'\<rparr>) \<and> sched_ok w' \<and> currentThread w' = n \<and> readyList w' = ts
      \<and> threads w' c = None \<and> (\<forall>t. t \<notin> {c, n} \<longrightarrow> threads w' t = threads (world s) t)"
    using v(2-6) by (intro exI [of _ v]) simp
next
  assume "readyList (world s) = [] \<and> (pending s = [] \<or> (\<exists>w p. pending s = [(w, p)] \<and> itype p = TimerInt))"
  then show "Sleep fuel k c s = Inl MachineHalted" unfolding c by (intro Sleep_deadlock [OF assms(1) _ assms(2,3)]) auto
qed

definition demo_kernel_hooks :: "(sched dev_handler, sched) hooks" where
  "demo_kernel_hooks = \<lparr>call = dispatch False (\<lambda>w. (0, w)), delayedLoad = id, yield = Inr\<rparr>"

theorem sleep_finish_outcome_witness:
  "\<exists>w'. Finish 1 demo_kernel_hooks 0 demo_sim2 = continue_thread 1 demo_kernel_hooks (demo_sim2\<lparr>world := w'\<rparr>) \<and> currentThread w' = 1 \<and> threads w' 0 = None"
proof -
  have "world demo_sim2 = demo_sched" "level demo_sim2 = IntOff" by (simp_all add: demo_sim2_def Interrupt_new_def)
  then show ?thesis using sleep_finish_outcome [of demo_sim2 1 0 demo_kernel_hooks] demo_sched_ok by (auto simp: demo_sched_def)
qed


text \<open>A user thread with an address space, and a kernel thread it is switched with.\<close>

definition demo_user :: sched where
  "demo_user = demo_sched\<lparr>threads := [0 \<mapsto> demo_thread READY (Some 5), 1 \<mapsto> demo_thread READY None],
     spaces := [5 \<mapsto> \<lparr>threadIDs = [], threadStackPointer = [], nbThreads = 1, maxTIDGiven = 1, isCreated = True, numPages = 0,
       space_table = None, pid = 0\<rparr>]\<rparr>"


end
