(* ===== verification/UserThread.thy ===== *)
theory UserThread
  imports Scheduler
begin

text \<open>
  User threads (\<^verbatim>\<open>userprog/userthread.cc\<close>) and the tables of an address space they live in: the identifiers of the
  live threads and the slots of the user stack. The table of identifiers is shown to implement a list of distinct
  identifiers; the computation that finds the slot of a stack pointer again is shown to give another slot than the
  one that was taken, or to leave the table, for almost every program.
\<close>

section \<open>Model\<close>

text \<open>\<^verbatim>\<open>StartUserThread\<close> up to \<^verbatim>\<open>machine->Run()\<close>: the registers with which the user thread begins.\<close>

definition StartUserThread :: "AddrSpace \<Rightarrow> ThreadParams \<Rightarrow> int \<Rightarrow> Machine \<Rightarrow> Machine res" where
  "StartUserThread a params stackPointer m =
     bindR (InitRegisters a m) (\<lambda>m1.
     bindR (WriteRegister 4 (word_of_int (tp_arg params)) (RestoreState a m1)) (\<lambda>m2.
     bindR (WriteRegister (int PCReg) (word_of_int (tp_fun params)) m2) (\<lambda>m3.
     bindR (WriteRegister (int NextPCReg) (word_of_int (tp_fun params) + 4) m3) (\<lambda>m4.
     bindR (WriteRegister (int RetAddrReg) (word_of_int (tp_returnFun params)) m4) (\<lambda>m5.
     WriteRegister (int StackReg) (word_of_int stackPointer) m5)))))"

definition current_space :: "sched \<Rightarrow> (nat \<times> AddrSpace) res" where
  "current_space w =
     bindR (get_thread (currentThread w) w) (\<lambda>th.
     case tspace th of None \<Rightarrow> Inl NullDeref
     | Some x \<Rightarrow> (case spaces w x of None \<Rightarrow> Inl NullDeref | Some a \<Rightarrow> Inr (x, a)))"

text \<open>The tables' part of \<^verbatim>\<open>do_UserThreadCreate\<close>: the identifier and the stack pointer of the new thread, if there is room.\<close>

definition enter_thread :: "AddrSpace \<Rightarrow> ((32 word \<times> int) option \<times> AddrSpace) res" where
  "enter_thread a =
     (if GetTotalThreads a + 1 > int UserThreadMax then Inr (None, a)
      else case GetNextThreadID a of (t, a1) \<Rightarrow>
        bindR (AddThreadID t a1) (\<lambda>a2. bindR (GetThreadStackPointer a2) (\<lambda>(s, a3). Inr (Some (t, s), a3))))"

text \<open>\<open>obj\<close> is the memory the new thread object is built in, \<open>t\<close> its address and \<open>func\<close> that of \<^verbatim>\<open>StartUserThread\<close>.\<close>

definition do_UserThreadCreate ::
  "nat \<Rightarrow> (sched dev_handler, sched) hooks \<Rightarrow> Thread \<Rightarrow> tref \<Rightarrow> int \<Rightarrow> int \<Rightarrow> int \<Rightarrow> int \<Rightarrow> sched sim \<Rightarrow> (int \<times> sched sim) res" where
  "do_UserThreadCreate fuel k obj t func f farg returnFun s =
     bindR (current_space (world s)) (\<lambda>(x, a).
     bindR (enter_thread a) (\<lambda>(r, a').
     case r of
       None \<Rightarrow> Inr (-1, s)
     | Some (i, stackPointer) \<Rightarrow>
         (let w1 = (world s)\<lparr>spaces := (spaces (world s))(x \<mapsto> a')\<rparr>;
              th = (Thread_new obj ''User thread'' (sint i) stackPointer w1)\<lparr>tspace := Some x\<rparr>;
              w2 = put_thread t th w1
          in bindR (Fork fuel k t func \<lparr>tp_fun = f, tp_arg = farg, tp_returnFun = returnFun, tp_space = True\<rparr> (s\<lparr>world := w2\<rparr>)) (\<lambda>s'.
             Inr (sint i, s')))))"

definition leave_thread :: "32 word \<Rightarrow> int \<Rightarrow> AddrSpace \<Rightarrow> (cond_event list \<times> AddrSpace) res" where
  "leave_thread i stackPointer a =
     bindR (RemoveThreadID i a) (\<lambda>(es, a1). bindR (RemoveThreadStackPointer stackPointer a1) (\<lambda>a2. Inr (es, a2)))"

text \<open>
  \<open>waiters x e\<close> are the threads that wait on a condition of the space \<open>x\<close>, in the order of their arrival: a broadcast
  makes all of them ready before the thread finishes.
\<close>

definition do_UserThreadExit ::
  "nat \<Rightarrow> (sched dev_handler, sched) hooks \<Rightarrow> (nat \<Rightarrow> cond_event \<Rightarrow> tref list) \<Rightarrow> sched sim \<Rightarrow> ((nat \<times> cond_event list) \<times> sched sim) res" where
  "do_UserThreadExit fuel k waiters s =
     bindR (current_space (world s)) (\<lambda>(x, a).
     bindR (get_thread (currentThread (world s)) (world s)) (\<lambda>th.
     bindR (leave_thread (word_of_int (tid th)) (sp th) a) (\<lambda>(es, a').
     bindR (foldR ReadyToRun (concat (map (waiters x) es)) ((world s)\<lparr>spaces := (spaces (world s))(x \<mapsto> a')\<rparr>)) (\<lambda>w.
     bindR (Finish fuel k (currentThread w) (s\<lparr>world := w\<rparr>)) (\<lambda>s'.
     Inr ((x, es), s'))))))"

definition do_UserThreadId :: "sched \<Rightarrow> int res" where
  "do_UserThreadId w = bindR (get_thread (currentThread w) w) (\<lambda>th. Inr (tid th))"

section \<open>The table of identifiers\<close>

text \<open>The live threads, in the order of the table.\<close>

definition live :: "AddrSpace \<Rightarrow> 32 word list" where
  "live a = take (nat (nbThreads a)) (threadIDs a)"

definition ids_ok :: "AddrSpace \<Rightarrow> bool" where
  "ids_ok a \<longleftrightarrow> length (threadIDs a) = UserThreadMax \<and> 0 \<le> nbThreads a \<and> nbThreads a \<le> int UserThreadMax \<and> distinct (live a)"

lemma scan_prefix:
  assumes "0 \<le> i" "n \<le> length xs"
  shows "scan P i (int n) xs = scan P i (int n) (take n xs)"
  using assms
proof (induction P i "int n" xs rule: scan.induct)
  case (1 P i xs)
  show ?case
  proof (cases "i < int n")
    case True
    then have g: "arr_get xs i = Inr (xs ! nat i)" "arr_get (take n xs) i = Inr (xs ! nat i)"
      using "1.prems" by (simp_all add: nat_less_iff)
    have "\<not> P (xs ! nat i) \<Longrightarrow> scan P (i + 1) (int n) xs = scan P (i + 1) (int n) (take n xs)"
      using "1.hyps" [OF True g(1)] "1.prems" by simp
    then show ?thesis using True g by (subst (1 2) scan.simps) simp
  qed (subst (1 2) scan.simps, simp)
qed

lemma scan_live:
  assumes "ids_ok a"
  shows "(i \<notin> set (live a) \<and> scan (\<lambda>t. t = i) 0 (nbThreads a) (threadIDs a) = Inr (-1))
     \<or> (\<exists>j. scan (\<lambda>t. t = i) 0 (nbThreads a) (threadIDs a) = Inr (int j) \<and> j < length (live a) \<and> live a ! j = i)"
proof -
  define n where "n = nat (nbThreads a)"
  have n: "nbThreads a = int n" "n \<le> length (threadIDs a)" "length (live a) = n" using assms by (auto simp: ids_ok_def n_def live_def)
  then have e: "scan (\<lambda>t. t = i) 0 (nbThreads a) (threadIDs a) = scan (\<lambda>t. t = i) 0 (int (length (live a))) (live a)"
    using scan_prefix [of 0 n "threadIDs a"] by (simp add: live_def)
  show ?thesis unfolding e by (cases rule: scan_cases [of "\<lambda>t. t = i" "live a"]) auto
qed

lemma ContainThreadID_ok: "ids_ok a \<Longrightarrow> ContainThreadID i a = Inr (i \<in> set (live a))"
  using scan_live [of a i] by (auto simp: ContainThreadID_def)

lemma AddThreadID_ok:
  assumes "ids_ok a" "i \<notin> set (live a)" "nbThreads a < int UserThreadMax"
  shows "\<exists>a'. AddThreadID i a = Inr a' \<and> ids_ok a' \<and> live a' = live a @ [i] \<and> nbThreads a' = nbThreads a + 1
     \<and> a' = a\<lparr>threadIDs := threadIDs a', nbThreads := nbThreads a'\<rparr>"
proof -
  define n where "n = nat (nbThreads a)"
  have n: "nbThreads a = int n" "n < 48" "length (threadIDs a) = 48" using assms by (auto simp: ids_ok_def n_def)
  let ?a = "a\<lparr>threadIDs := (threadIDs a)[n := i], nbThreads := int n + 1\<rparr>"
  have l: "live ?a = live a @ [i]" using n by (simp add: live_def nat_add_distrib take_Suc_conv_app_nth)
  moreover have "AddThreadID i a = Inr ?a" using ContainThreadID_ok [OF assms(1), of i] assms(2) n by (simp add: AddThreadID_def)
  ultimately show ?thesis using assms(1,2) n by (auto simp: ids_ok_def)
qed

text \<open>The loop that closes the gap.\<close>

lemma shift_down:
  assumes "i < n" "n \<le> length ts"
  shows "foldR (\<lambda>j ts. bindR (arr_get ts (j + 1)) (arr_set ts j)) [int i..int n - 2] ts
     = Inr (take i ts @ take (n - 1 - i) (drop (Suc i) ts) @ drop (n - 1) ts)"
  using assms
proof (induction "n - 1 - i" arbitrary: i ts)
  case 0
  then have "i = n - 1" "[int i..int n - 2] = []" by auto
  then show ?case by simp
next
  case (Suc k)
  then have i: "Suc i < n" "k = n - 1 - Suc i" by linarith+
  let ?ts = "ts[i := ts ! Suc i]"
  have u: "[int i..int n - 2] = int i # [int (Suc i)..int n - 2]" using i(1) by (subst upto.simps) (simp add: add.commute)
  have s: "foldR (\<lambda>j ts. bindR (arr_get ts (j + 1)) (arr_set ts j)) [int i..int n - 2] ts
      = foldR (\<lambda>j ts. bindR (arr_get ts (j + 1)) (arr_set ts j)) [int (Suc i)..int n - 2] ?ts"
    unfolding u using i(1) Suc.prems(2) by (simp add: nat_add_distrib)
  have "take (Suc i) ?ts = take i ts @ [ts ! Suc i]" using i(1) Suc.prems(2) by (simp add: take_Suc_conv_app_nth)
  moreover have "take (n - 1 - i) (drop (Suc i) ts) = ts ! Suc i # take (n - 1 - Suc i) (drop (Suc (Suc i)) ts)"
  proof -
    have c: "n - 1 - i = Suc (n - 1 - Suc i)" and d: "drop (Suc i) ts = ts ! Suc i # drop (Suc (Suc i)) ts"
      using i(1) Suc.prems(2) by (simp_all add: Cons_nth_drop_Suc)
    show ?thesis unfolding c d by (rule take_Suc_Cons)
  qed
  ultimately show ?case using Suc.hyps(1) [OF i(2) i(1), of ?ts] Suc.prems(2) i(1) unfolding s by simp
qed

lemma remove1_nth:
  assumes "distinct xs" "i < length xs"
  shows "take i xs @ drop (Suc i) xs = remove1 (xs ! i) xs"
proof -
  have "xs = take i xs @ xs ! i # drop (Suc i) xs" by (rule id_take_nth_drop [OF assms(2)])
  moreover have "xs ! i \<notin> set (take i xs)" using assms by (auto simp: in_set_conv_nth nth_eq_iff_index_eq)
  ultimately show ?thesis by (metis remove1.simps(2) remove1_append)
qed

lemma RemoveThreadID_ok:
  assumes "ids_ok a" "i \<in> set (live a)"
  shows "if unat i < UserThreadMax
     then \<exists>a'. RemoveThreadID i a = Inr ([JoinBroadcast i, ExitBroadcast], a') \<and> ids_ok a' \<and> live a' = remove1 i (live a)
        \<and> a' = a\<lparr>threadIDs := threadIDs a', nbThreads := nbThreads a - 1\<rparr>
     else RemoveThreadID i a = Inl OutOfBounds"
proof -
  define n where "n = nat (nbThreads a)"
  have n: "nbThreads a = int n" "n \<le> 48" "length (threadIDs a) = 48" "live a = take n (threadIDs a)" "length (live a) = n"
    using assms(1) by (auto simp: ids_ok_def n_def live_def)
  obtain j where j: "scan (\<lambda>t. t = i) 0 (nbThreads a) (threadIDs a) = Inr (int j)" "j < n" "live a ! j = i"
    using scan_live [OF assms(1), of i] assms(2) n(5) by auto
  let ?ts = "take j (threadIDs a) @ take (n - 1 - j) (drop (Suc j) (threadIDs a)) @ drop (n - 1) (threadIDs a)"
  have sh: "foldR (\<lambda>j ts. bindR (arr_get ts (j + 1)) (arr_set ts j)) [int j..int n - 2] (threadIDs a) = Inr ?ts"
    using j(2) n by (intro shift_down) auto
  let ?a = "a\<lparr>threadIDs := ?ts, nbThreads := int n - 1\<rparr>"
  have e: "n - Suc 0 \<le> j \<Longrightarrow> j = n - Suc 0" using j(2) by simp
  have l: "length ?ts = 48" "take (n - 1) ?ts = take j (live a) @ drop (Suc j) (live a)"
    using j(2) n(2-4) e by (auto simp: min_def drop_take)
  have m: "nat (int n - 1) = n - 1" using j(2) by simp
  have "live ?a = remove1 i (live a)" using l(2) remove1_nth [of "live a" j] j(2,3) n(5) assms(1) unfolding live_def
    by (simp add: m ids_ok_def live_def [symmetric])
  moreover have "ids_ok ?a" using calculation l(1) j(2) n assms(1) by (auto simp: ids_ok_def)
  moreover have "RemoveThreadID i a = (if unat i < 48 then Inr ([JoinBroadcast i, ExitBroadcast], ?a) else Inl OutOfBounds)"
    using j(1) sh by (simp add: RemoveThreadID_def n(1) ThreadJoinConditionBroadcast_def ThreadExitConditionBroadcast_def)
  ultimately show ?thesis using n(1) by auto
qed

section \<open>Stack slots\<close>

lemma slot_sp_eq:
  assumes "np \<le> NumPhysPages" "0 \<le> i" "i < int UserThreadMax"
  shows "slot_sp np i = int np * 128 - 16 - (i + 1) * 384"
  unfolding slot_sp_def using assms by (subst sint_word_of_int32) (simp_all add: int32_ok_def)

text \<open>The index that \<^verbatim>\<open>RemoveThreadStackPointer\<close> computes for the stack pointer of slot \<open>i\<close>.\<close>

definition released_index :: "nat \<Rightarrow> int \<Rightarrow> int" where
  "released_index np i = (let q = 19 - int np + 3 * i in 3 * (if q < 0 then q + 1 else q))"

lemma sdiv_slot: "(128 * q + 16) sdiv (128::int) = (if q < 0 then q + 1 else q)"
proof (cases "q < 0")
  case True
  then have "\<bar>128 * q + 16\<bar> div 128 = - (q + 1)" by linarith
  then show ?thesis using True by (auto simp: signed_divide_int_def sgn_if)
next
  case False
  then show ?thesis by (simp add: sdiv_nonneg)
qed

section \<open>Properties\<close>

text \<open>The identifiers in use were all given out before.\<close>

definition ids_fresh :: "AddrSpace \<Rightarrow> bool" where
  "ids_fresh a \<longleftrightarrow> (\<forall>t\<in>set (live a). unat t \<le> unat (maxTIDGiven a)) \<and> unat (maxTIDGiven a) < 2 ^ 32 - 1"

lemma next_id: "ids_fresh a \<Longrightarrow> unat (maxTIDGiven a + 1) = Suc (unat (maxTIDGiven a))"
  by (simp add: ids_fresh_def unat_word_ariths)

text \<open>
  The table of thread identifiers implements a list of distinct identifiers. Creating a thread is
  refused exactly when 48 threads are alive; otherwise it appends an identifier that no live thread has and takes the
  lowest free slot of the user stack. A thread that exits is removed from the list, the others keep their order, and
  the threads that wait for it and for the end of the process are notified; an identifier above 47 makes the exit
  index the table of join conditions out of bounds.
\<close>

theorem thread_table_refines:
  assumes "ids_ok a" "ids_fresh a" "length (threadStackPointer a) = UserThreadMax" "False \<in> set (threadStackPointer a)"
  shows "(if nbThreads a = int UserThreadMax then enter_thread a = Inr (None, a)
      else \<exists>a' j. enter_thread a = Inr (Some (maxTIDGiven a + 1, slot_sp (numPages a) (int j)), a') \<and> ids_ok a'
         \<and> live a' = live a @ [maxTIDGiven a + 1] \<and> maxTIDGiven a + 1 \<notin> set (live a)
         \<and> j < UserThreadMax \<and> \<not> threadStackPointer a ! j \<and> (\<forall>i<j. threadStackPointer a ! i)
         \<and> threadStackPointer a' = (threadStackPointer a)[j := True])
     \<and> (\<forall>i\<in>set (live a). if unat i < UserThreadMax
         then \<exists>a'. RemoveThreadID i a = Inr ([JoinBroadcast i, ExitBroadcast], a') \<and> ids_ok a' \<and> live a' = remove1 i (live a)
         else RemoveThreadID i a = Inl OutOfBounds)"
proof (intro conjI ballI)
  let ?m = "maxTIDGiven a + 1" and ?a1 = "a\<lparr>maxTIDGiven := maxTIDGiven a + 1\<rparr>"
  show "if nbThreads a = int UserThreadMax then enter_thread a = Inr (None, a)
      else \<exists>a' j. enter_thread a = Inr (Some (?m, slot_sp (numPages a) (int j)), a') \<and> ids_ok a'
         \<and> live a' = live a @ [?m] \<and> ?m \<notin> set (live a) \<and> j < UserThreadMax \<and> \<not> threadStackPointer a ! j \<and> (\<forall>i<j. threadStackPointer a ! i)
         \<and> threadStackPointer a' = (threadStackPointer a)[j := True]"
  proof (cases "nbThreads a = int UserThreadMax")
    case True
    then show ?thesis by (simp add: enter_thread_def GetTotalThreads_def)
  next
    case False
    then have lt: "nbThreads a < 48" using assms(1) by (simp add: ids_ok_def)
    have nm: "?m \<notin> set (live a)" using assms(2) next_id [OF assms(2)] by (auto simp: ids_fresh_def)
    have "ids_ok ?a1" "?m \<notin> set (live ?a1)" "nbThreads ?a1 < int UserThreadMax" using assms(1) nm lt by (simp_all add: ids_ok_def live_def)
    from AddThreadID_ok [OF this] obtain a2 where a2: "AddThreadID ?m ?a1 = Inr a2" "ids_ok a2" "live a2 = live a @ [?m]"
        "a2 = ?a1\<lparr>threadIDs := threadIDs a2, nbThreads := nbThreads a2\<rparr>" by (auto simp: live_def)
    have st: "threadStackPointer a2 = threadStackPointer a" "numPages a2 = numPages a" using arg_cong [OF a2(4), of threadStackPointer] arg_cong [OF a2(4), of numPages] by simp_all
    obtain j where j: "scan (\<lambda>b. \<not> b) 0 48 (threadStackPointer a) = Inr (int j)" "j < 48" "\<not> threadStackPointer a ! j" "\<forall>i<j. threadStackPointer a ! i"
      using assms(3,4) by (cases rule: scan_cases [of "\<lambda>b. \<not> b" "threadStackPointer a"]) auto
    let ?a3 = "a2\<lparr>threadStackPointer := (threadStackPointer a)[j := True]\<rparr>"
    have "GetThreadStackPointer a2 = Inr (slot_sp (numPages a) (int j), ?a3)"
      using j(1,2) st assms(3) by (simp add: GetThreadStackPointer_def)
    then have "enter_thread a = Inr (Some (?m, slot_sp (numPages a) (int j)), ?a3)"
      using lt a2(1) by (simp add: enter_thread_def GetTotalThreads_def GetNextThreadID_def)
    moreover have "ids_ok ?a3" "live ?a3 = live a @ [?m]" using a2(2,3) by (simp_all add: ids_ok_def live_def)
    ultimately show ?thesis using False nm j(2-4) by auto
  qed
next
  fix i assume i: "i \<in> set (live a)"
  show "if unat i < UserThreadMax
         then \<exists>a'. RemoveThreadID i a = Inr ([JoinBroadcast i, ExitBroadcast], a') \<and> ids_ok a' \<and> live a' = remove1 i (live a)
         else RemoveThreadID i a = Inl OutOfBounds"
    using RemoveThreadID_ok [OF assms(1) i] by (cases "unat i < UserThreadMax") auto
qed

definition demo_user_space :: AddrSpace where
  "demo_user_space = \<lparr>threadIDs = 1 # 7 # replicate 46 0, threadStackPointer = True # replicate 47 False, nbThreads = 2, maxTIDGiven = 7,
     isCreated = True, numPages = 30, space_table = None, pid = 0\<rparr>"

theorem thread_table_refines_witness:
  "\<exists>a' j. enter_thread demo_user_space = Inr (Some (8, slot_sp 30 (int j)), a') \<and> live a' = [1, 7, 8] \<and> j = 1"
proof -
  have "ids_ok demo_user_space" "ids_fresh demo_user_space"
    by (simp_all add: demo_user_space_def ids_ok_def ids_fresh_def live_def)
  from thread_table_refines [OF this] obtain a' j where e: "enter_thread demo_user_space = Inr (Some (8, slot_sp 30 (int j)), a')"
      "live a' = [1, 7] @ [8]" "j < 48" "\<not> threadStackPointer demo_user_space ! j" "\<forall>i<j. threadStackPointer demo_user_space ! i"
    by (auto simp: demo_user_space_def live_def)
  have "j \<noteq> 0" using e(4) by (cases j) (simp_all add: demo_user_space_def)
  moreover have "\<not> 1 < j" using e(3,5) by (auto simp: demo_user_space_def)
  ultimately show ?thesis using e(1,2) by (intro exI [of _ a'] exI [of _ j]) simp
qed

text \<open>
  The stacks of the user threads of a process do not overlap each other, but only the first four lie
  inside the user stack of the program; the others, which the table hands out too, reach below it into the program's
  data.
\<close>

theorem thread_stacks_bounds:
  assumes "np \<le> NumPhysPages" "0 \<le> i" "i < j" "j < int UserThreadMax"
  shows "slot_sp np j \<le> slot_sp np i - UserThreadStackSize \<and> slot_sp np i < int np * int PageSize
     \<and> (int np * int PageSize - UserStackSize \<le> slot_sp np i - UserThreadStackSize \<longleftrightarrow> i < 4)"
  using slot_sp_eq [OF assms(1), of i] slot_sp_eq [OF assms(1), of j] assms(2-4) by auto

theorem thread_stacks_bounds_witness: "slot_sp 30 5 \<le> slot_sp 30 4 - 384 \<and> slot_sp 30 4 - 384 < 30 * 128 - 2048"
  using thread_stacks_bounds [of 30 4 5] by simp

text \<open>
  A thread that exits does not give its stack slot back. The index computed from its stack pointer is
  three times a number of pages: another slot is marked free, or a byte outside the table is overwritten. The latter
  happens at the exit of the thread in slot \<open>i\<close> as soon as the program has more than \<open>20 + 3 * i\<close> pages.
\<close>

theorem stack_slot_not_released:
  assumes "numPages a \<le> NumPhysPages" "i < UserThreadMax" "length (threadStackPointer a) = UserThreadMax"
  shows "RemoveThreadStackPointer (slot_sp (numPages a) (int i)) a
       = (let r = released_index (numPages a) (int i) in
          if 0 \<le> r \<and> r < int UserThreadMax then Inr (a\<lparr>threadStackPointer := (threadStackPointer a)[nat r := False]\<rparr>) else Inl OutOfBounds)
     \<and> (released_index (numPages a) (int i) = int i \<longrightarrow> 8 * int i = 3 * int (numPages a) - 57 \<or> i = 0 \<and> numPages a = 20)
     \<and> (20 + 3 * i < numPages a \<longrightarrow> RemoveThreadStackPointer (slot_sp (numPages a) (int i)) a = Inl OutOfBounds)"
proof -
  let ?q = "19 - int (numPages a) + 3 * int i"
  have e: "2048 - slot_sp (numPages a) (int i) = 128 * ?q + 16" using slot_sp_eq [OF assms(1), of "int i"] assms(2) by simp
  have r: "(UserStackSize - slot_sp (numPages a) (int i)) sdiv int PageSize * 3 = released_index (numPages a) (int i)"
    by (simp only: e of_nat_numeral sdiv_slot released_index_def Let_def mult.commute [of _ 3])
  have 1: "RemoveThreadStackPointer (slot_sp (numPages a) (int i)) a
       = (let r = released_index (numPages a) (int i) in
          if 0 \<le> r \<and> r < int UserThreadMax then Inr (a\<lparr>threadStackPointer := (threadStackPointer a)[nat r := False]\<rparr>) else Inl OutOfBounds)"
    unfolding RemoveThreadStackPointer_def r using assms(3) by (simp add: arr_set_def Let_def)
  have 2: "released_index (numPages a) (int i) = int i \<longrightarrow> 8 * int i = 3 * int (numPages a) - 57 \<or> i = 0 \<and> numPages a = 20"
    unfolding released_index_def Let_def by (cases "?q < 0") auto
  have "20 + 3 * i < numPages a \<longrightarrow> released_index (numPages a) (int i) < 0" unfolding released_index_def Let_def by auto
  then show ?thesis using 1 2 by (auto simp: Let_def)
qed

theorem stack_slot_not_released_witness:
  "RemoveThreadStackPointer (slot_sp 30 0) demo_user_space = Inl OutOfBounds"
proof -
  have "numPages demo_user_space = 30" "length (threadStackPointer demo_user_space) = 48" by (simp_all add: demo_user_space_def)
  then show ?thesis using stack_slot_not_released [of demo_user_space 0] by auto
qed

end
