(* ===== verification/Console.thy ===== *)
theory Console
  imports Interrupt Synch
begin

text \<open>
  The console device (\<^verbatim>\<open>machine/console.cc\<close>) and the synchronisation that \<^verbatim>\<open>userprog/synchconsole.cc\<close> puts
  around it. The operations of the device are functions on the simulation state of theory Interrupt, so that they
  schedule their interrupts with the same \<^verbatim>\<open>Schedule\<close>; the threads that print and read are interleaved with each
  other and with the interrupts by a step relation. What is shown: output of different threads is never mixed, the
  device is never asked to print while it is busy, and the characters typed are delivered in order, none lost.
\<close>

section \<open>State\<close>

abbreviation (input) ConsoleTime :: int where "ConsoleTime \<equiv> 100"

text \<open>The value -1 as a \<^verbatim>\<open>char\<close>; the byte 255 is the same value.\<close>

definition EOF :: byte where "EOF = 0xff"

text \<open>
  What the UNIX file that emulates the keyboard answers to one poll: nothing to read (\<^verbatim>\<open>PollFile\<close> is false), a
  character, or the end of the file (\<^verbatim>\<open>ReadPartial\<close> returns 0).
\<close>

datatype keyboard = Quiet | Typed byte | EndOfFile

text \<open>\<open>readFile\<close> are the answers to the polls to come; when it is empty nothing more is typed.\<close>

record Console =
  readFile :: "keyboard list"
  writeFile :: "byte list"
  putBusy :: bool
  incoming :: byte
  eof :: bool
  charsRead :: int
  charsWritten :: int

text \<open>
  What a thread wants of the console: \<open>GetS n s i\<close> is a call of \<^verbatim>\<open>SynchGetString(s, n)\<close> that has filled the array
  \<open>s\<close> up to the index \<open>i\<close>.
\<close>

datatype request = PutC byte | PutS "byte list" | GetC | GetS int "byte list" int

text \<open>
  Program points of the methods of \<^verbatim>\<open>SynchConsole\<close>: before \<^verbatim>\<open>Acquire\<close> of \<^verbatim>\<open>threadWrite\<close> or \<^verbatim>\<open>threadRead\<close>; before the
  call of \<^verbatim>\<open>console->PutChar\<close> or \<^verbatim>\<open>PutString\<close>; before, asleep in and woken in the \<^verbatim>\<open>P\<close> of \<^verbatim>\<open>writeDone\<close> or \<^verbatim>\<open>readAvail\<close>;
  before \<^verbatim>\<open>console->GetChar()\<close>; before \<^verbatim>\<open>Release\<close>.
\<close>

datatype con_pc = KFree | KAcquire request | KStart request
  | KWait request | KSleep request | KWoken request | KTake request | KRelease request

fun woken_con :: "con_pc \<Rightarrow> con_pc" where
  "woken_con (KSleep r) = KWoken r"
| "woken_con p = p"

text \<open>
  The synchronous console and the threads that use it. A lock is represented by the thread between \<^verbatim>\<open>Acquire\<close> and
  \<^verbatim>\<open>Release\<close>: there is at most one, whatever the interleaving (theory Synch).
\<close>

record SynchConsole =
  console :: Console
  readAvail :: Semaphore
  writeDone :: Semaphore
  threadWrite :: "thread option"
  threadRead :: "thread option"
  kpc :: "thread \<Rightarrow> con_pc"

section \<open>The device\<close>

text \<open>The handlers of \<^verbatim>\<open>synchconsole.cc\<close> that the device calls.\<close>

definition ReadAvail :: "SynchConsole \<Rightarrow> SynchConsole" where
  "ReadAvail w = (case Semaphore_V (readAvail w) of (r, s) \<Rightarrow> w\<lparr>readAvail := s, kpc := wake woken_con r (kpc w)\<rparr>)"

definition WriteDone :: "SynchConsole \<Rightarrow> SynchConsole" where
  "WriteDone w = (case Semaphore_V (writeDone w) of (r, s) \<Rightarrow> w\<lparr>writeDone := s, kpc := wake woken_con r (kpc w)\<rparr>)"

text \<open>
  \<^verbatim>\<open>CheckCharAvail\<close> after it has scheduled the next poll: a character is read only when none is buffered (the file is
  not even polled otherwise).
\<close>

definition CheckCharAvail :: "SynchConsole \<Rightarrow> SynchConsole" where
  "CheckCharAvail w =
     (let c = console w in
      if incoming c \<noteq> EOF then w
      else case readFile c of
          [] \<Rightarrow> w
        | Quiet # rest \<Rightarrow> w\<lparr>console := c\<lparr>readFile := rest\<rparr>\<rparr>
        | Typed b # rest \<Rightarrow>
            ReadAvail (w\<lparr>console := c\<lparr>readFile := rest, incoming := b, charsRead := charsRead c + 1\<rparr>\<rparr>)
        | EndOfFile # rest \<Rightarrow>
            ReadAvail (w\<lparr>console := c\<lparr>readFile := rest, incoming := EOF, charsRead := charsRead c + 1\<rparr>\<rparr>))"

definition ConsoleReadPoll :: "SynchConsole dev_handler" where
  "ConsoleReadPoll = PollHandler ConsoleTime ConsoleReadInt (\<lambda>_. CheckCharAvail)"

definition Console_WriteDone :: "SynchConsole \<Rightarrow> SynchConsole" where
  "Console_WriteDone w =
     (let c = console w in WriteDone (w\<lparr>console := c\<lparr>putBusy := False, charsWritten := charsWritten c + 1\<rparr>\<rparr>))"

definition ConsoleWriteDone :: "SynchConsole dev_handler" where
  "ConsoleWriteDone = DoneHandler (\<lambda>_. Console_WriteDone)"

text \<open>The constructors: the device, whose first poll is scheduled, inside the synchronous console.\<close>

definition Console_new :: "keyboard list \<Rightarrow> Console" where
  "Console_new kb = \<lparr>readFile = kb, writeFile = [], putBusy = False, incoming = EOF, eof = False,
     charsRead = 0, charsWritten = 0\<rparr>"

definition SynchConsole_new :: "keyboard list \<Rightarrow> SynchConsole sim res" where
  "SynchConsole_new kb =
     Schedule ConsoleReadPoll 0 ConsoleTime ConsoleReadInt
       (Interrupt_new \<lparr>console = Console_new kb, readAvail = Semaphore_new 0, writeDone = Semaphore_new 0,
          threadWrite = None, threadRead = None, kpc = (\<lambda>_. KFree)\<rparr>)"

text \<open>\<^verbatim>\<open>WriteFile\<close> of some bytes, and the interrupt that tells when they are out: what \<^verbatim>\<open>PutChar\<close> and \<^verbatim>\<open>PutString\<close> share.\<close>

definition put_bytes :: "byte list \<Rightarrow> SynchConsole sim \<Rightarrow> SynchConsole sim res" where
  "put_bytes bs s =
     (let c = console (world s) in
      bindR (ASSERT (\<not> putBusy c)) (\<lambda>_.
      Schedule ConsoleWriteDone 0 ConsoleTime ConsoleWriteInt
        (s\<lparr>world := (world s)\<lparr>console := c\<lparr>writeFile := writeFile c @ bs, putBusy := True\<rparr>\<rparr>\<rparr>)))"

definition Console_PutChar :: "byte \<Rightarrow> SynchConsole sim \<Rightarrow> SynchConsole sim res" where
  "Console_PutChar ch s = put_bytes [ch] s"

definition Console_PutString :: "byte list \<Rightarrow> SynchConsole sim \<Rightarrow> SynchConsole sim res" where
  "Console_PutString str s = put_bytes (cstr str) s"

definition Console_GetChar :: "SynchConsole \<Rightarrow> byte \<times> SynchConsole" where
  "Console_GetChar w =
     (let c = console w; ch = incoming c
      in (ch, w\<lparr>console := c\<lparr>incoming := EOF, eof := (if ch = EOF then True else eof c)\<rparr>\<rparr>))"

definition Feof :: "SynchConsole \<Rightarrow> bool" where
  "Feof w = eof (console w)"

section \<open>The synchronous console\<close>

fun is_put :: "request \<Rightarrow> bool" where
  "is_put (PutC _) = True"
| "is_put (PutS _) = True"
| "is_put _ = False"

text \<open>
  The requests that go on to the lock. \<^verbatim>\<open>SynchPutString\<close> of the empty string (or NULL) and \<^verbatim>\<open>SynchGetString\<close> with \<open>n\<close> 0
  or 1 return before it.
\<close>

fun begins :: "request \<Rightarrow> bool" where
  "begins (PutC _) = True"
| "begins (PutS str) = (cstr str \<noteq> [])"
| "begins GetC = True"
| "begins (GetS n s i) = (n \<noteq> 0 \<and> n \<noteq> 1 \<and> i = 0)"

fun start_put :: "request \<Rightarrow> SynchConsole sim \<Rightarrow> SynchConsole sim res" where
  "start_put (PutC ch) s = Console_PutChar ch s"
| "start_put (PutS str) s = Console_PutString str s"
| "start_put _ s = Inr s"

fun put_text :: "request \<Rightarrow> byte list" where
  "put_text (PutC ch) = [ch]"
| "put_text (PutS str) = cstr str"
| "put_text _ = []"

text \<open>
  One character of \<^verbatim>\<open>SynchGetString\<close>: \<^verbatim>\<open>s[i] = c\<close>, the loop test, and either \<^verbatim>\<open>++ i\<close> (\<open>True\<close>: another character is
  read) or \<^verbatim>\<open>s[i + 1] = 0\<close>.
\<close>

definition get_step :: "int \<Rightarrow> byte list \<Rightarrow> int \<Rightarrow> byte \<Rightarrow> (bool \<times> byte list \<times> int) res" where
  "get_step n s i c =
     bindR (arr_set s i c) (\<lambda>s1.
     if i < n - 1 \<and> c \<noteq> EOF \<and> c \<noteq> 10 \<and> c \<noteq> 0 then Inr (True, s1, i + 1)
     else bindR (arr_set s1 (i + 1) 0) (\<lambda>s2. Inr (False, s2, i)))"

text \<open>Where a thread goes with the character it got.\<close>

fun after_take :: "request \<Rightarrow> byte \<Rightarrow> con_pc res" where
  "after_take (GetS n s i) c =
     bindR (get_step n s i c) (\<lambda>(more, s', i'). Inr (if more then KWait (GetS n s' i') else KRelease (GetS n s' i')))"
| "after_take r c = Inr (KRelease r)"

definition P_sem :: "request \<Rightarrow> SynchConsole \<Rightarrow> Semaphore" where
  "P_sem r w = (if is_put r then writeDone w else readAvail w)"

definition set_P_sem :: "request \<Rightarrow> Semaphore \<Rightarrow> SynchConsole \<Rightarrow> SynchConsole" where
  "set_P_sem r s w = (if is_put r then w\<lparr>writeDone := s\<rparr> else w\<lparr>readAvail := s\<rparr>)"

definition owner :: "request \<Rightarrow> SynchConsole \<Rightarrow> thread option" where
  "owner r w = (if is_put r then threadWrite w else threadRead w)"

definition set_owner :: "request \<Rightarrow> thread option \<Rightarrow> SynchConsole \<Rightarrow> SynchConsole" where
  "set_owner r ow w = (if is_put r then w\<lparr>threadWrite := ow\<rparr> else w\<lparr>threadRead := ow\<rparr>)"

definition move :: "thread \<Rightarrow> con_pc \<Rightarrow> SynchConsole \<Rightarrow> SynchConsole" where
  "move t p w = w\<lparr>kpc := (kpc w)(t := p)\<rparr>"

text \<open>A configuration: the simulation, and what was printed and delivered so far, in order, with the thread.\<close>

record con_conf =
  ksim :: "SynchConsole sim"
  printed :: "(thread \<times> byte list) list"
  delivered :: "(thread \<times> byte) list"

abbreviation kworld :: "con_conf \<Rightarrow> SynchConsole" where
  "kworld c \<equiv> world (ksim c)"

definition set_world :: "SynchConsole \<Rightarrow> con_conf \<Rightarrow> con_conf" where
  "set_world w c = c\<lparr>ksim := (ksim c)\<lparr>world := w\<rparr>\<rparr>"

text \<open>
  The steps. An interrupt is delivered by the code of theory Interrupt: the earliest pending one, at a time \<open>now\<close> at
  which it is due; any time may pass between the steps.
\<close>

inductive con_step :: "con_conf \<Rightarrow> con_conf \<Rightarrow> bool" where
  call: "kpc (kworld c) t = KFree \<Longrightarrow> begins r \<Longrightarrow> con_step c (set_world (move t (KAcquire r) (kworld c)) c)"
| acquire: "kpc (kworld c) t = KAcquire r \<Longrightarrow> owner r (kworld c) = None \<Longrightarrow>
     con_step c (set_world (move t (if is_put r then KStart r else KWait r) (set_owner r (Some t) (kworld c))) c)"
| start: "kpc (kworld c) t = KStart r \<Longrightarrow> start_put r (ksim c) = Inr s \<Longrightarrow>
     con_step c (set_world (move t (KWait r) (world s)) (c\<lparr>ksim := s, printed := printed c @ [(t, put_text r)]\<rparr>))"
| P_go: "kpc (kworld c) t \<in> {KWait r, KWoken r} \<Longrightarrow> Semaphore_P t (P_sem r (kworld c)) = (True, s) \<Longrightarrow>
     con_step c (set_world (move t (if is_put r then KRelease r else KTake r) (set_P_sem r s (kworld c))) c)"
| P_sleep: "kpc (kworld c) t \<in> {KWait r, KWoken r} \<Longrightarrow> Semaphore_P t (P_sem r (kworld c)) = (False, s) \<Longrightarrow>
     con_step c (set_world (move t (KSleep r) (set_P_sem r s (kworld c))) c)"
| take: "kpc (kworld c) t = KTake r \<Longrightarrow> Console_GetChar (kworld c) = (ch, w) \<Longrightarrow> after_take r ch = Inr p \<Longrightarrow>
     con_step c (set_world (move t p w) (c\<lparr>delivered := delivered c @ [(t, ch)]\<rparr>))"
| release: "kpc (kworld c) t = KRelease r \<Longrightarrow>
     con_step c (set_world (move t KFree (set_owner r None (kworld c))) c)"
| interrupt: "pending (ksim c) = (w, p) # rest \<Longrightarrow> w \<le> now \<Longrightarrow> totalTicks (stats (ksim c)) \<le> now \<Longrightarrow>
     dispatch rz Random (handler p) (arg p)
       ((ksim c)\<lparr>pending := rest, stats := (stats (ksim c))\<lparr>totalTicks := now\<rparr>\<rparr>) = Inr s \<Longrightarrow>
     con_step c (c\<lparr>ksim := s\<rparr>)"

definition con_init :: "keyboard list \<Rightarrow> con_conf \<Rightarrow> bool" where
  "con_init kb c \<longleftrightarrow> SynchConsole_new kb = Inr (ksim c) \<and> printed c = [] \<and> delivered c = []"


section \<open>The invariant\<close>

text \<open>A thread inside the lock for output (\<open>True\<close>) or for input (\<open>False\<close>).\<close>

fun in_crit :: "bool \<Rightarrow> con_pc \<Rightarrow> bool" where
  "in_crit b KFree = False"
| "in_crit b (KAcquire _) = False"
| "in_crit b (KStart _) = b"
| "in_crit b (KTake _) = (\<not> b)"
| "in_crit b (KWait r) = (is_put r = b)"
| "in_crit b (KSleep r) = (is_put r = b)"
| "in_crit b (KWoken r) = (is_put r = b)"
| "in_crit b (KRelease r) = (is_put r = b)"

text \<open>The points that match their request.\<close>

fun pc_fits :: "con_pc \<Rightarrow> bool" where
  "pc_fits (KStart r) = is_put r"
| "pc_fits (KTake r) = (\<not> is_put r)"
| "pc_fits _ = True"

fun is_asleep :: "con_pc \<Rightarrow> bool" where
  "is_asleep (KSleep _) = True"
| "is_asleep _ = False"

text \<open>The printing thread, the device and the semaphore \<^verbatim>\<open>writeDone\<close> agree.\<close>

fun out_state :: "thread \<Rightarrow> con_pc \<Rightarrow> bool \<Rightarrow> Semaphore \<Rightarrow> bool" where
  "out_state t (KStart _) busy s = (\<not> busy \<and> s = Semaphore_new 0)"
| "out_state t (KWait _) busy s = (s = Semaphore_new (of_bool (\<not> busy)))"
| "out_state t (KSleep _) busy s = (busy \<and> s = \<lparr>svalue = 0, squeue = [t]\<rparr>)"
| "out_state t (KWoken _) busy s = (\<not> busy \<and> s = Semaphore_new 1)"
| "out_state t (KRelease _) busy s = (\<not> busy \<and> s = Semaphore_new 0)"
| "out_state t _ busy s = False"

definition out_ok :: "SynchConsole \<Rightarrow> bool" where
  "out_ok w \<longleftrightarrow> at (in_crit True) (kpc w) = set_option (threadWrite w) \<and> (case threadWrite w of
       None \<Rightarrow> \<not> putBusy (console w) \<and> writeDone w = Semaphore_new 0
     | Some t \<Rightarrow> out_state t (kpc w t) (putBusy (console w)) (writeDone w))"

definition read_ok :: "SynchConsole \<Rightarrow> bool" where
  "read_ok w \<longleftrightarrow> at (in_crit False) (kpc w) = set_option (threadRead w) \<and> (case threadRead w of
       None \<Rightarrow> squeue (readAvail w) = []
     | Some t \<Rightarrow> squeue (readAvail w) = (if is_asleep (kpc w t) then [t] else []))"

definition pend_ok :: "SynchConsole sim \<Rightarrow> bool" where
  "pend_ok s \<longleftrightarrow> (\<forall>(w, p)\<in>set (pending s).
       p = PendingInterrupt_new ConsoleReadPoll 0 w ConsoleReadInt
       \<or> p = PendingInterrupt_new ConsoleWriteDone 0 w ConsoleWriteInt)
     \<and> length (filter (\<lambda>(w, p). itype p = ConsoleWriteInt) (pending s)) = of_bool (putBusy (console (world s)))"

definition con_inv :: "con_conf \<Rightarrow> bool" where
  "con_inv c \<longleftrightarrow> pend_ok (ksim c) \<and> (\<forall>t. pc_fits (kpc (kworld c) t)) \<and> out_ok (kworld c) \<and> read_ok (kworld c)
     \<and> writeFile (console (kworld c)) = concat (map snd (printed c))"

lemma set_world_simps [simp]:
  "kworld (set_world w c) = w" "printed (set_world w c) = printed c" "delivered (set_world w c) = delivered c"
  "pending (ksim (set_world w c)) = pending (ksim c)"
  by (simp_all add: set_world_def)

lemma move_simps [simp]:
  "console (move t p w) = console w" "readAvail (move t p w) = readAvail w" "writeDone (move t p w) = writeDone w"
  "threadWrite (move t p w) = threadWrite w" "threadRead (move t p w) = threadRead w"
  "kpc (move t p w) = (kpc w)(t := p)"
  by (simp_all add: move_def)

lemma pend_ok_world:
  "putBusy (console w) = putBusy (console (world s)) \<Longrightarrow> pend_ok (s\<lparr>world := w\<rparr>) = pend_ok s"
  by (simp add: pend_ok_def)

text \<open>A thread is not inside both locks.\<close>

lemma owners_differ: "out_ok w \<Longrightarrow> read_ok w \<Longrightarrow> threadWrite w = Some t \<Longrightarrow> threadRead w \<noteq> Some t"
proof
  assume "out_ok w" "read_ok w" "threadWrite w = Some t" "threadRead w = Some t"
  then have "t \<in> at (in_crit True) (kpc w)" "t \<in> at (in_crit False) (kpc w)" by (simp_all add: out_ok_def read_ok_def)
  then show False by (cases "kpc w t") simp_all
qed

text \<open>The \<^verbatim>\<open>V\<close>s of the interrupt handlers.\<close>

lemma WriteDone_ok:
  assumes "out_ok w" "putBusy (console w)" "read_ok w" "\<forall>t. pc_fits (kpc w t)"
  shows "out_ok (Console_WriteDone w) \<and> read_ok (Console_WriteDone w) \<and> (\<forall>t. pc_fits (kpc (Console_WriteDone w) t))"
proof -
  obtain t where t: "threadWrite w = Some t" "at (in_crit True) (kpc w) = {t}" "out_state t (kpc w t) True (writeDone w)"
    using assms(1,2) by (auto simp: out_ok_def split: option.splits)
  have n: "threadRead w \<noteq> Some t" using owners_differ [OF assms(1,3) t(1)] .
  from t(3) consider r where "kpc w t = KWait r" "writeDone w = Semaphore_new 0"
    | r where "kpc w t = KSleep r" "writeDone w = \<lparr>svalue = 0, squeue = [t]\<rparr>"
    by (cases "kpc w t") auto
  then show ?thesis
  proof cases
    case 1
    then show ?thesis using t assms(3,4)
      by (auto simp: Console_WriteDone_def WriteDone_def Semaphore_V_def Semaphore_new_def wake_def out_ok_def read_ok_def Let_def
          split: option.splits)
  next
    case 2
    have "is_put r" using t(2) 2(1) at_iff [of t "in_crit True" "kpc w"] by simp
    then have "at (in_crit False) ((kpc w)(t := KWoken r)) = at (in_crit False) (kpc w)" using 2(1) by (simp add: at_upd)
    then show ?thesis using t assms(3,4) 2 n \<open>is_put r\<close>
      by (auto simp: Console_WriteDone_def WriteDone_def Semaphore_V_def Semaphore_new_def wake_def out_ok_def read_ok_def Let_def
          at_upd split: option.splits)
  qed
qed

lemma CheckCharAvail_ok:
  assumes "out_ok w" "read_ok w" "\<forall>t. pc_fits (kpc w t)"
  shows "out_ok (CheckCharAvail w) \<and> read_ok (CheckCharAvail w) \<and> (\<forall>t. pc_fits (kpc (CheckCharAvail w) t))"
proof -
  have r: "out_ok (ReadAvail v) \<and> read_ok (ReadAvail v) \<and> (\<forall>t. pc_fits (kpc (ReadAvail v) t))"
    if v: "out_ok v" "read_ok v" "\<forall>t. pc_fits (kpc v t)" for v
  proof (cases "squeue (readAvail v)")
    case Nil
    have "\<not> (threadRead v = Some t \<and> is_asleep (kpc v t))" for t using v(2) Nil by (auto simp: read_ok_def)
    then show ?thesis using v Nil by (auto simp: ReadAvail_def Semaphore_V_def wake_def out_ok_def read_ok_def split: option.splits)
  next
    case (Cons t q)
    then have t: "threadRead v = Some t" "q = []" "is_asleep (kpc v t)" "in_crit False (kpc v t)"
      using v(2) at_iff [of t "in_crit False" "kpc v"] by (auto simp: read_ok_def split: option.splits if_splits)
    have n: "threadWrite v \<noteq> Some t" using owners_differ [OF v(1,2)] t(1) by blast
    from t(3,4) obtain r where p: "kpc v t = KSleep r" "\<not> is_put r" by (cases "kpc v t") auto
    then have "at (in_crit True) ((kpc v)(t := KWoken r)) = at (in_crit True) (kpc v)" by (simp add: at_upd)
    then show ?thesis using v Cons t(1,2) p n
      by (auto simp: ReadAvail_def Semaphore_V_def wake_def out_ok_def read_ok_def at_upd split: option.splits)
  qed
  have "out_ok (w\<lparr>console := x\<rparr>) = out_ok w" if "putBusy x = putBusy (console w)" for x
    using that by (simp add: out_ok_def split: option.split)
  moreover have "read_ok (w\<lparr>console := x\<rparr>) = read_ok w" for x by (simp add: read_ok_def split: option.split)
  ultimately show ?thesis using assms by (auto simp: CheckCharAvail_def Let_def r split: list.splits keyboard.splits)
qed


lemma handler_world [simp]:
  "putBusy (console (CheckCharAvail w)) = putBusy (console w)" "writeFile (console (CheckCharAvail w)) = writeFile (console w)"
  "\<not> putBusy (console (Console_WriteDone w))" "writeFile (console (Console_WriteDone w)) = writeFile (console w)"
  by (auto simp: CheckCharAvail_def ReadAvail_def Console_WriteDone_def WriteDone_def Let_def split: list.splits keyboard.splits prod.splits)

lemma pending_new [simp]: "itype (PendingInterrupt_new h a w k) = k" "handler (PendingInterrupt_new h a w k) = h"
  by (simp_all add: PendingInterrupt_new_def)

lemma filter_insert_length:
  "length (filter P (sorted_insert k x xs)) = length (filter P xs) + of_bool (P (k, x))"
  by (induction xs) auto

lemma Schedule_pend:
  assumes "\<forall>(w, p)\<in>set (pending s). p = PendingInterrupt_new ConsoleReadPoll 0 w ConsoleReadInt
       \<or> p = PendingInterrupt_new ConsoleWriteDone 0 w ConsoleWriteInt"
    and "(h, k) \<in> {(ConsoleReadPoll, ConsoleReadInt), (ConsoleWriteDone, ConsoleWriteInt)}" "Schedule h 0 ConsoleTime k s = Inr s'"
  shows "(\<forall>(w, p)\<in>set (pending s'). p = PendingInterrupt_new ConsoleReadPoll 0 w ConsoleReadInt
       \<or> p = PendingInterrupt_new ConsoleWriteDone 0 w ConsoleWriteInt)
     \<and> length (filter (\<lambda>(w, p). itype p = ConsoleWriteInt) (pending s'))
        = length (filter (\<lambda>(w, p). itype p = ConsoleWriteInt) (pending s)) + of_bool (k = ConsoleWriteInt)
     \<and> world s' = world s"
  using assms by (auto simp: Schedule_def Let_def filter_insert_length)

text \<open>An interrupt that is delivered keeps the invariant.\<close>

lemma interrupt_ok:
  assumes "pend_ok s" "out_ok (world s)" "read_ok (world s)" "\<forall>t. pc_fits (kpc (world s) t)"
    and "pending s = (w, p) # rest" "dispatch rz Random (handler p) (arg p) (s\<lparr>pending := rest, stats := st\<rparr>) = Inr s'"
  shows "pend_ok s' \<and> out_ok (world s') \<and> read_ok (world s') \<and> (\<forall>t. pc_fits (kpc (world s') t))
     \<and> writeFile (console (world s')) = writeFile (console (world s))"
proof -
  let ?s = "s\<lparr>pending := rest, stats := st\<rparr>"
  have rest: "\<forall>(w, p)\<in>set (pending ?s). p = PendingInterrupt_new ConsoleReadPoll 0 w ConsoleReadInt
       \<or> p = PendingInterrupt_new ConsoleWriteDone 0 w ConsoleWriteInt"
    using assms(1,5) by (simp add: pend_ok_def)
  consider "p = PendingInterrupt_new ConsoleReadPoll 0 w ConsoleReadInt" | "p = PendingInterrupt_new ConsoleWriteDone 0 w ConsoleWriteInt"
    using assms(1,5) by (auto simp: pend_ok_def)
  then show ?thesis
  proof cases
    case 1
    then obtain s1 where s1: "Schedule ConsoleReadPoll 0 ConsoleTime ConsoleReadInt ?s = Inr s1" "s' = s1\<lparr>world := CheckCharAvail (world s1)\<rparr>"
      using assms(6) by (auto simp: ConsoleReadPoll_def PendingInterrupt_new_def bind_iffs)
    note i = Schedule_pend [OF rest _ s1(1)]
    then have "world s1 = world s" by simp
    then show ?thesis using CheckCharAvail_ok [OF assms(2,3,4)] i s1(2) assms(1,5) 1 by (simp add: pend_ok_def)
  next
    case 2
    then have s': "s' = ?s\<lparr>world := Console_WriteDone (world s)\<rparr>"
      using assms(6) by (simp add: ConsoleWriteDone_def PendingInterrupt_new_def)
    have "putBusy (console (world s))" "filter (\<lambda>(w, p). itype p = ConsoleWriteInt) rest = []"
      using assms(1,5) 2 by (cases "putBusy (console (world s))"; simp add: pend_ok_def)+
    then show ?thesis using WriteDone_ok [OF assms(2) _ assms(3,4)] s' rest assms(5) by (simp add: pend_ok_def)
  qed
qed


text \<open>The two sides of the console do not interfere; the thread inside a lock is its owner.\<close>

lemma out_ok_upd [simp]:
  "out_ok (w\<lparr>readAvail := x\<rparr>) = out_ok w" "out_ok (w\<lparr>threadRead := ow\<rparr>) = out_ok w"
  by (simp_all add: out_ok_def split: option.split)

lemma read_ok_upd [simp]:
  "read_ok (w\<lparr>writeDone := x\<rparr>) = read_ok w" "read_ok (w\<lparr>threadWrite := ow\<rparr>) = read_ok w" "read_ok (w\<lparr>console := y\<rparr>) = read_ok w"
  by (simp_all add: read_ok_def split: option.split)

lemma out_ok_other:
  assumes "out_ok w" "\<not> in_crit True (kpc w t)" "\<not> in_crit True p"
  shows "out_ok (move t p w)"
proof -
  have "threadWrite w \<noteq> Some t" using assms(1,2) at_iff [of t "in_crit True" "kpc w"] by (auto simp: out_ok_def)
  then show ?thesis using assms by (auto simp: out_ok_def at_upd split: option.splits)
qed

lemma read_ok_other:
  assumes "read_ok w" "\<not> in_crit False (kpc w t)" "\<not> in_crit False p"
  shows "read_ok (move t p w)"
proof -
  have "threadRead w \<noteq> Some t" using assms(1,2) at_iff [of t "in_crit False" "kpc w"] by (auto simp: read_ok_def)
  then show ?thesis using assms by (auto simp: read_ok_def at_upd split: option.splits)
qed

lemma out_owner:
  assumes "out_ok w" "in_crit True (kpc w t)"
  shows "threadWrite w = Some t" "at (in_crit True) (kpc w) = {t}" "out_state t (kpc w t) (putBusy (console w)) (writeDone w)"
  using assms at_iff [of t "in_crit True" "kpc w"] by (auto simp: out_ok_def split: option.splits)

lemma read_owner:
  assumes "read_ok w" "in_crit False (kpc w t)"
  shows "threadRead w = Some t" "at (in_crit False) (kpc w) = {t}"
    "squeue (readAvail w) = (if is_asleep (kpc w t) then [t] else [])"
  using assms at_iff [of t "in_crit False" "kpc w"] by (auto simp: read_ok_def split: option.splits)

lemma out_enter: "out_ok w \<Longrightarrow> threadWrite w = None \<Longrightarrow> out_ok (move t (KStart r) (w\<lparr>threadWrite := Some t\<rparr>))"
  by (simp add: out_ok_def at_upd)

lemma read_enter:
  "read_ok w \<Longrightarrow> threadRead w = None \<Longrightarrow> \<not> is_put r \<Longrightarrow> read_ok (move t (KWait r) (w\<lparr>threadRead := Some t\<rparr>))"
  by (simp add: read_ok_def at_upd)

lemma out_stay:
  assumes "out_ok w" "in_crit True (kpc w t)" "in_crit True p" "threadWrite w' = threadWrite w" "kpc w' = kpc w"
    "out_state t p (putBusy (console w')) (writeDone w')"
  shows "out_ok (move t p w')"
  using out_owner [OF assms(1,2)] assms by (simp add: out_ok_def at_upd)

lemma read_stay:
  assumes "read_ok w" "in_crit False (kpc w t)" "in_crit False p" "threadRead w' = threadRead w" "kpc w' = kpc w"
    "squeue (readAvail w') = (if is_asleep p then [t] else [])"
  shows "read_ok (move t p w')"
  using read_owner [OF assms(1,2)] assms by (simp add: read_ok_def at_upd)

lemma out_leave:
  assumes "out_ok w" "kpc w t = KRelease r" "is_put r"
  shows "out_ok (move t KFree (w\<lparr>threadWrite := None\<rparr>))"
  using out_owner [OF assms(1), of t] assms by (simp add: out_ok_def at_upd)

lemma read_leave:
  assumes "read_ok w" "kpc w t = KRelease r" "\<not> is_put r"
  shows "read_ok (move t KFree (w\<lparr>threadRead := None\<rparr>))"
  using read_owner [OF assms(1), of t] assms by (simp add: read_ok_def at_upd)

lemma con_inv_set_world:
  assumes "con_inv c" "out_ok (move t p w)" "read_ok (move t p w)" "pc_fits p" "console w = console (kworld c)" "kpc w = kpc (kworld c)"
  shows "con_inv (set_world (move t p w) c)"
  using assms by (simp add: con_inv_def pend_ok_def)

lemma after_take_pc: "\<not> is_put r \<Longrightarrow> after_take r ch = Inr p \<Longrightarrow> (\<exists>r'. \<not> is_put r' \<and> p \<in> {KWait r', KRelease r'})"
  by (cases r) (auto simp: bind_iffs split: if_splits)

lemma crit_sides: "in_crit b (KWait r) = (is_put r = b)" "is_put r \<Longrightarrow> \<not> in_crit False (KStart r)"
  by simp_all

lemma start_put_Inr:
  assumes "is_put r" "start_put r s = Inr s'"
  shows "\<not> putBusy (console (world s)) \<and> world s' = (world s)\<lparr>console := (console (world s))\<lparr>writeFile := writeFile (console (world s)) @ put_text r, putBusy := True\<rparr>\<rparr>
     \<and> (pend_ok s \<longrightarrow> pend_ok s')"
proof -
  have "put_bytes (put_text r) s = Inr s'" using assms by (cases r) (simp_all add: Console_PutChar_def Console_PutString_def)
  then obtain s1 where b: "\<not> putBusy (console (world s))" "s1 = s\<lparr>world := (world s)\<lparr>console := (console (world s))\<lparr>writeFile := writeFile (console (world s)) @ put_text r, putBusy := True\<rparr>\<rparr>\<rparr>"
      "Schedule ConsoleWriteDone 0 ConsoleTime ConsoleWriteInt s1 = Inr s'"
    by (auto simp: put_bytes_def Let_def bind_iffs)
  have "pend_ok s'" if "pend_ok s"
    using Schedule_pend [OF _ _ b(3)] that b(1,2) by (simp add: pend_ok_def)
  moreover have "world s' = world s1" using b(3) by (auto simp: Schedule_def Let_def)
  ultimately show ?thesis using b(1,2) by simp
qed

lemma con_inv_step:
  assumes "con_step c c'" "con_inv c"
  shows "con_inv c'"
  using assms
proof (induction rule: con_step.induct)
  case (call c t r)
  then show ?case by (intro con_inv_set_world) (simp_all add: con_inv_def out_ok_other read_ok_other)
next
  case (acquire c t r)
  then have i: "out_ok (kworld c)" "read_ok (kworld c)" by (simp_all add: con_inv_def)
  show ?case
  proof (cases "is_put r")
    case True
    then show ?thesis using acquire i
      by (intro con_inv_set_world) (simp_all add: owner_def set_owner_def out_enter read_ok_other)
  next
    case False
    then show ?thesis using acquire i
      by (intro con_inv_set_world) (simp_all add: owner_def set_owner_def read_enter out_ok_other)
  qed
next
  case (start c t r s)
  then have i: "out_ok (kworld c)" "read_ok (kworld c)" "is_put r" "pend_ok (ksim c)" unfolding con_inv_def by (auto dest: spec [of _ t])
  note w = start_put_Inr [OF i(3) start(2)]
  have "out_ok (move t (KWait r) (world s))"
    by (rule out_stay [OF i(1), of t]) (use w i(3) start(1) out_owner [OF i(1), of t] in \<open>simp_all\<close>)
  moreover have "read_ok (move t (KWait r) (world s))"
    by (rule read_ok_other) (use w i start(1) in \<open>simp_all\<close>)
  ultimately show ?case using w start i(4) by (simp add: con_inv_def pend_ok_def set_world_def)
next
  case (P_go c t r s)
  then have i: "out_ok (kworld c)" "read_ok (kworld c)" by (simp_all add: con_inv_def)
  have n: "in_crit (is_put r) (kpc (kworld c) t)" "\<not> in_crit (\<not> is_put r) (kpc (kworld c) t)" "\<not> is_asleep (kpc (kworld c) t)" using P_go(1) by auto
  show ?case
  proof (cases "is_put r")
    case True
    have "out_ok (move t (KRelease r) ((kworld c)\<lparr>writeDone := s\<rparr>))"
      by (rule out_stay [OF i(1), of t]) (use n True P_go(1,2) out_owner [OF i(1), of t] in
        \<open>auto simp: P_sem_def Semaphore_P_def Semaphore_new_def split: if_splits\<close>)
    then show ?thesis using P_go.prems True i n by (intro con_inv_set_world) (simp_all add: set_P_sem_def read_ok_other)
  next
    case False
    have "read_ok (move t (KTake r) ((kworld c)\<lparr>readAvail := s\<rparr>))"
      by (rule read_stay [OF i(2), of t]) (use n False P_go(2) read_owner [OF i(2), of t] in
        \<open>auto simp: P_sem_def Semaphore_P_def split: if_splits\<close>)
    then show ?thesis using P_go.prems False i n by (intro con_inv_set_world) (simp_all add: set_P_sem_def out_ok_other)
  qed
next
  case (P_sleep c t r s)
  then have i: "out_ok (kworld c)" "read_ok (kworld c)" by (simp_all add: con_inv_def)
  have n: "in_crit (is_put r) (kpc (kworld c) t)" "\<not> in_crit (\<not> is_put r) (kpc (kworld c) t)" "\<not> is_asleep (kpc (kworld c) t)" using P_sleep(1) by auto
  show ?case
  proof (cases "is_put r")
    case True
    have "out_ok (move t (KSleep r) ((kworld c)\<lparr>writeDone := s\<rparr>))"
      by (rule out_stay [OF i(1), of t]) (use n True P_sleep(1,2) out_owner [OF i(1), of t] in
        \<open>auto simp: P_sem_def Semaphore_P_def Semaphore_new_def split: if_splits\<close>)
    then show ?thesis using P_sleep.prems True i n by (intro con_inv_set_world) (simp_all add: set_P_sem_def read_ok_other)
  next
    case False
    have "read_ok (move t (KSleep r) ((kworld c)\<lparr>readAvail := s\<rparr>))"
      by (rule read_stay [OF i(2), of t]) (use n False P_sleep(2) read_owner [OF i(2), of t] in
        \<open>auto simp: P_sem_def Semaphore_P_def split: if_splits\<close>)
    then show ?thesis using P_sleep.prems False i n by (intro con_inv_set_world) (simp_all add: set_P_sem_def out_ok_other)
  qed
next
  case (take c t r ch w p)
  then have i: "out_ok (kworld c)" "read_ok (kworld c)" "\<not> is_put r" unfolding con_inv_def by (auto dest: spec [of _ t])
  obtain r' where p: "\<not> is_put r'" "p \<in> {KWait r', KRelease r'}" using after_take_pc [OF i(3) take(3)] by blast
  obtain d where w: "w = (kworld c)\<lparr>console := d\<rparr>" "putBusy d = putBusy (console (kworld c))"
      "writeFile d = writeFile (console (kworld c))"
    using take(2) by (auto simp: Console_GetChar_def Let_def)
  have "out_ok w" using i(1) w(2) by (simp add: w(1) out_ok_def split: option.splits)
  then have "out_ok (move t p w)" using p take(1) w(1) by (auto intro!: out_ok_other)
  moreover have "read_ok (move t p w)"
    by (rule read_stay [OF i(2), of t]) (use p take(1) w(1) read_owner [OF i(2), of t] in auto)
  ultimately show ?case using take.prems w p by (auto simp: con_inv_def pend_ok_def)
next
  case (release c t r)
  then have i: "out_ok (kworld c)" "read_ok (kworld c)" by (simp_all add: con_inv_def)
  show ?case
  proof (cases "is_put r")
    case True
    then show ?thesis using release i
      by (intro con_inv_set_world) (simp_all add: set_owner_def out_leave read_ok_other)
  next
    case False
    then show ?thesis using release i
      by (intro con_inv_set_world) (simp_all add: set_owner_def read_leave out_ok_other)
  qed
next
  case (interrupt c w p rest now rz Random s)
  then show ?case using interrupt_ok [OF _ _ _ _ interrupt(1,4)] by (simp add: con_inv_def)
qed


section \<open>Input\<close>

text \<open>The characters typed, and a keyboard that neither ends nor delivers the byte that stands for the end of file.\<close>

fun typed :: "keyboard list \<Rightarrow> byte list" where
  "typed [] = []"
| "typed (Typed b # ks) = b # typed ks"
| "typed (_ # ks) = typed ks"

definition clean :: "keyboard list \<Rightarrow> bool" where
  "clean kb \<longleftrightarrow> EndOfFile \<notin> set kb \<and> Typed EOF \<notin> set kb"

lemma typed_append [simp]: "typed (xs @ ys) = typed xs @ typed ys"
  by (induction xs rule: typed.induct) auto

definition buffered :: "SynchConsole \<Rightarrow> byte list" where
  "buffered w = (if incoming (console w) = EOF then [] else [incoming (console w)])"

text \<open>The reading thread, the buffer of the device and the semaphore \<^verbatim>\<open>readAvail\<close> agree.\<close>

fun in_state :: "con_pc \<Rightarrow> bool \<Rightarrow> int \<Rightarrow> bool" where
  "in_state (KWait _) full v = (v = of_bool full)"
| "in_state (KSleep _) full v = (\<not> full \<and> v = 0)"
| "in_state (KWoken _) full v = (full \<and> v = 1)"
| "in_state (KTake _) full v = (full \<and> v = 0)"
| "in_state (KRelease _) full v = (v = of_bool full)"
| "in_state _ full v = False"

definition in_ok :: "SynchConsole \<Rightarrow> bool" where
  "in_ok w \<longleftrightarrow> \<not> eof (console w) \<and> (case threadRead w of
       None \<Rightarrow> svalue (readAvail w) = of_bool (incoming (console w) \<noteq> EOF)
     | Some t \<Rightarrow> in_state (kpc w t) (incoming (console w) \<noteq> EOF) (svalue (readAvail w)))"

definition in_inv :: "keyboard list \<Rightarrow> con_conf \<Rightarrow> bool" where
  "in_inv kb c \<longleftrightarrow> in_ok (kworld c)
     \<and> (\<exists>pre. kb = pre @ readFile (console (kworld c)) \<and> typed pre = map snd (delivered c) @ buffered (kworld c))"

lemma in_ok_upd [simp]:
  "in_ok (w\<lparr>writeDone := x\<rparr>) = in_ok w" "in_ok (w\<lparr>threadWrite := ow\<rparr>) = in_ok w"
  by (simp_all add: in_ok_def split: option.split)

lemma in_ok_other:
  assumes "in_ok w" "read_ok w" "\<not> in_crit False (kpc w t)"
  shows "in_ok (move t p w)"
proof -
  have "threadRead w \<noteq> Some t" using assms(2,3) at_iff [of t "in_crit False" "kpc w"] by (auto simp: read_ok_def)
  then show ?thesis using assms(1) by (auto simp: in_ok_def split: option.splits)
qed

text \<open>One character arrives.\<close>

lemma CheckCharAvail_in:
  assumes "in_ok w" "read_ok w" "Typed EOF \<notin> set (readFile (console w))" "EndOfFile \<notin> set (readFile (console w))"
  shows "in_ok (CheckCharAvail w) \<and> (\<exists>used. readFile (console w) = used @ readFile (console (CheckCharAvail w))
     \<and> buffered (CheckCharAvail w) = buffered w @ typed used)"
proof (cases "incoming (console w) = EOF")
  case False
  then show ?thesis using assms(1) by (auto simp: CheckCharAvail_def Let_def)
next
  case empty: True
  let ?c = "console w"
  from assms(3,4) consider "readFile ?c = []" | rest where "readFile ?c = Quiet # rest"
    | b rest where "readFile ?c = Typed b # rest" "b \<noteq> EOF"
    by (cases "readFile ?c" rule: typed.cases) auto
  then show ?thesis
  proof cases
    case 1
    then show ?thesis using assms(1) empty by (auto simp: CheckCharAvail_def Let_def)
  next
    case (2 rest)
    have "in_ok (w\<lparr>console := ?c\<lparr>readFile := rest\<rparr>\<rparr>)" using assms(1) by (cases "threadRead w") (auto simp: in_ok_def)
    then show ?thesis using 2 empty by (auto simp: CheckCharAvail_def Let_def buffered_def intro!: exI [of _ "[Quiet]"])
  next
    case (3 b rest)
    let ?w = "w\<lparr>console := ?c\<lparr>readFile := rest, incoming := b, charsRead := charsRead ?c + 1\<rparr>\<rparr>"
    have c: "CheckCharAvail w = ReadAvail ?w" using 3 empty by (simp add: CheckCharAvail_def Let_def)
    have "in_ok (ReadAvail ?w)"
    proof (cases "threadRead w")
      case None
      then show ?thesis using assms(1,2) 3(2) empty
        by (simp add: in_ok_def read_ok_def ReadAvail_def Semaphore_V_def wake_def)
    next
      case (Some t)
      then show ?thesis using assms(1,2) 3(2) empty
        by (cases "kpc w t") (auto simp: in_ok_def read_ok_def ReadAvail_def Semaphore_V_def wake_def)
    qed
    then show ?thesis using 3 empty c
      by (auto simp: buffered_def ReadAvail_def split: prod.splits intro!: exI [of _ "[Typed b]"])
  qed
qed

lemma WriteDone_in:
  assumes "in_ok w" "out_ok w" "read_ok w"
  shows "in_ok (Console_WriteDone w) \<and> readFile (console (Console_WriteDone w)) = readFile (console w)
     \<and> buffered (Console_WriteDone w) = buffered w"
proof -
  have "kpc (Console_WriteDone w) t = kpc w t" if "threadRead w = Some t" for t
  proof -
    have t: "in_crit False (kpc w t)" using assms(3) that at_iff [of t "in_crit False" "kpc w"] by (auto simp: read_ok_def)
    have "t \<notin> set (squeue (writeDone w))"
    proof
      assume a: "t \<in> set (squeue (writeDone w))"
      then obtain u where u: "threadWrite w = Some u" "out_state u (kpc w u) (putBusy (console w)) (writeDone w)"
        using assms(2) by (auto simp: out_ok_def Semaphore_new_def split: option.splits)
      then have "t = u" using a by (cases "kpc w u") (auto simp: Semaphore_new_def)
      then show False using owners_differ [OF assms(2,3) u(1)] that by simp
    qed
    then show ?thesis by (auto simp: Console_WriteDone_def WriteDone_def Semaphore_V_def wake_def Let_def split: list.splits)
  qed
  moreover have "threadRead (Console_WriteDone w) = threadRead w" "readAvail (Console_WriteDone w) = readAvail w"
      "incoming (console (Console_WriteDone w)) = incoming (console w)" "eof (console (Console_WriteDone w)) = eof (console w)"
      "readFile (console (Console_WriteDone w)) = readFile (console w)"
    by (simp_all add: Console_WriteDone_def WriteDone_def Let_def split: prod.splits)
  ultimately show ?thesis using assms(1) by (auto simp: in_ok_def buffered_def split: option.splits)
qed


lemma in_inv_set_world:
  assumes "in_inv kb c" "in_ok (move t p w)" "console w = console (kworld c)"
  shows "in_inv kb (set_world (move t p w) c)"
  using assms by (auto simp: in_inv_def buffered_def)

lemma in_inv_step:
  assumes "con_step c c'" "con_inv c" "in_inv kb c" "clean kb"
  shows "in_inv kb c'"
  using assms
proof (induction rule: con_step.induct)
  case (call c t r)
  then show ?case by (intro in_inv_set_world) (simp_all add: con_inv_def in_inv_def in_ok_other)
next
  case (acquire c t r)
  then have i: "in_ok (kworld c)" "read_ok (kworld c)" by (simp_all add: con_inv_def in_inv_def)
  then have "in_ok (move t (KWait r) ((kworld c)\<lparr>threadRead := Some t\<rparr>))" if "\<not> is_put r"
    using acquire(2) that by (simp add: in_ok_def owner_def)
  then show ?case using acquire i by (intro in_inv_set_world) (simp_all add: set_owner_def in_ok_other)
next
  case (start c t r s)
  then have i: "in_ok (kworld c)" "read_ok (kworld c)" "is_put r" unfolding con_inv_def in_inv_def by (auto dest: spec [of _ t])
  note w = start_put_Inr [OF i(3) start(2)]
  have "in_ok (world s)" using w i(1) by (auto simp: in_ok_def split: option.splits)
  moreover have "read_ok (world s)" using w i(2) by simp
  ultimately have "in_ok (move t (KWait r) (world s))" using start(1) w by (intro in_ok_other) simp_all
  then show ?case using w start.prems(2) by (auto simp: in_inv_def buffered_def)
next
  case (P_go c t r s)
  then have i: "in_ok (kworld c)" "read_ok (kworld c)" by (simp_all add: con_inv_def in_inv_def)
  show ?case
  proof (cases "is_put r")
    case True
    then have "\<not> in_crit False (kpc (kworld c) t)" using P_go(1) by auto
    then show ?thesis using P_go.prems True i by (intro in_inv_set_world) (simp_all add: set_P_sem_def in_ok_other)
  next
    case False
    then have "in_crit False (kpc (kworld c) t)" using P_go(1) by auto
    from read_owner(1) [OF i(2) this] have "in_ok (move t (KTake r) ((kworld c)\<lparr>readAvail := s\<rparr>))"
      using i(1) False P_go(1,2) by (auto simp: in_ok_def P_sem_def Semaphore_P_def split: if_splits)
    then show ?thesis using P_go.prems False by (intro in_inv_set_world) (simp_all add: set_P_sem_def)
  qed
next
  case (P_sleep c t r s)
  then have i: "in_ok (kworld c)" "read_ok (kworld c)" by (simp_all add: con_inv_def in_inv_def)
  show ?case
  proof (cases "is_put r")
    case True
    then have "\<not> in_crit False (kpc (kworld c) t)" using P_sleep(1) by auto
    then show ?thesis using P_sleep.prems True i by (intro in_inv_set_world) (simp_all add: set_P_sem_def in_ok_other)
  next
    case False
    then have "in_crit False (kpc (kworld c) t)" using P_sleep(1) by auto
    from read_owner(1) [OF i(2) this] have "in_ok (move t (KSleep r) ((kworld c)\<lparr>readAvail := s\<rparr>))"
      using i(1) False P_sleep(1,2) by (auto simp: in_ok_def P_sem_def Semaphore_P_def split: if_splits)
    then show ?thesis using P_sleep.prems False by (intro in_inv_set_world) (simp_all add: set_P_sem_def)
  qed
next
  case (take c t r ch w p)
  then have i: "in_ok (kworld c)" "read_ok (kworld c)" "\<not> is_put r" unfolding con_inv_def in_inv_def by (auto dest: spec [of _ t])
  obtain r' where p: "\<not> is_put r'" "p \<in> {KWait r', KRelease r'}" using after_take_pc [OF i(3) take(3)] by blast
  have o: "threadRead (kworld c) = Some t" using read_owner(1) [OF i(2), of t] take(1) by simp
  then have f: "incoming (console (kworld c)) \<noteq> EOF" "svalue (readAvail (kworld c)) = 0" using i(1) take(1) by (simp_all add: in_ok_def)
  let ?c = "console (kworld c)"
  have w: "ch = incoming ?c" "w = (kworld c)\<lparr>console := ?c\<lparr>incoming := EOF\<rparr>\<rparr>"
    using take(2) f(1) by (simp_all add: Console_GetChar_def Let_def)
  have "in_ok (move t p w)" using p o f i(1) by (auto simp: w(2) in_ok_def)
  then show ?case using take.prems(2) f(1) w by (auto simp: in_inv_def buffered_def)
next
  case (release c t r)
  then have i: "in_ok (kworld c)" "read_ok (kworld c)" by (simp_all add: con_inv_def in_inv_def)
  show ?case
  proof (cases "is_put r")
    case True
    then show ?thesis using release i by (intro in_inv_set_world) (simp_all add: set_owner_def in_ok_other)
  next
    case False
    then have "threadRead (kworld c) = Some t" using read_owner(1) [OF i(2), of t] release(1) by simp
    then have "in_ok (move t KFree ((kworld c)\<lparr>threadRead := None\<rparr>))" using i(1) release(1) by (simp add: in_ok_def)
    then show ?thesis using release.prems False by (intro in_inv_set_world) (simp_all add: set_owner_def)
  qed
next
  case (interrupt c w p rest now rz Random s)
  let ?w = "kworld c" and ?s = "(ksim c)\<lparr>pending := rest, stats := (stats (ksim c))\<lparr>totalTicks := now\<rparr>\<rparr>"
  have i: "in_ok ?w" "read_ok ?w" "out_ok ?w" using interrupt.prems by (simp_all add: con_inv_def in_inv_def)
  obtain pre where pre: "kb = pre @ readFile (console ?w)" "typed pre = map snd (delivered c) @ buffered ?w"
    using interrupt.prems(2) by (auto simp: in_inv_def)
  have k: "Typed EOF \<notin> set (readFile (console ?w))" "EndOfFile \<notin> set (readFile (console ?w))"
    using interrupt.prems(3) pre(1) by (auto simp: clean_def)
  consider "p = PendingInterrupt_new ConsoleReadPoll 0 w ConsoleReadInt" | "p = PendingInterrupt_new ConsoleWriteDone 0 w ConsoleWriteInt"
    using interrupt(1) interrupt.prems(1) by (auto simp: con_inv_def pend_ok_def)
  then show ?case
  proof cases
    case 1
    then obtain s1 where "Schedule ConsoleReadPoll 0 ConsoleTime ConsoleReadInt ?s = Inr s1" "s = s1\<lparr>world := CheckCharAvail (world s1)\<rparr>"
      using interrupt(4) by (auto simp: ConsoleReadPoll_def PendingInterrupt_new_def bind_iffs)
    then have s: "world s = CheckCharAvail ?w" by (auto simp: Schedule_def Let_def)
    obtain used where "in_ok (CheckCharAvail ?w)" "readFile (console ?w) = used @ readFile (console (CheckCharAvail ?w))"
        "buffered (CheckCharAvail ?w) = buffered ?w @ typed used"
      using CheckCharAvail_in [OF i(1,2) k] by blast
    then show ?thesis using pre s by (auto simp: in_inv_def intro!: exI [of _ "pre @ used"])
  next
    case 2
    then have s: "world s = Console_WriteDone ?w" using interrupt(4) by (auto simp: ConsoleWriteDone_def PendingInterrupt_new_def)
    show ?thesis using WriteDone_in [OF i(1,3,2)] pre by (auto simp: in_inv_def s)
  qed
qed

lemma con_init_inv:
  assumes "con_init kb c"
  shows "con_inv c" "in_inv kb c"
proof -
  have "Inr (ksim c) = SynchConsole_new kb" "printed c = []" "delivered c = []" using assms by (simp_all add: con_init_def)
  then show "con_inv c" "in_inv kb c"
    by (auto simp: SynchConsole_new_def Schedule_def Interrupt_new_def Console_new_def con_inv_def in_inv_def pend_ok_def
        out_ok_def read_ok_def in_ok_def at_def Semaphore_new_def buffered_def Statistics_new_def)
qed

lemma con_inv_reachable: "con_step\<^sup>*\<^sup>* c0 c \<Longrightarrow> con_init kb c0 \<Longrightarrow> con_inv c"
  by (induction rule: rtranclp_induct) (auto simp: con_init_inv con_inv_step)

lemma in_inv_reachable:
  assumes "con_step\<^sup>*\<^sup>* c0 c" "con_init kb c0" "clean kb"
  shows "in_inv kb c"
  using assms(1)
proof (induction rule: rtranclp_induct)
  case base
  then show ?case using con_init_inv(2) [OF assms(2)] .
next
  case (step y z)
  then show ?case using in_inv_step con_inv_reachable [OF step(1) assms(2)] assms(3) by blast
qed


section \<open>Properties\<close>

text \<open>Nothing goes wrong with the first poll: there is an initial configuration for every keyboard.\<close>

definition con_start :: "keyboard list \<Rightarrow> con_conf" where
  "con_start kb = \<lparr>ksim = (case SynchConsole_new kb of Inr s \<Rightarrow> s), printed = [], delivered = []\<rparr>"

lemma con_init_start: "con_init kb (con_start kb)"
  by (simp add: con_init_def con_start_def SynchConsole_new_def Schedule_def Let_def)

text \<open>A first thread calls and gets the lock.\<close>

definition con_acquired :: "keyboard list \<Rightarrow> thread \<Rightarrow> request \<Rightarrow> con_conf" where
  "con_acquired kb t r =
     (let c = con_start kb; c1 = set_world (move t (KAcquire r) (kworld c)) c
      in set_world (move t (if is_put r then KStart r else KWait r) (set_owner r (Some t) (kworld c1))) c1)"

lemma reach_acquired:
  assumes "begins r"
  shows "con_step\<^sup>*\<^sup>* (con_start kb) (con_acquired kb t r)"
proof -
  let ?c = "con_start kb"
  have w: "kpc (kworld ?c) t = KFree" "threadWrite (kworld ?c) = None" "threadRead (kworld ?c) = None"
    by (simp_all add: con_start_def SynchConsole_new_def Schedule_def Let_def Interrupt_new_def)
  let ?c1 = "set_world (move t (KAcquire r) (kworld ?c)) ?c"
  have "con_step ?c ?c1" using w(1) assms(1) by (rule con_step.call)
  moreover have "con_step ?c1 (con_acquired kb t r)" unfolding con_acquired_def Let_def
    by (rule con_step.acquire) (simp_all add: owner_def w)
  ultimately show ?thesis by (meson converse_rtranclp_into_rtranclp r_into_rtranclp)
qed

lemma con_acquired_pc: "kpc (kworld (con_acquired kb t r)) t = (if is_put r then KStart r else KWait r)"
  by (simp add: con_acquired_def Let_def)

text \<open>
  C6 (safety): output through the synchronous console, for any threads in any interleaving with each other and with
  the interrupts, whatever is typed. What is on the display is the concatenation of the complete strings and
  characters printed, never mixed, in the order in which the threads got the lock; the ASSERT of the device that no
  output is in progress never fails; a thread that returns has been told that its output is done; and while it
  sleeps, the interrupt that will wake it is pending.
\<close>

theorem console_output_atomic:
  assumes "con_init kb c0" "con_step\<^sup>*\<^sup>* c0 c"
  shows "writeFile (console (kworld c)) = concat (map snd (printed c))
     \<and> (\<forall>t r. kpc (kworld c) t = KStart r \<longrightarrow> (\<exists>s. start_put r (ksim c) = Inr s))
     \<and> (\<forall>t r. kpc (kworld c) t = KRelease r \<longrightarrow> is_put r \<longrightarrow> \<not> putBusy (console (kworld c)))
     \<and> (\<forall>t r. kpc (kworld c) t = KSleep r \<longrightarrow> is_put r \<longrightarrow> (\<exists>p\<in>set (pending (ksim c)). itype (snd p) = ConsoleWriteInt))"
proof (intro conjI allI impI)
  have i: "con_inv c" using con_inv_reachable [OF assms(2,1)] .
  then have o: "out_ok (kworld c)" "\<forall>t. pc_fits (kpc (kworld c) t)" by (simp_all add: con_inv_def)
  show "writeFile (console (kworld c)) = concat (map snd (printed c))" using i by (simp add: con_inv_def)
  show "\<exists>s. start_put r (ksim c) = Inr s" if "kpc (kworld c) t = KStart r" for t r
  proof -
    have "is_put r" using o(2) that by (metis pc_fits.simps(1))
    moreover have "\<not> putBusy (console (kworld c))" using out_owner(3) [OF o(1), of t] that by simp
    ultimately show ?thesis
      by (cases r) (simp_all add: Console_PutChar_def Console_PutString_def put_bytes_def Schedule_def Let_def)
  qed
  show "\<not> putBusy (console (kworld c))" if "kpc (kworld c) t = KRelease r" "is_put r" for t r
    using out_owner(3) [OF o(1), of t] that by simp
  show "\<exists>p\<in>set (pending (ksim c)). itype (snd p) = ConsoleWriteInt" if "kpc (kworld c) t = KSleep r" "is_put r" for t r
  proof -
    have "putBusy (console (kworld c))" using out_owner(3) [OF o(1), of t] that by simp
    then have "filter (\<lambda>(w, p). itype p = ConsoleWriteInt) (pending (ksim c)) \<noteq> []" using i by (auto simp: con_inv_def pend_ok_def)
    then show ?thesis by (force simp: filter_empty_conv)
  qed
qed

theorem console_output_atomic_witness:
  "\<exists>c s. con_step\<^sup>*\<^sup>* (con_start []) c \<and> kpc (kworld c) 4 = KStart (PutC 65) \<and> start_put (PutC 65) (ksim c) = Inr s"
  using console_output_atomic [OF con_init_start reach_acquired [of "PutC 65" "[]" 4]] reach_acquired [of "PutC 65" "[]" 4]
    con_acquired_pc [of "[]" 4 "PutC 65"] by (intro exI [of _ "con_acquired [] 4 (PutC 65)"]) (auto simp del: start_put.simps)

text \<open>
  C22 (functional): input through the synchronous console, as long as neither the end of the input nor the byte 255 has been
  met. The characters delivered to the reading threads, in the order of delivery, and then the one buffered in the
  device are exactly the characters typed so far, in their order: none is lost, duplicated or swapped; \<^verbatim>\<open>Feof\<close> is false;
  and a thread sleeps only while no character is waiting for it.
\<close>

theorem console_input_in_order:
  assumes "con_init kb c0" "con_step\<^sup>*\<^sup>* c0 c" "clean kb"
  shows "(\<exists>pre. kb = pre @ readFile (console (kworld c)) \<and> map snd (delivered c) @ buffered (kworld c) = typed pre)
     \<and> \<not> Feof (kworld c)
     \<and> (\<forall>t r. kpc (kworld c) t = KSleep r \<longrightarrow> \<not> is_put r \<longrightarrow> buffered (kworld c) = [])"
proof (intro conjI allI impI)
  have i: "con_inv c" "in_inv kb c" using con_inv_reachable [OF assms(2,1)] in_inv_reachable [OF assms(2,1,3)] by simp_all
  then have r: "read_ok (kworld c)" "in_ok (kworld c)" by (simp_all add: con_inv_def in_inv_def)
  show "\<exists>pre. kb = pre @ readFile (console (kworld c)) \<and> map snd (delivered c) @ buffered (kworld c) = typed pre"
    using i(2) by (auto simp: in_inv_def)
  show "\<not> Feof (kworld c)" using r(2) by (simp add: in_ok_def Feof_def)
  show "buffered (kworld c) = []" if "kpc (kworld c) t = KSleep r" "\<not> is_put r" for t r
    using read_owner(1) [OF r(1), of t] r(2) that by (simp add: in_ok_def buffered_def)
qed

theorem console_input_in_order_witness:
  "\<exists>c. con_step\<^sup>*\<^sup>* (con_start [Typed 65]) c \<and> kpc (kworld c) 4 = KWait GetC \<and> \<not> Feof (kworld c)"
  using console_input_in_order [OF con_init_start reach_acquired [of GetC "[Typed 65]" 4]] reach_acquired [of GetC "[Typed 65]" 4]
    con_acquired_pc [of "[Typed 65]" 4 GetC] by (auto simp: clean_def EOF_def intro!: exI [of _ "con_acquired [Typed 65] 4 GetC"])

text \<open>
  The end of the input is not kept in order with what follows it. When a poll meets the end of the input
  (or the byte 255) the buffer still counts as empty, so a character typed afterwards overtakes it: the next two reads return the
  later character first and the end of input second, and the semaphore counts both.
\<close>

theorem console_eof_overtaken:
  assumes "incoming (console w) = EOF" "readFile (console w) = e # Typed b # rest" "e = EndOfFile \<or> e = Typed EOF" "b \<noteq> EOF"
    and "squeue (readAvail w) = []"
  shows "let w2 = CheckCharAvail (CheckCharAvail w); (c1, w3) = Console_GetChar w2; (c2, w4) = Console_GetChar w3
     in c1 = b \<and> c2 = EOF \<and> Feof w4 \<and> svalue (readAvail w2) = svalue (readAvail w) + 2"
  using assms by (auto simp: CheckCharAvail_def ReadAvail_def Semaphore_V_def Console_GetChar_def Feof_def Let_def)

theorem console_eof_overtaken_witness:
  "svalue (readAvail (CheckCharAvail (CheckCharAvail (kworld (con_start [EndOfFile, Typed 65]))))) = 2"
  using console_eof_overtaken [of "kworld (con_start [EndOfFile, Typed 65])" EndOfFile 65 "[]"]
  by (auto simp: con_start_def SynchConsole_new_def Schedule_def Interrupt_new_def Console_new_def Semaphore_new_def EOF_def Let_def
      split: prod.splits)

end
