(* ===== verification/ConsoleText.thy ===== *)
theory ConsoleText
  imports Console ProgramLoad
begin

text \<open>
  What \<^verbatim>\<open>userprog/synchconsole.cc\<close> does with text: reading a line into a buffer, printing and reading integers, and
  copying strings between kernel buffers and the memory of a user program. Which characters a reading thread gets,
  and that nobody else gets characters in between, is the subject of theory Console; here they are a list.
\<close>

section \<open>Lines\<close>

abbreviation (input) MAX_STRING_SIZE :: int where "MAX_STRING_SIZE \<equiv> 4096"

text \<open>
  The loop of \<^verbatim>\<open>SynchGetString\<close>, from index \<open>i\<close> of the array \<open>s\<close> on, with the characters that will be delivered. Without
  a character the thread waits.
\<close>

fun get_string :: "byte list \<Rightarrow> int \<Rightarrow> byte list \<Rightarrow> int \<Rightarrow> (byte list \<times> byte list) res" where
  "get_string [] n s i = Inl WouldBlock"
| "get_string (c # cs) n s i =
     bindR (get_step n s i c) (\<lambda>(more, s', i'). if more then get_string cs n s' i' else Inr (s', cs))"

text \<open>\<^verbatim>\<open>SynchGetString(s, n)\<close>: the array (\<open>None\<close> is NULL) and the characters left.\<close>

definition SynchGetString :: "byte list \<Rightarrow> byte list option \<Rightarrow> int \<Rightarrow> (byte list option \<times> byte list) res" where
  "SynchGetString cs s n =
     (case s of None \<Rightarrow> Inr (None, cs)
      | Some a \<Rightarrow>
          if n = 0 then Inr (s, cs)
          else if n = 1 then bindR (arr_set a 0 0) (\<lambda>a'. Inr (Some a', cs))
          else bindR (get_string cs n a 0) (\<lambda>(a', rest). Inr (Some a', rest)))"

section \<open>Integers\<close>

text \<open>\<^verbatim>\<open>printf\<close> with \<^verbatim>\<open>%i\<close>.\<close>

fun digits :: "nat \<Rightarrow> byte list" where
  "digits n = (if n < 10 then [of_nat (48 + n)] else digits (n div 10) @ [of_nat (48 + n mod 10)])"

declare digits.simps [simp del]

definition show_int :: "int \<Rightarrow> byte list" where
  "show_int i = (if i < 0 then 45 # digits (nat (- i)) else digits (nat i))"

text \<open>
  \<^verbatim>\<open>SynchPutInt\<close>: the text \<^verbatim>\<open>snprintf\<close> leaves in the buffer (cut to its size) is what is passed to \<^verbatim>\<open>SynchPutString\<close>.
\<close>

definition SynchPutInt :: "int \<Rightarrow> request" where
  "SynchPutInt i = PutS (take (nat MAX_STRING_SIZE - 1) (show_int i))"

text \<open>
  \<^verbatim>\<open>sscanf\<close> with \<^verbatim>\<open>%i\<close>: white space, a sign, the base from the prefix (\<^verbatim>\<open>0x\<close> hexadecimal, \<^verbatim>\<open>0\<close> octal), and the longest
  run of digits. \<open>None\<close>: no number there, nothing is stored. A number that does not fit is undefined behaviour.
\<close>

definition is_space :: "byte \<Rightarrow> bool" where
  "is_space b \<longleftrightarrow> b = 32 \<or> (9 \<le> unat b \<and> unat b \<le> 13)"

definition digit_val :: "nat \<Rightarrow> byte \<Rightarrow> nat option" where
  "digit_val base b =
     (let v = (if 48 \<le> unat b \<and> unat b \<le> 57 then unat b - 48
               else if 97 \<le> unat b \<and> unat b \<le> 122 then unat b - 87
               else if 65 \<le> unat b \<and> unat b \<le> 90 then unat b - 55 else 99)
      in if v < base then Some v else None)"

fun run_digits :: "nat \<Rightarrow> byte list \<Rightarrow> nat list" where
  "run_digits base [] = []"
| "run_digits base (b # bs) = (case digit_val base b of None \<Rightarrow> [] | Some v \<Rightarrow> v # run_digits base bs)"

definition digits_value :: "nat \<Rightarrow> nat list \<Rightarrow> nat" where
  "digits_value base ds = fold (\<lambda>d a. a * base + d) ds 0"

definition scan_base :: "byte list \<Rightarrow> nat \<times> byte list" where
  "scan_base bs =
     (if take 1 bs = [48] \<and> (take 1 (tl bs) = [120] \<or> take 1 (tl bs) = [88]) then (16, drop 2 bs)
      else if take 1 bs = [48] then (8, bs) else (10, bs))"

definition scan_unsigned :: "byte list \<Rightarrow> nat option" where
  "scan_unsigned bs =
     (let (base, us) = scan_base bs; ds = run_digits base us in if ds = [] then None else Some (digits_value base ds))"

definition scan_int :: "byte list \<Rightarrow> int option res" where
  "scan_int bs =
     (let cs = dropWhile is_space bs;
          (neg, us) = (case cs of c # r \<Rightarrow> if c = 45 then (True, r) else if c = 43 then (False, r) else (False, cs) | [] \<Rightarrow> (False, []))
      in case scan_unsigned us of
           None \<Rightarrow> Inr None
         | Some v \<Rightarrow> let x = (if neg then - int v else int v) in if int32_ok x then Inr (Some x) else Inl SignedOverflow)"

text \<open>\<^verbatim>\<open>SynchGetInt\<close>: \<open>buf\<close> is the uninitialised buffer and \<open>old\<close> what \<^verbatim>\<open>*i\<close> holds before.\<close>

definition SynchGetInt :: "byte list \<Rightarrow> byte list \<Rightarrow> int \<Rightarrow> (int \<times> byte list) res" where
  "SynchGetInt buf cs old =
     bindR (SynchGetString cs (Some buf) MAX_STRING_SIZE) (\<lambda>(s, rest).
     bindR (scan_int (cstr (the s))) (\<lambda>r. Inr (case r of None \<Rightarrow> old | Some v \<Rightarrow> v, rest)))"

section \<open>Strings in the memory of a program\<close>

text \<open>
  The loop of \<^verbatim>\<open>CopyStringFromMachine\<close> with \<open>k\<close> iterations left of \<^verbatim>\<open>size - 1\<close>: a byte that cannot be read leaves the
  buffer and \<^verbatim>\<open>ch\<close> as they were, and the loop goes on.
\<close>

fun copy_from :: "'a handler \<Rightarrow> nat \<Rightarrow> 32 word \<Rightarrow> 32 word \<Rightarrow> nat \<Rightarrow> byte list \<Rightarrow> 'a Machine_scheme \<Rightarrow> (nat \<times> byte list \<times> 'a Machine_scheme) res" where
  "copy_from eh 0 src ch i dst m = Inr (i, dst, m)"
| "copy_from eh (Suc k) src ch i dst m =
     (if ch = 0 then Inr (i, dst, m)
      else bindR (ReadMem eh (src + of_nat i) 1 m) (\<lambda>(r, m').
        case r of
          None \<Rightarrow> copy_from eh k src ch (Suc i) dst m'
        | Some v \<Rightarrow> bindR (arr_set dst (int i) (ucast v)) (\<lambda>dst'. copy_from eh k src v (Suc i) dst' m')))"

definition CopyStringFromMachine :: "'a handler \<Rightarrow> 32 word \<Rightarrow> byte list \<Rightarrow> 32 word \<Rightarrow> 'a Machine_scheme \<Rightarrow> (byte list \<times> 'a Machine_scheme) res" where
  "CopyStringFromMachine eh src dst sz m =
     bindR (copy_from eh (unat (sz - 1)) src 1 0 dst m) (\<lambda>(i, dst1, m1).
     bindR (arr_set dst1 (int i) 0) (\<lambda>dst2. Inr (dst2, m1)))"

fun copy_to :: "'a handler \<Rightarrow> nat \<Rightarrow> byte list \<Rightarrow> 32 word \<Rightarrow> nat \<Rightarrow> 'a Machine_scheme \<Rightarrow> (nat \<times> 'a Machine_scheme) res" where
  "copy_to eh 0 src dst i m = Inr (i, m)"
| "copy_to eh (Suc k) src dst i m =
     bindR (arr_get src (int i)) (\<lambda>c.
     if c = 0 then Inr (i, m)
     else bindR (WriteMem eh (dst + of_nat i) 1 (scast c) m) (\<lambda>(_, m'). copy_to eh k src dst (Suc i) m'))"

text \<open>A byte that cannot be written is only reported on the host's terminal.\<close>

definition CopyStringToMachine :: "'a handler \<Rightarrow> byte list \<Rightarrow> 32 word \<Rightarrow> 32 word \<Rightarrow> 'a Machine_scheme \<Rightarrow> 'a Machine_scheme res" where
  "CopyStringToMachine eh src dst sz m =
     bindR (copy_to eh (unat (sz - 1)) src dst 0 m) (\<lambda>(i, m1).
     bindR (WriteMem eh (dst + of_nat i) 1 0 m1) (\<lambda>(_, m2). Inr m2))"


section \<open>Reading a line\<close>

text \<open>The characters that end a line, and the number of characters before the end within the first \<open>k\<close>.\<close>

definition stops :: "byte \<Rightarrow> bool" where
  "stops c \<longleftrightarrow> c = EOF \<or> c = 10 \<or> c = 0"

definition line_length :: "nat \<Rightarrow> byte list \<Rightarrow> nat" where
  "line_length k cs = length (takeWhile (\<lambda>c. \<not> stops c) (take k cs))"

lemma line_length_simps [simp]:
  "line_length k [] = 0" "line_length 0 cs = 0"
  "line_length (Suc k) (c # cs) = (if stops c then 0 else Suc (line_length k cs))"
  by (simp_all add: line_length_def)

lemma line_length_le: "line_length k cs \<le> k" "line_length k cs \<le> length cs"
  unfolding line_length_def by (metis length_take length_takeWhile_le min.boundedE)+

lemma get_string_spec:
  assumes "j < nat n" "nat n \<le> length s" "m = line_length (nat n - 1 - j) cs"
  shows "get_string cs n s (int j) =
     (if m = length cs then Inl WouldBlock
      else if j + m + 1 < length s then Inr (take j s @ take (Suc m) cs @ 0 # drop (j + m + 2) s, drop (Suc m) cs)
      else Inl OutOfBounds)"
  using assms
proof (induction cs arbitrary: s j m)
  case Nil
  then show ?case by simp
next
  case (Cons c cs)
  show ?case
  proof (cases "j < nat n - 1 \<and> \<not> stops c")
    case True
    then obtain k where k: "nat n - 1 - j = Suc k" "k = nat n - 1 - Suc j" by (metis Suc_diff_Suc diff_Suc_eq_diff_pred diff_commute)
    let ?m = "line_length k cs"
    have m: "m = Suc ?m" using Cons.prems(3) True k(1) by simp
    have st: "get_step n s (int j) c = Inr (True, s[j := c], int (Suc j))"
      using True Cons.prems(1,2) by (auto simp: get_step_def stops_def)
    have IH: "get_string cs n (s[j := c]) (int (Suc j)) =
       (if ?m = length cs then Inl WouldBlock
        else if Suc j + ?m + 1 < length s
        then Inr (take (Suc j) (s[j := c]) @ take (Suc ?m) cs @ 0 # drop (Suc j + ?m + 2) (s[j := c]), drop (Suc ?m) cs)
        else Inl OutOfBounds)"
    proof -
      have "Suc j < nat n" "nat n \<le> length (s[j := c])" "?m = line_length (nat n - 1 - Suc j) cs" using True Cons.prems(2) k(2) by auto
      from Cons.IH [OF this] show ?thesis unfolding length_list_update .
    qed
    have "take (Suc j) (s[j := c]) = take j s @ [c]" using Cons.prems(1,2) by (simp add: take_Suc_conv_app_nth)
    then show ?thesis using st IH m by simp
  next
    case False
    then have m: "m = 0" using Cons.prems(1,3) by (cases "nat n - 1 - j") auto
    have "\<not> (int j < n - 1 \<and> c \<noteq> EOF \<and> c \<noteq> 10 \<and> c \<noteq> 0)" using False by (auto simp: stops_def)
    then have st: "get_step n s (int j) c = bindR (arr_set (s[j := c]) (int j + 1) 0) (\<lambda>s2. Inr (False, s2, int j))"
      using Cons.prems(1,2) unfolding get_step_def by auto
    show ?thesis
    proof (cases "j + 1 < length s")
      case True
      then have "arr_set (s[j := c]) (int j + 1) 0 = Inr ((s[j := c])[Suc j := 0])" by (simp add: nat_add_distrib)
      moreover have "(s[j := c])[Suc j := 0] = take j s @ c # 0 # drop (j + 2) s"
        using True by (intro nth_equalityI) (auto simp: nth_append nth_Cons nth_list_update split: nat.splits intro!: arg_cong [where f = "(!) s"])
      ultimately show ?thesis using st m True by simp
    next
      case False
      then show ?thesis using st m by (simp add: arr_set_bad)
    qed
  qed
qed


section \<open>Printed integers are read back\<close>

definition digit_char :: "nat \<Rightarrow> byte" where
  "digit_char d = of_nat (48 + d)"

lemma unat_digit_char: "d < 10 \<Longrightarrow> unat (digit_char d) = 48 + d"
  unfolding digit_char_def unat_of_nat by simp

lemma digit_val_char: "d < 10 \<Longrightarrow> d < base \<Longrightarrow> digit_val base (digit_char d) = Some d"
  by (simp add: digit_val_def unat_digit_char)

lemma digits_value_snoc: "digits_value base (ds @ [d]) = digits_value base ds * base + d"
  by (simp add: digits_value_def)

lemma digits_spec:
  "\<exists>ds. digits n = map digit_char ds \<and> (\<forall>d\<in>set ds. d < 10) \<and> digits_value 10 ds = n \<and> ds \<noteq> [] \<and> (hd ds = 0 \<longrightarrow> ds = [0])"
proof (induction n rule: less_induct)
  case (less n)
  show ?case
  proof (cases "n < 10")
    case True
    then show ?thesis
      by (intro exI [of _ "[n]"]) (simp add: digits.simps [of n] digit_char_def digits_value_def)
  next
    case False
    then obtain ds where ds: "digits (n div 10) = map digit_char ds" "\<forall>d\<in>set ds. d < 10" "digits_value 10 ds = n div 10" "ds \<noteq> []" "hd ds = 0 \<longrightarrow> ds = [0]"
      using less [of "n div 10"] by auto
    have "hd ds \<noteq> 0" using ds(3,5) False by (auto simp: digits_value_def)
    then show ?thesis using ds False
      by (intro exI [of _ "ds @ [n mod 10]"]) (simp add: digits.simps [of n] digit_char_def digits_value_snoc)
  qed
qed

lemma run_digits_map:
  assumes "\<forall>d\<in>set ds. d < 10 \<and> d < base" "rest = [] \<or> digit_val base (hd rest) = None"
  shows "run_digits base (map digit_char ds @ rest) = ds"
  using assms(1)
proof (induction ds)
  case Nil
  then show ?case using assms(2) by (cases rest) auto
next
  case (Cons d ds)
  then show ?case by (simp add: digit_val_char)
qed

lemma newline_no_digit: "base \<le> 16 \<Longrightarrow> digit_val base 10 = None"
  by (simp add: digit_val_def)

lemma digit_char_inj:
  assumes "d < 10" "e < 10" "digit_char d = digit_char e"
  shows "d = e"
proof -
  have "unat (digit_char d) = unat (digit_char e)" using assms(3) by simp
  then show ?thesis using assms(1,2) by (simp add: unat_digit_char)
qed

lemma scan_unsigned_digits:
  assumes "rest = [] \<or> rest = [10]"
  shows "scan_unsigned (digits n @ rest) = Some n"
proof -
  obtain ds where ds: "digits n = map digit_char ds" "\<forall>d\<in>set ds. d < 10" "digits_value 10 ds = n" "ds \<noteq> []" "hd ds = 0 \<longrightarrow> ds = [0]"
    using digits_spec [of n] by (elim exE conjE) (rule that)
  have z: "digit_char 0 = 48" by (simp add: digit_char_def)
  obtain d es where e: "ds = d # es" using ds(4) by (cases ds) auto
  have r: "rest = [] \<or> digit_val base (hd rest) = None" if "base \<le> 16" for base using assms newline_no_digit [OF that] by auto
  show ?thesis
  proof (cases "d = 0")
    case True
    then have "ds = [0]" "n = 0" using ds(3,5) e by (auto simp: digits_value_def)
    then have "scan_base (digits n @ rest) = (8, digits n @ rest)" "ds = [0]" "n = 0"
      using assms ds(1) z by (auto simp: scan_base_def)
    then show ?thesis using run_digits_map [of "[0]" 8 rest] r [of 8] ds(1)
      by (simp add: scan_unsigned_def digits_value_def)
  next
    case False
    then have "digit_char d \<noteq> 48" using digit_char_inj [of d 0] ds(2) e z by fastforce
    then have "scan_base (digits n @ rest) = (10, digits n @ rest)" using ds(1) e by (simp add: scan_base_def)
    then show ?thesis using run_digits_map [of ds 10 rest] r [of 10] ds
      by (simp add: scan_unsigned_def)
  qed
qed

text \<open>No character of a printed integer ends a line, and none is white space.\<close>

lemma digits_chars: "\<forall>b\<in>set (digits n). 48 \<le> unat b \<and> unat b \<le> 57"
proof -
  obtain ds where "digits n = map digit_char ds" "\<forall>d\<in>set ds. d < 10" using digits_spec by blast
  then show ?thesis by (auto simp: unat_digit_char)
qed

lemma show_int_chars: "b \<in> set (show_int i) \<Longrightarrow> \<not> stops b \<and> \<not> is_space b"
proof -
  have n: "48 \<le> unat b \<and> unat b \<le> 57 \<Longrightarrow> \<not> stops b \<and> \<not> is_space b"
    by (auto simp: stops_def is_space_def EOF_def)
  assume "b \<in> set (show_int i)"
  then consider "b = 45" | "48 \<le> unat b \<and> unat b \<le> 57" using digits_chars by (auto simp: show_int_def split: if_splits)
  then show ?thesis by cases (simp add: stops_def is_space_def EOF_def, rule n)
qed

lemma show_int_ne: "show_int i \<noteq> []"
  using digits_spec [of "nat i"] by (auto simp: show_int_def)

lemma scan_show_int:
  assumes "int32_ok i" "rest = [] \<or> rest = [10]"
  shows "scan_int (show_int i @ rest) = Inr (Some i)"
proof -
  have "dropWhile is_space (show_int i @ rest) = show_int i @ rest"
    using show_int_chars [of "hd (show_int i)" i] show_int_ne [of i] by (cases "show_int i") auto
  moreover have d: "scan_unsigned (digits n @ rest) = Some n" for n by (rule scan_unsigned_digits [OF assms(2)])
  moreover have "\<exists>c r. digits n = c # r \<and> c \<noteq> 45 \<and> c \<noteq> 43" for n
  proof -
    obtain c r where c: "digits n = c # r" using digits_spec [of n] by (cases "digits n") auto
    then have "48 \<le> unat c" using digits_chars [of n] by simp
    then show ?thesis using c by auto
  qed
  then obtain c r where c: "digits (nat i) = c # r" "c \<noteq> 45" "c \<noteq> 43" by blast
  have "scan_unsigned (c # r @ rest) = Some (nat i)" using d [of "nat i"] c(1) by simp
  ultimately show ?thesis using assms(1) c d [of "nat (- i)"]
    by (cases "i < 0") (simp_all add: scan_int_def show_int_def)
qed


section \<open>Strings through a page table\<close>

lemma write_byte_ok:
  assumes "tlb m = None" "table_good pt" "x < PageSize * length pt"
  shows "\<exists>b pt'. WriteMem eh (of_nat x) 1 (scast v) (with_table pt mem m) = Inr (b, with_table pt' (mem(phys pt x := v)) m) \<and> same_map pt pt'"
proof -
  have "length pt \<le> 256" using assms(2) by (simp add: table_good_def)
  then have "int32_ok (int x)" using assms(3) by (simp add: int32_ok_def)
  then show ?thesis using put_byte_ok [OF assms(1,2), of "int x" 0 eh v mem] assms(3)
    by (auto simp: put_byte_def add_int_def bind_iffs)
qed

lemma read_byte_ok:
  assumes "tlb m = None" "table_good pt" "x < PageSize * length pt"
  shows "\<exists>pt'. ReadMem eh (of_nat x) 1 (with_table pt mem m) = Inr (Some (scast (vmem pt mem x)), with_table pt' mem m) \<and> same_map pt pt'"
proof -
  let ?v = "x div PageSize"
  have len: "length pt \<le> 256" using assms(2) by (simp add: table_good_def)
  have v: "?v < length pt" using assms(3) by (simp add: less_mult_imp_div_less mult.commute)
  have u: "unat (of_nat x :: 32 word) = x" "unat (of_nat (length pt) :: 32 word) = length pt"
    using small_nat_word [of x] small_nat_word [of "length pt"] assms(3) len by simp_all
  have e: "valid (pt ! ?v)" "unat (physicalPage (pt ! ?v)) < 256" using assms(2) v by (simp_all add: table_good_def)
  let ?e = "(pt ! ?v)\<lparr>useBit := True, dirty := dirty (pt ! ?v)\<rparr>"
  have p: "phys pt x + 1 \<le> MemorySize" by (rule phys_bound [OF assms(2,3)])
  have t: "Translate_entry (pt ! ?v) (x mod PageSize) 1 False = Inr (Phys (phys pt x), ?e)"
    using e p by (simp add: Translate_entry_def phys_def Let_def)
  have "ReadMem eh (of_nat x) 1 (with_table pt mem m) = Inr (Some (scast (vmem pt mem x)), with_table (pt[?v := ?e]) mem m)"
    using assms(1) u v e(1) t p by (simp add: ReadMem_def Translate_def with_table_def Let_def load_mem_def mem_get_def vmem_def)
  moreover have "same_map pt (pt[?v := ?e])"
    unfolding same_map_def by (rule map_update_same) (use v in \<open>simp_all add: entry_key_def\<close>)
  ultimately show ?thesis by blast
qed

lemma stored_at_Cons: "stored_at (Suc va) bs (f(va := b)) x = stored_at va (b # bs) f x"
  by (auto simp: stored_at_def nth_Cons' Suc_diff_Suc)

lemma stored_at_snoc: "(stored_at va bs f)(va + length bs := b) = stored_at va (bs @ [b]) f"
  by (rule ext) (auto simp: stored_at_def nth_append)

lemma vmem_upd:
  assumes "table_good pt" "x < PageSize * length pt" "y < PageSize * length pt"
  shows "vmem pt (mem(phys pt x := b)) y = ((vmem pt mem)(x := b)) y"
  using phys_inj [OF assms(1,3,2)] by (auto simp: vmem_def)

lemma same_map_vmem: "same_map pt pt' \<Longrightarrow> x < PageSize * length pt \<Longrightarrow> vmem pt' mem x = vmem pt mem x"
  using same_map_phys by (simp add: vmem_def)

lemma outside_kept_upd:
  "outside_kept pt mem mem' \<Longrightarrow> x < PageSize * length pt \<Longrightarrow> outside_kept pt mem (mem'(phys pt x := b))"
  using phys_frame [of x pt] by (auto simp: outside_kept_def)

lemma stored_at_cong:
  assumes "\<And>y. y < N \<Longrightarrow> f y = g y" "x < N"
  shows "stored_at va bs f x = stored_at va bs g x"
  using assms by (simp add: stored_at_def)

lemma copy_to_spec:
  assumes "tlb m = None" "table_good pt" "va + i + length (cstr (take k (drop i src))) \<le> PageSize * length pt"
    "i + k \<le> length src \<or> 0 \<in> set (drop i src)"
  defines "str \<equiv> cstr (take k (drop i src))"
  shows "\<exists>pt' mem'. copy_to eh k src (of_nat va) i (with_table pt mem m) = Inr (i + length str, with_table pt' mem' m)
     \<and> same_map pt pt' \<and> outside_kept pt mem mem' \<and> (\<forall>x<PageSize * length pt. vmem pt mem' x = stored_at (va + i) str (vmem pt mem) x)"
  using assms(2-4) unfolding str_def
proof (induction k arbitrary: i pt mem)
  case 0
  show ?case by (intro exI [of _ pt] exI [of _ mem]) (auto simp: outside_kept_def stored_at_def)
next
  case (Suc k)
  have i: "i < length src" using Suc.prems(3) by (cases "i < length src") auto
  then have d: "drop i src = src ! i # drop (Suc i) src" by (simp add: Cons_nth_drop_Suc)
  show ?case
  proof (cases "src ! i = 0")
    case True
    then show ?thesis using i d by (intro exI [of _ pt] exI [of _ mem]) (auto simp: outside_kept_def stored_at_def)
  next
    case False
    let ?r = "cstr (take k (drop (Suc i) src))" and ?x = "va + i"
    have r: "cstr (take (Suc k) (drop i src)) = src ! i # ?r" using d False by simp
    then have x: "?x < PageSize * length pt" using Suc.prems(2) by simp
    obtain b pt1 where 1: "WriteMem eh (of_nat ?x) 1 (scast (src ! i)) (with_table pt mem m)
         = Inr (b, with_table pt1 (mem(phys pt ?x := src ! i)) m)" "same_map pt pt1"
      using write_byte_ok [OF assms(1) Suc.prems(1) x] by blast
    let ?mem1 = "mem(phys pt ?x := src ! i)"
    have l: "length pt1 = length pt" by (rule same_map_length [OF 1(2)])
    have "va + Suc i + length ?r \<le> PageSize * length pt1" "Suc i + k \<le> length src \<or> 0 \<in> set (drop (Suc i) src)"
      using Suc.prems(2,3) r d False l by auto
    from Suc.IH [OF same_map_good [OF 1(2) Suc.prems(1)] this] obtain pt' mem' where
      2: "copy_to eh k src (of_nat va) (Suc i) (with_table pt1 ?mem1 m) = Inr (Suc i + length ?r, with_table pt' mem' m)"
        "same_map pt1 pt'" "outside_kept pt1 ?mem1 mem'"
        "\<forall>x<PageSize * length pt. vmem pt1 mem' x = stored_at (va + Suc i) ?r (vmem pt1 ?mem1) x"
      unfolding l by blast
    have "vmem pt mem' y = stored_at ?x (src ! i # ?r) (vmem pt mem) y" if y: "y < PageSize * length pt" for y
    proof -
      have "vmem pt mem' y = stored_at (Suc ?x) ?r (vmem pt1 ?mem1) y" using 2(4) y same_map_vmem [OF 1(2) y, symmetric] by simp
      also have "\<dots> = stored_at (Suc ?x) ?r ((vmem pt mem)(?x := src ! i)) y"
        by (rule stored_at_cong [OF _ y]) (simp add: same_map_vmem [OF 1(2)] vmem_upd [OF Suc.prems(1) x])
      finally show ?thesis by (simp add: stored_at_Cons)
    qed
    moreover have "outside_kept pt mem mem'"
      using 2(3) outside_kept_upd [of pt mem mem ?x "src ! i"] x unfolding outside_kept_def same_map_frames [OF 1(2)] by auto
    ultimately show ?thesis using 1(1) 2(1) same_map_trans [OF 1(2) 2(2)] False i unfolding r
      by (intro exI [of _ pt'] exI [of _ mem']) simp
  qed
qed


text \<open>The C string at an address of the program, as far as \<open>k\<close> bytes.\<close>

definition user_string :: "TranslationEntry list \<Rightarrow> (nat \<Rightarrow> byte) \<Rightarrow> nat \<Rightarrow> nat \<Rightarrow> byte list" where
  "user_string pt mem va k = cstr (map (vmem pt mem) [va..<va + k])"

lemma user_string_Suc:
  "user_string pt mem va (Suc k) = (if vmem pt mem va = 0 then [] else vmem pt mem va # user_string pt mem (Suc va) k)"
proof -
  have "[va..<va + Suc k] = va # [Suc va..<Suc va + k]" by (simp add: upt_conv_Cons)
  then show ?thesis by (simp add: user_string_def)
qed

lemma scast_eq_0: "(scast (b :: byte) :: 32 word) = 0 \<longleftrightarrow> b = 0"
  by (metis scast_byte scast_0 ucast_0)

text \<open>
  The copy reads the string and its NUL, if that is within the bound; the rest of the buffer is left as it was. A
  string that fits is copied with its NUL, and another one is stored behind it.
\<close>

lemma copy_from_spec:
  assumes "tlb m = None" "table_good pt" "same_map pt pt1" "k + i \<le> length dst" "ch \<noteq> 0"
    "va + i + min k (length (user_string pt mem (va + i) k) + 1) \<le> PageSize * length pt"
  defines "str \<equiv> user_string pt mem (va + i) k"
  shows "\<exists>pt'. copy_from eh k (of_nat va) ch i dst (with_table pt1 mem m)
     = Inr (i + min k (length str + 1), take i dst @ take k (str @ [0]) @ drop (i + min k (length str + 1)) dst, with_table pt' mem m) \<and> same_map pt pt'"
  using assms(3-6) unfolding str_def
proof (induction k arbitrary: i ch pt1 dst)
  case 0
  then show ?case by auto
next
  case (Suc k)
  let ?x = "va + i" and ?r = "user_string pt mem (va + Suc i) k"
  have x: "?x < PageSize * length pt" using Suc.prems(4) by simp
  let ?b = "vmem pt mem ?x"
  have l: "length pt1 = length pt" by (rule same_map_length [OF Suc.prems(1)])
  obtain pt2 where 1: "ReadMem eh (of_nat ?x) 1 (with_table pt1 mem m) = Inr (Some (scast ?b), with_table pt2 mem m)" "same_map pt1 pt2"
    using read_byte_ok [OF assms(1) same_map_good [OF Suc.prems(1) assms(2)], of ?x eh mem] x l same_map_vmem [OF Suc.prems(1) x] by auto
  have step: "copy_from eh (Suc k) (of_nat va) ch i dst (with_table pt1 mem m)
      = copy_from eh k (of_nat va) (scast ?b) (Suc i) (dst[i := ?b]) (with_table pt2 mem m)"
    using 1(1) Suc.prems(2,3) by (simp add: scast_byte)
  have s2: "same_map pt pt2" using same_map_trans [OF Suc.prems(1) 1(2)] .
  have u: "user_string pt mem ?x (Suc k) = (if ?b = 0 then [] else ?b # ?r)" by (simp add: user_string_Suc)
  show ?case
  proof (cases "?b = 0")
    case True
    then have "copy_from eh k (of_nat va) (scast ?b) (Suc i) (dst[i := ?b]) (with_table pt2 mem m) = Inr (Suc i, dst[i := 0], with_table pt2 mem m)"
      by (cases k) simp_all
    moreover have "dst[i := 0] = take i dst @ 0 # drop (Suc i) dst" using Suc.prems(2) by (simp add: upd_conv_take_nth_drop)
    ultimately show ?thesis using step s2 True u by auto
  next
    case False
    have p: "k + Suc i \<le> length (dst[i := ?b])" "(scast ?b :: 32 word) \<noteq> 0" "va + Suc i + min k (length ?r + 1) \<le> PageSize * length pt"
      using Suc.prems(2,4) False u by (simp_all add: scast_eq_0)
    have t: "take (Suc i) (dst[i := ?b]) = take i dst @ [?b]" using Suc.prems(2) by (simp add: take_Suc_conv_app_nth)
    show ?thesis using Suc.IH [OF s2 p] step False unfolding u t by auto
  qed
qed

text \<open>Both copies, in one statement each.\<close>

lemma CopyStringTo_ok:
  assumes "tlb m = None" "table_good pt" "0 < sz" "unat sz - 1 \<le> length src \<or> 0 \<in> set src"
    "va + length (cstr (take (unat sz - 1) src)) < PageSize * length pt"
  shows "\<exists>pt' mem'. CopyStringToMachine eh src (of_nat va) sz (with_table pt mem m) = Inr (with_table pt' mem' m)
     \<and> same_map pt pt' \<and> outside_kept pt mem mem'
     \<and> (\<forall>x<PageSize * length pt. vmem pt mem' x = stored_at va (cstr (take (unat sz - 1) src) @ [0]) (vmem pt mem) x)"
proof -
  let ?str = "cstr (take (unat sz - 1) src)"
  let ?y = "va + length ?str"
  have k: "unat (sz - 1) = unat sz - 1" using assms(3) by (simp add: unat_sub word_le_nat_alt unat_gt_0 Suc_leI)
  obtain pt1 mem1 where 1: "copy_to eh (unat sz - 1) src (of_nat va) 0 (with_table pt mem m) = Inr (length ?str, with_table pt1 mem1 m)"
      "same_map pt pt1" "outside_kept pt mem mem1" "\<forall>x<PageSize * length pt. vmem pt mem1 x = stored_at va ?str (vmem pt mem) x"
    using copy_to_spec [OF assms(1,2), of va 0 "unat sz - 1" src eh mem] assms(4,5) by auto
  have l: "length pt1 = length pt" by (rule same_map_length [OF 1(2)])
  have p: "phys pt1 ?y = phys pt ?y" by (rule same_map_phys [OF 1(2) assms(5)])
  obtain b pt2 where 2: "WriteMem eh (of_nat ?y) 1 0 (with_table pt1 mem1 m) = Inr (b, with_table pt2 (mem1(phys pt ?y := 0)) m)" "same_map pt1 pt2"
    using write_byte_ok [OF assms(1) same_map_good [OF 1(2) assms(2)], of ?y eh 0 mem1] assms(5) l p by auto
  have "vmem pt (mem1(phys pt ?y := 0)) x = stored_at va (?str @ [0]) (vmem pt mem) x" if x: "x < PageSize * length pt" for x
    using vmem_upd [OF assms(2,5) x] 1(4) x fun_cong [OF stored_at_snoc [of va ?str "vmem pt mem" 0], of x] by auto
  moreover have "outside_kept pt mem (mem1(phys pt ?y := 0))" by (rule outside_kept_upd [OF 1(3) assms(5)])
  moreover have "CopyStringToMachine eh src (of_nat va) sz (with_table pt mem m) = Inr (with_table pt2 (mem1(phys pt ?y := 0)) m)"
    using 1(1) 2(1) k by (simp add: CopyStringToMachine_def)
  ultimately show ?thesis using same_map_trans [OF 1(2) 2(2)] by blast
qed


lemma cstr_self: "0 \<notin> set xs \<Longrightarrow> cstr (xs @ 0 # ys) = xs"
  by (induction xs) auto

lemma zero_notin_cstr: "0 \<notin> set (cstr xs)"
  by (induction xs) auto

lemma length_user_string: "length (user_string pt mem va k) \<le> k"
  unfolding user_string_def cstr_def by (rule order_trans [OF length_takeWhile_le]) simp

lemma CopyStringFrom_ok:
  assumes "tlb m = None" "table_good pt" "0 < sz" "unat sz \<le> length dst"
    "va + min (unat sz - 1) (length (user_string pt mem va (unat sz - 1)) + 1) \<le> PageSize * length pt"
  shows "\<exists>pt' dst'. CopyStringFromMachine eh (of_nat va) dst sz (with_table pt mem m) = Inr (dst', with_table pt' mem m)
     \<and> same_map pt pt' \<and> cstr dst' = user_string pt mem va (unat sz - 1) \<and> length dst' = length dst"
proof -
  let ?k = "unat sz - 1" and ?str = "user_string pt mem va (unat sz - 1)"
  let ?i = "min ?k (length ?str + 1)"
  have k: "unat (sz - 1) = ?k" "0 < unat sz" using assms(3) by (simp_all add: unat_sub word_le_nat_alt unat_gt_0 Suc_leI)
  have "?k + 0 \<le> length dst" "(1 :: 32 word) \<noteq> 0" "va + 0 + min ?k (length (user_string pt mem (va + 0) ?k) + 1) \<le> PageSize * length pt"
    using assms(4,5) by simp_all
  from copy_from_spec [OF assms(1,2) same_map_refl this, of eh] obtain pt' where
    1: "copy_from eh ?k (of_nat va) 1 0 dst (with_table pt mem m) = Inr (?i, take ?k (?str @ [0]) @ drop ?i dst, with_table pt' mem m)" "same_map pt pt'"
    unfolding Nat.add_0_right Nat.plus_nat.add_0 take_0 append.simps(1) by (elim exE conjE) (rule that)
  let ?d = "take ?k (?str @ [0]) @ drop ?i dst"
  have l: "length (take ?k (?str @ [0])) = ?i" unfolding length_take by (simp add: min.commute)
  have i: "?i < length dst" using assms(4) k(2) by auto
  then have ld: "length ?d = length dst" unfolding length_append l by simp
  have d: "?d[?i := 0] = take ?k (?str @ [0]) @ 0 # drop (Suc ?i) dst"
    using i unfolding list_update_append l by (simp add: upd_conv_take_nth_drop Cons_nth_drop_Suc)
  have "cstr (?d[?i := 0]) = ?str"
  proof (cases "length ?str < ?k")
    case True
    then have "take ?k (?str @ [0]) = ?str @ [0]" by simp
    then show ?thesis unfolding d by (simp add: cstr_self zero_notin_cstr user_string_def)
  next
    case False
    then have "take ?k (?str @ [0]) = ?str" using length_user_string [of pt mem va ?k] by simp
    then show ?thesis unfolding d by (simp add: cstr_self zero_notin_cstr user_string_def)
  qed
  moreover have "arr_set ?d (int ?i) 0 = Inr (?d[?i := 0])" using ld i by (simp only: arr_set_def) simp
  then have "CopyStringFromMachine eh (of_nat va) dst sz (with_table pt mem m) = Inr (?d[?i := 0], with_table pt' mem m)"
    using 1(1) k(1) by (simp add: CopyStringFromMachine_def)
  moreover have "length (?d[?i := 0]) = length dst" unfolding length_list_update by (rule ld)
  ultimately show ?thesis using 1(2) by blast
qed

section \<open>Properties\<close>

text \<open>
  \<^verbatim>\<open>SynchGetString\<close> with an array of \<open>n\<close> bytes and a line in the input: the characters up to
  and including the one that ends the line (newline, NUL, end of input), but at most \<open>n\<close>, are stored and followed
  by a NUL, and the next call continues behind them. When the first \<open>n - 1\<close> characters do not end the line, \<open>n\<close>
  characters are stored and the NUL is written one byte behind the array.
\<close>

theorem get_string_result:
  assumes "2 \<le> n" "length s = nat n" "m = line_length (nat n - 1) cs" "m < length cs"
  shows "SynchGetString cs (Some s) n =
     (if m < nat n - 1 then Inr (Some (take (Suc m) cs @ 0 # drop (m + 2) s), drop (Suc m) cs) else Inl OutOfBounds)"
proof -
  have "0 < nat n" "nat n \<le> length s" "m = line_length (nat n - 1 - 0) cs" using assms by simp_all
  note g = get_string_spec [OF this]
  have "0 + m + 1 < length s \<longleftrightarrow> m < nat n - 1" using assms(2) by linarith
  then show ?thesis using assms(1,4) g by (cases "m < nat n - 1") (simp_all add: SynchGetString_def)
qed

theorem get_string_result_witness:
  "SynchGetString [104, 105, 10, 33] (Some [1, 1, 1, 1, 1]) 5 = Inr (Some [104, 105, 10, 0, 1], [33])
   \<and> SynchGetString [104, 105, 33] (Some [1, 1]) 2 = Inl OutOfBounds"
proof -
  have 1: "line_length (nat 5 - 1) [104, 105, 10, 33] = 2" "line_length (nat 2 - 1) [104, 105, 33] = 1"
    by (simp_all add: line_length_def stops_def EOF_def)
  have "SynchGetString [104, 105, 10, 33] (Some [1, 1, 1, 1, 1]) 5 =
     (if (2::nat) < nat 5 - 1 then Inr (Some (take (Suc 2) [104, 105, 10, 33] @ 0 # drop (2 + 2) [1, 1, 1, 1, 1]), drop (Suc 2) [104, 105, 10, 33])
      else Inl OutOfBounds)"
    by (rule get_string_result) (simp_all only: 1, simp_all)
  moreover have "SynchGetString [104, 105, 33] (Some [1, 1]) 2 =
     (if (1::nat) < nat 2 - 1 then Inr (Some (take (Suc 1) [104, 105, 33] @ 0 # drop (1 + 2) [1, 1]), drop (Suc 1) [104, 105, 33]) else Inl OutOfBounds)"
    by (rule get_string_result) (simp_all only: 1, simp_all)
  ultimately show ?thesis by simp
qed

text \<open>
  An integer printed by \<^verbatim>\<open>PutInt\<close> and typed back as a line is what \<^verbatim>\<open>GetInt\<close> reads, and the rest of the
  input is left for the next call, for every 32-bit integer.
\<close>

lemma digits_length: "n < 10 ^ Suc k \<Longrightarrow> length (digits n) \<le> Suc k"
proof (induction k arbitrary: n)
  case (Suc k)
  show ?case
  proof (cases "n < 10")
    case False
    then have "n div 10 < 10 ^ Suc k" using Suc.prems by (simp add: div_less_iff_less_mult)
    then show ?thesis using Suc.IH False by (simp add: digits.simps [of n])
  qed (simp add: digits.simps [of n])
qed (simp add: digits.simps)

lemma show_int_length: "int32_ok i \<Longrightarrow> length (show_int i) \<le> 11"
proof -
  assume "int32_ok i"
  then have "nat i < 10 ^ Suc 9" "nat (- i) < 10 ^ Suc 9" by (auto simp: int32_ok_def nat_less_iff)
  from this [THEN digits_length] show ?thesis by (simp add: show_int_def)
qed

lemma put_int_text:
  assumes "int32_ok i"
  shows "put_text (SynchPutInt i) = show_int i"
proof -
  have "0 \<notin> set (show_int i)" using show_int_chars [of 0 i] by (auto simp: stops_def)
  then have "cstr (show_int i) = show_int i" by (simp add: cstr_def takeWhile_eq_all_conv) metis
  then show ?thesis using show_int_length [OF assms] by (simp add: SynchPutInt_def)
qed

theorem put_get_int:
  assumes "int32_ok i" "length buf = 4096"
  shows "SynchGetInt buf (put_text (SynchPutInt i) @ 10 # rest) old = Inr (i, rest)"
proof -
  let ?t = "show_int i" and ?cs = "show_int i @ 10 # rest"
  have "takeWhile (\<lambda>c. \<not> stops c) (take 4095 ?cs) = ?t"
  proof -
    obtain r where r: "take 4095 ?cs = ?t @ 10 # r" using show_int_length [OF assms(1)] by (cases "4095 - length ?t") auto
    have "stops 10" by (simp add: stops_def)
    then show ?thesis unfolding r by (simp add: takeWhile_append2 show_int_chars)
  qed
  then have m: "line_length 4095 ?cs = length ?t" by (simp add: line_length_def)
  have g: "get_string ?cs 4096 buf (int 0) = Inr (?t @ 10 # 0 # drop (length ?t + 2) buf, rest)"
    using get_string_spec [of 0 4096 buf "length ?t" ?cs] assms(2) m show_int_length [OF assms(1)] by simp
  have "0 \<notin> set (?t @ [10])" using show_int_chars [of 0 i] by (auto simp: stops_def)
  then have "cstr (?t @ 10 # 0 # drop (length ?t + 2) buf) = ?t @ [10]" using cstr_self [of "?t @ [10]"] by simp
  then show ?thesis using g scan_show_int [OF assms(1), of "[10]"] put_int_text [OF assms(1)]
    by (simp add: SynchGetInt_def SynchGetString_def)
qed

theorem put_get_int_witness: "SynchGetInt (replicate 4096 7) (put_text (SynchPutInt (-42)) @ [10]) 5 = Inr (-42, [])"
  by (rule put_get_int) (simp_all add: int32_ok_def)


text \<open>
  C31 (roundtrip): a string that the kernel copies into the memory of a program, and that it then copies out again, comes
  back; strings longer than \<open>size - 1\<close> bytes are cut there. Nothing but the bytes of the string and its NUL changes in
  the memory of the program, and no frame of anybody else.
\<close>

theorem copy_string_roundtrip:
  assumes "tlb m = None" "table_good pt" "0 < sz" "unat sz - 1 \<le> length src \<or> 0 \<in> set src" "unat sz \<le> length buf"
    and "str = cstr (take (unat sz - 1) src)" "va + length str < PageSize * length pt"
  shows "\<exists>pt1 mem1 pt2 buf'. CopyStringToMachine eh src (of_nat va) sz (with_table pt mem m) = Inr (with_table pt1 mem1 m)
     \<and> CopyStringFromMachine eh (of_nat va) buf sz (with_table pt1 mem1 m) = Inr (buf', with_table pt2 mem1 m)
     \<and> cstr buf' = str \<and> same_map pt pt1 \<and> same_map pt1 pt2 \<and> outside_kept pt mem mem1
     \<and> (\<forall>x<PageSize * length pt. vmem pt mem1 x = stored_at va (str @ [0]) (vmem pt mem) x)"
proof -
  let ?k = "unat sz - 1"
  obtain pt1 mem1 where 1: "CopyStringToMachine eh src (of_nat va) sz (with_table pt mem m) = Inr (with_table pt1 mem1 m)"
      "same_map pt pt1" "outside_kept pt mem mem1" "\<forall>x<PageSize * length pt. vmem pt mem1 x = stored_at va (str @ [0]) (vmem pt mem) x"
    using CopyStringTo_ok [OF assms(1-4), of va eh mem] assms(6,7) by blast
  have g: "table_good pt1" and l: "length pt1 = length pt" by (rule same_map_good [OF 1(2) assms(2)], rule same_map_length [OF 1(2)])
  have v: "vmem pt1 mem1 x = stored_at va (str @ [0]) (vmem pt mem) x" if "x < PageSize * length pt" for x
    using 1(4) that same_map_vmem [OF 1(2) that] by simp
  have lk: "length str \<le> ?k"
    unfolding assms(6) cstr_def using length_takeWhile_le [of _ "take ?k src"] by (rule order_trans) simp
  have "user_string pt1 mem1 va ?k = str"
  proof -
    let ?f = "vmem pt1 mem1"
    have pre: "map ?f [va..<va + length str] = str"
      by (rule nth_equalityI) (use assms(7) in \<open>simp_all add: v stored_at_def nth_append\<close>)
    have nul: "?f (va + length str) = 0" using v [OF assms(7)] by (simp add: stored_at_def nth_append)
    have nz: "0 \<notin> set str" unfolding assms(6) by (rule zero_notin_cstr)
    show ?thesis
    proof (cases "length str < ?k")
      case True
      then have "[va..<va + ?k] = [va..<va + length str] @ (va + length str) # [Suc (va + length str)..<va + ?k]"
        using upt_add_eq_append [of va "va + length str" "?k - length str"] by (simp add: upt_conv_Cons)
      then have "map ?f [va..<va + ?k] = str @ 0 # map ?f [Suc (va + length str)..<va + ?k]" using pre nul by simp
      then show ?thesis unfolding user_string_def using cstr_self [OF nz] by simp
    next
      case False
      then show ?thesis using lk pre nz by (simp add: user_string_def cstr_def takeWhile_eq_all_conv) metis
    qed
  qed
  moreover have "va + min ?k (length str + 1) \<le> PageSize * length pt1" using assms(7) l by simp
  ultimately obtain pt2 buf' where "CopyStringFromMachine eh (of_nat va) buf sz (with_table pt1 mem1 m) = Inr (buf', with_table pt2 mem1 m)"
      "same_map pt1 pt2" "cstr buf' = str"
    using CopyStringFrom_ok [OF assms(1) g assms(3,5), of va mem1 eh] by auto
  then show ?thesis using 1 by blast
qed

theorem copy_string_roundtrip_witness:
  "\<exists>m1 m2 buf'. CopyStringToMachine (\<lambda>_ m. Inr m) [72, 105, 0] 5 3 (with_table [demo_entry] (\<lambda>_. 9) demo_machine) = Inr m1
     \<and> CopyStringFromMachine (\<lambda>_ m. Inr m) 5 [1, 1, 1] 3 m1 = Inr (buf', m2) \<and> cstr buf' = [72, 105]"
proof -
  have "table_good [demo_entry]" by (simp add: table_good_def table_frames_def demo_entry_def)
  moreover have "tlb demo_machine = None" by (simp add: demo_machine_def)
  ultimately show ?thesis
    using copy_string_roundtrip [of demo_machine "[demo_entry]" 3 "[72, 105, 0]" "[1, 1, 1]" "[72, 105]" 5 "\<lambda>_ m. Inr m" "\<lambda>_. 9"] by auto
qed

end
