(* ===== verification/SynchList.thy ===== *)
theory SynchList
  imports NachList CondVar
begin

text \<open>
  \<^verbatim>\<open>threads/synchlist.cc\<close>: a list under a lock, with a condition on which \<^verbatim>\<open>Remove\<close> waits while the list is empty. The
  list is the linked list of theory NachList. The lock is represented by its owner, and the condition by the number
  of wake-ups that were signalled and not yet taken: theories Synch and CondVar show that the kernel's locks exclude
  each other and that there are never more wake-ups than threads waiting. A thread that is woken acquires the lock
  again before it goes on.
\<close>

section \<open>Steps\<close>

text \<open>
  Program points: before \<^verbatim>\<open>Acquire\<close> of \<^verbatim>\<open>Append\<close>, before \<^verbatim>\<open>list->Append\<close> and before \<^verbatim>\<open>Signal\<close>; before \<^verbatim>\<open>Acquire\<close> of \<^verbatim>\<open>Remove\<close>, at
  the test of its loop, in \<^verbatim>\<open>Wait\<close>, and woken; before \<^verbatim>\<open>Acquire\<close> of \<^verbatim>\<open>Mapcar\<close> and before \<^verbatim>\<open>list->Mapcar\<close>; before \<^verbatim>\<open>Release\<close>.
\<close>

datatype 'a sl_pc = LFree | LAppend "'a option" | LPut "'a option" | LSignal
  | LRemove | LTest | LWaiting | LWoken | LMapcar | LApply | LRelease

record 'a synchlist =
  sl_list :: "'a List_obj"
  sl_owner :: "thread option"
  sl_wakeups :: nat
  sl_pc :: "thread \<Rightarrow> 'a sl_pc"
  appended :: "'a option list"
  removed :: "'a option list"

definition SynchList_new :: "'a elt_heap \<Rightarrow> 'a synchlist" where
  "SynchList_new h = \<lparr>sl_list = List_new h, sl_owner = None, sl_wakeups = 0, sl_pc = (\<lambda>_. LFree), appended = [], removed = []\<rparr>"

fun sl_waiting :: "'a sl_pc \<Rightarrow> bool" where
  "sl_waiting LWaiting = True"
| "sl_waiting _ = False"

definition sl_move :: "thread \<Rightarrow> 'a sl_pc \<Rightarrow> thread option \<Rightarrow> 'a synchlist \<Rightarrow> 'a synchlist" where
  "sl_move t p ow c = c\<lparr>sl_pc := (sl_pc c)(t := p), sl_owner := ow\<rparr>"

text \<open>\<open>signal\<close>: one of the waiting threads that has no wake-up yet gets one, if there is such a thread.\<close>

definition signal :: "'a synchlist \<Rightarrow> nat" where
  "signal c = (if sl_wakeups c < cnt sl_waiting (sl_pc c) then sl_wakeups c + 1 else sl_wakeups c)"

inductive sl_step :: "'a synchlist \<Rightarrow> 'a synchlist \<Rightarrow> bool" where
  call: "sl_pc c t = LFree \<Longrightarrow> p \<in> {LAppend x, LRemove, LMapcar} \<Longrightarrow> sl_step c (sl_move t p (sl_owner c) c)"
| acquire: "(sl_pc c t, q) \<in> {(LAppend x, LPut x), (LRemove, LTest), (LWoken, LTest), (LMapcar, LApply)} \<Longrightarrow> sl_owner c = None \<Longrightarrow>
     sl_step c (sl_move t q (Some t) c)"
| Append_put: "sl_pc c t = LPut x \<Longrightarrow> lheap (sl_list c) a = None \<Longrightarrow> List_Append a x (sl_list c) = Inr l \<Longrightarrow>
     sl_step c (sl_move t LSignal (sl_owner c) (c\<lparr>sl_list := l, appended := appended c @ [x]\<rparr>))"
| Append_signal: "sl_pc c t = LSignal \<Longrightarrow> sl_step c (sl_move t LRelease (sl_owner c) (c\<lparr>sl_wakeups := signal c\<rparr>))"
| Remove_wait: "sl_pc c t = LTest \<Longrightarrow> List_IsEmpty (sl_list c) \<Longrightarrow> sl_step c (sl_move t LWaiting None c)"
| Remove_wake: "sl_pc c t = LWaiting \<Longrightarrow> 0 < sl_wakeups c \<Longrightarrow>
     sl_step c (sl_move t LWoken (sl_owner c) (c\<lparr>sl_wakeups := sl_wakeups c - 1\<rparr>))"
| Remove_take: "sl_pc c t = LTest \<Longrightarrow> \<not> List_IsEmpty (sl_list c) \<Longrightarrow> List_Remove (sl_list c) = Inr (item, l) \<Longrightarrow>
     ASSERT (item \<noteq> None) = Inr () \<Longrightarrow>
     sl_step c (sl_move t LRelease (sl_owner c) (c\<lparr>sl_list := l, removed := removed c @ [item]\<rparr>))"
| Mapcar: "sl_pc c t = LApply \<Longrightarrow> List_Mapcar n (sl_list c) = Inr items \<Longrightarrow> sl_step c (sl_move t LRelease (sl_owner c) c)"
| release: "sl_pc c t = LRelease \<Longrightarrow> sl_step c (sl_move t LFree None c)"

section \<open>Invariant\<close>

text \<open>\<open>holds\<close>: inside the lock; \<open>active\<close>: will take an item or signal a waiting thread.\<close>

fun sl_holds :: "'a sl_pc \<Rightarrow> bool" where
  "sl_holds (LPut _) = True" | "sl_holds LSignal = True" | "sl_holds LTest = True" | "sl_holds LApply = True" | "sl_holds LRelease = True"
| "sl_holds _ = False"

fun sl_active :: "'a sl_pc \<Rightarrow> bool" where
  "sl_active LSignal = True" | "sl_active LTest = True" | "sl_active LWoken = True"
| "sl_active _ = False"

definition sl_inv :: "'a synchlist \<Rightarrow> (int \<times> 'a option) list \<Rightarrow> bool" where
  "sl_inv c xs \<longleftrightarrow> fin_pc LFree (sl_pc c) \<and> at sl_holds (sl_pc c) = set_option (sl_owner c)
     \<and> list_rep (sl_list c) xs \<and> appended c = removed c @ map snd xs
     \<and> int (sl_wakeups c) \<le> int (cnt sl_waiting (sl_pc c))
     \<and> (int (sl_wakeups c) < int (cnt sl_waiting (sl_pc c)) \<longrightarrow>
          int (length xs) \<le> int (sl_wakeups c) + int (cnt sl_active (sl_pc c)))"

lemma sl_move_simps [simp]:
  "sl_list (sl_move t p ow c) = sl_list c" "sl_wakeups (sl_move t p ow c) = sl_wakeups c" "appended (sl_move t p ow c) = appended c"
  "removed (sl_move t p ow c) = removed c" "sl_owner (sl_move t p ow c) = ow" "sl_pc (sl_move t p ow c) = (sl_pc c)(t := p)"
  by (simp_all add: sl_move_def)

lemmas sl_simps = sl_inv_def at_upd cnt_upd_int [where idle = LFree]

lemma list_rep_empty: "list_rep l xs \<Longrightarrow> List_IsEmpty l \<longleftrightarrow> xs = []"
  unfolding list_rep_def using list_cells_IsEmpty by fastforce

lemma sl_owner_at: "sl_inv c xs \<Longrightarrow> sl_holds (sl_pc c t) \<Longrightarrow> sl_owner c = Some t"
  using at_iff [of t sl_holds "sl_pc c"] by (auto simp: sl_inv_def)

lemma sl_not_owner: "sl_inv c xs \<Longrightarrow> \<not> sl_holds (sl_pc c t) \<Longrightarrow> set_option (sl_owner c) - {t} = set_option (sl_owner c)"
  using at_iff [of t sl_holds "sl_pc c"] by (auto simp: sl_inv_def)

lemma sl_inv_step:
  assumes "sl_step c c'" "sl_inv c xs"
  shows "\<exists>ys. sl_inv c' ys"
  using assms
proof (induction rule: sl_step.induct)
  case (call c t p x)
  have "set_option (sl_owner c) - {t} = set_option (sl_owner c)" using sl_not_owner [OF call.prems] call(1) by simp
  then show ?case using call(2) by (intro exI [of _ xs]) (elim insertE emptyE; use call(1) call.prems in \<open>simp add: sl_simps\<close>)
next
  case (acquire c t q x)
  show ?case using acquire(1)
    by (intro exI [of _ xs]) (elim insertE Pair_inject emptyE; use acquire(2) acquire.prems in \<open>auto simp: sl_simps\<close>)
next
  case (Append_put c t x a l)
  have o: "sl_owner c = Some t" using sl_owner_at [OF Append_put.prems] Append_put(1) by simp
  have "list_rep l (xs @ [(0, x)])"
    using nach_queue.append_rep [of "sl_list c" xs a x] Append_put by (auto simp: sl_inv_def)
  then show ?case using Append_put o by (intro exI [of _ "xs @ [(0, x)]"]) (simp add: sl_simps)
next
  case (Append_signal c t)
  have o: "sl_owner c = Some t" using sl_owner_at [OF Append_signal.prems] Append_signal(1) by simp
  show ?case using Append_signal o by (intro exI [of _ xs]) (simp add: sl_simps signal_def)
next
  case (Remove_wait c t)
  have o: "sl_owner c = Some t" using sl_owner_at [OF Remove_wait.prems] Remove_wait(1) by simp
  have "xs = []" using Remove_wait list_rep_empty by (auto simp: sl_inv_def)
  moreover have "0 < cnt sl_active (sl_pc c)" using Remove_wait cnt_member [of LFree "sl_pc c" sl_active t] by (simp add: sl_inv_def)
  ultimately show ?case using Remove_wait o by (intro exI [of _ xs]) (simp add: sl_simps)
next
  case (Remove_wake c t)
  have "set_option (sl_owner c) - {t} = set_option (sl_owner c)" using sl_not_owner [OF Remove_wake.prems] Remove_wake(1) by simp
  then show ?case using Remove_wake by (intro exI [of _ xs]) (simp add: sl_simps of_nat_diff)
next
  case (Remove_take c t item l)
  have o: "sl_owner c = Some t" using sl_owner_at [OF Remove_take.prems] Remove_take(1) by simp
  obtain kx ys where xs: "xs = kx # ys" using Remove_take list_rep_empty by (cases xs) (auto simp: sl_inv_def)
  have "list_rep l ys \<and> item = snd kx"
    using nach_queue.remove_rep [of "sl_list c" kx ys] Remove_take xs by (auto simp: sl_inv_def)
  then show ?case using Remove_take o xs by (intro exI [of _ ys]) (auto simp: sl_simps)
next
  case (Mapcar c t n items)
  have o: "sl_owner c = Some t" using sl_owner_at [OF Mapcar.prems] Mapcar(1) by simp
  then show ?case using Mapcar by (intro exI [of _ xs]) (simp add: sl_simps)
next
  case (release c t)
  have o: "sl_owner c = Some t" using sl_owner_at [OF release.prems] release(1) by simp
  then show ?case using release by (intro exI [of _ xs]) (simp add: sl_simps)
qed

lemma sl_inv_reachable: "sl_step\<^sup>*\<^sup>* (SynchList_new h) c \<Longrightarrow> \<exists>xs. sl_inv c xs"
proof (induction rule: rtranclp_induct)
  case base
  then show ?case by (intro exI [of _ "[]"]) (auto simp: SynchList_new_def sl_inv_def list_rep_new at_def)
next
  case (step y z)
  then show ?case using sl_inv_step by blast
qed


section \<open>Properties\<close>

text \<open>
  C20 (liveness): a synchronised list between any producers and consumers, in every interleaving. It is a queue: what was
  removed, followed by what is in the linked list, is what was appended, in that order, so nothing is lost or
  delivered twice. At most one thread is inside. \<^verbatim>\<open>Remove\<close> never returns NULL unless NULL was appended. And no consumer is
  left behind: while the list holds an item and a thread waits for one, a wake-up is on its way to a waiting thread or some other
  thread is about to take an item or to signal.
\<close>

theorem synchlist_queue:
  assumes "sl_step\<^sup>*\<^sup>* (SynchList_new h) c"
  shows "\<exists>xs. list_rep (sl_list c) xs \<and> appended c = removed c @ map snd xs
     \<and> (\<forall>t u. sl_holds (sl_pc c t) \<and> sl_holds (sl_pc c u) \<longrightarrow> t = u)
     \<and> (None \<notin> set (appended c) \<longrightarrow> xs \<noteq> [] \<longrightarrow> (\<exists>item l. List_Remove (sl_list c) = Inr (Some item, l)))
     \<and> (xs \<noteq> [] \<longrightarrow> (\<exists>t. sl_pc c t = LWaiting) \<longrightarrow> 0 < sl_wakeups c \<or> (\<exists>u. sl_active (sl_pc c u)))"
proof -
  obtain xs where i: "sl_inv c xs" using sl_inv_reachable [OF assms] by blast
  show ?thesis
  proof (intro exI [of _ xs] conjI allI impI)
    show "list_rep (sl_list c) xs" "appended c = removed c @ map snd xs" using i by (simp_all add: sl_inv_def)
    show "t = u" if "sl_holds (sl_pc c t) \<and> sl_holds (sl_pc c u)" for t u
      using sl_owner_at [OF i, of t] sl_owner_at [OF i, of u] that by simp
    show "\<exists>item l. List_Remove (sl_list c) = Inr (Some item, l)" if ne: "None \<notin> set (appended c)" "xs \<noteq> []"
    proof -
      obtain kx ys where xs: "xs = kx # ys" using ne(2) by (cases xs) auto
      then have "snd kx \<noteq> None" using ne(1) i by (auto simp: sl_inv_def)
      then show ?thesis using nach_queue.remove_rep [of "sl_list c" kx ys] i xs by (auto simp: sl_inv_def)
    qed
    show "0 < sl_wakeups c \<or> (\<exists>u. sl_active (sl_pc c u))" if w: "xs \<noteq> []" "\<exists>t. sl_pc c t = LWaiting"
    proof -
      obtain t where "sl_pc c t = LWaiting" using w(2) by blast
      then have "0 < cnt sl_waiting (sl_pc c)" using i cnt_member [of LFree "sl_pc c" sl_waiting t] by (simp add: sl_inv_def)
      then have "sl_wakeups c = 0 \<Longrightarrow> 0 < cnt sl_active (sl_pc c)" using i w(1) by (cases xs) (auto simp: sl_inv_def)
      then show ?thesis using cnt_pos by blast
    qed
  qed
qed

theorem synchlist_queue_witness:
  "\<exists>c. sl_step\<^sup>*\<^sup>* (SynchList_new (\<lambda>_. None)) c \<and> sl_pc c 3 = LPut (Some (7 :: nat)) \<and> (\<exists>xs. list_rep (sl_list c) xs \<and> appended c = removed c @ map snd xs)"
proof -
  let ?c0 = "SynchList_new (\<lambda>_. None) :: nat synchlist"
  let ?c1 = "sl_move 3 (LAppend (Some 7)) None ?c0" and ?c2 = "sl_move 3 (LPut (Some 7)) (Some 3) (sl_move 3 (LAppend (Some 7)) None ?c0)"
  have "sl_step ?c0 ?c1" using sl_step.call [of ?c0 3 "LAppend (Some 7)" "Some 7"] by (simp add: SynchList_new_def)
  moreover have "sl_step ?c1 ?c2" by (rule sl_step.acquire [of _ _ _ "Some 7"]) (simp_all add: SynchList_new_def)
  ultimately have r: "sl_step\<^sup>*\<^sup>* ?c0 ?c2" by (meson converse_rtranclp_into_rtranclp r_into_rtranclp)
  have "sl_pc ?c2 3 = LPut (Some 7)" by simp
  then show ?thesis using r synchlist_queue [OF r] by blast
qed

text \<open>
  The synchronised list as its clients use it one call at a time: \<^verbatim>\<open>Append\<close> puts an item at the end, \<^verbatim>\<open>Remove\<close> takes
  the first one, and a thread that finds nothing waits.
\<close>

definition SynchList_Append :: "'a \<Rightarrow> 'a list \<Rightarrow> 'a list" where
  "SynchList_Append item l = l @ [item]"

definition SynchList_Remove :: "'a list \<Rightarrow> ('a \<times> 'a list) res" where
  "SynchList_Remove l = (case l of [] \<Rightarrow> Inl WouldBlock | item # rest \<Rightarrow> Inr (item, rest))"

end
