(* ===== verification/Network.thy ===== *)
theory Network
  imports ByteCodec Interrupt
begin

text \<open>
  The network device (\<^verbatim>\<open>machine/network.cc\<close>) on the datagram sockets of the host (\<^verbatim>\<open>machine/sysdep.cc\<close>): packets of a
  fixed size on the wire, a header in front of the data, one packet buffered on the receiving side. A packet may be
  dropped on purpose, by a draw of the pseudo-random generator, but is not altered.
\<close>

section \<open>Packets\<close>

abbreviation (input) NetworkTime :: int where "NetworkTime \<equiv> 100"
abbreviation (input) MaxWireSize :: nat where "MaxWireSize \<equiv> 64"
abbreviation (input) HeaderSize :: nat where "HeaderSize \<equiv> 12"
abbreviation (input) MaxPacketSize :: nat where "MaxPacketSize \<equiv> 52"

record PacketHeader =
  pkt_to :: int
  pkt_from :: int
  pkt_length :: nat

text \<open>The header as the cast to \<^verbatim>\<open>PacketHeader *\<close> lays it out: two \<^verbatim>\<open>int\<close>s and an \<^verbatim>\<open>unsigned\<close>.\<close>

definition enc_packet :: "PacketHeader \<Rightarrow> byte list" where
  "enc_packet h = enc_int (pkt_to h) @ enc_int (pkt_from h) @ enc_word (of_nat (pkt_length h))"

definition dec_packet :: "byte list \<Rightarrow> PacketHeader" where
  "dec_packet bs = \<lparr>pkt_to = dec_int (take 4 bs), pkt_from = dec_int (take 4 (drop 4 bs)),
     pkt_length = unat (dec_word (take 4 (drop 8 bs)))\<rparr>"

definition packet_fits :: "PacketHeader \<Rightarrow> bool" where
  "packet_fits h \<longleftrightarrow> int32_ok (pkt_to h) \<and> int32_ok (pkt_from h) \<and> pkt_length h < 2 ^ 32"

lemma length_enc_int32 [simp]: "length (enc_int x) = 4" and length_enc_word [simp]: "length (enc_word w) = 4"
  by (simp_all add: enc_int_def enc_word_def)

lemma unat_of_nat32: "n < 2 ^ 32 \<Longrightarrow> unat (of_nat n :: 32 word) = n"
  by (simp add: unat_of_nat)

lemmas field_codec = int_codec.dec_enc dec_enc_word unat_of_nat32

interpretation packet_codec: byte_codec HeaderSize enc_packet dec_packet packet_fits
  by unfold_locales (auto simp: enc_packet_def dec_packet_def packet_fits_def field_codec)

text \<open>The header is read from the front of a longer buffer.\<close>

lemma dec_packet_front: "packet_fits h \<Longrightarrow> dec_packet (enc_packet h @ rest) = h"
  using packet_codec.dec_enc [of h] by (simp add: dec_packet_def enc_packet_def)

lemma length_enc_packet [simp]: "length (enc_packet h) = HeaderSize"
  by (simp add: enc_packet_def)

section \<open>The device\<close>

text \<open>
  \<open>sock\<close> are the datagrams that wait in the socket of this machine; \<open>nsched\<close> the interrupts of the device that are
  scheduled, each \<open>NetworkTime\<close> ahead of the call that schedules it. The \<^verbatim>\<open>double\<close> \<^verbatim>\<open>chanceToWork\<close> is only compared, times
  100, with an integer: it is kept as a percentage, rounded up.
\<close>

record Network =
  ident :: int
  chanceToWork :: int
  sock :: "byte list list"
  sendBusy :: bool
  inHdr :: PacketHeader
  inbox :: "byte list"
  nsched :: "IntType list"
  packetsSent :: int
  packetsRecvd :: int

text \<open>The constructor: \<open>hdr\<close> and \<open>buf\<close> are what the memory of the object holds; only the length of the header is reset.\<close>

definition Network_new :: "PacketHeader \<Rightarrow> byte list \<Rightarrow> int \<Rightarrow> int \<Rightarrow> Network" where
  "Network_new hdr buf addr reliability =
     \<lparr>ident = addr,
      chanceToWork = (if reliability < 0 then 0 else if reliability > 100 then 100 else reliability),
      sock = [], sendBusy = False, inHdr = hdr\<lparr>pkt_length := 0\<rparr>, inbox = buf, nsched = [NetworkRecvInt],
      packetsSent = 0, packetsRecvd = 0\<rparr>"

text \<open>
  \<^verbatim>\<open>CheckPktAvail\<close>, when its interrupt occurs: it schedules the next poll, and reads a datagram if none is buffered.
  The result tells whether the handler (\<^verbatim>\<open>IncomingPacket\<close> of the post office) is called. \<^verbatim>\<open>ReadFromSocket\<close> aborts unless it gets
  \<open>MaxWireSize\<close> bytes.
\<close>

definition CheckPktAvail :: "Network \<Rightarrow> (bool \<times> Network) res" where
  "CheckPktAvail n =
     (let n1 = n\<lparr>nsched := remove1 NetworkRecvInt (nsched n) @ [NetworkRecvInt]\<rparr> in
      if pkt_length (inHdr n) \<noteq> 0 then Inr (False, n1)
      else case sock n of
          [] \<Rightarrow> Inr (False, n1)
        | buffer # rest \<Rightarrow>
            bindR (ASSERT (length buffer = MaxWireSize)) (\<lambda>_.
            let h = dec_packet buffer in
            bindR (ASSERT (pkt_to h = ident n \<and> pkt_length h \<le> MaxPacketSize)) (\<lambda>_.
            Inr (True, n1\<lparr>sock := rest, inHdr := h,
                          inbox := take (pkt_length h) (drop HeaderSize buffer) @ drop (pkt_length h) (inbox n),
                          packetsRecvd := packetsRecvd n + 1\<rparr>))))"

definition SendDone :: "Network \<Rightarrow> Network" where
  "SendDone n = n\<lparr>nsched := remove1 NetworkSendInt (nsched n), sendBusy := False, packetsSent := packetsSent n + 1\<rparr>"

text \<open>
  \<^verbatim>\<open>Send\<close>: the datagram for the socket of the machine \<open>pkt_to\<close>, unless the packet is dropped. \<open>r\<close> is the value that
  \<^verbatim>\<open>Random()\<close> returns and \<open>junk\<close> what the fresh buffer holds behind the data. The code tests \<^verbatim>\<open>sendBusy\<close> but never sets it.
\<close>

definition Network_Send :: "nat \<Rightarrow> byte list \<Rightarrow> PacketHeader \<Rightarrow> byte list \<Rightarrow> Network \<Rightarrow> ((int \<times> byte list) option \<times> Network) res" where
  "Network_Send r junk hdr data n =
     bindR (ASSERT (\<not> sendBusy n \<and> pkt_length hdr > 0 \<and> pkt_length hdr \<le> MaxPacketSize \<and> pkt_from hdr = ident n)) (\<lambda>_.
     let n1 = n\<lparr>nsched := nsched n @ [NetworkSendInt]\<rparr> in
     if int (r mod 100) \<ge> chanceToWork n then Inr (None, n1)
     else if length data < pkt_length hdr then Inl OutOfBounds
     else Inr (Some (pkt_to hdr, enc_packet hdr @ take (pkt_length hdr) data @ drop (pkt_length hdr) junk), n1))"

text \<open>\<^verbatim>\<open>Receive\<close>: the header, and the caller's buffer with the data of the packet in front.\<close>

definition Network_Receive :: "byte list \<Rightarrow> Network \<Rightarrow> (PacketHeader \<times> byte list \<times> Network) res" where
  "Network_Receive data n =
     (let hdr = inHdr n; n1 = n\<lparr>inHdr := (inHdr n)\<lparr>pkt_length := 0\<rparr>\<rparr> in
      if pkt_length hdr \<noteq> 0
      then if length data < pkt_length hdr then Inl OutOfBounds
           else Inr (hdr, take (pkt_length hdr) (inbox n) @ drop (pkt_length hdr) data, n1)
      else Inr (hdr, data, n1))"

definition GetIdent :: "Network \<Rightarrow> int" where
  "GetIdent n = ident n"

text \<open>A network that is asked for full reliability drops nothing, one that is asked for none drops everything.\<close>

lemma reliability_extremes:
  "100 \<le> reliability \<Longrightarrow> chanceToWork (Network_new hdr buf addr reliability) = 100 \<and> \<not> int (r mod 100) \<ge> 100"
  "reliability \<le> 0 \<Longrightarrow> chanceToWork (Network_new hdr buf addr reliability) = 0 \<and> int (r mod 100) \<ge> 0"
  by (auto simp: Network_new_def)

end
