(* ===== verification/Post.thy ===== *)
theory Post
  imports Network SynchList
begin

text \<open>
  The post office (\<^verbatim>\<open>network/post.cc\<close>): mailboxes on top of the network device. A message is a packet whose data
  starts with a second header that names the mailbox; a postal worker thread takes the packets from the device and
  puts them into the boxes. What is shown, for any number of machines in any interleaving: every message
  that the network does not drop reaches the mailbox it is addressed to, unaltered, once, in the order of sending,
  and none of the checks of the receiving side fails.
\<close>

section \<open>Messages\<close>

abbreviation (input) MaxMailSize :: nat where "MaxMailSize \<equiv> 40"

record MailHeader =
  mail_to :: int
  mail_from :: int
  mail_length :: nat

definition enc_mail :: "MailHeader \<Rightarrow> byte list" where
  "enc_mail h = enc_int (mail_to h) @ enc_int (mail_from h) @ enc_word (of_nat (mail_length h))"

definition dec_mail :: "byte list \<Rightarrow> MailHeader" where
  "dec_mail bs = \<lparr>mail_to = dec_int (take 4 bs), mail_from = dec_int (take 4 (drop 4 bs)),
     mail_length = unat (dec_word (take 4 (drop 8 bs)))\<rparr>"

definition mail_fits :: "MailHeader \<Rightarrow> bool" where
  "mail_fits h \<longleftrightarrow> int32_ok (mail_to h) \<and> int32_ok (mail_from h) \<and> mail_length h < 2 ^ 32"

interpretation mail_codec: byte_codec HeaderSize enc_mail dec_mail mail_fits
  by unfold_locales (auto simp: enc_mail_def dec_mail_def mail_fits_def field_codec)

record Mail =
  pktHdr :: PacketHeader
  mailHdr :: MailHeader
  mail_data :: "byte list"

text \<open>\<open>mem\<close> is what the array of the new object holds.\<close>

definition Mail_new :: "byte list \<Rightarrow> PacketHeader \<Rightarrow> MailHeader \<Rightarrow> byte list \<Rightarrow> Mail res" where
  "Mail_new mem pktH mailH msgData =
     bindR (ASSERT (mail_length mailH \<le> MaxMailSize)) (\<lambda>_.
     if length msgData < mail_length mailH then Inl OutOfBounds
     else Inr \<lparr>pktHdr = pktH, mailHdr = mailH, mail_data = take (mail_length mailH) msgData @ drop (mail_length mailH) mem\<rparr>)"

section \<open>Mailboxes\<close>

text \<open>A mailbox is a synchronised list of messages; one call at a time, as theory SynchList allows.\<close>

definition MailBox_Put :: "byte list \<Rightarrow> PacketHeader \<Rightarrow> MailHeader \<Rightarrow> byte list \<Rightarrow> Mail list \<Rightarrow> Mail list res" where
  "MailBox_Put mem pkt mh data box = bindR (Mail_new mem pkt mh data) (\<lambda>mail. Inr (SynchList_Append mail box))"

definition MailBox_Get :: "byte list \<Rightarrow> Mail list \<Rightarrow> ((PacketHeader \<times> MailHeader \<times> byte list) \<times> Mail list) res" where
  "MailBox_Get data box =
     bindR (SynchList_Remove box) (\<lambda>(mail, rest).
     let len = mail_length (mailHdr mail) in
     if length data < len then Inl OutOfBounds
     else Inr ((pktHdr mail, mailHdr mail, take len (mail_data mail) @ drop len data), rest))"

section \<open>The post office\<close>

text \<open>\<open>worker_buffer\<close> is the buffer of \<^verbatim>\<open>PostalDelivery\<close>, which lives as long as its loop.\<close>

record PostOffice =
  network :: Network
  netAddr :: int
  boxes :: "Mail list list"
  numBoxes :: int
  messageAvailable :: Semaphore
  messageSent :: Semaphore
  worker_buffer :: "byte list"

definition PostOffice_new :: "PacketHeader \<Rightarrow> byte list \<Rightarrow> byte list \<Rightarrow> int \<Rightarrow> int \<Rightarrow> int \<Rightarrow> PostOffice" where
  "PostOffice_new hdr buf wbuf addr reliability nBoxes =
     \<lparr>network = Network_new hdr buf addr reliability, netAddr = addr, boxes = replicate (nat nBoxes) [], numBoxes = nBoxes,
      messageAvailable = Semaphore_new 0, messageSent = Semaphore_new 0, worker_buffer = wbuf\<rparr>"

definition IncomingPacket :: "PostOffice \<Rightarrow> PostOffice" where
  "IncomingPacket po = po\<lparr>messageAvailable := snd (Semaphore_V (messageAvailable po))\<rparr>"

definition PacketSent :: "PostOffice \<Rightarrow> PostOffice" where
  "PacketSent po = po\<lparr>messageSent := snd (Semaphore_V (messageSent po))\<rparr>"

text \<open>The receive interrupt of the device, with the handler it calls.\<close>

definition Poll :: "PostOffice \<Rightarrow> PostOffice res" where
  "Poll po =
     bindR (CheckPktAvail (network po)) (\<lambda>(avail, n).
     Inr (if avail then IncomingPacket (po\<lparr>network := n\<rparr>) else po\<lparr>network := n\<rparr>))"

text \<open>\<^verbatim>\<open>P\<close> by the one thread that waits on the semaphore.\<close>

definition P_alone :: "Semaphore \<Rightarrow> Semaphore res" where
  "P_alone s = (if svalue s = 0 then Inl WouldBlock else Inr (s\<lparr>svalue := svalue s - 1\<rparr>))"

text \<open>\<^verbatim>\<open>messageSent->P()\<close>: the send interrupt occurs, whose handler posts the semaphore.\<close>

definition wait_sent :: "PostOffice \<Rightarrow> PostOffice res" where
  "wait_sent po =
     (let po1 = (if NetworkSendInt \<in> set (nsched (network po)) then PacketSent (po\<lparr>network := SendDone (network po)\<rparr>) else po)
      in bindR (P_alone (messageSent po1)) (\<lambda>s. Inr (po1\<lparr>messageSent := s\<rparr>)))"

text \<open>
  \<^verbatim>\<open>Send\<close>, by the thread that holds \<^verbatim>\<open>sendLock\<close>. \<open>buf\<close> and \<open>junk\<close> are the contents of the two fresh buffers and \<open>r\<close> the draw of the
  pseudo-random generator; the datagram that goes out, if any, is returned with its destination.
\<close>

definition PostOffice_Send ::
  "nat \<Rightarrow> byte list \<Rightarrow> byte list \<Rightarrow> PacketHeader \<Rightarrow> MailHeader \<Rightarrow> byte list \<Rightarrow> PostOffice \<Rightarrow> ((int \<times> byte list) option \<times> PostOffice) res" where
  "PostOffice_Send r buf junk pkt mh data po =
     bindR (ASSERT (mail_length mh \<le> MaxMailSize)) (\<lambda>_.
     bindR (ASSERT (0 \<le> mail_to mh \<and> mail_to mh < numBoxes po)) (\<lambda>_.
     let len = mail_length mh; pkt1 = pkt\<lparr>pkt_from := netAddr po, pkt_length := len + HeaderSize\<rparr> in
     if length data < len then Inl OutOfBounds
     else
       bindR (Network_Send r junk pkt1 (enc_mail mh @ take len data @ drop (HeaderSize + len) buf) (network po)) (\<lambda>(d, n).
       bindR (wait_sent (po\<lparr>network := n\<rparr>)) (\<lambda>po1. Inr (d, po1)))))"

text \<open>One round of the loop of \<^verbatim>\<open>PostalDelivery\<close>.\<close>

definition PostalDelivery :: "byte list \<Rightarrow> PostOffice \<Rightarrow> PostOffice res" where
  "PostalDelivery mem po =
     bindR (P_alone (messageAvailable po)) (\<lambda>s.
     bindR (Network_Receive (worker_buffer po) (network po)) (\<lambda>(pkt, buffer, n).
     let mh = dec_mail buffer in
     bindR (ASSERT (0 \<le> mail_to mh \<and> mail_to mh < numBoxes po)) (\<lambda>_.
     bindR (ASSERT (mail_length mh \<le> MaxMailSize)) (\<lambda>_.
     bindR (arr_get (boxes po) (mail_to mh)) (\<lambda>box.
     bindR (MailBox_Put mem pkt mh (drop HeaderSize buffer) box) (\<lambda>box1.
     bindR (arr_set (boxes po) (mail_to mh) box1) (\<lambda>bs.
     Inr (po\<lparr>messageAvailable := s, network := n, worker_buffer := buffer, boxes := bs\<rparr>))))))))"

definition PostOffice_Receive :: "int \<Rightarrow> byte list \<Rightarrow> PostOffice \<Rightarrow> ((PacketHeader \<times> MailHeader \<times> byte list) \<times> PostOffice) res" where
  "PostOffice_Receive box data po =
     bindR (ASSERT (box \<ge> 0 \<and> box < numBoxes po)) (\<lambda>_.
     bindR (arr_get (boxes po) box) (\<lambda>l.
     bindR (MailBox_Get data l) (\<lambda>((pkt, mh, buf), l1).
     bindR (arr_set (boxes po) box l1) (\<lambda>bs.
     bindR (ASSERT (mail_length mh \<le> MaxMailSize)) (\<lambda>_.
     Inr ((pkt, mh, buf), po\<lparr>boxes := bs\<rparr>))))))"


section \<open>What is on its way\<close>

type_synonym message = "PacketHeader \<times> MailHeader \<times> byte list"

text \<open>The message in a packet, and in a box: the headers and as many bytes of data as the mail header says.\<close>

definition packet_msg :: "PacketHeader \<times> byte list \<Rightarrow> message" where
  "packet_msg hp = (fst hp, dec_mail (snd hp), take (mail_length (dec_mail (snd hp))) (drop HeaderSize (snd hp)))"

definition mail_msg :: "Mail \<Rightarrow> message" where
  "mail_msg m = (pktHdr m, mailHdr m, take (mail_length (mailHdr m)) (mail_data m))"

text \<open>The packets that have reached a machine and are not yet delivered: the one in the device, then those in the socket.\<close>

definition arrived :: "Network \<Rightarrow> (PacketHeader \<times> byte list) list" where
  "arrived n = (if pkt_length (inHdr n) = 0 then [] else [(inHdr n, inbox n)])
     @ map (\<lambda>d. (dec_packet d, drop HeaderSize d)) (sock n)"

text \<open>A packet that a post office with \<open>N\<close> boxes sent to the machine \<open>b\<close>.\<close>

definition good_packet :: "int \<Rightarrow> int \<Rightarrow> PacketHeader \<times> byte list \<Rightarrow> bool" where
  "good_packet b N hp \<longleftrightarrow> pkt_to (fst hp) = b \<and> length (snd hp) = MaxPacketSize
     \<and> pkt_length (fst hp) = mail_length (dec_mail (snd hp)) + HeaderSize \<and> mail_length (dec_mail (snd hp)) \<le> MaxMailSize
     \<and> 0 \<le> mail_to (dec_mail (snd hp)) \<and> mail_to (dec_mail (snd hp)) < N"

definition good_mail :: "Mail \<Rightarrow> bool" where
  "good_mail m \<longleftrightarrow> mail_length (mailHdr m) \<le> MaxMailSize \<and> length (mail_data m) = MaxMailSize"

definition office_ok :: "int \<Rightarrow> int \<Rightarrow> PostOffice \<Rightarrow> bool" where
  "office_ok b N po \<longleftrightarrow> ident (network po) = b \<and> netAddr po = b \<and> int32_ok b \<and> numBoxes po = N \<and> length (boxes po) = nat N
     \<and> \<not> sendBusy (network po) \<and> length (inbox (network po)) = MaxPacketSize \<and> length (worker_buffer po) = MaxPacketSize
     \<and> messageAvailable po = Semaphore_new (of_bool (pkt_length (inHdr (network po)) \<noteq> 0)) \<and> messageSent po = Semaphore_new 0
     \<and> (\<forall>d\<in>set (sock (network po)). length d = MaxWireSize)
     \<and> (\<forall>hp\<in>set (arrived (network po)). good_packet b N hp)
     \<and> (\<forall>box\<in>set (boxes po). \<forall>m\<in>set box. good_mail m)"

text \<open>Only the bytes the header counts matter.\<close>

lemma dec_mail_prefix: "take HeaderSize p = take HeaderSize q \<Longrightarrow> dec_mail p = dec_mail q"
proof -
  assume e: "take 12 p = take 12 q"
  have "take 4 p = take 4 q" "take 4 (drop 4 p) = take 4 (drop 4 q)" "take 4 (drop 8 p) = take 4 (drop 8 q)"
    using arg_cong [OF e, of "take 4"] arg_cong [OF e, of "\<lambda>x. take 4 (drop 4 x)"] arg_cong [OF e, of "\<lambda>x. take 4 (drop 8 x)"]
    by (simp_all add: drop_take min_def)
  then show ?thesis by (simp add: dec_mail_def)
qed

lemma packet_msg_prefix:
  assumes "good_packet b N (h, p)" "take (pkt_length h) q = take (pkt_length h) p" "length q = MaxPacketSize"
  shows "packet_msg (h, q) = packet_msg (h, p) \<and> good_packet b N (h, q)"
proof -
  have l: "pkt_length h = mail_length (dec_mail p) + 12" using assms(1) by (simp add: good_packet_def)
  have "take 12 q = take 12 p" using arg_cong [OF assms(2), of "take 12"] l by (simp add: min_def)
  then have d: "dec_mail q = dec_mail p" by (rule dec_mail_prefix)
  have "take (mail_length (dec_mail p)) (drop 12 q) = take (mail_length (dec_mail p)) (drop 12 p)"
    using arg_cong [OF assms(2), of "drop 12"] l by (simp add: drop_take)
  then show ?thesis using assms d by (simp add: packet_msg_def good_packet_def)
qed

section \<open>The operations on a post office in order\<close>

lemma Poll_ok:
  assumes "office_ok b N po"
  shows "\<exists>po'. Poll po = Inr po' \<and> office_ok b N po' \<and> boxes po' = boxes po
     \<and> map packet_msg (arrived (network po')) = map packet_msg (arrived (network po))"
proof (cases "pkt_length (inHdr (network po)) = 0 \<and> sock (network po) \<noteq> []")
  case False
  then have "CheckPktAvail (network po) = Inr (False, (network po)\<lparr>nsched := remove1 NetworkRecvInt (nsched (network po)) @ [NetworkRecvInt]\<rparr>)"
    by (auto simp: CheckPktAvail_def Let_def split: list.splits)
  then show ?thesis using assms by (simp add: Poll_def office_ok_def arrived_def)
next
  case True
  then obtain d rest where d: "sock (network po) = d # rest" by (cases "sock (network po)") auto
  let ?n = "network po" and ?h = "dec_packet d" and ?p = "drop 12 d"
  have g: "good_packet b N (?h, ?p)" "length d = 64" "length (inbox ?n) = 52" using assms True d by (auto simp: office_ok_def arrived_def)
  let ?q = "take (pkt_length ?h) ?p @ drop (pkt_length ?h) (inbox ?n)"
  have l: "pkt_length ?h \<noteq> 0" "pkt_length ?h \<le> 52" "pkt_to ?h = b" using g(1) by (auto simp: good_packet_def)
  have q: "take (pkt_length ?h) ?q = take (pkt_length ?h) ?p" "length ?q = 52" using l(2) g(2,3) by simp_all
  note m = packet_msg_prefix [OF g(1) q]
  let ?n1 = "?n\<lparr>nsched := remove1 NetworkRecvInt (nsched ?n) @ [NetworkRecvInt], sock := rest, inHdr := ?h, inbox := ?q, packetsRecvd := packetsRecvd ?n + 1\<rparr>"
  have c: "CheckPktAvail ?n = Inr (True, ?n1)"
    using True d g(2) l assms by (simp add: CheckPktAvail_def Let_def office_ok_def)
  have a: "arrived ?n1 = (?h, ?q) # map (\<lambda>d. (dec_packet d, drop 12 d)) rest" "arrived ?n = (?h, ?p) # map (\<lambda>d. (dec_packet d, drop 12 d)) rest"
    using True d l(1) by (simp_all add: arrived_def)
  have "Poll po = Inr (IncomingPacket (po\<lparr>network := ?n1\<rparr>))" using c by (simp add: Poll_def)
  moreover have "office_ok b N (IncomingPacket (po\<lparr>network := ?n1\<rparr>))"
    using assms True d l(1) a m q(2) by (simp add: office_ok_def IncomingPacket_def Semaphore_V_def Semaphore_new_def del: length_append)
  ultimately show ?thesis using m a by (intro exI [of _ "IncomingPacket (po\<lparr>network := ?n1\<rparr>)"]) (simp add: IncomingPacket_def)
qed


text \<open>The postal worker has something to do exactly when a packet is buffered, and puts it into its box.\<close>

lemma PostalDelivery_ok:
  assumes "office_ok b N po" "length mem = MaxMailSize"
  shows "if pkt_length (inHdr (network po)) = 0 then PostalDelivery mem po = Inl WouldBlock
     else \<exists>po' mail k. PostalDelivery mem po = Inr po' \<and> office_ok b N po' \<and> k = mail_to (mailHdr mail) \<and> 0 \<le> k \<and> k < N
       \<and> boxes po' = (boxes po)[nat k := boxes po ! nat k @ [mail]]
       \<and> map packet_msg (arrived (network po)) = mail_msg mail # map packet_msg (arrived (network po'))"
proof (cases "pkt_length (inHdr (network po)) = 0")
  case True
  then show ?thesis using assms(1) by (simp add: PostalDelivery_def P_alone_def office_ok_def Semaphore_new_def)
next
  case False
  let ?n = "network po" and ?h = "inHdr (network po)" and ?p = "inbox (network po)" and ?w = "worker_buffer po"
  let ?n1 = "?n\<lparr>inHdr := ?h\<lparr>pkt_length := 0\<rparr>\<rparr>"
  have g: "good_packet b N (?h, ?p)" "length ?p = 52" "length ?w = 52" using assms(1) False by (auto simp: office_ok_def arrived_def)
  define q where "q = take (pkt_length ?h) ?p @ drop (pkt_length ?h) ?w"
  have l: "pkt_length ?h \<le> 52" using g(1) by (auto simp: good_packet_def)
  have q: "take (pkt_length ?h) q = take (pkt_length ?h) ?p" "length q = 52" using l g(2,3) by (simp_all add: q_def)
  note m = packet_msg_prefix [OF g(1) q]
  define mh where "mh = dec_mail q"
  define k where "k = mail_to mh"
  have k: "0 \<le> k" "k < N" "mail_length mh \<le> 40" using m by (simp_all add: good_packet_def k_def mh_def)
  let ?mail = "\<lparr>pktHdr = ?h, mailHdr = mh, mail_data = take (mail_length mh) (drop 12 q) @ drop (mail_length mh) mem\<rparr>"
  let ?bs = "(boxes po)[nat k := boxes po ! nat k @ [?mail]]"
  let ?po = "po\<lparr>messageAvailable := Semaphore_new 0, network := ?n1, worker_buffer := q, boxes := ?bs\<rparr>"
  have r: "Network_Receive ?w ?n = Inr (?h, q, ?n1)" using False l g(3) by (simp add: Network_Receive_def q_def Let_def)
  have lb: "int (length (boxes po)) = N" "nat k < length (boxes po)" using assms(1) k(1,2) by (auto simp: office_ok_def)
  have lq: "mail_length mh \<le> length (drop 12 q)" using q(2) k(3) by simp
  have put: "MailBox_Put mem ?h mh (drop 12 q) (boxes po ! nat k) = Inr (boxes po ! nat k @ [?mail])"
    using k(3) lq by (simp add: MailBox_Put_def Mail_new_def SynchList_Append_def)
  have "PostalDelivery mem po = Inr ?po"
    using False assms(1) r put k lb
    by (simp add: PostalDelivery_def P_alone_def office_ok_def Semaphore_new_def mh_def [symmetric] k_def [symmetric])
  moreover have "arrived ?n = (?h, ?p) # arrived ?n1" using False by (simp add: arrived_def)
  moreover have "mail_msg ?mail = packet_msg (?h, q)" using lq by (simp add: mail_msg_def packet_msg_def mh_def [symmetric])
  then have "mail_msg ?mail = packet_msg (?h, ?p)" using m by simp
  moreover have "good_mail ?mail" using k(3) lq assms(2) q(2) by (simp add: good_mail_def min_def)
  moreover have "office_ok b N ?po"
  proof -
    have "good_mail x" if "box \<in> set ?bs" "x \<in> set box" for box x
    proof -
      have "box \<in> set (boxes po) \<or> box = boxes po ! nat k @ [?mail]" using that(1) set_update_subset_insert by fastforce
      moreover have "boxes po ! nat k \<in> set (boxes po)" using lb(2) by simp
      ultimately show ?thesis using assms(1) that(2) \<open>good_mail ?mail\<close> by (auto simp: office_ok_def)
    qed
    moreover have "set (arrived ?n1) \<subseteq> set (arrived ?n)" using \<open>arrived ?n = _\<close> by auto
    ultimately show ?thesis using assms(1) q(2) by (auto simp: office_ok_def)
  qed
  ultimately show ?thesis unfolding if_not_P [OF False] using k
    by (intro exI [of _ ?po] exI [of _ ?mail] exI [of _ k]) (simp add: k_def)
qed

lemma PostOffice_Receive_ok:
  assumes "office_ok b N po" "0 \<le> k" "k < N" "MaxMailSize \<le> length data"
  shows "if boxes po ! nat k = [] then PostOffice_Receive k data po = Inl WouldBlock
     else \<exists>m rest buf po'. boxes po ! nat k = m # rest \<and> PostOffice_Receive k data po = Inr ((pktHdr m, mailHdr m, buf), po')
       \<and> mail_msg m = (pktHdr m, mailHdr m, take (mail_length (mailHdr m)) buf)
       \<and> office_ok b N po' \<and> boxes po' = (boxes po)[nat k := rest] \<and> network po' = network po"
proof -
  have lb: "int (length (boxes po)) = N" "nat k < length (boxes po)" using assms(1-3) by (auto simp: office_ok_def)
  then have g: "arr_get (boxes po) k = Inr (boxes po ! nat k)" using assms(2,3) by simp
  show ?thesis
  proof (cases "boxes po ! nat k")
    case Nil
    then show ?thesis using g assms by (simp add: PostOffice_Receive_def MailBox_Get_def SynchList_Remove_def office_ok_def)
  next
    case (Cons m rest)
    have "m # rest \<in> set (boxes po)" using Cons lb(2) nth_mem by metis
    then have gm: "good_mail m" and gr: "\<forall>x\<in>set rest. good_mail x" using assms(1) by (auto simp: office_ok_def)
    let ?len = "mail_length (mailHdr m)"
    let ?buf = "take ?len (mail_data m) @ drop ?len data" and ?po = "po\<lparr>boxes := (boxes po)[nat k := rest]\<rparr>"
    have l: "?len \<le> 40" "length (mail_data m) = 40" using gm by (simp_all add: good_mail_def)
    have "PostOffice_Receive k data po = Inr ((pktHdr m, mailHdr m, ?buf), ?po)"
      using g Cons assms l lb by (simp add: PostOffice_Receive_def MailBox_Get_def SynchList_Remove_def Let_def office_ok_def)
    moreover have "office_ok b N ?po"
      using assms(1) gr lb(2) set_update_subset_insert [of "boxes po" "nat k" rest] by (auto simp: office_ok_def dest!: subsetD)
    moreover have "mail_msg m = (pktHdr m, mailHdr m, take ?len ?buf)" using l by (simp add: mail_msg_def)
    ultimately have "\<exists>m rest buf po'. boxes po ! nat k = m # rest \<and> PostOffice_Receive k data po = Inr ((pktHdr m, mailHdr m, buf), po')
       \<and> mail_msg m = (pktHdr m, mailHdr m, take (mail_length (mailHdr m)) buf)
       \<and> office_ok b N po' \<and> boxes po' = (boxes po)[nat k := rest] \<and> network po' = network po"
      using Cons by (intro exI [of _ m] exI [of _ rest] exI [of _ ?buf] exI [of _ ?po]) simp
    then show ?thesis using Cons by simp
  qed
qed


text \<open>The message that a call of \<^verbatim>\<open>Send\<close> on the machine \<open>a\<close> asks for.\<close>

definition sent_msg :: "int \<Rightarrow> PacketHeader \<Rightarrow> MailHeader \<Rightarrow> byte list \<Rightarrow> message" where
  "sent_msg a pkt mh data = (pkt\<lparr>pkt_from := a, pkt_length := mail_length mh + HeaderSize\<rparr>, mh, take (mail_length mh) data)"

text \<open>Arguments that the checks of \<^verbatim>\<open>Send\<close> accept.\<close>

definition sendable :: "int \<Rightarrow> PacketHeader \<Rightarrow> MailHeader \<Rightarrow> byte list \<Rightarrow> bool" where
  "sendable N pkt mh data \<longleftrightarrow> int32_ok (pkt_to pkt) \<and> mail_fits mh \<and> mail_length mh \<le> MaxMailSize \<and> 0 \<le> mail_to mh \<and> mail_to mh < N
     \<and> mail_length mh \<le> length data"

lemma wait_sent_ok:
  assumes "office_ok b N po" "n = (network po)\<lparr>nsched := nsched (network po) @ [NetworkSendInt]\<rparr>"
  shows "\<exists>po'. wait_sent (po\<lparr>network := n\<rparr>) = Inr po' \<and> office_ok b N po' \<and> boxes po' = boxes po \<and> arrived (network po') = arrived (network po)"
  using assms by (auto simp: wait_sent_def PacketSent_def SendDone_def P_alone_def Semaphore_V_def Semaphore_new_def office_ok_def arrived_def)

lemma PostOffice_Send_ok:
  assumes "office_ok b N po" "sendable N pkt mh data" "length buf = MaxPacketSize" "length junk = MaxPacketSize"
  shows "\<exists>d po'. PostOffice_Send r buf junk pkt mh data po = Inr (d, po') \<and> office_ok b N po' \<and> boxes po' = boxes po
     \<and> arrived (network po') = arrived (network po)
     \<and> (if int (r mod 100) \<ge> chanceToWork (network po) then d = None
        else \<exists>bytes. d = Some (pkt_to pkt, bytes) \<and> length bytes = MaxWireSize \<and> good_packet (pkt_to pkt) N (dec_packet bytes, drop HeaderSize bytes)
          \<and> packet_msg (dec_packet bytes, drop HeaderSize bytes) = sent_msg b pkt mh data)"
proof -
  let ?len = "mail_length mh" and ?n = "network po"
  have s: "?len \<le> 40" "?len \<le> length data" "0 \<le> mail_to mh" "mail_to mh < N" "mail_fits mh" "int32_ok (pkt_to pkt)"
    using assms(2) by (simp_all add: sendable_def)
  have o: "netAddr po = b" "ident ?n = b" "numBoxes po = N" "\<not> sendBusy ?n" "int32_ok b" using assms(1) by (simp_all add: office_ok_def)
  let ?h = "pkt\<lparr>pkt_from := b, pkt_length := ?len + 12\<rparr>"
  let ?mail = "enc_mail mh @ take ?len data @ drop (12 + ?len) buf"
  let ?n1 = "?n\<lparr>nsched := nsched ?n @ [NetworkSendInt]\<rparr>"
  have lm: "length (enc_mail mh) = 12" by (simp add: enc_mail_def)
  have dm: "dec_mail (enc_mail mh @ rest) = mh" for rest
    using mail_codec.dec_enc [OF s(5)] dec_mail_prefix [of "enc_mail mh @ rest" "enc_mail mh"] lm by simp
  define bytes where "bytes = enc_packet ?h @ take (?len + 12) ?mail @ drop (?len + 12) junk"
  have t: "take (?len + 12) ?mail = enc_mail mh @ take ?len data" using lm s(2) by simp
  have d: "dec_packet bytes = ?h" unfolding bytes_def
    by (rule dec_packet_front) (use s o in \<open>simp add: packet_fits_def\<close>)
  have p: "drop 12 bytes = enc_mail mh @ take ?len data @ drop (?len + 12) junk" unfolding bytes_def t by simp
  have l: "length bytes = 64" unfolding bytes_def t using lm s(1,2) assms(4) by simp
  have g: "good_packet (pkt_to pkt) N (dec_packet bytes, drop 12 bytes)" "packet_msg (dec_packet bytes, drop 12 bytes) = sent_msg b pkt mh data"
    unfolding d p good_packet_def packet_msg_def sent_msg_def fst_conv snd_conv dm using lm s assms(4) by simp_all
  obtain po' where w: "wait_sent (po\<lparr>network := ?n1\<rparr>) = Inr po'" "office_ok b N po'" "boxes po' = boxes po" "arrived (network po') = arrived ?n"
    using wait_sent_ok [OF assms(1) refl] by blast
  have "Network_Send r junk ?h ?mail ?n = Inr (if int (r mod 100) \<ge> chanceToWork ?n then None else Some (pkt_to pkt, bytes), ?n1)"
    using o s(1,2) assms(3) lm unfolding bytes_def by (simp add: Network_Send_def)
  then have "PostOffice_Send r buf junk pkt mh data po = Inr (if int (r mod 100) \<ge> chanceToWork ?n then None else Some (pkt_to pkt, bytes), po')"
    using s o w(1) by (simp add: PostOffice_Send_def Let_def)
  then show ?thesis using w l g by (cases "int (r mod 100) \<ge> chanceToWork ?n") auto
qed


section \<open>Several machines\<close>

text \<open>
  The machines by their network address; for each of them and each box the messages that went out to it and those that
  were received from it, in order. \<^verbatim>\<open>SendToSocket\<close> puts the datagram into the socket of the destination, which
  must exist (it aborts otherwise).
\<close>

record net_conf =
  offices :: "int \<Rightarrow> PostOffice option"
  sent :: "int \<Rightarrow> int \<Rightarrow> message list"
  got :: "int \<Rightarrow> int \<Rightarrow> message list"

definition SendToSocket :: "byte list \<Rightarrow> PostOffice \<Rightarrow> PostOffice" where
  "SendToSocket bytes po = po\<lparr>network := (network po)\<lparr>sock := sock (network po) @ [bytes]\<rparr>\<rparr>"

definition log :: "int \<Rightarrow> int \<Rightarrow> message \<Rightarrow> (int \<Rightarrow> int \<Rightarrow> message list) \<Rightarrow> (int \<Rightarrow> int \<Rightarrow> message list)" where
  "log b k m f = f(b := (f b)(k := f b k @ [m]))"

inductive net_step :: "net_conf \<Rightarrow> net_conf \<Rightarrow> bool" where
  send_lost: "offices c a = Some po \<Longrightarrow> int32_ok (pkt_to pkt) \<and> mail_fits mh \<and> length buf = MaxPacketSize \<and> length junk = MaxPacketSize \<Longrightarrow>
     PostOffice_Send r buf junk pkt mh data po = Inr (None, po') \<Longrightarrow> net_step c (c\<lparr>offices := (offices c)(a \<mapsto> po')\<rparr>)"
| send: "offices c a = Some po \<Longrightarrow> int32_ok (pkt_to pkt) \<and> mail_fits mh \<and> length buf = MaxPacketSize \<and> length junk = MaxPacketSize \<Longrightarrow>
     PostOffice_Send r buf junk pkt mh data po = Inr (Some (b, bytes), po') \<Longrightarrow>
     ((offices c)(a \<mapsto> po')) b = Some q \<Longrightarrow>
     net_step c (c\<lparr>offices := (offices c)(a \<mapsto> po', b \<mapsto> SendToSocket bytes q),
                   sent := log b (mail_to mh) (sent_msg a pkt mh data) (sent c)\<rparr>)"
| poll: "offices c b = Some po \<Longrightarrow> Poll po = Inr po' \<Longrightarrow> net_step c (c\<lparr>offices := (offices c)(b \<mapsto> po')\<rparr>)"
| deliver: "offices c b = Some po \<Longrightarrow> length mem = MaxMailSize \<Longrightarrow> PostalDelivery mem po = Inr po' \<Longrightarrow>
     net_step c (c\<lparr>offices := (offices c)(b \<mapsto> po')\<rparr>)"
| receive: "offices c b = Some po \<Longrightarrow> MaxMailSize \<le> length data \<Longrightarrow> PostOffice_Receive k data po = Inr ((pkt, mh, buf), po') \<Longrightarrow>
     net_step c (c\<lparr>offices := (offices c)(b \<mapsto> po'), got := log b k (pkt, mh, take (mail_length mh) buf) (got c)\<rparr>)"

text \<open>What is on its way to box \<open>k\<close> of a machine: in the box, in the device, on the wire.\<close>

definition on_the_way :: "int \<Rightarrow> PostOffice \<Rightarrow> message list" where
  "on_the_way k po = map mail_msg (boxes po ! nat k)
     @ filter (\<lambda>m. mail_to (fst (snd m)) = k) (map packet_msg (arrived (network po)))"

definition net_inv :: "int \<Rightarrow> net_conf \<Rightarrow> bool" where
  "net_inv N c \<longleftrightarrow> (\<forall>b po. offices c b = Some po \<longrightarrow> office_ok b N po
     \<and> (\<forall>k. 0 \<le> k \<and> k < N \<longrightarrow> sent c b k = got c b k @ on_the_way k po))"

lemma net_invD: "net_inv N c \<Longrightarrow> offices c b = Some po \<Longrightarrow> office_ok b N po \<and> (\<forall>k. 0 \<le> k \<and> k < N \<longrightarrow> sent c b k = got c b k @ on_the_way k po)"
  by (simp add: net_inv_def)

lemma net_inv_upd:
  assumes "net_inv N c" "office_ok b N po'"
    and "\<And>k. 0 \<le> k \<Longrightarrow> k < N \<Longrightarrow> s b k = g b k @ on_the_way k po'"
    and "\<And>a k. a \<noteq> b \<Longrightarrow> s a k = sent c a k \<and> g a k = got c a k"
  shows "net_inv N (c\<lparr>offices := (offices c)(b \<mapsto> po'), sent := s, got := g\<rparr>)"
  using assms by (simp add: net_inv_def)

lemma Send_sendable:
  assumes "PostOffice_Send r buf junk pkt mh data po = Inr x" "office_ok b N po" "int32_ok (pkt_to pkt)" "mail_fits mh"
  shows "sendable N pkt mh data"
  using assms by (auto simp: PostOffice_Send_def Let_def bind_iffs sendable_def office_ok_def split: if_splits)

lemma SendToSocket_ok:
  assumes "office_ok b N q" "length bytes = MaxWireSize" "good_packet b N (dec_packet bytes, drop HeaderSize bytes)"
  shows "office_ok b N (SendToSocket bytes q)"
    "on_the_way k (SendToSocket bytes q) = on_the_way k q @ filter (\<lambda>m. mail_to (fst (snd m)) = k) [packet_msg (dec_packet bytes, drop HeaderSize bytes)]"
  using assms by (auto simp: SendToSocket_def office_ok_def arrived_def on_the_way_def)

lemma on_the_way_same: "boxes po' = boxes po \<Longrightarrow> map packet_msg (arrived (network po')) = map packet_msg (arrived (network po)) \<Longrightarrow>
    on_the_way k po' = on_the_way k po"
  by (simp add: on_the_way_def)

lemma net_inv_step:
  assumes "net_step c c'" "net_inv N c"
  shows "net_inv N c'"
  using assms
proof (induction rule: net_step.induct)
  case (send_lost c a po pkt mh buf junk r data po')
  note i = net_invD [OF send_lost.prems send_lost(1)]
  have s: "sendable N pkt mh data" using Send_sendable [OF send_lost(3)] i send_lost(2) by blast
  have "office_ok a N po' \<and> boxes po' = boxes po \<and> arrived (network po') = arrived (network po)"
    using PostOffice_Send_ok [OF conjunct1 [OF i] s, of buf junk r] send_lost(2,3) by auto
  then show ?case using net_inv_upd [OF send_lost.prems, of a po' "sent c" "got c"] i on_the_way_same [of po' po] by simp
next
  case (send c a po pkt mh buf junk r data b bytes po' q)
  note i = net_invD [OF send.prems send(1)]
  have s: "sendable N pkt mh data" using Send_sendable [OF send(3)] i send(2) by blast
  have o: "office_ok a N po'" "boxes po' = boxes po" "arrived (network po') = arrived (network po)" "b = pkt_to pkt" "length bytes = 64"
      "good_packet b N (dec_packet bytes, drop 12 bytes)" "packet_msg (dec_packet bytes, drop 12 bytes) = sent_msg a pkt mh data"
    using PostOffice_Send_ok [OF conjunct1 [OF i] s, of buf junk r] send(2,3) by (auto split: if_splits)
  let ?c = "c\<lparr>offices := (offices c)(a \<mapsto> po'), sent := sent c, got := got c\<rparr>"
  have c: "net_inv N ?c" using net_inv_upd [OF send.prems o(1), of "sent c" "got c"] i on_the_way_same [of po' po] o(2,3) by simp
  then have q: "office_ok b N q" "\<forall>k. 0 \<le> k \<and> k < N \<longrightarrow> sent c b k = got c b k @ on_the_way k q" using net_invD [OF c, of b q] send(4) by simp_all
  have m: "mail_to (fst (snd (sent_msg a pkt mh data))) = mail_to mh" by (simp add: sent_msg_def)
  have "net_inv N (?c\<lparr>offices := (offices ?c)(b \<mapsto> SendToSocket bytes q), sent := log b (mail_to mh) (sent_msg a pkt mh data) (sent c), got := got c\<rparr>)"
    by (rule net_inv_upd [OF c SendToSocket_ok(1) [OF q(1) o(5,6)]])
      (use q(2) in \<open>auto simp: SendToSocket_ok(2) [OF q(1) o(5,6)] o(7) m log_def\<close>)
  then show ?case by simp
next
  case (poll c b po po')
  note i = net_invD [OF poll.prems poll(1)]
  show ?case using Poll_ok [OF conjunct1 [OF i]] poll(2) net_inv_upd [OF poll.prems, of b po' "sent c" "got c"] i on_the_way_same [of po' po] by auto
next
  case (deliver c b po mem po')
  note i = net_invD [OF deliver.prems deliver(1)]
  obtain mail k where m: "office_ok b N po'" "k = mail_to (mailHdr mail)" "0 \<le> k" "k < N" "boxes po' = (boxes po)[nat k := boxes po ! nat k @ [mail]]"
       "map packet_msg (arrived (network po)) = mail_msg mail # map packet_msg (arrived (network po'))"
    using PostalDelivery_ok [OF conjunct1 [OF i] deliver(2)] deliver(3) by (auto split: if_splits)
  have l: "nat k < length (boxes po)" using i m(3,4) by (simp add: office_ok_def)
  have "on_the_way j po' = on_the_way j po" if "0 \<le> j" "j < N" for j
  proof -
    have "nat k = nat j \<longleftrightarrow> k = j" using that m(3) by auto
    then show ?thesis unfolding on_the_way_def m(5,6) using l m(2) by (simp add: nth_list_update mail_msg_def)
  qed
  then show ?case using net_inv_upd [OF deliver.prems m(1), of "sent c" "got c"] i by simp
next
  case (receive c b po data k pkt mh buf po')
  note i = net_invD [OF receive.prems receive(1)]
  have k: "0 \<le> k" "k < N" using receive(3) i by (auto simp: PostOffice_Receive_def bind_iffs office_ok_def)
  have "boxes po ! nat k \<noteq> []" using PostOffice_Receive_ok [OF conjunct1 [OF i] k receive(2)] receive(3) by auto
  then obtain m rest where m: "boxes po ! nat k = m # rest" "mail_msg m = (pkt, mh, take (mail_length mh) buf)" "office_ok b N po'"
      "boxes po' = (boxes po)[nat k := rest]" "network po' = network po"
    using PostOffice_Receive_ok [OF conjunct1 [OF i] k receive(2)] receive(3) by auto
  have l: "nat k < length (boxes po)" using i k by (simp add: office_ok_def)
  have w: "on_the_way k po = (pkt, mh, take (mail_length mh) buf) # on_the_way k po'" using m l by (simp add: on_the_way_def)
  have "on_the_way j po' = on_the_way j po" if "0 \<le> j" "j \<noteq> k" for j
    using that k(1) m(4,5) by (simp add: on_the_way_def nat_eq_iff2)
  then have "net_inv N (c\<lparr>offices := (offices c)(b \<mapsto> po'), sent := sent c, got := log b k (pkt, mh, take (mail_length mh) buf) (got c)\<rparr>)"
    using i w by (intro net_inv_upd [OF receive.prems m(3)]) (auto simp: log_def)
  then show ?case by simp
qed


section \<open>Properties\<close>

text \<open>The state in which the machines have just created their post offices, all with \<open>N\<close> boxes (\<^verbatim>\<open>Initialize\<close> uses 10).\<close>

definition net_init :: "int \<Rightarrow> net_conf \<Rightarrow> bool" where
  "net_init N c \<longleftrightarrow> sent c = (\<lambda>_ _. []) \<and> got c = (\<lambda>_ _. [])
     \<and> (\<forall>b po. offices c b = Some po \<longrightarrow> (\<exists>hdr buf wbuf rely. po = PostOffice_new hdr buf wbuf b rely N
          \<and> length buf = MaxPacketSize \<and> length wbuf = MaxPacketSize \<and> int32_ok b))"

lemma net_init_inv: "net_init N c \<Longrightarrow> net_inv N c"
  by (fastforce simp: net_init_def net_inv_def office_ok_def PostOffice_new_def Network_new_def arrived_def on_the_way_def)

lemma net_inv_reachable: "net_step\<^sup>*\<^sup>* c0 c \<Longrightarrow> net_init N c0 \<Longrightarrow> net_inv N c"
  by (induction rule: rtranclp_induct) (auto simp: net_init_inv net_inv_step)

text \<open>
  C7 (refinement): the post offices of any machines, in any interleaving of sending, polling, delivering and receiving,
  implement a queue for every mailbox. The messages received from box \<open>k\<close> of machine \<open>b\<close>, followed by those on their way
  to it, are exactly the messages sent to that box that the network did not drop: none is altered, duplicated,
  reordered or put into another box. On the way a message is in the socket, in the device or in the box.
\<close>

theorem mail_delivered_in_order:
  assumes "net_init N c0" "net_step\<^sup>*\<^sup>* c0 c" "offices c b = Some po" "0 \<le> k" "k < N"
  shows "sent c b k = got c b k @ on_the_way k po"
  using net_invD [OF net_inv_reachable [OF assms(2,1)] assms(3)] assms(4,5) by blast

text \<open>A machine sends a message to itself, on a reliable network.\<close>

definition demo_hdr :: PacketHeader where
  "demo_hdr = \<lparr>pkt_to = 0, pkt_from = 9, pkt_length = 9\<rparr>"

definition demo_mail :: MailHeader where
  "demo_mail = \<lparr>mail_to = 1, mail_from = 0, mail_length = 2\<rparr>"

definition demo_office :: PostOffice where
  "demo_office = PostOffice_new demo_hdr (replicate 52 0) (replicate 52 0) 0 100 10"

definition demo_net :: net_conf where
  "demo_net = \<lparr>offices = [0 \<mapsto> demo_office], sent = (\<lambda>_ _. []), got = (\<lambda>_ _. [])\<rparr>"

lemma demo_net_init: "net_init 10 demo_net"
  by (auto simp: net_init_def demo_net_def demo_office_def int32_ok_def split: if_splits
      intro!: exI [of _ demo_hdr] exI [of _ "replicate 52 0"] exI [of _ "100 :: int"])

lemma demo_send:
  "\<exists>c po. net_step\<^sup>*\<^sup>* demo_net c \<and> offices c 0 = Some po \<and> sent c 0 1 = [sent_msg 0 demo_hdr demo_mail [72, 105]]"
proof -
  have ok: "office_ok 0 10 demo_office" using net_invD [OF net_init_inv [OF demo_net_init], of 0 demo_office] by (simp add: demo_net_def)
  have s: "sendable 10 demo_hdr demo_mail [72, 105]"
    by (simp add: sendable_def demo_hdr_def demo_mail_def mail_fits_def int32_ok_def)
  have ch: "chanceToWork (network demo_office) = 100" by (simp add: demo_office_def PostOffice_new_def Network_new_def)
  obtain bytes po' where p: "PostOffice_Send 0 (replicate 52 0) (replicate 52 0) demo_hdr demo_mail [72, 105] demo_office = Inr (Some (0, bytes), po')"
    using PostOffice_Send_ok [OF ok s, of "replicate 52 0" "replicate 52 0" 0] ch by (auto simp: demo_hdr_def)
  have "net_step demo_net (demo_net\<lparr>offices := (offices demo_net)(0 \<mapsto> po', 0 \<mapsto> SendToSocket bytes po'),
      sent := log 0 (mail_to demo_mail) (sent_msg 0 demo_hdr demo_mail [72, 105]) (sent demo_net)\<rparr>)"
    by (rule net_step.send [OF _ _ p]) (simp_all add: demo_net_def demo_hdr_def demo_mail_def mail_fits_def int32_ok_def)
  then show ?thesis by (intro exI conjI, rule r_into_rtranclp) (auto simp: log_def demo_mail_def demo_net_def)
qed

theorem mail_delivered_in_order_witness:
  "\<exists>c po. net_step\<^sup>*\<^sup>* demo_net c \<and> offices c 0 = Some po \<and> got c 0 1 @ on_the_way 1 po = [sent_msg 0 demo_hdr demo_mail [72, 105]]"
proof -
  obtain c po where c: "net_step\<^sup>*\<^sup>* demo_net c" "offices c 0 = Some po" "sent c 0 1 = [sent_msg 0 demo_hdr demo_mail [72, 105]]"
    using demo_send by blast
  then show ?thesis using mail_delivered_in_order [OF demo_net_init c(1,2), of 1] by auto
qed

text \<open>
  The checks of the post office. A message that is too long or whose box the sender does not have aborts the sender, and so does
  receiving from a box that does not exist. On the receiving side no check ever fails, in any reachable state: a poll of the
  device succeeds, the postal worker delivers when a packet is buffered and waits otherwise, and \<^verbatim>\<open>Receive\<close> returns a message
  when there is one in the box and waits otherwise.
\<close>

theorem post_office_checks:
  assumes "net_init N c0" "net_step\<^sup>*\<^sup>* c0 c" "offices c b = Some po" "length mem = MaxMailSize" "MaxMailSize \<le> length data"
  shows "(mail_length mh > MaxMailSize \<or> mail_to mh < 0 \<or> N \<le> mail_to mh \<longrightarrow> PostOffice_Send r buf junk pkt mh msg po = Inl AssertFailed)
     \<and> (k < 0 \<or> N \<le> k \<longrightarrow> PostOffice_Receive k data po = Inl AssertFailed)
     \<and> (\<exists>po'. Poll po = Inr po')
     \<and> (PostalDelivery mem po = Inl WouldBlock \<longleftrightarrow> pkt_length (inHdr (network po)) = 0)
     \<and> (pkt_length (inHdr (network po)) \<noteq> 0 \<longrightarrow> (\<exists>po'. PostalDelivery mem po = Inr po'))
     \<and> (0 \<le> k \<and> k < N \<longrightarrow> (if boxes po ! nat k = [] then PostOffice_Receive k data po = Inl WouldBlock
          else \<exists>x po'. PostOffice_Receive k data po = Inr (x, po')))"
proof -
  have o: "office_ok b N po" using net_invD [OF net_inv_reachable [OF assms(2,1)] assms(3)] by blast
  then have n: "numBoxes po = N" by (simp add: office_ok_def)
  note d = PostalDelivery_ok [OF o assms(4)]
  have p: "0 \<le> k \<and> k < N \<longrightarrow> (if boxes po ! nat k = [] then PostOffice_Receive k data po = Inl WouldBlock
          else \<exists>x po'. PostOffice_Receive k data po = Inr (x, po'))"
    using PostOffice_Receive_ok [OF o _ _ assms(5), of k] by (auto split: if_splits)
  have "PostOffice_Send r buf junk pkt mh msg po = Inl AssertFailed" if "mail_length mh > MaxMailSize \<or> mail_to mh < 0 \<or> N \<le> mail_to mh"
    using that n by (auto simp: PostOffice_Send_def ASSERT_def)
  moreover have "PostOffice_Receive k data po = Inl AssertFailed" if "k < 0 \<or> N \<le> k"
    using that n by (auto simp: PostOffice_Receive_def ASSERT_def)
  ultimately show ?thesis using d p Poll_ok [OF o] by (auto split: if_splits)
qed

theorem post_office_checks_witness:
  "PostOffice_Receive 11 (replicate 40 0) demo_office = Inl AssertFailed \<and> (\<exists>po'. Poll demo_office = Inr po')"
  using post_office_checks [OF demo_net_init rtranclp.rtrancl_refl, of 0 demo_office "replicate 40 0" "replicate 40 0" demo_mail 0 "[]" "[]" demo_hdr "[]" 11]
  by (simp add: demo_net_def)

end
