(* ===== verification/Reliable.thy ===== *)
theory Reliable
  imports Post
begin

text \<open>
  \<^verbatim>\<open>network/reliable.cc\<close>: sending with retransmission. The sender emits the message, starts a thread that will post
  \<^verbatim>\<open>Resend\<close> messages to mailbox 0 of machine 0 after a delay, and waits for a message in mailbox 0: an
  acknowledgement or a \<^verbatim>\<open>Resend\<close>.
\<close>

section \<open>Model\<close>

abbreviation (input) MAXREEMISSIONS :: nat where "MAXREEMISSIONS \<equiv> 5"

definition resend_text :: "byte list" where
  "resend_text = bytes_of ''Resend''"

text \<open>\<^verbatim>\<open>DelayAck\<close>, after the delay: what the thread sends. \<open>hdr\<close> is the uninitialised packet header.\<close>

definition DelayAck :: "PacketHeader \<Rightarrow> (PacketHeader \<times> MailHeader \<times> byte list) list" where
  "DelayAck hdr =
     map (\<lambda>i. (hdr\<lparr>pkt_to := 0\<rparr>, \<lparr>mail_to = 0, mail_from = 0, mail_length = length resend_text + 1\<rparr>, resend_text @ [0])) [0..<MAXREEMISSIONS]"

text \<open>
  What \<^verbatim>\<open>ReliableSend\<close> does, with the contents of \<^verbatim>\<open>buffer\<close> after each \<^verbatim>\<open>Receive\<close> given as a list: it emits the message or forks
  the delay thread with an identifier. \<open>n\<close> is \<^verbatim>\<open>reem\<close>; the results are the actions, whether it was acknowledged
  (\<^verbatim>\<open>sent\<close>), and the messages left in the mailbox.
\<close>

datatype rel_action = Emit | ForkDelay nat

function reliable_loop :: "nat \<Rightarrow> byte list list \<Rightarrow> (rel_action list \<times> bool \<times> byte list list) res" where
  "reliable_loop reem answers =
     (if reem < MAXREEMISSIONS
      then case answers of
             [] \<Rightarrow> Inl WouldBlock
           | buffer # rest \<Rightarrow>
               if cstr buffer = resend_text
               then bindR (reliable_loop (reem + 1) rest) (\<lambda>(as, ok, left). Inr ([Emit, ForkDelay (reem + 1)] @ as, ok, left))
               else Inr ([Emit, ForkDelay (reem + 1)], True, rest)
      else Inr ([], False, answers))"
  by pat_completeness auto
termination
  by (relation "measure (\<lambda>(reem, _). MAXREEMISSIONS - reem)") auto

declare reliable_loop.simps [simp del]

definition ReliableSend :: "byte list list \<Rightarrow> (rel_action list \<times> bool \<times> byte list list) res" where
  "ReliableSend answers = reliable_loop 0 answers"

section \<open>Behaviour\<close>

definition emissions :: "rel_action list \<Rightarrow> nat" where
  "emissions as = length (filter (\<lambda>a. a = Emit) as)"

text \<open>The number of \<^verbatim>\<open>Resend\<close> messages at the front of the mailbox, as far as they count.\<close>

definition timeouts :: "nat \<Rightarrow> byte list list \<Rightarrow> nat" where
  "timeouts k answers = length (takeWhile (\<lambda>b. cstr b = resend_text) (take k answers))"

lemma timeouts_simps [simp]:
  "timeouts 0 as = 0" "timeouts k [] = 0" "timeouts (Suc k) (b # as) = (if cstr b = resend_text then Suc (timeouts k as) else 0)"
  by (simp_all add: timeouts_def)

lemma timeouts_le: "timeouts k as \<le> k" "timeouts k as \<le> length as"
  unfolding timeouts_def by (metis length_take length_takeWhile_le min.boundedE)+

lemma reliable_loop_spec:
  assumes "k = MAXREEMISSIONS - reem" "t = timeouts k answers" "k \<le> length answers"
  shows "\<exists>as. reliable_loop reem answers = Inr (as, t < k, drop (min k (t + 1)) answers) \<and> emissions as = min k (t + 1)"
  using assms
proof (induction k arbitrary: reem t answers)
  case 0
  then show ?case by (simp add: reliable_loop.simps emissions_def)
next
  case (Suc k)
  then obtain b rest where a: "answers = b # rest" by (cases answers) auto
  have r: "reem < 5" "k = 5 - (reem + 1)" using Suc.prems(1) by auto
  show ?case
  proof (cases "cstr b = resend_text")
    case True
    obtain as where "reliable_loop (reem + 1) rest = Inr (as, timeouts k rest < k, drop (min k (timeouts k rest + 1)) rest)"
        "emissions as = min k (timeouts k rest + 1)"
      using Suc.IH [OF r(2) refl, of rest] Suc.prems(3) a by auto
    then show ?thesis using True a r(1) Suc.prems(2) by (auto simp: reliable_loop.simps [of reem] emissions_def)
  next
    case False
    then show ?thesis using a r(1) Suc.prems(2) by (simp add: reliable_loop.simps [of reem] emissions_def)
  qed
qed

section \<open>Properties\<close>

text \<open>
  C40 (bounds): with at least five messages to come, \<^verbatim>\<open>ReliableSend\<close> ends, emits the message once more than it meets \<^verbatim>\<open>Resend\<close>, at
  most five times, and reports success exactly when one of the first five messages of the mailbox is not \<^verbatim>\<open>Resend\<close>. One
  delay thread posts five \<^verbatim>\<open>Resend\<close>s: a single timeout uses up all emissions.
\<close>

theorem reliable_send_bounds:
  assumes "MAXREEMISSIONS \<le> length answers"
  shows "(\<exists>as. ReliableSend answers = Inr (as, \<exists>b\<in>set (take MAXREEMISSIONS answers). cstr b \<noteq> resend_text,
            drop (min MAXREEMISSIONS (timeouts MAXREEMISSIONS answers + 1)) answers)
       \<and> emissions as = min MAXREEMISSIONS (timeouts MAXREEMISSIONS answers + 1))
     \<and> (\<exists>as. ReliableSend (map (\<lambda>(_, _, text). text) (DelayAck hdr) @ answers) = Inr (as, False, answers) \<and> emissions as = MAXREEMISSIONS)"
proof
  let ?P = "\<lambda>b. cstr b = resend_text"
  have "timeouts 5 answers < 5 \<longleftrightarrow> (\<exists>b\<in>set (take 5 answers). \<not> ?P b)"
  proof -
    have l: "length (take 5 answers) = 5" using assms by simp
    have "length (takeWhile ?P ys) = length ys \<longleftrightarrow> (\<forall>b\<in>set ys. ?P b)" for ys by (induction ys) auto
    from this [of "take 5 answers"] have "length (takeWhile ?P (take 5 answers)) = 5 \<longleftrightarrow> (\<forall>b\<in>set (take 5 answers). ?P b)"
      unfolding l .
    moreover have "timeouts 5 answers \<le> 5" by (rule timeouts_le)
    ultimately show ?thesis unfolding timeouts_def by auto
  qed
  then show "\<exists>as. ReliableSend answers = Inr (as, \<exists>b\<in>set (take 5 answers). \<not> ?P b, drop (min 5 (timeouts 5 answers + 1)) answers)
       \<and> emissions as = min 5 (timeouts 5 answers + 1)"
    using reliable_loop_spec [of 5 0 _ answers] assms by (simp add: ReliableSend_def)
  have c: "cstr (resend_text @ [0]) = resend_text" by (simp add: resend_text_def bytes_of_def)
  then have "timeouts 5 (map (\<lambda>(_, _, text). text) (DelayAck hdr) @ answers) = 5"
    by (simp add: DelayAck_def timeouts_def takeWhile_eq_all_conv upt_conv_Cons eval_nat_numeral)
  then show "\<exists>as. ReliableSend (map (\<lambda>(_, _, text). text) (DelayAck hdr) @ answers) = Inr (as, False, answers) \<and> emissions as = 5"
    using reliable_loop_spec [of 5 0 5 "map (\<lambda>(_, _, text). text) (DelayAck hdr) @ answers"] by (simp add: ReliableSend_def DelayAck_def)
qed

theorem reliable_send_bounds_witness:
  "\<exists>as. ReliableSend (map (\<lambda>(_, _, text). text) (DelayAck demo_hdr) @ replicate 5 []) = Inr (as, False, replicate 5 [])
     \<and> emissions as = 5"
  using reliable_send_bounds [of "replicate 5 []" demo_hdr] by simp

end
