(* ===== verification/NetTest.thy ===== *)
theory NetTest
  imports Reliable "HOL-Library.Sublist"
begin

text \<open>
  The network tests (\<^verbatim>\<open>network/nettest.cc\<close>) as programs of several machines: what each thread sends, receives and prints. A run
  interleaves the threads of all machines with the devices of theory Post. The locale \<open>net_protocol\<close> is the contract between a
  set of programs and their messages: what may be in a mailbox, and what a thread may print; it is interpreted for the tests.
\<close>

section \<open>Programs\<close>

text \<open>The lines that the tests print: \<^verbatim>\<open>Got "..." from .., box ..\<close> and the fixed texts.\<close>

datatype net_line = Got "byte list" int int | Sended | MessageSended | Recu "byte list" | NotSended | AckSended | EndOfAckno

text \<open>
  A thread as the sequence of its calls. \<open>Receive_from\<close> has the box and the buffer that the data are copied into, and
  continues with the two headers and the buffer. \<open>Undefined\<close> is undefined behaviour: a text without an end.
\<close>

datatype prog =
    Send_to PacketHeader MailHeader "byte list" prog
  | Receive_from int "byte list" "PacketHeader \<Rightarrow> MailHeader \<Rightarrow> byte list \<Rightarrow> prog"
  | Show net_line prog
  | Fork_thread prog prog
  | Halt_machine
  | End_thread
  | Undefined

text \<open>A buffer as the text that \<^verbatim>\<open>printf\<close>, \<^verbatim>\<open>strcmp\<close> and \<^verbatim>\<open>strlen\<close> see.\<close>

definition as_text :: "byte list \<Rightarrow> (byte list \<Rightarrow> prog) \<Rightarrow> prog" where
  "as_text buffer k = (if 0 \<in> set buffer then k (cstr buffer) else Undefined)"

definition literal :: "string \<Rightarrow> byte list" where
  "literal s = bytes_of s @ [0]"

section \<open>The tests\<close>

text \<open>\<open>hdr\<close> and \<open>buffer\<close> are what the local variables hold at first. Headers are passed to \<^verbatim>\<open>Send\<close> by value.\<close>

definition MailTest :: "PacketHeader \<Rightarrow> byte list \<Rightarrow> int \<Rightarrow> prog" where
  "MailTest hdr buffer farAddr =
     (let outPktHdr = hdr\<lparr>pkt_to := farAddr\<rparr>;
          outMailHdr = \<lparr>mail_to = 0, mail_from = 1, mail_length = length (bytes_of ''Hello there!'') + 1\<rparr>
      in Send_to outPktHdr outMailHdr (literal ''Hello there!'') (
         Receive_from 0 buffer (\<lambda>inPktHdr inMailHdr buffer1.
         as_text buffer1 (\<lambda>t. Show (Got t (pkt_from inPktHdr) (mail_from inMailHdr)) (
         Send_to (outPktHdr\<lparr>pkt_to := pkt_from inPktHdr\<rparr>)
           (outMailHdr\<lparr>mail_to := mail_from inMailHdr, mail_length := length (bytes_of ''Got it!'') + 1\<rparr>) (literal ''Got it!'') (
         Receive_from 1 buffer1 (\<lambda>inPktHdr inMailHdr buffer2.
         as_text buffer2 (\<lambda>t. Show (Got t (pkt_from inPktHdr) (mail_from inMailHdr)) Halt_machine))))))))"

text \<open>The argument of \<^verbatim>\<open>LogicCycle\<close> is not used; the empty loop that waits has no effect.\<close>

definition LogicCycle :: "PostOffice \<Rightarrow> PacketHeader \<Rightarrow> byte list \<Rightarrow> prog" where
  "LogicCycle po hdr buffer =
     (let i = GetIdent (network po) in
      if i = 0
      then Send_to (hdr\<lparr>pkt_to := 1\<rparr>) \<lparr>mail_to = 1, mail_from = i, mail_length = length (bytes_of ''token'') + 1\<rparr> (literal ''token'')
             (Show Sended Halt_machine)
      else Receive_from i buffer (\<lambda>inPktHdr inMailHdr buffer1.
           as_text buffer1 (\<lambda>t. Show (Got t (pkt_from inPktHdr) (mail_from inMailHdr)) (
           if i < 5
           then Send_to (hdr\<lparr>pkt_to := i + 1\<rparr>) \<lparr>mail_to = i + 1, mail_from = i, mail_length = length t + 1\<rparr> buffer1 (Show Sended Halt_machine)
           else Halt_machine))))"

text \<open>
  \<^verbatim>\<open>ReliableSend\<close> of \<^verbatim>\<open>network/reliable.cc\<close> as a thread: \<open>msg\<close> is the message, \<open>hdrs\<close> the uninitialised header of each delay thread, and \<open>inHdrs\<close>
  the headers of the caller, which are printed although the message was received into others.
\<close>

fun send_all :: "(PacketHeader \<times> MailHeader \<times> byte list) list \<Rightarrow> prog \<Rightarrow> prog" where
  "send_all [] p = p"
| "send_all ((pkt, mh, data) # ms) p = Send_to pkt mh data (send_all ms p)"

definition delay_thread :: "PacketHeader \<Rightarrow> prog" where
  "delay_thread hdr = send_all (DelayAck hdr) (Show EndOfAckno End_thread)"

function reliable_thread ::
  "PacketHeader \<times> MailHeader \<times> byte list \<Rightarrow> (nat \<Rightarrow> PacketHeader) \<Rightarrow> PacketHeader \<times> MailHeader \<Rightarrow> nat \<Rightarrow> byte list \<Rightarrow> prog \<Rightarrow> prog" where
  "reliable_thread msg hdrs inHdrs reem buffer p =
     (if reem < MAXREEMISSIONS
      then Send_to (fst msg) (fst (snd msg)) (snd (snd msg)) (
           Show MessageSended (
           Fork_thread (delay_thread (hdrs reem)) (
           Receive_from 0 buffer (\<lambda>_ _ buffer1.
           as_text buffer1 (\<lambda>t. Show (Recu t) (
           if t = resend_text then Show NotSended (reliable_thread msg hdrs inHdrs (reem + 1) buffer1 p)
           else Show (Got t (pkt_from (fst inHdrs)) (mail_from (snd inHdrs))) p))))))
      else p)"
  by pat_completeness auto
termination
  by (relation "measure (\<lambda>(_, _, _, reem, _, _). MAXREEMISSIONS - reem)") auto

declare reliable_thread.simps [simp del]

text \<open>The machine that answers leaves the field \<^verbatim>\<open>from\<close> of its header \<open>mhdr\<close> as it is.\<close>

definition TestWait ::
  "PostOffice \<Rightarrow> PacketHeader \<Rightarrow> MailHeader \<Rightarrow> byte list \<Rightarrow> (nat \<Rightarrow> PacketHeader) \<Rightarrow> PacketHeader \<times> MailHeader \<Rightarrow> int \<Rightarrow> prog" where
  "TestWait po hdr mhdr buffer hdrs inHdrs farAddr =
     (if GetIdent (network po) = 0
      then reliable_thread (hdr\<lparr>pkt_to := farAddr\<rparr>, \<lparr>mail_to = 1, mail_from = 0, mail_length = length (bytes_of ''Hello there!'') + 1\<rparr>, literal ''Hello there!'')
             hdrs inHdrs 0 buffer Halt_machine
      else Receive_from 1 buffer (\<lambda>inPktHdr inMailHdr buffer1.
           as_text buffer1 (\<lambda>t. Show (Got t (pkt_from inPktHdr) (mail_from inMailHdr)) (
           Send_to (hdr\<lparr>pkt_to := pkt_from inPktHdr\<rparr>) (mhdr\<lparr>mail_to := mail_from inMailHdr, mail_length := length (bytes_of ''Got it!'') + 1\<rparr>)
             (literal ''Got it!'') (Show AckSended Halt_machine)))))"

section \<open>Runs\<close>

text \<open>
  The network, the threads of each machine with what they have printed, and the machines that have halted. A datagram to a machine
  that has halted aborts the sender (\<^verbatim>\<open>SendToSocket\<close> checks the result), so there is no step for it.
\<close>

record run =
  net :: net_conf
  pool :: "int \<times> nat \<Rightarrow> (net_line list \<times> prog) option"
  halted :: "int set"

inductive run_step :: "run \<Rightarrow> run \<Rightarrow> bool" where
  dev_poll: "offices (net c) b = Some po \<Longrightarrow> b \<notin> halted c \<Longrightarrow> Poll po = Inr po' \<Longrightarrow>
     run_step c (c\<lparr>net := (net c)\<lparr>offices := (offices (net c))(b \<mapsto> po')\<rparr>\<rparr>)"
| dev_deliver: "offices (net c) b = Some po \<Longrightarrow> b \<notin> halted c \<Longrightarrow> length mem = MaxMailSize \<Longrightarrow> PostalDelivery mem po = Inr po' \<Longrightarrow>
     run_step c (c\<lparr>net := (net c)\<lparr>offices := (offices (net c))(b \<mapsto> po')\<rparr>\<rparr>)"
| thr_lost: "pool c (a, i) = Some (out, Send_to pkt mh data p) \<Longrightarrow> a \<notin> halted c \<Longrightarrow> offices (net c) a = Some po \<Longrightarrow>
     length buf = MaxPacketSize \<and> length junk = MaxPacketSize \<Longrightarrow>
     PostOffice_Send r buf junk pkt mh data po = Inr (None, po') \<Longrightarrow>
     run_step c (c\<lparr>net := (net c)\<lparr>offices := (offices (net c))(a \<mapsto> po')\<rparr>, pool := (pool c)((a, i) \<mapsto> (out, p))\<rparr>)"
| thr_send: "pool c (a, i) = Some (out, Send_to pkt mh data p) \<Longrightarrow> a \<notin> halted c \<Longrightarrow> offices (net c) a = Some po \<Longrightarrow>
     length buf = MaxPacketSize \<and> length junk = MaxPacketSize \<Longrightarrow>
     PostOffice_Send r buf junk pkt mh data po = Inr (Some (b, bytes), po') \<Longrightarrow>
     ((offices (net c))(a \<mapsto> po')) b = Some q \<Longrightarrow> b \<notin> halted c \<Longrightarrow>
     run_step c (c\<lparr>net := (net c)\<lparr>offices := (offices (net c))(a \<mapsto> po', b \<mapsto> SendToSocket bytes q),
                                 sent := log b (mail_to mh) (sent_msg a pkt mh data) (sent (net c))\<rparr>,
                  pool := (pool c)((a, i) \<mapsto> (out, p))\<rparr>)"
| thr_receive: "pool c (a, i) = Some (out, Receive_from k data f) \<Longrightarrow> a \<notin> halted c \<Longrightarrow> offices (net c) a = Some po \<Longrightarrow>
     PostOffice_Receive k data po = Inr ((pkt, mh, buf), po') \<Longrightarrow>
     run_step c (c\<lparr>net := (net c)\<lparr>offices := (offices (net c))(a \<mapsto> po'), got := log a k (pkt, mh, take (mail_length mh) buf) (got (net c))\<rparr>,
                  pool := (pool c)((a, i) \<mapsto> (out, f pkt mh buf))\<rparr>)"
| thr_show: "pool c (a, i) = Some (out, Show l p) \<Longrightarrow> a \<notin> halted c \<Longrightarrow>
     run_step c (c\<lparr>pool := (pool c)((a, i) \<mapsto> (out @ [l], p))\<rparr>)"
| thr_fork: "pool c (a, i) = Some (out, Fork_thread p q) \<Longrightarrow> a \<notin> halted c \<Longrightarrow> pool c (a, j) = None \<Longrightarrow>
     run_step c (c\<lparr>pool := (pool c)((a, j) \<mapsto> ([], p), (a, i) \<mapsto> (out, q))\<rparr>)"
| thr_halt: "pool c (a, i) = Some (out, Halt_machine) \<Longrightarrow> a \<notin> halted c \<Longrightarrow> run_step c (c\<lparr>halted := insert a (halted c)\<rparr>)"

inductive_cases run_stepE: "run_step c c'"

text \<open>Every machine has created its post office and its first thread starts the program.\<close>

definition run_init :: "int \<Rightarrow> (int \<Rightarrow> PostOffice \<Rightarrow> prog) \<Rightarrow> run \<Rightarrow> bool" where
  "run_init N program c \<longleftrightarrow> net_init N (net c) \<and> halted c = {}
     \<and> pool c = (\<lambda>(a, i). if i = 0 then map_option (\<lambda>po. ([], program a po)) (offices (net c) a) else None)"

section \<open>Contracts\<close>

text \<open>
  \<open>keeps N Q P a p out\<close>: the program \<open>p\<close>, which has printed \<open>out\<close> on the machine \<open>a\<close>, only prints what \<open>P\<close> allows, only makes calls that
  \<^verbatim>\<open>Send\<close> and \<^verbatim>\<open>Receive\<close> accept, and only sends messages that \<open>Q\<close> allows in the box they go to, if the messages it receives are allowed.
\<close>

primrec keeps :: "int \<Rightarrow> (int \<Rightarrow> int \<Rightarrow> message \<Rightarrow> bool) \<Rightarrow> (int \<Rightarrow> net_line list \<Rightarrow> bool) \<Rightarrow> int \<Rightarrow> prog \<Rightarrow> net_line list \<Rightarrow> bool" where
  "keeps N Q P a (Send_to pkt mh data p) out \<longleftrightarrow> P a out \<and> sendable N pkt mh data
     \<and> Q (pkt_to pkt) (mail_to mh) (sent_msg a pkt mh data) \<and> keeps N Q P a p out"
| "keeps N Q P a (Receive_from k data f) out \<longleftrightarrow> P a out \<and> 0 \<le> k \<and> k < N \<and> MaxMailSize \<le> length data
     \<and> (\<forall>pkt mh buf. Q a k (pkt, mh, take (mail_length mh) buf) \<and> length buf = length data \<longrightarrow> keeps N Q P a (f pkt mh buf) out)"
| "keeps N Q P a (Show l p) out \<longleftrightarrow> P a out \<and> keeps N Q P a p (out @ [l])"
| "keeps N Q P a (Fork_thread p q) out \<longleftrightarrow> P a out \<and> keeps N Q P a p [] \<and> keeps N Q P a q out"
| "keeps N Q P a Halt_machine out \<longleftrightarrow> P a out"
| "keeps N Q P a End_thread out \<longleftrightarrow> P a out"
| "keeps N Q P a Undefined out \<longleftrightarrow> False"

lemma keeps_allowed: "keeps N Q P a p out \<Longrightarrow> P a out"
  by (cases p) auto

definition run_inv :: "int \<Rightarrow> (int \<Rightarrow> int \<Rightarrow> message \<Rightarrow> bool) \<Rightarrow> (int \<Rightarrow> net_line list \<Rightarrow> bool) \<Rightarrow> run \<Rightarrow> bool" where
  "run_inv N Q P c \<longleftrightarrow> net_inv N (net c) \<and> (\<forall>b k. \<forall>m\<in>set (sent (net c) b k). Q b k m)
     \<and> (\<forall>a i out p. pool c (a, i) = Some (out, p) \<longrightarrow> offices (net c) a \<noteq> None \<and> keeps N Q P a p out)"

lemma run_invD:
  assumes "run_inv N Q P c" "pool c (a, i) = Some (out, p)"
  shows "offices (net c) a \<noteq> None" "keeps N Q P a p out"
  using assms unfolding run_inv_def by blast+

lemma received_length:
  assumes "office_ok b N po" "0 \<le> k" "k < N" "PostOffice_Receive k data po = Inr ((pkt, mh, buf), po')"
  shows "length buf = length data"
proof -
  have lb: "int (length (boxes po)) = N" "nat k < length (boxes po)" using assms(1-3) by (auto simp: office_ok_def)
  then have "arr_get (boxes po) k = Inr (boxes po ! nat k)" using assms(2,3) by simp
  then obtain m rest where m: "boxes po ! nat k = m # rest" "mail_length (mailHdr m) \<le> length data"
      "buf = take (mail_length (mailHdr m)) (mail_data m) @ drop (mail_length (mailHdr m)) data"
    using assms(4) by (auto simp: PostOffice_Receive_def MailBox_Get_def SynchList_Remove_def Let_def bind_iffs split: list.splits if_splits)
  have "m \<in> set (boxes po ! nat k)" "boxes po ! nat k \<in> set (boxes po)" using m(1) nth_mem [OF lb(2)] by simp_all
  then have "good_mail m" using assms(1) unfolding office_ok_def by blast
  then show ?thesis using m(2,3) by (simp add: good_mail_def)
qed

lemma received_sent:
  assumes "net_inv N n" "offices n a = Some po" "0 \<le> k" "k < N" "MaxMailSize \<le> length data" "PostOffice_Receive k data po = Inr ((pkt, mh, buf), po')"
  shows "(pkt, mh, take (mail_length mh) buf) \<in> set (sent n a k)"
  using net_invD [OF net_inv_step [OF net_step.receive [OF assms(2,5,6)] assms(1)], of a po'] assms(3,4) by (auto simp: log_def)

text \<open>The effect of a step on the network is a step of the network, or none.\<close>

lemma run_step_net:
  assumes "run_step c c'" "run_inv N Q P c"
  shows "net_inv N (net c')"
proof -
  have i: "net_inv N (net c)" using assms(2) by (simp add: run_inv_def)
  have "net_step (net c) (net c') \<or> net c' = net c"
    using assms(1)
  proof cases
    case (dev_poll b po po')
    then show ?thesis using net_step.poll by auto
  next
    case (dev_deliver b po mem po')
    then show ?thesis using net_step.deliver by auto
  next
    case (thr_lost a i out pkt mh data p po buf junk r po')
    have "sendable N pkt mh data" using run_invD(2) [OF assms(2) thr_lost(2)] by simp
    then show ?thesis using thr_lost net_step.send_lost [of "net c" a po pkt mh buf junk r data po'] by (auto simp: sendable_def)
  next
    case (thr_send a i out pkt mh data p po buf junk r b bytes po' q)
    have "sendable N pkt mh data" using run_invD(2) [OF assms(2) thr_send(2)] by simp
    then show ?thesis using thr_send net_step.send [of "net c" a po pkt mh buf junk r data b bytes po' q] by (auto simp: sendable_def)
  next
    case (thr_receive a i out k data f po pkt mh buf po')
    have "keeps N Q P a (Receive_from k data f) out" by (rule run_invD(2) [OF assms(2) thr_receive(2)])
    then show ?thesis using thr_receive net_step.receive [of "net c" a po data k pkt mh buf po'] by auto
  qed auto
  then show ?thesis using i net_inv_step by auto
qed

text \<open>A step of one thread, for the threads: the others stay, and it keeps what is left of its program.\<close>

lemma pool_upd:
  assumes "run_inv N Q P c" "offices (net c) a \<noteq> None" "\<forall>b. offices (net c) b \<noteq> None \<longrightarrow> offices n b \<noteq> None" "net_inv N n"
    "\<forall>b k. \<forall>m\<in>set (sent n b k). Q b k m" "keeps N Q P a p out"
  shows "run_inv N Q P (c\<lparr>net := n, pool := (pool c)((a, i) \<mapsto> (out, p))\<rparr>)"
  using assms unfolding run_inv_def by simp

lemma run_inv_step:
  assumes "run_step c c'" "run_inv N Q P c"
  shows "run_inv N Q P c'"
proof -
  note t = run_invD [OF assms(2)]
  have q: "\<forall>b k. \<forall>m\<in>set (sent (net c) b k). Q b k m" using assms(2) by (simp add: run_inv_def)
  note n = run_step_net [OF assms]
  from assms(1) show ?thesis
  proof cases
    case (thr_lost a i out pkt mh data p po buf junk r po')
    then show ?thesis using pool_upd [OF assms(2) t(1) [OF thr_lost(2)] _ n, of p out i] t(2) [OF thr_lost(2)] q by auto
  next
    case (thr_send a i out pkt mh data p po buf junk r b bytes po' r')
    have k: "keeps N Q P a (Send_to pkt mh data p) out" using t(2) [OF thr_send(2)] .
    have "b = pkt_to pkt" using thr_send(6) k assms(2) thr_send(4)
      by (auto simp: PostOffice_Send_def Network_Send_def Let_def bind_iffs split: if_splits)
    then have "\<forall>b k. \<forall>m\<in>set (sent (net c') b k). Q b k m" using k q thr_send(1) by (auto simp: log_def)
    then show ?thesis using pool_upd [OF assms(2) t(1) [OF thr_send(2)] _ n, of p out i] k thr_send(1) by auto
  next
    case (thr_receive a i out k data f po pkt mh buf po')
    have kp: "keeps N Q P a (Receive_from k data f) out" using t(2) [OF thr_receive(2)] .
    have i: "net_inv N (net c)" "office_ok a N po" using assms(2) net_invD [OF _ thr_receive(4)] by (auto simp: run_inv_def)
    have "Q a k (pkt, mh, take (mail_length mh) buf)" using received_sent [OF i(1) thr_receive(4) _ _ _ thr_receive(5)] kp q by auto
    moreover have "length buf = length data" using received_length [OF i(2) _ _ thr_receive(5)] kp by auto
    ultimately have "keeps N Q P a (f pkt mh buf) out" using kp by auto
    then show ?thesis using pool_upd [OF assms(2) t(1) [OF thr_receive(2)] _ n, of "f pkt mh buf" out i] thr_receive(1) q by auto
  next
    case (thr_show a i out l p)
    then show ?thesis using pool_upd [OF assms(2) t(1) [OF thr_show(2)] _ n, of p "out @ [l]" i] t(2) [OF thr_show(2)] q by auto
  next
    case (thr_fork a i out p r j)
    have k: "keeps N Q P a (Fork_thread p r) out" using t(2) [OF thr_fork(2)] .
    have "run_inv N Q P (c\<lparr>net := net c, pool := (pool c)((a, j) \<mapsto> ([], p))\<rparr>)"
      using pool_upd [OF assms(2) t(1) [OF thr_fork(2)] _ _ q, of p "[]" j] k assms(2) by (simp add: run_inv_def)
    from pool_upd [OF this, of a "net c" r out i] show ?thesis using k t(1) [OF thr_fork(2)] q assms(2) thr_fork(1) by (simp add: run_inv_def)
  qed (use assms(2) n in \<open>auto simp: run_inv_def\<close>)
qed

text \<open>
  The contract: on every machine of \<open>M\<close> each of the programs that may be started there keeps to \<open>Q\<close> and \<open>P\<close>. Then every run does,
  whatever is lost and in whatever order the threads and devices take their steps, and a thread only stops at a call that has to
  wait, at its end, or when it sends to a machine that is gone.
\<close>

locale net_protocol =
  fixes N :: int and Q :: "int \<Rightarrow> int \<Rightarrow> message \<Rightarrow> bool" and P :: "int \<Rightarrow> net_line list \<Rightarrow> bool"
    and M :: "int set" and programs :: "int \<Rightarrow> PostOffice \<Rightarrow> prog set"
  assumes programs_keep: "a \<in> M \<Longrightarrow> GetIdent (network po) = a \<Longrightarrow> p \<in> programs a po \<Longrightarrow> keeps N Q P a p []"
begin

lemma init_inv:
  assumes "run_init N program c" "dom (offices (net c)) = M" "\<forall>a po. program a po \<in> programs a po"
  shows "run_inv N Q P c"
proof -
  have n: "net_init N (net c)" using assms(1) by (simp add: run_init_def)
  have "keeps N Q P a (program a po) []" if "offices (net c) a = Some po" for a po
  proof -
    have "a \<in> M" using that assms(2) by auto
    moreover have "GetIdent (network po) = a"
      using net_invD [OF net_init_inv [OF n] that] by (simp add: office_ok_def GetIdent_def)
    ultimately show ?thesis using programs_keep assms(3) by blast
  qed
  then show ?thesis using assms(1) net_init_inv [OF n] n by (auto simp: run_inv_def run_init_def net_init_def split: if_splits)
qed

lemma run_inv_reachable:
  assumes "run_step\<^sup>*\<^sup>* c0 c" "run_init N program c0" "dom (offices (net c0)) = M" "\<forall>a po. program a po \<in> programs a po"
  shows "run_inv N Q P c"
  using assms(1) by (induction rule: rtranclp_induct) (auto simp: init_inv [OF assms(2-4)] run_inv_step)

lemma output_allowed:
  assumes "run_step\<^sup>*\<^sup>* c0 c" "run_init N program c0" "dom (offices (net c0)) = M" "\<forall>a po. program a po \<in> programs a po"
    "pool c (a, i) = Some (out, p)"
  shows "P a out" "p \<noteq> Undefined"
  using run_invD(2) [OF run_inv_reachable [OF assms(1-4)] assms(5)] keeps_allowed by auto

lemma send_possible:
  assumes "run_inv N Q P c" "pool c (a, i) = Some (out, Send_to pkt mh data p)" "a \<notin> halted c"
    and "offices (net c) (pkt_to pkt) \<noteq> None" "pkt_to pkt \<notin> halted c"
  shows "\<exists>c'. run_step c c' \<and> pool c' (a, i) = Some (out, p) \<and> halted c' = halted c"
proof -
  have k: "sendable N pkt mh data" "offices (net c) a \<noteq> None" using run_invD [OF assms(1,2)] by simp_all
  then obtain po where po: "offices (net c) a = Some po" "office_ok a N po" using net_invD assms(1) by (auto simp: run_inv_def)
  let ?z = "replicate 52 (0 :: byte)"
  have z: "length ?z = MaxPacketSize" by simp
  obtain d po' where d: "PostOffice_Send 0 ?z ?z pkt mh data po = Inr (d, po')" "d \<noteq> None \<longrightarrow> (\<exists>bytes. d = Some (pkt_to pkt, bytes))"
    using PostOffice_Send_ok [OF po(2) k(1) z z, of 0] by (metis option.distinct(1))
  show ?thesis
  proof (cases d)
    case None
    have "PostOffice_Send 0 ?z ?z pkt mh data po = Inr (None, po')" using None d(1) by simp
    from thr_lost [OF assms(2,3) po(1) _ this] show ?thesis by (intro exI conjI) (simp, simp, simp)
  next
    case (Some x)
    then obtain bytes where x: "d = Some (pkt_to pkt, bytes)" using d(2) by auto
    have s: "PostOffice_Send 0 ?z ?z pkt mh data po = Inr (Some (pkt_to pkt, bytes), po')" using x d(1) by simp
    obtain q where "((offices (net c))(a \<mapsto> po')) (pkt_to pkt) = Some q" using assms(4) by fastforce
    from thr_send [OF assms(2,3) po(1) _ s this assms(5)] show ?thesis by (intro exI conjI) (simp, simp, simp)
  qed
qed

lemma receive_possible:
  assumes "run_inv N Q P c" "pool c (a, i) = Some (out, Receive_from k data f)" "a \<notin> halted c"
    and "offices (net c) a = Some po" "boxes po ! nat k \<noteq> []"
  shows "\<exists>c' pkt mh buf. run_step c c' \<and> pool c' (a, i) = Some (out, f pkt mh buf)"
proof -
  have k: "0 \<le> k" "k < N" "MaxMailSize \<le> length data" using run_invD(2) [OF assms(1,2)] by simp_all
  have "office_ok a N po" using net_invD assms(1,4) by (auto simp: run_inv_def)
  then obtain pkt mh buf po' where "PostOffice_Receive k data po = Inr ((pkt, mh, buf), po')"
    using PostOffice_Receive_ok [OF _ k, of a po] assms(5) by auto
  from thr_receive [OF assms(2-4) this] show ?thesis by (intro exI conjI) (assumption, simp)
qed

end

section \<open>The tests keep their contracts\<close>

lemma length_bytes_of [simp]: "length (bytes_of s) = length s"
  by (simp add: bytes_of_def)

text \<open>The literals of the tests as bytes: a text that has arrived whole in a buffer is read back.\<close>

lemma literal_read:
  assumes "take (length s + 1) buf = literal s" "0 \<notin> set (bytes_of s)"
  shows "as_text buf k = k (bytes_of s)"
proof -
  have "literal s @ drop (length s + 1) buf = buf" using append_take_drop_id [of "length s + 1" buf] unfolding assms(1) .
  then have "buf = bytes_of s @ 0 # drop (length s + 1) buf" by (simp add: literal_def)
  moreover from this have "0 \<in> set buf" by (metis in_set_conv_decomp)
  moreover have "cstr (bytes_of s @ 0 # ys) = bytes_of s" for ys
    unfolding cstr_append_zero using assms(2) by (auto simp: cstr_def takeWhile_eq_all_conv)
  ultimately show ?thesis unfolding as_text_def by metis
qed

text \<open>A message to box \<open>k\<close> from box \<open>j\<close> of machine \<open>a\<close> that consists of the text \<open>s\<close>.\<close>

definition text_msg :: "int \<Rightarrow> int \<Rightarrow> int \<Rightarrow> string \<Rightarrow> message \<Rightarrow> bool" where
  "text_msg a j k s m \<longleftrightarrow> (case m of (pkt, mh, data) \<Rightarrow> pkt_from pkt = a \<and> mail_from mh = j \<and> mail_to mh = k \<and> mail_length mh = length s + 1 \<and> data = literal s)"

lemma text_msg_sent:
  "take (length s + 1) data = literal s \<Longrightarrow> text_msg a j k s (sent_msg a pkt \<lparr>mail_to = k, mail_from = j, mail_length = length s + 1\<rparr> data)"
  by (simp add: text_msg_def sent_msg_def)

lemma text_msgD:
  assumes "text_msg a j k s (pkt, mh, take (mail_length mh) buf)"
  shows "pkt_from pkt = a" "mail_from mh = j" "take (length s + 1) buf = literal s"
    "0 \<notin> set (bytes_of s) \<Longrightarrow> as_text buf f = f (bytes_of s)"
proof -
  show t: "take (length s + 1) buf = literal s" "pkt_from pkt = a" "mail_from mh = j" using assms by (auto simp: text_msg_def)
  show "as_text buf f = f (bytes_of s)" if "0 \<notin> set (bytes_of s)" by (rule literal_read [OF t(1) that])
qed

lemma take_literal [simp]: "take (Suc (length s)) (literal s) = literal s" "length (literal s) = Suc (length s)"
  by (simp_all add: literal_def)

lemma plain_literals [simp]:
  "0 \<notin> set (bytes_of ''Hello there!'')" "0 \<notin> set (bytes_of ''Got it!'')" "0 \<notin> set (bytes_of ''token'')" "0 \<notin> set resend_text"
  by (simp_all add: bytes_of_def resend_text_def)

text \<open>The token ring.\<close>

definition ring_msg :: "int \<Rightarrow> int \<Rightarrow> message \<Rightarrow> bool" where
  "ring_msg b k m \<longleftrightarrow> k = b \<and> 1 \<le> b \<and> b \<le> 5 \<and> text_msg (b - 1) (b - 1) b ''token'' m"

definition ring_lines :: "int \<Rightarrow> net_line list" where
  "ring_lines a = (if a = 0 then [] else [Got (bytes_of ''token'') (a - 1) (a - 1)]) @ (if a < 5 then [Sended] else [])"

definition ring_programs :: "int \<Rightarrow> PostOffice \<Rightarrow> prog set" where
  "ring_programs a po = {LogicCycle po hdr buffer |hdr buffer. length buffer = MaxMailSize}"

interpretation ring: net_protocol 10 ring_msg "\<lambda>a out. prefix out (ring_lines a)" "{0..5}" ring_programs
proof
  fix a :: int and po p
  assume a: "a \<in> {0..5}" "GetIdent (network po) = a" "p \<in> ring_programs a po"
  then obtain hdr buffer where p: "p = LogicCycle po hdr buffer" "length buffer = 40" by (auto simp: ring_programs_def)
  let ?P = "\<lambda>a out. prefix out (ring_lines a)"
  show "keeps 10 ring_msg ?P a p []"
  proof (cases "a = 0")
    case True
    then show ?thesis using a(2) text_msg_sent [of "''token''" "literal ''token''" 0 0 1 "hdr\<lparr>pkt_to := 1\<rparr>"]
      by (simp add: p LogicCycle_def ring_msg_def ring_lines_def sendable_def mail_fits_def int32_ok_def)
  next
    case False
    have "keeps 10 ring_msg ?P a (as_text buf (\<lambda>t. Show (Got t (pkt_from pkt) (mail_from mh)) (
           if a < 5
           then Send_to (hdr\<lparr>pkt_to := a + 1\<rparr>) \<lparr>mail_to = a + 1, mail_from = a, mail_length = length t + 1\<rparr> buf (Show Sended Halt_machine)
           else Halt_machine))) []"
      if m: "ring_msg a a (pkt, mh, take (mail_length mh) buf)" and l: "length buf = 40" for pkt mh buf
    proof -
      have t: "text_msg (a - 1) (a - 1) a ''token'' (pkt, mh, take (mail_length mh) buf)" using m by (simp add: ring_msg_def)
      note h = text_msgD [OF t]
      have "ring_msg (a + 1) (a + 1) (sent_msg a (hdr\<lparr>pkt_to := a + 1\<rparr>) \<lparr>mail_to = a + 1, mail_from = a, mail_length = length ''token'' + 1\<rparr> buf)" if "a < 5"
        using that a(1) False text_msg_sent [OF h(3), of a a "a + 1"] by (simp add: ring_msg_def)
      then show ?thesis using a(1) False h(1,2) l unfolding h(4) [OF plain_literals(3)]
        by (simp add: ring_lines_def sendable_def mail_fits_def int32_ok_def)
    qed
    then show ?thesis using False a p(2) by (simp add: p(1) LogicCycle_def)
  qed
qed

text \<open>Two machines that greet each other.\<close>

definition greet_msg :: "int \<Rightarrow> int \<Rightarrow> message \<Rightarrow> bool" where
  "greet_msg b k m \<longleftrightarrow> b \<in> {0, 1} \<and> (k = 0 \<and> text_msg (1 - b) 1 0 ''Hello there!'' m \<or> k = 1 \<and> text_msg (1 - b) 1 1 ''Got it!'' m)"

definition greet_lines :: "int \<Rightarrow> net_line list" where
  "greet_lines a = [Got (bytes_of ''Hello there!'') (1 - a) 1, Got (bytes_of ''Got it!'') (1 - a) 1]"

definition greet_programs :: "int \<Rightarrow> PostOffice \<Rightarrow> prog set" where
  "greet_programs a po = {MailTest hdr buffer (1 - a) |hdr buffer. length buffer = MaxMailSize}"

interpretation greet: net_protocol 10 greet_msg "\<lambda>a out. prefix out (greet_lines a)" "{0, 1}" greet_programs
proof
  fix a :: int and po p
  assume a: "a \<in> {0, 1}" "GetIdent (network po) = a" "p \<in> greet_programs a po"
  then obtain hdr buffer where p: "p = MailTest hdr buffer (1 - a)" "length buffer = 40" by (auto simp: greet_programs_def)
  let ?P = "\<lambda>a out. prefix out (greet_lines a)"
  let ?mail = "\<lparr>mail_to = 0, mail_from = 1, mail_length = length ''Hello there!'' + 1\<rparr>"
  let ?first = "Got (bytes_of ''Hello there!'') (1 - a) 1"
  have last: "keeps 10 greet_msg ?P a (as_text buf (\<lambda>t. Show (Got t (pkt_from pkt) (mail_from mh)) Halt_machine)) [?first]"
    if "greet_msg a 1 (pkt, mh, take (mail_length mh) buf)" for pkt mh buf
  proof -
    have t: "text_msg (1 - a) 1 1 ''Got it!'' (pkt, mh, take (mail_length mh) buf)" using that by (simp add: greet_msg_def)
    note h = text_msgD [OF t]
    show ?thesis unfolding h(4) [OF plain_literals(2)] h(1,2) by (simp add: greet_lines_def)
  qed
  have middle: "keeps 10 greet_msg ?P a (as_text buf (\<lambda>t. Show (Got t (pkt_from pkt) (mail_from mh)) (
         Send_to (hdr\<lparr>pkt_to := pkt_from pkt\<rparr>) (?mail\<lparr>mail_to := mail_from mh, mail_length := length ''Got it!'' + 1\<rparr>) (literal ''Got it!'') (
         Receive_from 1 buf (\<lambda>inPktHdr inMailHdr buffer2.
         as_text buffer2 (\<lambda>t. Show (Got t (pkt_from inPktHdr) (mail_from inMailHdr)) Halt_machine)))))) []"
    if "greet_msg a 0 (pkt, mh, take (mail_length mh) buf)" "length buf = 40" for pkt mh buf
  proof -
    have t: "text_msg (1 - a) 1 0 ''Hello there!'' (pkt, mh, take (mail_length mh) buf)" using that by (simp add: greet_msg_def)
    note h = text_msgD [OF t]
    have "greet_msg (1 - a) 1 (sent_msg a (hdr\<lparr>pkt_to := 1 - a\<rparr>) \<lparr>mail_to = 1, mail_from = 1, mail_length = length ''Got it!'' + 1\<rparr> (literal ''Got it!''))"
      using a(1) text_msg_sent [of "''Got it!''" "literal ''Got it!''" a 1 1] by (auto simp: greet_msg_def)
    then show ?thesis using last that(2) a(1) unfolding h(4) [OF plain_literals(1)] h(1,2)
      by (auto simp: greet_lines_def sendable_def mail_fits_def int32_ok_def)
  qed
  have "greet_msg (1 - a) 0 (sent_msg a (hdr\<lparr>pkt_to := 1 - a\<rparr>) ?mail (literal ''Hello there!''))"
    using a(1) text_msg_sent [of "''Hello there!''" "literal ''Hello there!''" a 1 0] by (auto simp: greet_msg_def)
  then show "keeps 10 greet_msg ?P a p []" using middle p(2) a(1)
    by (auto simp: p(1) MailTest_def sendable_def mail_fits_def int32_ok_def greet_lines_def)
qed

text \<open>
  Sending with acknowledgement from machine 0 to machine 1. \<open>j\<close> is what the two headers of the caller hold that are printed
  uninitialised. A delay thread prints one line.
\<close>

definition wait_msg :: "int \<Rightarrow> int \<Rightarrow> message \<Rightarrow> bool" where
  "wait_msg b k m \<longleftrightarrow> b = 1 \<and> k = 1 \<and> text_msg 0 0 1 ''Hello there!'' m
     \<or> b = 0 \<and> k = 0 \<and> (text_msg 0 0 0 ''Resend'' m \<or> (\<exists>j. text_msg 1 j 0 ''Got it!'' m))"

definition retry_lines :: "net_line list" where
  "retry_lines = [MessageSended, Recu resend_text, NotSended]"

definition success_lines :: "int \<Rightarrow> int \<Rightarrow> net_line list" where
  "success_lines x y = [MessageSended, Recu (bytes_of ''Got it!''), Got (bytes_of ''Got it!'') x y]"

text \<open>What machine 0 prints: up to five failed attempts, or an attempt that succeeds after at most four; and machine 1.\<close>

definition wait_lines :: "int \<Rightarrow> net_line list \<Rightarrow> bool" where
  "wait_lines a out \<longleftrightarrow>
     (if a = 0 then prefix out (concat (replicate 5 retry_lines)) \<or> (\<exists>n<5. \<exists>x y. prefix out (concat (replicate n retry_lines) @ success_lines x y))
        \<or> prefix out [EndOfAckno]
      else prefix out [Got (bytes_of ''Hello there!'') 0 0, AckSended])"

definition wait_programs :: "int \<Rightarrow> PostOffice \<Rightarrow> prog set" where
  "wait_programs a po = {TestWait po hdr mhdr buffer hdrs inHdrs (1 - a) |hdr mhdr buffer hdrs inHdrs.
     length buffer = MaxMailSize \<and> int32_ok (mail_from mhdr)}"

lemma wait_lines_retry: "n < 5 \<Longrightarrow> prefix out (retry_lines) \<or> prefix out (success_lines x y) \<Longrightarrow> wait_lines 0 (concat (replicate n retry_lines) @ out)"
proof -
  assume n: "n < 5" and o: "prefix out retry_lines \<or> prefix out (success_lines x y)"
  have "replicate 5 retry_lines = replicate n retry_lines @ retry_lines # replicate (4 - n) retry_lines"
    using n by (metis replicate_app_Cons_same append_Cons replicate_Suc replicate_add Suc_diff_Suc add_diff_inverse_nat eval_nat_numeral(3) diff_Suc_Suc
        not_less_eq numeral_eq_Suc pred_numeral_simps(3))
  then have "concat (replicate 5 retry_lines) = concat (replicate n retry_lines) @ retry_lines @ concat (replicate (4 - n) retry_lines)" by simp
  moreover have "\<exists>m<5. \<exists>x y. prefix (concat (replicate n retry_lines) @ out) (concat (replicate m retry_lines) @ success_lines x y)"
    if "prefix out (success_lines x y)" using that n by (intro exI [of _ n] conjI exI [of _ x] exI [of _ y]) simp_all
  ultimately show ?thesis using o by (auto simp: wait_lines_def)
qed

lemma delay_keeps: "keeps 10 wait_msg wait_lines 0 (delay_thread hdr) []"
proof -
  have "wait_msg 0 0 (sent_msg 0 (hdr\<lparr>pkt_to := 0\<rparr>) \<lparr>mail_to = 0, mail_from = 0, mail_length = length ''Resend'' + 1\<rparr> (literal ''Resend''))"
    using text_msg_sent [of "''Resend''" "literal ''Resend''" 0 0 0] by (simp add: wait_msg_def)
  then have s: "keeps 10 wait_msg wait_lines 0 (send_all (map (\<lambda>i. (hdr\<lparr>pkt_to := 0\<rparr>, \<lparr>mail_to = 0, mail_from = 0, mail_length = length resend_text + 1\<rparr>, resend_text @ [0])) xs) p) []"
    if "keeps 10 wait_msg wait_lines 0 p []" for p and xs :: "nat list"
    using that by (induction xs) (simp_all add: sendable_def mail_fits_def int32_ok_def wait_lines_def literal_def resend_text_def)
  show ?thesis unfolding delay_thread_def DelayAck_def by (rule s) (simp add: wait_lines_def)
qed

text \<open>A message in box 0 of machine 0, as the text that is compared.\<close>

lemma wait_read:
  assumes "wait_msg 0 0 (pkt, mh, take (mail_length mh) buf)"
  obtains "as_text buf = (\<lambda>k. k resend_text)" | "as_text buf = (\<lambda>k. k (bytes_of ''Got it!''))"
proof -
  consider "text_msg 0 0 0 ''Resend'' (pkt, mh, take (mail_length mh) buf)" | j where "text_msg 1 j 0 ''Got it!'' (pkt, mh, take (mail_length mh) buf)"
    using assms by (auto simp: wait_msg_def)
  then show thesis
  proof cases
    case 1
    have "as_text buf k = k resend_text" for k using text_msgD(4) [OF 1, of k] plain_literals(4) by (simp add: resend_text_def)
    then show thesis using that(1) by blast
  next
    case 2
    have "as_text buf k = k (bytes_of ''Got it!'')" for k using text_msgD(4) [OF 2, of k] plain_literals(2) by simp
    then show thesis using that(2) by blast
  qed
qed

lemma reliable_keeps:
  assumes "length buffer = MaxMailSize" "reem + r = 5"
  shows "keeps 10 wait_msg wait_lines 0
    (reliable_thread (hdr\<lparr>pkt_to := 1\<rparr>, \<lparr>mail_to = 1, mail_from = 0, mail_length = length ''Hello there!'' + 1\<rparr>, literal ''Hello there!'') hdrs inHdrs reem buffer Halt_machine)
    (concat (replicate reem retry_lines))"
  using assms
proof (induction r arbitrary: reem buffer)
  case 0
  then show ?case by (simp add: reliable_thread.simps wait_lines_def)
next
  case (Suc r)
  let ?msg = "(hdr\<lparr>pkt_to := 1\<rparr>, \<lparr>mail_to = 1, mail_from = 0, mail_length = length ''Hello there!'' + 1\<rparr>, literal ''Hello there!'')"
  let ?done = "concat (replicate reem retry_lines)"
  let ?x = "pkt_from (fst inHdrs)" and ?y = "mail_from (snd inHdrs)"
  have n: "reem < 5" using Suc.prems(2) by simp
  have l: "wait_lines 0 (?done @ out)" if "prefix out retry_lines \<or> prefix out (success_lines ?x ?y)" for out
    using that wait_lines_retry [OF n, of out ?x ?y] by blast
  have o: "wait_lines 0 ?done" "wait_lines 0 (?done @ [MessageSended])" "wait_lines 0 (?done @ [MessageSended, Recu resend_text])"
      "wait_lines 0 (?done @ [MessageSended, Recu (bytes_of ''Got it!'')])" "wait_lines 0 (?done @ success_lines ?x ?y)"
    using l [of "[]"] l [of "[MessageSended]"] l [of "[MessageSended, Recu resend_text]"] l [of "[MessageSended, Recu (bytes_of ''Got it!'')]"] l [of "success_lines ?x ?y"]
    by (simp_all add: retry_lines_def success_lines_def)
  have ih: "keeps 10 wait_msg wait_lines 0 (reliable_thread ?msg hdrs inHdrs (Suc reem) buf Halt_machine) (?done @ retry_lines)" if "length buf = 40" for buf
    using Suc.IH [OF that, of "Suc reem"] Suc.prems(2) by (simp add: replicate_append_same [symmetric])
  have ne: "bytes_of ''Got it!'' \<noteq> resend_text" by (simp add: bytes_of_def resend_text_def)
  have "keeps 10 wait_msg wait_lines 0 (as_text buf (\<lambda>t. Show (Recu t) (
           if t = resend_text then Show NotSended (reliable_thread ?msg hdrs inHdrs (reem + 1) buf Halt_machine)
           else Show (Got t ?x ?y) Halt_machine))) (?done @ [MessageSended])"
    if "wait_msg 0 0 (pkt, mh, take (mail_length mh) buf) \<and> length buf = length buffer" for pkt mh buf
    by (rule wait_read [OF conjunct1 [OF that]]) (use o ih [of buf] that Suc.prems(1) ne in \<open>simp_all add: retry_lines_def success_lines_def\<close>)
  then have recv: "\<forall>pkt mh buf. wait_msg 0 0 (pkt, mh, take (mail_length mh) buf) \<and> length buf = length buffer \<longrightarrow>
      keeps 10 wait_msg wait_lines 0 (as_text buf (\<lambda>t. Show (Recu t) (
           if t = resend_text then Show NotSended (reliable_thread ?msg hdrs inHdrs (reem + 1) buf Halt_machine)
           else Show (Got t ?x ?y) Halt_machine))) (?done @ [MessageSended])" by blast
  have w: "wait_msg 1 1 (sent_msg 0 (hdr\<lparr>pkt_to := 1\<rparr>) \<lparr>mail_to = 1, mail_from = 0, mail_length = length ''Hello there!'' + 1\<rparr> (literal ''Hello there!''))"
    using text_msg_sent [of "''Hello there!''" "literal ''Hello there!''" 0 0 1] by (simp add: wait_msg_def)
  then show ?case unfolding reliable_thread.simps [of ?msg hdrs inHdrs reem] if_P [OF n] fst_conv snd_conv keeps.simps
    by (intro conjI o delay_keeps recv) (use w Suc.prems(1) in \<open>simp_all add: sendable_def mail_fits_def int32_ok_def\<close>)
qed

interpretation wait: net_protocol 10 wait_msg wait_lines "{0, 1}" wait_programs
proof
  fix a :: int and po p
  assume a: "a \<in> {0, 1}" "GetIdent (network po) = a" "p \<in> wait_programs a po"
  then obtain hdr mhdr buffer hdrs inHdrs where p: "p = TestWait po hdr mhdr buffer hdrs inHdrs (1 - a)" "length buffer = 40" "int32_ok (mail_from mhdr)"
    by (auto simp: wait_programs_def)
  show "keeps 10 wait_msg wait_lines a p []"
  proof (cases "a = 0")
    case True
    then show ?thesis using reliable_keeps [OF p(2), of 0 5 hdr hdrs inHdrs] a(2) by (simp add: p(1) TestWait_def)
  next
    case False
    have "keeps 10 wait_msg wait_lines 1 (as_text buf (\<lambda>t. Show (Got t (pkt_from pkt) (mail_from mh)) (
           Send_to (hdr\<lparr>pkt_to := pkt_from pkt\<rparr>) (mhdr\<lparr>mail_to := mail_from mh, mail_length := length ''Got it!'' + 1\<rparr>)
             (literal ''Got it!'') (Show AckSended Halt_machine)))) []"
      if m: "wait_msg 1 1 (pkt, mh, take (mail_length mh) buf)" for pkt mh buf
    proof -
      have t: "text_msg 0 0 1 ''Hello there!'' (pkt, mh, take (mail_length mh) buf)" using m by (simp add: wait_msg_def)
      note h = text_msgD [OF t]
      have e: "mhdr\<lparr>mail_to := 0, mail_length := n\<rparr> = \<lparr>mail_to = 0, mail_from = mail_from mhdr, mail_length = n\<rparr>" for n by simp
      have "wait_msg 0 0 (sent_msg 1 (hdr\<lparr>pkt_to := 0\<rparr>) (mhdr\<lparr>mail_to := 0, mail_length := length ''Got it!'' + 1\<rparr>) (literal ''Got it!''))"
        using text_msg_sent [of "''Got it!''" "literal ''Got it!''" 1 "mail_from mhdr" 0] unfolding wait_msg_def e by auto
      then show ?thesis using p(3) unfolding h(4) [OF plain_literals(1)] h(1,2)
        by (simp add: wait_lines_def sendable_def mail_fits_def int32_ok_def)
    qed
    then show ?thesis using False a p(2) by (simp add: p(1) TestWait_def wait_lines_def)
  qed
qed

section \<open>Properties\<close>


text \<open>Six machines on a reliable network; the first one sends the token and says so.\<close>

definition demo_ring :: run where
  "demo_ring = \<lparr>net = \<lparr>offices = (\<lambda>a. if 0 \<le> a \<and> a \<le> 5 then Some (PostOffice_new demo_hdr (replicate 52 0) (replicate 52 0) a 100 10) else None),
       sent = (\<lambda>_ _. []), got = (\<lambda>_ _. [])\<rparr>,
     pool = (\<lambda>(a, i). if i = 0 then map_option (\<lambda>po. ([], LogicCycle po demo_hdr (replicate 40 0)))
       (if 0 \<le> a \<and> a \<le> 5 then Some (PostOffice_new demo_hdr (replicate 52 0) (replicate 52 0) a 100 10) else None) else None),
     halted = {}\<rparr>"

lemma demo_ring_init:
  "run_init 10 (\<lambda>_ po. LogicCycle po demo_hdr (replicate 40 0)) demo_ring" "dom (offices (net demo_ring)) = {0..5}"
  "\<forall>a po. LogicCycle po demo_hdr (replicate 40 0) \<in> ring_programs a po"
proof -
  show "run_init 10 (\<lambda>_ po. LogicCycle po demo_hdr (replicate 40 0)) demo_ring"
    by (auto simp: run_init_def net_init_def demo_ring_def int32_ok_def split: if_splits
      intro!: exI [of _ demo_hdr] exI [of _ "replicate 52 0"] exI [of _ "100 :: int"])
  show "dom (offices (net demo_ring)) = {0..5}" by (auto simp: demo_ring_def split: if_splits)
  show "\<forall>a po. LogicCycle po demo_hdr (replicate 40 0) \<in> ring_programs a po"
    unfolding ring_programs_def by (intro allI CollectI exI [of _ demo_hdr] exI [of _ "replicate 40 0"]) simp
qed

lemma demo_ring_runs: "\<exists>c. run_step\<^sup>*\<^sup>* demo_ring c \<and> pool c (0, 0) = Some ([Sended], Halt_machine)"
proof -
  have i: "run_inv 10 ring_msg (\<lambda>a out. prefix out (ring_lines a)) demo_ring" by (rule ring.init_inv [OF demo_ring_init])
  have "GetIdent (network (PostOffice_new demo_hdr (replicate 52 0) (replicate 52 0) 0 100 10)) = 0"
    by (simp add: GetIdent_def PostOffice_new_def Network_new_def)
  then obtain pkt mh data where "pool demo_ring (0, 0) = Some ([], Send_to pkt mh data (Show Sended Halt_machine))" "pkt_to pkt = 1"
    by (simp add: demo_ring_def LogicCycle_def)
  from ring.send_possible [OF i this(1)] this(2) obtain c1
    where c1: "run_step demo_ring c1" "pool c1 (0, 0) = Some ([], Show Sended Halt_machine)" "halted c1 = {}"
    by (auto simp: demo_ring_def)
  then have "run_step c1 (c1\<lparr>pool := (pool c1)((0, 0) \<mapsto> ([] @ [Sended], Halt_machine))\<rparr>)" by (intro thr_show) simp_all
  then show ?thesis using c1(1) by (intro exI conjI) (rule rtranclp.rtrancl_into_rtrancl [OF r_into_rtranclp], assumption, assumption, simp)
qed


text \<open>
  No thread gets stuck. In a ring a thread that is about to send to a machine that is still running can always do so, and one that
  waits for a message goes on as soon as one is in its box.
\<close>

theorem ring_not_stuck:
  assumes "run_step\<^sup>*\<^sup>* c0 c" "run_init 10 program c0" "dom (offices (net c0)) = {0..5}" "\<forall>a po. program a po \<in> ring_programs a po" "a \<notin> halted c"
  shows "(pool c (a, i) = Some (out, Send_to pkt mh data p) \<and> offices (net c) (pkt_to pkt) \<noteq> None \<and> pkt_to pkt \<notin> halted c \<longrightarrow>
       (\<exists>c'. run_step c c' \<and> pool c' (a, i) = Some (out, p)))
     \<and> (pool c (a, i) = Some (out, Receive_from k data f) \<and> offices (net c) a = Some po \<and> boxes po ! nat k \<noteq> [] \<longrightarrow>
       (\<exists>c' pkt mh buf. run_step c c' \<and> pool c' (a, i) = Some (out, f pkt mh buf)))"
  using ring.run_inv_reachable [OF assms(1-4)] ring.send_possible [OF _ _ assms(5)] ring.receive_possible [OF _ _ assms(5)] by blast

end
