(* ===== verification/BitMapFile.thy ===== *)
theory BitMapFile
  imports OpenFile
begin

text \<open>
  Arrays of kernel objects kept in a Nachos file: what \<^verbatim>\<open>FetchFrom\<close> and \<^verbatim>\<open>WriteBack\<close> of the bitmap and of a directory
  do with their table, and the two methods of \<^verbatim>\<open>userprog/bitmap.cc\<close> themselves.
\<close>

section \<open>A table in a file\<close>

text \<open>
  \<^verbatim>\<open>file->WriteAt((char *)table, size, 0)\<close> and \<^verbatim>\<open>file->ReadAt((char *)table, size, 0)\<close>: a read that comes back short
  leaves the rest of the table as it was.
\<close>

definition store_table :: "(nat \<Rightarrow> byte) \<Rightarrow> ('a \<Rightarrow> byte list) \<Rightarrow> int \<Rightarrow> 'a list \<Rightarrow> OpenFile \<Rightarrow> SynchDisk \<Rightarrow> SynchDisk res" where
  "store_table mem enc nbytes tab f sd =
     bindR (OpenFile_WriteAt mem (enc_array enc tab) nbytes 0 f sd) (\<lambda>(_, sd'). Inr sd')"

definition load_table ::
  "nat \<Rightarrow> ('a \<Rightarrow> byte list) \<Rightarrow> (byte list \<Rightarrow> 'a) \<Rightarrow> int \<Rightarrow> 'a list \<Rightarrow> OpenFile \<Rightarrow> SynchDisk \<Rightarrow> ('a list \<times> SynchDisk) res" where
  "load_table w enc dec nbytes tab f sd =
     bindR (OpenFile_ReadAt nbytes 0 f sd) (\<lambda>(bs, sd').
     Inr (dec_array w dec (length tab) (bs @ drop (length bs) (enc_array enc tab)), sd'))"

text \<open>The table a file holds: its first \<open>n\<close> objects.\<close>

definition stored :: "nat \<Rightarrow> (byte list \<Rightarrow> 'a) \<Rightarrow> nat \<Rightarrow> FileHeader \<Rightarrow> SynchDisk \<Rightarrow> 'a list" where
  "stored w dec n h sd = dec_array w dec n (file_bytes h sd)"

text \<open>Everything outside the file's own sectors is as before.\<close>

definition others_kept :: "FileHeader \<Rightarrow> SynchDisk \<Rightarrow> SynchDisk \<Rightarrow> bool" where
  "others_kept h sd sd' \<longleftrightarrow> (\<forall>j. 0 \<le> j \<longrightarrow> j \<notin> set (file_sectors h) \<longrightarrow> sector sd' j = sector sd j)"

lemma file_bytes_cong: "(\<forall>j\<in>set (file_sectors h). sector sd' j = sector sd j) \<Longrightarrow> file_bytes h sd' = file_bytes h sd"
  by (simp add: file_bytes_def raw_bytes_def cong: map_cong)

lemma file_bytes_others:
  assumes "others_kept h sd sd'" "file_ok h2" "set (file_sectors h2) \<inter> set (file_sectors h) = {}"
  shows "file_bytes h2 sd' = file_bytes h2 sd"
  using assms by (intro file_bytes_cong) (auto simp: others_kept_def file_ok_def)

text \<open>Only the bytes below \<open>w * n\<close> matter for the first \<open>n\<close> objects.\<close>

lemma dec_array_cong:
  assumes "take (w * n) bs = take (w * n) bs'"
  shows "dec_array w dec n bs = dec_array w dec n bs'"
proof -
  have "take w (drop (i * w) bs) = take w (drop (i * w) bs')" if "i < n" for i
  proof -
    have "i * w + w \<le> w * n" using that by (metis Suc_leI add.commute mult.commute mult_Suc mult_le_mono1)
    then have "take w (drop (i * w) (take (w * n) bs)) = take w (drop (i * w) bs)"
      "take w (drop (i * w) (take (w * n) bs')) = take w (drop (i * w) bs')"
      by (simp_all add: take_drop min_def)
    then show ?thesis using assms by metis
  qed
  then show ?thesis by (simp add: dec_array_def)
qed

lemma load_table_ok:
  assumes "file_ok (hdr f)" "sd_ok sd" "int (w * length tab) = nbytes" "nbytes \<le> numBytes (hdr f)"
  shows "\<exists>sd'. load_table w enc dec nbytes tab f sd = Inr (stored w dec (length tab) (hdr f) sd, sd') \<and> sd_ok sd' \<and> sector sd' = sector sd"
proof -
  have fl: "length (file_bytes (hdr f) sd) = nat (numBytes (hdr f))" "numBytes (hdr f) \<le> 3840"
    using sectors_length(4,5) [OF assms(1)] by simp_all
  have s: "0 \<le> nbytes" "nat nbytes = w * length tab" using assms(3) by linarith+
  then have i: "int32_ok (0 + nbytes)" using assms(4) fl(2) by (simp add: int32_ok_def)
  obtain sd' where "OpenFile_ReadAt nbytes 0 f sd = Inr (take (nat nbytes) (file_bytes (hdr f) sd), sd')" "sd_ok sd'" "sector sd' = sector sd"
    using ReadAt_ok [OF assms(1,2), of 0 nbytes] i by auto
  moreover have "dec_array w dec (length tab) (take (nat nbytes) (file_bytes (hdr f) sd) @ zs) = stored w dec (length tab) (hdr f) sd" for zs
    unfolding stored_def using fl assms(4) s by (intro dec_array_cong) simp
  ultimately show ?thesis by (simp add: load_table_def)
qed

text \<open>For an encoding that keeps its contract, what is stored is what is loaded.\<close>

context byte_codec
begin

lemma store_table_ok:
  assumes "file_ok (hdr f)" "sd_ok sd" "\<forall>x\<in>set tab. fits x" "int (width * length tab) = nbytes" "nbytes \<le> numBytes (hdr f)"
  shows "\<exists>sd'. store_table mem enc nbytes tab f sd = Inr sd' \<and> sd_ok sd' \<and> others_kept (hdr f) sd sd'
     \<and> stored width dec (length tab) (hdr f) sd' = tab"
proof -
  let ?bs = "enc_array enc tab" and ?fb = "file_bytes (hdr f)"
  have l: "length ?bs = nat nbytes" "0 \<le> nbytes" using length_enc_array [OF assms(3)] assms(4) by linarith+
  have fl: "length (?fb sd) = nat (numBytes (hdr f))" "numBytes (hdr f) \<le> 3840"
    using sectors_length(4,5) [OF assms(1)] by simp_all
  have "int32_ok (0 + nbytes)" using fl assms(5) l by (simp add: int32_ok_def)
  then obtain sd' m where w: "OpenFile_WriteAt mem ?bs nbytes 0 f sd = Inr (m, sd')" "sd_ok sd'"
     "?fb sd' = overwrite (?fb sd) 0 (take (nat (max 0 (min nbytes (numBytes (hdr f) - 0)))) ?bs)"
     "\<forall>j. 0 \<le> j \<longrightarrow> j \<notin> set (file_sectors (hdr f)) \<longrightarrow> sector sd' j = sector sd j"
    using WriteAt_ok [OF assms(1,2), of 0 nbytes ?bs mem] assms(5) l by auto
  have "?fb sd' = ?bs @ drop (length ?bs) (?fb sd)"
    using w(3) l fl assms(5) by (simp add: overwrite_def)
  then have "stored width dec (length tab) (hdr f) sd' = tab"
    unfolding stored_def using dec_enc_array [OF assms(3)] by simp
  then show ?thesis using w by (simp add: store_table_def others_kept_def)
qed

end

section \<open>The bitmap in its file\<close>

definition BitMap_FetchFrom :: "OpenFile \<Rightarrow> BitMap \<Rightarrow> SynchDisk \<Rightarrow> (BitMap \<times> SynchDisk) res" where
  "BitMap_FetchFrom f bm sd =
     bindR (load_table 4 enc_word dec_word (numWords bm * 4) (bmap bm) f sd) (\<lambda>(ws, sd'). Inr (bm\<lparr>bmap := ws\<rparr>, sd'))"

definition BitMap_WriteBack :: "(nat \<Rightarrow> byte) \<Rightarrow> OpenFile \<Rightarrow> BitMap \<Rightarrow> SynchDisk \<Rightarrow> SynchDisk res" where
  "BitMap_WriteBack mem f bm sd = store_table mem enc_word (numWords bm * 4) (bmap bm) f sd"

text \<open>The bitmap of \<open>n\<close> words that a file holds.\<close>

definition stored_map :: "int \<Rightarrow> FileHeader \<Rightarrow> SynchDisk \<Rightarrow> BitMap" where
  "stored_map nw h sd = \<lparr>numBits = 32 * nw, numWords = nw, bmap = stored 4 dec_word (nat nw) h sd\<rparr>"

lemma length_stored [simp]: "length (stored w dec n h sd) = n"
  by (simp add: stored_def dec_array_def)

lemma stored_map_wf: "0 \<le> nw \<Longrightarrow> BitMap_wf (stored_map nw h sd)"
  by (simp add: BitMap_wf_def stored_map_def)

lemma BitMap_FetchFrom_ok:
  assumes "file_ok (hdr f)" "sd_ok sd" "numWords bm = int (length (bmap bm))" "numBits bm = 32 * numWords bm"
    and "4 * numWords bm \<le> numBytes (hdr f)"
  shows "\<exists>sd'. BitMap_FetchFrom f bm sd = Inr (stored_map (numWords bm) (hdr f) sd, sd') \<and> sd_ok sd' \<and> sector sd' = sector sd"
proof -
  obtain sd' where "load_table 4 enc_word dec_word (numWords bm * 4) (bmap bm) f sd
      = Inr (stored 4 dec_word (length (bmap bm)) (hdr f) sd, sd')" "sd_ok sd'" "sector sd' = sector sd"
    using load_table_ok [OF assms(1,2), of 4 "bmap bm" "numWords bm * 4" enc_word dec_word] assms(3,5) by auto
  then show ?thesis using assms(3,4) by (cases bm) (simp add: BitMap_FetchFrom_def stored_map_def)
qed

lemma BitMap_WriteBack_ok:
  assumes "file_ok (hdr f)" "sd_ok sd" "numWords bm = int (length (bmap bm))" "numBits bm = 32 * numWords bm"
    and "4 * numWords bm \<le> numBytes (hdr f)"
  shows "\<exists>sd'. BitMap_WriteBack mem f bm sd = Inr sd' \<and> sd_ok sd' \<and> others_kept (hdr f) sd sd'
     \<and> stored_map (numWords bm) (hdr f) sd' = bm"
proof -
  obtain sd' where "store_table mem enc_word (numWords bm * 4) (bmap bm) f sd = Inr sd'" "sd_ok sd'" "others_kept (hdr f) sd sd'"
     "stored 4 dec_word (length (bmap bm)) (hdr f) sd' = bmap bm"
    using word_codec.store_table_ok [OF assms(1,2), of "bmap bm" "numWords bm * 4" mem] assms(3,5) by auto
  then show ?thesis using assms(3,4) by (cases bm) (simp add: BitMap_WriteBack_def stored_map_def)
qed

section \<open>Properties\<close>

text \<open>
  A bitmap written back to its file and fetched again, into whatever bitmap object of the same
  size, is the same bitmap; sectors outside the file keep their content.
\<close>

theorem bitmap_writeback_fetch:
  assumes "file_ok (hdr f)" "sd_ok sd" "numWords bm = int (length (bmap bm))" "numBits bm = 32 * numWords bm"
    and "4 * numWords bm \<le> numBytes (hdr f)" "numWords bm' = numWords bm" "numBits bm' = numBits bm" "length (bmap bm') = length (bmap bm)"
  shows "\<exists>sd1 sd2. BitMap_WriteBack mem f bm sd = Inr sd1 \<and> BitMap_FetchFrom f bm' sd1 = Inr (bm, sd2)
     \<and> sd_ok sd2 \<and> others_kept (hdr f) sd sd2"
proof -
  obtain sd1 where w: "BitMap_WriteBack mem f bm sd = Inr sd1" "sd_ok sd1" "others_kept (hdr f) sd sd1"
     "stored_map (numWords bm) (hdr f) sd1 = bm"
    using BitMap_WriteBack_ok [OF assms(1-5)] by blast
  then show ?thesis using BitMap_FetchFrom_ok [OF assms(1) w(2), of bm'] assms(3-8) by (auto simp: others_kept_def)
qed

theorem bitmap_writeback_fetch_witness:
  "\<exists>sd1 sd2. BitMap_WriteBack (\<lambda>_. 0) demo_file demo_map demo_disk = Inr sd1
     \<and> BitMap_FetchFrom demo_file (demo_map\<lparr>bmap := [0, 0, 0]\<rparr>) sd1 = Inr (demo_map, sd2)"
  using bitmap_writeback_fetch [OF demo_file_ok demo_disk_ok, of demo_map "demo_map\<lparr>bmap := [0, 0, 0]\<rparr>" "\<lambda>_. 0"]
  by (auto simp: demo_map_def demo_file_def)

end
