(* ===== verification/Directory.thy ===== *)
theory Directory
  imports BitMapFile
begin

text \<open>
  \<^verbatim>\<open>filesys/directory.cc\<close>: a directory as a table of entries, in memory and in its file, and the map from names to
  header sectors it implements.
\<close>

section \<open>Operations\<close>

abbreviation (input) FileNameMaxLen :: nat where "FileNameMaxLen \<equiv> 9"

record DirectoryEntry =
  inUse :: bool
  dsector :: int
  ename :: "byte list"
  isDirectory :: bool

record Directory =
  tableSize :: int
  table :: "DirectoryEntry list"

text \<open>The constructor clears \<^verbatim>\<open>inUse\<close> of every entry and nothing else; \<open>mem\<close> is what the new array held.\<close>

definition Directory_new :: "(nat \<Rightarrow> DirectoryEntry) \<Rightarrow> int \<Rightarrow> Directory" where
  "Directory_new mem sz = \<lparr>tableSize = sz, table = map (\<lambda>i. (mem i)\<lparr>inUse := False\<rparr>) [0..<nat sz]\<rparr>"

text \<open>The loop the methods share: the first entry from \<open>i\<close> on that satisfies \<open>P\<close>.\<close>

definition first_from :: "(DirectoryEntry \<Rightarrow> bool) \<Rightarrow> int \<Rightarrow> Directory \<Rightarrow> int res" where
  "first_from P i d = scan P i (tableSize d) (table d)"

definition Directory_FindIndex :: "byte list \<Rightarrow> Directory \<Rightarrow> int res" where
  "Directory_FindIndex nm d = first_from (\<lambda>e. inUse e \<and> strneq FileNameMaxLen (ename e) nm) 0 d"

definition Directory_Find :: "byte list \<Rightarrow> Directory \<Rightarrow> int res" where
  "Directory_Find nm d =
     bindR (Directory_FindIndex nm d) (\<lambda>i.
       if i \<noteq> -1 then bindR (arr_get (table d) i) (\<lambda>e. Inr (dsector e)) else Inr (-1))"

definition Directory_Add :: "byte list \<Rightarrow> bool \<Rightarrow> int \<Rightarrow> int \<Rightarrow> Directory \<Rightarrow> Directory res" where
  "Directory_Add nm isDir i sec d =
     bindR (arr_get (table d) i) (\<lambda>e.
     bindR (arr_set (table d) i
        (e\<lparr>inUse := True, isDirectory := isDir, dsector := sec, ename := strncpy FileNameMaxLen (ename e) nm\<rparr>)) (\<lambda>t.
     Inr (d\<lparr>table := t\<rparr>)))"

definition Directory_AddFile :: "byte list \<Rightarrow> int \<Rightarrow> Directory \<Rightarrow> (bool \<times> Directory) res" where
  "Directory_AddFile nm sec d =
     bindR (Directory_FindIndex nm d) (\<lambda>k. if k \<noteq> -1 then Inr (False, d)
       else bindR (first_from (\<lambda>e. \<not> inUse e) 0 d) (\<lambda>i. if i = -1 then Inr (False, d)
       else bindR (Directory_Add nm False i sec d) (\<lambda>d'. Inr (True, d'))))"

definition Directory_AddDir :: "byte list \<Rightarrow> int \<Rightarrow> Directory \<Rightarrow> (bool \<times> Directory) res" where
  "Directory_AddDir nm sec d =
     bindR (Directory_FindIndex nm d) (\<lambda>k. if k \<noteq> -1 then Inr (False, d)
       else bindR (first_from (\<lambda>e. \<not> inUse e) 0 d) (\<lambda>i. if i = -1 then Inr (False, d)
       else bindR (Directory_Add nm True i sec d) (\<lambda>d'. Inr (True, d'))))"

definition dot :: "byte list" where "dot = [0x2E]"
definition dotdot :: "byte list" where "dotdot = [0x2E, 0x2E]"

definition Directory_AddSpecialDir :: "int \<Rightarrow> int \<Rightarrow> Directory \<Rightarrow> (bool \<times> Directory) res" where
  "Directory_AddSpecialDir sec sec' d =
     bindR (arr_get (table d) 0) (\<lambda>e0.
     bindR (if inUse e0 then Inr True else bindR (arr_get (table d) 1) (\<lambda>e1. Inr (inUse e1))) (\<lambda>used.
     if used then Inr (False, d)
     else bindR (Directory_Add dot True 0 sec d) (\<lambda>d1.
          bindR (Directory_Add dotdot True 1 sec' d1) (\<lambda>d2. Inr (True, d2)))))"

definition Directory_Remove :: "byte list \<Rightarrow> Directory \<Rightarrow> (bool \<times> Directory) res" where
  "Directory_Remove nm d =
     bindR (Directory_FindIndex nm d) (\<lambda>i. if i = -1 then Inr (False, d)
       else bindR (arr_get (table d) i) (\<lambda>e.
            bindR (arr_set (table d) i (e\<lparr>inUse := False\<rparr>)) (\<lambda>t. Inr (True, d\<lparr>table := t\<rparr>))))"

definition Directory_RemoveFile :: "byte list \<Rightarrow> Directory \<Rightarrow> (bool \<times> Directory) res" where
  "Directory_RemoveFile nm d = Directory_Remove nm d"

definition Directory_RemoveDir :: "byte list \<Rightarrow> Directory \<Rightarrow> (bool \<times> Directory) res" where
  "Directory_RemoveDir nm d =
     bindR (Directory_Remove nm d) (\<lambda>(b, d'). if b then Inr (True, d') else Inr (False, d'))"

definition Directory_IsADir :: "int \<Rightarrow> Directory \<Rightarrow> bool res" where
  "Directory_IsADir sec d =
     bindR (first_from (\<lambda>e. dsector e = sec) 0 d) (\<lambda>i.
       if i \<noteq> -1 then bindR (arr_get (table d) i) (\<lambda>e. Inr (isDirectory e)) else Inr False)"

definition Directory_IsEmpty :: "Directory \<Rightarrow> bool res" where
  "Directory_IsEmpty d = bindR (first_from inUse 2 d) (\<lambda>i. Inr (i = -1))"

definition Directory_IsFull :: "Directory \<Rightarrow> bool res" where
  "Directory_IsFull d = bindR (first_from (\<lambda>e. \<not> inUse e) 2 d) (\<lambda>i. Inr (i = -1))"

text \<open>
  \<^verbatim>\<open>List\<close> and \<^verbatim>\<open>Print\<close>: the rows they print. Printing a name reads it up to its NUL.
\<close>

definition entry_name :: "DirectoryEntry \<Rightarrow> byte list res" where
  "entry_name e = (if 0 \<in> set (ename e) then Inr (cstr (ename e)) else Inl OutOfBounds)"

definition List_row :: "DirectoryEntry \<Rightarrow> SynchDisk \<Rightarrow> ((byte list \<times> bool \<times> int) \<times> SynchDisk) res" where
  "List_row e sd =
     bindR (FileHeader_FetchFrom (dsector e) sd) (\<lambda>(h, sd').
     bindR (entry_name e) (\<lambda>nm. Inr ((nm, isDirectory e, FileHeader_FileLength h sdiv 8), sd')))"

definition Directory_List :: "Directory \<Rightarrow> SynchDisk \<Rightarrow> ((byte list \<times> bool \<times> int) list \<times> SynchDisk) res" where
  "Directory_List d sd = mapR List_row (filter inUse (take (nat (tableSize d)) (table d))) sd"

definition Print_row ::
  "DirectoryEntry \<Rightarrow> SynchDisk \<Rightarrow> ((byte list \<times> bool \<times> int \<times> int \<times> int list \<times> byte list) \<times> SynchDisk) res" where
  "Print_row e sd =
     bindR (entry_name e) (\<lambda>nm.
     bindR (FileHeader_FetchFrom (dsector e) sd) (\<lambda>(h, sd1).
     bindR (FileHeader_Print h sd1) (\<lambda>(out, sd2). Inr ((nm, isDirectory e, dsector e, out), sd2))))"

definition Directory_Print ::
  "Directory \<Rightarrow> SynchDisk \<Rightarrow> ((byte list \<times> bool \<times> int \<times> int \<times> int list \<times> byte list) list \<times> SynchDisk) res" where
  "Directory_Print d sd = mapR Print_row (filter inUse (take (nat (tableSize d)) (table d))) sd"

text \<open>
  An entry as its 20 bytes: \<^verbatim>\<open>inUse\<close> at offset 0, \<^verbatim>\<open>sector\<close> at 4, \<^verbatim>\<open>name\<close> at 8, \<^verbatim>\<open>isDirectory\<close> at 18; the padding
  between them is written as zeros.
\<close>

definition enc_bool :: "bool \<Rightarrow> byte" where "enc_bool b = (if b then 1 else 0)"

definition enc_entry :: "DirectoryEntry \<Rightarrow> byte list" where
  "enc_entry e = [enc_bool (inUse e), 0, 0, 0] @ enc_int (dsector e) @ ename e @ [enc_bool (isDirectory e), 0]"

definition dec_entry :: "byte list \<Rightarrow> DirectoryEntry" where
  "dec_entry bs = \<lparr>inUse = (bs ! 0 \<noteq> 0), dsector = dec_int (take 4 (drop 4 bs)),
     ename = take 10 (drop 8 bs), isDirectory = (bs ! 18 \<noteq> 0)\<rparr>"

abbreviation (input) entry_size :: nat where "entry_size \<equiv> 20"

definition Directory_FetchFrom :: "OpenFile \<Rightarrow> Directory \<Rightarrow> SynchDisk \<Rightarrow> (Directory \<times> SynchDisk) res" where
  "Directory_FetchFrom f d sd =
     bindR (load_table entry_size enc_entry dec_entry (tableSize d * int entry_size) (table d) f sd) (\<lambda>(t, sd').
     Inr (d\<lparr>table := t\<rparr>, sd'))"

definition Directory_WriteBack :: "(nat \<Rightarrow> byte) \<Rightarrow> OpenFile \<Rightarrow> Directory \<Rightarrow> SynchDisk \<Rightarrow> SynchDisk res" where
  "Directory_WriteBack mem f d sd = store_table mem enc_entry (tableSize d * int entry_size) (table d) f sd"

section \<open>The directory in its file\<close>

definition entry_fits :: "DirectoryEntry \<Rightarrow> bool" where
  "entry_fits e \<longleftrightarrow> int32_ok (dsector e) \<and> length (ename e) = 10"

interpretation entry_codec: byte_codec entry_size enc_entry dec_entry entry_fits
proof
  fix e :: DirectoryEntry assume e: "entry_fits e"
  then show "length (enc_entry e) = entry_size" by (simp add: enc_entry_def entry_fits_def)
  have "(enc_int (dsector e) @ ename e @ [enc_bool (isDirectory e), 0]) ! 14 = enc_bool (isDirectory e)"
    using e by (simp add: entry_fits_def nth_append)
  then show "dec_entry (enc_entry e) = e"
    using e int_codec.dec_enc [of "dsector e"]
    by (simp add: enc_entry_def dec_entry_def entry_fits_def enc_bool_def nth_Cons')
qed


text \<open>The directory of \<open>n\<close> entries that a file holds.\<close>

definition stored_dir :: "int \<Rightarrow> FileHeader \<Rightarrow> SynchDisk \<Rightarrow> Directory" where
  "stored_dir n h sd = \<lparr>tableSize = n, table = stored entry_size dec_entry (nat n) h sd\<rparr>"

lemma Directory_FetchFrom_ok:
  assumes "file_ok (hdr f)" "sd_ok sd" "tableSize d = int (length (table d))" "int entry_size * tableSize d \<le> numBytes (hdr f)"
  shows "\<exists>sd'. Directory_FetchFrom f d sd = Inr (stored_dir (tableSize d) (hdr f) sd, sd') \<and> sd_ok sd' \<and> sector sd' = sector sd"
proof -
  obtain sd' where "load_table entry_size enc_entry dec_entry (tableSize d * int entry_size) (table d) f sd
      = Inr (stored entry_size dec_entry (length (table d)) (hdr f) sd, sd')" "sd_ok sd'" "sector sd' = sector sd"
    using load_table_ok [OF assms(1,2), of entry_size "table d" "tableSize d * int entry_size" enc_entry dec_entry] assms(3,4) by auto
  then show ?thesis using assms(3) by (cases d) (simp add: Directory_FetchFrom_def stored_dir_def)
qed

lemma Directory_WriteBack_ok:
  assumes "file_ok (hdr f)" "sd_ok sd" "tableSize d = int (length (table d))" "int entry_size * tableSize d \<le> numBytes (hdr f)"
    and "\<forall>e\<in>set (table d). entry_fits e"
  shows "\<exists>sd'. Directory_WriteBack mem f d sd = Inr sd' \<and> sd_ok sd' \<and> others_kept (hdr f) sd sd'
     \<and> stored_dir (tableSize d) (hdr f) sd' = d"
proof -
  obtain sd' where "store_table mem enc_entry (tableSize d * int entry_size) (table d) f sd = Inr sd'" "sd_ok sd'" "others_kept (hdr f) sd sd'"
     "stored entry_size dec_entry (length (table d)) (hdr f) sd' = table d"
    using entry_codec.store_table_ok [OF assms(1,2,5), of "tableSize d * int entry_size" mem] assms(3,4) by auto
  then show ?thesis using assms(3) by (cases d) (simp add: Directory_WriteBack_def stored_dir_def)
qed

section \<open>The contract of a name table\<close>

text \<open>
  What a client relies on: a partial map from keys to values with bounded room. \<open>key\<close> is the part of a name that
  counts, \<open>code\<close> the way a lookup reports its result.
\<close>

locale name_table =
  fixes good :: "'s \<Rightarrow> bool"
    and view :: "'s \<Rightarrow> 'k \<Rightarrow> 'v option"
    and room :: "'s \<Rightarrow> bool"
    and key :: "'n \<Rightarrow> 'k"
    and code :: "'v option \<Rightarrow> 'r"
    and find :: "'n \<Rightarrow> 's \<Rightarrow> 'r res"
    and add :: "'n \<Rightarrow> 'v \<Rightarrow> 's \<Rightarrow> (bool \<times> 's) res"
    and remove :: "'n \<Rightarrow> 's \<Rightarrow> (bool \<times> 's) res"
  assumes find_ok: "good s \<Longrightarrow> find n s = Inr (code (view s (key n)))"
    and add_ok: "good s \<Longrightarrow> view s (key n) = None \<Longrightarrow> room s \<Longrightarrow>
          \<exists>s'. add n v s = Inr (True, s') \<and> good s' \<and> view s' = (view s)(key n \<mapsto> v)"
    and add_no: "good s \<Longrightarrow> view s (key n) \<noteq> None \<or> \<not> room s \<Longrightarrow> add n v s = Inr (False, s)"
    and remove_ok: "good s \<Longrightarrow> view s (key n) \<noteq> None \<Longrightarrow>
          \<exists>s'. remove n s = Inr (True, s') \<and> good s' \<and> room s' \<and> view s' = (view s)(key n := None)"
    and remove_no: "good s \<Longrightarrow> view s (key n) = None \<Longrightarrow> remove n s = Inr (False, s)"
begin

lemma add_then_find:
  assumes "good s" "view s (key n) = None" "room s"
  shows "\<exists>s'. add n v s = Inr (True, s') \<and> good s' \<and> find n s' = Inr (code (Some v))
     \<and> (\<forall>m. key m \<noteq> key n \<longrightarrow> find m s' = find m s)"
  using add_ok [OF assms, of v] assms(1) find_ok by fastforce

lemma add_then_remove:
  assumes "good s" "view s (key n) = None" "room s"
  shows "\<exists>s1 s2. add n v s = Inr (True, s1) \<and> remove n s1 = Inr (True, s2) \<and> good s2 \<and> view s2 = view s"
proof -
  obtain s1 where s1: "add n v s = Inr (True, s1)" "good s1" "view s1 = (view s)(key n \<mapsto> v)"
    using add_ok [OF assms] by blast
  then obtain s2 where "remove n s1 = Inr (True, s2)" "good s2" "view s2 = (view s1)(key n := None)"
    using remove_ok [OF s1(2), of n] by auto
  then show ?thesis using s1 assms(2) by (intro exI [of _ s1] exI [of _ s2]) auto
qed

lemma remove_then_add:
  assumes "good s" "view s (key n) \<noteq> None"
  shows "\<exists>s1 s2. remove n s = Inr (True, s1) \<and> add n v s1 = Inr (True, s2) \<and> good s2 \<and> view s2 = (view s)(key n \<mapsto> v)"
proof -
  obtain s1 where s1: "remove n s = Inr (True, s1)" "good s1" "room s1" "view s1 = (view s)(key n := None)"
    using remove_ok [OF assms] by blast
  then show ?thesis using add_ok [OF s1(2), of n v] by auto
qed

end

section \<open>The directory is a name table\<close>

text \<open>Two names are the same if they agree up to \<^verbatim>\<open>FileNameMaxLen\<close> characters.\<close>

definition name_key :: "byte list \<Rightarrow> byte list" where
  "name_key nm = take FileNameMaxLen (cstr nm)"

definition entry_pair :: "DirectoryEntry \<Rightarrow> byte list \<times> int \<times> bool" where
  "entry_pair e = (name_key (ename e), dsector e, isDirectory e)"

definition dir_pairs :: "DirectoryEntry list \<Rightarrow> (byte list \<times> int \<times> bool) list" where
  "dir_pairs t = map entry_pair (filter inUse t)"

definition dir_map :: "Directory \<Rightarrow> byte list \<Rightarrow> (int \<times> bool) option" where
  "dir_map d = map_of (dir_pairs (table d))"

definition dir_wf :: "Directory \<Rightarrow> bool" where
  "dir_wf d \<longleftrightarrow> tableSize d = int (length (table d)) \<and> (\<forall>e\<in>set (table d). length (ename e) = 10)
     \<and> distinct (map fst (dir_pairs (table d)))"

definition dir_room :: "Directory \<Rightarrow> bool" where
  "dir_room d \<longleftrightarrow> (\<exists>e\<in>set (table d). \<not> inUse e)"

definition find_code :: "(int \<times> bool) option \<Rightarrow> int" where
  "find_code r = (case r of None \<Rightarrow> -1 | Some (sec, _) \<Rightarrow> sec)"

definition dir_add :: "byte list \<Rightarrow> int \<times> bool \<Rightarrow> Directory \<Rightarrow> (bool \<times> Directory) res" where
  "dir_add nm v d = (if snd v then Directory_AddDir nm (fst v) d else Directory_AddFile nm (fst v) d)"

lemma first_from_cases:
  assumes "dir_wf d"
  obtains (none) "first_from P 0 d = Inr (-1)" "\<forall>e\<in>set (table d). \<not> P e"
    | (some) j where "first_from P 0 d = Inr (int j)" "j < length (table d)" "P (table d ! j)"
  using assms by (rule_tac scan_cases [of P "table d"]) (auto simp: first_from_def dir_wf_def)

lemma FindIndex_cases:
  assumes "dir_wf d"
  obtains (none) "Directory_FindIndex nm d = Inr (-1)" "dir_map d (name_key nm) = None"
    | (some) j where "Directory_FindIndex nm d = Inr (int j)" "j < length (table d)" "inUse (table d ! j)"
        "name_key (ename (table d ! j)) = name_key nm"
        "dir_map d (name_key nm) = Some (dsector (table d ! j), isDirectory (table d ! j))"
proof -
  let ?P = "\<lambda>e. inUse e \<and> strneq FileNameMaxLen (ename e) nm"
  have P: "?P e \<longleftrightarrow> inUse e \<and> name_key (ename e) = name_key nm" for e
    by (simp add: strneq_iff_take_cstr name_key_def)
  show thesis
  proof (rule first_from_cases [OF assms, of ?P])
    assume a: "first_from ?P 0 d = Inr (-1)" "\<forall>e\<in>set (table d). \<not> ?P e"
    then have "name_key nm \<notin> fst ` set (dir_pairs (table d))" unfolding P by (auto simp: dir_pairs_def entry_pair_def)
    then show thesis using a none by (simp add: Directory_FindIndex_def dir_map_def map_of_eq_None_iff)
  next
    fix j assume a: "first_from ?P 0 d = Inr (int j)" "j < length (table d)" "?P (table d ! j)"
    then have "(name_key nm, dsector (table d ! j), isDirectory (table d ! j)) \<in> set (dir_pairs (table d))"
      unfolding P by (force simp: dir_pairs_def entry_pair_def)
    then have "dir_map d (name_key nm) = Some (dsector (table d ! j), isDirectory (table d ! j))"
      using assms by (simp add: dir_map_def dir_wf_def)
    then show thesis using a P [of "table d ! j"] some [of j] by (auto simp: Directory_FindIndex_def)
  qed
qed


text \<open>Replacing one entry: taking a free one adds a pair, freeing one in use drops its pair.\<close>

lemma dir_pairs_split:
  assumes "j < length t"
  shows "dir_pairs (t[j := e]) = dir_pairs (take j t) @ (if inUse e then [entry_pair e] else []) @ dir_pairs (drop (Suc j) t)"
    "dir_pairs t = dir_pairs (take j t) @ (if inUse (t ! j) then [entry_pair (t ! j)] else []) @ dir_pairs (drop (Suc j) t)"
proof -
  show "dir_pairs (t[j := e]) = dir_pairs (take j t) @ (if inUse e then [entry_pair e] else []) @ dir_pairs (drop (Suc j) t)"
    using assms by (simp add: upd_conv_take_nth_drop dir_pairs_def)
  have "dir_pairs (take j t @ t ! j # drop (Suc j) t) = dir_pairs (take j t) @ (if inUse (t ! j) then [entry_pair (t ! j)] else []) @ dir_pairs (drop (Suc j) t)"
    by (simp add: dir_pairs_def)
  then show "dir_pairs t = dir_pairs (take j t) @ (if inUse (t ! j) then [entry_pair (t ! j)] else []) @ dir_pairs (drop (Suc j) t)"
    using assms by (simp add: id_take_nth_drop [symmetric])
qed

lemma map_of_insert_middle: "k \<notin> fst ` set xs \<Longrightarrow> map_of (xs @ (k, v) # ys) = (map_of (xs @ ys))(k \<mapsto> v)"
  by (induction xs) (auto simp: fun_eq_iff)

lemma map_of_delete_middle:
  "k \<notin> fst ` set xs \<Longrightarrow> k \<notin> fst ` set ys \<Longrightarrow> map_of (xs @ ys) = (map_of (xs @ (k, v) # ys))(k := None)"
  by (induction xs) (auto simp: fun_eq_iff map_of_eq_None_iff)

lemma Add_entry:
  assumes "dir_wf d" "j < length (table d)" "\<not> inUse (table d ! j)" "dir_map d (name_key nm) = None"
  shows "\<exists>d'. Directory_Add nm b (int j) sec d = Inr d' \<and> dir_wf d' \<and> dir_map d' = (dir_map d)(name_key nm \<mapsto> (sec, b))"
proof -
  let ?e = "(table d ! j)\<lparr>inUse := True, isDirectory := b, dsector := sec, ename := strncpy FileNameMaxLen (ename (table d ! j)) nm\<rparr>"
  let ?d = "d\<lparr>table := (table d)[j := ?e]\<rparr>"
  have l: "length (ename (table d ! j)) = 10" using assms(1,2) by (simp add: dir_wf_def)
  have k: "entry_pair ?e = (name_key nm, sec, b)"
    by (simp add: entry_pair_def name_key_def take_strncpy)
  have nk: "name_key nm \<notin> fst ` set (dir_pairs (table d))" using assms(4) by (simp add: dir_map_def map_of_eq_None_iff)
  note sp = dir_pairs_split [OF assms(2)]
  have p: "dir_pairs (table ?d) = dir_pairs (take j (table d)) @ (name_key nm, sec, b) # dir_pairs (drop (Suc j) (table d))"
    using sp(1) [of ?e] k by simp
  have q: "dir_pairs (table d) = dir_pairs (take j (table d)) @ dir_pairs (drop (Suc j) (table d))" using sp(2) assms(3) by simp
  have "length (ename e) = 10" if "e \<in> set ((table d)[j := ?e])" for e
    using set_update_subset_insert [of "table d" j ?e] that assms(1) l
    by (auto simp: dir_wf_def length_strncpy)
  moreover have "distinct (map fst (dir_pairs (table ?d)))"
    using assms(1) nk unfolding p dir_wf_def q by auto
  ultimately have "dir_wf ?d" using assms(1) by (simp add: dir_wf_def)
  moreover have "dir_map ?d = (dir_map d)(name_key nm \<mapsto> (sec, b))"
    unfolding dir_map_def p q using nk unfolding q by (intro map_of_insert_middle) auto
  moreover have "Directory_Add nm b (int j) sec d = Inr ?d" using assms(2) by (simp add: Directory_Add_def)
  ultimately show ?thesis by blast
qed

lemma Remove_entry:
  assumes "dir_wf d" "j < length (table d)" "inUse (table d ! j)" "name_key (ename (table d ! j)) = k"
  defines "d' \<equiv> d\<lparr>table := (table d)[j := (table d ! j)\<lparr>inUse := False\<rparr>]\<rparr>"
  shows "dir_wf d' \<and> dir_room d' \<and> dir_map d' = (dir_map d)(k := None)"
proof -
  let ?e = "(table d ! j)\<lparr>inUse := False\<rparr>"
  note sp = dir_pairs_split [OF assms(2)]
  have p: "dir_pairs (table d') = dir_pairs (take j (table d)) @ dir_pairs (drop (Suc j) (table d))"
    using sp(1) [of ?e] by (simp add: d'_def)
  have q: "dir_pairs (table d) = dir_pairs (take j (table d)) @ (k, dsector (table d ! j), isDirectory (table d ! j)) # dir_pairs (drop (Suc j) (table d))"
    using sp(2) assms(3,4) by (simp add: entry_pair_def)
  have "length (ename e) = 10" if "e \<in> set ((table d)[j := ?e])" for e
    using set_update_subset_insert [of "table d" j ?e] that assms(1,2) by (auto simp: dir_wf_def)
  moreover have "distinct (map fst (dir_pairs (table d')))"
    using assms(1) unfolding p dir_wf_def q by auto
  ultimately have "dir_wf d'" using assms(1) by (simp add: dir_wf_def d'_def)
  moreover have "dir_map d' = (dir_map d)(k := None)"
    unfolding dir_map_def p q using assms(1) unfolding dir_wf_def q by (intro map_of_delete_middle) auto
  moreover have "dir_room d'"
    unfolding dir_room_def d'_def using set_update_memI [OF assms(2), of ?e] by (auto intro: bexI [of _ ?e])
  ultimately show ?thesis by blast
qed

lemma add_both:
  assumes "dir_wf d"
  shows "dir_map d (name_key nm) = None \<Longrightarrow> dir_room d \<Longrightarrow>
      \<exists>d'. dir_add nm v d = Inr (True, d') \<and> dir_wf d' \<and> dir_map d' = (dir_map d)(name_key nm \<mapsto> v)"
    and "dir_map d (name_key nm) \<noteq> None \<or> \<not> dir_room d \<Longrightarrow> dir_add nm v d = Inr (False, d)"
proof -
  have a: "dir_add nm v d = bindR (Directory_FindIndex nm d) (\<lambda>k. if k \<noteq> -1 then Inr (False, d)
       else bindR (first_from (\<lambda>e. \<not> inUse e) 0 d) (\<lambda>i. if i = -1 then Inr (False, d)
       else bindR (Directory_Add nm (snd v) i (fst v) d) (\<lambda>d'. Inr (True, d'))))"
    by (cases "snd v") (simp_all add: dir_add_def Directory_AddDir_def Directory_AddFile_def cong: if_cong)
  show "\<exists>d'. dir_add nm v d = Inr (True, d') \<and> dir_wf d' \<and> dir_map d' = (dir_map d)(name_key nm \<mapsto> v)"
    if n: "dir_map d (name_key nm) = None" "dir_room d"
  proof (rule first_from_cases [OF assms, of "\<lambda>e. \<not> inUse e"])
    assume "\<forall>e\<in>set (table d). \<not> \<not> inUse e"
    then show ?thesis using n(2) by (auto simp: dir_room_def)
  next
    fix j assume j: "first_from (\<lambda>e. \<not> inUse e) 0 d = Inr (int j)" "j < length (table d)" "\<not> inUse (table d ! j)"
    moreover have "Directory_FindIndex nm d = Inr (-1)" using n(1) by (rule_tac FindIndex_cases [OF assms, of nm]) auto
    ultimately show ?thesis using Add_entry [OF assms j(2,3) n(1), of "snd v" "fst v"] by (auto simp: a)
  qed
  show "dir_add nm v d = Inr (False, d)" if n: "dir_map d (name_key nm) \<noteq> None \<or> \<not> dir_room d"
  proof (rule FindIndex_cases [OF assms, of nm])
    assume f: "Directory_FindIndex nm d = Inr (-1)" "dir_map d (name_key nm) = None"
    then have "first_from (\<lambda>e. \<not> inUse e) 0 d = Inr (-1)"
      using n by (rule_tac first_from_cases [OF assms, of "\<lambda>e. \<not> inUse e"]) (auto simp: dir_room_def)
    then show ?thesis using f by (simp add: a)
  qed (simp add: a)
qed

interpretation dirtab: name_table dir_wf dir_map dir_room name_key find_code Directory_Find dir_add Directory_Remove
proof
  fix d n v
  assume d: "dir_wf d"
  show "Directory_Find n d = Inr (find_code (dir_map d (name_key n)))"
    by (rule FindIndex_cases [OF d, of n]) (auto simp: Directory_Find_def find_code_def)
  show "\<exists>s'. dir_add n v d = Inr (True, s') \<and> dir_wf s' \<and> dir_map s' = (dir_map d)(name_key n \<mapsto> v)"
    if "dir_map d (name_key n) = None" "dir_room d" by (rule add_both(1) [OF d that])
  show "dir_add n v d = Inr (False, d)" if "dir_map d (name_key n) \<noteq> None \<or> \<not> dir_room d" by (rule add_both(2) [OF d that])
  show "\<exists>s'. Directory_Remove n d = Inr (True, s') \<and> dir_wf s' \<and> dir_room s' \<and> dir_map s' = (dir_map d)(name_key n := None)"
    if "dir_map d (name_key n) \<noteq> None"
  proof (rule FindIndex_cases [OF d, of n])
    fix j assume "Directory_FindIndex n d = Inr (int j)" "j < length (table d)" "inUse (table d ! j)"
      "name_key (ename (table d ! j)) = name_key n"
    then show ?thesis using Remove_entry [OF d, of j "name_key n"] by (simp add: Directory_Remove_def)
  qed (use that in simp)
  show "Directory_Remove n d = Inr (False, d)" if "dir_map d (name_key n) = None"
    by (rule FindIndex_cases [OF d, of n]) (use that in \<open>auto simp: Directory_Remove_def\<close>)
qed


section \<open>Whole-table queries and new directories\<close>

lemma ball_drop: "(\<forall>x\<in>set (drop n xs). P x) \<longleftrightarrow> (\<forall>k. n \<le> k \<longrightarrow> k < length xs \<longrightarrow> P (xs ! k))"
proof
  assume a: "\<forall>x\<in>set (drop n xs). P x"
  show "\<forall>k. n \<le> k \<longrightarrow> k < length xs \<longrightarrow> P (xs ! k)"
  proof (intro allI impI)
    fix k assume "n \<le> k" "k < length xs"
    then have "drop n xs ! (k - n) \<in> set (drop n xs)" by (intro nth_mem) simp
    then show "P (xs ! k)" using a \<open>n \<le> k\<close> \<open>k < length xs\<close> by simp
  qed
qed (auto simp: in_set_conv_nth)

lemma scan_from_2:
  assumes "dir_wf d"
  shows "bindR (first_from P 2 d) (\<lambda>i. Inr (i = -1)) = Inr (\<forall>e\<in>set (drop 2 (table d)). \<not> P e)"
proof -
  obtain j where j: "first_from P 2 d = Inr j" "j = -1 \<and> (\<forall>k. 2 \<le> k \<longrightarrow> k < length (table d) \<longrightarrow> \<not> P (table d ! k))
       \<or> 2 \<le> j \<and> nat j < length (table d) \<and> P (table d ! nat j)"
    using scan_spec [of 2 P "table d"] assms by (auto simp: dir_wf_def first_from_def)
  then show ?thesis unfolding ball_drop by (auto intro: exI [of _ "nat j"])
qed

lemma IsEmpty_spec: "dir_wf d \<Longrightarrow> Directory_IsEmpty d = Inr (\<forall>e\<in>set (drop 2 (table d)). \<not> inUse e)"
  unfolding Directory_IsEmpty_def by (rule scan_from_2)

lemma IsFull_spec: "dir_wf d \<Longrightarrow> Directory_IsFull d = Inr (\<forall>e\<in>set (drop 2 (table d)). inUse e)"
  using scan_from_2 [of d "\<lambda>e. \<not> inUse e"] by (simp add: Directory_IsFull_def)

lemma new_dir:
  assumes "0 \<le> n" "\<forall>i. length (ename (mem i)) = 10"
  shows "dir_wf (Directory_new mem n)" "dir_map (Directory_new mem n) = Map.empty"
    "\<forall>e\<in>set (table (Directory_new mem n)). \<not> inUse e" "length (table (Directory_new mem n)) = nat n"
proof -
  have e: "dir_pairs (table (Directory_new mem n)) = []" by (auto simp: Directory_new_def dir_pairs_def filter_empty_conv)
  then show "dir_wf (Directory_new mem n)" "dir_map (Directory_new mem n) = Map.empty"
    using assms by (auto simp: dir_wf_def dir_map_def Directory_new_def)
  show "\<forall>e\<in>set (table (Directory_new mem n)). \<not> inUse e" "length (table (Directory_new mem n)) = nat n"
    by (auto simp: Directory_new_def)
qed

lemma AddSpecialDir_spec:
  assumes "dir_wf d" "2 \<le> length (table d)" "\<forall>e\<in>set (table d). \<not> inUse e"
  shows "\<exists>d'. Directory_AddSpecialDir sec sec' d = Inr (True, d') \<and> dir_wf d'
     \<and> dir_map d' = [dot \<mapsto> (sec, True), dotdot \<mapsto> (sec', True)]"
proof -
  have k: "name_key dot = dot" "name_key dotdot = dotdot" "dot \<noteq> dotdot" by (simp_all add: name_key_def dot_def dotdot_def)
  have e: "dir_map d = Map.empty" using assms(3) by (simp add: dir_map_def dir_pairs_def filter_empty_conv)
  have u: "\<not> inUse (table d ! 0)" "\<not> inUse (table d ! 1)"
  proof -
    have "0 < length (table d)" "1 < length (table d)" using assms(2) by linarith+
    then show "\<not> inUse (table d ! 0)" "\<not> inUse (table d ! 1)" using assms(3) nth_mem by blast+
  qed
  have l: "0 < length (table d)" "1 < length (table d)" using assms(2) by linarith+
  obtain d1 where d1: "Directory_Add dot True (int 0) sec d = Inr d1" "dir_wf d1" "dir_map d1 = [dot \<mapsto> (sec, True)]"
    using Add_entry [OF assms(1) l(1) u(1), of dot True sec] e k by auto
  have t: "length (table d1) = length (table d)" "table d1 ! 1 = table d ! 1"
    using d1(1) l by (auto simp: Directory_Add_def)
  obtain d2 where "Directory_Add dotdot True (int 1) sec' d1 = Inr d2" "dir_wf d2"
      "dir_map d2 = [dot \<mapsto> (sec, True), dotdot \<mapsto> (sec', True)]"
    using Add_entry [OF d1(2), of 1 dotdot True sec'] l(2) u(2) t d1(3) k by auto
  then show ?thesis using d1(1) u l by (auto simp: Directory_AddSpecialDir_def)
qed

section \<open>Properties\<close>

text \<open>
  C15 (refinement): a directory is a finite map from names, cut at \<^verbatim>\<open>FileNameMaxLen\<close> characters, to header sectors:
  \<^verbatim>\<open>Find\<close> is lookup, \<^verbatim>\<open>AddFile\<close> and \<^verbatim>\<open>AddDir\<close> insert a new name while an entry is free and change nothing
  otherwise, \<^verbatim>\<open>Remove\<close> deletes a name; every outcome keeps the table well-formed.
\<close>

theorem directory_refines_map:
  assumes "dir_wf d"
  shows "Directory_Find nm d = Inr (find_code (dir_map d (name_key nm)))
   \<and> (if dir_map d (name_key nm) = None \<and> dir_room d
      then (\<exists>d'. Directory_AddFile nm sec d = Inr (True, d') \<and> dir_wf d' \<and> dir_map d' = (dir_map d)(name_key nm \<mapsto> (sec, False)))
         \<and> (\<exists>d'. Directory_AddDir nm sec d = Inr (True, d') \<and> dir_wf d' \<and> dir_map d' = (dir_map d)(name_key nm \<mapsto> (sec, True)))
      else Directory_AddFile nm sec d = Inr (False, d) \<and> Directory_AddDir nm sec d = Inr (False, d))
   \<and> (if dir_map d (name_key nm) = None then Directory_Remove nm d = Inr (False, d)
      else \<exists>d'. Directory_Remove nm d = Inr (True, d') \<and> dir_wf d' \<and> dir_map d' = (dir_map d)(name_key nm := None))"
proof -
  have f: "Directory_AddFile nm sec d = dir_add nm (sec, False) d" "Directory_AddDir nm sec d = dir_add nm (sec, True) d"
    by (simp_all add: dir_add_def)
  show ?thesis unfolding f
    using dirtab.find_ok [OF assms, of nm] dirtab.add_ok [OF assms, of nm] dirtab.add_no [OF assms, of nm]
      dirtab.remove_ok [OF assms, of nm] dirtab.remove_no [OF assms, of nm]
    by (intro conjI) (auto split: if_splits)
qed

definition blank_entry :: DirectoryEntry where
  "blank_entry = \<lparr>inUse = False, dsector = 7, ename = replicate 10 0, isDirectory = True\<rparr>"

lemma blank_dir_wf: "0 \<le> n \<Longrightarrow> dir_wf (Directory_new (\<lambda>_. blank_entry) n)"
  by (rule new_dir(1)) (simp_all add: blank_entry_def)

theorem directory_refines_map_witness:
  "\<exists>d'. Directory_AddFile [97] 42 (Directory_new (\<lambda>_. blank_entry) 2) = Inr (True, d') \<and> dir_map d' [97] = Some (42, False)"
proof -
  let ?d = "Directory_new (\<lambda>_. blank_entry) 2"
  have n: "nat 2 = Suc (Suc 0)" by simp
  have "dir_map ?d (name_key [97]) = None" "dir_room ?d"
    by (simp_all add: dir_map_def Directory_new_def dir_room_def dir_pairs_def n image_def) (rule exI [of _ 0], simp)
  then show ?thesis
    using directory_refines_map [OF blank_dir_wf, of 2 "[97]" 42] by (auto simp: name_key_def)
qed

text \<open>
  \<^verbatim>\<open>IsEmpty\<close> and \<^verbatim>\<open>IsFull\<close> look at every entry except the two special ones, and a new
  directory with its special entries is empty and maps exactly the names \<^verbatim>\<open>.\<close> and \<^verbatim>\<open>..\<close>, whatever the memory
  of the new object held.
\<close>

theorem new_directory_empty:
  assumes "2 < n" "\<forall>i. length (ename (mem i)) = 10"
  shows "\<exists>d. Directory_AddSpecialDir sec sec' (Directory_new mem n) = Inr (True, d) \<and> dir_wf d
     \<and> dir_map d = [dot \<mapsto> (sec, True), dotdot \<mapsto> (sec', True)]
     \<and> Directory_IsEmpty d = Inr True \<and> Directory_IsFull d = Inr False \<and> dir_room d"
proof -
  have n: "0 \<le> n" "2 \<le> nat n" using assms(1) by simp_all
  note nd = new_dir [OF n(1) assms(2)]
  obtain d where d: "Directory_AddSpecialDir sec sec' (Directory_new mem n) = Inr (True, d)" "dir_wf d"
     "dir_map d = [dot \<mapsto> (sec, True), dotdot \<mapsto> (sec', True)]"
    using AddSpecialDir_spec [of "Directory_new mem n" sec sec'] nd n(2) by auto
  have "drop 2 (table d) = drop 2 (table (Directory_new mem n))" "length (table d) = nat n"
    using d(1) nd(4) assms(1) by (auto simp: Directory_AddSpecialDir_def Directory_Add_def bind_iffs arr_get_def arr_set_def split: if_splits)
  then have r: "\<forall>e\<in>set (drop 2 (table d)). \<not> inUse e" "drop 2 (table d) \<noteq> []"
    using nd(3) assms(1) by (auto dest: in_set_dropD)
  then obtain e where "e \<in> set (drop 2 (table d))" "\<not> inUse e" using hd_in_set by blast
  then have "dir_room d" "\<not> (\<forall>e\<in>set (drop 2 (table d)). inUse e)" by (auto simp: dir_room_def dest: in_set_dropD)
  then show ?thesis using d r IsEmpty_spec [OF d(2)] IsFull_spec [OF d(2)] by auto
qed

theorem new_directory_empty_witness:
  "\<exists>d. Directory_AddSpecialDir 1 1 (Directory_new (\<lambda>_. blank_entry) 10) = Inr (True, d) \<and> Directory_IsEmpty d = Inr True"
  using new_directory_empty [of 10 "\<lambda>_. blank_entry" 1 1] by (auto simp: blank_entry_def)


text \<open>
  A directory written back to its file and fetched again, into whatever directory object of the
  same size, is the same directory, and sectors outside the file keep their content.
\<close>

theorem directory_writeback_fetch:
  assumes "file_ok (hdr f)" "sd_ok sd" "dir_wf d" "\<forall>e\<in>set (table d). int32_ok (dsector e)" "20 * tableSize d \<le> numBytes (hdr f)"
    and "dir_wf d'" "tableSize d' = tableSize d"
  shows "\<exists>sd1 sd2. Directory_WriteBack mem f d sd = Inr sd1 \<and> Directory_FetchFrom f d' sd1 = Inr (d, sd2)
     \<and> sd_ok sd2 \<and> others_kept (hdr f) sd sd2"
proof -
  have "\<forall>e\<in>set (table d). entry_fits e" using assms(3,4) by (auto simp: entry_fits_def dir_wf_def)
  then obtain sd1 where w: "Directory_WriteBack mem f d sd = Inr sd1" "sd_ok sd1" "others_kept (hdr f) sd sd1"
     "stored_dir (tableSize d) (hdr f) sd1 = d"
    using Directory_WriteBack_ok [OF assms(1,2), of d mem] assms(3,5) by (auto simp: dir_wf_def)
  then show ?thesis using Directory_FetchFrom_ok [OF assms(1) w(2), of d'] assms(5-7) by (auto simp: others_kept_def dir_wf_def)
qed

theorem directory_writeback_fetch_witness:
  "\<exists>sd1 sd2. Directory_WriteBack (\<lambda>_. 0) demo_file (Directory_new (\<lambda>_. blank_entry) 10) demo_disk = Inr sd1
     \<and> Directory_FetchFrom demo_file (Directory_new (\<lambda>_. blank_entry\<lparr>dsector := 0\<rparr>) 10) sd1
        = Inr (Directory_new (\<lambda>_. blank_entry) 10, sd2)"
proof -
  have "dir_wf (Directory_new (\<lambda>_. blank_entry\<lparr>dsector := 0\<rparr>) 10)" by (rule new_dir(1)) (simp_all add: blank_entry_def)
  then show ?thesis
    using directory_writeback_fetch [OF demo_file_ok demo_disk_ok blank_dir_wf, of 10 "Directory_new (\<lambda>_. blank_entry\<lparr>dsector := 0\<rparr>) 10" "\<lambda>_. 0"]
    by (auto simp: Directory_new_def blank_entry_def int32_ok_def demo_file_def)
qed

end
