(* ===== verification/FileTable.thy ===== *)
theory FileTable
  imports Directory
begin

text \<open>
  \<^verbatim>\<open>filesys/openfiletable.cc\<close>: the system-wide table of open files. The lock of the table makes each method one
  step; the methods are modelled as they run under it.
\<close>

section \<open>Operations\<close>

abbreviation (input) NbFileTableEntries :: int where "NbFileTableEntries \<equiv> 10"

record OpenFileEntry =
  ofile :: OpenFile
  omode :: byte
  osector :: int

definition OpenFileEntry_new :: "OpenFile \<Rightarrow> byte \<Rightarrow> int \<Rightarrow> OpenFileEntry" where
  "OpenFileEntry_new f m s = \<lparr>ofile = f, omode = m, osector = s\<rparr>"

definition OpenFileEntry_GetOpenFile :: "OpenFileEntry \<Rightarrow> OpenFile" where "OpenFileEntry_GetOpenFile e = ofile e"
definition OpenFileEntry_GetMode :: "OpenFileEntry \<Rightarrow> byte" where "OpenFileEntry_GetMode e = omode e"
definition OpenFileEntry_GetSector :: "OpenFileEntry \<Rightarrow> int" where "OpenFileEntry_GetSector e = osector e"

record OpenFileTable =
  ftable :: "OpenFileEntry option list"
  nbFiles :: int

text \<open>The constructor does not initialise the array of pointers: \<open>mem\<close> is what it held.\<close>

definition OpenFileTable_new :: "(nat \<Rightarrow> OpenFileEntry option) \<Rightarrow> OpenFileTable" where
  "OpenFileTable_new mem = \<lparr>ftable = map mem [0..<nat NbFileTableEntries], nbFiles = 0\<rparr>"

text \<open>The loops over all entries of the array: the first index from \<open>i\<close> on that satisfies \<open>P\<close>.\<close>

definition slot_from :: "(OpenFileEntry option \<Rightarrow> bool) \<Rightarrow> int \<Rightarrow> OpenFileTable \<Rightarrow> int res" where
  "slot_from P i t = scan P i NbFileTableEntries (ftable t)"

definition OpenFileTable_Find :: "int \<Rightarrow> OpenFileTable \<Rightarrow> int res" where
  "OpenFileTable_Find sec t =
     slot_from (\<lambda>p. case p of None \<Rightarrow> False | Some e \<Rightarrow> OpenFileEntry_GetSector e = sec) 0 t"

definition OpenFileTable_Contains :: "int \<Rightarrow> OpenFileTable \<Rightarrow> bool res" where
  "OpenFileTable_Contains sec t = bindR (OpenFileTable_Find sec t) (\<lambda>i. Inr (i \<noteq> -1))"

definition OpenFileTable_Add :: "OpenFileEntry \<Rightarrow> OpenFileTable \<Rightarrow> (int \<times> OpenFileTable) res" where
  "OpenFileTable_Add e t =
     (if nbFiles t \<ge> NbFileTableEntries then Inr (-1, t)
      else bindR (slot_from (\<lambda>p. p = None) 0 t) (\<lambda>i.
        if i = -1 then Inl AssertFailed
        else bindR (arr_set (ftable t) i (Some e)) (\<lambda>ft. Inr (i, t\<lparr>ftable := ft, nbFiles := nbFiles t + 1\<rparr>))))"

definition OpenFileTable_Remove :: "int \<Rightarrow> OpenFileTable \<Rightarrow> (int \<times> OpenFileTable) res" where
  "OpenFileTable_Remove i t =
     bindR (arr_get (ftable t) i) (\<lambda>p. case p of
        None \<Rightarrow> Inr (-1, t)
      | Some _ \<Rightarrow> bindR (arr_set (ftable t) i None) (\<lambda>ft. Inr (0, t\<lparr>ftable := ft, nbFiles := nbFiles t - 1\<rparr>)))"

text \<open>
  \<^verbatim>\<open>Open\<close> looks the name up in the current directory \<open>cur\<close> of the calling thread; \<open>je\<close> is what the memory of the
  new \<^verbatim>\<open>Directory\<close> held.
\<close>

definition OpenFileTable_Open ::
  "(nat \<Rightarrow> DirectoryEntry) \<Rightarrow> OpenFile \<Rightarrow> byte list \<Rightarrow> byte \<Rightarrow> OpenFileTable \<Rightarrow> SynchDisk \<Rightarrow> (int \<times> OpenFileTable \<times> SynchDisk) res" where
  "OpenFileTable_Open je cur nm mode t sd =
     bindR (Directory_FetchFrom cur (Directory_new je 10) sd) (\<lambda>(directory, sd1).
     bindR (Directory_Find nm directory) (\<lambda>sec.
     if sec < 0 then Inr (-1, t, sd1)
     else bindR (OpenFile_new sec sd1) (\<lambda>(f, sd2).
          let entry = OpenFileEntry_new f mode sec in
          bindR (OpenFileTable_Find (OpenFileEntry_GetSector entry) t) (\<lambda>i.
          if i \<noteq> -1 then Inr (i, t, sd2)
          else bindR (OpenFileTable_Add entry t) (\<lambda>(res, t'). Inr (res, t', sd2))))))"

definition OpenFileTable_Close :: "int \<Rightarrow> OpenFileTable \<Rightarrow> (int \<times> OpenFileTable) res" where
  "OpenFileTable_Close i t =
     bindR (arr_get (ftable t) i) (\<lambda>p. if p = None then Inr (-1, t) else OpenFileTable_Remove i t)"

definition OpenFileTable_Get :: "int \<Rightarrow> OpenFileTable \<Rightarrow> OpenFileEntry option res" where
  "OpenFileTable_Get i t =
     (if i \<ge> NbFileTableEntries \<or> i < 0 then Inr None else arr_get (ftable t) i)"

text \<open>\<^verbatim>\<open>Print\<close> shows the first \<^verbatim>\<open>nbFiles\<close> entries, and dereferences their pointers.\<close>

definition OpenFileTable_Print :: "OpenFileTable \<Rightarrow> (int \<times> byte) list res" where
  "OpenFileTable_Print t =
     foldR (\<lambda>i out. bindR (arr_get (ftable t) i) (\<lambda>p. case p of
        None \<Rightarrow> Inl NullDeref
      | Some e \<Rightarrow> Inr (out @ [(OpenFileEntry_GetSector e, OpenFileEntry_GetMode e)]))) (map int [0..<nat (nbFiles t)]) []"

section \<open>Invariant\<close>

text \<open>\<^verbatim>\<open>nbFiles\<close> counts the occupied entries, and no file is open twice.\<close>

definition open_sectors :: "OpenFileTable \<Rightarrow> int list" where
  "open_sectors t = map (\<lambda>p. osector (the p)) (filter (\<lambda>p. p \<noteq> None) (ftable t))"

definition table_wf :: "OpenFileTable \<Rightarrow> bool" where
  "table_wf t \<longleftrightarrow> length (ftable t) = 10 \<and> nbFiles t = int (length (open_sectors t)) \<and> distinct (open_sectors t)"

lemma slot_cases:
  assumes "length (ftable t) = 10"
  obtains (none) "slot_from P 0 t = Inr (-1)" "\<forall>p\<in>set (ftable t). \<not> P p"
    | (some) j where "slot_from P 0 t = Inr (int j)" "j < 10" "P (ftable t ! j)"
  using assms by (rule_tac scan_cases [of P "ftable t"]) (auto simp: slot_from_def)

text \<open>One entry replaced.\<close>

lemma open_sectors_split:
  assumes "j < length (ftable t)"
  defines "a \<equiv> open_sectors (t\<lparr>ftable := take j (ftable t)\<rparr>)" and "b \<equiv> open_sectors (t\<lparr>ftable := drop (Suc j) (ftable t)\<rparr>)"
  shows "open_sectors (t\<lparr>ftable := (ftable t)[j := p], nbFiles := n\<rparr>) = a @ (case p of None \<Rightarrow> [] | Some e \<Rightarrow> [osector e]) @ b"
    and "open_sectors t = a @ (case ftable t ! j of None \<Rightarrow> [] | Some e \<Rightarrow> [osector e]) @ b"
proof -
  show "open_sectors (t\<lparr>ftable := (ftable t)[j := p], nbFiles := n\<rparr>) = a @ (case p of None \<Rightarrow> [] | Some e \<Rightarrow> [osector e]) @ b"
    using assms(1) by (simp add: open_sectors_def a_def b_def upd_conv_take_nth_drop split: option.split)
  have "map (\<lambda>p. osector (the p)) (filter (\<lambda>p. p \<noteq> None) (take j (ftable t) @ ftable t ! j # drop (Suc j) (ftable t)))
      = a @ (case ftable t ! j of None \<Rightarrow> [] | Some e \<Rightarrow> [osector e]) @ b"
    by (simp add: open_sectors_def a_def b_def split: option.split)
  then show "open_sectors t = a @ (case ftable t ! j of None \<Rightarrow> [] | Some e \<Rightarrow> [osector e]) @ b"
    using assms(1) by (simp add: open_sectors_def id_take_nth_drop [symmetric])
qed

lemma GetSector_new [simp]: "OpenFileEntry_GetSector (OpenFileEntry_new f m sec) = sec"
  by (simp add: OpenFileEntry_GetSector_def OpenFileEntry_new_def)

lemma OpenFile_new_ok:
  assumes "sd_ok sd" "0 \<le> sec" "sec < NumSectors"
  shows "\<exists>sd'. OpenFile_new sec sd = Inr (\<lparr>hdr = dec_header (sector sd sec), seekPosition = 0\<rparr>, sd') \<and> sd_ok sd' \<and> sector sd' = sector sd"
  using sdisk.rd_ok [OF assms] by (auto simp: OpenFile_new_def FileHeader_FetchFrom_def)

lemma Find_open:
  assumes "table_wf t"
  shows "\<exists>i. OpenFileTable_Find sec t = Inr i \<and>
     (if sec \<in> set (open_sectors t) then 0 \<le> i \<and> i < 10 \<and> (\<exists>e. ftable t ! nat i = Some e \<and> osector e = sec) else i = -1)"
proof -
  let ?P = "\<lambda>p. case p of None \<Rightarrow> False | Some e \<Rightarrow> OpenFileEntry_GetSector e = sec"
  have l: "length (ftable t) = 10" using assms by (simp add: table_wf_def)
  have P: "sec \<in> set (open_sectors t) \<longleftrightarrow> (\<exists>p\<in>set (ftable t). ?P p)"
    by (auto simp: open_sectors_def OpenFileEntry_GetSector_def split: option.splits) force
  show ?thesis
  proof (rule slot_cases [OF l, of ?P])
    assume "slot_from ?P 0 t = Inr (-1)" "\<forall>p\<in>set (ftable t). \<not> ?P p"
    then show ?thesis using P by (simp add: OpenFileTable_Find_def)
  next
    fix j assume j: "slot_from ?P 0 t = Inr (int j)" "j < 10" "?P (ftable t ! j)"
    moreover have "ftable t ! j \<in> set (ftable t)" using j(2) l by simp
    ultimately have "sec \<in> set (open_sectors t)" using P by blast
    then show ?thesis using j by (auto simp: OpenFileTable_Find_def OpenFileEntry_GetSector_def split: option.splits)
  qed
qed

lemma Add_open:
  assumes "table_wf t" "osector e \<notin> set (open_sectors t)"
  shows "if nbFiles t \<ge> 10 then OpenFileTable_Add e t = Inr (-1, t)
     else \<exists>i t'. OpenFileTable_Add e t = Inr (i, t') \<and> table_wf t' \<and> 0 \<le> i \<and> i < 10 \<and> ftable t ! nat i = None
        \<and> ftable t' = (ftable t)[nat i := Some e] \<and> set (open_sectors t') = insert (osector e) (set (open_sectors t))"
proof (cases "nbFiles t \<ge> 10")
  case False
  have l: "length (ftable t) = 10" using assms by (simp add: table_wf_def)
  have "\<exists>p\<in>set (ftable t). p = None"
  proof (rule ccontr)
    assume "\<not> (\<exists>p\<in>set (ftable t). p = None)"
    then have "filter (\<lambda>p. p \<noteq> None) (ftable t) = ftable t" by (metis (mono_tags, lifting) filter_True)
    then have "length (open_sectors t) = 10" using l by (simp add: open_sectors_def)
    then show False using assms(1) False by (simp add: table_wf_def)
  qed
  then obtain j where j: "slot_from (\<lambda>p. p = None) 0 t = Inr (int j)" "j < 10" "ftable t ! j = None"
    by (rule_tac slot_cases [OF l, of "\<lambda>p. p = None"]) auto
  let ?t = "t\<lparr>ftable := (ftable t)[j := Some e], nbFiles := nbFiles t + 1\<rparr>"
  note sp = open_sectors_split [of j t]
  have "table_wf ?t" "set (open_sectors ?t) = insert (osector e) (set (open_sectors t))"
    using sp(1) [where p = "Some e" and n = "nbFiles t + 1"] sp(2) j assms l by (auto simp: table_wf_def)
  moreover have "OpenFileTable_Add e t = Inr (int j, ?t)" using j l False by (simp add: OpenFileTable_Add_def)
  ultimately show ?thesis using False j by auto
qed (simp add: OpenFileTable_Add_def)


lemma Close_open:
  assumes "table_wf t" "0 \<le> i" "i < 10"
  shows "case ftable t ! nat i of
       None \<Rightarrow> OpenFileTable_Close i t = Inr (-1, t)
     | Some e \<Rightarrow> \<exists>t'. OpenFileTable_Close i t = Inr (0, t') \<and> table_wf t' \<and> ftable t' = (ftable t)[nat i := None]
          \<and> nbFiles t' = nbFiles t - 1 \<and> set (open_sectors t') = set (open_sectors t) - {osector e}"
proof (cases "ftable t ! nat i")
  case None
  then show ?thesis using assms by (simp add: OpenFileTable_Close_def table_wf_def)
next
  case (Some e)
  let ?t = "t\<lparr>ftable := (ftable t)[nat i := None], nbFiles := nbFiles t - 1\<rparr>"
  have l: "length (ftable t) = 10" "nat i < length (ftable t)" using assms by (simp_all add: table_wf_def)
  note sp = open_sectors_split [OF l(2)]
  have "table_wf ?t" "set (open_sectors ?t) = set (open_sectors t) - {osector e}"
    using sp(1) [where p = None and n = "nbFiles t - 1"] sp(2) Some assms l by (auto simp: table_wf_def)
  moreover have "OpenFileTable_Close i t = Inr (0, ?t)"
    using assms l Some by (simp add: OpenFileTable_Close_def OpenFileTable_Remove_def)
  ultimately show ?thesis using Some by simp
qed

section \<open>Properties\<close>

text \<open>
  Opening a name that exists. A file that is already open is not opened again: its index is
  returned, whatever mode was asked for. Otherwise a full table gives -1, and a table with room gives an
  index at which \<^verbatim>\<open>Get\<close> finds the new entry and whose \<^verbatim>\<open>Close\<close> restores the table; the \<^verbatim>\<open>ASSERT\<close> marked
  not reachable in \<^verbatim>\<open>Add\<close> is not reached.
\<close>

theorem file_table_open:
  assumes "table_wf t" "Directory_FetchFrom cur (Directory_new je 10) sd = Inr (d, sd1)" "Directory_Find nm d = Inr sec" "0 \<le> sec"
    and "OpenFile_new sec sd1 = Inr (f, sd2)"
  shows "if sec \<in> set (open_sectors t)
     then \<exists>i e. OpenFileTable_Open je cur nm mode t sd = Inr (i, t, sd2) \<and> OpenFileTable_Get i t = Inr (Some e) \<and> osector e = sec
     else if nbFiles t = NbFileTableEntries then OpenFileTable_Open je cur nm mode t sd = Inr (-1, t, sd2)
     else \<exists>i t'. OpenFileTable_Open je cur nm mode t sd = Inr (i, t', sd2) \<and> table_wf t'
        \<and> OpenFileTable_Get i t' = Inr (Some (OpenFileEntry_new f mode sec)) \<and> OpenFileTable_Close i t' = Inr (0, t)"
proof -
  let ?e = "OpenFileEntry_new f mode sec"
  have op: "OpenFileTable_Open je cur nm mode t sd = bindR (OpenFileTable_Find sec t) (\<lambda>i.
      if i \<noteq> -1 then Inr (i, t, sd2) else bindR (OpenFileTable_Add ?e t) (\<lambda>(res, t'). Inr (res, t', sd2)))"
    using assms(2-5) by (simp add: OpenFileTable_Open_def)
  have l: "length (ftable t) = 10" "nbFiles t \<le> 10"
    using assms(1) length_filter_le [of "\<lambda>p. p \<noteq> None" "ftable t"] by (auto simp: table_wf_def open_sectors_def)
  show ?thesis
  proof (cases "sec \<in> set (open_sectors t)")
    case True
    then obtain i e where "OpenFileTable_Find sec t = Inr i" "0 \<le> i" "i < 10" "ftable t ! nat i = Some e" "osector e = sec"
      using Find_open [OF assms(1), of sec] by auto
    then show ?thesis using True l by (auto simp: op OpenFileTable_Get_def intro: exI [of _ i])
  next
    case False
    then have f: "OpenFileTable_Find sec t = Inr (-1)" using Find_open [OF assms(1), of sec] by auto
    have se: "osector ?e = sec" by (simp add: OpenFileEntry_new_def)
    show ?thesis
    proof (cases "nbFiles t = 10")
      case True
      then show ?thesis using False f Add_open [OF assms(1), of ?e] se by (simp add: op)
    next
      case free: False
      then obtain i t' where a: "OpenFileTable_Add ?e t = Inr (i, t')" "table_wf t'" "0 \<le> i" "i < 10" "ftable t ! nat i = None"
          "ftable t' = (ftable t)[nat i := Some ?e]"
        using Add_open [OF assms(1), of ?e] se False l(2) by auto
      have g: "ftable t' ! nat i = Some ?e" using a l by simp
      have n: "nbFiles t' = nbFiles t + 1" using a(1) free l by (auto simp: OpenFileTable_Add_def bind_iffs split: if_splits)
      obtain t'' where c: "OpenFileTable_Close i t' = Inr (0, t'')" "ftable t'' = (ftable t')[nat i := None]" "nbFiles t'' = nbFiles t' - 1"
        using Close_open [OF a(2-4)] g by auto
      have "t'' = t" using c(2,3) n a(5,6) list_update_id [of "ftable t" "nat i"] by (cases t; cases t'') simp
      moreover have "OpenFileTable_Get i t' = Inr (Some ?e)" using a(3,4,6) l g by (simp add: OpenFileTable_Get_def)
      ultimately show ?thesis using False free f a(1,2) c(1) by (auto simp: op)
    qed
  qed
qed

definition empty_table :: OpenFileTable where
  "empty_table = OpenFileTable_new (\<lambda>_. None)"

lemma empty_table_wf: "table_wf empty_table" "open_sectors empty_table = []"
  by (simp_all add: empty_table_def table_wf_def OpenFileTable_new_def open_sectors_def)

text \<open>
  \<^verbatim>\<open>Close\<close> of an index in range frees the entry, or reports -1 when there is none; out of range it
  reads outside the table (\<^verbatim>\<open>Get\<close> checks its index, \<^verbatim>\<open>Close\<close> does not).
\<close>

theorem file_table_close:
  assumes "table_wf t"
  shows "if 0 \<le> i \<and> i < NbFileTableEntries
     then (case ftable t ! nat i of
         None \<Rightarrow> OpenFileTable_Close i t = Inr (-1, t)
       | Some e \<Rightarrow> \<exists>t'. OpenFileTable_Close i t = Inr (0, t') \<and> table_wf t' \<and> OpenFileTable_Get i t' = Inr None
            \<and> set (open_sectors t') = set (open_sectors t) - {osector e})
     else OpenFileTable_Close i t = Inl OutOfBounds \<and> OpenFileTable_Get i t = Inr None"
proof -
  have l: "length (ftable t) = 10" using assms by (simp add: table_wf_def)
  have "OpenFileTable_Get i t' = Inr None" if "ftable t' = (ftable t)[nat i := None]" "0 \<le> i" "i < 10" for t'
    using that l by (simp add: OpenFileTable_Get_def)
  moreover have "arr_get (ftable t) i = Inl OutOfBounds" if "\<not> (0 \<le> i \<and> i < 10)" using that l by (intro arr_get_bad) auto
  ultimately show ?thesis using Close_open [OF assms, of i]
    by (auto simp: OpenFileTable_Close_def OpenFileTable_Get_def split: option.splits)
qed

theorem file_table_close_witness:
  "OpenFileTable_Close 3 empty_table = Inr (-1, empty_table) \<and> OpenFileTable_Close 10 empty_table = Inl OutOfBounds"
  using file_table_close [OF empty_table_wf(1), of 3] file_table_close [OF empty_table_wf(1), of 10]
  by (simp add: empty_table_def OpenFileTable_new_def)

theorem file_table_open_witness:
  "\<exists>sd i t' sd'. OpenFileTable_Open (\<lambda>_. blank_entry) demo_file [97] 0x72 empty_table sd = Inr (i, t', sd')
     \<and> OpenFileTable_Close i t' = Inr (0, empty_table)"
proof -
  let ?new = "Directory_new (\<lambda>_. blank_entry) 10"
  have n: "length (table ?new) = 10" "tableSize ?new = 10" by (simp_all add: Directory_new_def)
  obtain d where d: "Directory_Add [97] False (int 0) 42 ?new = Inr d" "dir_wf d" "dir_map d = [[97] \<mapsto> (42, False)]"
    using Add_entry [OF blank_dir_wf, of 10 0 "[97]" False 42] n new_dir(2,3) [of 10 "\<lambda>_. blank_entry"]
    by (auto simp: name_key_def blank_entry_def Directory_new_def)
  have t: "tableSize d = 10" using d(1) n by (auto simp: Directory_Add_def)
  have fit: "\<forall>e\<in>set (table d). entry_fits e"
    using d(1,2) n by (auto simp: Directory_Add_def entry_fits_def dir_wf_def Directory_new_def blank_entry_def int32_ok_def
        dest!: set_update_subset_insert [THEN subsetD])
  obtain sd where w: "Directory_WriteBack (\<lambda>_. 0) demo_file d demo_disk = Inr sd" "sd_ok sd" "stored_dir 10 (hdr demo_file) sd = d"
    using Directory_WriteBack_ok [OF demo_file_ok demo_disk_ok _ _ fit, of "\<lambda>_. 0"] t d(2) by (auto simp: dir_wf_def demo_file_def)
  obtain sd1 where f: "Directory_FetchFrom demo_file ?new sd = Inr (d, sd1)" "sd_ok sd1"
    using Directory_FetchFrom_ok [OF demo_file_ok w(2), of ?new] w(3) n by (auto simp: demo_file_def)
  have "Directory_Find [97] d = Inr 42" using dirtab.find_ok [OF d(2), of "[97]"] d(3) by (simp add: name_key_def find_code_def)
  moreover obtain g sd2 where "OpenFile_new 42 sd1 = Inr (g, sd2)" using OpenFile_new_ok [OF f(2), of 42] by auto
  ultimately show ?thesis
    using file_table_open [OF empty_table_wf(1) f(1), of "[97]" 42 g sd2 "0x72"] empty_table_wf(2)
    by (auto simp: empty_table_def OpenFileTable_new_def)
qed

end
