(* ===== verification/FileSys.thy ===== *)
theory FileSys
  imports FileTable
begin

text \<open>
  \<^verbatim>\<open>filesys/filesys.cc\<close>: the file system on top of the disk, the free map, directories, headers and the table of
  open files. The current directory of the calling thread is part of the state.
\<close>

section \<open>State\<close>

record FileSystem =
  fdisk :: SynchDisk
  freeMapFile :: OpenFile
  directoryFile :: OpenFile
  curDir :: OpenFile
  fileTable :: OpenFileTable

text \<open>What freshly allocated objects and buffers hold before they are written.\<close>

record junk =
  jbytes :: "nat \<Rightarrow> byte"
  jwords :: "nat \<Rightarrow> 32 word"
  jentries :: "nat \<Rightarrow> DirectoryEntry"
  jslots :: "nat \<Rightarrow> OpenFileEntry option"
  jhdr :: FileHeader

abbreviation (input) FreeMapSector :: int where "FreeMapSector \<equiv> 0"
abbreviation (input) DirectorySector :: int where "DirectorySector \<equiv> 1"
abbreviation (input) NumDirEntries :: int where "NumDirEntries \<equiv> 10"
abbreviation (input) FreeMapFileSize :: int where "FreeMapFileSize \<equiv> 128"
abbreviation (input) DirectoryFileSize :: int where "DirectoryFileSize \<equiv> 200"
abbreviation (input) PathLenMax :: nat where "PathLenMax \<equiv> 128"

section \<open>Mounting and formatting\<close>

definition FileSystem_format :: "junk \<Rightarrow> SynchDisk \<Rightarrow> (OpenFile \<times> OpenFile \<times> SynchDisk) res" where
  "FileSystem_format j sd =
     bindR (BitMap_new (jwords j) NumSectors) (\<lambda>fm0.
     bindR (Directory_AddSpecialDir DirectorySector DirectorySector (Directory_new (jentries j) NumDirEntries)) (\<lambda>(_, directory).
     bindR (BitMap_Mark FreeMapSector fm0) (\<lambda>fm1.
     bindR (BitMap_Mark DirectorySector fm1) (\<lambda>fm2.
     bindR (FileHeader_Allocate FreeMapFileSize (jhdr j) fm2) (\<lambda>(b1, mapHdr, fm3).
     bindR (ASSERT b1) (\<lambda>_.
     bindR (FileHeader_Allocate DirectoryFileSize (jhdr j) fm3) (\<lambda>(b2, dirHdr, fm4).
     bindR (ASSERT b2) (\<lambda>_.
     bindR (FileHeader_WriteBack FreeMapSector mapHdr sd) (\<lambda>sd1.
     bindR (FileHeader_WriteBack DirectorySector dirHdr sd1) (\<lambda>sd2.
     bindR (OpenFile_new FreeMapSector sd2) (\<lambda>(mf, sd3).
     bindR (OpenFile_new DirectorySector sd3) (\<lambda>(df, sd4).
     bindR (BitMap_WriteBack (jbytes j) mf fm4 sd4) (\<lambda>sd5.
     bindR (Directory_WriteBack (jbytes j) df directory sd5) (\<lambda>sd6.
     Inr (mf, df, sd6)))))))))))))))"

definition FileSystem_new :: "junk \<Rightarrow> bool \<Rightarrow> SynchDisk \<Rightarrow> FileSystem res" where
  "FileSystem_new j format sd =
     bindR (if format then FileSystem_format j sd
            else bindR (OpenFile_new FreeMapSector sd) (\<lambda>(mf, sd1).
                 bindR (OpenFile_new DirectorySector sd1) (\<lambda>(df, sd2). Inr (mf, df, sd2)))) (\<lambda>(mf, df, sd').
     Inr \<lparr>fdisk = sd', freeMapFile = mf, directoryFile = df, curDir = df, fileTable = OpenFileTable_new (jslots j)\<rparr>)"

section \<open>Paths\<close>

abbreviation (input) slash :: byte where "slash \<equiv> 0x2F"

text \<open>The scan for the last slash, from index \<open>i\<close> on.\<close>

fun scan_slash :: "int \<Rightarrow> byte list \<Rightarrow> int \<Rightarrow> int" where
  "scan_slash i [] lastSlash = lastSlash"
| "scan_slash i (c # cs) lastSlash = scan_slash (i + 1) cs (if c = slash then i else lastSlash)"

text \<open>\<^verbatim>\<open>while (i > -1 && resPath[i] != '/') i--\<close>, from index \<open>n - 1\<close> down.\<close>

fun back_slash :: "byte list \<Rightarrow> nat \<Rightarrow> int" where
  "back_slash q 0 = -1"
| "back_slash q (Suc n) = (if q ! n = slash then int n else back_slash q n)"

text \<open>\<^verbatim>\<open>strcpy\<close> into an array of \<open>n\<close> bytes.\<close>

definition strcpy_to :: "nat \<Rightarrow> byte list \<Rightarrow> byte list res" where
  "strcpy_to n s = (if length s < n then Inr s else Inl OutOfBounds)"

text \<open>
  \<open>path\<close> is the C string without its NUL. The callers pass arrays of \<^verbatim>\<open>FileNameMaxLen\<close> bytes for the name and
  \<^verbatim>\<open>PathLenMax\<close> for the path. The result is the name and the path of the directory, both C strings.
\<close>

definition SplitPathAndName :: "byte list \<Rightarrow> (byte list \<times> byte list) res" where
  "SplitPathAndName path =
     (if path \<noteq> [] \<and> hd path = slash then Inl AssertFailed
      else bindR (strcpy_to PathLenMax path) (\<lambda>resPath.
        let lastSlash = scan_slash 0 path (-1); i = int (length path) in
        if lastSlash = -1 then bindR (strcpy_to FileNameMaxLen path) (\<lambda>nm. Inr (nm, []))
        else if lastSlash = i - 1 then
          (let q = take (nat lastSlash) resPath; k = back_slash q (length q) in
           if k = -1 then bindR (strcpy_to FileNameMaxLen q) (\<lambda>nm. Inr (nm, []))
           else bindR (strcpy_to FileNameMaxLen (drop (nat k + 1) q)) (\<lambda>nm. Inr (nm, take (nat k) q)))
        else bindR (strcpy_to FileNameMaxLen (drop (nat lastSlash + 1) resPath)) (\<lambda>nm.
             Inr (nm, take (nat lastSlash) resPath))))"

definition SetCurrentDir :: "junk \<Rightarrow> byte list \<Rightarrow> FileSystem \<Rightarrow> FileSystem res" where
  "SetCurrentDir j dirName fs =
     bindR (Directory_FetchFrom (curDir fs) (Directory_new (jentries j) NumDirEntries) (fdisk fs)) (\<lambda>(dir, sd1).
     bindR (Directory_Find dirName dir) (\<lambda>sec.
     bindR (OpenFile_new sec sd1) (\<lambda>(dirFile, sd2). Inr (fs\<lparr>fdisk := sd2, curDir := dirFile\<rparr>))))"

text \<open>
  The loop of \<^verbatim>\<open>ChangeCurrentDir\<close> over the rest of the path with its NUL; \<open>acc\<close> is what \<^verbatim>\<open>dirName\<close> holds below \<open>j\<close>. A
  separator at \<open>j = 0\<close> reads \<^verbatim>\<open>dirName[-1]\<close>.
\<close>

fun ChangeCurrentDir_loop :: "junk \<Rightarrow> byte list \<Rightarrow> byte list \<Rightarrow> FileSystem \<Rightarrow> FileSystem res" where
  "ChangeCurrentDir_loop j [] acc fs = Inr fs"
| "ChangeCurrentDir_loop j (c # cs) acc fs =
     (if c = slash \<or> c = 0 then
        (if acc = [] then Inl OutOfBounds
         else if last acc \<noteq> 0 then
           (if length acc < FileNameMaxLen
            then bindR (SetCurrentDir j acc fs) (ChangeCurrentDir_loop j cs []) else Inl OutOfBounds)
         else ChangeCurrentDir_loop j cs acc fs)
      else if length acc < FileNameMaxLen then ChangeCurrentDir_loop j cs (acc @ [c]) fs else Inl OutOfBounds)"

definition ChangeCurrentDir :: "junk \<Rightarrow> byte list \<Rightarrow> FileSystem \<Rightarrow> FileSystem res" where
  "ChangeCurrentDir j path fs = ChangeCurrentDir_loop j (path @ [0]) [] fs"

text \<open>
  The wrapper the public methods share: split the path, go to its directory, run the operation on the name
  there, and restore the current directory.
\<close>

definition in_path_dir :: "junk \<Rightarrow> byte list \<Rightarrow> (byte list \<Rightarrow> FileSystem \<Rightarrow> ('a \<times> FileSystem) res) \<Rightarrow> FileSystem \<Rightarrow> ('a \<times> FileSystem) res" where
  "in_path_dir j path operation fs =
     bindR (SplitPathAndName path) (\<lambda>(nm, tmpPath).
     bindR (if tmpPath \<noteq> [] then ChangeCurrentDir j tmpPath fs else Inr fs) (\<lambda>fs1.
     bindR (operation nm fs1) (\<lambda>(r, fs2). Inr (r, fs2\<lparr>curDir := curDir fs\<rparr>))))"

section \<open>Files and directories\<close>

definition CreateFileInCurrentDirectory :: "junk \<Rightarrow> int \<Rightarrow> byte list \<Rightarrow> FileSystem \<Rightarrow> (bool \<times> FileSystem) res" where
  "CreateFileInCurrentDirectory j initialSize nm fs =
     bindR (BitMap_new (jwords j) NumSectors) (\<lambda>freeMap.
     bindR (Directory_FetchFrom (curDir fs) (Directory_new (jentries j) NumDirEntries) (fdisk fs)) (\<lambda>(directory, sd1).
     bindR (Directory_Find nm directory) (\<lambda>s.
     if s \<noteq> -1 then Inr (False, fs\<lparr>fdisk := sd1\<rparr>)
     else bindR (BitMap_FetchFrom (freeMapFile fs) freeMap sd1) (\<lambda>(fm0, sd2).
          bindR (BitMap_Find fm0) (\<lambda>(sec, fm1).
          if sec = -1 then Inr (False, fs\<lparr>fdisk := sd2\<rparr>)
          else bindR (Directory_AddFile nm sec directory) (\<lambda>(added, directory').
          if \<not> added then Inr (False, fs\<lparr>fdisk := sd2\<rparr>)
          else bindR (FileHeader_Allocate initialSize (jhdr j) fm1) (\<lambda>(ok, header, fm2).
          if \<not> ok then Inr (False, fs\<lparr>fdisk := sd2\<rparr>)
          else bindR (FileHeader_WriteBack sec header sd2) (\<lambda>sd3.
               bindR (Directory_WriteBack (jbytes j) (curDir fs) directory' sd3) (\<lambda>sd4.
               bindR (BitMap_WriteBack (jbytes j) (freeMapFile fs) fm2 sd4) (\<lambda>sd5.
               Inr (True, fs\<lparr>fdisk := sd5\<rparr>)))))))))))"

definition CreateFile :: "junk \<Rightarrow> byte list \<Rightarrow> int \<Rightarrow> FileSystem \<Rightarrow> (bool \<times> FileSystem) res" where
  "CreateFile j path initialSize fs = in_path_dir j path (CreateFileInCurrentDirectory j initialSize) fs"

definition CreateDirInCurrentDirectory :: "junk \<Rightarrow> byte list \<Rightarrow> FileSystem \<Rightarrow> (bool \<times> FileSystem) res" where
  "CreateDirInCurrentDirectory j nm fs =
     bindR (BitMap_new (jwords j) NumSectors) (\<lambda>freeMap.
     bindR (Directory_FetchFrom (curDir fs) (Directory_new (jentries j) NumDirEntries) (fdisk fs)) (\<lambda>(directory, sd1).
     bindR (Directory_Find nm directory) (\<lambda>s.
     if s \<noteq> -1 then Inr (False, fs\<lparr>fdisk := sd1\<rparr>)
     else bindR (BitMap_FetchFrom (freeMapFile fs) freeMap sd1) (\<lambda>(fm0, sd2).
          bindR (BitMap_Find fm0) (\<lambda>(sec, fm1).
          if sec = -1 then Inr (False, fs\<lparr>fdisk := sd2\<rparr>)
          else bindR (Directory_AddDir nm sec directory) (\<lambda>(added, directory').
          if \<not> added then Inr (False, fs\<lparr>fdisk := sd2\<rparr>)
          else bindR (FileHeader_Allocate (DirectoryFileSize * int entry_size) (jhdr j) fm1) (\<lambda>(ok, header, fm2).
          if \<not> ok then Inr (False, fs\<lparr>fdisk := sd2\<rparr>)
          else bindR (Directory_Find dot directory') (\<lambda>parent.
               bindR (Directory_AddSpecialDir sec parent (Directory_new (jentries j) DirectoryFileSize)) (\<lambda>(special, newDir).
               if \<not> special then Inr (False, fs\<lparr>fdisk := sd2\<rparr>)
               else bindR (OpenFile_new sec sd2) (\<lambda>(fileDir, sd3).
                    bindR (Directory_WriteBack (jbytes j) fileDir newDir sd3) (\<lambda>sd4.
                    bindR (FileHeader_WriteBack sec header sd4) (\<lambda>sd5.
                    bindR (Directory_WriteBack (jbytes j) (curDir fs) directory' sd5) (\<lambda>sd6.
                    bindR (BitMap_WriteBack (jbytes j) (freeMapFile fs) fm2 sd6) (\<lambda>sd7.
                    Inr (True, fs\<lparr>fdisk := sd7\<rparr>)))))))))))))))"

definition CreateDir :: "junk \<Rightarrow> byte list \<Rightarrow> FileSystem \<Rightarrow> (bool \<times> FileSystem) res" where
  "CreateDir j path fs = in_path_dir j path (CreateDirInCurrentDirectory j) fs"

text \<open>What both removals do once the header is in memory: free its sectors and its own, and drop the name.\<close>

definition release_file :: "junk \<Rightarrow> byte list \<Rightarrow> int \<Rightarrow> FileHeader \<Rightarrow> Directory \<Rightarrow> SynchDisk \<Rightarrow> FileSystem \<Rightarrow> (bool \<times> FileSystem) res" where
  "release_file j nm sec header directory sd fs =
     bindR (BitMap_new (jwords j) NumSectors) (\<lambda>freeMap.
     bindR (BitMap_FetchFrom (freeMapFile fs) freeMap sd) (\<lambda>(fm0, sd1).
     bindR (FileHeader_Deallocate header fm0) (\<lambda>fm1.
     bindR (BitMap_Clear sec fm1) (\<lambda>fm2.
     bindR (Directory_Remove nm directory) (\<lambda>(_, directory').
     bindR (BitMap_WriteBack (jbytes j) (freeMapFile fs) fm2 sd1) (\<lambda>sd2.
     bindR (Directory_WriteBack (jbytes j) (curDir fs) directory' sd2) (\<lambda>sd3.
     Inr (True, fs\<lparr>fdisk := sd3\<rparr>))))))))"

definition RemoveFileInCurrentDirectory :: "junk \<Rightarrow> byte list \<Rightarrow> FileSystem \<Rightarrow> (bool \<times> FileSystem) res" where
  "RemoveFileInCurrentDirectory j nm fs =
     bindR (Directory_FetchFrom (curDir fs) (Directory_new (jentries j) NumDirEntries) (fdisk fs)) (\<lambda>(directory, sd1).
     bindR (Directory_Find nm directory) (\<lambda>sec.
     if sec = -1 then Inr (False, fs\<lparr>fdisk := sd1\<rparr>)
     else bindR (FileHeader_FetchFrom sec sd1) (\<lambda>(fileHdr, sd2). release_file j nm sec fileHdr directory sd2 fs)))"

definition RemoveFile :: "junk \<Rightarrow> byte list \<Rightarrow> FileSystem \<Rightarrow> (bool \<times> FileSystem) res" where
  "RemoveFile j path fs = in_path_dir j path (RemoveFileInCurrentDirectory j) fs"

definition RemoveDirInCurrentDirectory :: "junk \<Rightarrow> byte list \<Rightarrow> FileSystem \<Rightarrow> (bool \<times> FileSystem) res" where
  "RemoveDirInCurrentDirectory j nm fs =
     bindR (Directory_FetchFrom (curDir fs) (Directory_new (jentries j) NumDirEntries) (fdisk fs)) (\<lambda>(directory, sd1).
     bindR (Directory_Find nm directory) (\<lambda>sec.
     if sec = -1 then Inr (False, fs\<lparr>fdisk := sd1\<rparr>)
     else bindR (FileHeader_FetchFrom sec sd1) (\<lambda>(header, sd2).
          bindR (OpenFile_new sec sd2) (\<lambda>(fileDir, sd3).
          bindR (Directory_FetchFrom fileDir (Directory_new (jentries j) NumDirEntries) sd3) (\<lambda>(rmDir, sd4).
          bindR (Directory_IsEmpty rmDir) (\<lambda>empty.
          if \<not> empty then Inr (False, fs\<lparr>fdisk := sd4\<rparr>) else release_file j nm sec header directory sd4 fs))))))"

definition RemoveDir :: "junk \<Rightarrow> byte list \<Rightarrow> FileSystem \<Rightarrow> (bool \<times> FileSystem) res" where
  "RemoveDir j path fs = in_path_dir j path (RemoveDirInCurrentDirectory j) fs"

section \<open>Open files\<close>

definition OpenInCurrentDirectory :: "junk \<Rightarrow> byte \<Rightarrow> byte list \<Rightarrow> FileSystem \<Rightarrow> (int \<times> FileSystem) res" where
  "OpenInCurrentDirectory j mode nm fs =
     bindR (OpenFileTable_Open (jentries j) (curDir fs) nm mode (fileTable fs) (fdisk fs)) (\<lambda>(i, t, sd).
     Inr (i, fs\<lparr>fileTable := t, fdisk := sd\<rparr>))"

definition FileSystem_Open :: "junk \<Rightarrow> byte list \<Rightarrow> byte \<Rightarrow> FileSystem \<Rightarrow> (int \<times> FileSystem) res" where
  "FileSystem_Open j path mode fs = in_path_dir j path (OpenInCurrentDirectory j mode) fs"

definition FileSystem_Close :: "int \<Rightarrow> FileSystem \<Rightarrow> (int \<times> FileSystem) res" where
  "FileSystem_Close i fs = bindR (OpenFileTable_Close i (fileTable fs)) (\<lambda>(r, t). Inr (r, fs\<lparr>fileTable := t\<rparr>))"

text \<open>\<^verbatim>\<open>Read\<close> and \<^verbatim>\<open>Write\<close> work on the \<^verbatim>\<open>OpenFile\<close> the entry points to: its new seek position stays in the table.\<close>

definition put_file :: "int \<Rightarrow> OpenFileEntry \<Rightarrow> OpenFile \<Rightarrow> SynchDisk \<Rightarrow> FileSystem \<Rightarrow> FileSystem" where
  "put_file i e f sd fs =
     fs\<lparr>fdisk := sd, fileTable := (fileTable fs)\<lparr>ftable := (ftable (fileTable fs))[nat i := Some (e\<lparr>ofile := f\<rparr>)]\<rparr>\<rparr>"

definition FileSystem_Read :: "int \<Rightarrow> int \<Rightarrow> FileSystem \<Rightarrow> ((int \<times> byte list) \<times> FileSystem) res" where
  "FileSystem_Read i n fs =
     bindR (OpenFileTable_Get i (fileTable fs)) (\<lambda>p. case p of
        None \<Rightarrow> Inr ((-1, []), fs)
      | Some e \<Rightarrow> if OpenFileEntry_GetMode e \<noteq> 0x72 then Inr ((-1, []), fs)
          else bindR (OpenFile_Read n (OpenFileEntry_GetOpenFile e) (fdisk fs)) (\<lambda>(bs, f, sd).
               Inr ((int (length bs), bs), put_file i e f sd fs)))"

definition FileSystem_Write :: "junk \<Rightarrow> int \<Rightarrow> byte list \<Rightarrow> int \<Rightarrow> FileSystem \<Rightarrow> (int \<times> FileSystem) res" where
  "FileSystem_Write j i buf n fs =
     bindR (OpenFileTable_Get i (fileTable fs)) (\<lambda>p. case p of
        None \<Rightarrow> Inr (-1, fs)
      | Some e \<Rightarrow> if OpenFileEntry_GetMode e \<noteq> 0x77 then Inr (-1, fs)
          else bindR (OpenFile_Write (jbytes j) buf n (OpenFileEntry_GetOpenFile e) (fdisk fs)) (\<lambda>(r, f, sd).
               Inr (r, put_file i e f sd fs)))"

definition FileSystem_GetOpenFile :: "int \<Rightarrow> FileSystem \<Rightarrow> OpenFile res" where
  "FileSystem_GetOpenFile i fs =
     bindR (OpenFileTable_Get i (fileTable fs)) (\<lambda>p. case p of None \<Rightarrow> Inl NullDeref | Some e \<Rightarrow> Inr (OpenFileEntry_GetOpenFile e))"

definition FileSystem_List :: "junk \<Rightarrow> FileSystem \<Rightarrow> ((byte list \<times> bool \<times> int) list \<times> FileSystem) res" where
  "FileSystem_List j fs =
     bindR (Directory_FetchFrom (curDir fs) (Directory_new (jentries j) NumDirEntries) (fdisk fs)) (\<lambda>(directory, sd1).
     bindR (Directory_List directory sd1) (\<lambda>(rows, sd2). Inr (rows, fs\<lparr>fdisk := sd2\<rparr>)))"

text \<open>What \<^verbatim>\<open>Print\<close> writes: the two headers, the sectors in use, and the entries of the directory.\<close>

definition FileSystem_Print :: "junk \<Rightarrow> FileSystem \<Rightarrow>
    (((int \<times> int list \<times> byte list) \<times> (int \<times> int list \<times> byte list) \<times> int list \<times> (byte list \<times> bool \<times> int \<times> int \<times> int list \<times> byte list) list) \<times> FileSystem) res" where
  "FileSystem_Print j fs =
     bindR (BitMap_new (jwords j) NumSectors) (\<lambda>freeMap.
     bindR (FileHeader_FetchFrom FreeMapSector (fdisk fs)) (\<lambda>(bitHdr, sd1).
     bindR (FileHeader_Print bitHdr sd1) (\<lambda>(bitRows, sd2).
     bindR (FileHeader_FetchFrom DirectorySector sd2) (\<lambda>(dirHdr, sd3).
     bindR (FileHeader_Print dirHdr sd3) (\<lambda>(dirRows, sd4).
     bindR (BitMap_FetchFrom (freeMapFile fs) freeMap sd4) (\<lambda>(fm, sd5).
     bindR (BitMap_Print fm) (\<lambda>used.
     bindR (Directory_FetchFrom (curDir fs) (Directory_new (jentries j) NumDirEntries) sd5) (\<lambda>(directory, sd6).
     bindR (Directory_Print directory sd6) (\<lambda>(rows, sd7).
     Inr ((bitRows, dirRows, used, rows), fs\<lparr>fdisk := sd7\<rparr>))))))))))"

end
