(* ===== verification/FileSysSpec.thy ===== *)
theory FileSysSpec
  imports FileSys
begin

text \<open>
  The invariant that ties the free map, the current directory and the headers on disk together, and what the
  operations of \<^verbatim>\<open>filesys/filesys.cc\<close> do to it.
\<close>

section \<open>The shape of the free map\<close>

text \<open>No operation changes the dimensions of a bitmap.\<close>

definition map_shape :: "BitMap \<Rightarrow> int \<times> int \<times> nat" where
  "map_shape bm = (numBits bm, numWords bm, length (bmap bm))"

lemma foldR_keeps:
  assumes "\<And>x s s'. f x s = Inr s' \<Longrightarrow> g s' = g s"
  shows "foldR f xs s = Inr s' \<Longrightarrow> g s' = g s"
proof (induction xs arbitrary: s)
  case (Cons x xs)
  then obtain s1 where "f x s = Inr s1" "foldR f xs s1 = Inr s'" by (auto simp: bind_iffs)
  then show ?case using Cons.IH assms by metis
qed simp

lemma Mark_shape: "BitMap_Mark i bm = Inr bm' \<Longrightarrow> map_shape bm' = map_shape bm"
  by (auto simp: BitMap_Mark_def bind_iffs arr_set_Inr_iff map_shape_def)

lemma Clear_shape: "BitMap_Clear i bm = Inr bm' \<Longrightarrow> map_shape bm' = map_shape bm"
  by (auto simp: BitMap_Clear_def bind_iffs arr_set_Inr_iff map_shape_def)

lemma Find_from_shape: "BitMap_Find_from i bm = Inr (j, bm') \<Longrightarrow> map_shape bm' = map_shape bm"
proof (induction i bm rule: BitMap_Find_from.induct)
  case (1 i bm)
  show ?case using "1.prems" "1.IH" unfolding BitMap_Find_from.simps [of i bm]
    by (auto simp: bind_iffs dest: Mark_shape split: if_splits)
qed

lemma Find_shape: "BitMap_Find bm = Inr (j, bm') \<Longrightarrow> map_shape bm' = map_shape bm"
  unfolding BitMap_Find_def by (rule Find_from_shape)

lemma Allocate_shape: "FileHeader_Allocate n h fm = Inr (b, h', fm') \<Longrightarrow> map_shape fm' = map_shape fm"
proof -
  have step: "map_shape (snd st') = map_shape (snd st)" if "Allocate_step i st = Inr st'" for i st st'
    using that Find_shape by (cases st) (fastforce simp: Allocate_step_def bind_iffs split: prod.splits)
  assume "FileHeader_Allocate n h fm = Inr (b, h', fm')"
  then show ?thesis using foldR_keeps [of Allocate_step "\<lambda>st. map_shape (snd st)", OF step]
    by (fastforce simp: FileHeader_Allocate_def Let_def bind_iffs split: if_splits prod.splits)
qed

lemma Deallocate_shape: "FileHeader_Deallocate h fm = Inr fm' \<Longrightarrow> map_shape fm' = map_shape fm"
  unfolding FileHeader_Deallocate_def
  by (rule foldR_keeps [of "Deallocate_step h"])
    (auto simp: Deallocate_step_def release_sector_def bind_iffs dest: Clear_shape)

definition disk_map :: "BitMap \<Rightarrow> bool" where
  "disk_map bm \<longleftrightarrow> map_shape bm = (NumSectors, 32, 32)"

lemma new_disk_map:
  "\<exists>bm. BitMap_new g NumSectors = Inr bm \<and> disk_map bm \<and> used_bits bm = {} \<and> BitMap_wf bm"
proof -
  obtain bm where bm: "BitMap_new g NumSectors = Inr bm" "BitMap_wf bm" "numBits bm = NumSectors" "used_bits bm = {}"
     "length (bmap bm) = nat (divRoundUp NumSectors 32)"
    using new_spec [of NumSectors g] by auto
  then have "numWords bm = divRoundUp NumSectors 32"
    using foldR_keeps [of BitMap_Clear map_shape, OF Clear_shape]
    by (force simp: BitMap_new_def Let_def BitsInWord_def map_shape_def)
  then show ?thesis using bm by (simp add: disk_map_def map_shape_def divRoundUp_pos)
qed

lemma disk_map_wf: "disk_map bm \<Longrightarrow> BitMap_wf bm"
  by (simp add: disk_map_def map_shape_def BitMap_wf_def)

lemma free_range: "disk_map bm \<Longrightarrow> s \<in> free_bits bm \<Longrightarrow> 0 \<le> s \<and> s < NumSectors"
  by (simp add: free_bits_def disk_map_def map_shape_def)

lemma used_range: "disk_map bm \<Longrightarrow> s \<in> used_bits bm \<Longrightarrow> 0 \<le> s \<and> s < NumSectors"
  using used_bits_subset [of bm] by (auto simp: disk_map_def map_shape_def)

section \<open>The invariant\<close>

definition free_map :: "FileSystem \<Rightarrow> BitMap" where
  "free_map fs = stored_map 32 (hdr (freeMapFile fs)) (fdisk fs)"

definition cur_dir :: "FileSystem \<Rightarrow> Directory" where
  "cur_dir fs = stored_dir NumDirEntries (hdr (curDir fs)) (fdisk fs)"

text \<open>The sectors of the two files every operation writes.\<close>

definition system_sectors :: "FileSystem \<Rightarrow> int set" where
  "system_sectors fs = set (file_sectors (hdr (freeMapFile fs))) \<union> set (file_sectors (hdr (curDir fs)))"

definition system_files :: "OpenFile \<Rightarrow> OpenFile \<Rightarrow> bool" where
  "system_files mf cf \<longleftrightarrow> file_ok (hdr mf) \<and> numBytes (hdr mf) = FreeMapFileSize
     \<and> file_ok (hdr cf) \<and> DirectoryFileSize \<le> numBytes (hdr cf)
     \<and> set (file_sectors (hdr mf)) \<inter> set (file_sectors (hdr cf)) = {}"

definition fs_ok :: "FileSystem \<Rightarrow> bool" where
  "fs_ok fs \<longleftrightarrow> sd_ok (fdisk fs) \<and> system_files (freeMapFile fs) (curDir fs)
     \<and> system_sectors fs \<subseteq> used_bits (free_map fs)
     \<and> dir_wf (cur_dir fs)
     \<and> (\<forall>e\<in>set (table (cur_dir fs)). inUse e \<longrightarrow> dsector e \<in> used_bits (free_map fs))"

definition junk_ok :: "junk \<Rightarrow> bool" where
  "junk_ok j \<longleftrightarrow> (\<forall>i. entry_fits (jentries j i)) \<and> header_fits (jhdr j)"

lemma free_map_shape [simp]: "disk_map (free_map fs)"
  by (simp add: disk_map_def map_shape_def free_map_def stored_map_def)

lemma stored_cong: "file_bytes h sd' = file_bytes h sd \<Longrightarrow> stored w dec n h sd' = stored w dec n h sd"
  by (simp add: stored_def)

lemma same_sectors:
  assumes "sector sd' = sector sd"
  shows "stored_map n h sd' = stored_map n h sd" "stored_dir n h sd' = stored_dir n h sd"
proof -
  have "file_bytes h sd' = file_bytes h sd" using assms by (simp add: file_bytes_def raw_bytes_def)
  then show "stored_map n h sd' = stored_map n h sd" "stored_dir n h sd' = stored_dir n h sd"
    by (simp_all add: stored_map_def stored_dir_def stored_def)
qed

lemma stored_entries_fit:
  assumes "dir_wf (stored_dir n h sd)"
  shows "\<forall>e\<in>set (table (stored_dir n h sd)). entry_fits e"
proof -
  have "int32_ok (dec_int bs)" for bs
    using sint_ge [of "dec_word bs"] sint_lt [of "dec_word bs"] by (simp add: dec_int_def int32_ok_def)
  then show ?thesis using assms
    by (auto simp: entry_fits_def dir_wf_def stored_dir_def stored_def dec_array_def dec_entry_def)
qed

text \<open>The two fetches every operation starts with.\<close>

lemma fetch_cur_dir:
  assumes "fs_ok fs" "junk_ok j"
  shows "\<exists>sd'. Directory_FetchFrom (curDir fs) (Directory_new (jentries j) NumDirEntries) (fdisk fs) = Inr (cur_dir fs, sd')
     \<and> sd_ok sd' \<and> sector sd' = sector (fdisk fs)"
  using Directory_FetchFrom_ok [of "curDir fs" "fdisk fs" "Directory_new (jentries j) NumDirEntries"] assms
  by (auto simp: fs_ok_def system_files_def cur_dir_def Directory_new_def)

lemma fetch_free_map:
  assumes "fs_ok fs" "disk_map bm" "sd_ok sd" "sector sd = sector (fdisk fs)"
  shows "\<exists>sd'. BitMap_FetchFrom (freeMapFile fs) bm sd = Inr (free_map fs, sd') \<and> sd_ok sd' \<and> sector sd' = sector (fdisk fs)"
  using BitMap_FetchFrom_ok [of "freeMapFile fs" sd bm] assms same_sectors(1) [OF assms(4)]
  by (auto simp: fs_ok_def system_files_def free_map_def disk_map_def map_shape_def)


section \<open>Flushing the directory and the free map\<close>

lemma AddFile_entries:
  "Directory_AddFile nm sec d = Inr (True, d') \<Longrightarrow>
     tableSize d' = tableSize d \<and> length (table d') = length (table d) \<and> (\<forall>e\<in>set (table d'). e \<in> set (table d) \<or> dsector e = sec)"
  by (auto simp: Directory_AddFile_def Directory_Add_def bind_iffs arr_set_Inr_iff split: if_splits
      dest!: set_update_subset_insert [THEN subsetD])

lemma Remove_entries:
  "Directory_Remove nm d = Inr (True, d') \<Longrightarrow>
     tableSize d' = tableSize d \<and> length (table d') = length (table d)
     \<and> (\<forall>e\<in>set (table d'). e \<in> set (table d) \<or> \<not> inUse e \<and> (\<exists>e0\<in>set (table d). dsector e = dsector e0))"
  by (auto simp: Directory_Remove_def bind_iffs arr_set_Inr_iff arr_get_Inr_iff nat_less_iff split: if_splits
      intro!: bexI [OF refl nth_mem] dest!: set_update_subset_insert [THEN subsetD])

lemma flush_dir_map:
  assumes "system_files mf cf" "sd_ok sd" "tableSize d = NumDirEntries" "length (table d) = 10" "\<forall>e\<in>set (table d). entry_fits e" "disk_map fm"
  shows "\<exists>sd1 sd2. Directory_WriteBack jb cf d sd = Inr sd1 \<and> BitMap_WriteBack jb mf fm sd1 = Inr sd2
     \<and> sd_ok sd2 \<and> stored_dir NumDirEntries (hdr cf) sd2 = d \<and> stored_map 32 (hdr mf) sd2 = fm
     \<and> (\<forall>j. 0 \<le> j \<longrightarrow> j \<notin> set (file_sectors (hdr mf)) \<union> set (file_sectors (hdr cf)) \<longrightarrow> sector sd2 j = sector sd j)"
proof -
  let ?c = "hdr cf" and ?m = "hdr mf"
  have f: "file_ok ?c" "file_ok ?m" "200 \<le> numBytes ?c" "numBytes ?m = 128" "set (file_sectors ?m) \<inter> set (file_sectors ?c) = {}"
    using assms(1) by (simp_all add: system_files_def)
  have m: "numWords fm = int (length (bmap fm))" "numBits fm = 32 * numWords fm" "numWords fm = 32"
    using assms(6) by (simp_all add: disk_map_def map_shape_def)
  obtain sd1 where w: "Directory_WriteBack jb cf d sd = Inr sd1" "sd_ok sd1" "others_kept ?c sd sd1" "stored_dir NumDirEntries ?c sd1 = d"
    using Directory_WriteBack_ok [OF f(1) assms(2) _ _ assms(5), of jb] assms(3,4) f(3) by auto
  obtain sd2 where v: "BitMap_WriteBack jb mf fm sd1 = Inr sd2" "sd_ok sd2" "others_kept ?m sd1 sd2" "stored_map 32 ?m sd2 = fm"
    using BitMap_WriteBack_ok [OF f(2) w(2) m(1,2), of jb] m(3) f(4) by auto
  have "file_bytes ?c sd2 = file_bytes ?c sd1" using f by (intro file_bytes_others [OF v(3)]) auto
  then have "stored_dir NumDirEntries ?c sd2 = d" using w(4) by (simp add: stored_dir_def stored_def)
  then show ?thesis using w v by (auto simp: others_kept_def)
qed

lemma flush_map_dir:
  assumes "system_files mf cf" "sd_ok sd" "tableSize d = NumDirEntries" "length (table d) = 10" "\<forall>e\<in>set (table d). entry_fits e" "disk_map fm"
  shows "\<exists>sd1 sd2. BitMap_WriteBack jb mf fm sd = Inr sd1 \<and> Directory_WriteBack jb cf d sd1 = Inr sd2
     \<and> sd_ok sd2 \<and> stored_dir NumDirEntries (hdr cf) sd2 = d \<and> stored_map 32 (hdr mf) sd2 = fm
     \<and> (\<forall>j. 0 \<le> j \<longrightarrow> j \<notin> set (file_sectors (hdr mf)) \<union> set (file_sectors (hdr cf)) \<longrightarrow> sector sd2 j = sector sd j)"
proof -
  let ?c = "hdr cf" and ?m = "hdr mf"
  have f: "file_ok ?c" "file_ok ?m" "200 \<le> numBytes ?c" "numBytes ?m = 128" "set (file_sectors ?m) \<inter> set (file_sectors ?c) = {}"
    using assms(1) by (simp_all add: system_files_def)
  have m: "numWords fm = int (length (bmap fm))" "numBits fm = 32 * numWords fm" "numWords fm = 32"
    using assms(6) by (simp_all add: disk_map_def map_shape_def)
  obtain sd1 where v: "BitMap_WriteBack jb mf fm sd = Inr sd1" "sd_ok sd1" "others_kept ?m sd sd1" "stored_map 32 ?m sd1 = fm"
    using BitMap_WriteBack_ok [OF f(2) assms(2) m(1,2), of jb] m(3) f(4) by auto
  obtain sd2 where w: "Directory_WriteBack jb cf d sd1 = Inr sd2" "sd_ok sd2" "others_kept ?c sd1 sd2" "stored_dir NumDirEntries ?c sd2 = d"
    using Directory_WriteBack_ok [OF f(1) v(2) _ _ assms(5), of jb] assms(3,4) f(3) by auto
  have "file_bytes ?m sd2 = file_bytes ?m sd1" using f by (intro file_bytes_others [OF w(3)]) auto
  then have "stored_map 32 ?m sd2 = fm" using v(4) by (simp add: stored_map_def stored_def)
  then show ?thesis using w v by (auto simp: others_kept_def)
qed

lemma fs_ok_flushed:
  assumes "fs_ok fs" "sd_ok sd" "stored_dir NumDirEntries (hdr (curDir fs)) sd = d" "stored_map 32 (hdr (freeMapFile fs)) sd = fm"
    and "dir_wf d" "system_sectors fs \<subseteq> used_bits fm" "\<forall>e\<in>set (table d). inUse e \<longrightarrow> dsector e \<in> used_bits fm"
  shows "fs_ok (fs\<lparr>fdisk := sd\<rparr>)"
  using assms by (simp add: fs_ok_def cur_dir_def free_map_def system_sectors_def)

lemma fs_ok_same:
  assumes "fs_ok fs" "sd_ok sd" "sector sd = sector (fdisk fs)"
  shows "fs_ok (fs\<lparr>fdisk := sd\<rparr>)"
  using assms same_sectors [OF assms(3)]
  by (intro fs_ok_flushed [OF assms(1,2) refl refl]) (simp_all add: fs_ok_def cur_dir_def free_map_def)

text \<open>A name in the current directory has a header sector in range, so \<^verbatim>\<open>Find\<close> never reports it missing.\<close>

lemma find_cur:
  assumes "fs_ok fs"
  shows "dir_map (cur_dir fs) (name_key nm) = None \<Longrightarrow> Directory_Find nm (cur_dir fs) = Inr (-1)"
    and "dir_map (cur_dir fs) (name_key nm) = Some (sec, b) \<Longrightarrow>
      Directory_Find nm (cur_dir fs) = Inr sec \<and> sec \<in> used_bits (free_map fs) \<and> 0 \<le> sec \<and> sec < NumSectors"
proof -
  have w: "dir_wf (cur_dir fs)" using assms by (simp add: fs_ok_def)
  note f = dirtab.find_ok [OF w, of nm]
  show "Directory_Find nm (cur_dir fs) = Inr (-1)" if "dir_map (cur_dir fs) (name_key nm) = None"
    using f that by (simp add: find_code_def)
  assume s: "dir_map (cur_dir fs) (name_key nm) = Some (sec, b)"
  then have "(name_key nm, sec, b) \<in> set (dir_pairs (table (cur_dir fs)))" by (simp add: dir_map_def map_of_SomeD)
  then have "sec \<in> used_bits (free_map fs)" using assms by (auto simp: dir_pairs_def entry_pair_def fs_ok_def)
  then show "Directory_Find nm (cur_dir fs) = Inr sec \<and> sec \<in> used_bits (free_map fs) \<and> 0 \<le> sec \<and> sec < NumSectors"
    using f s used_range [of "free_map fs" sec] by (simp add: find_code_def)
qed


section \<open>Creating a file\<close>

text \<open>The header of a file of \<open>n\<close> bytes, allocated from the free map once the header sector is taken.\<close>

lemma alloc_header:
  assumes "junk_ok j" "disk_map fm" "0 \<le> n" "int32_ok n" "sectors_for n \<le> card (free_bits fm)" "sectors_for n \<le> NumDirect"
  shows "\<exists>h fm'. FileHeader_Allocate n (jhdr j) fm = Inr (True, h, fm') \<and> disk_map fm' \<and> file_ok h \<and> header_fits h \<and> numBytes h = n
     \<and> set (file_sectors h) \<subseteq> free_bits fm \<and> used_bits fm' = used_bits fm \<union> set (file_sectors h)
     \<and> free_bits fm' = free_bits fm - set (file_sectors h)"
proof -
  have l: "length (dataSectors (jhdr j)) = NumDirect" and fit: "\<forall>s\<in>set (dataSectors (jhdr j)). int32_ok s"
    using assms(1) by (simp_all add: junk_ok_def header_fits_def)
  obtain h fm' xs where a: "FileHeader_Allocate n (jhdr j) fm = Inr (True, h, fm')" "numBytes h = n" "numSectors h = int (sectors_for n)"
      "length (dataSectors h) = NumDirect" "xs = take (sectors_for n) (dataSectors h)" "distinct xs"
      "drop (sectors_for n) (dataSectors h) = drop (sectors_for n) (dataSectors (jhdr j))"
      "set xs \<subseteq> free_bits fm" "free_bits fm' = free_bits fm - set xs" "used_bits fm' = used_bits fm \<union> set xs"
    using Allocate_ok [OF disk_map_wf [OF assms(2)] l assms(3,5,6)] by auto
  have xs: "file_sectors h = xs" using a(3,5) by (simp add: file_sectors_def)
  have r: "\<forall>s\<in>set xs. 0 \<le> s \<and> s < NumSectors" using a(8) free_range [OF assms(2)] by blast
  have "dataSectors h = xs @ drop (sectors_for n) (dataSectors (jhdr j))" using a(5,7) by (metis append_take_drop_id)
  moreover have "int32_ok s" if "0 \<le> s" "s < NumSectors" for s using that by (simp add: int32_ok_def)
  ultimately have "\<forall>s\<in>set (dataSectors h). int32_ok s" using r fit by (auto dest: in_set_dropD)
  moreover have "int32_ok (numSectors h)" using a(3) assms(6) by (simp add: int32_ok_def)
  ultimately have "header_fits h" using a(2,4) assms(4) by (simp add: header_fits_def)
  moreover have "file_ok h" using a(2-6) assms(3,6) xs r by (simp add: file_ok_def)
  moreover have "disk_map fm'" using Allocate_shape [OF a(1)] assms(2) by (simp add: disk_map_def)
  ultimately show ?thesis using a(1,2,8-10) xs by auto
qed

lemma create_success:
  assumes "fs_ok fs" "junk_ok j" "0 \<le> n" "int32_ok n" "dir_map (cur_dir fs) (name_key nm) = None" "dir_room (cur_dir fs)"
    and "sectors_for n < card (free_bits (free_map fs))" "sectors_for n \<le> NumDirect"
  shows "\<exists>fs' sec h. CreateFileInCurrentDirectory j n nm fs = Inr (True, fs') \<and> fs_ok fs' \<and> fs' = fs\<lparr>fdisk := fdisk fs'\<rparr>
     \<and> dir_map (cur_dir fs') = (dir_map (cur_dir fs))(name_key nm \<mapsto> (sec, False))
     \<and> sec \<in> free_bits (free_map fs) \<and> h = dec_header (sector (fdisk fs') sec) \<and> file_ok h \<and> numBytes h = n
     \<and> set (file_sectors h) \<subseteq> free_bits (free_map fs) - {sec}
     \<and> used_bits (free_map fs') = insert sec (used_bits (free_map fs) \<union> set (file_sectors h))
     \<and> (\<forall>e\<in>set (table (cur_dir fs')). inUse e \<longrightarrow> e \<in> set (table (cur_dir fs)) \<or> dsector e = sec)
     \<and> (\<forall>i. 0 \<le> i \<longrightarrow> i \<noteq> sec \<longrightarrow> i \<notin> system_sectors fs \<longrightarrow> sector (fdisk fs') i = sector (fdisk fs) i)"
proof -
  let ?fm = "free_map fs" and ?d = "cur_dir fs"
  have wf: "BitMap_wf ?fm" "dir_wf ?d" "system_sectors fs \<subseteq> used_bits ?fm"
    and used: "\<forall>e\<in>set (table ?d). inUse e \<longrightarrow> dsector e \<in> used_bits ?fm"
    and sys: "system_files (freeMapFile fs) (curDir fs)"
    using assms(1) disk_map_wf by (simp_all add: fs_ok_def)
  obtain bm where bm: "BitMap_new (jwords j) NumSectors = Inr bm" "disk_map bm" using new_disk_map by blast
  obtain sd1 where 1: "Directory_FetchFrom (curDir fs) (Directory_new (jentries j) NumDirEntries) (fdisk fs) = Inr (?d, sd1)"
      "sd_ok sd1" "sector sd1 = sector (fdisk fs)" using fetch_cur_dir [OF assms(1,2)] by blast
  obtain sd2 where 2: "BitMap_FetchFrom (freeMapFile fs) bm sd1 = Inr (?fm, sd2)" "sd_ok sd2" "sector sd2 = sector (fdisk fs)"
    using fetch_free_map [OF assms(1) bm(2) 1(2,3)] by blast
  have "free_bits ?fm \<noteq> {}" using assms(7) by auto
  then obtain sec fm1 where s: "BitMap_Find ?fm = Inr (sec, fm1)" "sec \<in> free_bits ?fm" "free_bits fm1 = free_bits ?fm - {sec}"
      "used_bits fm1 = insert sec (used_bits ?fm)"
    using bitmap_alloc.alloc_ok [OF wf(1)] by blast
  have sec: "0 \<le> sec" "sec < NumSectors" "sec \<noteq> -1" using free_range [OF free_map_shape s(2)] by auto
  have nosys: "sec \<notin> system_sectors fs" using s(2) wf(3) bitmap_alloc.disjoint [of ?fm] by auto
  obtain d where d: "Directory_AddFile nm sec ?d = Inr (True, d)" "dir_wf d" "dir_map d = (dir_map ?d)(name_key nm \<mapsto> (sec, False))"
    using dirtab.add_ok [OF wf(2) assms(5,6), of "(sec, False)"] by (auto simp: dir_add_def)
  note de = AddFile_entries [OF d(1)]
  have td: "tableSize ?d = NumDirEntries" "length (table ?d) = 10" by (simp_all add: cur_dir_def stored_dir_def)
  have "\<forall>e\<in>set (table ?d). entry_fits e" using stored_entries_fit wf(2) by (simp add: cur_dir_def)
  then have fit: "\<forall>e\<in>set (table d). entry_fits e"
    using de d(2) sec by (auto simp: entry_fits_def dir_wf_def int32_ok_def)
  have dm1: "disk_map fm1" using Find_shape [OF s(1)] free_map_shape [of fs] by (simp add: disk_map_def)
  have "sectors_for n \<le> card (free_bits fm1)" using assms(7) s(2,3) by simp
  then obtain h fm2 where h: "FileHeader_Allocate n (jhdr j) fm1 = Inr (True, h, fm2)" "disk_map fm2" "file_ok h" "header_fits h" "numBytes h = n"
      "set (file_sectors h) \<subseteq> free_bits fm1" "used_bits fm2 = used_bits fm1 \<union> set (file_sectors h)"
    using alloc_header [OF assms(2) dm1 assms(3,4) _ assms(8)] by blast
  obtain sd3 where 3: "FileHeader_WriteBack sec h sd2 = Inr sd3" "sd_ok sd3" "sector sd3 sec = enc_header h"
      "\<forall>i. 0 \<le> i \<longrightarrow> i \<noteq> sec \<longrightarrow> sector sd3 i = sector sd2 i"
    using sdisk.wr_ok [OF 2(2) sec(1,2) header_codec.length_enc [OF h(4)]] by (auto simp: FileHeader_WriteBack_def)
  obtain sd4 sd5 where 4: "Directory_WriteBack (jbytes j) (curDir fs) d sd3 = Inr sd4" "BitMap_WriteBack (jbytes j) (freeMapFile fs) fm2 sd4 = Inr sd5"
      "sd_ok sd5" "stored_dir NumDirEntries (hdr (curDir fs)) sd5 = d" "stored_map 32 (hdr (freeMapFile fs)) sd5 = fm2"
      "\<forall>i. 0 \<le> i \<longrightarrow> i \<notin> system_sectors fs \<longrightarrow> sector sd5 i = sector sd3 i"
    using flush_dir_map [OF sys 3(2) _ _ fit h(2), of "jbytes j"] de td unfolding system_sectors_def by auto
  let ?fs = "fs\<lparr>fdisk := sd5\<rparr>"
  have r: "CreateFileInCurrentDirectory j n nm fs = Inr (True, ?fs)"
    using bm(1) 1(1) find_cur(1) [OF assms(1,5)] 2(1) s(1) sec(3) d(1) h(1) 3(1) 4(1,2)
    by (simp add: CreateFileInCurrentDirectory_def)
  have "fs_ok ?fs" using wf(3) used de s(4) h(7) by (intro fs_ok_flushed [OF assms(1) 4(3-5) d(2)]) auto
  moreover have "cur_dir ?fs = d" "free_map ?fs = fm2" using 4(4,5) by (simp_all add: cur_dir_def free_map_def)
  moreover have "dec_header (sector sd5 sec) = h" using 3(3) 4(6) nosys sec(1) header_codec.dec_enc [OF h(4)] by simp
  moreover have "sector sd5 i = sector (fdisk fs) i" if "0 \<le> i" "i \<noteq> sec" "i \<notin> system_sectors fs" for i
    using that 4(6) 3(4) 2(3) by simp
  ultimately show ?thesis using r d(3) s h(3,5-7) de by (intro exI [of _ ?fs] exI [of _ sec] exI [of _ h]) auto
qed


text \<open>
  Both creations run alike up to the allocation of the data: the name, a header sector and a directory entry.
\<close>

lemma create_failure:
  assumes "fs_ok fs" "junk_ok j" "0 \<le> n"
    and "dir_map (cur_dir fs) (name_key nm) \<noteq> None \<or> \<not> dir_room (cur_dir fs) \<or> card (free_bits (free_map fs)) \<le> sectors_for n"
  shows "\<exists>fs'. CreateFileInCurrentDirectory j n nm fs = Inr (False, fs') \<and> fs_ok fs' \<and> sector (fdisk fs') = sector (fdisk fs)"
proof -
  let ?fm = "free_map fs" and ?d = "cur_dir fs"
  have wf: "BitMap_wf ?fm" "dir_wf ?d" using assms(1) disk_map_wf by (simp_all add: fs_ok_def)
  obtain bm where bm: "BitMap_new (jwords j) NumSectors = Inr bm" "disk_map bm" using new_disk_map by blast
  obtain sd1 where 1: "Directory_FetchFrom (curDir fs) (Directory_new (jentries j) NumDirEntries) (fdisk fs) = Inr (?d, sd1)"
      "sd_ok sd1" "sector sd1 = sector (fdisk fs)" using fetch_cur_dir [OF assms(1,2)] by blast
  obtain sd2 where 2: "BitMap_FetchFrom (freeMapFile fs) bm sd1 = Inr (?fm, sd2)" "sd_ok sd2" "sector sd2 = sector (fdisk fs)"
    using fetch_free_map [OF assms(1) bm(2) 1(2,3)] by blast
  have ok: "fs_ok (fs\<lparr>fdisk := sd1\<rparr>)" "fs_ok (fs\<lparr>fdisk := sd2\<rparr>)" using fs_ok_same [OF assms(1)] 1 2 by auto
  show ?thesis
  proof (cases "dir_map ?d (name_key nm)")
    case (Some v)
    obtain sec b where v: "v = (sec, b)" by (cases v)
    then have "Directory_Find nm ?d = Inr sec" "sec \<noteq> -1" using find_cur(2) [OF assms(1), of nm sec b] Some by auto
    then show ?thesis using bm(1) 1 ok(1) by (simp add: CreateFileInCurrentDirectory_def)
  next
    case None
    note pre = bm(1) 1(1) find_cur(1) [OF assms(1) None] 2(1)
    show ?thesis
    proof (cases "free_bits ?fm = {}")
      case True
      then show ?thesis using Find_full [OF wf(1)] pre 2(3) ok(2) by (simp add: CreateFileInCurrentDirectory_def)
    next
      case False
      then obtain sec fm1 where s: "BitMap_Find ?fm = Inr (sec, fm1)" "BitMap_wf fm1" "sec \<in> free_bits ?fm" "free_bits fm1 = free_bits ?fm - {sec}"
        using bitmap_alloc.alloc_ok [OF wf(1)] by blast
      have sec: "sec \<noteq> -1" using free_range [OF free_map_shape s(3)] by auto
      show ?thesis
      proof (cases "dir_room ?d")
        case False
        then have "Directory_AddFile nm sec ?d = Inr (False, ?d)"
          using dirtab.add_no [OF wf(2), of nm "(sec, False)"] by (simp add: dir_add_def)
        then show ?thesis using pre s(1) sec 2(3) ok(2) by (simp add: CreateFileInCurrentDirectory_def)
      next
        case True
        then obtain d where "Directory_AddFile nm sec ?d = Inr (True, d)"
          using dirtab.add_ok [OF wf(2) None, of "(sec, False)"] by (auto simp: dir_add_def)
        moreover have "card (free_bits fm1) < sectors_for n"
          using assms(4) None True s(3,4) False card_gt_0_iff [of "free_bits ?fm"] by auto
        then have "FileHeader_Allocate n (jhdr j) fm1
            = Inr (False, (jhdr j)\<lparr>numBytes := n, numSectors := int (sectors_for n)\<rparr>, fm1)"
          using int_sectors_for [OF assms(3)] NumClear_spec [OF s(2)] by (simp add: FileHeader_Allocate_def)
        ultimately show ?thesis using pre s(1) sec 2(3) ok(2) by (simp add: CreateFileInCurrentDirectory_def)
      qed
    qed
  qed
qed

lemma allocate_too_large:
  assumes "junk_ok j" "disk_map fm" "0 \<le> n" "NumDirect < sectors_for n" "sectors_for n \<le> card (free_bits fm)"
  shows "FileHeader_Allocate n (jhdr j) fm = Inl OutOfBounds"
proof -
  obtain xs fm' where "repeatR (sectors_for n) BitMap_Find fm = Inr (xs, fm')"
    using bitmap_alloc.alloc_many [OF disk_map_wf [OF assms(2)] assms(5)] by blast
  from Allocate_overrun [OF _ assms(4) this, of "(jhdr j)\<lparr>numBytes := n, numSectors := int (sectors_for n)\<rparr>"]
  show ?thesis using assms(1,5) int_sectors_for [OF assms(3)] NumClear_spec [OF disk_map_wf [OF assms(2)]]
    by (simp add: FileHeader_Allocate_def junk_ok_def header_fits_def)
qed

text \<open>The run up to the allocation, for a new name with room for its entry and a free sector for its header.\<close>

lemma create_prefix:
  assumes "fs_ok fs" "junk_ok j" "dir_map (cur_dir fs) (name_key nm) = None" "dir_room (cur_dir fs)" "free_bits (free_map fs) \<noteq> {}"
  shows "\<exists>bm sd1 sd2 sec fm1. BitMap_new (jwords j) NumSectors = Inr bm
     \<and> Directory_FetchFrom (curDir fs) (Directory_new (jentries j) NumDirEntries) (fdisk fs) = Inr (cur_dir fs, sd1)
     \<and> Directory_Find nm (cur_dir fs) = Inr (-1) \<and> BitMap_FetchFrom (freeMapFile fs) bm sd1 = Inr (free_map fs, sd2)
     \<and> BitMap_Find (free_map fs) = Inr (sec, fm1) \<and> sec \<noteq> -1 \<and> disk_map fm1
     \<and> Suc (card (free_bits fm1)) = card (free_bits (free_map fs))
     \<and> (\<forall>b. \<exists>d. dir_add nm (sec, b) (cur_dir fs) = Inr (True, d))"
proof -
  have wf: "BitMap_wf (free_map fs)" "dir_wf (cur_dir fs)" using assms(1) disk_map_wf by (simp_all add: fs_ok_def)
  obtain bm where bm: "BitMap_new (jwords j) NumSectors = Inr bm" "disk_map bm" using new_disk_map by blast
  obtain sd1 where 1: "Directory_FetchFrom (curDir fs) (Directory_new (jentries j) NumDirEntries) (fdisk fs) = Inr (cur_dir fs, sd1)"
      "sd_ok sd1" "sector sd1 = sector (fdisk fs)" using fetch_cur_dir [OF assms(1,2)] by blast
  obtain sd2 where 2: "BitMap_FetchFrom (freeMapFile fs) bm sd1 = Inr (free_map fs, sd2)"
    using fetch_free_map [OF assms(1) bm(2) 1(2,3)] by blast
  obtain sec fm1 where s: "BitMap_Find (free_map fs) = Inr (sec, fm1)" "sec \<in> free_bits (free_map fs)" "free_bits fm1 = free_bits (free_map fs) - {sec}"
    using bitmap_alloc.alloc_ok [OF wf(1) assms(5)] by blast
  have "sec \<noteq> -1" "disk_map fm1"
    using free_range [OF free_map_shape s(2)] Find_shape [OF s(1)] free_map_shape [of fs] by (auto simp: disk_map_def)
  moreover have "Suc (card (free_bits fm1)) = card (free_bits (free_map fs))"
    using s(2) unfolding s(3) by (intro card_Suc_Diff1) simp_all
  moreover have "\<exists>d. dir_add nm (sec, b) (cur_dir fs) = Inr (True, d)" for b
    using dirtab.add_ok [OF wf(2) assms(3,4)] by blast
  ultimately show ?thesis using bm(1) 1(1) find_cur(1) [OF assms(1,3)] 2 s(1) by blast
qed

lemma create_too_large:
  assumes "fs_ok fs" "junk_ok j" "0 \<le> n" "dir_map (cur_dir fs) (name_key nm) = None" "dir_room (cur_dir fs)"
    and "sectors_for n < card (free_bits (free_map fs))" "NumDirect < sectors_for n"
  shows "CreateFileInCurrentDirectory j n nm fs = Inl OutOfBounds"
proof -
  have "free_bits (free_map fs) \<noteq> {}" using assms(6) by auto
  from create_prefix [OF assms(1,2,4,5) this] obtain bm sd1 sd2 sec fm1 d where
    p: "BitMap_new (jwords j) NumSectors = Inr bm" "Directory_FetchFrom (curDir fs) (Directory_new (jentries j) NumDirEntries) (fdisk fs) = Inr (cur_dir fs, sd1)"
      "Directory_Find nm (cur_dir fs) = Inr (-1)" "BitMap_FetchFrom (freeMapFile fs) bm sd1 = Inr (free_map fs, sd2)"
      "BitMap_Find (free_map fs) = Inr (sec, fm1)" "sec \<noteq> -1" "dir_add nm (sec, False) (cur_dir fs) = Inr (True, d)"
    and q: "disk_map fm1" "Suc (card (free_bits fm1)) = card (free_bits (free_map fs))" by blast
  have "FileHeader_Allocate n (jhdr j) fm1 = Inl OutOfBounds"
    using assms(6,7) q by (intro allocate_too_large [OF assms(2) q(1) assms(3)]) simp_all
  then show ?thesis using p by (simp add: CreateFileInCurrentDirectory_def dir_add_def)
qed

lemma create_dir_overrun:
  assumes "fs_ok fs" "junk_ok j" "dir_map (cur_dir fs) (name_key nm) = None" "dir_room (cur_dir fs)"
    and "32 < card (free_bits (free_map fs))"
  shows "CreateDirInCurrentDirectory j nm fs = Inl OutOfBounds"
proof -
  have "free_bits (free_map fs) \<noteq> {}" using assms(5) by auto
  from create_prefix [OF assms(1-4) this] obtain bm sd1 sd2 sec fm1 d where
    p: "BitMap_new (jwords j) NumSectors = Inr bm" "Directory_FetchFrom (curDir fs) (Directory_new (jentries j) NumDirEntries) (fdisk fs) = Inr (cur_dir fs, sd1)"
      "Directory_Find nm (cur_dir fs) = Inr (-1)" "BitMap_FetchFrom (freeMapFile fs) bm sd1 = Inr (free_map fs, sd2)"
      "BitMap_Find (free_map fs) = Inr (sec, fm1)" "sec \<noteq> -1" "dir_add nm (sec, True) (cur_dir fs) = Inr (True, d)"
    and q: "disk_map fm1" "Suc (card (free_bits fm1)) = card (free_bits (free_map fs))" by blast
  have n: "sectors_for 4000 = 32" by (simp add: sectors_for_def divRoundUp_pos)
  have "FileHeader_Allocate 4000 (jhdr j) fm1 = Inl OutOfBounds"
    using assms(5) q n by (intro allocate_too_large [OF assms(2) q(1)]) simp_all
  then show ?thesis using p by (simp add: CreateDirInCurrentDirectory_def dir_add_def)
qed


section \<open>Removing a file\<close>

text \<open>
  A file that may be removed: its header and data sectors are marked, are not the system's own and belong to no
  other name of the directory.
\<close>

definition removable :: "FileSystem \<Rightarrow> byte list \<Rightarrow> int \<Rightarrow> FileHeader \<Rightarrow> bool" where
  "removable fs nm sec h \<longleftrightarrow> file_ok h \<and> h = dec_header (sector (fdisk fs) sec)
     \<and> insert sec (set (file_sectors h)) \<subseteq> used_bits (free_map fs) - system_sectors fs \<and> sec \<notin> set (file_sectors h)
     \<and> (\<forall>e\<in>set (table (cur_dir fs)). inUse e \<longrightarrow> name_key (ename e) \<noteq> name_key nm \<longrightarrow> dsector e \<notin> insert sec (set (file_sectors h)))"

lemma deallocate_marked:
  assumes "BitMap_wf fm" "file_ok h" "set (file_sectors h) \<subseteq> used_bits fm"
  shows "\<exists>fm'. FileHeader_Deallocate h fm = Inr fm' \<and> BitMap_wf fm'
     \<and> used_bits fm' = used_bits fm - set (file_sectors h) \<and> free_bits fm' = free_bits fm \<union> set (file_sectors h)"
proof -
  have "FileHeader_Deallocate h fm = foldR release_sector (file_sectors h) fm"
    using Deallocate_loop [of 0 "nat (numSectors h)" h fm] assms(2)
    by (simp add: FileHeader_Deallocate_def file_sectors_def file_ok_def)
  then show ?thesis using sector_alloc.release_many [OF assms(1) _ assms(3)] assms(2) by (auto simp: file_ok_def)
qed

lemma release_file_ok:
  assumes "fs_ok fs" "junk_ok j" "dir_map (cur_dir fs) (name_key nm) = Some (sec, b)" "removable fs nm sec h"
    and "sd_ok sd" "sector sd = sector (fdisk fs)"
  shows "\<exists>fs'. release_file j nm sec h (cur_dir fs) sd fs = Inr (True, fs') \<and> fs_ok fs' \<and> fs' = fs\<lparr>fdisk := fdisk fs'\<rparr>
     \<and> dir_map (cur_dir fs') = (dir_map (cur_dir fs))(name_key nm := None)
     \<and> used_bits (free_map fs') = used_bits (free_map fs) - insert sec (set (file_sectors h))
     \<and> free_bits (free_map fs') = free_bits (free_map fs) \<union> insert sec (set (file_sectors h))
     \<and> (\<forall>i. 0 \<le> i \<longrightarrow> i \<notin> system_sectors fs \<longrightarrow> sector (fdisk fs') i = sector (fdisk fs) i)"
proof -
  let ?fm = "free_map fs" and ?d = "cur_dir fs" and ?S = "insert sec (set (file_sectors h))"
  have wf: "BitMap_wf ?fm" "dir_wf ?d" "system_sectors fs \<subseteq> used_bits ?fm"
    and used: "\<forall>e\<in>set (table ?d). inUse e \<longrightarrow> dsector e \<in> used_bits ?fm"
    and sys: "system_files (freeMapFile fs) (curDir fs)"
    using assms(1) disk_map_wf by (simp_all add: fs_ok_def)
  have h: "file_ok h" "?S \<subseteq> used_bits ?fm" "?S \<inter> system_sectors fs = {}" "sec \<notin> set (file_sectors h)"
    and others: "\<forall>e\<in>set (table ?d). inUse e \<longrightarrow> name_key (ename e) \<noteq> name_key nm \<longrightarrow> dsector e \<notin> ?S"
    using assms(4) by (auto simp: removable_def)
  obtain bm where bm: "BitMap_new (jwords j) NumSectors = Inr bm" "disk_map bm" using new_disk_map by blast
  obtain sd1 where 1: "BitMap_FetchFrom (freeMapFile fs) bm sd = Inr (?fm, sd1)" "sd_ok sd1" "sector sd1 = sector (fdisk fs)"
    using fetch_free_map [OF assms(1) bm(2) assms(5,6)] by blast
  obtain fm1 where 2: "FileHeader_Deallocate h ?fm = Inr fm1" "BitMap_wf fm1"
      "used_bits fm1 = used_bits ?fm - set (file_sectors h)" "free_bits fm1 = free_bits ?fm \<union> set (file_sectors h)"
    using deallocate_marked [OF wf(1) h(1)] h(2) by auto
  have "sec \<in> used_bits fm1" using 2(3) h(2,4) by auto
  then obtain fm2 where c: "BitMap_Clear sec fm1 = Inr fm2" "used_bits fm2 = used_bits fm1 - {sec}" "free_bits fm2 = insert sec (free_bits fm1)"
    using bitmap_alloc.release_ok [OF 2(2), of sec] by blast
  then have 3: "BitMap_Clear sec fm1 = Inr fm2" "used_bits fm2 = used_bits ?fm - ?S" "free_bits fm2 = free_bits ?fm \<union> ?S"
    using 2(3,4) by auto
  have dm: "disk_map fm2"
    using Clear_shape [OF 3(1)] Deallocate_shape [OF 2(1)] free_map_shape [of fs] by (simp add: disk_map_def)
  obtain d where d: "Directory_Remove nm ?d = Inr (True, d)" "dir_wf d" "dir_map d = (dir_map ?d)(name_key nm := None)"
    using dirtab.remove_ok [OF wf(2), of nm] assms(3) by auto
  note de = Remove_entries [OF d(1)]
  have td: "tableSize ?d = NumDirEntries" "length (table ?d) = 10" by (simp_all add: cur_dir_def stored_dir_def)
  have "\<forall>e\<in>set (table ?d). entry_fits e" using stored_entries_fit wf(2) by (simp add: cur_dir_def)
  then have fit: "\<forall>e\<in>set (table d). entry_fits e"
    using de d(2) by (fastforce simp: entry_fits_def dir_wf_def)
  obtain sd2 sd3 where 4: "BitMap_WriteBack (jbytes j) (freeMapFile fs) fm2 sd1 = Inr sd2" "Directory_WriteBack (jbytes j) (curDir fs) d sd2 = Inr sd3"
      "sd_ok sd3" "stored_dir NumDirEntries (hdr (curDir fs)) sd3 = d" "stored_map 32 (hdr (freeMapFile fs)) sd3 = fm2"
      "\<forall>i. 0 \<le> i \<longrightarrow> i \<notin> system_sectors fs \<longrightarrow> sector sd3 i = sector sd1 i"
    using flush_map_dir [OF sys 1(2) _ _ fit dm, of "jbytes j"] de td unfolding system_sectors_def by auto
  have "dsector e \<in> used_bits fm2" if e: "e \<in> set (table d)" "inUse e" for e
  proof -
    have "entry_pair e \<in> set (dir_pairs (table d))" using e by (simp add: dir_pairs_def)
    moreover have "name_key nm \<notin> fst ` set (dir_pairs (table d))"
      using d(3) by (metis dir_map_def fun_upd_same map_of_eq_None_iff)
    ultimately have "name_key (ename e) \<noteq> name_key nm" by (force simp: entry_pair_def)
    then show ?thesis using de used others e 3(2) by auto
  qed
  then have "fs_ok (fs\<lparr>fdisk := sd3\<rparr>)" using wf(3) h(3) 3(2) by (intro fs_ok_flushed [OF assms(1) 4(3-5) d(2)]) auto
  moreover have "release_file j nm sec h ?d sd fs = Inr (True, fs\<lparr>fdisk := sd3\<rparr>)"
    using bm(1) 1(1) 2(1) 3(1) d(1) 4(1,2) by (simp add: release_file_def)
  ultimately show ?thesis using 4(4-6) 1(3) d(3) 3(2,3)
    by (intro exI [of _ "fs\<lparr>fdisk := sd3\<rparr>"]) (simp add: cur_dir_def free_map_def)
qed

lemma remove_success:
  assumes "fs_ok fs" "junk_ok j" "dir_map (cur_dir fs) (name_key nm) = Some (sec, b)" "removable fs nm sec h"
  shows "\<exists>fs'. RemoveFileInCurrentDirectory j nm fs = Inr (True, fs') \<and> fs_ok fs' \<and> fs' = fs\<lparr>fdisk := fdisk fs'\<rparr>
     \<and> dir_map (cur_dir fs') = (dir_map (cur_dir fs))(name_key nm := None)
     \<and> used_bits (free_map fs') = used_bits (free_map fs) - insert sec (set (file_sectors h))
     \<and> free_bits (free_map fs') = free_bits (free_map fs) \<union> insert sec (set (file_sectors h))
     \<and> (\<forall>i. 0 \<le> i \<longrightarrow> i \<notin> system_sectors fs \<longrightarrow> sector (fdisk fs') i = sector (fdisk fs) i)"
proof -
  obtain sd1 where 1: "Directory_FetchFrom (curDir fs) (Directory_new (jentries j) NumDirEntries) (fdisk fs) = Inr (cur_dir fs, sd1)"
      "sd_ok sd1" "sector sd1 = sector (fdisk fs)" using fetch_cur_dir [OF assms(1,2)] by blast
  have f: "Directory_Find nm (cur_dir fs) = Inr sec" "0 \<le> sec" "sec < NumSectors" using find_cur(2) [OF assms(1,3)] by auto
  then obtain sd2 where 2: "FileHeader_FetchFrom sec sd1 = Inr (h, sd2)" "sd_ok sd2" "sector sd2 = sector (fdisk fs)"
    using sdisk.rd_ok [OF 1(2) f(2,3)] assms(4) 1(3) by (auto simp: FileHeader_FetchFrom_def removable_def)
  then have "RemoveFileInCurrentDirectory j nm fs = release_file j nm sec h (cur_dir fs) sd2 fs"
    using 1(1) f by (simp add: RemoveFileInCurrentDirectory_def)
  then show ?thesis using release_file_ok [OF assms 2(2,3)] by simp
qed


section \<open>Formatting\<close>

lemma sectors_for_system: "sectors_for 128 = 1" "sectors_for 200 = 2"
  by (simp_all add: sectors_for_def divRoundUp_pos)

text \<open>The free map of a new disk, after the headers and data of its two files were taken.\<close>

lemma format_map:
  assumes "junk_ok j"
  shows "\<exists>fm0 fm1 fm2 mh fm3 dh fm4. BitMap_new (jwords j) NumSectors = Inr fm0 \<and> BitMap_Mark FreeMapSector fm0 = Inr fm1
     \<and> BitMap_Mark DirectorySector fm1 = Inr fm2 \<and> FileHeader_Allocate FreeMapFileSize (jhdr j) fm2 = Inr (True, mh, fm3)
     \<and> FileHeader_Allocate DirectoryFileSize (jhdr j) fm3 = Inr (True, dh, fm4) \<and> disk_map fm4
     \<and> file_ok mh \<and> header_fits mh \<and> numBytes mh = FreeMapFileSize \<and> file_ok dh \<and> header_fits dh \<and> numBytes dh = DirectoryFileSize
     \<and> {0, 1} \<inter> (set (file_sectors mh) \<union> set (file_sectors dh)) = {} \<and> set (file_sectors mh) \<inter> set (file_sectors dh) = {}
     \<and> used_bits fm4 = {0, 1} \<union> set (file_sectors mh) \<union> set (file_sectors dh)"
proof -
  obtain fm0 where 0: "BitMap_new (jwords j) NumSectors = Inr fm0" "disk_map fm0" "used_bits fm0 = {}" using new_disk_map by blast
  obtain fm1 where 1: "BitMap_Mark 0 fm0 = Inr fm1" "used_bits fm1 = {0}"
    using Mark_spec [OF disk_map_wf [OF 0(2)], of 0] 0 by (auto simp: disk_map_def map_shape_def)
  have m1: "disk_map fm1" using Mark_shape [OF 1(1)] 0(2) by (simp add: disk_map_def)
  obtain fm2 where 2: "BitMap_Mark 1 fm1 = Inr fm2" "used_bits fm2 = {0, 1}"
    using Mark_spec [OF disk_map_wf [OF m1], of 1] m1 1 by (auto simp: disk_map_def map_shape_def)
  have m2: "disk_map fm2" using Mark_shape [OF 2(1)] m1 by (simp add: disk_map_def)
  have f2: "free_bits fm2 = {2..<NumSectors}"
  proof -
    have "x \<in> {0..<NumSectors} - {0, 1} \<longleftrightarrow> x \<in> {2..<NumSectors}" for x :: int by simp linarith
    moreover have "free_bits fm2 = {0..<NumSectors} - {0, 1}"
      using m2 unfolding free_bits_def 2(2) disk_map_def map_shape_def by simp
    ultimately show ?thesis by blast
  qed
  obtain mh fm3 where 3: "FileHeader_Allocate 128 (jhdr j) fm2 = Inr (True, mh, fm3)" "disk_map fm3" "file_ok mh" "header_fits mh" "numBytes mh = 128"
      "set (file_sectors mh) \<subseteq> free_bits fm2" "used_bits fm3 = used_bits fm2 \<union> set (file_sectors mh)" "free_bits fm3 = free_bits fm2 - set (file_sectors mh)"
    using alloc_header [OF assms m2, of 128] f2 by (auto simp: sectors_for_system int32_ok_def)
  have "card (set (file_sectors mh)) \<le> 1" using sectors_length(1) [OF 3(3)] 3(5) sectors_for_system by (metis card_length)
  moreover have "card {2..<NumSectors} = 1022" by simp
  moreover have "card {2..<NumSectors} - card (set (file_sectors mh)) \<le> card (free_bits fm3)"
    unfolding 3(8) f2 by (rule diff_card_le_card_Diff) (rule finite_set)
  ultimately have "2 \<le> card (free_bits fm3)" by linarith
  then obtain dh fm4 where 4: "FileHeader_Allocate 200 (jhdr j) fm3 = Inr (True, dh, fm4)" "disk_map fm4" "file_ok dh" "header_fits dh" "numBytes dh = 200"
      "set (file_sectors dh) \<subseteq> free_bits fm3" "used_bits fm4 = used_bits fm3 \<union> set (file_sectors dh)"
    using alloc_header [OF assms 3(2), of 200] by (auto simp: sectors_for_system int32_ok_def)
  have "{0, 1} \<inter> (set (file_sectors mh) \<union> set (file_sectors dh)) = {}" "set (file_sectors mh) \<inter> set (file_sectors dh) = {}"
    using 3(6,8) 4(6) f2 by auto
  moreover have "used_bits fm4 = {0, 1} \<union> set (file_sectors mh) \<union> set (file_sectors dh)" using 2(2) 3(7) 4(7) by simp
  ultimately show ?thesis using 0(1) 1(1) 2(1) 3(1,3-5) 4(1-5)
    by (intro exI [of _ fm0] exI [of _ fm1] exI [of _ fm2] exI [of _ mh] exI [of _ fm3] exI [of _ dh] exI [of _ fm4]) simp
qed

lemma special_dir:
  assumes "junk_ok j"
  shows "\<exists>d. Directory_AddSpecialDir DirectorySector DirectorySector (Directory_new (jentries j) NumDirEntries) = Inr (True, d) \<and> dir_wf d
     \<and> dir_map d = [dot \<mapsto> (1, True), dotdot \<mapsto> (1, True)] \<and> tableSize d = NumDirEntries \<and> length (table d) = 10
     \<and> (\<forall>e\<in>set (table d). entry_fits e) \<and> (\<forall>e\<in>set (table d). inUse e \<longrightarrow> dsector e = 1)"
proof -
  let ?new = "Directory_new (jentries j) NumDirEntries"
  have l: "\<forall>i. length (ename (jentries j i)) = 10" using assms by (simp add: junk_ok_def entry_fits_def)
  note nd = new_dir [OF _ l, of NumDirEntries]
  obtain d where d: "Directory_AddSpecialDir 1 1 ?new = Inr (True, d)" "dir_wf d" "dir_map d = [dot \<mapsto> (1, True), dotdot \<mapsto> (1, True)]"
    using AddSpecialDir_spec [of ?new 1 1] nd by auto
  have n: "tableSize ?new = NumDirEntries" "length (table ?new) = 10" "\<forall>e\<in>set (table ?new). entry_fits e"
    using assms by (auto simp: Directory_new_def junk_ok_def entry_fits_def)
  obtain d1 where "Directory_Add dot True 0 1 ?new = Inr d1" "Directory_Add dotdot True 1 1 d1 = Inr d"
    using d(1) by (auto simp: Directory_AddSpecialDir_def bind_iffs split: if_splits)
  then have e: "\<forall>e\<in>set (table d). e \<in> set (table ?new) \<or> dsector e = 1" "tableSize d = NumDirEntries" "length (table d) = 10"
    using n(1,2) by (auto simp: Directory_Add_def dest!: set_update_subset_insert [THEN subsetD])
  have "entry_fits e" if "e \<in> set (table d)" for e
    using e(1) that n(3) d(2) by (auto simp: entry_fits_def dir_wf_def int32_ok_def)
  moreover have "dsector e = 1" if "e \<in> set (table d)" "inUse e" for e using e(1) that nd(3) by auto
  ultimately show ?thesis using d e by blast
qed

lemma format_ok:
  assumes "junk_ok j" "sd_ok sd"
  shows "\<exists>fs. FileSystem_new j True sd = Inr fs \<and> fs_ok fs \<and> dir_map (cur_dir fs) = [dot \<mapsto> (1, True), dotdot \<mapsto> (1, True)]
     \<and> card (free_bits (free_map fs)) = 1019 \<and> sector (fdisk fs) 0 = enc_header (hdr (freeMapFile fs))
     \<and> sector (fdisk fs) 1 = enc_header (hdr (directoryFile fs)) \<and> header_fits (hdr (freeMapFile fs)) \<and> header_fits (hdr (directoryFile fs))
     \<and> curDir fs = directoryFile fs \<and> seekPosition (freeMapFile fs) = 0 \<and> seekPosition (directoryFile fs) = 0"
proof -
  obtain fm0 fm1 fm2 mh fm3 dh fm4 where m: "BitMap_new (jwords j) NumSectors = Inr fm0" "BitMap_Mark 0 fm0 = Inr fm1" "BitMap_Mark 1 fm1 = Inr fm2"
      "FileHeader_Allocate 128 (jhdr j) fm2 = Inr (True, mh, fm3)" "FileHeader_Allocate 200 (jhdr j) fm3 = Inr (True, dh, fm4)"
    and f: "disk_map fm4" "file_ok mh" "header_fits mh" "numBytes mh = 128" "file_ok dh" "header_fits dh" "numBytes dh = 200"
      "{0, 1} \<inter> (set (file_sectors mh) \<union> set (file_sectors dh)) = {}" "set (file_sectors mh) \<inter> set (file_sectors dh) = {}"
      "used_bits fm4 = {0, 1} \<union> set (file_sectors mh) \<union> set (file_sectors dh)"
    using format_map [OF assms(1)] by (elim exE conjE) (rule that)
  obtain d where d: "Directory_AddSpecialDir 1 1 (Directory_new (jentries j) 10) = Inr (True, d)" "dir_wf d"
      "dir_map d = [dot \<mapsto> (1, True), dotdot \<mapsto> (1, True)]" "tableSize d = NumDirEntries" "length (table d) = 10"
      "\<forall>e\<in>set (table d). entry_fits e" "\<forall>e\<in>set (table d). inUse e \<longrightarrow> dsector e = 1"
    using special_dir [OF assms(1)] by blast
  obtain sd1 where 1: "WriteSector 0 (enc_header mh) sd = Inr sd1" "sd_ok sd1" "sector sd1 0 = enc_header mh"
    using sdisk.wr_ok [OF assms(2) _ _ header_codec.length_enc [OF f(3)], of 0] by auto
  obtain sd2 where 2: "WriteSector 1 (enc_header dh) sd1 = Inr sd2" "sd_ok sd2" "sector sd2 1 = enc_header dh" "sector sd2 0 = enc_header mh"
    using sdisk.wr_ok [OF 1(2) _ _ header_codec.length_enc [OF f(6)], of 1] 1(3) by auto
  let ?mf = "\<lparr>hdr = mh, seekPosition = 0\<rparr>" and ?df = "\<lparr>hdr = dh, seekPosition = 0\<rparr>"
  obtain sd3 where 3: "OpenFile_new 0 sd2 = Inr (?mf, sd3)" "sd_ok sd3" "sector sd3 = sector sd2"
    using OpenFile_new_ok [OF 2(2), of 0] 2(4) header_codec.dec_enc [OF f(3)] by auto
  obtain sd4 where 4: "OpenFile_new 1 sd3 = Inr (?df, sd4)" "sd_ok sd4" "sector sd4 = sector sd2"
    using OpenFile_new_ok [OF 3(2), of 1] 2(3) 3(3) header_codec.dec_enc [OF f(6)] by auto
  have sys: "system_files ?mf ?df" using f by (simp add: system_files_def)
  obtain sd5 sd6 where 5: "BitMap_WriteBack (jbytes j) ?mf fm4 sd4 = Inr sd5" "Directory_WriteBack (jbytes j) ?df d sd5 = Inr sd6" "sd_ok sd6"
      "stored_dir 10 dh sd6 = d" "stored_map 32 mh sd6 = fm4"
      "\<forall>i. 0 \<le> i \<longrightarrow> i \<notin> set (file_sectors mh) \<union> set (file_sectors dh) \<longrightarrow> sector sd6 i = sector sd4 i"
    using flush_map_dir [OF sys 4(2) d(4-6) f(1), of "jbytes j"] by auto
  let ?fs = "\<lparr>fdisk = sd6, freeMapFile = ?mf, directoryFile = ?df, curDir = ?df, fileTable = OpenFileTable_new (jslots j)\<rparr>"
  have "FileSystem_format j sd = Inr (?mf, ?df, sd6)"
    using m d(1) 1(1) 2(1) 3(1) 4(1) 5(1,2) by (simp add: FileSystem_format_def FileHeader_WriteBack_def)
  then have r: "FileSystem_new j True sd = Inr ?fs" by (simp add: FileSystem_new_def)
  have "fs_ok ?fs"
    using 5(3-5) sys d(2,7) f(10) by (auto simp: fs_ok_def cur_dir_def free_map_def system_sectors_def)
  moreover have "card (free_bits fm4) = 1019"
  proof -
    have "card (set (file_sectors mh)) = 1" "card (set (file_sectors dh)) = 2"
      using f(2,4,5,7) sectors_length(1) [OF f(2)] sectors_length(1) [OF f(5)] sectors_for_system
      by (simp_all add: file_ok_def distinct_card)
    then have "card (used_bits fm4) = 5" unfolding f(10) using f(8,9) by (simp add: card_Un_disjoint Un_assoc)
    moreover have "free_bits fm4 = {0..<NumSectors} - used_bits fm4" using f(1) by (simp add: free_bits_def disk_map_def map_shape_def)
    moreover have "used_bits fm4 \<subseteq> {0..<NumSectors}" using used_range [OF f(1)] by auto
    ultimately show ?thesis by (simp add: card_Diff_subset)
  qed
  moreover have "sector sd6 0 = enc_header mh" "sector sd6 1 = enc_header dh" using 5(6) 4(3) 2(3,4) f(8) by auto
  ultimately show ?thesis using r 5(4,5) d(3) f(3,6) by (intro exI [of _ ?fs]) (simp add: cur_dir_def free_map_def)
qed


text \<open>A file just created shares no sector with the system files or with another name of the directory, so it can be removed.\<close>

lemma create_removable:
  assumes "fs_ok fs" "junk_ok j" "0 \<le> n" "int32_ok n" "dir_map (cur_dir fs) (name_key nm) = None" "dir_room (cur_dir fs)"
    and "sectors_for n < card (free_bits (free_map fs))" "sectors_for n \<le> NumDirect"
  shows "\<exists>fs1 sec h. CreateFileInCurrentDirectory j n nm fs = Inr (True, fs1) \<and> fs_ok fs1 \<and> fs1 = fs\<lparr>fdisk := fdisk fs1\<rparr>
     \<and> dir_map (cur_dir fs1) = (dir_map (cur_dir fs))(name_key nm \<mapsto> (sec, False))
     \<and> sec \<in> free_bits (free_map fs) \<and> numBytes h = n \<and> set (file_sectors h) \<subseteq> free_bits (free_map fs) - {sec}
     \<and> used_bits (free_map fs1) = insert sec (used_bits (free_map fs) \<union> set (file_sectors h))
     \<and> (\<forall>i. 0 \<le> i \<longrightarrow> i \<noteq> sec \<longrightarrow> i \<notin> system_sectors fs \<longrightarrow> sector (fdisk fs1) i = sector (fdisk fs) i)
     \<and> removable fs1 nm sec h"
proof -
  obtain fs1 sec h where r: "fs_ok fs1" "fs1 = fs\<lparr>fdisk := fdisk fs1\<rparr>" "dir_map (cur_dir fs1) = (dir_map (cur_dir fs))(name_key nm \<mapsto> (sec, False))"
      "sec \<in> free_bits (free_map fs)" "h = dec_header (sector (fdisk fs1) sec)" "file_ok h" "set (file_sectors h) \<subseteq> free_bits (free_map fs) - {sec}"
      "used_bits (free_map fs1) = insert sec (used_bits (free_map fs) \<union> set (file_sectors h))"
      "\<forall>e\<in>set (table (cur_dir fs1)). inUse e \<longrightarrow> e \<in> set (table (cur_dir fs)) \<or> dsector e = sec"
      "\<forall>i. 0 \<le> i \<longrightarrow> i \<noteq> sec \<longrightarrow> i \<notin> system_sectors fs \<longrightarrow> sector (fdisk fs1) i = sector (fdisk fs) i"
      and c: "CreateFileInCurrentDirectory j n nm fs = Inr (True, fs1)" "numBytes h = n"
    using create_success [OF assms] by (elim exE conjE) (rule that)
  have sys: "system_sectors fs1 = system_sectors fs"
    using arg_cong [OF r(2), of freeMapFile] arg_cong [OF r(2), of curDir] by (simp add: system_sectors_def)
  have sysu: "system_sectors fs \<subseteq> used_bits (free_map fs)" and used: "\<forall>e\<in>set (table (cur_dir fs)). inUse e \<longrightarrow> dsector e \<in> used_bits (free_map fs)"
    using assms(1) by (simp_all add: fs_ok_def)
  note disj = bitmap_alloc.disjoint [of "free_map fs"]
  have "dsector e \<notin> insert sec (set (file_sectors h))"
    if e: "e \<in> set (table (cur_dir fs1))" "inUse e" "name_key (ename e) \<noteq> name_key nm" for e
  proof -
    have "(name_key (ename e), dsector e, isDirectory e) \<in> set (dir_pairs (table (cur_dir fs1)))"
      using e by (force simp: dir_pairs_def entry_pair_def)
    then have "dir_map (cur_dir fs1) (name_key (ename e)) = Some (dsector e, isDirectory e)"
      using r(1) by (simp add: dir_map_def fs_ok_def dir_wf_def)
    then have "dir_map (cur_dir fs) (name_key (ename e)) = Some (dsector e, isDirectory e)" using r(3) e(3) by simp
    then have "dsector e \<in> used_bits (free_map fs)" using find_cur(2) [OF assms(1), of "ename e"] by blast
    then show ?thesis using r(4,7) disj by blast
  qed
  then have "removable fs1 nm sec h"
    using r sys sysu disj by (auto simp: removable_def)
  then show ?thesis using c r(1-4,7,8,10) by (intro exI [of _ fs1] exI [of _ sec] exI [of _ h]) simp
qed

section \<open>Properties\<close>

text \<open>
  Formatting any disk, whatever the memory of the new objects held, gives a file system that
  satisfies the invariant, whose root directory holds exactly \<^verbatim>\<open>.\<close> and \<^verbatim>\<open>..\<close> and which has 1019 free
  sectors; mounting that disk again without formatting finds the same free map and root directory.
\<close>

theorem format_then_mount:
  assumes "junk_ok j" "sd_ok sd"
  shows "\<exists>fs fs'. FileSystem_new j True sd = Inr fs \<and> fs_ok fs
     \<and> dir_map (cur_dir fs) = [dot \<mapsto> (DirectorySector, True), dotdot \<mapsto> (DirectorySector, True)]
     \<and> card (free_bits (free_map fs)) = 1019
     \<and> FileSystem_new j' False (fdisk fs) = Inr fs' \<and> fs_ok fs' \<and> free_map fs' = free_map fs \<and> cur_dir fs' = cur_dir fs"
proof -
  obtain fs where f: "FileSystem_new j True sd = Inr fs" "fs_ok fs" "dir_map (cur_dir fs) = [dot \<mapsto> (1, True), dotdot \<mapsto> (1, True)]"
      "card (free_bits (free_map fs)) = 1019" "sector (fdisk fs) 0 = enc_header (hdr (freeMapFile fs))"
      "sector (fdisk fs) 1 = enc_header (hdr (directoryFile fs))" "header_fits (hdr (freeMapFile fs))" "header_fits (hdr (directoryFile fs))"
      "curDir fs = directoryFile fs" "seekPosition (freeMapFile fs) = 0" "seekPosition (directoryFile fs) = 0"
    using format_ok [OF assms] by blast
  have ok: "sd_ok (fdisk fs)" using f(2) by (simp add: fs_ok_def)
  obtain sd1 where 1: "OpenFile_new 0 (fdisk fs) = Inr (freeMapFile fs, sd1)" "sd_ok sd1" "sector sd1 = sector (fdisk fs)"
    using OpenFile_new_ok [OF ok, of 0] f(5,7,10) header_codec.dec_enc by (cases "freeMapFile fs") auto
  obtain sd2 where 2: "OpenFile_new 1 sd1 = Inr (directoryFile fs, sd2)" "sd_ok sd2" "sector sd2 = sector (fdisk fs)"
    using OpenFile_new_ok [OF 1(2), of 1] 1(3) f(6,8,11) header_codec.dec_enc by (cases "directoryFile fs") auto
  let ?fs = "fs\<lparr>fdisk := sd2, fileTable := OpenFileTable_new (jslots j')\<rparr>"
  have "FileSystem_new j' False (fdisk fs) = Inr ?fs" using 1(1) 2(1) f(9) by (cases fs) (simp add: FileSystem_new_def)
  moreover have c: "free_map ?fs = free_map fs" "cur_dir ?fs = cur_dir fs"
    using same_sectors [OF 2(3)] by (simp_all add: free_map_def cur_dir_def)
  moreover have "fs_ok ?fs" using fs_ok_same [OF f(2) 2(2,3)] by (simp add: fs_ok_def cur_dir_def free_map_def system_sectors_def)
  ultimately show ?thesis using f(1-4) by blast
qed

definition demo_junk :: junk where
  "demo_junk = \<lparr>jbytes = (\<lambda>_. 9), jwords = (\<lambda>_. 5), jentries = (\<lambda>_. blank_entry), jslots = (\<lambda>_. None), jhdr = empty_hdr\<rparr>"

lemma demo_junk_ok: "junk_ok demo_junk"
  by (simp add: junk_ok_def demo_junk_def entry_fits_def blank_entry_def header_fits_def empty_hdr_def int32_ok_def)

theorem format_then_mount_witness:
  "\<exists>fs fs'. FileSystem_new demo_junk True demo_disk = Inr fs \<and> fs_ok fs \<and> FileSystem_new demo_junk False (fdisk fs) = Inr fs'
     \<and> cur_dir fs' = cur_dir fs"
  using format_then_mount [OF demo_junk_ok demo_disk_ok, of demo_junk] by blast

text \<open>A directory that holds only the two names of a new one has room.\<close>

lemma fresh_dir_room:
  assumes "fs_ok fs" "dir_map (cur_dir fs) = [dot \<mapsto> (1, True), dotdot \<mapsto> (1, True)]"
  shows "dir_room (cur_dir fs)"
proof (rule ccontr)
  assume "\<not> dir_room (cur_dir fs)"
  then have "filter inUse (table (cur_dir fs)) = table (cur_dir fs)" by (simp add: dir_room_def filter_id_conv)
  then have l: "length (dir_pairs (table (cur_dir fs))) = 10" by (simp add: dir_pairs_def cur_dir_def stored_dir_def)
  have "distinct (map fst (dir_pairs (table (cur_dir fs))))" using assms(1) by (simp add: fs_ok_def dir_wf_def)
  then have "card (fst ` set (dir_pairs (table (cur_dir fs)))) = 10" using l by (metis distinct_card length_map set_map)
  moreover have "fst ` set (dir_pairs (table (cur_dir fs))) = dom (dir_map (cur_dir fs))" by (simp add: dir_map_def dom_map_of_conv_image_fst)
  moreover have "dom (dir_map (cur_dir fs)) \<subseteq> {dot, dotdot}" unfolding assms(2) by auto
  moreover have "card {dot, dotdot} \<le> 2" by (simp add: card_insert_if)
  ultimately show False using card_mono [of "{dot, dotdot}" "dom (dir_map (cur_dir fs))"] by simp
qed

text \<open>A formatted file system with room for a file called \<open>a\<close>.\<close>

lemma demo_fs:
  "\<exists>fs. fs_ok fs \<and> dir_map (cur_dir fs) (name_key [97]) = None \<and> dir_room (cur_dir fs) \<and> card (free_bits (free_map fs)) = 1019"
proof -
  obtain fs where f: "fs_ok fs" "dir_map (cur_dir fs) = [dot \<mapsto> (1, True), dotdot \<mapsto> (1, True)]" "card (free_bits (free_map fs)) = 1019"
    using format_ok [OF demo_junk_ok demo_disk_ok] by blast
  then show ?thesis using fresh_dir_room [OF f(1,2)] by (intro exI [of _ fs]) (simp add: name_key_def dot_def dotdot_def)
qed

text \<open>
  C2 (functional): creating a file of \<open>n\<close> bytes in the current directory. A name that exists, a full directory or
  too few free sectors give false and leave every sector of the disk as it was. Otherwise a file of at most
  \<^verbatim>\<open>NumDirect\<close> sectors is created: the name maps to a previously free sector that holds its header, the header
  lists distinct previously free sectors, exactly these are marked, no sector outside the header, the directory and
  the free map changes, and the invariant holds again. A larger file overruns the header.
\<close>

theorem create_file_outcome:
  assumes "fs_ok fs" "junk_ok j" "0 \<le> n" "int32_ok n"
  shows "if dir_map (cur_dir fs) (name_key nm) \<noteq> None \<or> \<not> dir_room (cur_dir fs) \<or> card (free_bits (free_map fs)) \<le> sectors_for n
     then \<exists>fs'. CreateFileInCurrentDirectory j n nm fs = Inr (False, fs') \<and> fs_ok fs' \<and> sector (fdisk fs') = sector (fdisk fs)
     else if sectors_for n \<le> NumDirect
     then \<exists>fs' sec h. CreateFileInCurrentDirectory j n nm fs = Inr (True, fs') \<and> fs_ok fs'
        \<and> dir_map (cur_dir fs') = (dir_map (cur_dir fs))(name_key nm \<mapsto> (sec, False))
        \<and> sec \<in> free_bits (free_map fs) \<and> h = dec_header (sector (fdisk fs') sec) \<and> file_ok h \<and> FileHeader_FileLength h = n
        \<and> set (file_sectors h) \<subseteq> free_bits (free_map fs) - {sec}
        \<and> used_bits (free_map fs') = insert sec (used_bits (free_map fs) \<union> set (file_sectors h))
        \<and> (\<forall>i. 0 \<le> i \<longrightarrow> i \<noteq> sec \<longrightarrow> i \<notin> system_sectors fs \<longrightarrow> sector (fdisk fs') i = sector (fdisk fs) i)
     else CreateFileInCurrentDirectory j n nm fs = Inl OutOfBounds"
proof -
  let ?bad = "dir_map (cur_dir fs) (name_key nm) \<noteq> None \<or> \<not> dir_room (cur_dir fs) \<or> card (free_bits (free_map fs)) \<le> sectors_for n"
  show ?thesis
  proof (cases ?bad)
    case True
    then show ?thesis using create_failure [OF assms(1-3) True] by simp
  next
    case False
    then have g: "dir_map (cur_dir fs) (name_key nm) = None" "dir_room (cur_dir fs)" "sectors_for n < card (free_bits (free_map fs))"
      by (metis linorder_not_le)+
    show ?thesis
    proof (cases "sectors_for n \<le> NumDirect")
      case True
      obtain fs' sec h where r: "CreateFileInCurrentDirectory j n nm fs = Inr (True, fs')" "fs_ok fs'"
        "dir_map (cur_dir fs') = (dir_map (cur_dir fs))(name_key nm \<mapsto> (sec, False))" "sec \<in> free_bits (free_map fs)"
        "h = dec_header (sector (fdisk fs') sec)" "file_ok h" "numBytes h = n" "set (file_sectors h) \<subseteq> free_bits (free_map fs) - {sec}"
        "used_bits (free_map fs') = insert sec (used_bits (free_map fs) \<union> set (file_sectors h))"
        "\<forall>i. 0 \<le> i \<longrightarrow> i \<noteq> sec \<longrightarrow> i \<notin> system_sectors fs \<longrightarrow> sector (fdisk fs') i = sector (fdisk fs) i"
        using create_success [OF assms g True] by (elim exE conjE) (rule that)
      show ?thesis unfolding if_not_P [OF False] if_P [OF True] FileHeader_FileLength_def
        by (rule exI [of _ fs'], rule exI [of _ sec], rule exI [of _ h]) (intro conjI r)
    next
      case big: False
      then show ?thesis unfolding if_not_P [OF False] if_not_P [OF big]
        using create_too_large [OF assms(1-3) g] by simp
    qed
  qed
qed

theorem create_file_outcome_witness:
  "\<exists>fs fs' sec. CreateFileInCurrentDirectory demo_junk 300 [97] fs = Inr (True, fs') \<and> dir_map (cur_dir fs') [97] = Some (sec, False)"
proof -
  obtain fs where f: "fs_ok fs" "dir_map (cur_dir fs) (name_key [97]) = None" "dir_room (cur_dir fs)" "card (free_bits (free_map fs)) = 1019"
    using demo_fs by blast
  have "sectors_for 300 = 3" "name_key [97] = [97]" by (simp_all add: sectors_for_def divRoundUp_pos name_key_def)
  then obtain fs' sec where "CreateFileInCurrentDirectory demo_junk 300 [97] fs = Inr (True, fs')"
      "dir_map (cur_dir fs') = (dir_map (cur_dir fs))([97] \<mapsto> (sec, False))"
    using create_file_outcome [OF f(1) demo_junk_ok, of 300 "[97]"] f(2-4) by (auto simp: int32_ok_def)
  then show ?thesis by (intro exI [of _ fs] exI [of _ fs'] exI [of _ sec]) simp
qed


text \<open>
  C35 (roundtrip): a file just created can be removed again; this succeeds, gives the directory and the free map
  their old content back, and leaves every sector outside the new header, the directory and the free map as it was
  before the creation.
\<close>

theorem create_then_remove:
  assumes "fs_ok fs" "junk_ok j" "0 \<le> n" "int32_ok n" "sectors_for n \<le> NumDirect"
    and "CreateFileInCurrentDirectory j n nm fs = Inr (True, fs1)"
  shows "\<exists>fs2. RemoveFileInCurrentDirectory j nm fs1 = Inr (True, fs2) \<and> fs_ok fs2
     \<and> dir_map (cur_dir fs2) = dir_map (cur_dir fs) \<and> free_bits (free_map fs2) = free_bits (free_map fs)
     \<and> (\<exists>sec\<in>free_bits (free_map fs). \<forall>i. 0 \<le> i \<longrightarrow> i \<noteq> sec \<longrightarrow> i \<notin> system_sectors fs \<longrightarrow> sector (fdisk fs2) i = sector (fdisk fs) i)"
proof -
  have g: "dir_map (cur_dir fs) (name_key nm) = None" "dir_room (cur_dir fs)" "sectors_for n < card (free_bits (free_map fs))"
    using create_failure [OF assms(1-3), of nm] assms(6) by (fastforce simp: not_le [symmetric])+
  obtain sec h where r: "fs_ok fs1" "fs1 = fs\<lparr>fdisk := fdisk fs1\<rparr>" "dir_map (cur_dir fs1) = (dir_map (cur_dir fs))(name_key nm \<mapsto> (sec, False))"
      "sec \<in> free_bits (free_map fs)" "set (file_sectors h) \<subseteq> free_bits (free_map fs) - {sec}"
      "used_bits (free_map fs1) = insert sec (used_bits (free_map fs) \<union> set (file_sectors h))"
      "\<forall>i. 0 \<le> i \<longrightarrow> i \<noteq> sec \<longrightarrow> i \<notin> system_sectors fs \<longrightarrow> sector (fdisk fs1) i = sector (fdisk fs) i"
      "removable fs1 nm sec h"
    using create_removable [OF assms(1-4) g assms(5)] assms(6) by (elim exE conjE) (rule that, simp_all)
  have sys: "system_sectors fs1 = system_sectors fs"
    using arg_cong [OF r(2), of freeMapFile] arg_cong [OF r(2), of curDir] by (simp add: system_sectors_def)
  note disj = bitmap_alloc.disjoint [of "free_map fs"]
  have "dir_map (cur_dir fs1) (name_key nm) = Some (sec, False)" using r(3) by simp
  then obtain fs2 where q: "RemoveFileInCurrentDirectory j nm fs1 = Inr (True, fs2)" "fs_ok fs2"
      "dir_map (cur_dir fs2) = (dir_map (cur_dir fs1))(name_key nm := None)"
      "used_bits (free_map fs2) = used_bits (free_map fs1) - insert sec (set (file_sectors h))"
      "\<forall>i. 0 \<le> i \<longrightarrow> i \<notin> system_sectors fs1 \<longrightarrow> sector (fdisk fs2) i = sector (fdisk fs1) i"
    using remove_success [OF r(1) assms(2) _ r(8)] by blast
  have "dir_map (cur_dir fs2) = dir_map (cur_dir fs)" using q(3) r(3) g(1) by auto
  moreover have "used_bits (free_map fs2) = used_bits (free_map fs)" using q(4) r(4-6) disj by auto
  then have "free_bits (free_map fs2) = free_bits (free_map fs)"
    using free_map_shape [of fs] free_map_shape [of fs2] by (simp add: free_bits_def disk_map_def map_shape_def)
  moreover have "\<forall>i. 0 \<le> i \<longrightarrow> i \<noteq> sec \<longrightarrow> i \<notin> system_sectors fs \<longrightarrow> sector (fdisk fs2) i = sector (fdisk fs) i"
    using q(5) r(7) sys by simp
  ultimately show ?thesis using q(1,2) r(4) by blast
qed

theorem create_then_remove_witness:
  "\<exists>fs fs1 fs2. CreateFileInCurrentDirectory demo_junk 300 [97] fs = Inr (True, fs1)
     \<and> RemoveFileInCurrentDirectory demo_junk [97] fs1 = Inr (True, fs2) \<and> dir_map (cur_dir fs2) = dir_map (cur_dir fs)"
proof -
  obtain fs where f: "fs_ok fs" "dir_map (cur_dir fs) (name_key [97]) = None" "dir_room (cur_dir fs)" "card (free_bits (free_map fs)) = 1019"
    using demo_fs by blast
  have n: "sectors_for 300 = 3" "int32_ok 300" by (simp_all add: sectors_for_def divRoundUp_pos int32_ok_def)
  obtain fs1 where c: "CreateFileInCurrentDirectory demo_junk 300 [97] fs = Inr (True, fs1)"
    using create_success [OF f(1) demo_junk_ok _ n(2) f(2,3)] f(4) n(1) by auto
  show ?thesis using create_then_remove [OF f(1) demo_junk_ok _ n(2) _ c] n(1) c by auto
qed

text \<open>
  Creating a directory in a file system with more than 32 free sectors never succeeds: \<^verbatim>\<open>CreateDir\<close> asks for
  \<^verbatim>\<open>DirectoryFileSize * sizeof(DirectoryEntry)\<close> bytes (4000, where 200 are meant), which is 32 sectors, and the
  allocation runs past the end of the header.
\<close>

theorem create_dir_overruns_header:
  assumes "fs_ok fs" "junk_ok j" "dir_map (cur_dir fs) (name_key nm) = None" "dir_room (cur_dir fs)"
    and "32 < card (free_bits (free_map fs))"
  shows "CreateDirInCurrentDirectory j nm fs = Inl OutOfBounds"
  by (rule create_dir_overrun [OF assms])

theorem create_dir_overruns_header_witness:
  "\<exists>fs. fs_ok fs \<and> CreateDirInCurrentDirectory demo_junk [97] fs = Inl OutOfBounds"
proof -
  obtain fs where f: "fs_ok fs" "dir_map (cur_dir fs) (name_key [97]) = None" "dir_room (cur_dir fs)" "card (free_bits (free_map fs)) = 1019"
    using demo_fs by blast
  then show ?thesis using create_dir_overruns_header [OF f(1) demo_junk_ok f(2,3)] by auto
qed

end
