(* ===== verification/FilePaths.thy ===== *)
theory FilePaths
  imports FileSysSpec
begin

text \<open>
  Paths: how \<^verbatim>\<open>SplitPathAndName\<close> of \<^verbatim>\<open>filesys/filesys.cc\<close> takes a path apart, and what a path through a missing
  directory does.
\<close>

section \<open>Splitting\<close>

text \<open>Components joined by slashes.\<close>

fun join_path :: "byte list list \<Rightarrow> byte list" where
  "join_path [] = []"
| "join_path [c] = c"
| "join_path (c # d # cs) = c @ slash # join_path (d # cs)"

lemma join_path_snoc: "cs \<noteq> [] \<Longrightarrow> join_path (cs @ [n]) = join_path cs @ slash # n"
proof (induction cs rule: join_path.induct)
  case (3 c d cs)
  then show ?case by (cases cs) auto
qed auto

lemma scan_slash_none: "slash \<notin> set xs \<Longrightarrow> scan_slash i xs l = l"
  by (induction xs arbitrary: i) auto

lemma scan_slash_last: "slash \<notin> set ys \<Longrightarrow> scan_slash i (xs @ slash # ys) l = i + int (length xs)"
  by (induction xs arbitrary: i l) (auto simp: scan_slash_none)

lemma back_slash_none: "n \<le> length q \<Longrightarrow> slash \<notin> set (take n q) \<Longrightarrow> back_slash q n = -1"
  by (induction n) (auto simp: take_Suc_conv_app_nth)

lemma back_slash_last:
  assumes "slash \<notin> set ys"
  shows "back_slash (xs @ slash # ys) (length (xs @ slash # ys)) = int (length xs)"
proof -
  have "back_slash (xs @ slash # ys) (Suc (length xs) + k) = int (length xs)" if "k \<le> length ys" for k
    using that
  proof (induction k)
    case (Suc k)
    then have "ys ! k \<noteq> slash" using assms nth_mem [of k ys] Suc.prems by (metis Suc_le_lessD)
    then show ?case using Suc by (simp add: nth_append)
  qed simp
  from this [of "length ys"] show ?thesis by simp
qed

lemma strcpy_ok [simp]: "length s < n \<Longrightarrow> strcpy_to n s = Inr s"
  by (simp add: strcpy_to_def)

lemma join_path_hd: "\<forall>c\<in>set cs. c \<noteq> [] \<and> slash \<notin> set c \<Longrightarrow> cs \<noteq> [] \<Longrightarrow> join_path cs \<noteq> [] \<and> hd (join_path cs) \<noteq> slash"
proof (induction cs rule: join_path.induct)
  case (2 c)
  then show ?case by (cases c) auto
next
  case (3 c d cs)
  then show ?case by (cases c) auto
qed simp

lemma split_plain:
  assumes "p \<noteq> []" "hd p \<noteq> slash" "n \<noteq> []" "slash \<notin> set n" "length n < FileNameMaxLen" "length p + length n + 1 < PathLenMax"
  shows "SplitPathAndName (p @ slash # n) = Inr (n, p)"
  using assms scan_slash_last [OF assms(4), of 0 p "-1"] by (simp add: SplitPathAndName_def Let_def)

lemma split_trailing:
  assumes "p \<noteq> []" "hd p \<noteq> slash" "slash \<notin> set n" "length n < FileNameMaxLen" "length p + length n + 2 < PathLenMax"
  shows "SplitPathAndName (p @ slash # n @ [slash]) = Inr (n, p)"
proof -
  define q where "q = p @ slash # n"
  have x: "p @ slash # n @ [slash] = q @ [slash]" by (simp add: q_def)
  have s: "scan_slash 0 (q @ [slash]) (-1) = int (length q)" using scan_slash_last [of "[]" 0 q "-1"] by simp
  have b: "back_slash q (length q) = int (length p)" unfolding q_def by (rule back_slash_last [OF assms(3)])
  have q: "q \<noteq> []" "hd q \<noteq> slash" "length q < 127" "drop (Suc (length p)) q = n" "take (length p) q = p"
    using assms(1,2,5) by (simp_all add: q_def)
  show ?thesis unfolding x using q assms(4) by (simp add: SplitPathAndName_def Let_def s b)
qed

section \<open>Properties\<close>

text \<open>
  A relative path made of components that fit their buffers is split into its last component and the
  path of the others, with or without a slash at its end; splitting is the inverse of joining.
\<close>

theorem split_joined_path:
  assumes "\<forall>c\<in>set ds. c \<noteq> [] \<and> slash \<notin> set c" "n \<noteq> []" "slash \<notin> set n" "length n < FileNameMaxLen"
    and "length (join_path (ds @ [n])) + 1 < PathLenMax"
  shows "SplitPathAndName (join_path (ds @ [n])) = Inr (n, join_path ds)
     \<and> SplitPathAndName (join_path (ds @ [n]) @ [slash]) = Inr (n, join_path ds)"
proof (cases "ds = []")
  case True
  have "hd n \<noteq> slash" using assms(2,3) by (cases n) auto
  moreover have "scan_slash 0 (n @ [slash]) (-1) = int (length n)" using scan_slash_last [of "[]" 0 n "-1"] by simp
  ultimately show ?thesis using True assms
    by (simp add: SplitPathAndName_def Let_def scan_slash_none back_slash_none)
next
  case False
  let ?p = "join_path ds"
  have j: "join_path (ds @ [n]) = ?p @ slash # n" using False by (rule join_path_snoc)
  have h: "?p \<noteq> []" "hd ?p \<noteq> slash" using join_path_hd [OF assms(1) False] by auto
  have l: "length ?p + length n + 2 < 128" using assms(5) j by simp
  show ?thesis unfolding j using split_plain [OF h assms(2-4)] split_trailing [OF h assms(3,4)] l by simp
qed

theorem split_joined_path_witness:
  "SplitPathAndName (join_path ([[97], [98, 99]] @ [[100]])) = Inr ([100], join_path [[97], [98, 99]])"
  using split_joined_path [of "[[97], [98, 99]]" "[100]"] by simp

lemma missing_dir:
  assumes "fs_ok fs" "junk_ok j" "dir_map (cur_dir fs) (name_key d) = None" "d \<noteq> []" "slash \<notin> set d" "0 \<notin> set d" "length d < FileNameMaxLen"
  shows "ChangeCurrentDir j d fs = Inl AssertFailed"
proof -
  obtain sd1 where 1: "Directory_FetchFrom (curDir fs) (Directory_new (jentries j) NumDirEntries) (fdisk fs) = Inr (cur_dir fs, sd1)" "sd_ok sd1"
    using fetch_cur_dir [OF assms(1,2)] by blast
  have s: "SetCurrentDir j d fs = Inl AssertFailed"
    using 1(1) find_cur(1) [OF assms(1,3)] sdisk.bad [OF 1(2), of "-1"]
    by (simp add: SetCurrentDir_def OpenFile_new_def FileHeader_FetchFrom_def)
  have "ChangeCurrentDir_loop j (cs @ [0]) acc fs = ChangeCurrentDir_loop j [0] (acc @ cs) fs"
    if "slash \<notin> set cs" "0 \<notin> set cs" "length acc + length cs < FileNameMaxLen" for cs acc
    using that by (induction cs arbitrary: acc) auto
  from this [of d "[]"] have "ChangeCurrentDir j d fs = ChangeCurrentDir_loop j [0] d fs" using assms(5-7) by (simp add: ChangeCurrentDir_def)
  moreover have "last d \<noteq> 0" using last_in_set [OF assms(4)] assms(6) by metis
  ultimately show ?thesis using assms(4,7) s by simp
qed

text \<open>
  A path through a directory that does not exist stops the machine: \<^verbatim>\<open>SetCurrentDir\<close> reports the missing
  directory and then opens sector -1, which fails the disk's \<^verbatim>\<open>ASSERT\<close>; so do creating, removing and opening a file by
  such a path.
\<close>

theorem missing_directory_aborts:
  assumes "fs_ok fs" "junk_ok j" "dir_map (cur_dir fs) (name_key d) = None" "d \<noteq> []" "slash \<notin> set d" "0 \<notin> set d" "length d < FileNameMaxLen"
    and "n \<noteq> []" "slash \<notin> set n" "length n < FileNameMaxLen"
  shows "CreateFile j (d @ slash # n) sz fs = Inl AssertFailed \<and> RemoveFile j (d @ slash # n) fs = Inl AssertFailed
     \<and> FileSystem_Open j (d @ slash # n) mode fs = Inl AssertFailed"
proof -
  have "hd d \<noteq> slash" using assms(4,5) by (cases d) auto
  then have "SplitPathAndName (d @ slash # n) = Inr (n, d)" using assms(4,7-10) by (intro split_plain) simp_all
  then show ?thesis using missing_dir [OF assms(1-7)] assms(4)
    by (simp add: CreateFile_def RemoveFile_def FileSystem_Open_def in_path_dir_def)
qed

theorem missing_directory_aborts_witness:
  "\<exists>fs. fs_ok fs \<and> CreateFile demo_junk ([97] @ slash # [98]) 10 fs = Inl AssertFailed"
proof -
  obtain fs where f: "fs_ok fs" "dir_map (cur_dir fs) (name_key [97]) = None" using demo_fs by blast
  then show ?thesis using missing_directory_aborts [OF f(1) demo_junk_ok f(2), of "[98]" 10] by auto
qed

end
