(* ===== verification/FsTest.thy ===== *)
theory FsTest
  imports FilePaths
begin

text \<open>
  \<^verbatim>\<open>filesys/fstest.cc\<close>: the commands that copy a UNIX file into the file system and print a file, and the performance test. They are
  clients of the file system as a whole, so that their properties run through paths, directories, the free map, headers, the
  table of open files, reading and writing in small pieces, and the disk.
\<close>

section \<open>Copying and printing\<close>

abbreviation (input) TransferSize :: nat where "TransferSize \<equiv> 10"

text \<open>
  The loop of \<^verbatim>\<open>Copy\<close> over what is left of the UNIX file. \<open>js n\<close> is what the memory that the \<open>n\<close>th call allocates held.
\<close>

function copy_loop :: "(nat \<Rightarrow> junk) \<Rightarrow> int \<Rightarrow> byte list \<Rightarrow> FileSystem \<Rightarrow> FileSystem res" where
  "copy_loop js i bs fs =
     (if bs = [] then Inr fs
      else let buffer = take TransferSize bs in
        bindR (FileSystem_Write (js 0) i buffer (int (length buffer)) fs) (\<lambda>(_, fs1).
        copy_loop (\<lambda>n. js (Suc n)) i (drop TransferSize bs) fs1))"
  by pat_completeness auto
termination by (relation "measure (\<lambda>(_, _, bs, _). length bs)") auto

declare copy_loop.simps [simp del]

text \<open>\<open>from\<close> is the content of the UNIX file, if it can be opened.\<close>

definition Copy :: "(nat \<Rightarrow> junk) \<Rightarrow> byte list option \<Rightarrow> byte list \<Rightarrow> FileSystem \<Rightarrow> FileSystem res" where
  "Copy js from to fs =
     (case from of
        None \<Rightarrow> Inr fs
      | Some bs \<Rightarrow>
          bindR (add_int 0 (int (length bs))) (\<lambda>fileLength.
          bindR (CreateFile (js 0) to fileLength fs) (\<lambda>(ok, fs1).
          if \<not> ok then Inr fs1
          else bindR (FileSystem_Open (js 1) to 0x77 fs1) (\<lambda>(openFile, fs2).
               bindR (ASSERT (openFile \<noteq> -1)) (\<lambda>_.
               bindR (copy_loop (\<lambda>n. js (n + 2)) openFile bs fs2) (\<lambda>fs3.
               bindR (FileSystem_Close openFile fs3) (\<lambda>(_, fs4). Inr fs4)))))))"

text \<open>Each iteration of the loop of \<^verbatim>\<open>Print\<close> spends one unit of fuel. The result is what was printed.\<close>

primrec print_loop :: "nat \<Rightarrow> int \<Rightarrow> FileSystem \<Rightarrow> (byte list \<times> FileSystem) res" where
  "print_loop 0 i fs = Inl OutOfFuel"
| "print_loop (Suc n) i fs =
     bindR (FileSystem_Read i (int TransferSize) fs) (\<lambda>((amountRead, buffer), fs1).
     if amountRead > 0 then bindR (print_loop n i fs1) (\<lambda>(out, fs2). Inr (take (nat amountRead) buffer @ out, fs2))
     else Inr ([], fs1))"

definition Print :: "junk \<Rightarrow> nat \<Rightarrow> byte list \<Rightarrow> FileSystem \<Rightarrow> (byte list \<times> FileSystem) res" where
  "Print j fuel nm fs =
     bindR (FileSystem_Open j nm 0x72 fs) (\<lambda>(openFile, fs1).
     if openFile = -1 then Inr ([], fs1)
     else bindR (print_loop fuel openFile fs1) (\<lambda>(out, fs2).
          bindR (FileSystem_Close openFile fs2) (\<lambda>(_, fs3). Inr (out, fs3))))"

section \<open>The performance test\<close>

abbreviation (input) FileName :: "byte list" where "FileName \<equiv> bytes_of ''TestFile''"
abbreviation (input) Contents :: "byte list" where "Contents \<equiv> bytes_of ''1234567890''"
abbreviation (input) ContentSize :: int where "ContentSize \<equiv> 10"
abbreviation (input) FileChunks :: nat where "FileChunks \<equiv> 5000"

datatype perf_message = CantCreate | CantOpenToWrite | CantWrite | CantOpenToRead | CantRead | CantRemove

text \<open>The loops return what they complain about, if anything.\<close>

primrec write_chunks :: "(nat \<Rightarrow> junk) \<Rightarrow> nat \<Rightarrow> int \<Rightarrow> FileSystem \<Rightarrow> (perf_message list \<times> FileSystem) res" where
  "write_chunks js 0 i fs = Inr ([], fs)"
| "write_chunks js (Suc n) i fs =
     bindR (FileSystem_Write (js n) i Contents ContentSize fs) (\<lambda>(numBytes, fs1).
     if numBytes < 10 then Inr ([CantWrite], fs1) else write_chunks js n i fs1)"

definition FileWrite :: "(nat \<Rightarrow> junk) \<Rightarrow> FileSystem \<Rightarrow> (perf_message list \<times> FileSystem) res" where
  "FileWrite js fs =
     bindR (CreateFile (js 0) FileName 0 fs) (\<lambda>(ok, fs1).
     if \<not> ok then Inr ([CantCreate], fs1)
     else bindR (FileSystem_Open (js 1) FileName 0x77 fs1) (\<lambda>(openFile, fs2).
          if openFile = -1 then Inr ([CantOpenToWrite], fs2)
          else bindR (write_chunks (\<lambda>n. js (n + 2)) FileChunks openFile fs2) (\<lambda>(ms, fs3).
               bindR (FileSystem_Close openFile fs3) (\<lambda>(_, fs4). Inr (ms, fs4)))))"

primrec read_chunks :: "nat \<Rightarrow> int \<Rightarrow> FileSystem \<Rightarrow> (perf_message list \<times> FileSystem) res" where
  "read_chunks 0 i fs = Inr ([], fs)"
| "read_chunks (Suc n) i fs =
     bindR (FileSystem_Read i ContentSize fs) (\<lambda>((numBytes, buffer), fs1).
     if numBytes < 10 \<or> \<not> strneq (nat ContentSize) buffer Contents then Inr ([CantRead], fs1) else read_chunks n i fs1)"

definition FileRead :: "junk \<Rightarrow> FileSystem \<Rightarrow> (perf_message list \<times> FileSystem) res" where
  "FileRead j fs =
     bindR (FileSystem_Open j FileName 0x72 fs) (\<lambda>(openFile, fs1).
     if openFile = -1 then Inr ([CantOpenToRead], fs1)
     else bindR (read_chunks FileChunks openFile fs1) (\<lambda>(ms, fs2).
          bindR (FileSystem_Close openFile fs2) (\<lambda>(_, fs3). Inr (ms, fs3))))"

definition PerformanceTest :: "(nat \<Rightarrow> junk) \<Rightarrow> FileSystem \<Rightarrow> (perf_message list \<times> FileSystem) res" where
  "PerformanceTest js fs =
     bindR (FileWrite js fs) (\<lambda>(ms1, fs1).
     bindR (FileRead (js 5002) fs1) (\<lambda>(ms2, fs2).
     bindR (RemoveFile (js 5003) FileName fs2) (\<lambda>(ok, fs3).
     Inr (ms1 @ ms2 @ (if ok then [] else [CantRemove]), fs3))))"

section \<open>One file of the table\<close>

text \<open>A name without a slash that fits its buffer is looked up in the current directory.\<close>

definition plain_name :: "byte list \<Rightarrow> bool" where
  "plain_name nm \<longleftrightarrow> nm \<noteq> [] \<and> slash \<notin> set nm \<and> length nm < FileNameMaxLen"

lemma in_plain_dir:
  assumes "plain_name nm"
  shows "in_path_dir j nm f fs = bindR (f nm fs) (\<lambda>(r, fs2). Inr (r, fs2\<lparr>curDir := curDir fs\<rparr>))"
proof -
  have "hd nm \<noteq> slash" using assms by (cases nm) (auto simp: plain_name_def)
  then have "SplitPathAndName nm = Inr (nm, [])"
    using assms by (simp add: plain_name_def SplitPathAndName_def Let_def scan_slash_none)
  then show ?thesis by (simp add: in_path_dir_def)
qed

text \<open>The file with index \<open>i\<close> is open with entry \<open>e\<close>.\<close>

definition open_at :: "int \<Rightarrow> OpenFileEntry \<Rightarrow> FileSystem \<Rightarrow> bool" where
  "open_at i e fs \<longleftrightarrow> 0 \<le> i \<and> i < 10 \<and> length (ftable (fileTable fs)) = 10 \<and> ftable (fileTable fs) ! nat i = Some e
     \<and> file_ok (hdr (ofile e)) \<and> sd_ok (fdisk fs) \<and> 0 \<le> seekPosition (ofile e) \<and> seekPosition (ofile e) \<le> numBytes (hdr (ofile e))"

lemma put_file_simps [simp]:
  "put_file i (e\<lparr>ofile := g\<rparr>) f sd (put_file i e f1 sd1 fs) = put_file i e f sd fs"
  "fdisk (put_file i e f sd fs) = sd"
  by (simp_all add: put_file_def)

lemma put_file_same: "open_at i e fs \<Longrightarrow> put_file i e (ofile e) (fdisk fs) fs = fs"
  using list_update_id [of "ftable (fileTable fs)" "nat i"] by (simp add: put_file_def open_at_def)

lemma open_at_put:
  assumes "open_at i e fs" "hdr f = hdr (ofile e)" "sd_ok sd" "0 \<le> seekPosition f" "seekPosition f \<le> numBytes (hdr f)"
  shows "open_at i (e\<lparr>ofile := f\<rparr>) (put_file i e f sd fs)"
  using assms by (simp add: open_at_def put_file_def nth_list_update nat_less_iff)

lemma Get_open: "open_at i e fs \<Longrightarrow> OpenFileTable_Get i (fileTable fs) = Inr (Some e)"
  by (simp add: open_at_def OpenFileTable_Get_def)

lemma overwrite_append:
  assumes "p + length (a @ b) \<le> length fb"
  shows "overwrite (overwrite fb p a) (p + length a) b = overwrite fb p (a @ b)"
  using assms by (intro nth_equalityI) (auto simp: overwrite_nth nth_append)

lemma overwrite_nothing [simp]: "overwrite fb p [] = fb"
  by (simp add: overwrite_def)

lemma overwrite_all: "length bs = length fb \<Longrightarrow> overwrite fb 0 bs = bs"
  by (simp add: overwrite_def)

text \<open>Writing and reading at most ten bytes at the current position of an open file.\<close>

lemma Write_step:
  fixes bs :: "byte list"
  defines "m f \<equiv> min (int (length bs)) (numBytes (hdr f) - seekPosition f)"
  assumes "open_at i e fs" "omode e = 0x77" "length bs \<le> 10" "ofile e = f"
  shows "\<exists>sd. FileSystem_Write j i bs (int (length bs)) fs = Inr (m f, put_file i e (f\<lparr>seekPosition := seekPosition f + m f\<rparr>) sd fs)
     \<and> sd_ok sd \<and> file_bytes (hdr f) sd = overwrite (file_bytes (hdr f) (fdisk fs)) (nat (seekPosition f)) (take (nat (m f)) bs)
     \<and> (\<forall>s. 0 \<le> s \<longrightarrow> s \<notin> set (file_sectors (hdr f)) \<longrightarrow> sector sd s = sector (fdisk fs) s)"
proof -
  have o: "file_ok (hdr f)" "sd_ok (fdisk fs)" "0 \<le> seekPosition f" "seekPosition f \<le> numBytes (hdr f)"
    using assms(2,5) by (simp_all add: open_at_def)
  have m: "max 0 (min (int (length bs)) (numBytes (hdr f) - seekPosition f)) = m f" using o(4) by (simp add: m_def)
  have "int32_ok (seekPosition f + int (length bs))" "nat (m f) \<le> length bs"
    using o(3,4) assms(4) sectors_length(5) [OF o(1)] by (simp_all add: int32_ok_def m_def)
  with WriteAt_ok [OF o(1-3), of "int (length bs)" bs "jbytes j", unfolded m] obtain sd where
    "OpenFile_WriteAt (jbytes j) bs (int (length bs)) (seekPosition f) f (fdisk fs) = Inr (m f, sd)" "sd_ok sd"
    "file_bytes (hdr f) sd = overwrite (file_bytes (hdr f) (fdisk fs)) (nat (seekPosition f)) (take (nat (m f)) bs)"
    "\<forall>s. 0 \<le> s \<longrightarrow> s \<notin> set (file_sectors (hdr f)) \<longrightarrow> sector sd s = sector (fdisk fs) s" by blast
  then show ?thesis using Get_open [OF assms(2)] assms(3,5)
    by (intro exI [of _ sd]) (simp add: FileSystem_Write_def OpenFile_Write_def OpenFileEntry_GetMode_def OpenFileEntry_GetOpenFile_def)
qed

lemma Read_step:
  assumes "open_at i e fs" "omode e = 0x72" "ofile e = f"
  shows "\<exists>sd bs. FileSystem_Read i 10 fs = Inr ((int (length bs), bs), put_file i e (f\<lparr>seekPosition := seekPosition f + int (length bs)\<rparr>) sd fs)
     \<and> bs = take 10 (drop (nat (seekPosition f)) (file_bytes (hdr f) (fdisk fs))) \<and> sd_ok sd \<and> sector sd = sector (fdisk fs)"
proof -
  have o: "file_ok (hdr f)" "sd_ok (fdisk fs)" "0 \<le> seekPosition f" "seekPosition f \<le> numBytes (hdr f)"
    using assms(1,3) by (simp_all add: open_at_def)
  have "int32_ok (seekPosition f + 10)" using o(3,4) sectors_length(5) [OF o(1)] by (simp add: int32_ok_def)
  from ReadAt_ok [OF o(1-3) this] show ?thesis using Get_open [OF assms(1)] assms(2,3)
    by (auto simp: FileSystem_Read_def OpenFile_Read_def OpenFileEntry_GetMode_def OpenFileEntry_GetOpenFile_def)
qed

lemma copy_loop_ok:
  assumes "open_at i e fs" "omode e = 0x77" "ofile e = f" "seekPosition f + int (length bs) \<le> numBytes (hdr f)"
  shows "\<exists>f' sd. copy_loop js i bs fs = Inr (put_file i e f' sd fs) \<and> sd_ok sd
     \<and> file_bytes (hdr f) sd = overwrite (file_bytes (hdr f) (fdisk fs)) (nat (seekPosition f)) bs
     \<and> (\<forall>s. 0 \<le> s \<longrightarrow> s \<notin> set (file_sectors (hdr f)) \<longrightarrow> sector sd s = sector (fdisk fs) s)"
  using assms
proof (induction js i bs fs arbitrary: e f rule: copy_loop.induct)
  case (1 js i bs fs)
  show ?case
  proof (cases "bs = []")
    case True
    have "sd_ok (fdisk fs)" using "1.prems"(1) by (simp add: open_at_def)
    then show ?thesis using True put_file_same [OF "1.prems"(1)]
      by (intro exI [of _ "ofile e"] exI [of _ "fdisk fs"]) (simp add: copy_loop.simps [of js i "[]"])
  next
    case False
    let ?a = "take 10 bs" and ?b = "drop 10 bs" and ?p = "seekPosition f"
    define f1 where "f1 = f\<lparr>seekPosition := ?p + int (length ?a)\<rparr>"
    have o: "file_ok (hdr f)" "0 \<le> ?p" using "1.prems"(1,3) by (simp_all add: open_at_def)
    have m: "min (int (length ?a)) (numBytes (hdr f) - ?p) = int (length ?a)" using "1.prems"(4) by simp
    have a: "length ?a \<le> 10" "take (nat (int (length ?a))) ?a = ?a" by (simp_all only: nat_int take_all) simp
    obtain sd1 where w: "FileSystem_Write (js 0) i ?a (int (length ?a)) fs = Inr (int (length ?a), put_file i e f1 sd1 fs)" "sd_ok sd1"
        "file_bytes (hdr f) sd1 = overwrite (file_bytes (hdr f) (fdisk fs)) (nat ?p) ?a"
        "\<forall>s. 0 \<le> s \<longrightarrow> s \<notin> set (file_sectors (hdr f)) \<longrightarrow> sector sd1 s = sector (fdisk fs) s"
      using Write_step [OF "1.prems"(1,2) a(1) "1.prems"(3), of "js 0"] unfolding m a(2) f1_def by blast
    let ?e1 = "e\<lparr>ofile := f1\<rparr>" and ?fs1 = "put_file i e f1 sd1 fs"
    have h: "hdr f1 = hdr f" "seekPosition f1 = ?p + int (length ?a)" by (simp_all add: f1_def)
    have o1: "open_at i ?e1 ?fs1"
      using o(2) "1.prems"(3,4) h by (intro open_at_put [OF "1.prems"(1) _ w(2)]) simp_all
    have l1: "seekPosition f1 + int (length ?b) \<le> numBytes (hdr f1)" using "1.prems"(4) by (simp add: h)
    obtain f' sd where r: "copy_loop (\<lambda>n. js (Suc n)) i ?b ?fs1 = Inr (put_file i ?e1 f' sd ?fs1)" "sd_ok sd"
        "file_bytes (hdr f) sd = overwrite (file_bytes (hdr f) sd1) (nat (seekPosition f1)) ?b"
        "\<forall>s. 0 \<le> s \<longrightarrow> s \<notin> set (file_sectors (hdr f)) \<longrightarrow> sector sd s = sector sd1 s"
      using "1.IH" [OF False refl w(1) refl o1 _ _ l1] "1.prems"(2) h(1) by auto
    have "nat (seekPosition f1) = nat ?p + length ?a" using o(2) h(2) by simp
    moreover have "nat ?p + length (?a @ ?b) \<le> length (file_bytes (hdr f) (fdisk fs))"
      using sectors_length(4) [OF o(1), of "fdisk fs"] "1.prems"(4) o(2) by simp
    ultimately have "file_bytes (hdr f) sd = overwrite (file_bytes (hdr f) (fdisk fs)) (nat ?p) bs"
      using r(3) w(3) overwrite_append [of "nat ?p" ?a ?b "file_bytes (hdr f) (fdisk fs)"] by simp
    then show ?thesis using r(1,2,4) w(1,4) False
      by (intro exI [of _ f'] exI [of _ sd]) (simp add: copy_loop.simps [of js i bs] Let_def)
  qed
qed

lemma print_loop_ok:
  assumes "open_at i e fs" "omode e = 0x72" "ofile e = f" "numBytes (hdr f) < seekPosition f + int n"
  shows "\<exists>f' sd. print_loop n i fs = Inr (drop (nat (seekPosition f)) (file_bytes (hdr f) (fdisk fs)), put_file i e f' sd fs)
     \<and> sd_ok sd \<and> sector sd = sector (fdisk fs)"
  using assms
proof (induction n arbitrary: e f fs)
  case 0
  then show ?case by (simp add: open_at_def)
next
  case (Suc n)
  let ?fb = "file_bytes (hdr f) (fdisk fs)" and ?p = "seekPosition f"
  have o: "file_ok (hdr f)" "0 \<le> ?p" using Suc.prems(1,3) by (simp_all add: open_at_def)
  have l: "length ?fb = nat (numBytes (hdr f))" by (rule sectors_length(4) [OF o(1)])
  define bs where "bs = take 10 (drop (nat ?p) ?fb)"
  define f1 where "f1 = f\<lparr>seekPosition := ?p + int (length bs)\<rparr>"
  obtain sd1 where r: "FileSystem_Read i 10 fs = Inr ((int (length bs), bs), put_file i e f1 sd1 fs)" "sd_ok sd1" "sector sd1 = sector (fdisk fs)"
    using Read_step [OF Suc.prems(1-3)] unfolding bs_def f1_def by blast
  show ?case
  proof (cases "bs = []")
    case True
    then show ?thesis using r by (auto simp: bs_def)
  next
    case False
    have h: "hdr f1 = hdr f" "seekPosition f1 = ?p + int (length bs)" by (simp_all add: f1_def)
    have lb: "int (length bs) + ?p \<le> numBytes (hdr f)" using False o(2) l by (auto simp: bs_def)
    have "open_at i (e\<lparr>ofile := f1\<rparr>) (put_file i e f1 sd1 fs)"
      using o(2) lb h Suc.prems(3) by (intro open_at_put [OF Suc.prems(1) _ r(2)]) simp_all
    moreover have "numBytes (hdr f1) < seekPosition f1 + int n" using Suc.prems(4) False by (cases bs) (simp_all add: h)
    ultimately obtain f' sd where q: "print_loop n i (put_file i e f1 sd1 fs) = Inr (drop (nat (seekPosition f1)) (file_bytes (hdr f) sd1), put_file i e f' sd fs)"
        "sd_ok sd" "sector sd = sector sd1"
      using Suc.IH [of "e\<lparr>ofile := f1\<rparr>" "put_file i e f1 sd1 fs" f1] Suc.prems(2) h(1) by auto
    have fb: "file_bytes (hdr f) sd1 = ?fb" using r(3) by (simp add: file_bytes_def raw_bytes_def)
    have "nat (seekPosition f1) = length bs + nat ?p" using o(2) h(2) by simp
    moreover have "drop (length bs) (drop (nat ?p) ?fb) = drop 10 (drop (nat ?p) ?fb)" by (simp add: bs_def min_def)
    ultimately have "bs @ drop (nat (seekPosition f1)) ?fb = drop (nat ?p) ?fb"
      unfolding bs_def by (metis append_take_drop_id drop_drop)
    then show ?thesis using r q False fb by (intro exI [of _ f'] exI [of _ sd]) simp
  qed
qed

section \<open>A name opened and closed\<close>

text \<open>Opening a file that is not open yet, in a table with room.\<close>

lemma Open_named:
  assumes "fs_ok fs" "junk_ok j" "plain_name nm" "dir_map (cur_dir fs) (name_key nm) = Some (sec, b)"
    and "table_wf (fileTable fs)" "nbFiles (fileTable fs) < NbFileTableEntries" "sec \<notin> set (open_sectors (fileTable fs))"
    and "h = dec_header (sector (fdisk fs) sec)" "file_ok h"
  shows "\<exists>i t sd e. FileSystem_Open j nm mode fs = Inr (i, fs\<lparr>fileTable := t, fdisk := sd\<rparr>) \<and> sector sd = sector (fdisk fs)
     \<and> open_at i e (fs\<lparr>fileTable := t, fdisk := sd\<rparr>) \<and> omode e = mode \<and> ofile e = \<lparr>hdr = h, seekPosition = 0\<rparr>
     \<and> ftable t = (ftable (fileTable fs))[nat i := Some e] \<and> ftable (fileTable fs) ! nat i = None \<and> nbFiles t = nbFiles (fileTable fs) + 1"
proof -
  let ?t = "fileTable fs" and ?f = "\<lparr>hdr = h, seekPosition = 0\<rparr>"
  let ?e = "OpenFileEntry_new ?f mode sec"
  obtain sd1 where 1: "Directory_FetchFrom (curDir fs) (Directory_new (jentries j) NumDirEntries) (fdisk fs) = Inr (cur_dir fs, sd1)"
      "sd_ok sd1" "sector sd1 = sector (fdisk fs)" using fetch_cur_dir [OF assms(1,2)] by blast
  have s: "Directory_Find nm (cur_dir fs) = Inr sec" "0 \<le> sec" "sec < NumSectors" using find_cur(2) [OF assms(1,4)] by simp_all
  obtain sd2 where 2: "OpenFile_new sec sd1 = Inr (?f, sd2)" "sd_ok sd2" "sector sd2 = sector (fdisk fs)"
    using OpenFile_new_ok [OF 1(2) s(2,3)] 1(3) assms(8) by auto
  have f: "OpenFileTable_Find sec ?t = Inr (-1)" using Find_open [OF assms(5), of sec] assms(7) by auto
  have se: "osector ?e = sec" "omode ?e = mode" "ofile ?e = ?f" by (simp_all add: OpenFileEntry_new_def)
  obtain i t where a: "OpenFileTable_Add ?e ?t = Inr (i, t)" "0 \<le> i" "i < 10" "ftable ?t ! nat i = None" "ftable t = (ftable ?t)[nat i := Some ?e]"
    using Add_open [OF assms(5), of ?e] assms(6,7) se(1) by auto
  have n: "nbFiles t = nbFiles ?t + 1" "length (ftable ?t) = 10"
    using a(1) assms(5,6) by (auto simp: OpenFileTable_Add_def bind_iffs table_wf_def split: if_splits)
  have "OpenFileTable_Open (jentries j) (curDir fs) nm mode ?t (fdisk fs) = Inr (i, t, sd2)"
    using 1(1) s(1,2) 2(1) f a(1) by (simp add: OpenFileTable_Open_def Let_def)
  then have o: "FileSystem_Open j nm mode fs = Inr (i, fs\<lparr>fileTable := t, fdisk := sd2\<rparr>)"
    by (simp add: FileSystem_Open_def in_plain_dir [OF assms(3)] OpenInCurrentDirectory_def)
  have "0 \<le> numBytes h" using assms(9) by (simp add: file_ok_def)
  then have "open_at i ?e (fs\<lparr>fileTable := t, fdisk := sd2\<rparr>)"
    using a(2,3,5) n(2) 2(2) assms(9) se(3) by (simp add: open_at_def nth_list_update nat_less_iff)
  then show ?thesis using o 2(3) se(2,3) a(4,5) n(1) by blast
qed

text \<open>Closing it again gives the old table back, whatever was read or written in between.\<close>

lemma Close_named:
  assumes "open_at i e (fs\<lparr>fileTable := t, fdisk := sd\<rparr>)" "ftable t = (ftable (fileTable fs))[nat i := Some e]"
    and "ftable (fileTable fs) ! nat i = None" "nbFiles t = nbFiles (fileTable fs) + 1"
  shows "FileSystem_Close i (put_file i e f sd' (fs\<lparr>fileTable := t, fdisk := sd\<rparr>)) = Inr (0, fs\<lparr>fdisk := sd'\<rparr>)"
proof -
  let ?t1 = "t\<lparr>ftable := (ftable t)[nat i := Some (e\<lparr>ofile := f\<rparr>)]\<rparr>"
  have i: "0 \<le> i" "nat i < length (ftable t)" "length (ftable t) = 10" using assms(1) by (simp_all add: open_at_def nat_less_iff)
  have "t\<lparr>ftable := (ftable (fileTable fs))[nat i := None], nbFiles := nbFiles t - 1\<rparr> = fileTable fs"
    using list_update_id [of "ftable (fileTable fs)" "nat i"] assms(3,4) by simp
  then have "OpenFileTable_Close i ?t1 = Inr (0, fileTable fs)"
    using i assms(2) by (simp add: OpenFileTable_Close_def OpenFileTable_Remove_def)
  then show ?thesis by (simp add: FileSystem_Close_def put_file_def)
qed

text \<open>A write to other sectors keeps the invariant, the directory and the free map.\<close>

lemma fs_ok_other:
  assumes "fs_ok fs" "sd_ok sd" "\<forall>s. 0 \<le> s \<longrightarrow> s \<in> system_sectors fs \<longrightarrow> sector sd s = sector (fdisk fs) s"
  shows "fs_ok (fs\<lparr>fdisk := sd\<rparr>)" "cur_dir (fs\<lparr>fdisk := sd\<rparr>) = cur_dir fs" "free_map (fs\<lparr>fdisk := sd\<rparr>) = free_map fs"
proof -
  have r: "\<forall>s\<in>system_sectors fs. 0 \<le> s" using assms(1) by (auto simp: fs_ok_def system_files_def system_sectors_def file_ok_def)
  have "file_bytes (hdr (curDir fs)) sd = file_bytes (hdr (curDir fs)) (fdisk fs)"
    "file_bytes (hdr (freeMapFile fs)) sd = file_bytes (hdr (freeMapFile fs)) (fdisk fs)"
    unfolding file_bytes_def raw_bytes_def using assms(3) r
    by (auto intro!: arg_cong [where f = "\<lambda>x. take _ (concat x)"] simp: system_sectors_def)
  then show c: "cur_dir (fs\<lparr>fdisk := sd\<rparr>) = cur_dir fs" and m: "free_map (fs\<lparr>fdisk := sd\<rparr>) = free_map fs"
    by (simp_all add: cur_dir_def free_map_def stored_dir_def stored_map_def stored_def)
  show "fs_ok (fs\<lparr>fdisk := sd\<rparr>)" using assms(1,2) c m by (simp add: fs_ok_def system_sectors_def)
qed

text \<open>The table of open files has room, and the files in it have their headers in sectors that are in use.\<close>

definition table_ready :: "FileSystem \<Rightarrow> bool" where
  "table_ready fs \<longleftrightarrow> table_wf (fileTable fs) \<and> nbFiles (fileTable fs) < NbFileTableEntries
     \<and> set (open_sectors (fileTable fs)) \<subseteq> used_bits (free_map fs)"

lemma Print_ok:
  assumes "fs_ok fs" "junk_ok j" "plain_name nm" "dir_map (cur_dir fs) (name_key nm) = Some (sec, b)"
    and "table_wf (fileTable fs)" "nbFiles (fileTable fs) < NbFileTableEntries" "sec \<notin> set (open_sectors (fileTable fs))"
    and "h = dec_header (sector (fdisk fs) sec)" "file_ok h" "numBytes h < int fuel"
  shows "\<exists>sd. Print j fuel nm fs = Inr (file_bytes h (fdisk fs), fs\<lparr>fdisk := sd\<rparr>) \<and> sd_ok sd \<and> sector sd = sector (fdisk fs)"
proof -
  obtain i t sd1 e where o: "FileSystem_Open j nm 0x72 fs = Inr (i, fs\<lparr>fileTable := t, fdisk := sd1\<rparr>)" "sector sd1 = sector (fdisk fs)"
    "open_at i e (fs\<lparr>fileTable := t, fdisk := sd1\<rparr>)" "omode e = 0x72" "ofile e = \<lparr>hdr = h, seekPosition = 0\<rparr>"
    "ftable t = (ftable (fileTable fs))[nat i := Some e]" "ftable (fileTable fs) ! nat i = None" "nbFiles t = nbFiles (fileTable fs) + 1"
    using Open_named [OF assms(1-9), of "0x72"] by (elim exE conjE) (rule that)
  obtain f sd where r: "print_loop fuel i (fs\<lparr>fileTable := t, fdisk := sd1\<rparr>) = Inr (file_bytes h sd1, put_file i e f sd (fs\<lparr>fileTable := t, fdisk := sd1\<rparr>))"
      "sd_ok sd" "sector sd = sector sd1"
    using print_loop_ok [OF o(3-5), of fuel] assms(10) by auto
  have "file_bytes h sd1 = file_bytes h (fdisk fs)" using o(2) by (simp add: file_bytes_def raw_bytes_def)
  moreover have "i \<noteq> -1" using o(3) by (auto simp: open_at_def)
  ultimately show ?thesis using o(1,2) r Close_named [OF o(3,6-8), of f sd] by (intro exI [of _ sd]) (simp add: Print_def)
qed

lemma Copy_ok:
  assumes "fs_ok fs" "\<forall>n. junk_ok (js n)" "plain_name nm" "int32_ok (int (length bs))" "table_ready fs"
    and "dir_map (cur_dir fs) (name_key nm) = None" "dir_room (cur_dir fs)"
    and "sectors_for (int (length bs)) < card (free_bits (free_map fs))" "sectors_for (int (length bs)) \<le> NumDirect"
  shows "\<exists>sd sec h. Copy js (Some bs) nm fs = Inr (fs\<lparr>fdisk := sd\<rparr>) \<and> fs_ok (fs\<lparr>fdisk := sd\<rparr>)
     \<and> dir_map (cur_dir (fs\<lparr>fdisk := sd\<rparr>)) = (dir_map (cur_dir fs))(name_key nm \<mapsto> (sec, False))
     \<and> h = dec_header (sector sd sec) \<and> file_ok h \<and> file_bytes h sd = bs \<and> insert sec (set (file_sectors h)) \<subseteq> free_bits (free_map fs)
     \<and> (\<forall>s\<in>used_bits (free_map fs) - system_sectors fs. sector sd s = sector (fdisk fs) s)"
proof -
  note disj = bitmap_alloc.disjoint [of "free_map fs"]
  obtain fs1 sec h where c: "CreateFileInCurrentDirectory (js 0) (int (length bs)) nm fs = Inr (True, fs1)" "fs_ok fs1" "fs1 = fs\<lparr>fdisk := fdisk fs1\<rparr>"
      "dir_map (cur_dir fs1) = (dir_map (cur_dir fs))(name_key nm \<mapsto> (sec, False))" "sec \<in> free_bits (free_map fs)"
      "numBytes h = int (length bs)" "set (file_sectors h) \<subseteq> free_bits (free_map fs) - {sec}"
      "\<forall>i. 0 \<le> i \<longrightarrow> i \<noteq> sec \<longrightarrow> i \<notin> system_sectors fs \<longrightarrow> sector (fdisk fs1) i = sector (fdisk fs) i" "removable fs1 nm sec h"
    using create_removable [OF assms(1) assms(2) [rule_format, of 0] of_nat_0_le_iff assms(4,6-9)] by (elim exE conjE) (rule that)
  have h: "h = dec_header (sector (fdisk fs1) sec)" "file_ok h" using c(9) unfolding removable_def by blast+
  have t1: "fileTable fs1 = fileTable fs" "system_sectors fs1 = system_sectors fs" "curDir fs1 = curDir fs"
    using arg_cong [OF c(3), of fileTable] arg_cong [OF c(3), of system_sectors] arg_cong [OF c(3), of curDir] by (simp_all add: system_sectors_def)
  have tw: "table_wf (fileTable fs1)" "nbFiles (fileTable fs1) < 10" "sec \<notin> set (open_sectors (fileTable fs1))"
    using assms(5) c(5) disj t1(1) by (auto simp: table_ready_def)
  have d1: "dir_map (cur_dir fs1) (name_key nm) = Some (sec, False)" using c(4) by simp
  obtain i t sd1 e where o: "FileSystem_Open (js 1) nm 0x77 fs1 = Inr (i, fs1\<lparr>fileTable := t, fdisk := sd1\<rparr>)" "sector sd1 = sector (fdisk fs1)"
    "open_at i e (fs1\<lparr>fileTable := t, fdisk := sd1\<rparr>)" "omode e = 0x77" "ofile e = \<lparr>hdr = h, seekPosition = 0\<rparr>"
    "ftable t = (ftable (fileTable fs1))[nat i := Some e]" "ftable (fileTable fs1) ! nat i = None" "nbFiles t = nbFiles (fileTable fs1) + 1"
    using Open_named [OF c(2) assms(2) [rule_format, of 1] assms(3) d1 tw h, of "0x77"] by (elim exE conjE) (rule that)
  let ?fs2 = "fs1\<lparr>fileTable := t, fdisk := sd1\<rparr>"
  have "file_bytes h sd1 = file_bytes h (fdisk fs1)" using o(2) by (simp add: file_bytes_def raw_bytes_def)
  moreover have "length (file_bytes h (fdisk fs1)) = length bs" using sectors_length(4) [OF h(2)] c(6) by simp
  ultimately obtain f sd where r: "copy_loop (\<lambda>n. js (n + 2)) i bs ?fs2 = Inr (put_file i e f sd ?fs2)" "sd_ok sd" "file_bytes h sd = bs"
      "\<forall>s. 0 \<le> s \<longrightarrow> s \<notin> set (file_sectors h) \<longrightarrow> sector sd s = sector (fdisk fs1) s"
    using copy_loop_ok [OF o(3-5), of bs "\<lambda>n. js (n + 2)"] c(6) o(2) overwrite_all [of bs "file_bytes h (fdisk fs1)"] by auto
  have "i \<noteq> -1" using o(3) by (auto simp: open_at_def)
  moreover have "fs1\<lparr>curDir := curDir fs\<rparr> = fs1" unfolding t1(3) [symmetric] by simp
  ultimately have "Copy js (Some bs) nm fs = Inr (fs1\<lparr>fdisk := sd\<rparr>)"
    using c(1) o(1) r(1) Close_named [OF o(3,6-8), of f sd] assms(4)
    by (simp add: Copy_def CreateFile_def in_plain_dir [OF assms(3)] add_int_def)
  moreover have e: "fs1\<lparr>fdisk := sd\<rparr> = fs\<lparr>fdisk := sd\<rparr>" by (subst c(3)) simp
  have sys: "system_sectors fs \<subseteq> used_bits (free_map fs)" using assms(1) by (simp add: fs_ok_def)
  then have "\<forall>s. 0 \<le> s \<longrightarrow> s \<in> system_sectors fs1 \<longrightarrow> sector sd s = sector (fdisk fs1) s"
    using r(4) c(7) disj t1(2) by blast
  note k = fs_ok_other [OF c(2) r(2) this]
  moreover have "sector sd sec = sector (fdisk fs1) sec" using r(4) c(5,7) free_range [OF free_map_shape c(5)] by blast
  moreover have "\<forall>s\<in>used_bits (free_map fs) - system_sectors fs. sector sd s = sector (fdisk fs) s"
    using r(4) c(5,7,8) disj used_range [OF free_map_shape] by (metis DiffD1 DiffD2 IntI empty_iff subset_iff)
  ultimately show ?thesis unfolding e using c(4,5,7) h r(3) by (intro exI [of _ sd] exI [of _ sec] exI [of _ h]) auto
qed

section \<open>The performance test on this file system\<close>

lemma write_nothing:
  assumes "open_at i e fs" "omode e = 0x77" "numBytes (hdr (ofile e)) = 0" "0 < n"
  shows "write_chunks js n i fs = Inr ([CantWrite], fs)"
proof -
  have p: "seekPosition (ofile e) = 0" using assms(1,3) by (simp add: open_at_def)
  then have "(ofile e)\<lparr>seekPosition := 0\<rparr> = ofile e" by (cases "ofile e") simp
  then have "put_file i e ((ofile e)\<lparr>seekPosition := 0\<rparr>) (fdisk fs) fs = fs" using put_file_same [OF assms(1)] by metis
  then have "FileSystem_Write j i bs 10 fs = Inr (0, fs)" for j bs
    using Get_open [OF assms(1)] p assms(2,3)
    by (simp add: FileSystem_Write_def OpenFile_Write_def OpenFile_WriteAt_def FileHeader_FileLength_def
        OpenFileEntry_GetMode_def OpenFileEntry_GetOpenFile_def)
  then show ?thesis using assms(4) by (cases n) simp_all
qed

lemma read_nothing:
  assumes "open_at i e fs" "omode e = 0x72" "numBytes (hdr (ofile e)) = 0" "0 < n"
  shows "\<exists>f sd. read_chunks n i fs = Inr ([CantRead], put_file i e f sd fs) \<and> sd_ok sd \<and> sector sd = sector (fdisk fs)"
proof -
  have "file_bytes (hdr (ofile e)) (fdisk fs) = []" using assms(3) by (simp add: file_bytes_def)
  then obtain f sd where "FileSystem_Read i 10 fs = Inr ((0, []), put_file i e f sd fs)" "sd_ok sd" "sector sd = sector (fdisk fs)"
    using Read_step [OF assms(1,2) refl] by auto
  then show ?thesis using assms(4) by (cases n) auto
qed

lemma removable_same:
  assumes "sector sd = sector (fdisk fs)"
  shows "removable (fs\<lparr>fdisk := sd\<rparr>) nm sec h = removable fs nm sec h"
  using assms by (simp add: removable_def cur_dir_def free_map_def system_sectors_def same_sectors [OF assms])

lemma test_file_name: "plain_name FileName"
  by (simp add: plain_name_def bytes_of_def)

lemma FileRead_empty:
  assumes "fs_ok fs" "junk_ok j" "dir_map (cur_dir fs) (name_key FileName) = Some (sec, b)"
    and "table_wf (fileTable fs)" "nbFiles (fileTable fs) < NbFileTableEntries" "sec \<notin> set (open_sectors (fileTable fs))"
    and "h = dec_header (sector (fdisk fs) sec)" "file_ok h" "numBytes h = 0"
  shows "\<exists>sd. FileRead j fs = Inr ([CantRead], fs\<lparr>fdisk := sd\<rparr>) \<and> sd_ok sd \<and> sector sd = sector (fdisk fs)"
proof -
  obtain i t sd1 e where o: "FileSystem_Open j FileName 0x72 fs = Inr (i, fs\<lparr>fileTable := t, fdisk := sd1\<rparr>)" "sector sd1 = sector (fdisk fs)"
    "open_at i e (fs\<lparr>fileTable := t, fdisk := sd1\<rparr>)" "omode e = 0x72" "ofile e = \<lparr>hdr = h, seekPosition = 0\<rparr>"
    "ftable t = (ftable (fileTable fs))[nat i := Some e]" "ftable (fileTable fs) ! nat i = None" "nbFiles t = nbFiles (fileTable fs) + 1"
    using Open_named [OF assms(1,2) test_file_name assms(3-8), of "0x72"] by (elim exE conjE) (rule that)
  obtain f sd where r: "read_chunks FileChunks i (fs\<lparr>fileTable := t, fdisk := sd1\<rparr>) = Inr ([CantRead], put_file i e f sd (fs\<lparr>fileTable := t, fdisk := sd1\<rparr>))"
      "sd_ok sd" "sector sd = sector sd1"
    using read_nothing [OF o(3,4), of FileChunks] o(5) assms(9) by auto
  have "i \<noteq> -1" using o(3) by (auto simp: open_at_def)
  then show ?thesis using o(1,2) r Close_named [OF o(3,6-8), of f sd] by (intro exI [of _ sd]) (simp add: FileRead_def)
qed

lemma FileWrite_empty:
  assumes "fs_ok fs" "\<forall>n. junk_ok (js n)" "table_ready fs" "dir_map (cur_dir fs) (name_key FileName) = None" "dir_room (cur_dir fs)"
    and "free_bits (free_map fs) \<noteq> {}"
  shows "\<exists>fs1 sec h. FileWrite js fs = Inr ([CantWrite], fs1) \<and> fs_ok fs1 \<and> fs1 = fs\<lparr>fdisk := fdisk fs1\<rparr>
     \<and> dir_map (cur_dir fs1) = (dir_map (cur_dir fs))(name_key FileName \<mapsto> (sec, False))
     \<and> sec \<in> free_bits (free_map fs) \<and> numBytes h = 0 \<and> set (file_sectors h) \<subseteq> free_bits (free_map fs) - {sec}
     \<and> used_bits (free_map fs1) = insert sec (used_bits (free_map fs) \<union> set (file_sectors h)) \<and> removable fs1 FileName sec h"
proof -
  have z: "sectors_for 0 = 0" "int32_ok 0" by (simp_all add: sectors_for_def divRoundUp_pos int32_ok_def)
  have "0 < card (free_bits (free_map fs))" using assms(6) by (simp add: card_gt_0_iff free_bits_def)
  then obtain fs1 sec h where c: "CreateFileInCurrentDirectory (js 0) 0 FileName fs = Inr (True, fs1)" "fs_ok fs1" "fs1 = fs\<lparr>fdisk := fdisk fs1\<rparr>"
      "dir_map (cur_dir fs1) = (dir_map (cur_dir fs))(name_key FileName \<mapsto> (sec, False))" "sec \<in> free_bits (free_map fs)" "numBytes h = 0"
      "set (file_sectors h) \<subseteq> free_bits (free_map fs) - {sec}" "used_bits (free_map fs1) = insert sec (used_bits (free_map fs) \<union> set (file_sectors h))"
      "removable fs1 FileName sec h"
    using create_removable [OF assms(1) assms(2) [rule_format, of 0] order_refl z(2) assms(4,5)] unfolding z(1)
    by (elim meta_impE exE conjE) (assumption, simp, rule that)
  have t1: "fileTable fs1 = fileTable fs" "curDir fs1 = curDir fs"
    using arg_cong [OF c(3), of fileTable] arg_cong [OF c(3), of curDir] by simp_all
  have h: "h = dec_header (sector (fdisk fs1) sec)" "file_ok h" using c(9) unfolding removable_def by blast+
  have tw: "table_wf (fileTable fs1)" "nbFiles (fileTable fs1) < 10" "sec \<notin> set (open_sectors (fileTable fs1))"
    using assms(3) c(5) bitmap_alloc.disjoint [of "free_map fs"] t1(1) by (auto simp: table_ready_def)
  have d1: "dir_map (cur_dir fs1) (name_key FileName) = Some (sec, False)" using c(4) by simp
  obtain i t sd1 e where o: "FileSystem_Open (js 1) FileName 0x77 fs1 = Inr (i, fs1\<lparr>fileTable := t, fdisk := sd1\<rparr>)" "sector sd1 = sector (fdisk fs1)"
    "open_at i e (fs1\<lparr>fileTable := t, fdisk := sd1\<rparr>)" "omode e = 0x77" "ofile e = \<lparr>hdr = h, seekPosition = 0\<rparr>"
    "ftable t = (ftable (fileTable fs1))[nat i := Some e]" "ftable (fileTable fs1) ! nat i = None" "nbFiles t = nbFiles (fileTable fs1) + 1"
    using Open_named [OF c(2) assms(2) [rule_format, of 1] test_file_name d1 tw h, of "0x77"] by (elim exE conjE) (rule that)
  have w: "write_chunks (\<lambda>n. js (n + 2)) FileChunks i (fs1\<lparr>fileTable := t, fdisk := sd1\<rparr>) = Inr ([CantWrite], fs1\<lparr>fileTable := t, fdisk := sd1\<rparr>)"
    using write_nothing [OF o(3,4), of FileChunks] o(5) c(6) by simp
  have cl: "FileSystem_Close i (fs1\<lparr>fileTable := t, fdisk := sd1\<rparr>) = Inr (0, fs1\<lparr>fdisk := sd1\<rparr>)"
    using Close_named [OF o(3,6-8), of "ofile e" sd1] put_file_same [OF o(3)] by simp
  have "i \<noteq> -1" using o(3) by (auto simp: open_at_def)
  moreover have "fs1\<lparr>curDir := curDir fs\<rparr> = fs1" unfolding t1(2) [symmetric] by simp
  ultimately have "FileWrite js fs = Inr ([CantWrite], fs1\<lparr>fdisk := sd1\<rparr>)"
    using c(1) o(1) w cl by (simp add: FileWrite_def CreateFile_def in_plain_dir [OF test_file_name])
  moreover have "fs_ok (fs1\<lparr>fdisk := sd1\<rparr>)" using o(3) by (intro fs_ok_same [OF c(2) _ o(2)]) (simp add: open_at_def)
  moreover have "fs1\<lparr>fdisk := sd1\<rparr> = fs\<lparr>fdisk := sd1\<rparr>" by (subst c(3)) simp
  moreover have "cur_dir (fs1\<lparr>fdisk := sd1\<rparr>) = cur_dir fs1" "free_map (fs1\<lparr>fdisk := sd1\<rparr>) = free_map fs1"
    using same_sectors [OF o(2)] by (simp_all add: cur_dir_def free_map_def)
  ultimately show ?thesis using c(4-9) removable_same [OF o(2), of FileName sec h]
    by (intro exI [of _ "fs1\<lparr>fdisk := sd1\<rparr>"] exI [of _ sec] exI [of _ h]) simp
qed

section \<open>Properties\<close>

text \<open>
  C33 (roundtrip): copying a UNIX file into the file system and printing it, end to end. If the name is taken, the directory is
  full or there are too few free sectors, \<^verbatim>\<open>Copy\<close> leaves every sector as it was. Otherwise, when the content fits
  \<^verbatim>\<open>NumDirect\<close> sectors, it succeeds, the invariant of the file system holds again, no entry of the table of open files is
  left behind, no sector of another file changes, and \<^verbatim>\<open>Print\<close> prints exactly the content of the UNIX file, with fuel above
  its length. A larger file overruns the header.
\<close>

theorem copy_then_print:
  assumes "fs_ok fs" "\<forall>n. junk_ok (js n)" "junk_ok j" "plain_name nm" "int32_ok (int (length bs))" "table_ready fs" "length bs < fuel"
  shows "if dir_map (cur_dir fs) (name_key nm) \<noteq> None \<or> \<not> dir_room (cur_dir fs) \<or> card (free_bits (free_map fs)) \<le> sectors_for (int (length bs))
     then \<exists>fs'. Copy js (Some bs) nm fs = Inr fs' \<and> sector (fdisk fs') = sector (fdisk fs)
     else if sectors_for (int (length bs)) \<le> NumDirect
     then \<exists>fs1 fs2. Copy js (Some bs) nm fs = Inr fs1 \<and> fs_ok fs1 \<and> fileTable fs1 = fileTable fs
        \<and> (\<forall>s\<in>used_bits (free_map fs) - system_sectors fs. sector (fdisk fs1) s = sector (fdisk fs) s)
        \<and> Print j fuel nm fs1 = Inr (bs, fs2) \<and> sector (fdisk fs2) = sector (fdisk fs1) \<and> fileTable fs2 = fileTable fs
     else Copy js (Some bs) nm fs = Inl OutOfBounds"
proof -
  let ?n = "int (length bs)"
  let ?bad = "dir_map (cur_dir fs) (name_key nm) \<noteq> None \<or> \<not> dir_room (cur_dir fs) \<or> card (free_bits (free_map fs)) \<le> sectors_for ?n"
  have j0: "junk_ok (js 0)" using assms(2) by simp
  have cr: "CreateFile (js 0) nm ?n fs = bindR (CreateFileInCurrentDirectory (js 0) ?n nm fs) (\<lambda>(r, fs2). Inr (r, fs2\<lparr>curDir := curDir fs\<rparr>))"
    by (simp add: CreateFile_def in_plain_dir [OF assms(4)])
  show ?thesis
  proof (cases ?bad)
    case True
    obtain fs' where "CreateFileInCurrentDirectory (js 0) ?n nm fs = Inr (False, fs')" "sector (fdisk fs') = sector (fdisk fs)"
      using create_failure [OF assms(1) j0 of_nat_0_le_iff True] by blast
    then show ?thesis unfolding if_P [OF True] using assms(5) by (simp add: Copy_def add_int_def cr)
  next
    case False
    then have g: "dir_map (cur_dir fs) (name_key nm) = None" "dir_room (cur_dir fs)" "sectors_for ?n < card (free_bits (free_map fs))"
      by (metis linorder_not_le)+
    show ?thesis
    proof (cases "sectors_for ?n \<le> NumDirect")
      case True
      obtain sd sec h where c: "Copy js (Some bs) nm fs = Inr (fs\<lparr>fdisk := sd\<rparr>)" "fs_ok (fs\<lparr>fdisk := sd\<rparr>)"
          "dir_map (cur_dir (fs\<lparr>fdisk := sd\<rparr>)) = (dir_map (cur_dir fs))(name_key nm \<mapsto> (sec, False))" "h = dec_header (sector sd sec)" "file_ok h"
          "file_bytes h sd = bs" "insert sec (set (file_sectors h)) \<subseteq> free_bits (free_map fs)"
          "\<forall>s\<in>used_bits (free_map fs) - system_sectors fs. sector sd s = sector (fdisk fs) s"
        using Copy_ok [OF assms(1,2,4-6) g True] by (elim exE conjE) (rule that)
      have "sec \<notin> set (open_sectors (fileTable fs))" using c(7) assms(6) bitmap_alloc.disjoint [of "free_map fs"] by (auto simp: table_ready_def)
      moreover have "numBytes h < int fuel" using sectors_length(4) [OF c(5), of sd] c(5,6) assms(7) by (simp add: file_ok_def)
      ultimately obtain sd2 where "Print j fuel nm (fs\<lparr>fdisk := sd\<rparr>) = Inr (bs, fs\<lparr>fdisk := sd2\<rparr>)" "sector sd2 = sector sd"
        using Print_ok [OF c(2) assms(3,4), of sec False h fuel] c(3-6) assms(6) by (auto simp: table_ready_def)
      then show ?thesis unfolding if_not_P [OF False] if_P [OF True] using c(1,2,8)
        by (intro exI [of _ "fs\<lparr>fdisk := sd\<rparr>"] exI [of _ "fs\<lparr>fdisk := sd2\<rparr>"]) simp
    next
      case big: False
      then show ?thesis unfolding if_not_P [OF False] if_not_P [OF big]
        using create_too_large [OF assms(1) j0 of_nat_0_le_iff g] assms(5) by (simp add: Copy_def add_int_def cr)
    qed
  qed
qed

text \<open>A formatted file system with an empty table of open files, into which a file of three bytes is copied.\<close>

lemma demo_ready:
  "\<exists>fs. fs_ok fs \<and> table_ready fs \<and> dir_map (cur_dir fs) = [dot \<mapsto> (1, True), dotdot \<mapsto> (1, True)] \<and> dir_room (cur_dir fs)
     \<and> card (free_bits (free_map fs)) = 1019"
proof -
  obtain fs where f: "fs_ok fs" "dir_map (cur_dir fs) = [dot \<mapsto> (1, True), dotdot \<mapsto> (1, True)]" "card (free_bits (free_map fs)) = 1019"
    using format_ok [OF demo_junk_ok demo_disk_ok] by blast
  let ?fs = "fs\<lparr>fileTable := empty_table\<rparr>"
  have s: "cur_dir ?fs = cur_dir fs" "free_map ?fs = free_map fs" by (simp_all add: cur_dir_def free_map_def)
  then have "fs_ok ?fs" using f(1) by (simp add: fs_ok_def system_sectors_def)
  moreover have "table_ready ?fs" using empty_table_wf by (simp add: table_ready_def empty_table_def OpenFileTable_new_def)
  moreover have "dir_room (cur_dir fs)" by (rule fresh_dir_room [OF f(1,2)])
  ultimately show ?thesis using f(2,3) s by (intro exI [of _ ?fs]) simp
qed

theorem copy_then_print_witness:
  "\<exists>fs fs1 fs2. Copy (\<lambda>_. demo_junk) (Some [1, 2, 3]) [97] fs = Inr fs1 \<and> Print demo_junk 4 [97] fs1 = Inr ([1, 2, 3], fs2)"
proof -
  obtain fs where f: "fs_ok fs" "table_ready fs" "dir_map (cur_dir fs) = [dot \<mapsto> (1, True), dotdot \<mapsto> (1, True)]" "dir_room (cur_dir fs)"
      "card (free_bits (free_map fs)) = 1019" using demo_ready by blast
  have "dir_map (cur_dir fs) (name_key [97]) = None" "sectors_for 3 = 1" "plain_name [97]"
    using f(3) by (simp_all add: name_key_def dot_def dotdot_def sectors_for_def divRoundUp_pos plain_name_def)
  then show ?thesis
    using copy_then_print [OF f(1) _ demo_junk_ok _ _ f(2), of "\<lambda>_. demo_junk" "[97]" "[1, 2, 3]" 4] f(4,5) demo_junk_ok
    by (auto simp: int32_ok_def)
qed

text \<open>
  The performance test on this file system, which has files of a fixed size. The file it creates has no
  bytes, so that its first write fails, its first read fails, and it removes the file again: the directory, the free sectors and the
  table of open files are what they were, and exactly the two complaints are printed.
\<close>

theorem performance_test_fails:
  assumes "fs_ok fs" "\<forall>n. junk_ok (js n)" "table_ready fs" "dir_map (cur_dir fs) (name_key FileName) = None" "dir_room (cur_dir fs)"
    and "free_bits (free_map fs) \<noteq> {}"
  shows "\<exists>fs'. PerformanceTest js fs = Inr ([CantWrite, CantRead], fs') \<and> fs_ok fs' \<and> dir_map (cur_dir fs') = dir_map (cur_dir fs)
     \<and> free_bits (free_map fs') = free_bits (free_map fs) \<and> fileTable fs' = fileTable fs"
proof -
  note disj = bitmap_alloc.disjoint [of "free_map fs"]
  obtain fs1 sec h where w: "FileWrite js fs = Inr ([CantWrite], fs1)" "fs_ok fs1" "fs1 = fs\<lparr>fdisk := fdisk fs1\<rparr>"
      "dir_map (cur_dir fs1) = (dir_map (cur_dir fs))(name_key FileName \<mapsto> (sec, False))" "sec \<in> free_bits (free_map fs)" "numBytes h = 0"
      "set (file_sectors h) \<subseteq> free_bits (free_map fs) - {sec}" "used_bits (free_map fs1) = insert sec (used_bits (free_map fs) \<union> set (file_sectors h))"
      "removable fs1 FileName sec h"
    using FileWrite_empty [OF assms] by (elim exE conjE) (rule that)
  have t1: "fileTable fs1 = fileTable fs" using arg_cong [OF w(3), of fileTable] by simp
  have tw: "table_wf (fileTable fs1)" "nbFiles (fileTable fs1) < 10" "sec \<notin> set (open_sectors (fileTable fs1))"
    using assms(3) w(5) disj t1 by (auto simp: table_ready_def)
  have h: "h = dec_header (sector (fdisk fs1) sec)" "file_ok h" using w(9) unfolding removable_def by blast+
  have d1: "dir_map (cur_dir fs1) (name_key FileName) = Some (sec, False)" using w(4) by simp
  obtain sd where r: "FileRead (js 5002) fs1 = Inr ([CantRead], fs1\<lparr>fdisk := sd\<rparr>)" "sd_ok sd" "sector sd = sector (fdisk fs1)"
    using FileRead_empty [OF w(2) assms(2) [rule_format, of 5002] d1 tw h w(6)] by blast
  let ?fs2 = "fs1\<lparr>fdisk := sd\<rparr>"
  have s: "cur_dir ?fs2 = cur_dir fs1" "free_map ?fs2 = free_map fs1" using same_sectors [OF r(3)] by (simp_all add: cur_dir_def free_map_def)
  have d2: "dir_map (cur_dir ?fs2) (name_key FileName) = Some (sec, False)" "removable ?fs2 FileName sec h"
    using s d1 w(9) removable_same [OF r(3)] by simp_all
  obtain fs3 where q: "RemoveFileInCurrentDirectory (js 5003) FileName ?fs2 = Inr (True, fs3)" "fs_ok fs3" "fs3 = ?fs2\<lparr>fdisk := fdisk fs3\<rparr>"
      "dir_map (cur_dir fs3) = (dir_map (cur_dir ?fs2))(name_key FileName := None)"
      "free_bits (free_map fs3) = free_bits (free_map ?fs2) \<union> insert sec (set (file_sectors h))"
    using remove_success [OF fs_ok_same [OF w(2) r(2,3)] assms(2) [rule_format, of 5003] d2] by (elim exE conjE) (rule that)
  have f3: "fileTable fs3 = fileTable fs" "curDir fs3 = curDir fs1" using arg_cong [OF q(3), of fileTable] arg_cong [OF q(3), of curDir] t1 by simp_all
  have "fs3\<lparr>curDir := curDir fs1\<rparr> = fs3" unfolding f3(2) [symmetric] by simp
  then have "PerformanceTest js fs = Inr ([CantWrite, CantRead], fs3)"
    using w(1) r(1) q(1) by (simp add: PerformanceTest_def RemoveFile_def in_plain_dir [OF test_file_name])
  moreover have "dir_map (cur_dir fs3) = dir_map (cur_dir fs)" using q(4) s(1) w(4) assms(4) by auto
  moreover have "free_bits (free_map fs1) = free_bits (free_map fs) - insert sec (set (file_sectors h))"
    using w(8) free_map_shape [of fs] free_map_shape [of fs1] by (auto simp: free_bits_def disk_map_def map_shape_def)
  then have "free_bits (free_map fs3) = free_bits (free_map fs)" using q(5) s(2) w(5,7) by auto
  ultimately show ?thesis using q(2) f3(1) by blast
qed

theorem performance_test_fails_witness:
  "\<exists>fs fs'. PerformanceTest (\<lambda>_. demo_junk) fs = Inr ([CantWrite, CantRead], fs') \<and> dir_map (cur_dir fs') = dir_map (cur_dir fs)"
proof -
  obtain fs where f: "fs_ok fs" "table_ready fs" "dir_map (cur_dir fs) = [dot \<mapsto> (1, True), dotdot \<mapsto> (1, True)]" "dir_room (cur_dir fs)"
      "card (free_bits (free_map fs)) = 1019" using demo_ready by blast
  have "dir_map (cur_dir fs) (name_key FileName) = None" using f(3) by (simp add: name_key_def dot_def dotdot_def bytes_of_def)
  moreover have "free_bits (free_map fs) \<noteq> {}" using f(5) by auto
  ultimately show ?thesis using performance_test_fails [OF f(1) _ f(2), of "\<lambda>_. demo_junk"] f(4) demo_junk_ok by blast
qed

end
