(* ===== verification/UserProcess.thy ===== *)
theory UserProcess
  imports UserThread ConsoleText FileSys
begin

text \<open>
  Processes (\<^verbatim>\<open>userprog/userprocess.cc\<close>), joining threads (\<^verbatim>\<open>userthread.cc\<close>) and the kernel state that the system calls
  work on: scheduler and processor, files, page frames, the table of processes, the user semaphores and the console.
  A file system call restores the current directory of its thread, so between calls it is the root directory for every thread.
  A call that waits for another thread puts its caller to sleep in the model of the scheduler; what it does when it runs
  again is the same test once more.
\<close>

section \<open>State\<close>

text \<open>What a thread in the kernel can wait for: a thread of its space, the end of all other threads, a process, a semaphore.\<close>

datatype wait = OnThread nat "32 word" | OnThreads nat | OnPid int | OnSem int

text \<open>
  \<open>kwaiting\<close> are the threads that wait on the condition variables, in the order of their arrival; those that wait on a
  semaphore are in its queue. \<open>keyboard_input\<close> are the characters the console will deliver, \<open>display\<close> what was printed.
\<close>

record kern =
  ksched :: "sched sim"
  kfiles :: FileSystem
  kframes :: FrameProvider
  krandom :: nat
  kpids :: "int list"
  UserSemaphores :: "Semaphore option list"
  kwaiting :: "(wait \<times> tref) list"
  keyboard_input :: "byte list"
  display :: "byte list"
  kfeof :: bool

text \<open>
  What the calls take from outside: fuel and hooks of the interrupt simulation, the contents of memory that is used
  before it is written, the addresses at which objects are allocated and those of the functions that threads start
  with, and the generator of pseudo-random numbers.
\<close>

record kenv =
  e_fuel :: nat
  e_hooks :: "(sched dev_handler, sched) hooks"
  e_junk :: junk
  e_mem :: fresh_memory
  e_thread :: Thread
  e_buf :: "nat \<Rightarrow> byte"
  e_int :: int
  e_tref :: tref
  e_space :: nat
  e_StartUserThread :: int
  e_StartUserProcess :: int
  e_rand :: "nat \<Rightarrow> nat \<times> nat"

abbreviation kthread :: "kern \<Rightarrow> tref" where
  "kthread s \<equiv> currentThread (world (ksched s))"

abbreviation kcpu :: "kern \<Rightarrow> Machine" where
  "kcpu s \<equiv> cpu (world (ksched s))"

definition set_sched :: "sched \<Rightarrow> kern \<Rightarrow> kern" where
  "set_sched w s = s\<lparr>ksched := (ksched s)\<lparr>world := w\<rparr>\<rparr>"

definition set_cpu :: "Machine \<Rightarrow> kern \<Rightarrow> kern" where
  "set_cpu m s = set_sched ((world (ksched s))\<lparr>cpu := m\<rparr>) s"

text \<open>
  How a call ends: the caller goes on; it sleeps (and its interrupt level will be restored); another thread was
  scheduled by an interrupt and the caller has still to return the value; or its thread is finished.
\<close>

datatype outcome = Returned | Waiting wait IntStatus | Preempted "int option" | Gone

section \<open>Waiting and waking\<close>

text \<open>\<^verbatim>\<open>Condition::Wait\<close>, up to the moment the thread sleeps and another one runs.\<close>

definition wait_on :: "kenv \<Rightarrow> wait \<Rightarrow> kern \<Rightarrow> (outcome \<times> kern) res" where
  "wait_on e w s =
     bindR (SetLevel (e_fuel e) (e_hooks e) IntOff (ksched s)) (\<lambda>(oldLevel, s1).
     bindR (Sleep (e_fuel e) (e_hooks e) (kthread s) s1) (\<lambda>s2.
     Inr (Waiting w oldLevel, s\<lparr>ksched := s2, kwaiting := kwaiting s @ [(w, kthread s)]\<rparr>)))"

definition waiters :: "wait \<Rightarrow> kern \<Rightarrow> tref list" where
  "waiters w s = map snd (filter (\<lambda>(v, _). v = w) (kwaiting s))"

definition forget :: "wait list \<Rightarrow> kern \<Rightarrow> kern" where
  "forget ws s = s\<lparr>kwaiting := filter (\<lambda>(v, _). v \<notin> set ws) (kwaiting s)\<rparr>"

text \<open>\<^verbatim>\<open>Broadcast\<close>: every thread that waits on the condition becomes ready.\<close>

definition broadcast :: "wait \<Rightarrow> kern \<Rightarrow> kern res" where
  "broadcast w s = bindR (foldR ReadyToRun (waiters w s) (world (ksched s))) (\<lambda>w'. Inr (forget [w] (set_sched w' s)))"

fun wait_of :: "nat \<Rightarrow> cond_event \<Rightarrow> wait" where
  "wait_of x (JoinBroadcast i) = OnThread x i"
| "wait_of x ExitBroadcast = OnThreads x"

section \<open>Exceptions inside the kernel\<close>

text \<open>\<^verbatim>\<open>UpdatePC\<close> (\<^verbatim>\<open>exception.cc\<close>).\<close>

definition UpdatePC :: "'a Machine_scheme \<Rightarrow> 'a Machine_scheme res" where
  "UpdatePC m =
     bindR (ReadRegister (int PCReg) m) (\<lambda>pc.
     bindR (WriteRegister (int PrevPCReg) pc m) (\<lambda>m1.
     bindR (ReadRegister (int NextPCReg) m1) (\<lambda>pc1.
     bindR (WriteRegister (int PCReg) pc1 m1) (\<lambda>m2.
     WriteRegister (int NextPCReg) (pc1 + 4) m2))))"

text \<open>
  \<^verbatim>\<open>ExceptionHandler\<close> for every exception that is not a system call, in particular for those that the kernel causes
  itself when it accesses the memory of a program: it only skips an instruction.
\<close>

definition fault_handler :: "'a handler" where
  "fault_handler which m = bindR (ReadRegister 2 m) (\<lambda>_. UpdatePC m)"

section \<open>Processes\<close>

text \<open>\<^verbatim>\<open>StartUserProcess\<close> up to \<^verbatim>\<open>machine->Run()\<close>.\<close>

definition StartUserProcess :: "AddrSpace \<Rightarrow> Machine \<Rightarrow> Machine res" where
  "StartUserProcess a m = bindR (InitRegisters a m) (\<lambda>m1. Inr (RestoreState a m1))"

text \<open>The state the constructor of an address space works on, and its results taken back.\<close>

definition space_kernel :: "kern \<Rightarrow> nat kernel" where
  "space_kernel s = \<lparr>fprovider = kframes s, machine = kcpu s, seed = krandom s, pids = kpids s, kdisk = fdisk (kfiles s)\<rparr>"

definition from_space_kernel :: "nat kernel \<Rightarrow> kern \<Rightarrow> kern" where
  "from_space_kernel k s =
     (set_cpu (machine k) s)\<lparr>kframes := fprovider k, krandom := seed k, kpids := pids k, kfiles := (kfiles s)\<lparr>fdisk := kdisk k\<rparr>\<rparr>"

text \<open>
  The destructor. The pointers to the locks and conditions it deletes are set only by a constructor that went to its
  end; without that they are what the memory held.
\<close>

definition AddrSpace_delete :: "AddrSpace \<Rightarrow> 'w kernel \<Rightarrow> 'w kernel res" where
  "AddrSpace_delete a k = bindR (FreeFrames a k) (\<lambda>k1. if isCreated a then Inr k1 else Inl NullDeref)"

definition start_process :: "kenv \<Rightarrow> AddrSpace \<Rightarrow> kern \<Rightarrow> kern res" where
  "start_process e a s =
     (let m = kcpu s;
          w = (world (ksched s))\<lparr>cpu := SetNbProcesses (GetNbProcesses m + 1) m, spaces := (spaces (world (ksched s)))(e_space e \<mapsto> a)\<rparr>;
          th = (Thread_new (e_thread e) ''process'' 1 0 w)\<lparr>tspace := Some (e_space e)\<rparr>
      in bindR (Fork (e_fuel e) (e_hooks e) (e_tref e) (e_StartUserProcess e)
                 \<lparr>tp_fun = 0, tp_arg = 0, tp_returnFun = 0, tp_space = False\<rparr>
                 ((ksched s)\<lparr>world := put_thread (e_tref e) th w\<rparr>)) (\<lambda>s1. Inr (s\<lparr>ksched := s1\<rparr>)))"

definition do_UserProcessCreate :: "kenv \<Rightarrow> byte list \<Rightarrow> kern \<Rightarrow> (int \<times> kern) res" where
  "do_UserProcessCreate e execFile s =
     bindR (FileSystem_Open (e_junk e) execFile 0x72 (kfiles s)) (\<lambda>(i, fs).
     let s1 = s\<lparr>kfiles := fs\<rparr> in
     if i = -1 then Inr (-1, s1)
     else
       bindR (FileSystem_GetOpenFile i fs) (\<lambda>executable.
       bindR (AddrSpace_new (e_mem e) (e_rand e) fault_handler executable (space_kernel s1)) (\<lambda>(a, k).
       if \<not> isCreated a then bindR (AddrSpace_delete a k) (\<lambda>k1. Inr (-1, from_space_kernel k1 s1))
       else bindR (start_process e a (from_space_kernel k s1)) (\<lambda>s2. Inr (pid a, s2)))))"

text \<open>The part of \<^verbatim>\<open>do_UserProcessExit\<close> behind its waiting loop and before \<^verbatim>\<open>Finish\<close>.\<close>

definition leave_process :: "int \<Rightarrow> kern \<Rightarrow> kern res" where
  "leave_process p s =
     (let n = GetNbProcesses (kcpu s) - 1; s1 = set_cpu (SetNbProcesses n (kcpu s)) s in
      if n = 0 then Halt (ksched s1)
      else bindR (arr_set (kpids s1) p 0) (\<lambda>ps. broadcast (OnPid p) (s1\<lparr>kpids := ps\<rparr>)))"

definition do_UserProcessExit :: "kenv \<Rightarrow> kern \<Rightarrow> (outcome \<times> kern) res" where
  "do_UserProcessExit e s =
     bindR (current_space (world (ksched s))) (\<lambda>(x, a).
     if GetTotalThreads a > 1 then wait_on e (OnThreads x) s
     else
       bindR (leave_process (pid a) s) (\<lambda>s1.
       bindR (Finish (e_fuel e) (e_hooks e) (kthread s1) (ksched s1)) (\<lambda>s2. Inr (Gone, s1\<lparr>ksched := s2\<rparr>))))"

definition do_WaitPid :: "kenv \<Rightarrow> int \<Rightarrow> kern \<Rightarrow> (outcome \<times> kern) res" where
  "do_WaitPid e p s =
     bindR (current_space (world (ksched s))) (\<lambda>(x, a).
     if p = pid a then Inr (Returned, s)
     else bindR (arr_get (kpids s) p) (\<lambda>active. if active \<noteq> 0 then wait_on e (OnPid p) s else Inr (Returned, s)))"

definition do_UserProcessHalt :: "kern \<Rightarrow> (outcome \<times> kern) res" where
  "do_UserProcessHalt s = Halt (ksched s)"

text \<open>
  \<^verbatim>\<open>StartProcess\<close> (\<^verbatim>\<open>progtest.cc\<close>) up to \<^verbatim>\<open>machine->Run()\<close>: the first program, in the thread that calls it. \<open>False\<close>: the file cannot
  be opened. Whether the address space was created is not checked.
\<close>

definition StartProcess :: "kenv \<Rightarrow> byte list \<Rightarrow> kern \<Rightarrow> (bool \<times> kern) res" where
  "StartProcess e filename s =
     bindR (FileSystem_Open (e_junk e) filename 0x72 (kfiles s)) (\<lambda>(i, fs).
     if i = -1 then Inr (False, s\<lparr>kfiles := fs\<rparr>)
     else
       bindR (FileSystem_GetOpenFile i fs) (\<lambda>executable.
       bindR (AddrSpace_new (e_mem e) (e_rand e) fault_handler executable (space_kernel (s\<lparr>kfiles := fs\<rparr>))) (\<lambda>(a, k).
       let s1 = from_space_kernel k (s\<lparr>kfiles := fs\<rparr>); w = world (ksched s1) in
       bindR (FileSystem_Close i (kfiles s1)) (\<lambda>(_, fs1).
       bindR (get_thread (kthread s1) w) (\<lambda>th.
       bindR (StartUserProcess a (cpu w)) (\<lambda>m.
       Inr (True, (set_sched ((put_thread (kthread s1) (th\<lparr>tspace := Some (e_space e)\<rparr>) w)\<lparr>spaces := (spaces w)(e_space e \<mapsto> a), cpu := m\<rparr>) s1)
                  \<lparr>kfiles := fs1\<rparr>)))))))"

section \<open>Joining a thread\<close>

text \<open>The loop of \<^verbatim>\<open>do_UserThreadJoin\<close> from its test on; \<open>None\<close> is the end of the loop.\<close>

definition join_loop :: "kenv \<Rightarrow> 32 word \<Rightarrow> kern \<Rightarrow> (outcome \<times> kern) option res" where
  "join_loop e t s =
     bindR (current_space (world (ksched s))) (\<lambda>(x, a).
     bindR (ContainThreadID t a) (\<lambda>c.
     if \<not> c then Inr None
     else if unat t \<ge> UserThreadMax then Inl OutOfBounds
     else bindR (wait_on e (OnThread x t) s) (\<lambda>r. Inr (Some r))))"

text \<open>\<open>Inl v\<close>: returns \<open>v\<close>; \<open>Inr\<close>: the caller waits.\<close>

definition do_UserThreadJoin :: "kenv \<Rightarrow> 32 word \<Rightarrow> kern \<Rightarrow> (int + outcome \<times> kern) res" where
  "do_UserThreadJoin e t s =
     bindR (current_space (world (ksched s))) (\<lambda>(x, a).
     bindR (get_thread (kthread s) (world (ksched s))) (\<lambda>th.
     if tid th = sint t then Inr (Inl (-1))
     else
       bindR (ContainThreadID t a) (\<lambda>c.
       if \<not> c then Inr (Inl (-1))
       else bindR (join_loop e t s) (\<lambda>r. Inr (case r of None \<Rightarrow> Inl 0 | Some w \<Rightarrow> Inr w)))))"

end
