(* ===== verification/Syscall.thy ===== *)
theory Syscall
  imports UserProcess
begin

text \<open>
  System calls (\<^verbatim>\<open>userprog/exception.cc\<close>): one definition per case of \<^verbatim>\<open>ExceptionHandler\<close>, composed of the models of the file
  system, the console, the scheduler and the processes. Arguments come from registers 4 to 6, the result goes to
  register 2, and the program continues behind the \<^verbatim>\<open>syscall\<close> instruction. A call that waits for a device is one step here:
  theories Console and Disk show what the device and other threads do in the meantime.
\<close>

section \<open>Arguments and results\<close>

definition argument :: "nat \<Rightarrow> kern \<Rightarrow> 32 word res" where
  "argument n s = ReadRegister (int n) (kcpu s)"

definition put_result :: "int \<Rightarrow> kern \<Rightarrow> (outcome \<times> kern) res" where
  "put_result v s = bindR (WriteRegister 2 (word_of_int v) (kcpu s)) (\<lambda>m. Inr (Returned, set_cpu m s))"

text \<open>The end of a call in which an interrupt may have scheduled another thread.\<close>

definition finish_call :: "tref \<Rightarrow> int option \<Rightarrow> kern \<Rightarrow> (outcome \<times> kern) res" where
  "finish_call self v s =
     (if kthread s \<noteq> self then Inr (Preempted v, s)
      else case v of None \<Rightarrow> Inr (Returned, s) | Some x \<Rightarrow> put_result x s)"

text \<open>A local array, and the C string copied into it from the memory of the program.\<close>

definition local_array :: "kenv \<Rightarrow> nat \<Rightarrow> byte list" where
  "local_array e n = map (e_buf e) [0..<n]"

definition string_arg :: "kenv \<Rightarrow> 32 word \<Rightarrow> nat \<Rightarrow> kern \<Rightarrow> (byte list \<times> kern) res" where
  "string_arg e src n s =
     bindR (CopyStringFromMachine fault_handler src (local_array e n) (of_nat n) (kcpu s)) (\<lambda>(str, m).
     Inr (cstr str, set_cpu m s))"

definition string_result :: "byte list \<Rightarrow> 32 word \<Rightarrow> 32 word \<Rightarrow> kern \<Rightarrow> kern res" where
  "string_result str dst n s = bindR (CopyStringToMachine fault_handler str dst n (kcpu s)) (\<lambda>m. Inr (set_cpu m s))"

abbreviation (input) max_string :: nat where "max_string \<equiv> 4096"
abbreviation (input) MAX_EXEC_NAME_LEN :: nat where "MAX_EXEC_NAME_LEN \<equiv> 100"

section \<open>Files\<close>

definition syscall_CreateFile :: "kenv \<Rightarrow> kern \<Rightarrow> (outcome \<times> kern) res" where
  "syscall_CreateFile e s =
     bindR (argument 4 s) (\<lambda>src.
     bindR (argument 5 s) (\<lambda>b.
     bindR (string_arg e src max_string s) (\<lambda>(path, s1).
     bindR (CreateFile (e_junk e) path (sint b) (kfiles s1)) (\<lambda>(ok, fs). put_result (of_bool ok) (s1\<lparr>kfiles := fs\<rparr>)))))"

text \<open>The three calls that take a path only.\<close>

definition path_call :: "kenv \<Rightarrow> (byte list \<Rightarrow> FileSystem \<Rightarrow> (bool \<times> FileSystem) res) \<Rightarrow> kern \<Rightarrow> (outcome \<times> kern) res" where
  "path_call e operation s =
     bindR (argument 4 s) (\<lambda>src.
     bindR (string_arg e src max_string s) (\<lambda>(path, s1).
     bindR (operation path (kfiles s1)) (\<lambda>(ok, fs). put_result (of_bool ok) (s1\<lparr>kfiles := fs\<rparr>))))"

definition syscall_CreateDir :: "kenv \<Rightarrow> kern \<Rightarrow> (outcome \<times> kern) res" where
  "syscall_CreateDir e s = path_call e (CreateDir (e_junk e)) s"

definition syscall_RemoveFile :: "kenv \<Rightarrow> kern \<Rightarrow> (outcome \<times> kern) res" where
  "syscall_RemoveFile e s = path_call e (RemoveFile (e_junk e)) s"

definition syscall_RemoveDir :: "kenv \<Rightarrow> kern \<Rightarrow> (outcome \<times> kern) res" where
  "syscall_RemoveDir e s = path_call e (RemoveDir (e_junk e)) s"

definition syscall_Open :: "kenv \<Rightarrow> kern \<Rightarrow> (outcome \<times> kern) res" where
  "syscall_Open e s =
     bindR (argument 4 s) (\<lambda>src.
     bindR (argument 5 s) (\<lambda>mode.
     bindR (string_arg e src max_string s) (\<lambda>(path, s1).
     bindR (FileSystem_Open (e_junk e) path (ucast mode) (kfiles s1)) (\<lambda>(i, fs). put_result i (s1\<lparr>kfiles := fs\<rparr>)))))"

text \<open>The case of \<^verbatim>\<open>SC_List\<close> has no \<^verbatim>\<open>break\<close>: it goes on with that of \<^verbatim>\<open>SC_Open\<close>.\<close>

definition syscall_List :: "kenv \<Rightarrow> kern \<Rightarrow> (outcome \<times> kern) res" where
  "syscall_List e s = bindR (FileSystem_List (e_junk e) (kfiles s)) (\<lambda>(_, fs). syscall_Open e (s\<lparr>kfiles := fs\<rparr>))"

text \<open>\<^verbatim>\<open>SC_Write\<close> calls \<^verbatim>\<open>FileSystem::Read\<close>, into the array that holds the copied string.\<close>

definition syscall_Write :: "kenv \<Rightarrow> kern \<Rightarrow> (outcome \<times> kern) res" where
  "syscall_Write e s =
     bindR (argument 4 s) (\<lambda>src.
     bindR (argument 5 s) (\<lambda>n.
     bindR (argument 6 s) (\<lambda>i.
     bindR (string_arg e src max_string s) (\<lambda>(_, s1).
     bindR (FileSystem_Read (sint i) (sint n) (kfiles s1)) (\<lambda>((_, bs), fs).
     if length bs > max_string then Inl OutOfBounds else Inr (Returned, s1\<lparr>kfiles := fs\<rparr>))))))"

definition syscall_Read :: "kenv \<Rightarrow> kern \<Rightarrow> (outcome \<times> kern) res" where
  "syscall_Read e s =
     bindR (argument 4 s) (\<lambda>dst.
     bindR (argument 5 s) (\<lambda>n.
     bindR (argument 6 s) (\<lambda>i.
     if sint n < 0 then Inl OutOfBounds
     else
       bindR (FileSystem_Read (sint i) (sint n) (kfiles s)) (\<lambda>((r, bs), fs).
       bindR (string_result (bs @ drop (length bs) (local_array e (unat n))) dst n (s\<lparr>kfiles := fs\<rparr>)) (\<lambda>s1. put_result r s1)))))"

definition syscall_Close :: "kenv \<Rightarrow> kern \<Rightarrow> (outcome \<times> kern) res" where
  "syscall_Close e s =
     bindR (argument 4 s) (\<lambda>i. bindR (FileSystem_Close (sint i) (kfiles s)) (\<lambda>(_, fs). Inr (Returned, s\<lparr>kfiles := fs\<rparr>)))"

section \<open>Console\<close>

definition print :: "byte list \<Rightarrow> kern \<Rightarrow> kern" where
  "print bs s = s\<lparr>display := display s @ bs\<rparr>"

text \<open>\<open>rest\<close> is what is left of the input; the end of the input among what was taken is remembered.\<close>

definition consumed :: "byte list \<Rightarrow> kern \<Rightarrow> kern" where
  "consumed rest s =
     s\<lparr>keyboard_input := rest, kfeof := (kfeof s \<or> EOF \<in> set (take (length (keyboard_input s) - length rest) (keyboard_input s)))\<rparr>"

definition syscall_PutChar :: "kenv \<Rightarrow> kern \<Rightarrow> (outcome \<times> kern) res" where
  "syscall_PutChar e s = bindR (argument 4 s) (\<lambda>c. Inr (Returned, print (put_text (PutC (ucast c))) s))"

definition syscall_GetChar :: "kenv \<Rightarrow> kern \<Rightarrow> (outcome \<times> kern) res" where
  "syscall_GetChar e s =
     (case keyboard_input s of [] \<Rightarrow> Inl WouldBlock | c # cs \<Rightarrow> put_result (sint c) (consumed cs s))"

definition syscall_PutString :: "kenv \<Rightarrow> kern \<Rightarrow> (outcome \<times> kern) res" where
  "syscall_PutString e s =
     bindR (argument 4 s) (\<lambda>src.
     bindR (string_arg e src max_string s) (\<lambda>(str, s1). Inr (Returned, print (put_text (PutS str)) s1)))"

definition syscall_GetString :: "kenv \<Rightarrow> kern \<Rightarrow> (outcome \<times> kern) res" where
  "syscall_GetString e s =
     bindR (argument 4 s) (\<lambda>dst.
     bindR (argument 5 s) (\<lambda>n.
     bindR (SynchGetString (keyboard_input s) (Some (local_array e (unat n))) (sint n)) (\<lambda>(str, rest).
     bindR (string_result (the str) dst n (consumed rest s)) (\<lambda>s1. Inr (Returned, s1)))))"

definition syscall_PutInt :: "kenv \<Rightarrow> kern \<Rightarrow> (outcome \<times> kern) res" where
  "syscall_PutInt e s = bindR (argument 4 s) (\<lambda>i. Inr (Returned, print (put_text (SynchPutInt (sint i))) s))"

definition syscall_GetInt :: "kenv \<Rightarrow> kern \<Rightarrow> (outcome \<times> kern) res" where
  "syscall_GetInt e s =
     bindR (argument 4 s) (\<lambda>dst.
     bindR (SynchGetInt (local_array e max_string) (keyboard_input s) (e_int e)) (\<lambda>(i, rest).
     bindR (WriteMem fault_handler dst 4 (word_of_int i) (kcpu s)) (\<lambda>(_, m). Inr (Returned, consumed rest (set_cpu m s)))))"

definition syscall_Feof :: "kenv \<Rightarrow> kern \<Rightarrow> (outcome \<times> kern) res" where
  "syscall_Feof e s = put_result (of_bool (kfeof s)) s"

section \<open>Threads and processes\<close>

definition syscall_ThreadCreate :: "kenv \<Rightarrow> kern \<Rightarrow> (outcome \<times> kern) res" where
  "syscall_ThreadCreate e s =
     bindR (argument 4 s) (\<lambda>f.
     bindR (argument 5 s) (\<lambda>a.
     bindR (argument 6 s) (\<lambda>returnF.
     bindR (do_UserThreadCreate (e_fuel e) (e_hooks e) (e_thread e) (e_tref e) (e_StartUserThread e) (sint f) (sint a) (sint returnF) (ksched s)) (\<lambda>(r, s1).
     finish_call (kthread s) (Some r) (s\<lparr>ksched := s1\<rparr>)))))"

definition syscall_ThreadExit :: "kenv \<Rightarrow> kern \<Rightarrow> (outcome \<times> kern) res" where
  "syscall_ThreadExit e s =
     bindR (do_UserThreadExit (e_fuel e) (e_hooks e) (\<lambda>x ev. waiters (wait_of x ev) s) (ksched s)) (\<lambda>((x, evs), s1).
     Inr (Gone, forget (map (wait_of x) evs) (s\<lparr>ksched := s1\<rparr>)))"

definition syscall_ThreadJoin :: "kenv \<Rightarrow> kern \<Rightarrow> (outcome \<times> kern) res" where
  "syscall_ThreadJoin e s =
     bindR (argument 4 s) (\<lambda>t.
     bindR (do_UserThreadJoin e t s) (\<lambda>r. case r of Inl v \<Rightarrow> put_result v s | Inr w \<Rightarrow> Inr w))"

definition syscall_ThreadId :: "kenv \<Rightarrow> kern \<Rightarrow> (outcome \<times> kern) res" where
  "syscall_ThreadId e s = bindR (do_UserThreadId (world (ksched s))) (\<lambda>i. put_result i s)"

definition syscall_ForkExec :: "kenv \<Rightarrow> kern \<Rightarrow> (outcome \<times> kern) res" where
  "syscall_ForkExec e s =
     bindR (argument 4 s) (\<lambda>a.
     bindR (string_arg e a MAX_EXEC_NAME_LEN s) (\<lambda>(exec, s1).
     bindR (do_UserProcessCreate e exec s1) (\<lambda>(p, s2). finish_call (kthread s) (Some p) s2)))"

text \<open>The result -1 for a bad process number is written, and then the call goes on.\<close>

definition syscall_WaitPid :: "kenv \<Rightarrow> kern \<Rightarrow> (outcome \<times> kern) res" where
  "syscall_WaitPid e s =
     bindR (argument 4 s) (\<lambda>a.
     bindR (current_space (world (ksched s))) (\<lambda>(_, sp).
     bindR (if sint a > 64 \<or> sint a < 0 \<or> sint a = pid sp then put_result (-1) s else Inr (Returned, s)) (\<lambda>(_, s1).
     bindR (do_WaitPid e (sint a) s1) (\<lambda>(r, s2). if r = Returned then put_result 1 s2 else Inr (r, s2)))))"

definition syscall_GetPid :: "kenv \<Rightarrow> kern \<Rightarrow> (outcome \<times> kern) res" where
  "syscall_GetPid e s = bindR (current_space (world (ksched s))) (\<lambda>(_, sp). put_result (pid sp) s)"

section \<open>Semaphores of user programs\<close>

definition syscall_SemCreate :: "kenv \<Rightarrow> kern \<Rightarrow> (outcome \<times> kern) res" where
  "syscall_SemCreate e s =
     bindR (argument 4 s) (\<lambda>v.
     bindR (scan (\<lambda>p. p = None) 0 64 (UserSemaphores s)) (\<lambda>i.
     if i = -1 then put_result (-1) s
     else bindR (arr_set (UserSemaphores s) i (Some (Semaphore_new (sint v)))) (\<lambda>tab. put_result i (s\<lparr>UserSemaphores := tab\<rparr>))))"

text \<open>The test of the argument that \<^verbatim>\<open>SC_SemPost\<close> and \<^verbatim>\<open>SC_SemWait\<close> share: \<open>None\<close> is a refused number.\<close>

definition find_sem :: "int \<Rightarrow> kern \<Rightarrow> Semaphore option res" where
  "find_sem sid s = (if sid < 0 \<or> sid > 64 then Inr None else arr_get (UserSemaphores s) sid)"

definition store_sem :: "int \<Rightarrow> Semaphore option \<Rightarrow> kern \<Rightarrow> kern" where
  "store_sem sid p s = s\<lparr>UserSemaphores := (UserSemaphores s)[nat sid := p]\<rparr>"

text \<open>\<^verbatim>\<open>V\<close> in the kernel: the first sleeper, if there is one, becomes ready.\<close>

definition make_ready :: "tref option \<Rightarrow> sched \<Rightarrow> sched res" where
  "make_ready r w = (case r of None \<Rightarrow> Inr w | Some t \<Rightarrow> ReadyToRun t w)"

definition syscall_SemPost :: "kenv \<Rightarrow> kern \<Rightarrow> (outcome \<times> kern) res" where
  "syscall_SemPost e s =
     bindR (argument 4 s) (\<lambda>a.
     bindR (find_sem (sint a) s) (\<lambda>p. case p of
       None \<Rightarrow> put_result (-1) s
     | Some us \<Rightarrow>
         bindR (SetLevel (e_fuel e) (e_hooks e) IntOff (ksched s)) (\<lambda>(oldLevel, s1).
         case Semaphore_V us of (r, us') \<Rightarrow>
         bindR (make_ready r (world s1)) (\<lambda>w.
         bindR (SetLevel (e_fuel e) (e_hooks e) oldLevel (s1\<lparr>world := w\<rparr>)) (\<lambda>(_, s2).
         finish_call (kthread s) (Some 1) (store_sem (sint a) (Some us') (s\<lparr>ksched := s2\<rparr>)))))))"

text \<open>\<^verbatim>\<open>P\<close> from the test of its loop on, with interrupts off.\<close>

definition P_loop :: "kenv \<Rightarrow> int \<Rightarrow> Semaphore \<Rightarrow> IntStatus \<Rightarrow> kern \<Rightarrow> (outcome \<times> kern) res" where
  "P_loop e sid us oldLevel s =
     (case Semaphore_P (kthread s) us of
        (True, us') \<Rightarrow>
          bindR (SetLevel (e_fuel e) (e_hooks e) oldLevel (ksched s)) (\<lambda>(_, s1).
          finish_call (kthread s) (Some 1) (store_sem sid (Some us') (s\<lparr>ksched := s1\<rparr>)))
      | (False, us') \<Rightarrow>
          bindR (Sleep (e_fuel e) (e_hooks e) (kthread s) (ksched s)) (\<lambda>s1.
          Inr (Waiting (OnSem sid) oldLevel, store_sem sid (Some us') (s\<lparr>ksched := s1\<rparr>))))"

definition syscall_SemWait :: "kenv \<Rightarrow> kern \<Rightarrow> (outcome \<times> kern) res" where
  "syscall_SemWait e s =
     bindR (argument 4 s) (\<lambda>a.
     bindR (find_sem (sint a) s) (\<lambda>p. case p of
       None \<Rightarrow> put_result (-1) s
     | Some us \<Rightarrow>
         bindR (SetLevel (e_fuel e) (e_hooks e) IntOff (ksched s)) (\<lambda>(oldLevel, s1).
         P_loop e (sint a) us oldLevel (s\<lparr>ksched := s1\<rparr>))))"

definition syscall_SemDelete :: "kenv \<Rightarrow> kern \<Rightarrow> (outcome \<times> kern) res" where
  "syscall_SemDelete e s =
     bindR (argument 4 s) (\<lambda>a.
     bindR (arr_get (UserSemaphores s) (sint a)) (\<lambda>_. Inr (Returned, store_sem (sint a) None s)))"

section \<open>The handler\<close>

text \<open>The numbers of the calls (\<^verbatim>\<open>syscall.h\<close>).\<close>

abbreviation (input) SC_Halt :: int where "SC_Halt \<equiv> 0"
abbreviation (input) SC_Exit :: int where "SC_Exit \<equiv> 1"
abbreviation (input) SC_CreateFile :: int where "SC_CreateFile \<equiv> 4"
abbreviation (input) SC_CreateDir :: int where "SC_CreateDir \<equiv> 5"
abbreviation (input) SC_RemoveFile :: int where "SC_RemoveFile \<equiv> 6"
abbreviation (input) SC_RemoveDir :: int where "SC_RemoveDir \<equiv> 7"
abbreviation (input) SC_List :: int where "SC_List \<equiv> 8"
abbreviation (input) SC_Open :: int where "SC_Open \<equiv> 9"
abbreviation (input) SC_Read :: int where "SC_Read \<equiv> 10"
abbreviation (input) SC_Write :: int where "SC_Write \<equiv> 11"
abbreviation (input) SC_Close :: int where "SC_Close \<equiv> 12"
abbreviation (input) SC_PutChar :: int where "SC_PutChar \<equiv> 15"
abbreviation (input) SC_GetChar :: int where "SC_GetChar \<equiv> 16"
abbreviation (input) SC_PutString :: int where "SC_PutString \<equiv> 17"
abbreviation (input) SC_GetString :: int where "SC_GetString \<equiv> 18"
abbreviation (input) SC_PutInt :: int where "SC_PutInt \<equiv> 19"
abbreviation (input) SC_GetInt :: int where "SC_GetInt \<equiv> 20"
abbreviation (input) SC_Feof :: int where "SC_Feof \<equiv> 21"
abbreviation (input) SC_ThreadCreate :: int where "SC_ThreadCreate \<equiv> 22"
abbreviation (input) SC_ThreadExit :: int where "SC_ThreadExit \<equiv> 23"
abbreviation (input) SC_ThreadJoin :: int where "SC_ThreadJoin \<equiv> 24"
abbreviation (input) SC_ThreadId :: int where "SC_ThreadId \<equiv> 25"
abbreviation (input) SC_ForkExec :: int where "SC_ForkExec \<equiv> 26"
abbreviation (input) SC_SemCreate :: int where "SC_SemCreate \<equiv> 27"
abbreviation (input) SC_SemPost :: int where "SC_SemPost \<equiv> 28"
abbreviation (input) SC_SemWait :: int where "SC_SemWait \<equiv> 29"
abbreviation (input) SC_SemDelete :: int where "SC_SemDelete \<equiv> 30"
abbreviation (input) SC_WaitPid :: int where "SC_WaitPid \<equiv> 31"
abbreviation (input) SC_GetPid :: int where "SC_GetPid \<equiv> 32"

definition syscall :: "kenv \<Rightarrow> int \<Rightarrow> kern \<Rightarrow> (outcome \<times> kern) res" where
  "syscall e type s =
     (if type = SC_Halt then do_UserProcessHalt s
      else if type = SC_Exit then do_UserProcessExit e s
      else if type = SC_CreateFile then syscall_CreateFile e s
      else if type = SC_CreateDir then syscall_CreateDir e s
      else if type = SC_RemoveFile then syscall_RemoveFile e s
      else if type = SC_RemoveDir then syscall_RemoveDir e s
      else if type = SC_List then syscall_List e s
      else if type = SC_Open then syscall_Open e s
      else if type = SC_Read then syscall_Read e s
      else if type = SC_Write then syscall_Write e s
      else if type = SC_Close then syscall_Close e s
      else if type = SC_PutChar then syscall_PutChar e s
      else if type = SC_GetChar then syscall_GetChar e s
      else if type = SC_PutString then syscall_PutString e s
      else if type = SC_GetString then syscall_GetString e s
      else if type = SC_PutInt then syscall_PutInt e s
      else if type = SC_GetInt then syscall_GetInt e s
      else if type = SC_Feof then syscall_Feof e s
      else if type = SC_ThreadCreate then syscall_ThreadCreate e s
      else if type = SC_ThreadExit then syscall_ThreadExit e s
      else if type = SC_ThreadJoin then syscall_ThreadJoin e s
      else if type = SC_ThreadId then syscall_ThreadId e s
      else if type = SC_ForkExec then syscall_ForkExec e s
      else if type = SC_SemCreate then syscall_SemCreate e s
      else if type = SC_SemPost then syscall_SemPost e s
      else if type = SC_SemWait then syscall_SemWait e s
      else if type = SC_SemDelete then syscall_SemDelete e s
      else if type = SC_WaitPid then syscall_WaitPid e s
      else if type = SC_GetPid then syscall_GetPid e s
      else Inl AssertFailed)"

text \<open>\<^verbatim>\<open>UpdatePC\<close>, for a thread that is about to return to its program.\<close>

definition back_to_user :: "outcome \<times> kern \<Rightarrow> (outcome \<times> kern) res" where
  "back_to_user = (\<lambda>(r, s). if r = Returned then bindR (UpdatePC (kcpu s)) (\<lambda>m. Inr (r, set_cpu m s)) else Inr (r, s))"

definition ExceptionHandler :: "kenv \<Rightarrow> ExceptionType \<Rightarrow> kern \<Rightarrow> (outcome \<times> kern) res" where
  "ExceptionHandler e which s =
     bindR (argument 2 s) (\<lambda>type.
     bindR (if which = SyscallException then syscall e (sint type) s else Inr (Returned, s)) back_to_user)"

text \<open>
  What a thread that had to wait, or was preempted, does in its call when it runs again. The loops test their condition
  again; \<open>P\<close> does so with interrupts off.
\<close>

definition resume_wait :: "kenv \<Rightarrow> wait \<Rightarrow> kern \<Rightarrow> (outcome \<times> kern) res" where
  "resume_wait e w s =
     (case w of
        OnPid p \<Rightarrow> bindR (do_WaitPid e p s) (\<lambda>(r, s1). if r = Returned then put_result 1 s1 else Inr (r, s1))
      | OnThread x t \<Rightarrow> bindR (join_loop e t s) (\<lambda>r. case r of None \<Rightarrow> put_result 0 s | Some w \<Rightarrow> Inr w)
      | OnThreads x \<Rightarrow> do_UserProcessExit e s
      | OnSem sid \<Rightarrow> Inr (Returned, s))"

fun resume_syscall :: "kenv \<Rightarrow> outcome \<Rightarrow> kern \<Rightarrow> (outcome \<times> kern) res" where
  "resume_syscall e (Waiting (OnSem sid) oldLevel) s =
     bindR (arr_get (UserSemaphores s) sid) (\<lambda>p. case p of
       None \<Rightarrow> Inl NullDeref
     | Some us \<Rightarrow> bindR (P_loop e sid us oldLevel s) back_to_user)"
| "resume_syscall e (Waiting w oldLevel) s =
     bindR (SetLevel (e_fuel e) (e_hooks e) oldLevel (ksched s)) (\<lambda>(_, s1).
     if currentThread (world s1) \<noteq> kthread s then Inr (Waiting w oldLevel, s\<lparr>ksched := s1\<rparr>)
     else bindR (resume_wait e w (s\<lparr>ksched := s1\<rparr>)) back_to_user)"
| "resume_syscall e (Preempted v) s = bindR (finish_call (kthread s) v s) back_to_user"
| "resume_syscall e r s = Inr (r, s)"

end
