(* ===== verification/SyscallSpec.thy ===== *)
theory SyscallSpec
  imports Syscall SchedulerSpec
begin

text \<open>
  What the system calls do, end to end: strings printed and results returned, bad pointers, the data of files, the tables
  of semaphores and processes, and how waiting for a process, a thread or a semaphore ends.
\<close>

section \<open>Registers\<close>

lemma argument_ok: "length (registers (kcpu s)) = NumTotalRegs \<Longrightarrow> n < NumTotalRegs \<Longrightarrow> argument n s = Inr (reg (kcpu s) n)"
  by (simp add: argument_def ReadRegister_def reg_def)

lemma put_result_ok:
  "length (registers (kcpu s)) = NumTotalRegs \<Longrightarrow> put_result v s = Inr (Returned, set_cpu (set_reg 2 (word_of_int v) (kcpu s)) s)"
  by (simp add: put_result_def WriteRegister_def set_reg_def)

lemma set_cpu_simps [simp]:
  "kcpu (set_cpu m s) = m" "kthread (set_cpu m s) = kthread s" "set_cpu m (set_cpu m' s) = set_cpu m s"
  "display (set_cpu m s) = display s" "kfiles (set_cpu m s) = kfiles s" "kpids (set_cpu m s) = kpids s"
  "UserSemaphores (set_cpu m s) = UserSemaphores s" "kwaiting (set_cpu m s) = kwaiting s" "kframes (set_cpu m s) = kframes s"
  "keyboard_input (set_cpu m s) = keyboard_input s" "kfeof (set_cpu m s) = kfeof s" "krandom (set_cpu m s) = krandom s"
  "ksched (set_cpu m s) = (ksched s)\<lparr>world := (world (ksched s))\<lparr>cpu := m\<rparr>\<rparr>"
  by (simp_all add: set_cpu_def set_sched_def)

text \<open>The program counters after \<^verbatim>\<open>UpdatePC\<close>.\<close>

definition advance :: "'a Machine_scheme \<Rightarrow> 'a Machine_scheme" where
  "advance m = set_reg NextPCReg (reg m NextPCReg + 4) (set_reg PCReg (reg m NextPCReg) (set_reg PrevPCReg (reg m PCReg) m))"

lemma UpdatePC_ok: "length (registers m) = NumTotalRegs \<Longrightarrow> UpdatePC m = Inr (advance m)"
  by (simp add: UpdatePC_def ReadRegister_def WriteRegister_def advance_def set_reg_def reg_def)

lemma back_to_user_returned:
  "length (registers (kcpu s)) = NumTotalRegs \<Longrightarrow> back_to_user (Returned, s) = Inr (Returned, set_cpu (advance (kcpu s)) s)"
  by (simp add: back_to_user_def UpdatePC_ok)

lemma advance_simps [simp]:
  "length (registers (advance m)) = length (registers m)" "tlb (advance m) = tlb m" "pageTable (advance m) = pageTable m"
  "pageTableSize (advance m) = pageTableSize m" "mainMemory (advance m) = mainMemory m"
  by (simp_all add: advance_def)

lemma with_table_regs [simp]: "registers (with_table pt mem m) = registers m" "reg (with_table pt mem m) i = reg m i"
  by (simp_all add: with_table_def reg_def)

lemma advance_with_table: "advance (with_table pt mem m) = with_table pt mem (advance m)"
  by (simp add: with_table_def advance_def set_reg_def reg_def)

section \<open>Strings\<close>

lemma length_local_array [simp]: "length (local_array e n) = n"
  by (simp add: local_array_def)

lemma string_arg_ok:
  assumes "kcpu s = with_table pt mem m" "tlb m = None" "table_good pt" "0 < n" "n < 2 ^ 32"
    "va + min (n - 1) (length (user_string pt mem va (n - 1)) + 1) \<le> PageSize * length pt"
  shows "\<exists>pt'. string_arg e (of_nat va) n s = Inr (user_string pt mem va (n - 1), set_cpu (with_table pt' mem m) s) \<and> same_map pt pt'"
proof -
  have u: "unat (of_nat n :: 32 word) = n" using assms(5) by (simp add: unat_of_nat)
  have "(0 :: 32 word) < of_nat n" using assms(4) u by (metis unat_gt_0 unat_eq_zero less_numeral_extra(3) word_gt_0)
  then obtain pt' dst' where "CopyStringFromMachine fault_handler (of_nat va) (local_array e n) (of_nat n) (with_table pt mem m)
      = Inr (dst', with_table pt' mem m)" "same_map pt pt'" "cstr dst' = user_string pt mem va (n - 1)"
    using CopyStringFrom_ok [OF assms(2,3), of "of_nat n" "local_array e n" va mem fault_handler] assms(6) u by auto
  then show ?thesis using assms(1) by (auto simp: string_arg_def)
qed

lemma cstr_cstr [simp]: "cstr (cstr xs) = cstr xs"
  by (induction xs) auto

lemma cstr_user_string [simp]: "cstr (user_string pt mem va k) = user_string pt mem va k"
  by (simp add: user_string_def)

lemma print_simps [simp]:
  "display (print bs s) = display s @ bs" "ksched (print bs s) = ksched s" "kfiles (print bs s) = kfiles s"
  "kpids (print bs s) = kpids s" "UserSemaphores (print bs s) = UserSemaphores s"
  by (simp_all add: print_def)

lemma set_cpu_print: "set_cpu m (print bs s) = print bs (set_cpu m s)"
  by (rule kern.equality) (simp_all add: print_def)

text \<open>
  C10 (functional): the system call \<^verbatim>\<open>PutString\<close>, from the trap to the return to the program. It prints exactly the C string
  at the address in register 4, at most 4095 bytes of it, and the program continues behind the call; nothing else in the
  kernel, in the registers or in memory changes (but for use bits in the page table).
\<close>

theorem put_string_syscall:
  assumes "kcpu s = with_table pt mem m" "length (registers m) = NumTotalRegs" "tlb m = None" "table_good pt"
    and "reg m 2 = 17" "reg m 4 = of_nat va"
    and "va + min 4095 (length (user_string pt mem va 4095) + 1) \<le> PageSize * length pt"
  shows "\<exists>pt'. ExceptionHandler e SyscallException s
      = Inr (Returned, print (user_string pt mem va 4095) (set_cpu (with_table pt' mem (advance m)) s))
     \<and> same_map pt pt'"
proof -
  obtain pt' where 1: "string_arg e (of_nat va) 4096 s = Inr (user_string pt mem va 4095, set_cpu (with_table pt' mem m) s)" "same_map pt pt'"
    using string_arg_ok [OF assms(1,3,4), of 4096 va e] assms(7) by auto
  have r: "argument 2 s = Inr 17" "argument 4 s = Inr (of_nat va)" using assms(1,2,5,6) by (simp_all add: argument_ok)
  have "syscall_PutString e s = Inr (Returned, print (user_string pt mem va 4095) (set_cpu (with_table pt' mem m) s))"
    using 1(1) r(2) by (simp add: syscall_PutString_def)
  then have "ExceptionHandler e SyscallException s
      = back_to_user (Returned, print (user_string pt mem va 4095) (set_cpu (with_table pt' mem m) s))"
    using r(1) by (simp add: ExceptionHandler_def syscall_def)
  also have "\<dots> = Inr (Returned, set_cpu (with_table pt' mem (advance m)) (print (user_string pt mem va 4095) (set_cpu (with_table pt' mem m) s)))"
    using assms(2) by (simp add: back_to_user_returned advance_with_table)
  finally show ?thesis using 1(2) by (auto simp: set_cpu_print)
qed

section \<open>Bad pointers\<close>

text \<open>After \<open>n\<close> exceptions that the kernel caused itself: the program counters have moved by \<open>n\<close> instructions.\<close>

definition skipped :: "nat \<Rightarrow> Machine \<Rightarrow> Machine \<Rightarrow> bool" where
  "skipped n m m' \<longleftrightarrow> length (registers m') = NumTotalRegs \<and> reg m' LoadReg = 0 \<and> tlb m' = tlb m \<and> pageTable m' = pageTable m
     \<and> pageTableSize m' = pageTableSize m \<and> mainMemory m' = mainMemory m
     \<and> reg m' NextPCReg = reg m NextPCReg + 4 * of_nat n
     \<and> reg m' PCReg = (if n = 0 then reg m PCReg else reg m NextPCReg + 4 * of_nat (n - 1))"

definition bad_address :: "32 word \<Rightarrow> Machine \<Rightarrow> bool" where
  "bad_address a m \<longleftrightarrow> tlb m = None \<and> pageTable m \<noteq> None \<and> unat (pageTableSize m) \<le> unat a div PageSize"

lemma fault_read:
  assumes "bad_address a m" "length (registers m) = NumTotalRegs" "reg m LoadReg = 0"
  shows "\<exists>m'. ReadMem fault_handler a 1 m = Inr (None, m') \<and> skipped 1 m m'"
proof -
  obtain pt where pt: "pageTable m = Some pt" "tlb m = None" "unat (pageTableSize m) \<le> unat a div PageSize"
    using assms(1) by (auto simp: bad_address_def)
  have t: "Translate a 1 False m = Inr (Fault AddressErrorException, m)" using pt by (simp add: Translate_def)
  let ?m = "set_reg BadVAddrReg a m"
  let ?m1 = "set_reg 0 0 (set_reg LoadValueReg 0 (set_reg LoadReg 0 (?m\<lparr>registers := (registers ?m)[0 := reg ?m LoadValueReg]\<rparr>)))"
  have d: "DelayedLoad 0 0 ?m = Inr ?m1" using assms(2,3) by (simp add: DelayedLoad_def reg_set_reg)
  let ?m2 = "(advance (?m1\<lparr>status := SystemMode\<rparr>))\<lparr>status := UserMode\<rparr>"
  have "fault_handler AddressErrorException (?m1\<lparr>status := SystemMode\<rparr>) = Inr (advance (?m1\<lparr>status := SystemMode\<rparr>))"
    using assms(2) by (simp add: fault_handler_def ReadRegister_def UpdatePC_ok)
  then have "ReadMem fault_handler a 1 m = Inr (None, ?m2)" using t d by (simp add: ReadMem_def RaiseException_def)
  moreover have "skipped 1 m ?m2" using assms(2) by (simp add: skipped_def advance_def set_reg_def reg_def)
  ultimately show ?thesis by blast
qed

lemma copy_from_bad:
  assumes "\<forall>j<k. bad_address (src + of_nat (i + j)) m" "length (registers m) = NumTotalRegs" "reg m LoadReg = 0" "ch \<noteq> 0"
  shows "\<exists>m'. copy_from fault_handler k src ch i dst m = Inr (i + k, dst, m') \<and> skipped k m m'"
  using assms
proof (induction k arbitrary: i m)
  case 0
  then show ?case by (simp add: skipped_def)
next
  case (Suc k)
  have "bad_address (src + of_nat i) m" using Suc.prems(1) [rule_format, of 0] by simp
  then obtain m1 where 1: "ReadMem fault_handler (src + of_nat i) 1 m = Inr (None, m1)" "skipped 1 m m1"
    using fault_read Suc.prems(2,3) by blast
  have b: "\<forall>j<k. bad_address (src + of_nat (Suc i + j)) m1"
  proof (intro allI impI)
    fix j assume "j < k"
    then have "bad_address (src + of_nat (i + Suc j)) m" using Suc.prems(1) by (metis Suc_less_eq)
    then show "bad_address (src + of_nat (Suc i + j)) m1" using 1(2) by (simp add: bad_address_def skipped_def)
  qed
  obtain m2 where 2: "copy_from fault_handler k src ch (Suc i) dst m1 = Inr (Suc i + k, dst, m2)" "skipped k m1 m2"
    using Suc.IH [OF b] 1(2) Suc.prems(4) by (auto simp: skipped_def)
  have "skipped (Suc k) m m2" using 1(2) 2(2) by (cases k) (auto simp: skipped_def algebra_simps)
  then show ?case using 1(1) 2(1) Suc.prems(4) by simp
qed

lemma string_arg_bad:
  assumes "\<forall>j<n - 1. bad_address (src + of_nat j) (kcpu s)" "length (registers (kcpu s)) = NumTotalRegs" "reg (kcpu s) LoadReg = 0"
    "0 < n" "n < 2 ^ 32"
  shows "\<exists>m'. string_arg e src n s = Inr (cstr (local_array e (n - 1)), set_cpu m' s) \<and> skipped (n - 1) (kcpu s) m'"
proof -
  have "unat (of_nat n :: 32 word) = n" using assms(5) by (simp add: unat_of_nat)
  then have u: "unat ((of_nat n :: 32 word) - 1) = n - 1" using assms(4) by (simp add: unat_sub word_le_nat_alt)
  obtain m' where m: "copy_from fault_handler (n - 1) src 1 0 (local_array e n) (kcpu s) = Inr (0 + (n - 1), local_array e n, m')" "skipped (n - 1) (kcpu s) m'"
    using copy_from_bad [of "n - 1" src 0 "kcpu s" 1 "local_array e n"] assms(1-3) by auto
  have a: "arr_set (local_array e n) (int (n - 1)) 0 = Inr (local_array e (n - 1) @ [0])"
  proof -
    obtain k where k: "n = Suc k" using assms(4) by (cases n) auto
    then have "local_array e n = local_array e k @ [e_buf e k]" by (simp add: local_array_def)
    then show ?thesis using k by (simp add: list_update_append)
  qed
  have c: "cstr (xs @ [0]) = cstr xs" for xs by (induction xs) auto
  show ?thesis using m a u c by (auto simp: string_arg_def CopyStringFromMachine_def)
qed

text \<open>
  C37 (error): \<^verbatim>\<open>PutString\<close> with an address outside the program. Every byte that cannot be read raises an exception inside the
  kernel, whose handler skips one instruction of the program: the program continues 4095 instructions too far. The
  array of the kernel is never written, so what is printed is what the kernel's stack happened to hold.
\<close>

theorem bad_pointer_leaks:
  assumes "\<forall>j<4095. bad_address (reg (kcpu s) 4 + of_nat j) (kcpu s)" "length (registers (kcpu s)) = NumTotalRegs"
    and "reg (kcpu s) LoadReg = 0" "reg (kcpu s) 2 = 17"
  shows "\<exists>m'. ExceptionHandler e SyscallException s = Inr (Returned, print (cstr (local_array e 4095)) (set_cpu m' s))
     \<and> reg m' PCReg = reg (kcpu s) NextPCReg + 4 * 4095 \<and> reg m' NextPCReg = reg m' PCReg + 4 \<and> mainMemory m' = mainMemory (kcpu s)"
proof -
  obtain m1 where 1: "string_arg e (reg (kcpu s) 4) 4096 s = Inr (cstr (local_array e 4095), set_cpu m1 s)" "skipped 4095 (kcpu s) m1"
    using string_arg_bad [of 4096 "reg (kcpu s) 4" s e] assms(1-3) by auto
  have r: "argument 2 s = Inr 17" "argument 4 s = Inr (reg (kcpu s) 4)" using assms(2,4) by (simp_all add: argument_ok)
  have "syscall_PutString e s = Inr (Returned, print (cstr (local_array e 4095)) (set_cpu m1 s))"
    using 1(1) r(2) by (simp add: syscall_PutString_def)
  then have "ExceptionHandler e SyscallException s = Inr (Returned, print (cstr (local_array e 4095)) (set_cpu (advance m1) s))"
    using r(1) 1(2) by (simp add: ExceptionHandler_def syscall_def back_to_user_returned skipped_def set_cpu_print)
  moreover have "reg (advance m1) PCReg = reg m1 NextPCReg" "reg (advance m1) NextPCReg = reg m1 NextPCReg + 4"
    using 1(2) by (simp_all add: advance_def reg_set_reg skipped_def)
  ultimately show ?thesis using 1(2) by (intro exI [of _ "advance m1"]) (simp add: skipped_def)
qed

section \<open>Data of files\<close>

text \<open>An entry of the table of open files that can be read from, and the bytes a read of \<open>n\<close> bytes takes.\<close>

definition readable :: "int \<Rightarrow> OpenFileEntry \<Rightarrow> int \<Rightarrow> FileSystem \<Rightarrow> bool" where
  "readable i entry n fs \<longleftrightarrow> OpenFileTable_Get i (fileTable fs) = Inr (Some entry) \<and> omode entry = 0x72 \<and> file_ok (hdr (ofile entry))
     \<and> sd_ok (fdisk fs) \<and> 0 \<le> seekPosition (ofile entry) \<and> int32_ok (seekPosition (ofile entry) + n)"

definition next_bytes :: "OpenFileEntry \<Rightarrow> int \<Rightarrow> FileSystem \<Rightarrow> byte list" where
  "next_bytes entry n fs = take (nat n) (drop (nat (seekPosition (ofile entry))) (file_bytes (hdr (ofile entry)) (fdisk fs)))"

lemma sint_le_uint: "sint (w :: 32 word) \<le> uint w"
  using take_bit_int_less_eq_self_iff [of 32 "uint w"] by (simp add: sint_uint signed_take_bit_eq_take_bit_minus)

lemma FileSystem_Read_ok:
  assumes "readable i entry n fs"
  shows "\<exists>fs'. FileSystem_Read i n fs = Inr ((int (length (next_bytes entry n fs)), next_bytes entry n fs), fs') \<and> sector (fdisk fs') = sector (fdisk fs)"
proof -
  obtain sd' where "OpenFile_ReadAt n (seekPosition (ofile entry)) (ofile entry) (fdisk fs) = Inr (next_bytes entry n fs, sd')" "sector sd' = sector (fdisk fs)"
    using ReadAt_ok [of "ofile entry" "fdisk fs" "seekPosition (ofile entry)" n] assms by (auto simp: readable_def next_bytes_def)
  then show ?thesis using assms
    by (simp add: readable_def FileSystem_Read_def OpenFile_Read_def OpenFileEntry_GetMode_def OpenFileEntry_GetOpenFile_def put_file_def)
qed

text \<open>
  C30 (functional): \<^verbatim>\<open>Read\<close> of \<open>n\<close> bytes, from the sectors of the file to the memory of the program. It transfers a string and
  not \<open>n\<close> bytes: of the next \<open>n\<close> bytes of the file the program gets those before the first zero byte, and never the \<open>n\<close>-th one,
  in whose place a zero byte is stored; when the file has fewer than \<open>n - 1\<close> bytes left, bytes of the kernel's stack follow
  them. Register 2 holds the number of bytes read from the file in any case, and the disk is unchanged.
\<close>

theorem read_syscall_data:
  assumes "kcpu s = with_table pt mem m" "length (registers m) = NumTotalRegs" "tlb m = None" "table_good pt"
    and "reg m 2 = 10" "reg m 4 = of_nat va" "0 < sint (reg m 5)" "n = unat (reg m 5)"
    and "readable (sint (reg m 6)) entry (sint (reg m 5)) (kfiles s)" "bs = next_bytes entry (sint (reg m 5)) (kfiles s)"
    and "str = cstr (take (n - 1) (bs @ drop (length bs) (local_array e n)))" "va + length str < PageSize * length pt"
  shows "\<exists>pt' mem' fs. ExceptionHandler e SyscallException s
      = Inr (Returned, set_cpu (with_table pt' mem' (advance (set_reg 2 (of_nat (length bs)) m))) (s\<lparr>kfiles := fs\<rparr>))
     \<and> sector (fdisk fs) = sector (fdisk (kfiles s)) \<and> same_map pt pt' \<and> outside_kept pt mem mem'
     \<and> (\<forall>x<PageSize * length pt. vmem pt mem' x = stored_at va (str @ [0]) (vmem pt mem) x)"
proof -
  let ?src = "bs @ drop (length bs) (local_array e n)"
  have n: "0 < reg m 5" using assms(7) by (metis less_irrefl signed_0 word_gt_0)
  have "nat (sint (reg m 5)) \<le> n" using sint_le_uint [of "reg m 5"] assms(8) by (simp add: nat_le_iff)
  then have "length bs \<le> n" unfolding assms(10) next_bytes_def by simp
  then have l: "n - 1 \<le> length ?src" by simp
  obtain fs where f: "FileSystem_Read (sint (reg m 6)) (sint (reg m 5)) (kfiles s) = Inr ((int (length bs), bs), fs)"
      "sector (fdisk fs) = sector (fdisk (kfiles s))"
    using FileSystem_Read_ok [OF assms(9)] unfolding assms(10) by blast
  obtain pt' mem' where 1: "CopyStringToMachine fault_handler ?src (of_nat va) (reg m 5) (with_table pt mem m) = Inr (with_table pt' mem' m)"
      "same_map pt pt'" "outside_kept pt mem mem'" "\<forall>x<PageSize * length pt. vmem pt mem' x = stored_at va (str @ [0]) (vmem pt mem) x"
    using CopyStringTo_ok [OF assms(3,4) n, of ?src va fault_handler mem] l assms(8,11,12) by blast
  have a: "argument i s = Inr (reg m i)" if "i < NumTotalRegs" for i using argument_ok [OF _ that, of s] assms(1,2) by simp
  let ?s1 = "set_cpu (with_table pt' mem' m) (s\<lparr>kfiles := fs\<rparr>)"
  have "syscall_Read e s = put_result (int (length bs)) ?s1"
    using 1(1) assms(1,7) f(1) a by (simp add: syscall_Read_def string_result_def assms(6,8) [symmetric])
  also have "\<dots> = Inr (Returned, set_cpu (with_table pt' mem' (set_reg 2 (of_nat (length bs)) m)) (s\<lparr>kfiles := fs\<rparr>))"
    using assms(2) by (simp add: put_result_ok) (simp add: with_table_def set_reg_def)
  finally have "ExceptionHandler e SyscallException s
      = back_to_user (Returned, set_cpu (with_table pt' mem' (set_reg 2 (of_nat (length bs)) m)) (s\<lparr>kfiles := fs\<rparr>))"
    using a assms(5) by (simp add: ExceptionHandler_def syscall_def)
  then have "ExceptionHandler e SyscallException s
      = Inr (Returned, set_cpu (with_table pt' mem' (advance (set_reg 2 (of_nat (length bs)) m))) (s\<lparr>kfiles := fs\<rparr>))"
    using assms(2) by (simp add: back_to_user_returned advance_with_table)
  then show ?thesis using 1(2-4) f(2) by blast
qed

text \<open>
  C38 (error): \<^verbatim>\<open>Write\<close> writes nothing. For a file that is open for writing the call leaves the file system as it is; for a file
  that is open for reading it moves the position in the file, by a read whose data is thrown away. In both cases the
  content of the disk is unchanged, and the program is not told: register 2 keeps the number of the call.
\<close>

theorem write_syscall_writes_nothing:
  assumes "kcpu s = with_table pt mem m" "length (registers m) = NumTotalRegs" "tlb m = None" "table_good pt"
    and "reg m 2 = 11" "reg m 4 = of_nat va" "va + min 4095 (length (user_string pt mem va 4095) + 1) \<le> PageSize * length pt"
    and "OpenFileTable_Get (sint (reg m 6)) (fileTable (kfiles s)) = Inr (Some entry)"
    and "omode entry \<noteq> 0x72 \<or> readable (sint (reg m 6)) entry (sint (reg m 5)) (kfiles s) \<and> sint (reg m 5) \<le> 4096"
  shows "\<exists>pt' fs. ExceptionHandler e SyscallException s = Inr (Returned, set_cpu (with_table pt' mem (advance m)) (s\<lparr>kfiles := fs\<rparr>))
     \<and> same_map pt pt' \<and> sector (fdisk fs) = sector (fdisk (kfiles s)) \<and> (omode entry \<noteq> 0x72 \<longrightarrow> fs = kfiles s)"
proof -
  obtain pt' where 1: "string_arg e (of_nat va) 4096 s = Inr (user_string pt mem va 4095, set_cpu (with_table pt' mem m) s)" "same_map pt pt'"
    using string_arg_ok [OF assms(1,3,4), of 4096 va e] assms(7) by auto
  obtain r bs fs where f: "FileSystem_Read (sint (reg m 6)) (sint (reg m 5)) (kfiles s) = Inr ((r, bs), fs)" "length bs \<le> 4096"
      "sector (fdisk fs) = sector (fdisk (kfiles s))" "omode entry \<noteq> 0x72 \<longrightarrow> fs = kfiles s"
  proof (cases "omode entry = 0x72")
    case True
    then have e: "readable (sint (reg m 6)) entry (sint (reg m 5)) (kfiles s)" "sint (reg m 5) \<le> 4096" using assms(9) by auto
    have "length (next_bytes entry (sint (reg m 5)) (kfiles s)) \<le> 4096" unfolding next_bytes_def using e(2) by simp
    then show ?thesis using FileSystem_Read_ok [OF e(1)] that True by blast
  next
    case False
    then have "FileSystem_Read (sint (reg m 6)) (sint (reg m 5)) (kfiles s) = Inr ((-1, []), kfiles s)"
      using assms(8) by (simp add: FileSystem_Read_def OpenFileEntry_GetMode_def)
    then show ?thesis using that by simp
  qed
  have a: "argument i s = Inr (reg m i)" if "i < NumTotalRegs" for i using argument_ok [OF _ that, of s] assms(1,2) by simp
  have u: "(set_cpu m' s)\<lparr>kfiles := fs\<rparr> = set_cpu m' (s\<lparr>kfiles := fs\<rparr>)" for m' by (rule kern.equality) simp_all
  have "syscall_Write e s = Inr (Returned, set_cpu (with_table pt' mem m) (s\<lparr>kfiles := fs\<rparr>))"
    using 1(1) f(1,2) a by (simp add: syscall_Write_def assms(6) u)
  then have "ExceptionHandler e SyscallException s = Inr (Returned, set_cpu (with_table pt' mem (advance m)) (s\<lparr>kfiles := fs\<rparr>))"
    using a assms(2,5) by (simp add: ExceptionHandler_def syscall_def back_to_user_returned advance_with_table)
  then show ?thesis using 1(2) f(3,4) by blast
qed

section \<open>Semaphores\<close>

text \<open>
  The table of the user semaphores. \<^verbatim>\<open>SemCreate\<close> takes the lowest free entry and returns its index, or -1 when
  all 64 are taken. \<^verbatim>\<open>SemPost\<close> and \<^verbatim>\<open>SemWait\<close> refuse (-1) a negative number, one above 64 and a free entry, but read behind the
  table for 64; \<^verbatim>\<open>SemDelete\<close> frees an entry and reads outside the table for every number that is not an index.
\<close>

theorem user_semaphore_table:
  assumes "length (UserSemaphores s) = 64" "length (registers (kcpu s)) = NumTotalRegs" "a = sint (reg (kcpu s) 4)"
  shows "(if None \<in> set (UserSemaphores s)
      then \<exists>i<64. UserSemaphores s ! i = None \<and> (\<forall>j<i. UserSemaphores s ! j \<noteq> None)
         \<and> syscall_SemCreate e s = put_result (int i) (s\<lparr>UserSemaphores := (UserSemaphores s)[i := Some (Semaphore_new a)]\<rparr>)
      else syscall_SemCreate e s = put_result (-1) s)
     \<and> (a = 64 \<longrightarrow> syscall_SemPost e s = Inl OutOfBounds \<and> syscall_SemWait e s = Inl OutOfBounds)
     \<and> (a < 0 \<or> a > 64 \<or> 0 \<le> a \<and> a < 64 \<and> UserSemaphores s ! nat a = None \<longrightarrow>
        syscall_SemPost e s = put_result (-1) s \<and> syscall_SemWait e s = put_result (-1) s)
     \<and> syscall_SemDelete e s
       = (if 0 \<le> a \<and> a < 64 then Inr (Returned, s\<lparr>UserSemaphores := (UserSemaphores s)[nat a := None]\<rparr>) else Inl OutOfBounds)"
  (is "?create \<and> ?other")
proof (intro conjI)
  have r: "argument 4 s = Inr (reg (kcpu s) 4)" using assms(2) by (simp add: argument_ok)
  show ?create
  proof (cases rule: scan_cases [of "\<lambda>p. p = None" "UserSemaphores s"])
    case none
    then have "scan (\<lambda>p. p = None) 0 64 (UserSemaphores s) = Inr (-1)" using assms(1) by simp
    then show ?thesis using r none(2) by (auto simp: syscall_SemCreate_def)
  next
    case (some j)
    then have "None \<in> set (UserSemaphores s)" by (metis nth_mem)
    moreover have "scan (\<lambda>p. p = None) 0 64 (UserSemaphores s) = Inr (int j)" using some(1) assms(1) by simp
    then have "syscall_SemCreate e s = put_result (int j) (s\<lparr>UserSemaphores := (UserSemaphores s)[j := Some (Semaphore_new a)]\<rparr>)"
      using some(2) r assms(3) by (simp add: syscall_SemCreate_def)
    ultimately show ?thesis using some assms(1) by auto
  qed
qed (use assms in \<open>auto simp: argument_ok syscall_SemPost_def syscall_SemWait_def syscall_SemDelete_def find_sem_def store_sem_def arr_get_def\<close>)

section \<open>Processes\<close>

lemma ready_all:
  assumes "\<forall>t\<in>set ts. threads w t \<noteq> None"
  shows "\<exists>th. foldR ReadyToRun ts w = Inr (w\<lparr>threads := th, readyList := readyList w @ ts\<rparr>) \<and> dom th = dom (threads w)
     \<and> (\<forall>t. th t = (if t \<in> set ts then map_option (\<lambda>x. x\<lparr>tstatus := READY\<rparr>) (threads w t) else threads w t))"
  using assms
proof (induction ts arbitrary: w)
  case Nil
  then show ?case by (intro exI [of _ "threads w"]) simp
next
  case (Cons t ts)
  then obtain x where x: "threads w t = Some x" by auto
  let ?w = "w\<lparr>threads := (threads w)(t \<mapsto> x\<lparr>tstatus := READY\<rparr>), readyList := readyList w @ [t]\<rparr>"
  have 1: "ReadyToRun t w = Inr ?w" using x by (simp add: ReadyToRun_def get_thread_def put_thread_def Let_def)
  have "\<forall>u\<in>set ts. threads ?w u \<noteq> None" using Cons.prems by auto
  then obtain th where 2: "foldR ReadyToRun ts ?w = Inr (?w\<lparr>threads := th, readyList := readyList ?w @ ts\<rparr>)" "dom th = dom (threads ?w)"
     "\<forall>u. th u = (if u \<in> set ts then map_option (\<lambda>x. x\<lparr>tstatus := READY\<rparr>) (threads ?w u) else threads ?w u)"
    using Cons.IH by blast
  have "foldR ReadyToRun (t # ts) w = Inr (w\<lparr>threads := th, readyList := readyList w @ t # ts\<rparr>)" using 1 2(1) by simp
  moreover have "dom th = dom (threads w)" using 2(2) x by auto
  moreover have "\<forall>u. th u = (if u \<in> set (t # ts) then map_option (\<lambda>x. x\<lparr>tstatus := READY\<rparr>) (threads w u) else threads w u)"
    using 2(3) x by auto
  ultimately show ?case by blast
qed

lemma current_space_cong:
  "threads w' = threads w \<Longrightarrow> currentThread w' = currentThread w \<Longrightarrow> spaces w' = spaces w \<Longrightarrow> current_space w' = current_space w"
  by (simp add: current_space_def get_thread_def cong: option.case_cong)

lemma waiters_forget: "waiters v (forget ws s) = (if v \<in> set ws then [] else waiters v s)"
proof -
  have "filter (\<lambda>(u, _). u = v) (filter (\<lambda>(u, _). u \<notin> set ws) xs) = (if v \<in> set ws then [] else filter (\<lambda>(u, _). u = v) xs)"
    for xs :: "(wait \<times> tref) list" by (induction xs) auto
  then show ?thesis by (simp add: waiters_def forget_def)
qed

text \<open>Every thread that waits exists.\<close>

definition waiting_ok :: "kern \<Rightarrow> bool" where
  "waiting_ok s \<longleftrightarrow> (\<forall>(w, t)\<in>set (kwaiting s). threads (world (ksched s)) t \<noteq> None)"

lemma broadcast_ok:
  assumes "waiting_ok s"
  shows "\<exists>th. broadcast w s = Inr (forget [w] (set_sched ((world (ksched s))\<lparr>threads := th, readyList := readyList (world (ksched s)) @ waiters w s\<rparr>) s))
     \<and> (\<forall>t. th t = (if t \<in> set (waiters w s) then map_option (\<lambda>x. x\<lparr>tstatus := READY\<rparr>) (threads (world (ksched s)) t) else threads (world (ksched s)) t))"
proof -
  have "\<forall>t\<in>set (waiters w s). threads (world (ksched s)) t \<noteq> None" using assms by (auto simp: waiting_ok_def waiters_def)
  from ready_all [OF this] show ?thesis unfolding broadcast_def by (elim exE conjE) (rule exI, simp)
qed


text \<open>
  \<^verbatim>\<open>WaitPid\<close>. For the number of an active process the caller waits; for one that is not active, and for that of
  the caller's own process, it returns at once, with 1 in both cases. A negative number and every number from 64 on
  make the kernel read outside its tables: the result -1 that the code writes for them is never seen by the program.
\<close>

theorem wait_pid_outcome:
  assumes "current_space (world (ksched s)) = Inr (x, space)" "length (kpids s) = 64" "length (registers (kcpu s)) = NumTotalRegs"
    and "0 \<le> pid space" "pid space < 64" "p = sint (reg (kcpu s) 4)"
  shows "syscall_WaitPid e s =
     (if p < 0 \<or> 64 \<le> p then Inl OutOfBounds
      else if p \<noteq> pid space \<and> kpids s ! nat p \<noteq> 0 then wait_on e (OnPid p) s
      else put_result 1 s)"
proof -
  have a: "argument 4 s = Inr (reg (kcpu s) 4)" using assms(3) by (simp add: argument_ok)
  let ?s1 = "set_cpu (set_reg 2 (word_of_int (-1)) (kcpu s)) s"
  have c: "current_space (world (ksched ?s1)) = Inr (x, space)"
    using assms(1) current_space_cong [of "world (ksched ?s1)" "world (ksched s)"] by simp
  have d: "do_WaitPid e p ?s1 = Inl OutOfBounds" if "p < 0 \<or> 64 \<le> p"
    using that c assms(2,4,5) by (auto simp: do_WaitPid_def arr_get_def)
  have out: "do_WaitPid e p s = Inl OutOfBounds" if "p = 64" using that assms(1,2,5) by (simp add: do_WaitPid_def arr_get_def)
  show ?thesis
  proof (cases "p < 0 \<or> 64 \<le> p")
    case True
    then show ?thesis using a assms(1,3,6) d out put_result_ok [of s "-1"] by (cases "p = 64") (auto simp: syscall_WaitPid_def)
  next
    case False
    have w: "wait_on e w s \<noteq> Inr (Returned, s2)" for w s2 by (auto simp: wait_on_def bindR_def split: sum.splits prod.splits)
    have r: "put_result 1 ?s1 = put_result 1 s" using assms(3) by (simp add: put_result_ok) (simp add: set_reg_def)
    have own: "syscall_WaitPid e s = put_result 1 s" if "p = pid space"
      using that a assms(1,3,6) c r put_result_ok [of s "-1"] by (simp add: syscall_WaitPid_def do_WaitPid_def)
    show ?thesis
    proof (cases "p = pid space")
      case True
      then show ?thesis using own False by simp
    next
      case np: False
      then have "syscall_WaitPid e s = bindR (do_WaitPid e p s) (\<lambda>(r, s2). if r = Returned then put_result 1 s2 else Inr (r, s2))"
        using a assms(1,6) False by (simp add: syscall_WaitPid_def)
      moreover have "do_WaitPid e p s = (if kpids s ! nat p \<noteq> 0 then wait_on e (OnPid p) s else Inr (Returned, s))"
        using np False assms(1,2) by (simp add: do_WaitPid_def arr_get_def)
      ultimately show ?thesis using False np w by (cases "wait_on e (OnPid p) s") auto
    qed
  qed
qed

text \<open>
  \<^verbatim>\<open>ThreadJoin\<close>. Joining oneself and joining a thread that is not alive (also one that has already ended) is
  refused with -1; otherwise the caller waits on the condition of that thread, and its call returns 0 as soon as the
  thread is not in the table any more when it runs again. Joining a live thread whose identifier is above 47 reads
  outside the table of conditions.
\<close>

theorem thread_join_outcome:
  assumes "current_space (world (ksched s)) = Inr (x, a)" "get_thread (kthread s) (world (ksched s)) = Inr th" "ids_ok a"
    and "length (registers (kcpu s)) = NumTotalRegs" "t = reg (kcpu s) 4"
  shows "syscall_ThreadJoin e s =
      (if tid th = sint t \<or> t \<notin> set (live a) then put_result (-1) s
       else if unat t < UserThreadMax then wait_on e (OnThread x t) s else Inl OutOfBounds)
     \<and> resume_wait e (OnThread x u) s =
      (if u \<notin> set (live a) then put_result 0 s
       else if unat u < UserThreadMax then wait_on e (OnThread x u) s else Inl OutOfBounds)"
proof -
  have j: "join_loop e v s = (if v \<notin> set (live a) then Inr None
      else if unat v < UserThreadMax then bindR (wait_on e (OnThread x v) s) (\<lambda>r. Inr (Some r)) else Inl OutOfBounds)" for v
    using assms(1) ContainThreadID_ok [OF assms(3), of v] by (simp add: join_loop_def)
  have b: "bindR (bindR (wait_on e (OnThread x v) s) (\<lambda>r. Inr (Some r))) (\<lambda>r. case r of None \<Rightarrow> put_result 0 s | Some w \<Rightarrow> Inr w)
      = wait_on e (OnThread x v) s" for v
    by (cases "wait_on e (OnThread x v) s") simp_all
  have "syscall_ThreadJoin e s =
      (if tid th = sint t \<or> t \<notin> set (live a) then put_result (-1) s
       else if unat t < UserThreadMax then wait_on e (OnThread x t) s else Inl OutOfBounds)"
    using assms ContainThreadID_ok [OF assms(3), of t] j [of t]
    by (cases "wait_on e (OnThread x t) s") (simp_all add: syscall_ThreadJoin_def do_UserThreadJoin_def argument_ok)
  then show ?thesis using j [of u] b [of u] by (simp add: resume_wait_def)
qed

section \<open>Posting and waiting\<close>

text \<open>No interrupt falls due within the tick at the end of a kernel call.\<close>

definition quiet :: "sched sim \<Rightarrow> bool" where
  "quiet s \<longleftrightarrow> \<not> inHandler s \<and> mstatus s = SystemMode \<and> \<not> yieldOnReturn s
     \<and> (\<forall>q\<in>set (pending s). totalTicks (stats s) + SystemTick < fst q)"

lemma SetLevel_off: "SetLevel fuel k IntOff s = Inr (level s, s\<lparr>level := IntOff\<rparr>)"
  by (simp add: SetLevel_def ChangeLevel_def Let_def)

lemma SetLevel_quiet:
  assumes "quiet s" "level s = IntOff" "0 < fuel"
  shows "\<exists>pd st. SetLevel fuel k IntOn s = Inr (IntOff, s\<lparr>level := IntOn, pending := pd, stats := st\<rparr>)"
proof -
  obtain f where f: "fuel = Suc f" using assms(3) by (cases fuel) auto
  let ?s = "s\<lparr>level := IntOff, stats := (stats s)\<lparr>totalTicks := totalTicks (stats s) + 10, systemTicks := systemTicks (stats s) + 10\<rparr>\<rparr>"
  have u: "s\<lparr>level := IntOn, stats := st, level := IntOff\<rparr> = s\<lparr>level := IntOff, stats := st\<rparr>" for st by simp
  have "\<exists>pd. check_loop fuel k ?s = Inr (?s\<lparr>pending := pd\<rparr>)"
  proof (cases "pending s")
    case Nil
    have "?s\<lparr>pending := []\<rparr> = ?s" using Nil by (cases s) simp
    then show ?thesis using Nil by (intro exI [of _ "[]"]) (simp add: f CheckIfDue_def)
  next
    case (Cons q rest)
    obtain w p where q: "q = (w, p)" by (cases q)
    then have "totalTicks (stats s) + 10 < w" using assms(1) Cons by (simp add: quiet_def)
    then show ?thesis using Cons q by (intro exI [of _ "sorted_insert w p rest"]) (simp add: f CheckIfDue_def Let_def)
  qed
  then obtain pd where pd: "check_loop fuel k ?s = Inr (?s\<lparr>pending := pd\<rparr>)" by blast
  have "OneTick fuel k (s\<lparr>level := IntOn\<rparr>) = Inr (?s\<lparr>pending := pd, level := IntOn\<rparr>)"
    using pd assms(1) by (simp add: OneTick_def advance_time_def ChangeLevel_def quiet_def Let_def u)
  then have "SetLevel fuel k IntOn s = Inr (IntOff, ?s\<lparr>pending := pd, level := IntOn\<rparr>)"
    using assms(1,2) by (simp add: SetLevel_def ChangeLevel_def quiet_def Let_def)
  moreover have "?s\<lparr>pending := pd, level := IntOn\<rparr> = s\<lparr>level := IntOn, pending := pd, stats := stats ?s\<rparr>"
    by (cases s) simp
  ultimately show ?thesis by auto
qed

lemma finish_call_self:
  "length (registers (kcpu s)) = NumTotalRegs \<Longrightarrow> kthread s = self \<Longrightarrow>
     finish_call self (Some v) s = Inr (Returned, set_cpu (set_reg 2 (word_of_int v) (kcpu s)) s)"
  by (simp add: finish_call_def put_result_ok)

lemma store_sem_simps [simp]:
  "ksched (store_sem i p s) = ksched s" "UserSemaphores (store_sem i p s) = (UserSemaphores s)[nat i := p]"
  by (simp_all add: store_sem_def)

lemma find_sem_ok: "length (UserSemaphores s) = 64 \<Longrightarrow> 0 \<le> a \<Longrightarrow> a < 64 \<Longrightarrow> find_sem a s = Inr (UserSemaphores s ! nat a)"
  by (simp add: find_sem_def arr_get_def)

lemma post_ok:
  assumes "quiet (ksched s)" "level (ksched s) = IntOn" "0 < e_fuel e" "length (registers (kcpu s)) = NumTotalRegs"
    and "a = sint (reg (kcpu s) 4)" "find_sem a s = Inr (Some us)" "\<forall>t\<in>set (squeue us). threads (world (ksched s)) t \<noteq> None"
  shows "\<exists>s'. syscall_SemPost e s = Inr (Returned, s') \<and> UserSemaphores s' = (UserSemaphores s)[nat a := Some (snd (Semaphore_V us))]
     \<and> readyList (world (ksched s')) = readyList (world (ksched s)) @ take 1 (squeue us) \<and> reg (kcpu s') 2 = 1 \<and> kthread s' = kthread s"
proof -
  obtain r us' where v: "Semaphore_V us = (r, us')" by (cases "Semaphore_V us")
  define q where "q = take 1 (squeue us)"
  have ts: "(case r of None \<Rightarrow> [] | Some t \<Rightarrow> [t]) = q" using v by (auto simp: q_def Semaphore_V_def split: list.splits)
  have m: "make_ready r w = foldR ReadyToRun q w" for w unfolding ts [symmetric]
    by (cases r) (auto simp: make_ready_def bindR_def split: sum.split)
  have "\<forall>t\<in>set q. threads (world (ksched s)) t \<noteq> None" using assms(7) unfolding q_def by (meson in_set_takeD)
  then obtain th where th: "make_ready r (world (ksched s)) = Inr ((world (ksched s))\<lparr>threads := th, readyList := readyList (world (ksched s)) @ q\<rparr>)"
    using ready_all [of q "world (ksched s)"] m by auto
  define sim where "sim = (ksched s)\<lparr>level := IntOff, world := (world (ksched s))\<lparr>threads := th, readyList := readyList (world (ksched s)) @ q\<rparr>\<rparr>"
  have "quiet sim" "level sim = IntOff" using assms(1) by (simp_all add: sim_def quiet_def)
  from SetLevel_quiet [OF this assms(3)] obtain pd st
    where l: "SetLevel (e_fuel e) (e_hooks e) IntOn sim = Inr (IntOff, sim\<lparr>level := IntOn, pending := pd, stats := st\<rparr>)" by blast
  let ?s1 = "store_sem a (Some us') (s\<lparr>ksched := sim\<lparr>level := IntOn, pending := pd, stats := st\<rparr>\<rparr>)"
  have "argument 4 s = Inr (reg (kcpu s) 4)" using assms(4) by (simp add: argument_ok)
  then have "syscall_SemPost e s = finish_call (kthread s) (Some 1) ?s1"
    using assms(2,6) v th l by (simp add: syscall_SemPost_def SetLevel_off assms(5) sim_def [symmetric])
  also have "\<dots> = Inr (Returned, set_cpu (set_reg 2 1 (kcpu ?s1)) ?s1)"
    using assms(4) finish_call_self [of ?s1 "kthread s" 1] by (simp add: sim_def)
  finally show ?thesis using assms(4) v unfolding q_def [symmetric] by (simp add: sim_def reg_set_reg)
qed

lemma wait_go_ok:
  assumes "quiet (ksched s)" "level (ksched s) = IntOn" "0 < e_fuel e" "length (registers (kcpu s)) = NumTotalRegs"
    and "a = sint (reg (kcpu s) 4)" "find_sem a s = Inr (Some us)" "svalue us \<noteq> 0"
  shows "\<exists>s'. syscall_SemWait e s = Inr (Returned, s') \<and> UserSemaphores s' = (UserSemaphores s)[nat a := Some (us\<lparr>svalue := svalue us - 1\<rparr>)]
     \<and> readyList (world (ksched s')) = readyList (world (ksched s)) \<and> reg (kcpu s') 2 = 1 \<and> kthread s' = kthread s"
proof -
  let ?sim = "(ksched s)\<lparr>level := IntOff\<rparr>"
  have "quiet ?sim" "level ?sim = IntOff" using assms(1) by (simp_all add: quiet_def)
  from SetLevel_quiet [OF this assms(3)] obtain pd st
    where l: "SetLevel (e_fuel e) (e_hooks e) IntOn ?sim = Inr (IntOff, ?sim\<lparr>level := IntOn, pending := pd, stats := st\<rparr>)" by blast
  let ?us = "us\<lparr>svalue := svalue us - 1\<rparr>"
  let ?s1 = "store_sem a (Some ?us) (s\<lparr>ksched := ?sim\<lparr>level := IntOn, pending := pd, stats := st\<rparr>\<rparr>)"
  have "argument 4 s = Inr (reg (kcpu s) 4)" using assms(4) by (simp add: argument_ok)
  then have "syscall_SemWait e s = finish_call (kthread s) (Some 1) ?s1"
    using assms(2,6,7) l by (simp add: syscall_SemWait_def SetLevel_off assms(5) P_loop_def Semaphore_P_def)
  also have "\<dots> = Inr (Returned, set_cpu (set_reg 2 1 (kcpu ?s1)) ?s1)"
    using assms(4) finish_call_self [of ?s1 "kthread s" 1] by simp
  finally show ?thesis using assms(4) by (simp add: reg_set_reg)
qed

lemma wait_sleep_ok:
  assumes "sched_ok (world (ksched s))" "level (ksched s) = IntOn" "0 < e_fuel e"
    and "a = sint (reg (kcpu s) 4)" "find_sem a s = Inr (Some us)" "svalue us = 0" "readyList (world (ksched s)) = n # ts"
  shows "\<exists>w. syscall_SemWait e s
       = bindR (continue_thread (e_fuel e) (e_hooks e) ((ksched s)\<lparr>level := IntOff, world := w\<rparr>)) (\<lambda>s1.
         Inr (Waiting (OnSem a) IntOn, store_sem a (Some (us\<lparr>squeue := squeue us @ [kthread s]\<rparr>)) (s\<lparr>ksched := s1\<rparr>)))
     \<and> sched_ok w \<and> currentThread w = n \<and> readyList w = ts \<and> (\<exists>th. threads w (kthread s) = Some th \<and> tstatus th = BLOCKED)"
proof -
  let ?W = "world (ksched s)" and ?s1 = "(ksched s)\<lparr>level := IntOff\<rparr>"
  have r: "length (registers (kcpu s)) = NumTotalRegs" "threadToBeDestroyed ?W = None" using assms(1) by (auto simp: sched_ok_def heap_ok_def)
  have w0: "world ?s1 = ?W\<lparr>threadToBeDestroyed := (if False then Some (currentThread ?W) else None)\<rparr>" using r(2) by simp
  from blocked_run [OF assms(1,7), of False] obtain w' where w: "switch_to n ((blocked ?W False)\<lparr>readyList := ts\<rparr>) = Inr w'"
      "sched_ok w'" "currentThread w' = n" "readyList w' = ts" "\<exists>th. threads w' (kthread s) = Some th \<and> tstatus th = BLOCKED" by auto
  have "argument 4 s = Inr (reg (kcpu s) 4)" using r(1) by (simp add: argument_ok)
  then have "syscall_SemWait e s = bindR (Sleep (e_fuel e) (e_hooks e) (kthread s) ?s1) (\<lambda>s1.
         Inr (Waiting (OnSem a) IntOn, store_sem a (Some (us\<lparr>squeue := squeue us @ [kthread s]\<rparr>)) (s\<lparr>ksched := s1\<rparr>)))"
    using assms(2,5,6) by (simp add: syscall_SemWait_def SetLevel_off assms(4) P_loop_def Semaphore_P_def store_sem_def)
  then show ?thesis using w(2-5) Sleep_ready [OF assms(1,7) _ assms(3) w0 w(1), of "e_hooks e"] by auto
qed


section \<open>A small machine\<close>

text \<open>
  A program of one page with three threads in the system: 0 runs it, 1 is ready and 2 waits for the process to end. One file is
  open for reading and one for writing, and semaphore 0 has the value \<open>0\<close>.
\<close>

definition demo_files :: FileSystem where
  "demo_files = \<lparr>fdisk = demo_disk, freeMapFile = demo_file, directoryFile = demo_file, curDir = demo_file,
     fileTable = \<lparr>ftable = [Some \<lparr>ofile = demo_file, omode = 0x72, osector = 5\<rparr>, Some \<lparr>ofile = demo_file, omode = 0x77, osector = 6\<rparr>] @ replicate 8 None,
       nbFiles = 2\<rparr>\<rparr>"

definition demo_env :: kenv where
  "demo_env = \<lparr>e_fuel = 3, e_hooks = demo_kernel_hooks,
     e_junk = \<lparr>jbytes = (\<lambda>_. 9), jwords = (\<lambda>_. 5), jentries = (\<lambda>_. blank_entry), jslots = (\<lambda>_. None), jhdr = empty_hdr\<rparr>,
     e_mem = \<lparr>fm_bytes = (\<lambda>_. 7), fm_entry = (\<lambda>_. demo_entry), fm_space = demo_user_space\<rparr>, e_thread = demo_thread JUST_CREATED None,
     e_buf = (\<lambda>_. 88), e_int = 5, e_tref = 9, e_space = 9, e_StartUserThread = 100, e_StartUserProcess = 200, e_rand = (\<lambda>w. (0, w))\<rparr>"

definition demo_cpu :: "32 word list \<Rightarrow> Machine" where
  "demo_cpu xs = demo_machine\<lparr>registers := (replicate 40 0)[2 := xs ! 0, 4 := xs ! 1, 5 := xs ! 2, 6 := xs ! 3, PCReg := 16, NextPCReg := 20], nbProcesses := 2\<rparr>"

definition demo_text :: "nat \<Rightarrow> byte" where
  "demo_text = (\<lambda>_. 0)(392 := 72, 393 := 105)"

definition demo_kern :: "32 word list \<Rightarrow> kern" where
  "demo_kern xs =
     \<lparr>ksched = (Interrupt_new \<lparr>threads = [0 \<mapsto> demo_thread RUNNING (Some 0), 1 \<mapsto> demo_thread READY None, 2 \<mapsto> demo_thread BLOCKED None],
        currentThread = 0, readyList = [1], threadToBeDestroyed = None, spaces = [0 \<mapsto> demo_user_space\<lparr>nbThreads := 1\<rparr>],
        cpu = with_table [demo_entry] demo_text (demo_cpu xs), rootDirectory = None\<rparr>)\<lparr>level := IntOn\<rparr>,
      kfiles = demo_files, kframes = \<lparr>totalFrames = 96, fbitmap = demo_map, bitmapLock = False\<rparr>, krandom = 0, kpids = 1 # replicate 63 0,
      UserSemaphores = Some (Semaphore_new 0) # replicate 63 None, kwaiting = [(OnPid 0, 2)], keyboard_input = [], display = [], kfeof = False\<rparr>"

lemma demo_kern_simps [simp]:
  "kcpu (demo_kern xs) = with_table [demo_entry] demo_text (demo_cpu xs)" "length (registers (demo_cpu xs)) = 40" "tlb (demo_cpu xs) = None"
  "reg (demo_cpu xs) 2 = xs ! 0" "reg (demo_cpu xs) 4 = xs ! 1" "reg (demo_cpu xs) 5 = xs ! 2" "reg (demo_cpu xs) 6 = xs ! 3"
  "kfiles (demo_kern xs) = demo_files" "kthread (demo_kern xs) = 0" "length (UserSemaphores (demo_kern xs)) = 64" "length (kpids (demo_kern xs)) = 64"
  "level (ksched (demo_kern xs)) = IntOn" "readyList (world (ksched (demo_kern xs))) = [1]" "display (demo_kern xs) = []"
  by (simp_all add: demo_kern_def demo_cpu_def demo_machine_def reg_def Interrupt_new_def)

lemma demo_table_good: "table_good [demo_entry]"
  by (simp add: table_good_def table_frames_def demo_entry_def)

lemma demo_string: "user_string [demo_entry] demo_text 8 4095 = [72, 105]"
proof -
  have v: "vmem [demo_entry] demo_text x = demo_text (384 + x)" if "x < 128" for x using that by (simp add: vmem_def phys_def demo_entry_def)
  then have "vmem [demo_entry] demo_text 8 = 72" "vmem [demo_entry] demo_text (Suc 8) = 105" "vmem [demo_entry] demo_text (Suc (Suc 8)) = 0"
    by (simp_all add: v demo_text_def)
  then have "user_string [demo_entry] demo_text 8 (Suc (Suc (Suc 4092))) = [72, 105]" unfolding user_string_Suc by simp
  then show ?thesis by simp
qed

lemma demo_space: "current_space (world (ksched (demo_kern xs))) = Inr (0, demo_user_space\<lparr>nbThreads := 1\<rparr>)"
  by (simp add: current_space_def get_thread_def demo_kern_def Interrupt_new_def demo_thread_def)

lemma demo_sched_ok2: "sched_ok (world (ksched (demo_kern xs)))"
  by (auto simp: sched_ok_def heap_ok_def demo_kern_def Interrupt_new_def thread_ok_def demo_thread_def ready_def with_table_def demo_cpu_def split: if_splits)

lemma demo_waiting: "waiting_ok (demo_kern xs)" "waiters (OnPid 0) (demo_kern xs) = [2]"
  by (simp_all add: waiting_ok_def waiters_def demo_kern_def Interrupt_new_def)

lemma demo_readable: "readable 0 \<lparr>ofile = demo_file, omode = 0x72, osector = 5\<rparr> 4 demo_files"
  using demo_file_ok demo_disk_ok by (simp add: readable_def demo_files_def OpenFileTable_Get_def int32_ok_def demo_file_def)

theorem put_string_syscall_witness:
  "\<exists>m'. ExceptionHandler demo_env SyscallException (demo_kern [17, 8, 0, 0]) = Inr (Returned, print [72, 105] (set_cpu m' (demo_kern [17, 8, 0, 0])))"
  using put_string_syscall [OF _ _ _ demo_table_good, of "demo_kern [17, 8, 0, 0]" demo_text "demo_cpu [17, 8, 0, 0]" 8 demo_env] demo_string by auto

theorem bad_pointer_leaks_witness:
  "\<exists>m'. ExceptionHandler demo_env SyscallException (demo_kern [17, 200, 0, 0])
      = Inr (Returned, print (cstr (replicate 4095 88)) (set_cpu m' (demo_kern [17, 200, 0, 0]))) \<and> reg m' PCReg = 20 + 4 * 4095"
proof -
  have "bad_address (200 + of_nat j) (with_table [demo_entry] demo_text (demo_cpu [17, 200, 0, 0]))" if "j < 4095" for j
  proof -
    have "(200 :: 32 word) + of_nat j = of_nat (200 + j)" by simp
    then have "unat ((200 :: 32 word) + of_nat j) = 200 + j" using that by (simp only: unat_of_nat) simp
    then show ?thesis by (simp add: bad_address_def with_table_def)
  qed
  moreover have "local_array demo_env 4095 = replicate 4095 88" unfolding local_array_def demo_env_def by (simp add: map_replicate_const)
  moreover have "reg (demo_cpu [17, 200, 0, 0]) LoadReg = 0" "reg (demo_cpu [17, 200, 0, 0]) NextPCReg = 20" by (simp_all add: demo_cpu_def reg_def)
  ultimately show ?thesis using bad_pointer_leaks [of "demo_kern [17, 200, 0, 0]" demo_env] by auto
qed

theorem read_syscall_data_witness:
  "\<exists>s'. ExceptionHandler demo_env SyscallException (demo_kern [10, 8, 4, 0]) = Inr (Returned, s') \<and> reg (kcpu s') 2 = 4"
proof -
  let ?e = "\<lparr>ofile = demo_file, omode = 0x72, osector = 5\<rparr>" and ?s = "demo_kern [10, 8, 4, 0]" and ?m = "demo_cpu [10, 8, 4, 0]"
  define bs where "bs = next_bytes ?e 4 demo_files"
  define str where "str = cstr (take (4 - 1) (bs @ drop (length bs) (local_array demo_env 4)))"
  have l: "length bs = 4" using sectors_length(4) [OF demo_file_ok, of demo_disk] by (simp add: bs_def next_bytes_def demo_files_def demo_file_def)
  have "length str \<le> 3" unfolding str_def cstr_def by (rule order_trans [OF length_takeWhile_le]) simp
  then have "\<exists>pt' mem' fs. ExceptionHandler demo_env SyscallException ?s
      = Inr (Returned, set_cpu (with_table pt' mem' (advance (set_reg 2 (of_nat (length bs)) ?m))) (?s\<lparr>kfiles := fs\<rparr>))
     \<and> sector (fdisk fs) = sector (fdisk (kfiles ?s)) \<and> same_map [demo_entry] pt' \<and> outside_kept [demo_entry] demo_text mem'
     \<and> (\<forall>x<PageSize * length [demo_entry]. vmem [demo_entry] mem' x = stored_at 8 (str @ [0]) (vmem [demo_entry] demo_text) x)"
    using demo_readable by (intro read_syscall_data [where n = 4 and entry = ?e]) (simp_all add: demo_table_good bs_def str_def)
  then obtain pt' mem' fs where "ExceptionHandler demo_env SyscallException ?s
      = Inr (Returned, set_cpu (with_table pt' mem' (advance (set_reg 2 (of_nat (length bs)) ?m))) (?s\<lparr>kfiles := fs\<rparr>))" by blast
  then show ?thesis using l by (simp add: advance_def reg_set_reg)
qed

theorem write_syscall_writes_nothing_witness:
  "\<exists>m'. ExceptionHandler demo_env SyscallException (demo_kern [11, 8, 2, 1]) = Inr (Returned, set_cpu m' (demo_kern [11, 8, 2, 1]\<lparr>kfiles := demo_files\<rparr>))"
proof -
  have "OpenFileTable_Get 1 (fileTable demo_files) = Inr (Some \<lparr>ofile = demo_file, omode = 0x77, osector = 6\<rparr>)"
    by (simp add: OpenFileTable_Get_def demo_files_def)
  then show ?thesis
    using write_syscall_writes_nothing [OF _ _ _ demo_table_good, of "demo_kern [11, 8, 2, 1]" demo_text "demo_cpu [11, 8, 2, 1]" 8
        "\<lparr>ofile = demo_file, omode = 0x77, osector = 6\<rparr>" demo_env] demo_string by auto
qed

theorem user_semaphore_table_witness:
  "syscall_SemCreate demo_env (demo_kern [27, 3, 0, 0])
     = put_result 1 ((demo_kern [27, 3, 0, 0])\<lparr>UserSemaphores := [Some (Semaphore_new 0), Some (Semaphore_new 3)] @ replicate 62 None\<rparr>)
   \<and> syscall_SemPost demo_env (demo_kern [28, 64, 0, 0]) = Inl OutOfBounds"
proof -
  let ?s = "demo_kern [27, 3, 0, 0]"
  have u: "UserSemaphores ?s = Some (Semaphore_new 0) # None # replicate 62 None" by (simp add: demo_kern_def numeral_eq_Suc)
  obtain i where i: "i < 64" "UserSemaphores ?s ! i = None" "\<forall>j<i. UserSemaphores ?s ! j \<noteq> None"
     "syscall_SemCreate demo_env ?s = put_result (int i) (?s\<lparr>UserSemaphores := (UserSemaphores ?s)[i := Some (Semaphore_new 3)]\<rparr>)"
    using user_semaphore_table [of ?s 3 demo_env] u by auto
  have "i = 1" using i(2) i(3) [rule_format, of 1] u by (cases "i = 0"; cases "1 < i") auto
  then show ?thesis using i(4) u user_semaphore_table [of "demo_kern [28, 64, 0, 0]" 64 demo_env] by simp
qed


theorem wait_pid_outcome_witness:
  "syscall_WaitPid demo_env (demo_kern [31, 5, 0, 0]) = put_result 1 (demo_kern [31, 5, 0, 0])
   \<and> syscall_WaitPid demo_env (demo_kern [31, 64, 0, 0]) = Inl OutOfBounds"
proof -
  have k: "kpids (demo_kern [31, 5, 0, 0]) ! nat 5 = 0" by (simp add: demo_kern_def)
  have p: "pid (demo_user_space\<lparr>nbThreads := 1\<rparr>) = 0" by (simp add: demo_user_space_def)
  have r: "reg (kcpu (demo_kern [c, v, 0, 0])) 4 = v" "length (registers (kcpu (demo_kern [c, v, 0, 0]))) = 40" for c v by simp_all
  have "syscall_WaitPid demo_env (demo_kern [31, v, 0, 0]) =
     (if sint v < 0 \<or> 64 \<le> sint v then Inl OutOfBounds
      else if sint v \<noteq> 0 \<and> kpids (demo_kern [31, v, 0, 0]) ! nat (sint v) \<noteq> 0 then wait_on demo_env (OnPid (sint v)) (demo_kern [31, v, 0, 0])
      else put_result 1 (demo_kern [31, v, 0, 0]))" for v
    using wait_pid_outcome [OF demo_space [of "[31, v, 0, 0]"] demo_kern_simps(11), where p = "sint v" and e = demo_env] unfolding p r by simp
  from this [of 5] this [of 64] k show ?thesis by simp
qed

theorem thread_join_outcome_witness:
  "syscall_ThreadJoin demo_env (demo_kern [24, 7, 0, 0]) = put_result (-1) (demo_kern [24, 7, 0, 0])"
proof -
  have "ids_ok (demo_user_space\<lparr>nbThreads := 1\<rparr>)" "live (demo_user_space\<lparr>nbThreads := 1\<rparr>) = [1]"
    by (simp_all add: ids_ok_def live_def demo_user_space_def)
  moreover have "get_thread 0 (world (ksched (demo_kern [24, 7, 0, 0]))) = Inr (demo_thread RUNNING (Some 0))"
    by (simp add: get_thread_def demo_kern_def Interrupt_new_def)
  ultimately show ?thesis using thread_join_outcome [OF demo_space [of "[24, 7, 0, 0]"], where t = 7 and e = demo_env and th = "demo_thread RUNNING (Some 0)"] by simp
qed


end
