(* ===== verification/Boot.thy ===== *)
theory Boot
  imports FsTest SyscallSpec Post
begin

text \<open>
  Start-up: the command line and the global objects (\<^verbatim>\<open>Initialize\<close> of \<^verbatim>\<open>threads/system.cc\<close>), the loop of
  \<^verbatim>\<open>threads/main.cc\<close> over the commands, and the console tests of \<^verbatim>\<open>userprog/progtest.cc\<close>. The properties say that the kernel
  starts in a state that satisfies the invariants of the other theories, and what whole command lines do.
\<close>

section \<open>The options of system.cc\<close>

text \<open>Which parts of the code a build has: the preprocessor symbols that \<^verbatim>\<open>system.cc\<close> and \<^verbatim>\<open>main.cc\<close> test.\<close>

record flavour =
  USER_PROGRAM :: bool
  FILESYS_NEEDED :: bool
  FILESYS :: bool
  NETWORK :: bool
  USE_TLB :: bool

text \<open>\<open>rely\<close> and \<open>randomSeed\<close> are the arguments that \<^verbatim>\<open>atof\<close> and \<^verbatim>\<open>RandomInit\<close> get, if any.\<close>

record options =
  debugArgs :: "byte list"
  randomYield :: bool
  randomSeed :: "int option"
  format :: bool
  debugUserProg :: bool
  rely :: "byte list option"
  netname :: int

definition default_options :: options where
  "default_options = \<lparr>debugArgs = [], randomYield = False, randomSeed = None, format = False, debugUserProg = False, rely = None, netname = 0\<rparr>"

text \<open>\<^verbatim>\<open>atoi\<close>: white space, a sign and decimal digits; a number that does not fit is undefined behaviour.\<close>

definition atoi :: "byte list \<Rightarrow> int res" where
  "atoi bs =
     (let cs = dropWhile is_space bs;
          (neg, us) = (case cs of c # r \<Rightarrow> if c = 45 then (True, r) else if c = 43 then (False, r) else (False, cs) | [] \<Rightarrow> (False, []));
          v = int (digits_value 10 (run_digits 10 us)); x = (if neg then - v else v)
      in if int32_ok x then Inr x else Inl SignedOverflow)"

text \<open>
  One iteration of the loop for the argument \<open>a\<close> with the arguments \<open>as\<close> behind it: the new options and \<^verbatim>\<open>argCount\<close>. The
  four tests are separate statements, each of which may set \<^verbatim>\<open>argCount\<close>.
\<close>

definition base_option :: "byte list \<Rightarrow> byte list list \<Rightarrow> options \<Rightarrow> (options \<times> nat) res" where
  "base_option a as p =
     (if a = bytes_of ''-d'' then
        (case as of [] \<Rightarrow> Inr (p\<lparr>debugArgs := bytes_of ''+''\<rparr>, 1) | b # _ \<Rightarrow> Inr (p\<lparr>debugArgs := b\<rparr>, 2))
      else if a = bytes_of ''-rs'' then
        (case as of
           [] \<Rightarrow> Inl AssertFailed
         | b # _ \<Rightarrow> bindR (atoi b) (\<lambda>v. Inr (p\<lparr>randomSeed := Some v, randomYield := True\<rparr>, 2)))
      else Inr (p, 1))"

definition network_option :: "byte list \<Rightarrow> byte list list \<Rightarrow> options \<times> nat \<Rightarrow> (options \<times> nat) res" where
  "network_option a as = (\<lambda>(p, c).
     if a = bytes_of ''-l'' then (case as of [] \<Rightarrow> Inl AssertFailed | b # _ \<Rightarrow> Inr (p\<lparr>rely := Some b\<rparr>, 2))
     else if a = bytes_of ''-m'' then
       (case as of [] \<Rightarrow> Inl AssertFailed | b # _ \<Rightarrow> bindR (atoi b) (\<lambda>v. Inr (p\<lparr>netname := v\<rparr>, 2)))
     else Inr (p, c))"

definition option_step :: "flavour \<Rightarrow> byte list \<Rightarrow> byte list list \<Rightarrow> options \<Rightarrow> (options \<times> nat) res" where
  "option_step fl a as p =
     bindR (base_option a as p) (\<lambda>(p1, c).
     let p2 = (if USER_PROGRAM fl \<and> a = bytes_of ''-s'' then p1\<lparr>debugUserProg := True\<rparr> else p1);
         p3 = (if FILESYS_NEEDED fl \<and> a = bytes_of ''-f'' then p2\<lparr>format := True\<rparr> else p2)
     in if NETWORK fl then network_option a as (p3, c) else Inr (p3, c))"

lemma base_option_count: "base_option a as p = Inr (p', c) \<Longrightarrow> 0 < c"
  by (auto simp: base_option_def bind_iffs split: if_splits list.splits)

lemma network_option_count: "network_option a as (p, c) = Inr (p', c') \<Longrightarrow> 0 < c \<Longrightarrow> 0 < c'"
  by (auto simp: network_option_def bind_iffs split: if_splits list.splits)

lemma option_step_count:
  assumes "option_step fl a as p = Inr (p', c)"
  shows "0 < c"
proof -
  obtain p1 c1 p3 where "base_option a as p = Inr (p1, c1)" "(if NETWORK fl then network_option a as (p3, c1) else Inr (p3, c1)) = Inr (p', c)"
    using assms unfolding option_step_def by (auto simp: bind_iffs Let_def)
  then show ?thesis using base_option_count network_option_count by (cases "NETWORK fl") auto
qed

function init_loop :: "flavour \<Rightarrow> byte list list \<Rightarrow> options \<Rightarrow> options res" where
  "init_loop fl [] p = Inr p"
| "init_loop fl (a # as) p = bindR (option_step fl a as p) (\<lambda>(p1, argCount). init_loop fl (drop argCount (a # as)) p1)"
  by pat_completeness auto
termination by (relation "measure (\<lambda>(_, as, _). length as)") (auto dest!: option_step_count)

section \<open>The global objects\<close>

text \<open>\<^verbatim>\<open>DebugInit\<close> and \<^verbatim>\<open>DebugIsEnabled\<close> (\<^verbatim>\<open>utility.cc\<close>); \<^verbatim>\<open>strchr\<close> also finds the NUL at the end of the flags.\<close>

definition strchr :: "byte list \<Rightarrow> byte \<Rightarrow> bool" where
  "strchr s c \<longleftrightarrow> c \<in> set s \<or> c = 0"

definition DebugInit :: "byte list \<Rightarrow> byte list option" where
  "DebugInit flagList = Some flagList"

definition DebugIsEnabled :: "byte list option \<Rightarrow> byte \<Rightarrow> bool" where
  "DebugIsEnabled enableFlags flag =
     (case enableFlags of None \<Rightarrow> False | Some fs \<Rightarrow> strchr fs flag \<or> strchr fs 0x2B)"

text \<open>
  What the start-up takes from outside: the environment of the kernel, the pseudo-random numbers of the timer, the contents
  of uninitialised memory, what \<^verbatim>\<open>atof\<close> makes of a text (in percent), the file behind the disk, and the characters that will be typed.
  \<open>b_no_machine\<close> stands for the machine before it is created.
\<close>

record boot_env =
  b_env :: kenv
  b_random :: "sched \<Rightarrow> nat \<times> sched"
  b_entries :: "nat \<Rightarrow> TranslationEntry"
  b_pts :: "32 word"
  b_no_machine :: Machine
  b_packet :: PacketHeader
  b_inbox :: "byte list"
  b_worker :: "byte list"
  b_atof :: "byte list \<Rightarrow> int"
  b_disk :: "(nat \<Rightarrow> byte) option"
  b_keys :: "byte list"
  b_seed :: nat

record globals =
  enableFlags :: "byte list option"
  g_kern :: kern
  postOffice :: "PostOffice option"

definition boot_sched :: "boot_env \<Rightarrow> sched" where
  "boot_sched b = \<lparr>threads = Map.empty, currentThread = e_tref (b_env b), readyList = [], threadToBeDestroyed = None, spaces = Map.empty,
     cpu = b_no_machine b, rootDirectory = None\<rparr>"

text \<open>The objects up to \<^verbatim>\<open>interrupt->Enable()\<close>.\<close>

definition start_threads :: "boot_env \<Rightarrow> options \<Rightarrow> sched sim res" where
  "start_threads b p =
     bindR (if randomYield p then Timer_new True (b_random b) 0 (Interrupt_new (boot_sched b)) else Inr (Interrupt_new (boot_sched b))) (\<lambda>s1.
     let t = e_tref (b_env b); th = (Thread_new (e_thread (b_env b)) ''main'' 1 0 (world s1))\<lparr>tstatus := RUNNING\<rparr> in
     Enable (e_fuel (b_env b)) (e_hooks (b_env b)) (s1\<lparr>world := put_thread t th (world s1)\<rparr>))"

text \<open>
  \<^verbatim>\<open>Initialize\<close> in a build with user programs and a file system, with or without the network. The array of user semaphores is
  a global and starts as null pointers; the pointer to the file system is set for the threads created later.
\<close>

definition Initialize :: "flavour \<Rightarrow> boot_env \<Rightarrow> byte list list \<Rightarrow> globals res" where
  "Initialize fl b argv =
     bindR (init_loop fl (tl argv) default_options) (\<lambda>p.
     bindR (start_threads b p) (\<lambda>s.
     bindR (Machine_new (USE_TLB fl) (b_entries b) (b_pts b) (debugUserProg p)) (\<lambda>m.
     bindR (FrameProvider_new (jwords (e_junk (b_env b))) (int NumPhysPages)) (\<lambda>fp.
     bindR (SynchDisk_new (b_disk b) (Interrupt.totalTicks (stats s))) (\<lambda>sd.
     bindR (FileSystem_new (e_junk (b_env b)) (format p) sd) (\<lambda>fs.
     Inr \<lparr>enableFlags = DebugInit (debugArgs p),
          g_kern = \<lparr>ksched = s\<lparr>world := (world s)\<lparr>cpu := m, rootDirectory := Some (directoryFile fs)\<rparr>\<rparr>, kfiles = fs, kframes = fp,
            krandom = b_seed b, kpids = replicate 64 0, UserSemaphores = replicate 64 None, kwaiting = [], keyboard_input = b_keys b,
            display = [], kfeof = False\<rparr>,
          postOffice = (if NETWORK fl then Some (PostOffice_new (b_packet b) (b_inbox b) (b_worker b) (netname p)
              (case rely p of None \<Rightarrow> 100 | Some r \<Rightarrow> b_atof b r) 10) else None)\<rparr>))))))"

section \<open>The console tests\<close>

text \<open>
  The loop of \<^verbatim>\<open>ConsoleTest\<close> and of \<^verbatim>\<open>SynchConsoleTest\<close> over the characters that arrive: what it prints and what it leaves
  unread. It waits for ever when no more characters come. \<^verbatim>\<open>EOF\<close> is the character \<^verbatim>\<open>-1\<close>.
\<close>

fun echo_loop :: "bool \<Rightarrow> byte list \<Rightarrow> (byte list \<times> byte list) res" where
  "echo_loop breakLine [] = Inl WouldBlock"
| "echo_loop breakLine (ch # cs) =
     (let open_text = (if \<not> breakLine then bytes_of ''<'' else []);
          newline = (ch = 10);
          text = open_text @ (if newline then bytes_of ''>'' else []) @ [ch]
      in if ch = 0x71 \<or> ch = 0xFF then Inr (text @ bytes_of ''>'' @ [10], cs)
         else bindR (echo_loop (\<not> newline) cs) (\<lambda>(out, rest). Inr (text @ out, rest)))"

definition SynchConsoleTest :: "kern \<Rightarrow> kern res" where
  "SynchConsoleTest s =
     bindR (echo_loop False (keyboard_input s)) (\<lambda>(out, rest). Inr (s\<lparr>keyboard_input := rest, display := display s @ out\<rparr>))"

text \<open>\<^verbatim>\<open>ConsoleTest\<close> opens a console of its own; \<open>keys\<close> is what arrives there, and the result what it prints.\<close>

definition ConsoleTest :: "byte list \<Rightarrow> byte list res" where
  "ConsoleTest keys = bindR (echo_loop False keys) (\<lambda>(out, _). Inr out)"

section \<open>The commands of main.cc\<close>

text \<open>What the commands write to the standard output.\<close>

datatype shown =
    Copyright
  | Content "byte list"
  | Listing "(byte list \<times> bool \<times> int) list"
  | Dump "(int \<times> int list \<times> byte list) \<times> (int \<times> int list \<times> byte list) \<times> int list \<times> (byte list \<times> bool \<times> int \<times> int \<times> int list \<times> byte list) list"
  | Complaints "perf_message list"

text \<open>
  What the commands take from outside: the environment of the kernel; the memory that the \<open>n\<close>th argument's command allocates; fuel for
  printing; the UNIX files; what is typed at the console of a file; and the test of the network, which runs with other machines
  (theory NetTest).
\<close>

record main_env =
  m_env :: kenv
  m_junk :: "nat \<Rightarrow> nat \<Rightarrow> junk"
  m_fuel :: nat
  m_unix :: "byte list \<Rightarrow> byte list option"
  m_typed :: "byte list option \<Rightarrow> byte list"
  m_TestWait :: "int \<Rightarrow> kern \<Rightarrow> kern res"

text \<open>\<^verbatim>\<open>ASSERT(argc > 1)\<close> and \<^verbatim>\<open>ASSERT(argc > 2)\<close>, and the arguments that follow.\<close>

definition arg1 :: "byte list list \<Rightarrow> byte list res" where
  "arg1 as = (case as of x # _ \<Rightarrow> Inr x | [] \<Rightarrow> Inl AssertFailed)"

definition arg2 :: "byte list list \<Rightarrow> (byte list \<times> byte list) res" where
  "arg2 as = (case as of x # y # _ \<Rightarrow> Inr (x, y) | _ \<Rightarrow> Inl AssertFailed)"

text \<open>How a command ends: with \<^verbatim>\<open>argCount\<close> and the state, or in \<^verbatim>\<open>machine->Run()\<close>, which does not return.\<close>

datatype command_end = Next nat "shown list" kern | Runs kern

definition user_command :: "main_env \<Rightarrow> byte list \<Rightarrow> byte list list \<Rightarrow> kern \<Rightarrow> command_end res" where
  "user_command e a as s =
     (if a = bytes_of ''-x'' then
        bindR (arg1 as) (\<lambda>file.
        bindR (StartProcess (m_env e) file s) (\<lambda>(started, s'). Inr (if started then Runs s' else Next 2 [] s')))
      else if a = bytes_of ''-c'' then
        bindR (if as = [] then ConsoleTest (m_typed e None) else bindR (arg2 as) (\<lambda>(i, _). ConsoleTest (m_typed e (Some i)))) (\<lambda>_. Halt (ksched s))
      else if a = bytes_of ''-sc'' then
        bindR (if as = [] then Inr () else bindR (arg2 as) (\<lambda>_. Inr ())) (\<lambda>_. bindR (SynchConsoleTest s) (\<lambda>s'. Halt (ksched s')))
      else Inr (Next 1 [] s))"

definition with_files :: "(FileSystem \<Rightarrow> ('a \<times> FileSystem) res) \<Rightarrow> ('a \<Rightarrow> shown list) \<Rightarrow> nat \<Rightarrow> kern \<Rightarrow> command_end res" where
  "with_files f out argCount s = bindR (f (kfiles s)) (\<lambda>(r, fs). Inr (Next argCount (out r) (s\<lparr>kfiles := fs\<rparr>)))"

definition quietly :: "'a \<Rightarrow> shown list" where "quietly r = []"

definition file_command :: "main_env \<Rightarrow> (nat \<Rightarrow> junk) \<Rightarrow> nat \<Rightarrow> byte list \<Rightarrow> byte list list \<Rightarrow> kern \<Rightarrow> command_end res" where
  "file_command e js c a as s =
     (if a = bytes_of ''-cp'' then
        bindR (arg2 as) (\<lambda>(u, n). with_files (\<lambda>fs. bindR (Copy js (m_unix e u) n fs) (\<lambda>fs'. Inr ((), fs'))) quietly 3 s)
      else if a = bytes_of ''-p'' then bindR (arg1 as) (\<lambda>n. with_files (Print (js 0) (m_fuel e) n) (\<lambda>bs. [Content bs]) 2 s)
      else if a = bytes_of ''-r'' then bindR (arg1 as) (\<lambda>n. with_files (RemoveFile (js 0) n) quietly 2 s)
      else if a = bytes_of ''-l'' then with_files (FileSystem_List (js 0)) (\<lambda>rows. [Listing rows]) c s
      else if a = bytes_of ''-D'' then with_files (FileSystem_Print (js 0)) (\<lambda>d. [Dump d]) c s
      else if a = bytes_of ''-t'' then with_files (PerformanceTest js) (\<lambda>ms. [Complaints ms]) c s
      else if a = bytes_of ''-rmdir'' then bindR (arg1 as) (\<lambda>n. with_files (RemoveDir (js 0) n) quietly 2 s)
      else if a = bytes_of ''-mkdir'' then bindR (arg1 as) (\<lambda>n. with_files (CreateDir (js 0) n) quietly 2 s)
      else if a = bytes_of ''-touch'' then bindR (arg1 as) (\<lambda>n. with_files (CreateFile (js 0) n 0) quietly 2 s)
      else if a = bytes_of ''-cd'' then
        bindR (arg1 as) (\<lambda>n. with_files (\<lambda>fs. bindR (ChangeCurrentDir (js 0) n fs) (\<lambda>fs'. Inr ((), fs'))) quietly 2 s)
      else Inr (Next c [] s))"

definition network_command :: "main_env \<Rightarrow> nat \<Rightarrow> byte list \<Rightarrow> byte list list \<Rightarrow> kern \<Rightarrow> command_end res" where
  "network_command e c a as s =
     (if a = bytes_of ''-o'' then bindR (arg1 as) (\<lambda>n. bindR (atoi n) (\<lambda>v. bindR (m_TestWait e v s) (\<lambda>s'. Inr (Next 2 [] s'))))
      else Inr (Next c [] s))"

text \<open>The body of the loop: the three groups of tests one after the other.\<close>

definition and_next :: "command_end res \<Rightarrow> (nat \<Rightarrow> shown list \<Rightarrow> kern \<Rightarrow> command_end res) \<Rightarrow> command_end res" where
  "and_next r f = bindR r (\<lambda>x. case x of Runs s \<Rightarrow> Inr (Runs s) | Next c out s \<Rightarrow> f c out s)"

definition main_step :: "flavour \<Rightarrow> main_env \<Rightarrow> (nat \<Rightarrow> junk) \<Rightarrow> byte list \<Rightarrow> byte list list \<Rightarrow> kern \<Rightarrow> command_end res" where
  "main_step fl e js a as s =
     and_next (if USER_PROGRAM fl then user_command e a as s else Inr (Next 1 [] s)) (\<lambda>c1 o1 s1.
     and_next (if FILESYS fl then file_command e js c1 a as s1 else Inr (Next c1 [] s1)) (\<lambda>c2 o2 s2.
     and_next (if NETWORK fl then network_command e c2 a as s2 else Inr (Next c2 [] s2)) (\<lambda>c3 o3 s3.
     Inr (Next c3 ((if a = bytes_of ''-z'' then [Copyright] else []) @ o1 @ o2 @ o3) s3))))"

lemma and_next_simps [simp]: "and_next (Inl e) f = Inl e" "and_next (Inr (Runs s)) f = Inr (Runs s)" "and_next (Inr (Next c out s)) f = f c out s"
  by (simp_all add: and_next_def)

lemma and_next_NextE:
  assumes "and_next r f = Inr (Next n out s')"
  obtains c o1 s1 where "r = Inr (Next c o1 s1)" "f c o1 s1 = Inr (Next n out s')"
proof (cases r)
  case (Inr x)
  then show ?thesis using assms that by (cases x) simp_all
qed (use assms in simp)

text \<open>Every command consumes its argument at least.\<close>

lemma user_command_count: "user_command e a as s = Inr (Next n out s') \<Longrightarrow> 0 < n"
  by (auto simp: user_command_def Halt_def bind_iffs split: if_splits)

lemma with_files_count: "with_files f out c s = Inr (Next n sh s') \<Longrightarrow> n = c"
  by (auto simp: with_files_def bind_iffs)

lemma file_command_count: "0 < c \<Longrightarrow> file_command e js c a as s = Inr (Next n out s') \<Longrightarrow> 0 < n"
  unfolding file_command_def by (auto simp: bind_iffs dest!: with_files_count split: if_splits)

lemma network_command_count: "0 < c \<Longrightarrow> network_command e c a as s = Inr (Next n out s') \<Longrightarrow> 0 < n"
  by (auto simp: network_command_def bind_iffs split: if_splits)

lemma main_step_count:
  assumes "main_step fl e js a as s = Inr (Next n out s')"
  shows "0 < n"
proof -
  from assms obtain c1 o1 s1 c2 o2 s2 where 1: "(if USER_PROGRAM fl then user_command e a as s else Inr (Next 1 [] s)) = Inr (Next c1 o1 s1)"
      and 2: "(if FILESYS fl then file_command e js c1 a as s1 else Inr (Next c1 [] s1)) = Inr (Next c2 o2 s2)"
      and 3: "\<exists>o3. (if NETWORK fl then network_command e c2 a as s2 else Inr (Next c2 [] s2)) = Inr (Next n o3 s')"
    unfolding main_step_def by (elim and_next_NextE) (simp add: command_end.inject)
  have "0 < c1" using 1 user_command_count by (auto split: if_splits)
  then have "0 < c2" using 2 file_command_count by (auto split: if_splits)
  then show ?thesis using 3 network_command_count by (auto split: if_splits)
qed

text \<open>
  The loop; \<open>k\<close> counts the commands. Behind it \<^verbatim>\<open>main\<close> finishes its thread: with no other thread the machine goes idle for good.
\<close>

datatype main_end = Done "shown list" kern | Running "shown list" kern

function main_loop :: "flavour \<Rightarrow> main_env \<Rightarrow> nat \<Rightarrow> byte list list \<Rightarrow> shown list \<Rightarrow> kern \<Rightarrow> main_end res" where
  "main_loop fl e k [] out s = Inr (Done out s)"
| "main_loop fl e k (a # as) out s =
     bindR (main_step fl e (m_junk e k) a as s) (\<lambda>r.
     case r of Runs s' \<Rightarrow> Inr (Running out s')
     | Next argCount sh s' \<Rightarrow> main_loop fl e (Suc k) (drop argCount (a # as)) (out @ sh) s')"
  by pat_completeness auto
termination by (relation "measure (\<lambda>(_, _, _, as, _, _). length as)") (auto dest!: main_step_count)

definition nachos_main :: "flavour \<Rightarrow> boot_env \<Rightarrow> main_env \<Rightarrow> byte list list \<Rightarrow> main_end res" where
  "nachos_main fl b e argv = bindR (Initialize fl b argv) (\<lambda>g. main_loop fl e 0 (tl argv) [] (g_kern g))"

end
