(* ===== verification/BootSpec.thy ===== *)
theory BootSpec
  imports Boot
begin

text \<open>
  What theory Boot's model guarantees: the state that \<^verbatim>\<open>Initialize\<close> builds satisfies the invariants of the scheduler, the frames,
  the file system and the system calls; what a command line means; and a whole run, from formatting the disk to
  printing a file.
\<close>

section \<open>Starting the kernel\<close>

text \<open>
  What the start-up needs: fuel, well-formed memory for new objects, and a disk file that is new or has the magic number. The array
  of the table of open files is not initialised by its constructor, so that its memory has to be zero.
\<close>

definition boot_ready :: "boot_env \<Rightarrow> bool" where
  "boot_ready b \<longleftrightarrow> 0 < e_fuel (b_env b) \<and> junk_ok (e_junk (b_env b)) \<and> jslots (e_junk (b_env b)) = (\<lambda>_. None)
     \<and> length (userRegisters (e_thread (b_env b))) = NumTotalRegs \<and> (\<forall>f. b_disk b = Some f \<longrightarrow> magic_ok f)"

lemma start_threads_ok:
  assumes "0 < e_fuel (b_env b)" "length (userRegisters (e_thread (b_env b))) = NumTotalRegs" "\<not> randomYield p"
  shows "\<exists>s th. start_threads b p = Inr s \<and> level s = IntOn \<and> pending s = [] \<and> \<not> inHandler s \<and> \<not> yieldOnReturn s \<and> mstatus s = SystemMode
     \<and> 0 \<le> Interrupt.totalTicks (stats s) \<and> world s = (boot_sched b)\<lparr>threads := [e_tref (b_env b) \<mapsto> th]\<rparr>
     \<and> tstatus th = RUNNING \<and> stack th = None \<and> tspace th = None \<and> length (userRegisters th) = NumTotalRegs"
proof -
  obtain f where f: "e_fuel (b_env b) = Suc f" using assms(1) by (cases "e_fuel (b_env b)") auto
  show ?thesis using assms(2,3)
    by (simp add: start_threads_def Enable_def SetLevel_def OneTick_def CheckIfDue_def ChangeLevel_def advance_time_def Interrupt_new_def
        Statistics_new_def boot_sched_def Thread_new_def put_thread_def f Let_def ASSERT_def)
      (rule exI, rule conjI, rule refl, simp)
qed

lemma FrameProvider_new_ok:
  "\<exists>fp. FrameProvider_new g (int NumPhysPages) = Inr fp \<and> \<not> bitmapLock fp \<and> BitMap_wf (fbitmap fp) \<and> numBits (fbitmap fp) = totalFrames fp
     \<and> totalFrames fp = int NumPhysPages \<and> used_bits (fbitmap fp) = {0}"
proof -
  obtain bm where "BitMap_new g (int NumPhysPages) = Inr bm" "BitMap_wf bm" "numBits bm = int NumPhysPages" "used_bits bm = {}"
    using new_spec [of "int NumPhysPages" g] by auto
  then show ?thesis using Mark_spec [of bm 0] by (auto simp: FrameProvider_new_def)
qed

lemma SynchDisk_new_ok:
  assumes "boot_ready b" "0 \<le> now"
  shows "\<exists>sd. SynchDisk_new (b_disk b) now = Inr sd \<and> sd_ok sd"
  using assms by (auto simp: boot_ready_def SynchDisk_new_def Disk_new_def sd_ok_def ASSERT_def split: option.split)

text \<open>The file system of a formatted disk.\<close>

lemma FileSystem_new_ok:
  assumes "boot_ready b" "sd_ok sd"
  shows "\<exists>fs. FileSystem_new (e_junk (b_env b)) True sd = Inr fs \<and> fs_ok fs \<and> table_ready fs
     \<and> dir_map (cur_dir fs) = [dot \<mapsto> (1, True), dotdot \<mapsto> (1, True)] \<and> card (free_bits (free_map fs)) = 1019"
proof -
  have j: "junk_ok (e_junk (b_env b))" "jslots (e_junk (b_env b)) = (\<lambda>_. None)" using assms(1) by (simp_all add: boot_ready_def)
  obtain fs where fs: "FileSystem_new (e_junk (b_env b)) True sd = Inr fs" "fs_ok fs"
      "dir_map (cur_dir fs) = [dot \<mapsto> (1, True), dotdot \<mapsto> (1, True)]" "card (free_bits (free_map fs)) = 1019"
    using format_ok [OF j(1) assms(2)] by blast
  have "fileTable fs = empty_table" using fs(1) j(2) by (auto simp: FileSystem_new_def bind_iffs empty_table_def)
  then have "table_ready fs" using empty_table_wf by (simp add: table_ready_def empty_table_def OpenFileTable_new_def)
  then show ?thesis using fs by blast
qed

text \<open>
  The state of a kernel that has just started: one running thread, interrupts on and none pending, every frame but the first
  free, no process, no semaphore, a processor without a page table, and a fresh file system.
\<close>

definition started :: "kern \<Rightarrow> bool" where
  "started s \<longleftrightarrow> sched_ok (world (ksched s)) \<and> quiet (ksched s) \<and> level (ksched s) = IntOn \<and> readyList (world (ksched s)) = []
     \<and> frames_ok (space_kernel s) \<and> free_frames (space_kernel s) = {1..<int NumPhysPages}
     \<and> fs_ok (kfiles s) \<and> table_ready (kfiles s) \<and> dir_map (cur_dir (kfiles s)) = [dot \<mapsto> (1, True), dotdot \<mapsto> (1, True)]
     \<and> card (free_bits (free_map (kfiles s))) = 1019
     \<and> length (registers (kcpu s)) = NumTotalRegs \<and> nbProcesses (kcpu s) = 1 \<and> kpids s = replicate 64 0
     \<and> UserSemaphores s = replicate 64 None \<and> waiting_ok s \<and> display s = []"

lemma Initialize_ok:
  assumes "boot_ready b" "init_loop fl (tl argv) default_options = Inr p" "\<not> randomYield p" "format p"
  shows "\<exists>g. Initialize fl b argv = Inr g \<and> started (g_kern g) \<and> enableFlags g = Some (debugArgs p)
     \<and> (tlb (kcpu (g_kern g)) = None \<longleftrightarrow> \<not> USE_TLB fl) \<and> singleStep (kcpu (g_kern g)) = debugUserProg p
     \<and> keyboard_input (g_kern g) = b_keys b \<and> (postOffice g = None \<longleftrightarrow> \<not> NETWORK fl)"
proof -
  have r: "0 < e_fuel (b_env b)" "length (userRegisters (e_thread (b_env b))) = NumTotalRegs" using assms(1) by (simp_all add: boot_ready_def)
  obtain s th where t: "start_threads b p = Inr s" "level s = IntOn" "pending s = []" "\<not> inHandler s" "\<not> yieldOnReturn s" "mstatus s = SystemMode"
      "0 \<le> Interrupt.totalTicks (stats s)" "world s = (boot_sched b)\<lparr>threads := [e_tref (b_env b) \<mapsto> th]\<rparr>"
      "tstatus th = RUNNING" "stack th = None" "tspace th = None" "length (userRegisters th) = NumTotalRegs"
    using start_threads_ok [OF r assms(3)] by (elim exE conjE) (rule that)
  obtain m where m: "Machine_new (USE_TLB fl) (b_entries b) (b_pts b) (debugUserProg p) = Inr m" "length (registers m) = NumTotalRegs"
      "nbProcesses m = 1" "tlb m = None \<longleftrightarrow> \<not> USE_TLB fl" "singleStep m = debugUserProg p"
    by (simp add: Machine_new_def CheckEndian_def le32_def ASSERT_def)
  obtain fp where fp: "FrameProvider_new (jwords (e_junk (b_env b))) (int NumPhysPages) = Inr fp" "\<not> bitmapLock fp" "BitMap_wf (fbitmap fp)"
      "numBits (fbitmap fp) = totalFrames fp" "totalFrames fp = int NumPhysPages" "used_bits (fbitmap fp) = {0}"
    using FrameProvider_new_ok [of "jwords (e_junk (b_env b))"] by blast
  obtain sd where sd: "SynchDisk_new (b_disk b) (Interrupt.totalTicks (stats s)) = Inr sd" "sd_ok sd" using SynchDisk_new_ok [OF assms(1) t(7)] by blast
  obtain fs where fs: "FileSystem_new (e_junk (b_env b)) True sd = Inr fs" "fs_ok fs" "table_ready fs"
      "dir_map (cur_dir fs) = [dot \<mapsto> (1, True), dotdot \<mapsto> (1, True)]" "card (free_bits (free_map fs)) = 1019"
    using FileSystem_new_ok [OF assms(1) sd(2)] by blast
  let ?w = "(world s)\<lparr>cpu := m, rootDirectory := Some (directoryFile fs)\<rparr>"
  have "sched_ok ?w" using t(8-12) m(2) by (simp add: sched_ok_def heap_ok_def thread_ok_def ready_def boot_sched_def)
  moreover have "{0..<256} - {0::int} = {1..<256}" by auto
  ultimately show ?thesis using assms(2,4) t(1-6,8) m fp sd(1) fs
    by (simp add: Initialize_def started_def quiet_def frames_ok_def free_frames_def free_bits_def space_kernel_def waiting_ok_def boot_sched_def DebugInit_def)
qed

section \<open>The command line\<close>

lemma bytes_of_inject [simp]: "bytes_of a = bytes_of b \<longleftrightarrow> a = b"
proof -
  have "unat (of_char c :: byte) = (of_char c :: nat)" for c
  proof -
    have "(of_char c :: byte) = of_nat (of_char c)" by (cases c) (simp add: of_char_Char)
    moreover have "(of_char c :: nat) < 256" by simp
    ultimately show ?thesis by (simp only: unat_of_nat) (simp add: take_bit_nat_eq_self_iff)
  qed
  then have "inj (of_char :: char \<Rightarrow> byte)" by (metis injI of_char_eq_iff)
  then show ?thesis by (simp add: bytes_of_def inj_map_eq_map)
qed

text \<open>The options as the user means them, the arguments they are written as, and what they change.\<close>

datatype opt = Debug "byte list" | Seed int | SingleStep | FormatDisk | Reliability "byte list" | MachineId int | Other "byte list"

fun opt_args :: "opt \<Rightarrow> byte list list" where
  "opt_args (Debug b) = [bytes_of ''-d'', b]"
| "opt_args (Seed v) = [bytes_of ''-rs'', show_int v]"
| "opt_args SingleStep = [bytes_of ''-s'']"
| "opt_args FormatDisk = [bytes_of ''-f'']"
| "opt_args (Reliability b) = [bytes_of ''-l'', b]"
| "opt_args (MachineId v) = [bytes_of ''-m'', show_int v]"
| "opt_args (Other a) = [a]"

fun set_opt :: "flavour \<Rightarrow> opt \<Rightarrow> options \<Rightarrow> options" where
  "set_opt fl (Debug b) p = p\<lparr>debugArgs := b\<rparr>"
| "set_opt fl (Seed v) p = p\<lparr>randomSeed := Some v, randomYield := True\<rparr>"
| "set_opt fl SingleStep p = (if USER_PROGRAM fl then p\<lparr>debugUserProg := True\<rparr> else p)"
| "set_opt fl FormatDisk p = (if FILESYS_NEEDED fl then p\<lparr>format := True\<rparr> else p)"
| "set_opt fl (Reliability b) p = p\<lparr>rely := Some b\<rparr>"
| "set_opt fl (MachineId v) p = p\<lparr>netname := v\<rparr>"
| "set_opt fl (Other a) p = p"

definition option_flags :: "byte list list" where
  "option_flags = map bytes_of [''-d'', ''-rs'', ''-s'', ''-f'', ''-l'', ''-m'']"

fun opt_ok :: "flavour \<Rightarrow> opt \<Rightarrow> bool" where
  "opt_ok fl (Seed v) = int32_ok v"
| "opt_ok fl (Reliability b) = NETWORK fl"
| "opt_ok fl (MachineId v) = (NETWORK fl \<and> int32_ok v)"
| "opt_ok fl (Other a) = (a \<notin> set option_flags)"
| "opt_ok fl _ = True"

lemma atoi_show_int:
  assumes "int32_ok i"
  shows "atoi (show_int i) = Inr i"
proof -
  have d: "digits_value 10 (run_digits 10 (digits n)) = n" for n
    using digits_spec [of n] run_digits_map [of _ 10 "[]"] by fastforce
  have "dropWhile is_space (show_int i) = show_int i"
    using show_int_chars [of "hd (show_int i)" i] show_int_ne [of i] by (cases "show_int i") auto
  moreover have "\<exists>c r. digits n = c # r \<and> c \<noteq> 45 \<and> c \<noteq> 43" for n
  proof -
    obtain c r where c: "digits n = c # r" using digits_spec [of n] by (cases "digits n") auto
    then have "48 \<le> unat c" using digits_chars [of n] by simp
    then show ?thesis using c by auto
  qed
  then obtain c r where c: "digits (nat i) = c # r" "c \<noteq> 45" "c \<noteq> 43" by blast
  moreover have "digits_value 10 (run_digits 10 (c # r)) = nat i" using d [of "nat i"] c(1) by simp
  ultimately show ?thesis using assms d [of "nat (- i)"] by (cases "i < 0") (simp_all add: atoi_def show_int_def)
qed

lemma option_step_ok:
  assumes "opt_ok fl x"
  shows "\<exists>a as. opt_args x = a # as \<and> option_step fl a (as @ rest) p = Inr (set_opt fl x p, length (opt_args x))"
  using assms by (cases x) (auto simp: option_step_def base_option_def network_option_def atoi_show_int option_flags_def Let_def)

lemma init_loop_prefix:
  assumes "\<forall>x\<in>set xs. opt_ok fl x"
  shows "init_loop fl (concat (map opt_args xs) @ rest) p = init_loop fl rest (fold (set_opt fl) xs p)"
  using assms
proof (induction xs arbitrary: p)
  case (Cons x xs)
  then obtain a as where "opt_args x = a # as"
      "option_step fl a (as @ concat (map opt_args xs) @ rest) p = Inr (set_opt fl x p, length (opt_args x))"
    using option_step_ok [of fl x "concat (map opt_args xs) @ rest" p] by auto
  then show ?case using Cons by simp
qed simp

lemmas init_loop_opts = init_loop_prefix [where rest = "[]", simplified]

section \<open>Commands\<close>

definition command_flags :: "byte list list" where
  "command_flags = map bytes_of [''-z'', ''-x'', ''-c'', ''-sc'', ''-cp'', ''-p'', ''-r'', ''-l'', ''-D'', ''-t'', ''-rmdir'', ''-mkdir'', ''-touch'', ''-cd'', ''-o'']"

lemma main_step_other:
  assumes "a \<notin> set command_flags"
  shows "main_step fl e js a as s = Inr (Next 1 [] s)"
  using assms by (simp add: main_step_def user_command_def file_command_def network_command_def command_flags_def)

lemma main_step_cp:
  assumes "FILESYS fl" "Copy js (m_unix e u) n (kfiles s) = Inr fs"
  shows "main_step fl e js (bytes_of ''-cp'') (u # n # as) s = Inr (Next 3 [] (s\<lparr>kfiles := fs\<rparr>))"
  using assms by (simp add: main_step_def user_command_def file_command_def network_command_def arg2_def with_files_def quietly_def)

lemma main_step_p:
  assumes "FILESYS fl" "Print (js 0) (m_fuel e) n (kfiles s) = Inr (bs, fs)"
  shows "main_step fl e js (bytes_of ''-p'') (n # as) s = Inr (Next 2 [Content bs] (s\<lparr>kfiles := fs\<rparr>))"
  using assms by (simp add: main_step_def user_command_def file_command_def network_command_def arg1_def with_files_def)

text \<open>A line that the console test echoes, and a line that ends the test.\<close>

definition echo_line :: "byte list \<Rightarrow> bool" where
  "echo_line l \<longleftrightarrow> (\<forall>c\<in>set l. c \<noteq> 10 \<and> c \<noteq> 0x71 \<and> c \<noteq> 0xFF)"

lemma echo_inside:
  assumes "echo_line l"
  shows "echo_loop True (l @ cs) = bindR (echo_loop True cs) (\<lambda>(out, rest). Inr (l @ out, rest))"
  using assms
proof (induction l)
  case Nil
  then show ?case by (cases "echo_loop True cs") auto
next
  case (Cons c l)
  then have "c \<noteq> 10" "c \<noteq> 0x71" "c \<noteq> 0xFF" "echo_line l" by (simp_all add: echo_line_def)
  then show ?case using Cons.IH by (cases "echo_loop True cs") (simp_all add: split_beta)
qed

lemma echo_open: "echo_loop False cs = bindR (echo_loop True cs) (\<lambda>(out, rest). Inr (bytes_of ''<'' @ out, rest))"
  by (cases cs) (auto simp: Let_def bindR_def split: sum.split)

lemma echo_one:
  assumes "echo_line l"
  shows "echo_loop False (l @ 10 # cs) = bindR (echo_loop False cs) (\<lambda>(out, rest). Inr (bytes_of ''<'' @ l @ bytes_of ''>'' @ 10 # out, rest))"
  by (cases "echo_loop False cs") (auto simp: echo_open [of "l @ 10 # cs"] echo_inside [OF assms])

section \<open>Properties\<close>


text \<open>An environment to start in: the one of the demonstrations of the system calls, with an empty disk.\<close>

definition demo_boot :: boot_env where
  "demo_boot = \<lparr>b_env = demo_env, b_random = (\<lambda>w. (0, w)), b_entries = (\<lambda>_. demo_entry), b_pts = 0, b_no_machine = demo_machine,
     b_packet = \<lparr>pkt_to = 0, pkt_from = 0, pkt_length = 0\<rparr>, b_inbox = [], b_worker = [], b_atof = (\<lambda>_. 100), b_disk = None, b_keys = [], b_seed = 0\<rparr>"

lemma demo_boot_ready: "boot_ready demo_boot"
proof -
  have "e_junk demo_env = demo_junk" by (simp add: demo_env_def demo_junk_def)
  then show ?thesis using demo_junk_ok by (simp add: boot_ready_def demo_boot_def demo_junk_def demo_env_def demo_thread_def)
qed

definition full_build :: flavour where
  "full_build = \<lparr>USER_PROGRAM = True, FILESYS_NEEDED = True, FILESYS = True, NETWORK = True, USE_TLB = False\<rparr>"


text \<open>
  The command line. Whatever list of options is written on it, in whatever order and with other arguments between them,
  \<^verbatim>\<open>Initialize\<close> sets exactly these options, later ones over earlier ones. The options of the network are only
  recognised in a build that has it.
\<close>

theorem options_parsed:
  assumes "\<forall>x\<in>set xs. opt_ok fl x"
  shows "init_loop fl (concat (map opt_args xs)) p = Inr (fold (set_opt fl) xs p)"
  by (rule init_loop_opts [OF assms])

theorem options_parsed_witness:
  "init_loop full_build [bytes_of ''-f'', bytes_of ''-rs'', show_int 42, bytes_of ''-cp'', bytes_of ''-m'', show_int 3] default_options
     = Inr (default_options\<lparr>format := True, randomSeed := Some 42, randomYield := True, netname := 3\<rparr>)"
  using options_parsed [of "[FormatDisk, Seed 42, Other (bytes_of ''-cp''), MachineId 3]" full_build default_options]
  by (simp add: full_build_def option_flags_def int32_ok_def)

text \<open>
  C13 (functional): a whole run. \<^verbatim>\<open>nachos -f -cp u n -p n\<close> on any disk file formats it, copies the UNIX file \<open>u\<close> to the file \<open>n\<close> and
  prints exactly its content, in every build that has the file system, if the content fits a file and neither name is an option.
\<close>

theorem run_format_copy_print:
  assumes "boot_ready b" "FILESYS_NEEDED fl" "FILESYS fl" "m_unix e u = Some bs" "plain_name n" "name_key n \<noteq> dot" "name_key n \<noteq> dotdot"
    and "u \<notin> set option_flags" "n \<notin> set option_flags" "\<forall>i k. junk_ok (m_junk e i k)" "length bs < m_fuel e"
    and "int32_ok (int (length bs))" "sectors_for (int (length bs)) \<le> NumDirect"
  shows "\<exists>s. nachos_main fl b e [prog, bytes_of ''-f'', bytes_of ''-cp'', u, n, bytes_of ''-p'', n] = Inr (Done [Content bs] s) \<and> fs_ok (kfiles s)"
proof -
  let ?argv = "[prog, bytes_of ''-f'', bytes_of ''-cp'', u, n, bytes_of ''-p'', n]" and ?p = "default_options\<lparr>format := True\<rparr>"
  have i: "init_loop fl (tl ?argv) default_options = Inr ?p"
    using init_loop_opts [of "[FormatDisk, Other (bytes_of ''-cp''), Other u, Other n, Other (bytes_of ''-p''), Other n]" fl default_options] assms(2,8,9)
    by (simp add: option_flags_def)
  have "\<not> randomYield ?p" "format ?p" by (simp_all add: default_options_def)
  then obtain g where g: "Initialize fl b ?argv = Inr g" "started (g_kern g)" using Initialize_ok [OF assms(1) i] by blast
  define s where "s = g_kern g"
  have f: "fs_ok (kfiles s)" "table_ready (kfiles s)" "dir_map (cur_dir (kfiles s)) = [dot \<mapsto> (1, True), dotdot \<mapsto> (1, True)]"
      "card (free_bits (free_map (kfiles s))) = 1019" using g(2) by (simp_all add: started_def s_def)
  have d: "dir_map (cur_dir (kfiles s)) (name_key n) = None" "dir_room (cur_dir (kfiles s))"
    using f(3) assms(6,7) fresh_dir_room [OF f(1,3)] by simp_all
  have j: "\<forall>k. junk_ok (m_junk e (Suc 0) k)" "junk_ok (m_junk e 2 0)" using assms(10) by simp_all
  have l: "sectors_for (int (length bs)) < card (free_bits (free_map (kfiles s)))" using assms(13) f(4) by simp
  obtain sd sec h where c: "Copy (m_junk e (Suc 0)) (Some bs) n (kfiles s) = Inr ((kfiles s)\<lparr>fdisk := sd\<rparr>)" "fs_ok ((kfiles s)\<lparr>fdisk := sd\<rparr>)"
      "dir_map (cur_dir ((kfiles s)\<lparr>fdisk := sd\<rparr>)) = (dir_map (cur_dir (kfiles s)))(name_key n \<mapsto> (sec, False))" "h = FileHdr.dec_header (sector sd sec)" "file_ok h"
      "file_bytes h sd = bs" "insert sec (set (file_sectors h)) \<subseteq> free_bits (free_map (kfiles s))"
    using Copy_ok [OF f(1) j(1) assms(5,12) f(2) d l assms(13)] by (elim exE conjE) (rule that)
  have "sec \<notin> set (open_sectors (fileTable (kfiles s)))" using c(7) f(2) bitmap_alloc.disjoint [of "free_map (kfiles s)"] by (auto simp: table_ready_def)
  moreover have "numBytes h < int (m_fuel e)" using sectors_length(4) [OF c(5), of sd] c(5,6) assms(11) by (simp add: file_ok_def)
  ultimately obtain sd2 where p: "Print (m_junk e 2 0) (m_fuel e) n ((kfiles s)\<lparr>fdisk := sd\<rparr>) = Inr (bs, (kfiles s)\<lparr>fdisk := sd2\<rparr>)" "sd_ok sd2" "sector sd2 = sector sd"
    using Print_ok [OF c(2) j(2) assms(5), of sec False h "m_fuel e"] c(3-6) f(2) by (auto simp: table_ready_def)
  have "fs_ok ((kfiles s)\<lparr>fdisk := sd2\<rparr>)" using fs_ok_same [OF c(2) p(2)] p(3) by simp
  moreover have "main_step fl e (m_junk e 0) (bytes_of ''-f'') [bytes_of ''-cp'', u, n, bytes_of ''-p'', n] s = Inr (Next 1 [] s)"
    by (rule main_step_other) (simp add: command_flags_def)
  moreover have "main_step fl e (m_junk e (Suc 0)) (bytes_of ''-cp'') [u, n, bytes_of ''-p'', n] s = Inr (Next 3 [] (s\<lparr>kfiles := (kfiles s)\<lparr>fdisk := sd\<rparr>\<rparr>))"
    using main_step_cp [OF assms(3)] c(1) assms(4) by simp
  moreover have "main_step fl e (m_junk e (Suc (Suc 0))) (bytes_of ''-p'') [n] (s\<lparr>kfiles := (kfiles s)\<lparr>fdisk := sd\<rparr>\<rparr>)
      = Inr (Next 2 [Content bs] (s\<lparr>kfiles := (kfiles s)\<lparr>fdisk := sd2\<rparr>\<rparr>))"
    using main_step_p [OF assms(3), of "m_junk e 2" e n "s\<lparr>kfiles := (kfiles s)\<lparr>fdisk := sd\<rparr>\<rparr>"] p(1) by (simp add: numeral_2_eq_2)
  ultimately show ?thesis using g(1) by (simp add: nachos_main_def s_def [symmetric])
qed

definition demo_main :: main_env where
  "demo_main = \<lparr>m_env = demo_env, m_junk = (\<lambda>_ _. demo_junk), m_fuel = 4, m_unix = [[117] \<mapsto> [1, 2, 3]], m_typed = (\<lambda>_. []), m_TestWait = (\<lambda>_. Inr)\<rparr>"

theorem run_format_copy_print_witness:
  "\<exists>s. nachos_main full_build demo_boot demo_main [[110], bytes_of ''-f'', bytes_of ''-cp'', [117], [97], bytes_of ''-p'', [97]]
     = Inr (Done [Content [1, 2, 3]] s)"
proof -
  have n: "plain_name [97]" "name_key [97] \<noteq> dot" "name_key [97] \<noteq> dotdot" "sectors_for 3 = 1" "int32_ok 3"
    by (simp_all add: plain_name_def name_key_def dot_def dotdot_def sectors_for_def divRoundUp_pos int32_ok_def)
  have f: "[117] \<notin> set option_flags" "[97] \<notin> set option_flags" by (simp_all add: option_flags_def bytes_of_def)
  show ?thesis
    using run_format_copy_print [OF demo_boot_ready, of full_build demo_main "[117]" "[1, 2, 3]" "[97]" "[110]"] n f demo_junk_ok
    by (auto simp: full_build_def demo_main_def)
qed

text \<open>
  The console tests echo line by line. The lines before the first \<^verbatim>\<open>q\<close> (or end of file) are printed with each
  line in angle brackets; the \<^verbatim>\<open>q\<close> is echoed inside the last brackets, the rest of the input is left unread; and input
  without one leaves the test waiting.
\<close>

theorem console_test_echo:
  assumes "\<forall>l\<in>set (l # ls). echo_line l" "q = 0x71 \<or> q = 0xFF"
  shows "(keyboard_input s = concat (map (\<lambda>l. l @ [10]) ls) @ l @ q # rest \<longrightarrow>
       SynchConsoleTest s = Inr (s\<lparr>keyboard_input := rest,
         display := display s @ concat (map (\<lambda>l. bytes_of ''<'' @ l @ bytes_of ''>'' @ [10]) ls) @ bytes_of ''<'' @ l @ q # bytes_of ''>'' @ [10]\<rparr>))
     \<and> (keyboard_input s = concat (map (\<lambda>l. l @ [10]) ls) @ l \<longrightarrow> SynchConsoleTest s = Inl WouldBlock)"
proof -
  have r: "echo_loop False (concat (map (\<lambda>l. l @ [10]) ls) @ cs)
      = bindR (echo_loop False cs) (\<lambda>(out, rest). Inr (concat (map (\<lambda>l. bytes_of ''<'' @ l @ bytes_of ''>'' @ [10]) ls) @ out, rest))" for cs
    using assms(1)
  proof (induction ls)
    case Nil
    then show ?case by (cases "echo_loop False cs") auto
  next
    case (Cons a ls)
    then have "echo_line a" by simp
    then show ?case using Cons by (cases "echo_loop False cs") (auto simp: echo_one)
  qed
  have l: "echo_line l" using assms(1) by simp
  have "SynchConsoleTest s = Inr (s\<lparr>keyboard_input := rest,
      display := display s @ concat (map (\<lambda>l. bytes_of ''<'' @ l @ bytes_of ''>'' @ [10]) ls) @ bytes_of ''<'' @ l @ q # bytes_of ''>'' @ [10]\<rparr>)"
    if "keyboard_input s = concat (map (\<lambda>l. l @ [10]) ls) @ l @ q # rest"
    using assms(2) by (auto simp: SynchConsoleTest_def that r echo_open [of "l @ q # rest"] echo_inside [OF l] Let_def)
  moreover have "SynchConsoleTest s = Inl WouldBlock" if "keyboard_input s = concat (map (\<lambda>l. l @ [10]) ls) @ l"
    using echo_inside [OF l, of "[]"] by (simp add: SynchConsoleTest_def that r echo_open [of l])
  ultimately show ?thesis by blast
qed

theorem console_test_echo_witness:
  "SynchConsoleTest ((demo_kern [0, 0, 0, 0])\<lparr>keyboard_input := [97, 10, 98, 0x71, 99]\<rparr>)
     = Inr ((demo_kern [0, 0, 0, 0])\<lparr>keyboard_input := [99], display := [60, 97, 62, 10, 60, 98, 0x71, 62, 10]\<rparr>)"
  using console_test_echo [of "[98]" "[[97]]" "0x71" "(demo_kern [0, 0, 0, 0])\<lparr>keyboard_input := [97, 10, 98, 0x71, 99]\<rparr>" "[99]"]
  by (simp add: echo_line_def bytes_of_def)

text \<open>
  One flag with two meanings. In a build with both the network and the file system, \<^verbatim>\<open>-l\<close> at the end of the command line,
  which \<^verbatim>\<open>main\<close> would take as a request to list the directory, stops the kernel during the start-up, where it is the
  reliability of the network without its value.
\<close>

theorem list_flag_aborts:
  assumes "NETWORK fl" "\<forall>x\<in>set xs. opt_ok fl x"
  shows "nachos_main fl b e (prog # concat (map opt_args xs) @ [bytes_of ''-l'']) = Inl AssertFailed"
  using assms(1)
  by (simp add: nachos_main_def Initialize_def init_loop_prefix [OF assms(2)] option_step_def base_option_def network_option_def)

theorem list_flag_aborts_witness:
  "nachos_main full_build demo_boot demo_main [[110], bytes_of ''-f'', bytes_of ''-l''] = Inl AssertFailed"
  using list_flag_aborts [of full_build "[FormatDisk]" demo_boot demo_main "[110]"] by (simp add: full_build_def)

end
