(* ===== verification/ThreadTest.thy ===== *)
theory ThreadTest
  imports BootSpec
begin

text \<open>
  The thread test (\<^verbatim>\<open>threads/threadtest.cc\<close>) and the kernel built with nothing else (\<^verbatim>\<open>-DTHREADS\<close>, \<^verbatim>\<open>threads/main.cc\<close>): three threads
  that print and yield in turns. The property is about the whole run, from the command line until the machine stops.
\<close>

section \<open>Model\<close>

text \<open>The lines on the standard output.\<close>

datatype test_line = Looped int nat | CopyrightLine

text \<open>
  \<open>frames\<close> has, for each thread that is inside \<^verbatim>\<open>SimpleThread\<close> or will be when it first runs, the argument \<^verbatim>\<open>which\<close> and
  the variable \<^verbatim>\<open>num\<close>.
\<close>

record test_state =
  t_sim :: "sched sim"
  frames :: "tref \<Rightarrow> (int \<times> nat) option"

text \<open>What the test takes from outside: fuel and handlers, and where the two threads are allocated, with what that memory holds.\<close>

record test_env =
  x_fuel :: nat
  x_hooks :: "(sched dev_handler, sched) hooks"
  x_main :: tref
  x_t1 :: tref
  x_t2 :: tref
  x_memory :: Thread

text \<open>\<^verbatim>\<open>new Thread\<close> and \<^verbatim>\<open>Fork(SimpleThread, which)\<close>. \<open>func\<close> is the address of \<^verbatim>\<open>SimpleThread\<close>; without user programs nothing but \<^verbatim>\<open>which\<close> is passed.\<close>

definition new_thread :: "tref \<Rightarrow> Thread \<Rightarrow> string \<Rightarrow> int \<Rightarrow> int \<Rightarrow> sched sim \<Rightarrow> sched sim" where
  "new_thread t memory name i s sim = sim\<lparr>world := put_thread t (Thread_new memory name i s (world sim)) (world sim)\<rparr>"

definition fork_simple :: "test_env \<Rightarrow> int \<Rightarrow> tref \<Rightarrow> int \<Rightarrow> test_state \<Rightarrow> test_state res" where
  "fork_simple x func t which st =
     bindR (Fork (x_fuel x) (x_hooks x) t func \<lparr>tp_fun = 0, tp_arg = which, tp_returnFun = 0, tp_space = False\<rparr> (t_sim st)) (\<lambda>sim.
     Inr (st\<lparr>t_sim := sim, frames := (frames st)(t \<mapsto> (which, 0))\<rparr>))"

text \<open>\<^verbatim>\<open>ThreadTest\<close> until the main thread is in \<^verbatim>\<open>SimpleThread(0)\<close>.\<close>

definition ThreadTest :: "test_env \<Rightarrow> int \<Rightarrow> sched sim \<Rightarrow> test_state res" where
  "ThreadTest x func sim =
     (let sim1 = new_thread (x_t1 x) (x_memory x) ''forked thread'' 2 1 sim;
          sim2 = new_thread (x_t2 x) (x_memory x) ''forked thread'' 3 2 sim1
      in bindR (fork_simple x func (x_t1 x) 1 \<lparr>t_sim = sim2, frames = Map.empty\<rparr>) (\<lambda>st1.
         bindR (fork_simple x func (x_t2 x) 2 st1) (\<lambda>st2.
         Inr (st2\<lparr>frames := (frames st2)(x_main x \<mapsto> (0, 0))\<rparr>))))"

text \<open>The loop of \<^verbatim>\<open>main\<close> over the arguments, in a build without commands.\<close>

fun main_args :: "byte list list \<Rightarrow> test_line list" where
  "main_args [] = []"
| "main_args (a # as) = (if a = bytes_of ''-z'' then [CopyrightLine] else []) @ main_args as"

text \<open>
  One turn of the running thread: an iteration of \<^verbatim>\<open>SimpleThread\<close> up to the next thread's return from its own \<^verbatim>\<open>Yield\<close>; or what
  follows the loop, \<^verbatim>\<open>ThreadFinish\<close> for a forked thread and the rest of \<^verbatim>\<open>main\<close> for the main thread. The lines printed come first.
\<close>

definition turn :: "test_env \<Rightarrow> byte list list \<Rightarrow> test_state \<Rightarrow> test_line list \<times> test_state res" where
  "turn x args st =
     (let this = currentThread (world (t_sim st)) in
      case frames st this of
        None \<Rightarrow> ([], Inl NullDeref)
      | Some (which, num) \<Rightarrow>
          if num < 5
          then ([Looped which num],
                bindR (Yield (x_fuel x) (x_hooks x) this (t_sim st)) (\<lambda>sim.
                Inr (st\<lparr>t_sim := sim, frames := (frames st)(this \<mapsto> (which, num + 1))\<rparr>)))
          else (if this = x_main x then main_args args else [],
                bindR (Finish (x_fuel x) (x_hooks x) this (t_sim st)) (\<lambda>sim.
                Inr (st\<lparr>t_sim := sim, frames := (frames st)(this := None)\<rparr>))))"

text \<open>At most \<open>n\<close> turns: everything printed, and how the run ended.\<close>

fun turns :: "nat \<Rightarrow> test_env \<Rightarrow> byte list list \<Rightarrow> test_state \<Rightarrow> test_line list \<times> nachos_error" where
  "turns 0 x args st = ([], OutOfFuel)"
| "turns (Suc n) x args st =
     (let (out, r) = turn x args st in
      case r of Inl e \<Rightarrow> (out, e) | Inr st' \<Rightarrow> let (out', e) = turns n x args st' in (out @ out', e))"

text \<open>\<^verbatim>\<open>main\<close> of the build with \<^verbatim>\<open>THREADS\<close> only.\<close>

definition threads_build :: flavour where
  "threads_build = \<lparr>USER_PROGRAM = False, FILESYS_NEEDED = False, FILESYS = False, NETWORK = False, USE_TLB = False\<rparr>"

definition threads_main :: "boot_env \<Rightarrow> test_env \<Rightarrow> int \<Rightarrow> nat \<Rightarrow> byte list list \<Rightarrow> (test_line list \<times> nachos_error) res" where
  "threads_main b x func n argv =
     bindR (init_loop threads_build (tl argv) default_options) (\<lambda>p.
     bindR (start_threads b p) (\<lambda>sim.
     bindR (ThreadTest x func sim) (\<lambda>st. Inr (turns n x (tl argv) st))))"

section \<open>Yielding with nothing pending\<close>

definition calm :: "sched sim \<Rightarrow> bool" where
  "calm s \<longleftrightarrow> sched_ok (world s) \<and> level s = IntOn \<and> pending s = [] \<and> \<not> inHandler s \<and> \<not> yieldOnReturn s \<and> mstatus s = SystemMode"

lemma SetLevel_calm:
  assumes "calm (s\<lparr>level := IntOn\<rparr>)" "level s = IntOff" "0 < fuel"
  shows "\<exists>st. SetLevel fuel k IntOn s = Inr (IntOff, s\<lparr>level := IntOn, stats := st\<rparr>)"
proof -
  obtain f where "fuel = Suc f" using assms(3) by (cases fuel) auto
  then show ?thesis using assms(1,2)
    by (intro exI [of _ "(stats s)\<lparr>totalTicks := totalTicks (stats s) + 10, systemTicks := systemTicks (stats s) + 10\<rparr>"])
      (simp add: SetLevel_def OneTick_def CheckIfDue_def advance_time_def ChangeLevel_def calm_def Let_def ASSERT_def)
qed

text \<open>A thread that will run with interrupts on when it is chosen: a new one, or one that yielded.\<close>

definition resumable :: "sched \<Rightarrow> tref \<Rightarrow> bool" where
  "resumable w t \<longleftrightarrow> map_option resume (threads w t) \<in> {Some AtStart, Some (InYield IntOn)}"

lemma continue_calm:
  assumes "calm (s\<lparr>level := IntOn\<rparr>)" "level s = IntOff" "0 < fuel" "resumable (world s) (currentThread (world s))"
  shows "\<exists>st. continue_thread fuel k s = Inr (s\<lparr>level := IntOn, stats := st\<rparr>)"
proof -
  obtain th where th: "threads (world s) (currentThread (world s)) = Some th" "resume th \<in> {AtStart, InYield IntOn}"
    using assms(4) by (auto simp: resumable_def)
  obtain st where "SetLevel fuel k IntOn s = Inr (IntOff, s\<lparr>level := IntOn, stats := st\<rparr>)" using SetLevel_calm [OF assms(1-3)] by blast
  then show ?thesis using th by (auto simp: continue_thread_def get_thread_def Enable_def)
qed

text \<open>A thread that yields goes behind the ready ones, and the first of these runs.\<close>

lemma Yield_calm:
  assumes "calm s" "0 < fuel" "\<forall>t\<in>set (readyList (world s)). resumable (world s) t" "c = currentThread (world s)"
  shows "\<exists>s'. Yield fuel k c s = Inr s' \<and> calm s' \<and> currentThread (world s') # readyList (world s') = rotate1 (c # readyList (world s))
     \<and> (\<forall>t. t = c \<or> resumable (world s) t \<longrightarrow> resumable (world s') t)"
proof -
  let ?w = "world s"
  obtain th where th: "threads ?w c = Some th" "thread_ok ?w th" "tstatus th = RUNNING"
    using assms(1,4) by (auto simp: calm_def sched_ok_def heap_ok_def)
  let ?w1 = "?w\<lparr>threads := (threads ?w)(c \<mapsto> th\<lparr>resume := InYield IntOn\<rparr>)\<rparr>"
  let ?s1 = "s\<lparr>level := IntOff, world := ?w1\<rparr>"
  have "heap_ok ?w1" using heap_ok_put [of ?w "th\<lparr>resume := InYield IntOn\<rparr>" c] assms(1,4) th by (simp add: calm_def sched_ok_def)
  moreover have "ready ?w1 = ready ?w" using th by (auto simp: ready_def)
  ultimately have "sched_ok ?w1" using assms(1,4) th by (simp add: calm_def sched_ok_def)
  then obtain w' where w: "yield_body c ?s1 = Inr (?s1\<lparr>world := w'\<rparr>)" "sched_ok w'"
      "currentThread w' # readyList w' = rotate1 (c # readyList ?w)" "\<And>t. map_option resume (threads w' t) = map_option resume (threads ?w1 t)"
    using yield_body_ok [of ?s1] assms(4) by auto
  have r: "resumable w' t" if "t = c \<or> resumable ?w t" for t using that w(4) [of t] by (auto simp: resumable_def)
  have "currentThread w' \<in> set (c # readyList ?w)" using w(3) by (metis list.set_intros(1) set_rotate1)
  then have "resumable w' (currentThread w')" using r assms(3) by auto
  moreover have "calm (?s1\<lparr>world := w', level := IntOn\<rparr>)" using assms(1) w(2) by (simp add: calm_def)
  ultimately obtain st where "continue_thread fuel k (?s1\<lparr>world := w'\<rparr>) = Inr (?s1\<lparr>world := w', level := IntOn, stats := st\<rparr>)"
    using continue_calm [of "?s1\<lparr>world := w'\<rparr>" fuel k] assms(2) by auto
  moreover have "calm (?s1\<lparr>world := w', level := IntOn, stats := st\<rparr>)" using assms(1) w(2) by (simp add: calm_def)
  moreover have "Yield fuel k c s = bindR (yield_body c ?s1) (continue_thread fuel k)"
    using assms(1,4) th(1) by (simp add: Yield_def SetLevel_off set_resume_def get_thread_def put_thread_def calm_def)
  ultimately show ?thesis using w(1,3) r by (intro exI [of _ "?s1\<lparr>world := w', level := IntOn, stats := st\<rparr>"]) simp
qed

text \<open>A thread that finishes is gone; the last one stops the machine.\<close>

lemma Finish_calm:
  assumes "calm s" "0 < fuel" "c = currentThread (world s)" "readyList (world s) = n # ts" "resumable (world s) n"
  shows "\<exists>s'. Finish fuel k c s = Inr s' \<and> calm s' \<and> currentThread (world s') = n \<and> readyList (world s') = ts
     \<and> (\<forall>t. t \<noteq> c \<longrightarrow> resumable (world s) t \<longrightarrow> resumable (world s') t)"
proof -
  let ?w = "world s"
  have ok: "sched_ok ?w" "threadToBeDestroyed ?w = None" using assms(1) by (simp_all add: calm_def sched_ok_def)
  obtain v where v: "switch_to n ((blocked ?w True)\<lparr>readyList := ts\<rparr>) = Inr v" "sched_ok v" "currentThread v = n" "readyList v = ts"
      "\<forall>t. t \<noteq> c \<longrightarrow> t \<noteq> n \<longrightarrow> threads v t = threads ?w t" "map_option resume (threads v n) = map_option resume (threads ?w n)"
    using blocked_run [OF ok(1) assms(4), of True] assms(3) by auto
  let ?s1 = "s\<lparr>level := IntOff, world := ?w\<lparr>threadToBeDestroyed := Some c\<rparr>\<rparr>"
  have "Sleep fuel k c ?s1 = continue_thread fuel k (?s1\<lparr>world := v\<rparr>)"
    using Sleep_ready [OF ok(1) assms(4) _ assms(2) _ v(1), of ?s1 k] assms(3) by simp
  moreover have "Finish fuel k c s = Sleep fuel k c ?s1" using ok(2) assms(3) by (simp add: Finish_def SetLevel_off)
  moreover have r: "resumable v t" if "t \<noteq> c" "resumable ?w t" for t using that v(5,6) by (cases "t = n") (auto simp: resumable_def)
  have "\<exists>st. continue_thread fuel k (?s1\<lparr>world := v\<rparr>) = Inr (?s1\<lparr>world := v, level := IntOn, stats := st\<rparr>)"
    using continue_calm [of "?s1\<lparr>world := v\<rparr>" fuel k] assms(1,2,5) v(2,3,6) by (simp add: calm_def resumable_def)
  then obtain st where "continue_thread fuel k (?s1\<lparr>world := v\<rparr>) = Inr (?s1\<lparr>world := v, level := IntOn, stats := st\<rparr>)" by blast
  moreover have "calm (?s1\<lparr>world := v, level := IntOn, stats := st\<rparr>)" using assms(1) v(2) by (simp add: calm_def)
  ultimately show ?thesis using v(3,4) r by (intro exI [of _ "?s1\<lparr>world := v, level := IntOn, stats := st\<rparr>"]) simp
qed

lemma Finish_last:
  assumes "calm s" "0 < fuel" "c = currentThread (world s)" "readyList (world s) = []"
  shows "Finish fuel k c s = Inl MachineHalted"
proof -
  let ?w = "world s"
  obtain f where f: "fuel = Suc f" using assms(2) by (cases fuel) auto
  obtain th where "threads ?w c = Some th" "threadToBeDestroyed ?w = None" using assms(1,3) by (auto simp: calm_def sched_ok_def)
  moreover have "pending s = []" using assms(1) by (simp add: calm_def)
  ultimately show ?thesis using assms(3,4)
    by (simp add: Finish_def SetLevel_off Sleep_def get_thread_def put_thread_def f FindNextToRun_def Idle_def CheckIfDue_def Halt_def)
qed

section \<open>Turns\<close>

text \<open>The threads \<open>ts\<close> are all there is: the first one runs, the others wait for it to yield.\<close>

definition lined_up :: "sched sim \<Rightarrow> tref list \<Rightarrow> bool" where
  "lined_up s ts \<longleftrightarrow> calm s \<and> currentThread (world s) # readyList (world s) = ts \<and> (\<forall>t\<in>set (tl ts). resumable (world s) t)"

lemma new_thread_ok:
  assumes "lined_up s ts" "threads (world s) t = None" "length (userRegisters mem) = NumTotalRegs"
  shows "lined_up (new_thread t mem nm i a s) ts"
proof -
  let ?th = "Thread_new mem nm i a (world s)" and ?w = "world s"
  have th: "thread_ok ?w ?th" "tstatus ?th = JUST_CREATED" using assms(3) by (simp_all add: Thread_new_def thread_ok_def)
  have ok: "sched_ok ?w" using assms(1) by (simp add: lined_up_def calm_def)
  then have "heap_ok (put_thread t ?th ?w)" using heap_ok_put [of ?w ?th t] th by (simp add: put_thread_def sched_ok_def)
  moreover have "ready (put_thread t ?th ?w) = ready ?w" using th(2) assms(2) by (auto simp: ready_def put_thread_def)
  ultimately have "sched_ok (put_thread t ?th ?w)" using ok assms(2) by (auto simp: sched_ok_def put_thread_def)
  moreover have "resumable (put_thread t ?th ?w) u" if "resumable ?w u" for u
    using that assms(2) by (auto simp: resumable_def put_thread_def)
  ultimately show ?thesis using assms(1) by (auto simp: lined_up_def calm_def new_thread_def put_thread_def)
qed

lemma Fork_ok:
  assumes "lined_up s ts" "0 < fuel" "threads (world s) t = Some th" "tstatus th = JUST_CREATED" "\<not> tp_space params"
  shows "\<exists>s'. Fork fuel k t func params s = Inr s' \<and> lined_up s' (ts @ [t]) \<and> (\<forall>u. u \<noteq> t \<longrightarrow> threads (world s') u = threads (world s) u)"
proof -
  let ?th = "(StackAllocate func params th)\<lparr>tstatus := READY\<rparr>" and ?w = "world s"
  let ?w' = "?w\<lparr>threads := (threads ?w)(t \<mapsto> ?th), readyList := readyList ?w @ [t]\<rparr>"
  let ?s' = "s\<lparr>level := IntOff, world := ?w'\<rparr>"
  have ok: "sched_ok ?w" "level s = IntOn" using assms(1) by (simp_all add: lined_up_def calm_def)
  obtain cur where cur: "threads ?w (currentThread ?w) = Some cur" "tstatus cur = RUNNING" using ok(1) by (auto simp: sched_ok_def)
  have "thread_ok ?w th" using ok(1) assms(3) by (auto simp: sched_ok_def heap_ok_def)
  then have "thread_ok ?w ?th" by (simp add: thread_ok_def StackAllocate_def)
  then have "heap_ok (?w\<lparr>threads := (threads ?w)(t \<mapsto> ?th)\<rparr>)" using heap_ok_put [of ?w ?th t] ok(1) by (simp add: sched_ok_def)
  then have "heap_ok ?w'" by (simp add: heap_ok_def)
  moreover have "ready ?w' = insert t (ready ?w)" "t \<notin> ready ?w" "t \<noteq> currentThread ?w"
    using assms(3,4) cur by (auto simp: ready_def)
  ultimately have ok': "sched_ok ?w'" using ok(1) cur by (auto simp: sched_ok_def)
  have "calm (?s'\<lparr>level := IntOn\<rparr>)" using assms(1) ok' by (simp add: lined_up_def calm_def)
  then obtain st where st: "SetLevel fuel k IntOn ?s' = Inr (IntOff, ?s'\<lparr>level := IntOn, stats := st\<rparr>)"
    using SetLevel_calm [of ?s' fuel k] assms(2) by auto
  have "?w\<lparr>threads := (threads ?w)(t \<mapsto> StackAllocate func params th, t \<mapsto> ?th), readyList := readyList ?w @ [t]\<rparr> = ?w'" by simp
  then have "Fork fuel k t func params s = Inr (?s'\<lparr>level := IntOn, stats := st\<rparr>)"
    using assms(3,5) cur(1) ok(2) st by (simp add: Fork_def fork_thread_def get_thread_def put_thread_def SetLevel_off ReadyToRun_def Let_def)
  moreover have "resumable ?w' u" if "u = t \<or> resumable ?w u" for u
    using that by (auto simp: resumable_def StackAllocate_def)
  ultimately show ?thesis using assms(1) ok' by (intro exI [of _ "?s'\<lparr>level := IntOn, stats := st\<rparr>"]) (auto simp: lined_up_def calm_def)
qed

lemma turn_yield:
  assumes "lined_up (t_sim st) (c # ts)" "0 < x_fuel x" "frames st c = Some (which, num)" "num < 5"
  shows "\<exists>sim. turn x args st = ([Looped which num], Inr (st\<lparr>t_sim := sim, frames := (frames st)(c \<mapsto> (which, num + 1))\<rparr>)) \<and> lined_up sim (ts @ [c])"
proof -
  have l: "calm (t_sim st)" "currentThread (world (t_sim st)) = c" "readyList (world (t_sim st)) = ts" "\<forall>t\<in>set ts. resumable (world (t_sim st)) t"
    using assms(1) by (auto simp: lined_up_def)
  then obtain s' where s: "Yield (x_fuel x) (x_hooks x) c (t_sim st) = Inr s'" "calm s'" "currentThread (world s') # readyList (world s') = ts @ [c]"
      "\<forall>t. t = c \<or> resumable (world (t_sim st)) t \<longrightarrow> resumable (world s') t"
    using Yield_calm [OF l(1) assms(2), of c "x_hooks x"] by auto
  moreover have "set (tl (ts @ [c])) \<subseteq> insert c (set ts)" by (cases ts) auto
  then have "lined_up s' (ts @ [c])" using s(2-4) l(4) by (auto simp: lined_up_def)
  ultimately show ?thesis using assms(3,4) l(2) by (auto simp: turn_def)
qed

lemma turn_finish:
  assumes "lined_up (t_sim st) (c # n # ts)" "0 < x_fuel x" "frames st c = Some (which, 5)" "c \<notin> set ts"
  shows "\<exists>sim. turn x args st = (if c = x_main x then main_args args else [], Inr (st\<lparr>t_sim := sim, frames := (frames st)(c := None)\<rparr>)) \<and> lined_up sim (n # ts)"
proof -
  have l: "calm (t_sim st)" "currentThread (world (t_sim st)) = c" "readyList (world (t_sim st)) = n # ts" "\<forall>t\<in>set (n # ts). resumable (world (t_sim st)) t"
    using assms(1) by (auto simp: lined_up_def)
  then obtain s' where s: "Finish (x_fuel x) (x_hooks x) c (t_sim st) = Inr s'" "calm s'" "currentThread (world s') = n" "readyList (world s') = ts"
      "\<forall>t. t \<noteq> c \<longrightarrow> resumable (world (t_sim st)) t \<longrightarrow> resumable (world s') t"
    using Finish_calm [OF l(1) assms(2) _ l(3), of c "x_hooks x"] by auto
  then have "lined_up s' (n # ts)" using l(4) assms(4) by (auto simp: lined_up_def)
  then show ?thesis using assms(3) l(2) s(1) by (auto simp: turn_def)
qed

lemma turn_last:
  assumes "lined_up (t_sim st) [c]" "0 < x_fuel x" "frames st c = Some (which, 5)"
  shows "turn x args st = (if c = x_main x then main_args args else [], Inl MachineHalted)"
  using assms Finish_last [of "t_sim st" "x_fuel x" c "x_hooks x"] by (auto simp: lined_up_def turn_def)

lemma turns_step: "turn x args st = (out, Inr st') \<Longrightarrow> turns (Suc n) x args st = (out @ fst (turns n x args st'), snd (turns n x args st'))"
  by (simp add: split_beta)

text \<open>The threads of \<open>ps\<close> in line, each with its argument, all in iteration \<open>num\<close>; in one round each of them prints its line.\<close>

definition in_round :: "(tref \<times> int) list \<Rightarrow> (tref \<times> int) list \<Rightarrow> nat \<Rightarrow> test_state \<Rightarrow> bool" where
  "in_round ps qs num st \<longleftrightarrow> distinct (map fst (ps @ qs)) \<and> lined_up (t_sim st) (map fst (ps @ qs))
     \<and> (\<forall>p\<in>set ps. frames st (fst p) = Some (snd p, num)) \<and> (\<forall>p\<in>set qs. frames st (fst p) = Some (snd p, num + 1))"

lemma one_round:
  assumes "in_round ps qs num st" "num < 5" "0 < x_fuel x"
  shows "\<exists>st'. in_round (qs @ ps) [] (num + 1) st'
     \<and> turns (length ps + n) x args st = (map (\<lambda>(_, which). Looped which num) ps @ fst (turns n x args st'), snd (turns n x args st'))"
  using assms(1)
proof (induction ps arbitrary: qs st)
  case Nil
  then show ?case by (intro exI [of _ st]) (simp add: in_round_def)
next
  case (Cons p ps)
  obtain t w where p: "p = (t, w)" by (cases p)
  have "lined_up (t_sim st) (t # map fst (ps @ qs))" "frames st t = Some (w, num)" using Cons.prems p by (simp_all add: in_round_def)
  from turn_yield [OF this(1) assms(3) this(2) assms(2)] obtain sim where s: "lined_up sim (map fst (ps @ qs) @ [t])"
      "turn x args st = ([Looped w num], Inr (st\<lparr>t_sim := sim, frames := (frames st)(t \<mapsto> (w, num + 1))\<rparr>))" (is "_ = (_, Inr ?st)") by blast
  have "\<forall>r\<in>set (ps @ qs). fst r \<noteq> t" using Cons.prems p by (auto simp: in_round_def)
  then have "in_round ps (qs @ [(t, w)]) num ?st" using Cons.prems p s(1) by (auto simp: in_round_def)
  from Cons.IH [OF this] obtain st' where "in_round ((qs @ [(t, w)]) @ ps) [] (num + 1) st'"
      "turns (length ps + n) x args ?st = (map (\<lambda>(_, which). Looped which num) ps @ fst (turns n x args st'), snd (turns n x args st'))" by blast
  then show ?case using turns_step [OF s(2), of "length ps + n"] p by (intro exI [of _ st']) simp
qed

lemma all_rounds:
  assumes "0 < x_fuel x"
  shows "in_round ps [] num st \<Longrightarrow> num + r = 5 \<Longrightarrow>
     \<exists>st'. in_round ps [] 5 st'
     \<and> turns (r * length ps + n) x args st
       = (concat (map (\<lambda>i. map (\<lambda>(_, which). Looped which i) ps) [num..<5]) @ fst (turns n x args st'), snd (turns n x args st'))"
proof (induction r arbitrary: num st)
  case 0
  then show ?case by (intro exI [of _ st]) simp
next
  case (Suc r)
  obtain st1 where 1: "in_round ps [] (num + 1) st1" "turns (length ps + (r * length ps + n)) x args st
      = (map (\<lambda>(_, which). Looped which num) ps @ fst (turns (r * length ps + n) x args st1), snd (turns (r * length ps + n) x args st1))"
    using one_round [OF Suc.prems(1) _ assms, of "r * length ps + n" args] Suc.prems(2) by auto
  from Suc.IH [OF 1(1)] Suc.prems(2) obtain st' where 2: "in_round ps [] 5 st'" "turns (r * length ps + n) x args st1
      = (concat (map (\<lambda>i. map (\<lambda>(_, which). Looped which i) ps) [num + 1..<5]) @ fst (turns n x args st'), snd (turns n x args st'))" by auto
  have "[num..<5] = num # [num + 1..<5]" using Suc.prems(2) by (simp add: upt_conv_Cons)
  then show ?case using 1(2) 2 by (intro exI [of _ st']) (simp add: add.assoc)
qed

text \<open>At the end the threads finish one by one.\<close>

lemma all_finish:
  assumes "0 < x_fuel x"
  shows "in_round (p # ps) [] 5 st \<Longrightarrow> x_main x \<notin> fst ` set ps \<Longrightarrow>
     turns (Suc (length ps + n)) x args st = (if fst p = x_main x then main_args args else [], MachineHalted)"
proof (induction ps arbitrary: p st)
  case Nil
  obtain t w where p: "p = (t, w)" by (cases p)
  have "turn x args st = (if t = x_main x then main_args args else [], Inl MachineHalted)"
    using Nil.prems(1) p turn_last [OF _ assms, of st t w args] by (simp add: in_round_def)
  then show ?case using p by simp
next
  case (Cons q ps)
  obtain t w u v where p: "p = (t, w)" "q = (u, v)" by (cases p, cases q)
  have "lined_up (t_sim st) (t # u # map fst ps)" "frames st t = Some (w, 5)" "t \<notin> set (map fst ps)" using Cons.prems p by (simp_all add: in_round_def)
  from turn_finish [OF this(1) assms this(2,3)] obtain sim where s: "lined_up sim (u # map fst ps)"
      "turn x args st = (if t = x_main x then main_args args else [], Inr (st\<lparr>t_sim := sim, frames := (frames st)(t := None)\<rparr>))" (is "_ = (_, Inr ?st)") by blast
  have "\<forall>r\<in>set (q # ps). fst r \<noteq> t" using Cons.prems p by (auto simp: in_round_def)
  then have "in_round (q # ps) [] 5 ?st" using Cons.prems(1) p s(1) by (auto simp: in_round_def)
  then have "turns (Suc (length ps + n)) x args ?st = ([], MachineHalted)" using Cons.IH [of q ?st] Cons.prems(2) p by auto
  then show ?case using turns_step [OF s(2), of "Suc (length ps + n)"] p by simp
qed

section \<open>Properties\<close>

text \<open>What the test needs: fuel, memory for three different threads, and no random context switches.\<close>

definition test_ready :: "boot_env \<Rightarrow> test_env \<Rightarrow> bool" where
  "test_ready b x \<longleftrightarrow> 0 < e_fuel (b_env b) \<and> 0 < x_fuel x \<and> x_main x = e_tref (b_env b) \<and> distinct [x_main x, x_t1 x, x_t2 x]
     \<and> length (userRegisters (e_thread (b_env b))) = NumTotalRegs \<and> length (userRegisters (x_memory x)) = NumTotalRegs
     \<and> length (registers (b_no_machine b)) = NumTotalRegs"

lemma ThreadTest_ok:
  assumes "test_ready b x" "lined_up sim [x_main x]" "dom (threads (world sim)) = {x_main x}"
  shows "\<exists>st. ThreadTest x func sim = Inr st \<and> in_round [(x_main x, 0), (x_t1 x, 1), (x_t2 x, 2)] [] 0 st"
proof -
  have d: "distinct [x_main x, x_t1 x, x_t2 x]" "length (userRegisters (x_memory x)) = NumTotalRegs" "0 < x_fuel x" using assms(1) by (simp_all add: test_ready_def)
  have n: "threads (world sim) (x_t1 x) = None" "threads (world sim) (x_t2 x) = None"
    using domIff [of "x_t1 x" "threads (world sim)"] domIff [of "x_t2 x" "threads (world sim)"] assms(3) d(1) by simp_all
  let ?s1 = "new_thread (x_t1 x) (x_memory x) ''forked thread'' 2 1 sim"
  let ?s2 = "new_thread (x_t2 x) (x_memory x) ''forked thread'' 3 2 ?s1"
  have "threads (world ?s1) (x_t2 x) = None" using n(2) d(1) by (auto simp: new_thread_def put_thread_def)
  then have l2: "lined_up ?s2 [x_main x]" using new_thread_ok [OF new_thread_ok [OF assms(2) n(1) d(2)] _ d(2)] by simp
  obtain th1 th2 where th: "threads (world ?s2) (x_t1 x) = Some th1" "tstatus th1 = JUST_CREATED"
      "threads (world ?s2) (x_t2 x) = Some th2" "tstatus th2 = JUST_CREATED"
    using d(1) by (auto simp: new_thread_def put_thread_def Thread_new_def)
  let ?p = "\<lambda>i. \<lparr>tp_fun = 0, tp_arg = i, tp_returnFun = 0, tp_space = False\<rparr>"
  obtain s3 where s3: "Fork (x_fuel x) (x_hooks x) (x_t1 x) func (?p 1) ?s2 = Inr s3" "lined_up s3 ([x_main x] @ [x_t1 x])"
      "\<forall>u. u \<noteq> x_t1 x \<longrightarrow> threads (world s3) u = threads (world ?s2) u"
    using Fork_ok [OF l2 d(3) th(1,2), of "?p 1" "x_hooks x" func] by auto
  then have t2: "threads (world s3) (x_t2 x) = Some th2" using th(3) d(1) by auto
  obtain s4 where s4: "Fork (x_fuel x) (x_hooks x) (x_t2 x) func (?p 2) s3 = Inr s4" "lined_up s4 (([x_main x] @ [x_t1 x]) @ [x_t2 x])"
    using Fork_ok [OF s3(2) d(3) t2 th(4), of "?p 2" "x_hooks x" func] by auto
  show ?thesis using s3(1) s4 d(1) by (auto simp: ThreadTest_def fork_simple_def in_round_def Let_def)
qed

text \<open>
  C34 (functional): the thread test. Whatever the options other than random switching, the kernel built for it prints the
  lines of the three threads in strict rotation, five rounds of them, then the copyright once for every \<^verbatim>\<open>-z\<close>, and then the machine
  stops because no thread is left; eighteen turns are enough.
\<close>

theorem thread_test_output:
  assumes "test_ready b x" "init_loop threads_build (tl argv) default_options = Inr p" "\<not> randomYield p"
  shows "threads_main b x func (18 + n) argv
     = Inr (concat (map (\<lambda>i. [Looped 0 i, Looped 1 i, Looped 2 i]) [0..<5]) @ main_args (tl argv), MachineHalted)"
proof -
  have e: "0 < e_fuel (b_env b)" "length (userRegisters (e_thread (b_env b))) = NumTotalRegs" "0 < x_fuel x" using assms(1) by (simp_all add: test_ready_def)
  obtain s th where t: "start_threads b p = Inr s" "level s = IntOn" "pending s = []" "\<not> inHandler s" "\<not> yieldOnReturn s" "mstatus s = SystemMode"
      "0 \<le> Interrupt.totalTicks (stats s)" "world s = (boot_sched b)\<lparr>threads := [e_tref (b_env b) \<mapsto> th]\<rparr>"
      "tstatus th = RUNNING" "stack th = None" "tspace th = None" "length (userRegisters th) = NumTotalRegs"
    using start_threads_ok [OF e(1,2) assms(3)] by (elim exE conjE) (rule that)
  have m: "x_main x = e_tref (b_env b)" "length (registers (b_no_machine b)) = NumTotalRegs" using assms(1) by (simp_all add: test_ready_def)
  have "sched_ok (world s)" using t(8-12) m(2) by (simp add: sched_ok_def heap_ok_def thread_ok_def ready_def boot_sched_def)
  then have "lined_up s [x_main x]" using t(2-6,8) m(1) by (simp add: lined_up_def calm_def boot_sched_def)
  moreover have "dom (threads (world s)) = {x_main x}" using t(8) m(1) by simp
  ultimately obtain st where st: "ThreadTest x func s = Inr st" "in_round [(x_main x, 0), (x_t1 x, 1), (x_t2 x, 2)] [] 0 st"
    using ThreadTest_ok [OF assms(1), of s func] by blast
  obtain st' where st': "in_round [(x_main x, 0), (x_t1 x, 1), (x_t2 x, 2)] [] 5 st'"
      "turns (18 + n) x (tl argv) st = (concat (map (\<lambda>i. [Looped 0 i, Looped 1 i, Looped 2 i]) [0..<5]) @ fst (turns (3 + n) x (tl argv) st'), snd (turns (3 + n) x (tl argv) st'))"
    using all_rounds [OF e(3) st(2), of 5 "3 + n" "tl argv"] by auto
  have "x_main x \<notin> fst ` set [(x_t1 x, 1::int), (x_t2 x, 2)]" using assms(1) by (simp add: test_ready_def)
  from all_finish [OF e(3) st'(1) this, of n "tl argv"] have "turns (3 + n) x (tl argv) st' = (main_args (tl argv), MachineHalted)"
    by (simp add: numeral_3_eq_3)
  then show ?thesis using assms(2) t(1) st(1) st'(2) by (simp add: threads_main_def)
qed

definition demo_test :: test_env where
  "demo_test = \<lparr>x_fuel = 1, x_hooks = demo_kernel_hooks, x_main = e_tref (b_env demo_boot), x_t1 = Suc (e_tref (b_env demo_boot)),
     x_t2 = Suc (Suc (e_tref (b_env demo_boot))), x_memory = demo_thread BLOCKED None\<rparr>"

theorem thread_test_output_witness:
  "threads_main demo_boot demo_test 0 18 [bytes_of ''nachos'', bytes_of ''-z'']
     = Inr ([Looped 0 0, Looped 1 0, Looped 2 0, Looped 0 1, Looped 1 1, Looped 2 1, Looped 0 2, Looped 1 2, Looped 2 2,
             Looped 0 3, Looped 1 3, Looped 2 3, Looped 0 4, Looped 1 4, Looped 2 4, CopyrightLine], MachineHalted)"
proof -
  have "init_loop threads_build (tl [bytes_of ''nachos'', bytes_of ''-z'']) default_options = Inr default_options"
    using init_loop_opts [of "[Other (bytes_of ''-z'')]" threads_build default_options] by (simp add: option_flags_def)
  moreover have "test_ready demo_boot demo_test"
    by (simp add: test_ready_def demo_test_def demo_boot_def demo_env_def demo_thread_def demo_machine_def)
  ultimately show ?thesis using thread_test_output [of demo_boot demo_test "[bytes_of ''nachos'', bytes_of ''-z'']" default_options 0 0]
    by (simp add: default_options_def upt_conv_Cons eval_nat_numeral)
qed

end
