(* ===== verification/Execute.thy ===== *)
theory Execute
  imports MipsBehaviour
begin

unbundle bit_operations_syntax

text \<open>
  \<^verbatim>\<open>bin/execute.c\<close>, with the macros of \<^verbatim>\<open>instr.h\<close> and \<^verbatim>\<open>int.h\<close>: a second interpreter for MIPS instructions, which runs a program in a
  flat memory without address translation, exceptions or load delay slots. The property compares it with the processor of the kernel, instruction by
  instruction; further lemmas are about its memory, the arguments it gives to a program, and its logarithm. The trace of the instructions and the
  histograms, which nothing calls, are left out.
\<close>

section \<open>State\<close>

text \<open>\<open>xmem\<close> is the array \<^verbatim>\<open>mem\<close>; the program sees it at the address \<^verbatim>\<open>memoffset\<close>.\<close>

abbreviation (input) MEMSIZE :: nat where "MEMSIZE \<equiv> 0x1000000"
abbreviation (input) memoffset :: nat where "memoffset \<equiv> 0x10000000"

record interp =
  xmem :: "nat \<Rightarrow> byte"
  Reg :: "32 word list"
  HI :: "32 word"
  LO :: "32 word"
  xpc :: "32 word"
  xnpc :: "32 word"

text \<open>
  How an iteration of the loop ends: it goes on; it calls \<^verbatim>\<open>system_trap\<close> or \<^verbatim>\<open>system_break\<close>, which make calls of the host system; the
  interpreter exits; or the C code has no defined behaviour (an access outside the memory, a division by zero or without a
  representable result, a shift by 32 or more).
\<close>

datatype outcome = Continue interp | SystemTrap interp | SystemBreak interp | Exit int | Undefined

section \<open>Instruction formats and memory\<close>

text \<open>The macros of \<^verbatim>\<open>instr.h\<close>.\<close>

definition x_rd :: "32 word \<Rightarrow> nat" where "x_rd i = unat (drop_bit 11 i AND 0x1f)"
definition x_rt :: "32 word \<Rightarrow> nat" where "x_rt i = unat (drop_bit 16 i AND 0x1f)"
definition x_rs :: "32 word \<Rightarrow> nat" where "x_rs i = unat (drop_bit 21 i AND 0x1f)"
definition x_shamt :: "32 word \<Rightarrow> nat" where "x_shamt i = unat (drop_bit 6 i AND 0x1f)"

definition immed :: "32 word \<Rightarrow> 32 word" where
  "immed i = (if i AND 0x8000 \<noteq> 0 then i OR (- 0x8000) else i AND 0x7fff)"

text \<open>The macros of \<^verbatim>\<open>int.h\<close> on a little-endian host: \<open>n\<close> bytes at an address, if they are inside the array.\<close>

definition mem_range :: "nat \<Rightarrow> 32 word \<Rightarrow> bool" where
  "mem_range n addr \<longleftrightarrow> memoffset \<le> unat addr \<and> unat addr + n \<le> memoffset + MEMSIZE"

fun le_value :: "byte list \<Rightarrow> 32 word" where
  "le_value [] = 0"
| "le_value (b # bs) = ucast b OR push_bit 8 (le_value bs)"

definition fetch_n :: "nat \<Rightarrow> 32 word \<Rightarrow> interp \<Rightarrow> (32 word \<Rightarrow> outcome) \<Rightarrow> outcome" where
  "fetch_n n addr s k =
     (if mem_range n addr then k (le_value (map (\<lambda>j. xmem s (unat addr - memoffset + j)) [0..<n])) else Undefined)"

definition put_bytes_at :: "nat \<Rightarrow> byte list \<Rightarrow> (nat \<Rightarrow> byte) \<Rightarrow> (nat \<Rightarrow> byte)" where
  "put_bytes_at p bs f = (\<lambda>j. if p \<le> j \<and> j < p + length bs then bs ! (j - p) else f j)"

definition store_n :: "nat \<Rightarrow> 32 word \<Rightarrow> 32 word \<Rightarrow> interp \<Rightarrow> outcome" where
  "store_n n addr v s =
     (if mem_range n addr
      then Continue (s\<lparr>xmem := put_bytes_at (unat addr - memoffset) (map (\<lambda>j. ucast (drop_bit (8 * j) v)) [0..<n]) (xmem s)\<rparr>)
      else Undefined)"

section \<open>Instructions\<close>

definition setR :: "nat \<Rightarrow> 32 word \<Rightarrow> interp \<Rightarrow> interp" where
  "setR n v s = s\<lparr>Reg := (Reg s)[n := v]\<rparr>"

definition truth :: "bool \<Rightarrow> 32 word" where
  "truth b = (if b then 1 else 0)"

text \<open>A shift by the value of a register.\<close>

definition shift_reg :: "(nat \<Rightarrow> 32 word) \<Rightarrow> 32 word \<Rightarrow> nat \<Rightarrow> interp \<Rightarrow> outcome" where
  "shift_reg f n d s = (if unat n < 32 then Continue (setR d (f (unat n)) s) else Undefined)"

text \<open>
  The high word as the code computes it from the halves; the products and sums are of type \<^verbatim>\<open>int\<close>, which wraps around on the hosts
  the program was written for.
\<close>

definition high_word :: "32 word \<Rightarrow> 32 word \<Rightarrow> 32 word" where
  "high_word t1 t2 =
     (let t1l = t1 AND 0xffff; t1h = signed_drop_bit 16 t1 AND 0xffff; t2l = t2 AND 0xffff; t2h = signed_drop_bit 16 t2 AND 0xffff
      in t1h * t2h + signed_drop_bit 16 (t1h * t2l) + signed_drop_bit 16 (t2h * t1l))"

definition x_mult :: "32 word \<Rightarrow> 32 word \<Rightarrow> 32 word \<times> 32 word" where
  "x_mult a b =
     (let neg = ((a <s 0) \<noteq> (b <s 0));
          t1 = (if a <s 0 then - a else a); t2 = (if b <s 0 then - b else b);
          lo = t1 * t2; hi = high_word t1 t2;
          lo' = NOT lo + 1
      in if neg then (NOT hi + (if lo' = 0 then 1 else 0), lo') else (hi, lo))"

text \<open>The cases of \<^verbatim>\<open>I_SPECIAL\<close>, by the function field. \<open>here\<close> is the address of the instruction.\<close>

definition x_special :: "32 word \<Rightarrow> 32 word \<Rightarrow> interp \<Rightarrow> outcome" where
  "x_special i here s =
     (let fn = unat (i AND 0x3f); d = x_rd i; a = Reg s ! x_rs i; b = Reg s ! x_rt i in
      if fn = 0 then Continue (setR d (push_bit (x_shamt i) b) s)
      else if fn = 2 then Continue (setR d (drop_bit (x_shamt i) b) s)
      else if fn = 3 then Continue (setR d (signed_drop_bit (x_shamt i) b) s)
      else if fn = 4 then shift_reg (\<lambda>n. push_bit n b) a d s
      else if fn = 6 then shift_reg (\<lambda>n. drop_bit n b) a d s
      else if fn = 7 then shift_reg (\<lambda>n. signed_drop_bit n b) a d s
      else if fn = 8 then Continue (s\<lparr>xnpc := a\<rparr>)
      else if fn = 9 then Continue (setR d (here + 8) (s\<lparr>xnpc := a\<rparr>))
      else if fn = 12 then SystemTrap s
      else if fn = 13 then SystemBreak s
      else if fn = 16 then Continue (setR d (HI s) s)
      else if fn = 17 then Continue (s\<lparr>HI := a\<rparr>)
      else if fn = 18 then Continue (setR d (LO s) s)
      else if fn = 19 then Continue (s\<lparr>LO := a\<rparr>)
      else if fn = 24 then (let (hi, lo) = x_mult a b in Continue (s\<lparr>LO := lo, HI := hi\<rparr>))
      else if fn = 25 then Continue (s\<lparr>LO := a * b, HI := high_word a b\<rparr>)
      else if fn = 26 then
        (if b = 0 \<or> \<not> int32_ok (sint a sdiv sint b) then Undefined
         else Continue (s\<lparr>LO := word_of_int (sint a sdiv sint b), HI := word_of_int (sint a smod sint b)\<rparr>))
      else if fn = 27 then (if b = 0 then Undefined else Continue (s\<lparr>LO := a div b, HI := a mod b\<rparr>))
      else if fn = 32 \<or> fn = 33 then Continue (setR d (a + b) s)
      else if fn = 34 \<or> fn = 35 then Continue (setR d (a - b) s)
      else if fn = 36 then Continue (setR d (a AND b) s)
      else if fn = 37 then Continue (setR d (a OR b) s)
      else if fn = 38 then Continue (setR d (a XOR b) s)
      else if fn = 39 then Continue (setR d (NOT (a OR b)) s)
      else if fn = 42 then Continue (setR d (truth (a <s b)) s)
      else if fn = 43 then Continue (setR d (truth (a < b)) s)
      else Exit 2)"

definition x_goto :: "bool \<Rightarrow> 32 word \<Rightarrow> 32 word \<Rightarrow> interp \<Rightarrow> outcome" where
  "x_goto c i here s = Continue (if c then s\<lparr>xnpc := here + 4 + push_bit 2 (immed i)\<rparr> else s)"

text \<open>The cases of \<^verbatim>\<open>I_BCOND\<close>, by the field \<^verbatim>\<open>rt\<close>. The branches that link store the return address before they test the register.\<close>

definition x_bcond :: "32 word \<Rightarrow> 32 word \<Rightarrow> interp \<Rightarrow> outcome" where
  "x_bcond i here s =
     (let op = x_rt i; link = setR 31 (here + 8) s in
      if op = 0 then x_goto (Reg s ! x_rs i <s 0) i here s
      else if op = 1 then x_goto (0 \<le>s Reg s ! x_rs i) i here s
      else if op = 16 then x_goto (Reg link ! x_rs i <s 0) i here link
      else if op = 17 then x_goto (0 \<le>s Reg link ! x_rs i) i here link
      else Exit 2)"

text \<open>
  \<^verbatim>\<open>I_LWL\<close> and \<^verbatim>\<open>I_LWR\<close>: \<^verbatim>\<open>-1 >> n\<close> is -1, so that the mask of \<^verbatim>\<open>I_LWL\<close> keeps the whole register. The right shift of \<^verbatim>\<open>I_LWR\<close> is arithmetic.
\<close>

definition x_lwl :: "nat \<Rightarrow> 32 word \<Rightarrow> interp \<Rightarrow> outcome" where
  "x_lwl t a s =
     fetch_n 4 (a AND 0xfffffffc) s (\<lambda>v.
     Continue (setR t ((Reg s ! t AND signed_drop_bit (8 * unat (- a AND 3)) (- 1)) OR push_bit (8 * unat (a AND 3)) v) s))"

definition x_lwr :: "nat \<Rightarrow> 32 word \<Rightarrow> interp \<Rightarrow> outcome" where
  "x_lwr t a s =
     fetch_n 4 (a AND 0xfffffffc) s (\<lambda>v.
     Continue (setR t ((if a AND 3 = 0 then 0 else Reg s ! t AND push_bit (8 * unat (a AND 3)) (- 1))
        OR signed_drop_bit (8 * unat (- a AND 3)) v) s))"

definition sign_ext :: "nat \<Rightarrow> 32 word \<Rightarrow> 32 word" where
  "sign_ext n v = (if bit v (n - 1) then v OR NOT (mask n) else v)"

text \<open>The other cases, by the operation field.\<close>

definition x_jump :: "nat \<Rightarrow> 32 word \<Rightarrow> 32 word \<Rightarrow> interp \<Rightarrow> outcome option" where
  "x_jump op i here s =
     (let a = Reg s ! x_rs i; b = Reg s ! x_rt i; target = (here AND 0xf0000000) OR push_bit 2 (i AND 0x03ffffff) in
      if op = 2 then Some (Continue (s\<lparr>xnpc := target\<rparr>))
      else if op = 3 then Some (Continue ((setR 31 (here + 8) s)\<lparr>xnpc := target\<rparr>))
      else if op = 4 then Some (x_goto (a = b) i here s)
      else if op = 5 then Some (x_goto (a \<noteq> b) i here s)
      else if op = 6 then Some (x_goto (a \<le>s 0) i here s)
      else if op = 7 then Some (x_goto (0 <s a) i here s)
      else None)"

definition x_immediate :: "nat \<Rightarrow> 32 word \<Rightarrow> interp \<Rightarrow> outcome option" where
  "x_immediate op i s =
     (let t = x_rt i; a = Reg s ! x_rs i in
      if op = 8 \<or> op = 9 then Some (Continue (setR t (a + immed i) s))
      else if op = 10 then Some (Continue (setR t (truth (a <s immed i)) s))
      else if op = 11 then Some (Continue (setR t (truth (a < immed i)) s))
      else if op = 12 then Some (Continue (setR t (a AND immed i) s))
      else if op = 13 then Some (Continue (setR t (a OR immed i) s))
      else if op = 14 then Some (Continue (setR t (a XOR immed i) s))
      else if op = 15 then Some (Continue (setR t (push_bit 16 i) s))
      else None)"

definition x_memory :: "nat \<Rightarrow> 32 word \<Rightarrow> interp \<Rightarrow> outcome" where
  "x_memory op i s =
     (let t = x_rt i; b = Reg s ! t; addr = Reg s ! x_rs i + immed i; load = (\<lambda>v. Continue (setR t v s)) in
      if op = 32 then fetch_n 1 addr s (\<lambda>v. load (sign_ext 8 v))
      else if op = 33 then fetch_n 2 addr s (\<lambda>v. load (sign_ext 16 v))
      else if op = 34 then x_lwl t addr s
      else if op = 35 then fetch_n 4 addr s load
      else if op = 36 then fetch_n 1 addr s load
      else if op = 37 then fetch_n 2 addr s load
      else if op = 38 then x_lwr t addr s
      else if op = 40 then store_n 1 addr b s
      else if op = 41 then store_n 2 addr b s
      else if op = 43 then store_n 4 addr b s
      else Exit 2)"

text \<open>One iteration of the loop of \<^verbatim>\<open>runprogram\<close>.\<close>

definition x_execute :: "32 word \<Rightarrow> 32 word \<Rightarrow> interp \<Rightarrow> outcome" where
  "x_execute i here s =
     (let op = unat (drop_bit 26 i AND 0x3f) in
      if i = 0 then Continue s
      else if op = 0 then x_special i here s
      else if op = 1 then x_bcond i here s
      else case x_jump op i here s of Some r \<Rightarrow> r
      | None \<Rightarrow> (case x_immediate op i s of Some r \<Rightarrow> r | None \<Rightarrow> x_memory op i s))"

definition x_iteration :: "interp \<Rightarrow> outcome" where
  "x_iteration s =
     (let here = xpc s; s1 = s\<lparr>xpc := xnpc s, xnpc := xnpc s + 4\<rparr> in
      fetch_n 4 here s1 (\<lambda>i. x_execute i here (s1\<lparr>Reg := (Reg s1)[0 := 0]\<rparr>)))"

section \<open>Starting a program\<close>

text \<open>
  The part of \<^verbatim>\<open>runprogram\<close> before the loop: the stack pointer, the number of arguments, and the arguments and their addresses. The
  arguments are copied without a check; the model is undefined when they do not fit the memory.
\<close>

fun set_args :: "32 word \<Rightarrow> 32 word \<Rightarrow> byte list list \<Rightarrow> interp \<Rightarrow> outcome" where
  "set_args aci ai [] s = Continue s"
| "set_args aci ai (arg # args) s =
     (if mem_range (length arg + 1) ai
      then (case store_n 4 aci ai (s\<lparr>xmem := put_bytes_at (unat ai - memoffset) (arg @ [0]) (xmem s)\<rparr>) of
              Continue s1 \<Rightarrow> set_args (aci + 4) (ai + of_nat (length arg) + 1) args s1
            | r \<Rightarrow> r)
      else Undefined)"

definition runprogram_start :: "32 word \<Rightarrow> byte list list \<Rightarrow> interp \<Rightarrow> outcome" where
  "runprogram_start startpc argv s =
     (let sp = of_nat (MEMSIZE - 1024 + memoffset);
          s1 = setR 29 sp (s\<lparr>xpc := startpc, xnpc := startpc + 4\<rparr>)
      in case store_n 4 sp (of_nat (length argv)) s1 of
           Continue s2 \<Rightarrow> set_args (sp + 4) (sp + 36) argv s2
         | r \<Rightarrow> r)"

text \<open>\<^verbatim>\<open>ilog2\<close>.\<close>

definition ilog2_step :: "32 word \<Rightarrow> nat \<Rightarrow> 32 word \<times> nat \<Rightarrow> 32 word \<times> nat" where
  "ilog2_step m k = (\<lambda>(i, l). let j = i AND m in if j \<noteq> 0 then (j, l + k) else (i, l))"

definition ilog2 :: "32 word \<Rightarrow> nat" where
  "ilog2 i =
     (if i = 0 then 0
      else snd (ilog2_step 0xaaaaaaaa 1 (ilog2_step 0xcccccccc 2 (ilog2_step 0xf0f0f0f0 4
             (ilog2_step 0xff00ff00 8 (ilog2_step 0xffff0000 16 (i, 1)))))))"

section \<open>Comparison with the processor of the kernel\<close>

text \<open>
  \<open>base\<close>: during an instruction the two machines have the same general registers, \<^verbatim>\<open>HI\<close> and \<^verbatim>\<open>LO\<close>, the interpreter has already moved
  on to the next instruction, and the processor has no load pending.
\<close>

definition base :: "interp \<Rightarrow> Machine \<Rightarrow> bool" where
  "base s m \<longleftrightarrow> Machine_wf m \<and> length (Reg s) = 32 \<and> (\<forall>j. 0 < j \<and> j < 32 \<longrightarrow> Reg s ! j = reg m j)
     \<and> HI s = reg m HiReg \<and> LO s = reg m LoReg \<and> xpc s = reg m NextPCReg \<and> reg m LoadReg = 0"

definition matches :: "outcome \<Rightarrow> Machine exec res \<Rightarrow> bool" where
  "matches r e \<longleftrightarrow> (\<exists>s m. r = Continue s \<and> e = brk (xnpc s) m \<and> base s m)"

lemma base_wf: "base s m \<Longrightarrow> length (registers m) = 40"
  by (simp add: base_def Machine_wf_def)

lemma base_set: "base s m \<Longrightarrow> d < 32 \<Longrightarrow> base (setR d v s) (set_reg d v m)"
  by (simp add: base_def setR_def set_reg_wf reg_set_reg Machine_wf_def nth_list_update)

lemma base_upd [simp]: "base (s\<lparr>xnpc := p\<rparr>) m = base s m"
  by (simp add: base_def)

lemma base_hi: "base s m \<Longrightarrow> base (s\<lparr>HI := v\<rparr>) (set_reg HiReg v m)"
  and base_lo: "base s m \<Longrightarrow> base (s\<lparr>LO := v\<rparr>) (set_reg LoReg v m)"
  by (simp_all add: base_def set_reg_wf reg_set_reg Machine_wf_def)

lemma setR_simps [simp]: "xnpc (setR d v s) = xnpc s" "xpc (setR d v s) = xpc s"
  by (simp_all add: setR_def)

lemma matches_set: "base s m \<Longrightarrow> d < 32 \<Longrightarrow> xnpc s = pc \<Longrightarrow> v = w \<Longrightarrow> matches (Continue (setR d v s)) (brk pc (set_reg d w m))"
  unfolding matches_def using base_set [of s m d v] by fastforce

lemma matches_hilo:
  assumes "base s m" "xnpc s = pc"
  shows "matches (Continue (s\<lparr>HI := v\<rparr>)) (brk pc (set_reg HiReg v m))" "matches (Continue (s\<lparr>LO := w\<rparr>)) (brk pc (set_reg LoReg w m))"
    "matches (Continue (s\<lparr>LO := w, HI := v\<rparr>)) (brk pc (set_reg HiReg v (set_reg LoReg w m)))"
  unfolding matches_def using base_hi [OF assms(1), of v] base_lo [OF assms(1), of w] base_hi [OF base_lo [OF assms(1)], of v w] assms(2)
  by fastforce+

lemma matches_jump: "base s m \<Longrightarrow> p = q \<Longrightarrow> matches (Continue (s\<lparr>xnpc := p\<rparr>)) (brk q m)"
  unfolding matches_def by (intro exI [of _ "s\<lparr>xnpc := p\<rparr>"] exI [of _ m]) simp

lemma matches_goto:
  "base s m \<Longrightarrow> xnpc s = pc \<Longrightarrow> (c \<longleftrightarrow> d) \<Longrightarrow> here + 4 + push_bit 2 (immed i) = t \<Longrightarrow> matches (x_goto c i here s) (brk (if d then t else pc) m)"
  unfolding x_goto_def using matches_jump [of s m t t] by (auto simp: matches_def)

lemma matches_branch:
  "base s m \<Longrightarrow> here + 4 + push_bit 2 (immed i) = t \<Longrightarrow> matches (x_goto True i here s) (brk t m)"
  "base s m \<Longrightarrow> xnpc s = pc \<Longrightarrow> matches (x_goto False i here s) (brk pc m)"
  using matches_goto [of s m _ True True] matches_goto [of s m pc False False] by simp_all

section \<open>Decoding\<close>

lemma Decode_fields: "rs (Decode i) = x_rs i" "rt (Decode i) = x_rt i" "rd (Decode i) = x_rd i"
  by (simp_all add: Decode_def x_rs_def x_rt_def x_rd_def Let_def split: prod.splits)

lemma immed_extra: "immed i = scast (ucast i :: 16 word)"
proof -
  have m: "(- 0x8000 :: 32 word) = NOT (mask 15)" by (simp add: not_eq_complement mask_eq_exp_minus_1)
  have k: "(0x7fff :: 32 word) = mask 15" by (simp add: mask_eq_exp_minus_1)
  show ?thesis unfolding immed_def and_0x8000 m k
  proof (rule bit_word_eqI)
    fix n assume n: "n < LENGTH(32)"
    then have "bit (scast (ucast i :: 16 word) :: 32 word) n \<longleftrightarrow> bit i (if n < 16 then n else 15)"
      by (cases "n < 15"; cases "n = 15") (auto simp: bit_simps min_def)
    moreover have "bit (if bit i 15 then i OR NOT (mask 15) else i AND mask 15) n \<longleftrightarrow> bit i (if n < 16 then n else 15)"
      using n by (cases "n = 15") (auto simp: bit_or_iff bit_not_iff bit_mask_iff bit_and_iff)
    ultimately show "bit (if bit i 15 then i OR NOT (mask 15) else i AND mask 15) n = bit (scast (ucast i :: 16 word) :: 32 word) n" by simp
  qed
qed

lemma Decode_special:
  assumes "unat (drop_bit 26 i AND 0x3f) = 0"
  shows "opCode (Decode i) = specialTable ! unat (i AND 0x3f)" "unat (extra (Decode i)) = x_shamt i"
proof -
  have "opTable ! 0 = (SPECIAL, RFMT)" by (simp add: opTable_def)
  then show "opCode (Decode i) = specialTable ! unat (i AND 0x3f)" "unat (extra (Decode i)) = x_shamt i"
    using assms by (simp_all add: Decode_def x_shamt_def Let_def)
qed

lemma Decode_immediate:
  assumes "opTable ! unat (drop_bit 26 i AND 0x3f) = (c, IFMT)" "c \<noteq> SPECIAL"
  shows "c \<noteq> BCOND \<Longrightarrow> opCode (Decode i) = c" "extra (Decode i) = immed i"
  using assms by (simp_all add: Decode_def Let_def immed_extra sign_extend_16 [unfolded Let_def])

lemma Decode_jump:
  assumes "opTable ! unat (drop_bit 26 i AND 0x3f) = (c, JFMT)" "c \<noteq> SPECIAL" "c \<noteq> BCOND"
  shows "opCode (Decode i) = c" "extra (Decode i) = i AND 0x3ffffff"
  using assms by (simp_all add: Decode_def Let_def)

lemma x_regs: "x_rs i < 32" "x_rt i < 32" "x_rd i < 32" "x_shamt i < 32"
  using unat_take_bit_less [of 5 "drop_bit 21 i"] unat_take_bit_less [of 5 "drop_bit 16 i"] unat_take_bit_less [of 5 "drop_bit 11 i"]
    unat_take_bit_less [of 5 "drop_bit 6 i"]
  by (simp_all add: x_rs_def x_rt_def x_rd_def x_shamt_def and_31)

lemma Decode_bcond:
  assumes "unat (drop_bit 26 i AND 0x3f) = 1"
  shows "extra (Decode i) = immed i"
    "opCode (Decode i) = (if x_rt i = 0 then OP_BLTZ else if x_rt i = 1 then OP_BGEZ else if x_rt i = 16 then OP_BLTZAL
       else if x_rt i = 17 then OP_BGEZAL else OP_UNIMP)"
proof -
  have t: "opTable ! 1 = (BCOND, IFMT)" by (simp add: opTable_def)
  then show "extra (Decode i) = immed i" using assms Decode_immediate(2) [of i BCOND] by simp
  have p: "i AND 0x1f0000 = push_bit 16 (drop_bit 16 i AND 0x1f)"
  proof (rule bit_word_eqI)
    fix n assume "n < LENGTH(32)"
    have a: "(0x1f0000 :: 32 word) = push_bit 16 (mask 5)" by (simp add: mask_eq_exp_minus_1 push_bit_eq_mult)
    have b: "(0x1f :: 32 word) = mask 5" by (simp add: mask_eq_exp_minus_1)
    show "bit (i AND 0x1f0000) n = bit (push_bit 16 (drop_bit 16 i AND 0x1f)) n"
      unfolding a b using \<open>n < LENGTH(32)\<close> by (auto simp: bit_and_iff bit_push_bit_iff bit_drop_bit_eq bit_mask_iff)
  qed
  have e: "i AND 0x1f0000 = push_bit 16 (of_nat k) \<longleftrightarrow> x_rt i = k" if "k < 32" for k :: nat
  proof -
    have "unat (i AND 0x1f0000) = x_rt i * 65536" "unat (push_bit 16 (of_nat k) :: 32 word) = k * 65536"
      using x_regs(2) [of i] that unfolding p x_rt_def
      by (simp_all add: push_bit_eq_mult unat_word_ariths unat_of_nat)
    then show ?thesis using word_unat_eq_iff [of "i AND 0x1f0000" "push_bit 16 (of_nat k)"] by simp
  qed
  show "opCode (Decode i) = (if x_rt i = 0 then OP_BLTZ else if x_rt i = 1 then OP_BGEZ else if x_rt i = 16 then OP_BLTZAL
       else if x_rt i = 17 then OP_BGEZAL else OP_UNIMP)"
    using assms t e [of 0] e [of 1] e [of 16] e [of 17] by (simp add: Decode_def Let_def push_bit_eq_mult)
qed

section \<open>The instructions on which they agree\<close>

text \<open>
  Instructions on which the two interpreters agree. The conditions are the differences: the interpreter does not trap on signed overflow,
  has no result for a shift by a register of 32 or more and for a division by zero, and reads the target of \<^verbatim>\<open>JALR\<close> before it stores
  the return address; it sign-extends the operand of the logical immediate instructions; and it computes branch targets and return addresses from the
  address of the instruction, which is different in the delay slot of a branch that is taken. The multiplications, and the loads and stores, which go
  through different memories, are left out.
\<close>

definition agrees_special :: "32 word \<Rightarrow> 32 word \<Rightarrow> interp \<Rightarrow> bool" where
  "agrees_special i here s \<longleftrightarrow>
     (let fn = unat (i AND 0x3f); a = Reg s ! x_rs i; b = Reg s ! x_rt i in
      fn = 0 \<or> fn = 2 \<or> fn = 3 \<or> fn = 8 \<or> fn = 16 \<or> fn = 17 \<or> fn = 18 \<or> fn = 19 \<or> fn = 33 \<or> fn = 35
      \<or> fn = 36 \<or> fn = 37 \<or> fn = 38 \<or> fn = 39 \<or> fn = 42 \<or> fn = 43
      \<or> fn = 4 \<and> unat a < 32 \<or> fn = 6 \<and> unat a < 32 \<or> fn = 7 \<and> unat a < 32
      \<or> fn = 9 \<and> xpc s = here + 4 \<and> x_rs i \<noteq> x_rd i
      \<or> fn = 26 \<and> b \<noteq> 0 \<and> int32_ok (sint a sdiv sint b) \<or> fn = 27 \<and> b \<noteq> 0
      \<or> fn = 32 \<and> int32_ok (sint a + sint b) \<or> fn = 34 \<and> int32_ok (sint a - sint b))"

definition agrees :: "32 word \<Rightarrow> 32 word \<Rightarrow> interp \<Rightarrow> bool" where
  "agrees i here s \<longleftrightarrow>
     (let op = unat (drop_bit 26 i AND 0x3f); a = Reg s ! x_rs i in
      op = 0 \<and> agrees_special i here s
      \<or> op = 1 \<and> xpc s = here + 4 \<and> (x_rt i = 0 \<or> x_rt i = 1 \<or> x_rt i = 16 \<or> x_rt i = 17)
      \<or> op = 2 \<and> here AND 0xf0000000 = (xpc s + 4) AND 0xf0000000
      \<or> op = 3 \<and> here AND 0xf0000000 = (xpc s + 4) AND 0xf0000000 \<and> xpc s = here + 4
      \<or> op = 4 \<and> xpc s = here + 4 \<or> op = 5 \<and> xpc s = here + 4 \<or> op = 6 \<and> xpc s = here + 4 \<or> op = 7 \<and> xpc s = here + 4
      \<or> op = 8 \<and> int32_ok (sint a + sint (immed i)) \<or> op = 9 \<or> op = 10 \<or> op = 11
      \<or> op = 12 \<and> i AND 0x8000 = 0 \<or> op = 13 \<and> i AND 0x8000 = 0 \<or> op = 14 \<and> i AND 0x8000 = 0 \<or> op = 15)"

lemmas exec_defs = execute_def exec_arith_def exec_branch_def exec_div_jump_def exec_load_def exec_hilo_def exec_store_shift_def exec_last_def Let_def

text \<open>At the start of an instruction register 0 is zero on both sides.\<close>

definition ready_for :: "interp \<Rightarrow> Machine \<Rightarrow> bool" where
  "ready_for s m \<longleftrightarrow> base s m \<and> Reg s ! 0 = 0 \<and> reg m 0 = 0 \<and> xnpc s = reg m NextPCReg + 4"

lemma ready_reg: "ready_for s m \<Longrightarrow> j < 32 \<Longrightarrow> Reg s ! j = reg m j"
  by (cases "j = 0") (simp_all add: ready_for_def base_def)

lemma small_shift: "unat (a :: 32 word) < 32 \<Longrightarrow> unat (a AND 0x1f) = unat a"
  by (simp add: and_31 unsigned_take_bit_eq take_bit_nat_eq_self_iff)

lemma special_matches:
  assumes "ready_for s m" "unat (drop_bit 26 i AND 0x3f) = 0" "agrees_special i here s" "here = reg m PCReg"
  shows "matches (x_special i here s) (execute eh (Decode i) (reg m NextPCReg + 4) m)"
proof -
  define fn where "fn = unat (i AND 0x3f)"
  have b: "base s m" "xnpc s = reg m NextPCReg + 4" "HI s = reg m HiReg" "LO s = reg m LoReg" "xpc s = reg m NextPCReg"
    using assms(1) by (simp_all add: ready_for_def base_def)
  note d = Decode_special [OF assms(2), folded fn_def] Decode_fields [of i] x_regs [of i]
  have r: "Reg s ! x_rs i = reg m (x_rs i)" "Reg s ! x_rt i = reg m (x_rt i)" using ready_reg [OF assms(1)] x_regs by simp_all
  have j: "reg (set_reg (x_rd i) v m) (x_rs i) = reg m (x_rs i)" if "x_rs i \<noteq> x_rd i" for v
    using that x_regs(1) [of i] base_wf [OF b(1)] by (simp add: reg_set_reg)
  show ?thesis using assms(3) unfolding agrees_special_def Let_def fn_def [symmetric] r
    by (elim disjE conjE) (simp_all add: x_special_def fn_def [symmetric] d specialTable_def exec_defs r b j matches_set matches_jump matches_hilo
      shift_reg_def small_shift truth_def add_overflow_test sub_overflow_test)
qed

text \<open>The tests of the sign bit.\<close>

lemma sign_test: "a AND SIGN_BIT = 0 \<longleftrightarrow> 0 \<le> sint a" "a <s 0 \<longleftrightarrow> sint a < 0" "0 \<le>s a \<longleftrightarrow> 0 \<le> sint a" for a :: "32 word"
  using sign_bit_xor [of a 0] by (auto simp: word_sle_eq word_sless_alt)

lemma bcond_matches:
  assumes "ready_for s m" "unat (drop_bit 26 i AND 0x3f) = 1" "here = reg m PCReg" "xpc s = here + 4"
    and "x_rt i = 0 \<or> x_rt i = 1 \<or> x_rt i = 16 \<or> x_rt i = 17"
  shows "matches (x_bcond i here s) (execute eh (Decode i) (reg m NextPCReg + 4) m)"
proof -
  have b: "base s m" "xnpc s = reg m NextPCReg + 4" "reg m NextPCReg = here + 4"
    using assms(1,4) by (simp_all add: ready_for_def base_def)
  note d = Decode_bcond [OF assms(2)] Decode_fields [of i]
  have r: "Reg s ! x_rs i = reg m (x_rs i)" using ready_reg [OF assms(1)] x_regs by simp
  have l: "base (setR 31 v s) (set_reg 31 v m)" for v using base_set [OF b(1)] by simp
  have k: "Reg (setR 31 v s) ! x_rs i = reg (set_reg 31 v m) (x_rs i)" for v
    using b(1) x_regs(1) [of i] base_wf [OF b(1)] r by (simp add: setR_def nth_list_update reg_set_reg base_def)
  show ?thesis using assms(5)
    by (elim disjE) (simp_all add: x_bcond_def d exec_defs b(2,3) r k sign_test add.commute [of 8 here] matches_goto [OF b(1)] matches_goto [OF l]
      matches_branch [OF b(1)] matches_branch [OF l] IndexToAddr_def)
qed

text \<open>A logical immediate with a clear sign bit is not extended by either.\<close>

lemma immed_low: "i AND 0x8000 = 0 \<Longrightarrow> immed i AND 0xffff = immed i"
proof -
  assume a: "i AND 0x8000 = 0"
  have k: "(0x7fff :: 32 word) = mask 15" "(0xffff :: 32 word) = mask 16" by (simp_all add: mask_eq_exp_minus_1)
  show ?thesis unfolding immed_def a unfolding k by (auto intro!: bit_word_eqI simp: bit_and_iff bit_mask_iff)
qed

lemma lui_value: "push_bit 16 (immed i) = push_bit 16 i"
proof (rule bit_word_eqI)
  fix n assume n: "n < LENGTH(32)"
  show "bit (push_bit 16 (immed i)) n = bit (push_bit 16 i) n"
    using n by (cases "n = 31") (auto simp: immed_extra bit_simps min_def)
qed

lemma jump_matches:
  assumes "ready_for s m" "op = unat (drop_bit 26 i AND 0x3f)" "here = reg m PCReg"
    and "op = 2 \<and> here AND 0xf0000000 = (xpc s + 4) AND 0xf0000000
      \<or> op = 3 \<and> here AND 0xf0000000 = (xpc s + 4) AND 0xf0000000 \<and> xpc s = here + 4
      \<or> op = 4 \<and> xpc s = here + 4 \<or> op = 5 \<and> xpc s = here + 4 \<or> op = 6 \<and> xpc s = here + 4 \<or> op = 7 \<and> xpc s = here + 4"
  shows "\<exists>r. x_jump op i here s = Some r \<and> matches r (execute eh (Decode i) (reg m NextPCReg + 4) m)"
proof -
  have b: "base s m" "xnpc s = reg m NextPCReg + 4" "xpc s = reg m NextPCReg" using assms(1) by (simp_all add: ready_for_def base_def)
  have r: "Reg s ! x_rs i = reg m (x_rs i)" "Reg s ! x_rt i = reg m (x_rt i)" using ready_reg [OF assms(1)] x_regs by simp_all
  have l: "base (setR 31 v s) (set_reg 31 v m)" for v using base_set [OF b(1)] by simp
  have t: "opTable ! 2 = (OP_J, JFMT)" "opTable ! 3 = (OP_JAL, JFMT)" "opTable ! 4 = (OP_BEQ, IFMT)" "opTable ! 5 = (OP_BNE, IFMT)"
      "opTable ! 6 = (OP_BLEZ, IFMT)" "opTable ! 7 = (OP_BGTZ, IFMT)" by (simp_all add: opTable_def)
  note d = Decode_immediate [of i, folded assms(2)] Decode_jump [of i, folded assms(2)] Decode_fields [of i]
  show ?thesis using assms(4)
    by (elim disjE conjE) (simp_all add: x_jump_def d t exec_defs b r matches_goto [OF b(1)] matches_jump [OF b(1)] matches_jump [OF l]
      add.commute [of 8 here] IndexToAddr_def)
qed

lemma immediate_matches:
  assumes "ready_for s m" "op = unat (drop_bit 26 i AND 0x3f)"
    and "op = 8 \<and> int32_ok (sint (Reg s ! x_rs i) + sint (immed i)) \<or> op = 9 \<or> op = 10 \<or> op = 11
      \<or> op = 12 \<and> i AND 0x8000 = 0 \<or> op = 13 \<and> i AND 0x8000 = 0 \<or> op = 14 \<and> i AND 0x8000 = 0 \<or> op = 15"
  shows "x_jump op i here s = None" "\<exists>r. x_immediate op i s = Some r \<and> matches r (execute eh (Decode i) (reg m NextPCReg + 4) m)"
proof -
  show "x_jump op i here s = None" using assms(3) by (elim disjE conjE) (simp_all add: x_jump_def)
  have b: "base s m" "xnpc s = reg m NextPCReg + 4" using assms(1) by (simp_all add: ready_for_def base_def)
  have r: "Reg s ! x_rs i = reg m (x_rs i)" using ready_reg [OF assms(1)] x_regs by simp_all
  have t: "opTable ! 8 = (OP_ADDI, IFMT)" "opTable ! 9 = (OP_ADDIU, IFMT)" "opTable ! 10 = (OP_SLTI, IFMT)" "opTable ! 11 = (OP_SLTIU, IFMT)"
      "opTable ! 12 = (OP_ANDI, IFMT)" "opTable ! 13 = (OP_ORI, IFMT)" "opTable ! 14 = (OP_XORI, IFMT)" "opTable ! 15 = (OP_LUI, IFMT)"
    by (simp_all add: opTable_def)
  note d = Decode_immediate [of i, folded assms(2)] Decode_fields [of i]
  have o: "((a XOR e) AND SIGN_BIT = 0 \<and> (e XOR (a + e)) AND SIGN_BIT \<noteq> 0) = False" if "int32_ok (sint a + sint e)" for a e :: "32 word"
    using that add_overflow_test [of a e] unfolding sign_bit_xor by auto
  show "\<exists>r. x_immediate op i s = Some r \<and> matches r (execute eh (Decode i) (reg m NextPCReg + 4) m)" using assms(3) unfolding r
    by (elim disjE conjE) (simp_all add: x_immediate_def d t exec_defs b r o matches_set [OF b(1)] x_regs truth_def immed_low lui_value del: not_imp)
qed

lemma x_execute_matches:
  assumes "ready_for s m" "here = reg m PCReg" "agrees i here s"
  shows "matches (x_execute i here s) (execute eh (Decode i) (reg m NextPCReg + 4) m)"
proof -
  define op where "op = unat (drop_bit 26 i AND 0x3f)"
  have b: "base s m" "xnpc s = reg m NextPCReg + 4" "reg m 0 = 0" "Reg s ! 0 = 0" using assms(1) by (simp_all add: ready_for_def)
  consider "i = 0" | "i \<noteq> 0" "op = 0" "agrees_special i here s"
    | "op = 1" "xpc s = here + 4" "x_rt i = 0 \<or> x_rt i = 1 \<or> x_rt i = 16 \<or> x_rt i = 17"
    | "op = 2 \<and> here AND 0xf0000000 = (xpc s + 4) AND 0xf0000000
      \<or> op = 3 \<and> here AND 0xf0000000 = (xpc s + 4) AND 0xf0000000 \<and> xpc s = here + 4
      \<or> op = 4 \<and> xpc s = here + 4 \<or> op = 5 \<and> xpc s = here + 4 \<or> op = 6 \<and> xpc s = here + 4 \<or> op = 7 \<and> xpc s = here + 4"
    | "op = 8 \<and> int32_ok (sint (Reg s ! x_rs i) + sint (immed i)) \<or> op = 9 \<or> op = 10 \<or> op = 11
      \<or> op = 12 \<and> i AND 0x8000 = 0 \<or> op = 13 \<and> i AND 0x8000 = 0 \<or> op = 14 \<and> i AND 0x8000 = 0 \<or> op = 15"
    using assms(3) unfolding agrees_def Let_def op_def [symmetric] by argo
  then show ?thesis
  proof cases
    case 1
    have "unat (drop_bit 26 i AND 0x3f) = 0" "unat (i AND 0x3f) = 0" "x_rd i = 0" "x_rt i = 0" "x_shamt i = 0"
      using 1 by (simp_all add: x_rd_def x_rt_def x_shamt_def)
    then have "execute eh (Decode i) (reg m NextPCReg + 4) m = brk (reg m NextPCReg + 4) (set_reg 0 0 m)"
      using b(3) by (simp add: Decode_special Decode_fields specialTable_def exec_defs)
    moreover have "setR 0 0 s = s" using b(4) base_def [of s m] b(1) by (simp add: setR_def list_update_id [of "Reg s" 0, unfolded b(4)])
    ultimately show ?thesis using 1 matches_set [OF b(1), of 0 "reg m NextPCReg + 4" 0 0] b(2) by (simp add: x_execute_def)
  next
    case 2
    then show ?thesis using special_matches [OF assms(1) _ _ assms(2)] by (simp add: x_execute_def op_def)
  next
    case 3
    moreover have "i \<noteq> 0" using 3(1) by (auto simp: op_def)
    ultimately show ?thesis using bcond_matches [OF assms(1) _ assms(2)] by (simp add: x_execute_def op_def)
  next
    case 4
    have "op \<noteq> 0" "op \<noteq> 1" using 4 by auto
    moreover from this have "i \<noteq> 0" by (auto simp: op_def)
    moreover obtain r where "x_jump op i here s = Some r" "matches r (execute eh (Decode i) (reg m NextPCReg + 4) m)"
      using jump_matches [OF assms(1) op_def assms(2) 4] by blast
    ultimately show ?thesis unfolding x_execute_def Let_def op_def [symmetric] by simp
  next
    case 5
    have "op \<noteq> 0" "op \<noteq> 1" using 5 by auto
    moreover from this have "i \<noteq> 0" by (auto simp: op_def)
    moreover have "x_jump op i here s = None" by (rule immediate_matches(1) [OF assms(1) op_def 5])
    moreover obtain r where "x_immediate op i s = Some r" "matches r (execute eh (Decode i) (reg m NextPCReg + 4) m)"
      using immediate_matches(2) [OF assms(1) op_def 5] by blast
    ultimately show ?thesis unfolding x_execute_def Let_def op_def [symmetric] by simp
  qed
qed

lemma finish_hilo:
  assumes "Machine_wf m" "finish_instr pc 0 0 m = Inr m'"
  shows "reg m' HiReg = reg m HiReg" "reg m' LoReg = reg m LoReg"
proof -
  obtain m3 where m3: "DelayedLoad 0 0 m = Inr m3" "Machine_wf m3"
      "\<forall>i<NumTotalRegs. i \<noteq> 0 \<and> i \<noteq> LoadReg \<and> i \<noteq> LoadValueReg \<longrightarrow> reg m3 i = (if i = unat (reg m LoadReg) then reg m LoadValueReg else reg m i)"
    using DelayedLoad_ok [OF assms(1), of 0 0] by auto
  have "unat (reg m LoadReg) < 32" "length (registers m3) = 40" using assms(1) m3(2) by (simp_all add: Machine_wf_def)
  then show "reg m' HiReg = reg m HiReg" "reg m' LoReg = reg m LoReg"
    using assms(2) m3(1,3) by (auto simp: finish_instr_def Let_def reg_set_reg)
qed

section \<open>Properties\<close>

text \<open>The two machines between instructions.\<close>

definition corresponds :: "interp \<Rightarrow> Machine \<Rightarrow> bool" where
  "corresponds s m \<longleftrightarrow> Machine_wf m \<and> length (Reg s) = 32 \<and> (\<forall>j. 0 < j \<and> j < 32 \<longrightarrow> Reg s ! j = reg m j) \<and> HI s = reg m HiReg \<and> LO s = reg m LoReg
     \<and> xpc s = reg m PCReg \<and> xnpc s = reg m NextPCReg \<and> reg m LoadReg = 0 \<and> reg m 0 = 0"

text \<open>The state in which the switch of the interpreter starts.\<close>

definition x_fetched :: "interp \<Rightarrow> interp" where
  "x_fetched s = s\<lparr>xpc := xnpc s, xnpc := xnpc s + 4, Reg := (Reg s)[0 := 0]\<rparr>"

text \<open>
  C26 (equivalence): two interpreters, one instruction set. When both machines are in corresponding states and fetch the same
  instruction, and it is one of those on which they agree (\<open>agrees\<close>: the arithmetic, logical, shift, jump and branch instructions, with their
  conditions), then the stand-alone interpreter and the processor of the kernel both complete it and are in corresponding states again: the same
  general registers, \<^verbatim>\<open>HI\<close> and \<^verbatim>\<open>LO\<close>, program counter and next program counter.
\<close>

theorem interpreters_agree:
  assumes "corresponds s m" "handler_ok eh" "ReadMem eh (reg m PCReg) 4 m = Inr (Some i, m1)"
    and "\<And>k t. fetch_n 4 (xpc s) (s\<lparr>xpc := t, xnpc := t + 4\<rparr>) k = k i" "agrees i (xpc s) (x_fetched s)"
  shows "\<exists>s' m'. x_iteration s = Continue s' \<and> OneInstruction eh m = Inr m' \<and> corresponds s' m'"
proof -
  have wf: "Machine_wf m" using assms(1) by (simp add: corresponds_def)
  then have m1: "Machine_wf m1" "registers m1 = registers m" using ReadMem_ok [OF assms(2) wf, of 4 "reg m PCReg"] assms(3) by auto
  then have g: "reg m1 j = reg m j" for j by (simp add: reg_def)
  have "ready_for (x_fetched s) m1" using assms(1) m1(1) by (simp add: corresponds_def ready_for_def base_def x_fetched_def g)
  from x_execute_matches [OF this _ assms(5)] have "matches (x_execute i (xpc s) (x_fetched s)) (execute eh (Decode i) (reg m1 NextPCReg + 4) m1)"
    using assms(1) by (simp add: corresponds_def g)
  then obtain s' m2 where r: "x_execute i (xpc s) (x_fetched s) = Continue s'" "execute eh (Decode i) (reg m1 NextPCReg + 4) m1 = brk (xnpc s') m2" "base s' m2"
    unfolding matches_def by blast
  have w2: "Machine_wf m2" "reg m2 LoadReg = 0" using r(3) by (simp_all add: base_def)
  obtain m' where f: "finish_instr (xnpc s') 0 0 m2 = Inr m'" "Machine_wf m'" "reg m' 0 = 0" "reg m' PCReg = reg m2 NextPCReg" "reg m' NextPCReg = xnpc s'"
      "reg m' LoadReg = 0" "\<forall>j. 0 < j \<and> j < NumGPRegs \<longrightarrow> reg m' j = (if j = unat (reg m2 LoadReg) then reg m2 LoadValueReg else reg m2 j)"
    using finish_step [OF w2(1), of 0 "xnpc s'" 0] by auto
  have h: "reg m' HiReg = reg m2 HiReg" "reg m' LoReg = reg m2 LoReg" using finish_hilo [OF w2(1) f(1)] by simp_all
  have "x_iteration s = Continue s'" using r(1) assms(4) by (simp add: x_iteration_def x_fetched_def Let_def)
  moreover have "OneInstruction eh m = Inr m'" using OneInstruction_fetched [OF assms(3)] r(2) f(1) by (simp add: brk_def)
  moreover have "corresponds s' m'" using f w2(2) r(3) h by (auto simp: corresponds_def base_def)
  ultimately show ?thesis by blast
qed

text \<open>A program of one instruction, \<^verbatim>\<open>addiu r1, r0, 5\<close>, at the start of both memories.\<close>

definition demo_interp :: interp where
  "demo_interp = \<lparr>xmem = (\<lambda>j. if j = 0 then 5 else if j = 2 then 1 else if j = 3 then 0x24 else 0), Reg = replicate 32 0, HI = 0, LO = 0,
     xpc = 0x10000000, xnpc = 0x10000004\<rparr>"

definition demo_processor :: Machine where
  "demo_processor = demo_machine\<lparr>tlb := Some (replicate 4 (demo_entry\<lparr>virtualPage := 0x200000\<rparr>)), pageTable := None,
     registers := (replicate 40 0)[34 := 0x10000000, 35 := 0x10000004], mainMemory := (\<lambda>_. 0)(384 := 5, 386 := 1, 387 := 0x24)\<rparr>"

lemma tlb_first: "valid e \<Longrightarrow> virtualPage e = v \<Longrightarrow> tlb_search 4 0 v (replicate 4 e) = Inr (Some 0)"
  using tlb_search.simps(2) [of 3 0 v "replicate 4 e"] by simp

lemma demo_processor_fetch: "\<exists>m1. ReadMem eh (reg demo_processor PCReg) 4 demo_processor = Inr (Some 0x24010005, m1)"
  by (simp add: ReadMem_def Translate_def Translate_entry_def demo_processor_def demo_machine_def demo_entry_def Let_def
        load_mem_def mem_get_def le32_def WordToHost_def reg_def tlb_first)

theorem interpreters_agree_witness:
  "\<exists>s' m'. x_iteration demo_interp = Continue s' \<and> OneInstruction (\<lambda>_ m. Inr m) demo_processor = Inr m' \<and> corresponds s' m'"
proof -
  obtain m1 where f: "ReadMem (\<lambda>_ m. Inr m) (reg demo_processor PCReg) 4 demo_processor = Inr (Some 0x24010005, m1)"
    using demo_processor_fetch by blast
  have c: "corresponds demo_interp demo_processor"
    by (auto simp: corresponds_def demo_interp_def demo_processor_def demo_machine_def Machine_wf_def tables_ok_def reg_def nth_list_update)
  have h: "handler_ok (\<lambda>_ m. Inr m)" by (simp add: handler_ok_def)
  have k: "fetch_n 4 (xpc demo_interp) (demo_interp\<lparr>xpc := t, xnpc := t + 4\<rparr>) k = k 0x24010005" for k t
    by (simp add: fetch_n_def mem_range_def demo_interp_def upt_rec)
  have "agrees 0x24010005 (xpc demo_interp) (x_fetched demo_interp)" by (simp add: agrees_def Let_def)
  from interpreters_agree [OF c h f k this] show ?thesis .
qed

text \<open>
  The product that the interpreter leaves in \<^verbatim>\<open>HI\<close> is not the high word: the carry out of the middle products is lost. The processor of
  the kernel computes it exactly.
\<close>

theorem multiplications_differ:
  "x_mult 0x1ffff 0x1ffff = (1, 0xfffc0001)" "Mult 0x1ffff 0x1ffff True = (3, 0xfffc0001)"
  by code_simp+

section \<open>Memory\<close>

lemma le_value_bytes: "n \<le> 4 \<Longrightarrow> le_value (map (\<lambda>j. ucast (drop_bit (8 * j) v)) [0..<n]) = take_bit (8 * n) v"
proof -
  have g: "le_value (map (\<lambda>j. ucast (drop_bit (8 * j) (drop_bit (8 * k) v))) [0..<n]) = take_bit (8 * n) (drop_bit (8 * k) v)" for k n
  proof (induction n arbitrary: k)
    case (Suc n)
    have "map (\<lambda>j. ucast (drop_bit (8 * j) (drop_bit (8 * k) v)) :: byte) [0..<Suc n]
        = ucast (drop_bit (8 * k) v) # map (\<lambda>j. ucast (drop_bit (8 * j) (drop_bit (8 * Suc k) v))) [0..<n]"
      unfolding upt_conv_Cons [OF zero_less_Suc] map_Suc_upt [symmetric] by (simp add: comp_def algebra_simps)
    then have "le_value (map (\<lambda>j. ucast (drop_bit (8 * j) (drop_bit (8 * k) v))) [0..<Suc n])
        = ucast (ucast (drop_bit (8 * k) v) :: byte) OR push_bit 8 (take_bit (8 * n) (drop_bit (8 * Suc k) v))" using Suc.IH [of "Suc k"] by simp
    also have "\<dots> = take_bit (8 * Suc n) (drop_bit (8 * k) v)"
      by (rule bit_word_eqI) (auto simp: bit_simps not_less)
    finally show ?case .
  qed simp
  show ?thesis using g [of 0 n] by simp
qed

text \<open>A value stored in \<open>n\<close> bytes of the memory is read back by a fetch of \<open>n\<close> bytes at the same address, cut to its low bits.\<close>

theorem interp_store_fetch:
  assumes "store_n n addr v s = Continue s'" "n \<le> 4"
  shows "fetch_n n addr s' k = k (take_bit (8 * n) v)"
proof -
  have r: "mem_range n addr" using assms(1) by (auto simp: store_n_def split: if_splits)
  then have "xmem s' = put_bytes_at (unat addr - memoffset) (map (\<lambda>j. ucast (drop_bit (8 * j) v)) [0..<n]) (xmem s)"
    using assms(1) by (auto simp: store_n_def)
  then have e: "map (\<lambda>j. xmem s' (unat addr - memoffset + j)) [0..<n] = map (\<lambda>j. ucast (drop_bit (8 * j) v)) [0..<n]"
    by (simp add: put_bytes_at_def)
  show ?thesis unfolding fetch_n_def if_P [OF r] e le_value_bytes [OF assms(2)] ..
qed

text \<open>The arguments of a program: the words at \<open>ca\<close> are the addresses of the strings, which follow each other from \<open>cb\<close> on.\<close>

abbreviation (input) at_offset :: "nat \<Rightarrow> 32 word" where "at_offset p \<equiv> of_nat (memoffset + p)"

lemma at_offset_unat: "p \<le> MEMSIZE \<Longrightarrow> unat (at_offset p) = memoffset + p"
  by (subst unat_of_nat) (simp add: take_bit_nat_eq_self_iff)

lemma mem_range_offset: "p + n \<le> MEMSIZE \<Longrightarrow> mem_range n (at_offset p)"
  using at_offset_unat [of p] by (simp add: mem_range_def del: of_nat_add)

lemma put_bytes_outside: "\<not> (p \<le> j \<and> j < p + length bs) \<Longrightarrow> put_bytes_at p bs f j = f j"
  and put_bytes_inside: "j < length bs \<Longrightarrow> put_bytes_at p bs f (p + j) = bs ! j"
  by (simp_all only: put_bytes_at_def) auto

definition args_total :: "byte list list \<Rightarrow> nat" where
  "args_total args = sum_list (map (\<lambda>a. length a + 1) args)"

lemma set_args_ok:
  assumes "ca + 4 * length args \<le> cb" "cb + args_total args \<le> MEMSIZE"
  shows "\<exists>f. set_args (at_offset ca) (at_offset cb) args s = Continue (s\<lparr>xmem := f\<rparr>)
     \<and> (\<forall>j. (j < ca \<or> ca + 4 * length args \<le> j) \<and> (j < cb \<or> cb + args_total args \<le> j) \<longrightarrow> f j = xmem s j)
     \<and> (\<forall>n<length args. \<exists>p. le_value (map (\<lambda>j. f (ca + 4 * n + j)) [0..<4]) = at_offset p
          \<and> (\<forall>j\<le>length (args ! n). f (p + j) = (args ! n @ [0]) ! j))"
  using assms
proof (induction args arbitrary: ca cb s)
  case Nil
  then show ?case by (intro exI [of _ "xmem s"]) simp
next
  case (Cons arg args)
  let ?L = "length arg + 1"
  have t: "args_total (arg # args) = ?L + args_total args" by (simp add: args_total_def)
  let ?w = "map (\<lambda>j. ucast (drop_bit (8 * j) (at_offset cb))) [0..<4] :: byte list"
  let ?f1 = "put_bytes_at ca ?w (put_bytes_at cb (arg @ [0]) (xmem s))"
  have u: "unat (at_offset ca) - memoffset = ca" "unat (at_offset cb) - memoffset = cb" using Cons.prems t by (simp_all add: at_offset_unat del: of_nat_add)
  have r: "mem_range ?L (at_offset cb)" "mem_range 4 (at_offset ca)" using Cons.prems t by (simp_all add: mem_range_offset del: of_nat_add)
  have st: "set_args (at_offset ca) (at_offset cb) (arg # args) s = set_args (at_offset (ca + 4)) (at_offset (cb + ?L)) args (s\<lparr>xmem := ?f1\<rparr>)"
    using r u by (simp add: store_n_def add.assoc)
  have "ca + 4 + 4 * length args \<le> cb + ?L" "cb + ?L + args_total args \<le> MEMSIZE" using Cons.prems t by simp_all
  from Cons.IH [OF this, of "s\<lparr>xmem := ?f1\<rparr>"] obtain f where f: "set_args (at_offset (ca + 4)) (at_offset (cb + ?L)) args (s\<lparr>xmem := ?f1\<rparr>) = Continue (s\<lparr>xmem := f\<rparr>)"
      "\<And>j. (j < ca + 4 \<or> ca + 4 + 4 * length args \<le> j) \<Longrightarrow> (j < cb + ?L \<or> cb + ?L + args_total args \<le> j) \<Longrightarrow> f j = ?f1 j"
      "\<And>n. n < length args \<Longrightarrow> \<exists>p. le_value (map (\<lambda>j. f (ca + 4 + 4 * n + j)) [0..<4]) = at_offset p \<and> (\<forall>j\<le>length (args ! n). f (p + j) = (args ! n @ [0]) ! j)"
    by auto
  have a: "ca + 4 \<le> cb" using Cons.prems(1) by simp
  have "f (ca + j) = ?w ! j" if "j < 4" for j
    using f(2) [of "ca + j"] that a put_bytes_inside [of j ?w ca] by simp
  then have "le_value (map (\<lambda>j. f (ca + j)) [0..<4]) = le_value ?w" by (intro arg_cong [of _ _ le_value] nth_equalityI) simp_all
  also have "\<dots> = at_offset cb" using le_value_bytes [of 4 "at_offset cb"] by (simp add: take_bit_word_eq_self)
  finally have w: "le_value (map (\<lambda>j. f (ca + j)) [0..<4]) = at_offset cb" .
  have b: "f (cb + j) = (arg @ [0]) ! j" if "j \<le> length arg" for j
    using f(2) [of "cb + j"] that Cons.prems(1) put_bytes_outside [of ca "cb + j" ?w] put_bytes_inside [of j "arg @ [0]" cb] by simp
  have "\<exists>p. le_value (map (\<lambda>j. f (ca + 4 * n + j)) [0..<4]) = at_offset p \<and> (\<forall>j\<le>length ((arg # args) ! n). f (p + j) = ((arg # args) ! n @ [0]) ! j)"
    if "n < length (arg # args)" for n
    using that w b f(3) [of "n - 1"] by (cases n) (auto simp: algebra_simps intro!: exI [of _ cb])
  moreover have "f j = xmem s j" if "j < ca \<or> ca + 4 * length (arg # args) \<le> j" "j < cb \<or> cb + args_total (arg # args) \<le> j" for j
    using f(2) [of j] that t a put_bytes_outside [of ca j ?w] put_bytes_outside [of cb j "arg @ [0]"] by auto
  ultimately show ?case using st f(1) by (intro exI [of _ f]) simp
qed

section \<open>The logarithm\<close>

lemma masks:
  assumes "n < 32"
  shows "bit (0xffff0000 :: 32 word) n \<longleftrightarrow> odd (n div 2 ^ 4)" "bit (0xff00ff00 :: 32 word) n \<longleftrightarrow> odd (n div 2 ^ 3)"
    "bit (0xf0f0f0f0 :: 32 word) n \<longleftrightarrow> odd (n div 2 ^ 2)" "bit (0xcccccccc :: 32 word) n \<longleftrightarrow> odd (n div 2 ^ 1)"
    "bit (0xaaaaaaaa :: 32 word) n \<longleftrightarrow> odd (n div 2 ^ 0)"
proof -
  have e: "n \<in> set [0..<32]" using assms by simp
  have "\<forall>n\<in>set [0..<32]. bit (0xffff0000 :: 32 word) n \<longleftrightarrow> odd (n div 2 ^ 4)" by code_simp
  then show "bit (0xffff0000 :: 32 word) n \<longleftrightarrow> odd (n div 2 ^ 4)" using e by (rule bspec)
  have "\<forall>n\<in>set [0..<32]. bit (0xff00ff00 :: 32 word) n \<longleftrightarrow> odd (n div 2 ^ 3)" by code_simp
  then show "bit (0xff00ff00 :: 32 word) n \<longleftrightarrow> odd (n div 2 ^ 3)" using e by (rule bspec)
  have "\<forall>n\<in>set [0..<32]. bit (0xf0f0f0f0 :: 32 word) n \<longleftrightarrow> odd (n div 2 ^ 2)" by code_simp
  then show "bit (0xf0f0f0f0 :: 32 word) n \<longleftrightarrow> odd (n div 2 ^ 2)" using e by (rule bspec)
  have "\<forall>n\<in>set [0..<32]. bit (0xcccccccc :: 32 word) n \<longleftrightarrow> odd (n div 2 ^ 1)" by code_simp
  then show "bit (0xcccccccc :: 32 word) n \<longleftrightarrow> odd (n div 2 ^ 1)" using e by (rule bspec)
  have "\<forall>n\<in>set [0..<32]. bit (0xaaaaaaaa :: 32 word) n \<longleftrightarrow> odd (n div 2 ^ 0)" by code_simp
  then show "bit (0xaaaaaaaa :: 32 word) n \<longleftrightarrow> odd (n div 2 ^ 0)" using e by (rule bspec)
qed

text \<open>
  The search narrows the word down to the bits whose positions share a prefix with the position \<open>h\<close> of the highest one.
\<close>

definition log_inv :: "nat \<Rightarrow> nat \<Rightarrow> 32 word \<times> nat \<Rightarrow> bool" where
  "log_inv h k p \<longleftrightarrow> bit (fst p) h \<and> (\<forall>n. bit (fst p) n \<longrightarrow> n \<le> h \<and> n div 2 ^ k = h div 2 ^ k) \<and> snd p = 1 + (h div 2 ^ k) * 2 ^ k"

lemma log_invI:
  "bit (fst p) h \<Longrightarrow> (\<And>n. bit (fst p) n \<Longrightarrow> n \<le> h) \<Longrightarrow> (\<And>n. bit (fst p) n \<Longrightarrow> n div 2 ^ k = h div 2 ^ k) \<Longrightarrow>
     snd p = 1 + (h div 2 ^ k) * 2 ^ k \<Longrightarrow> log_inv h k p"
  unfolding log_inv_def by blast

lemmas log_pair = log_invI [of "(i, 1 + (h div 2 ^ k) * 2 ^ k)" h k for i h k, unfolded fst_conv snd_conv, OF _ _ _ refl]

lemma log_invD:
  assumes "log_inv h k p"
  shows "bit (fst p) h" "bit (fst p) n \<Longrightarrow> n \<le> h" "bit (fst p) n \<Longrightarrow> n div 2 ^ k = h div 2 ^ k" "snd p = 1 + (h div 2 ^ k) * 2 ^ k"
  using assms unfolding log_inv_def by blast+

lemma half_div: "n div 2 ^ k = 2 * (n div 2 ^ Suc k) + of_bool (odd (n div 2 ^ k))" for n :: nat
proof -
  have d: "n div 2 ^ Suc k = n div 2 ^ k div 2" by (simp only: power_Suc2 div_mult2_eq)
  show ?thesis unfolding d by (metis mod_2_eq_odd mult_div_mod_eq)
qed

lemma log_step:
  assumes "log_inv h (Suc k) p" "\<And>n. n < 32 \<Longrightarrow> bit m n \<longleftrightarrow> odd (n div 2 ^ k)"
  shows "log_inv h k (ilog2_step m (2 ^ k) p)"
proof -
  obtain i l where p: "p = (i, l)" by (cases p)
  note a = log_invD [OF assms(1), unfolded p fst_conv snd_conv]
  have j: "bit (i AND m) n \<longleftrightarrow> bit i n \<and> odd (n div 2 ^ k)" for n
    using assms(2) bit_imp_le_length [of i n] by (auto simp: bit_and_iff)
  have same: "n div 2 ^ k = h div 2 ^ k" if "bit i n" "odd (n div 2 ^ k) \<longleftrightarrow> odd (h div 2 ^ k)" for n
    using half_div [of n k, unfolded a(3) [OF that(1)] that(2)] half_div [of h k, symmetric] by (rule trans)
  show ?thesis
  proof (cases "odd (h div 2 ^ k)")
    case True
    have "bit (i AND m) h" using True j a(1) by simp
    moreover from this have "i AND m \<noteq> 0" by auto
    moreover have "l + 2 ^ k = 1 + (h div 2 ^ k) * 2 ^ k"
      unfolding a(4) using arg_cong [OF half_div [of h k], of "\<lambda>x. x * 2 ^ k"] True by (simp add: algebra_simps)
    ultimately have "ilog2_step m (2 ^ k) p = (i AND m, 1 + (h div 2 ^ k) * 2 ^ k)" unfolding p by (simp only: ilog2_step_def prod.case Let_def) simp
    moreover have "n \<le> h" if "bit (i AND m) n" for n using that j [of n] a(2) by blast
    moreover have "n div 2 ^ k = h div 2 ^ k" if "bit (i AND m) n" for n using that j [of n] same [of n] True by blast
    ultimately show ?thesis using log_pair [OF \<open>bit (i AND m) h\<close>] by metis
  next
    case False
    have n: "even (n div 2 ^ k)" if "bit i n" for n
    proof (rule ccontr)
      assume "odd (n div 2 ^ k)"
      then have "n div 2 ^ k = Suc (2 * (h div 2 ^ Suc k))" using half_div [of n k] a(3) [OF that] by simp
      moreover have "h div 2 ^ k = 2 * (h div 2 ^ Suc k)" using half_div [of h k] False by simp
      ultimately show False using div_le_mono [OF a(2) [OF that], of "2 ^ k"] by simp
    qed
    then have "i AND m = 0" by (intro bit_word_eqI) (auto simp: j)
    moreover have "l = 1 + (h div 2 ^ k) * 2 ^ k"
      unfolding a(4) using arg_cong [OF half_div [of h k], of "\<lambda>x. x * 2 ^ k"] False by (simp add: algebra_simps)
    ultimately have "ilog2_step m (2 ^ k) p = (i, 1 + (h div 2 ^ k) * 2 ^ k)" unfolding p by (simp only: ilog2_step_def prod.case Let_def) simp
    moreover have "n div 2 ^ k = h div 2 ^ k" if "bit i n" for n using that n [of n] same [of n] False by blast
    ultimately show ?thesis using log_pair [OF a(1,2)] by metis
  qed
qed

text \<open>
  \<^verbatim>\<open>ilog2\<close> is the number of binary digits: five tests find the highest bit of the 32.
\<close>

theorem ilog2_digits:
  assumes "i \<noteq> 0"
  shows "2 ^ (ilog2 i - 1) \<le> unat i \<and> unat i < 2 ^ ilog2 i"
proof -
  define h where "h = Max {n. bit i n}"
  have f: "finite {n. bit i n}" by (rule finite_subset [of _ "{..<32}"]) (auto dest: bit_imp_le_length)
  have "{n. bit i n} \<noteq> {}"
  proof
    assume "{n. bit i n} = {}"
    then have "i = 0" by (intro bit_word_eqI) auto
    then show False using assms by simp
  qed
  then have h: "bit i h" "\<And>n. bit i n \<Longrightarrow> n \<le> h" using Max_in [OF f] Max_ge [OF f] by (auto simp: h_def)
  have z: "n div 2 ^ Suc 4 = 0" if "bit i n" for n using bit_imp_le_length [OF that] by simp
  have l5: "log_inv h (Suc 4) (i, 1)"
  proof (rule log_invI)
    show "n div 2 ^ Suc 4 = h div 2 ^ Suc 4" if "bit (fst (i, 1::nat)) n" for n using z [of n] z [OF h(1)] that by (simp only: fst_conv)
    show "snd (i, 1::nat) = 1 + h div 2 ^ Suc 4 * 2 ^ Suc 4" unfolding z [OF h(1)] by simp
  qed (use h in \<open>simp_all only: fst_conv\<close>)
  define p4 p3 p2 p1 p0 where "p4 = ilog2_step 0xffff0000 (2 ^ 4) (i, 1)" and "p3 = ilog2_step 0xff00ff00 (2 ^ 3) p4"
    and "p2 = ilog2_step 0xf0f0f0f0 (2 ^ 2) p3" and "p1 = ilog2_step 0xcccccccc (2 ^ 1) p2" and "p0 = ilog2_step 0xaaaaaaaa (2 ^ 0) p1"
  note p = p4_def p3_def p2_def p1_def p0_def
  have e: "Suc 3 = 4" "Suc 2 = 3" "Suc 1 = 2" "Suc 0 = 1" by simp_all
  have "log_inv h 4 p4" unfolding p(1) by (rule log_step [OF l5 masks(1)])
  then have "log_inv h 3 p3" unfolding p(2) by (intro log_step [OF _ masks(2)]) (simp only: e)
  then have "log_inv h 2 p2" unfolding p(3) by (intro log_step [OF _ masks(3)]) (simp only: e)
  then have "log_inv h 1 p1" unfolding p(4) by (intro log_step [OF _ masks(4)]) (simp only: e)
  then have "log_inv h 0 p0" unfolding p(5) by (intro log_step [OF _ masks(5)]) (simp only: e)
  then have "snd p0 = h + 1" using log_invD(4) by fastforce
  moreover have "ilog2 i = snd p0" using assms by (simp add: ilog2_def p)
  ultimately have l: "ilog2 i = h + 1" by simp
  have "odd (unat i div 2 ^ h)" using h(1) by (simp add: bit_iff_odd bit_unsigned_iff flip: bit_iff_odd)
  then have "2 ^ h \<le> unat i" using div_less [of "unat i" "2 ^ h"] by (metis even_zero not_less)
  moreover have "take_bit (h + 1) i = i" using h(2) by (intro bit_word_eqI) (fastforce simp: bit_take_bit_iff less_Suc_eq_le)
  then have "unat i < 2 ^ (h + 1)" by (metis unsigned_take_bit_eq take_bit_nat_less_exp)
  ultimately show ?thesis using l by simp
qed

end
