(* ===== verification/Spec2Isabelle.thy ===== *)
theory Spec2Isabelle
  imports NachList BitMap MipsBehaviour CondVar Coff SchedulerSpec UserThread ConsoleText SynchList NetTest ThreadTest Execute
begin

text \<open>
  Verification of the Nachos kernel in \<^verbatim>\<open>src/code\<close>: an instructional operating system in C++ that runs on a
  simulated MIPS machine. This theory collects the development; the theories below it model the program and prove
  the properties that are numbered C1 to C40 in their text blocks.

  \<^bold>\<open>The program and its parts.\<close>
  The simulated hardware is a MIPS processor with paged memory (\<^verbatim>\<open>machine/machine.cc\<close>, \<^verbatim>\<open>translate.cc\<close>,
  \<^verbatim>\<open>mipssim.cc\<close>), a disk (\<^verbatim>\<open>disk.cc\<close>), a console (\<^verbatim>\<open>console.cc\<close>), a network (\<^verbatim>\<open>network.cc\<close>), a timer (\<^verbatim>\<open>timer.cc\<close>) and
  an interrupt controller that also keeps simulated time (\<^verbatim>\<open>interrupt.cc\<close>, \<^verbatim>\<open>stats.cc\<close>). On it the kernel has threads with a scheduler
  (\<^verbatim>\<open>threads/thread.cc\<close>, \<^verbatim>\<open>scheduler.cc\<close>), semaphores, locks and condition variables (\<^verbatim>\<open>synch.cc\<close>), a file
  system (\<^verbatim>\<open>filesys/\<close>), a post office that exchanges messages with other machines (\<^verbatim>\<open>network/\<close>), and user programs with
  their address spaces, threads, processes and system calls (\<^verbatim>\<open>userprog/\<close>). Linked lists (\<^verbatim>\<open>threads/list.cc\<close>) and bitmaps
  (\<^verbatim>\<open>userprog/bitmap.cc\<close>) are used throughout. A system call runs in the thread that traps, works on the file system, the
  console, the scheduler or the table of processes, and returns to the program behind the trap.

  \<^bold>\<open>Conventions.\<close>
  A C++ object is a record, a method a function that takes the object and returns the updated one in the result
  type \<open>'a res\<close>. An error value stands for every way a call does not return: a failed \<^verbatim>\<open>ASSERT\<close>, an access outside
  an array or through a null pointer, a signed overflow, a thread that would block for ever, the end of the machine.
  C++ leaves the middle ones undefined; the model makes them visible. Memory that the code reads before it writes
  it (uninitialised buffers and fields) is an argument of the definition, over which every theorem quantifies.
  Registers, addresses and page numbers are 32-bit words with wrap-around; kernel integers are HOL integers whose
  range is checked where a sum can leave it. The C library's random numbers and the user's exception handler are
  arguments as well.

  \<^bold>\<open>The theories.\<close>

  \<^item> \<^verbatim>\<open>Prelude\<close>: results, C arrays, integers and strings, and the loops of the source as combinators.

  \<^item> \<^verbatim>\<open>NachList\<close> (\<^verbatim>\<open>list.cc\<close>): elements on a heap linked by pointers. Every operation refines the operation on a
    sequence; with keys the list is a stable priority queue.

  \<^item> \<^verbatim>\<open>BitMap\<close> (\<^verbatim>\<open>bitmap.cc\<close>): a packed array of bits refines a set. The locale \<open>allocator\<close> states what a client
    that allocates and releases items relies on; it is interpreted for the bitmap and again for the page frames.

  \<^item> \<^verbatim>\<open>Machine\<close> (\<^verbatim>\<open>machine.cc\<close>, \<^verbatim>\<open>translate.cc\<close>): registers, memory, the page table and the TLB, address
    translation and memory access, traps. \<^verbatim>\<open>MipsMult\<close>, \<^verbatim>\<open>MipsDecode\<close>, \<^verbatim>\<open>MipsSim\<close>, \<^verbatim>\<open>MipsBehaviour\<close>
    (\<^verbatim>\<open>mipssim.cc\<close>): the multiplication loop, instruction decoding, one instruction with its load and branch
    delay slots, and what the instructions compute. \<^verbatim>\<open>Execute\<close> (\<^verbatim>\<open>bin/execute.c\<close>): a stand-alone interpreter of the same instructions,
    and where it agrees with the processor of the kernel.

  \<^item> \<^verbatim>\<open>Synch\<close>, \<^verbatim>\<open>CondVar\<close> (\<^verbatim>\<open>synch.cc\<close>): semaphores, locks and condition variables as step relations in which
    threads interleave between the atomic sections; the invariants hold in every reachable state.

  \<^item> \<^verbatim>\<open>Disk\<close> (\<^verbatim>\<open>disk.cc\<close>, \<^verbatim>\<open>synchdisk.cc\<close>), \<^verbatim>\<open>ByteCodec\<close> (the bytes of a C object), \<^verbatim>\<open>FileHdr\<close>
    (\<^verbatim>\<open>filehdr.cc\<close>), \<^verbatim>\<open>OpenFile\<close> (\<^verbatim>\<open>openfile.cc\<close>), \<^verbatim>\<open>BitMapFile\<close>, \<^verbatim>\<open>Directory\<close> (\<^verbatim>\<open>directory.cc\<close>),
    \<^verbatim>\<open>FileTable\<close> (\<^verbatim>\<open>openfiletable.cc\<close>), \<^verbatim>\<open>FileSys\<close>, \<^verbatim>\<open>FileSysSpec\<close>, \<^verbatim>\<open>FilePaths\<close> (\<^verbatim>\<open>filesys.cc\<close>): the file system
    from the sectors up. Each layer is specified on the content of the disk: a file is a byte sequence spread over
    the sectors of its header, a directory is a finite map from names to headers, and the file system invariant
    \<open>fs_ok\<close> says that directory, free map and headers agree. Locales state the contract of a disk, of a codec and of
    a table of names.

  \<^item> \<^verbatim>\<open>FsTest\<close> (\<^verbatim>\<open>fstest.cc\<close>): the commands that copy a UNIX file into the file system and print a file, and the performance test, as
    clients of the whole file system.

  \<^item> \<^verbatim>\<open>Interrupt\<close> (\<^verbatim>\<open>interrupt.cc\<close>, \<^verbatim>\<open>timer.cc\<close>, \<^verbatim>\<open>stats.cc\<close>): the pending interrupts, simulated time and the devices'
    handlers. The locale \<open>interrupt_devices\<close> is what the simulation relies on in a handler.

  \<^item> \<^verbatim>\<open>FrameProvider\<close> (\<^verbatim>\<open>frameprovider.cc\<close>), \<^verbatim>\<open>AddrSpace\<close>, \<^verbatim>\<open>ProgramLoad\<close> (\<^verbatim>\<open>addrspace.cc\<close>, \<^verbatim>\<open>noff.h\<close>): page
    frames, loading an executable from the file system into frames, and the isolation of processes. \<^verbatim>\<open>Coff\<close>
    (\<^verbatim>\<open>bin/coff2noff.c\<close>): the converter that makes the executables, from the linker's file to the memory of a process.

  \<^item> \<^verbatim>\<open>Scheduler\<close>, \<^verbatim>\<open>SchedulerSpec\<close> (\<^verbatim>\<open>thread.cc\<close>, \<^verbatim>\<open>scheduler.cc\<close>): threads, the ready list and the context switch.
    The state of the scheduler is the world of the interrupt simulation, so that a thread that sleeps idles in the
    model of the interrupts. \<^verbatim>\<open>UserThread\<close> (\<^verbatim>\<open>userthread.cc\<close>): user threads and their tables.

  \<^item> \<^verbatim>\<open>Console\<close> (\<^verbatim>\<open>console.cc\<close>, \<^verbatim>\<open>synchconsole.cc\<close>): the device on the interrupt simulation and the threads that print and read,
    as a step relation that interleaves them with each other and with the interrupts: output is never mixed, input is
    delivered in order. \<^verbatim>\<open>ConsoleText\<close>: lines, integers, and the copies between kernel buffers and the memory of a program.

  \<^item> \<^verbatim>\<open>SynchList\<close> (\<^verbatim>\<open>synchlist.cc\<close>): the synchronised list as steps of interleaved threads over the pointer-level list.
    \<^verbatim>\<open>Network\<close> (\<^verbatim>\<open>network.cc\<close>), \<^verbatim>\<open>Post\<close> (\<^verbatim>\<open>post.cc\<close>): packets, mailboxes and a network of machines as a step relation; the
    post offices refine one queue per mailbox. \<^verbatim>\<open>Reliable\<close> (\<^verbatim>\<open>reliable.cc\<close>): sending with retransmission.
    \<^verbatim>\<open>NetTest\<close> (\<^verbatim>\<open>nettest.cc\<close>): the network tests as programs of several machines. The locale \<open>net_protocol\<close> is the contract between programs
    and the messages in their mailboxes; it is interpreted for each test and gives what the test can print in any interleaving.

  \<^item> \<^verbatim>\<open>UserProcess\<close> (\<^verbatim>\<open>userprocess.cc\<close>, \<^verbatim>\<open>userthread.cc\<close>, \<^verbatim>\<open>progtest.cc\<close>): the kernel state \<open>kern\<close> that the system calls work on,
    processes, waiting and waking. \<^verbatim>\<open>Syscall\<close> (\<^verbatim>\<open>exception.cc\<close>): one definition per case of the handler, the dispatch, and what a
    thread that waited does when it runs again (\<open>resume_syscall\<close>). \<^verbatim>\<open>SyscallSpec\<close>: what the calls do, from the trap to the
    return: strings, file data, bad pointers, semaphores, processes and joins.

  \<^item> \<^verbatim>\<open>Boot\<close> (\<^verbatim>\<open>system.cc\<close>, \<^verbatim>\<open>main.cc\<close>, \<^verbatim>\<open>utility.cc\<close>, \<^verbatim>\<open>progtest.cc\<close>): the command line, the kernel's global objects as
    \<^verbatim>\<open>Initialize\<close> makes them, the loop over the commands of \<^verbatim>\<open>main\<close>, and the console tests. \<^verbatim>\<open>BootSpec\<close>: the kernel starts in a
    state in which the invariants of its parts hold, the options mean what they say, and whole runs of the program from
    the command line to the output. \<^verbatim>\<open>ThreadTest\<close> (\<^verbatim>\<open>threadtest.cc\<close>): the kernel built for the thread test, from \<^verbatim>\<open>main\<close> until no thread is
    left, on the model of the scheduler.

  \<^bold>\<open>Fuel.\<close>
  The loops over pending interrupts (\<open>check_loop\<close>), over a linked list (\<open>walk_insert\<close>) and the wait for a ready thread
  (\<open>await_thread\<close>) take fuel. A tick ends with fuel above the number of pending interrupts, an insertion with fuel
  above the length of the list, and the loop that prints a file (\<open>print_loop\<close>) with fuel above the length of the file; all
  three are proved as results that are reached, not assumed. All other loops count or follow the structure of their data.

  \<^bold>\<open>Not modelled.\<close>
  In the system calls a wait for the disk or the console is one step: the other threads that may run in the meantime are the
  subject of the step relations of their theories. The locks of the open file table and of an address space surround
  whole operations, which are single steps; a condition variable of a space or a process is its queue of waiting threads
  (theory CondVar has the code of \<^verbatim>\<open>Condition\<close>). The random numbers, the UNIX files and the sockets are arguments or lists.
  \<^verbatim>\<open>SWITCH\<close> (assembly) is the transfer of control in the scheduler model. The start of the kernel with random context switches
  (option \<^verbatim>\<open>-rs\<close>) has a model; the theorem on the invariants at start-up is about runs without it. The diagnostic output of
  \<^verbatim>\<open>DEBUG\<close>, the debugger, the shutdown in \<^verbatim>\<open>Cleanup\<close>, the other calls of the host system
  (\<^verbatim>\<open>sysdep.cc\<close>) and the tools in \<^verbatim>\<open>bin/\<close> other than the converter and the interpreter have no model.
\<close>

end
